(* ===== verification/Prelude.thy ===== *)
theory Prelude
  imports Complex_Main "HOL-Library.Multiset" "HOL-Library.Sublist"
begin

text \<open>
  Shared vocabulary of the development. Python exceptions are the values of \<open>py_error\<close>; a
  function that may raise returns \<open>py_error + 'a\<close> (\<open>Inl\<close> the exception, \<open>Inr\<close> the result), and
  \<open>bindE\<close> sequences two such steps, stopping at the first exception. \<open>foldE\<close> is a \<open>for\<close> loop
  whose body may raise. The helpers \<open>cdiv\<close> and \<open>chunk_list\<close> of \<open>vllm/utils.py\<close> and the
  generic lemmas on lists, slices and counting that several components use are here too.
\<close>

section \<open>Python exceptions as values\<close>

datatype py_error =
    AssertionError
  | NoFreeBlocksError
  | ValueError
  | IndexError
  | KeyError
  | TypeError
  | AttributeError
  | NotImplementedError
  | RecursionError
  | RuntimeError
  | FileNotFoundError
  | ZeroDivisionError
  | QueueEmpty
  | StopIteration
  | HTTPException nat

fun bindE :: "'e + 'a \<Rightarrow> ('a \<Rightarrow> 'e + 'b) \<Rightarrow> 'e + 'b" where
  "bindE (Inl e) f = Inl e"
| "bindE (Inr x) f = f x"

definition py_assert :: "bool \<Rightarrow> py_error + unit" where
  "py_assert P = (if P then Inr () else Inl AssertionError)"

definition raise_unless :: "py_error \<Rightarrow> bool \<Rightarrow> py_error + unit" where
  "raise_unless e P = (if P then Inr () else Inl e)"

definition from_option :: "py_error \<Rightarrow> 'a option \<Rightarrow> py_error + 'a" where
  "from_option e m = (case m of None \<Rightarrow> Inl e | Some x \<Rightarrow> Inr x)"

fun foldE :: "('a \<Rightarrow> 's \<Rightarrow> 'e + 's) \<Rightarrow> 'a list \<Rightarrow> 's \<Rightarrow> 'e + 's" where
  "foldE f [] s = Inr s"
| "foldE f (x # xs) s = bindE (f x s) (foldE f xs)"

text \<open>A loop that appends one result per element to a list and threads a state.\<close>

fun collectE :: "('a \<Rightarrow> 's \<Rightarrow> 'e + ('b \<times> 's)) \<Rightarrow> 'a list \<Rightarrow> 's \<Rightarrow> 'e + ('b list \<times> 's)" where
  "collectE f [] s = Inr ([], s)"
| "collectE f (x # xs) s =
     bindE (f x s) (\<lambda>(y, s'). bindE (collectE f xs s') (\<lambda>(ys, s''). Inr (y # ys, s'')))"

named_theorems resultE \<open>case analysis of results that did not raise\<close>

lemma bindE_eq_Inr [simp, resultE]:
  "bindE r f = Inr y \<longleftrightarrow> (\<exists>x. r = Inr x \<and> f x = Inr y)"
  by (cases r) auto

lemma bindE_eq_Inl [resultE]:
  "bindE r f = Inl e \<longleftrightarrow> r = Inl e \<or> (\<exists>x. r = Inr x \<and> f x = Inl e)"
  by (cases r) auto

lemma py_assert_eq_Inr [simp, resultE]: "py_assert P = Inr u \<longleftrightarrow> P"
  by (simp add: py_assert_def)

lemma py_assert_eq_Inl [simp, resultE]: "py_assert P = Inl e \<longleftrightarrow> \<not> P \<and> e = AssertionError"
  by (auto simp: py_assert_def)

lemma py_assert_True [simp]: "P \<Longrightarrow> py_assert P = Inr ()"
  by simp

lemma raise_unless_eq_Inr [simp, resultE]: "raise_unless e P = Inr u \<longleftrightarrow> P"
  by (simp add: raise_unless_def)

lemma raise_unless_True [simp]: "P \<Longrightarrow> raise_unless e P = Inr ()"
  by simp

lemma from_option_eq_Inr [simp, resultE]: "from_option e m = Inr x \<longleftrightarrow> m = Some x"
  by (auto simp: from_option_def split: option.splits)

lemma from_option_Some [simp]: "from_option e (Some x) = Inr x"
  by (simp add: from_option_def)

lemma from_option_None [simp]: "from_option e None = Inl e"
  by (simp add: from_option_def)

lemma not_isl: "\<not> isl x \<Longrightarrow> \<exists>y. x = Inr y"
  by (cases x) auto

text \<open>Loop rules: an invariant the body keeps holds after the loop.\<close>

lemma foldE_inv:
  assumes "foldE f xs s = Inr s'" and "P s"
    and "\<And>x s s'. x \<in> set xs \<Longrightarrow> P s \<Longrightarrow> f x s = Inr s' \<Longrightarrow> P s'"
  shows "P s'"
  using assms by (induction xs arbitrary: s) auto

lemma foldE_total:
  assumes "P s" and "\<And>x s. x \<in> set xs \<Longrightarrow> P s \<Longrightarrow> \<exists>s'. f x s = Inr s' \<and> P s'"
  shows "\<exists>s'. foldE f xs s = Inr s' \<and> P s'"
  using assms
proof (induction xs arbitrary: s)
  case Nil
  then show ?case by simp
next
  case (Cons x xs)
  then obtain s1 where "f x s = Inr s1" "P s1" by (meson list.set_intros(1))
  moreover have "\<exists>s'. foldE f xs s1 = Inr s' \<and> P s'"
    by (rule Cons.IH) (use \<open>P s1\<close> Cons.prems(2) in auto)
  ultimately show ?case by auto
qed

lemma foldE_append:
  "foldE f (xs @ ys) s = bindE (foldE f xs s) (foldE f ys)"
proof (induction xs arbitrary: s)
  case (Cons x xs)
  then show ?case by (cases "f x s") auto
qed simp

lemma collectE_length: "collectE f xs s = Inr (ys, s') \<Longrightarrow> length ys = length xs"
  by (induction xs arbitrary: s ys) auto

section \<open>Ceiling division and chunking (vllm/utils.py)\<close>

definition cdiv :: "int \<Rightarrow> int \<Rightarrow> int" where
  "cdiv a b = - (a div (- b))"

lemma cdiv_nat: "0 < b \<Longrightarrow> cdiv (int a) (int b) = int ((a + b - 1) div b)"
proof -
  assume b: "0 < b"
  let ?q = "a div b" and ?r = "a mod b"
  have a: "a = b * ?q + ?r" by simp
  have r: "?r < b" using b by simp
  have neg: "(- int a) div int b = (if ?r = 0 then - int ?q else - int ?q - 1)"
    using b by (simp add: zdiv_zminus1_eq_if zdiv_int flip: zmod_int)
  have "(a + b - 1) div b = (if ?r = 0 then ?q else ?q + 1)"
  proof (cases "?r = 0")
    case True
    then have "a + b - 1 = b * ?q + (b - 1)" using a b by simp
    then have "(a + b - 1) div b = ?q + (b - 1) div b"
      using b by (metis div_mult_self4 less_numeral_extra(3))
    then show ?thesis using True b by simp
  next
    case False
    then have "1 \<le> a" by (cases a) auto
    moreover have "b * (?q + 1) = b * ?q + b" by simp
    ultimately have "a + b - 1 = b * (?q + 1) + (?r - 1)" using a False b by linarith
    then have "(a + b - 1) div b = ?q + 1 + (?r - 1) div b"
      using b by (metis div_mult_self4 less_numeral_extra(3))
    then show ?thesis using False r by simp
  qed
  moreover have "cdiv (int a) (int b) = - ((- int a) div int b)"
    unfolding cdiv_def by (simp add: div_minus_right)
  ultimately show ?thesis using neg by simp
qed

lemma cdiv_nonneg: "0 < b \<Longrightarrow> 0 \<le> cdiv (int a) (int b)"
  by (simp add: cdiv_nat)

lemma nat_cdiv: "0 < b \<Longrightarrow> nat (cdiv (int a) (int b)) = (a + b - 1) div b"
  by (simp add: cdiv_nat)

lemma ceiling_divide_eq_cdiv: "\<lceil>real_of_int a / real_of_int b\<rceil> = cdiv a b"
  by (simp add: cdiv_def ceiling_divide_eq_div div_minus_right)

text \<open>
  \<open>chunk_list\<close> yields \<open>lst[i : i + chunk_size]\<close> for \<open>i\<close> in \<open>range(0, len(lst), chunk_size)\<close>;
  a zero step is a \<open>ValueError\<close> of \<open>range\<close>.
\<close>

definition chunk_list :: "'a list \<Rightarrow> nat \<Rightarrow> py_error + 'a list list" where
  "chunk_list lst chunk_size =
     (if chunk_size = 0 then Inl ValueError
      else Inr (map (\<lambda>k. take chunk_size (drop (k * chunk_size) lst))
                  [0..<(length lst + chunk_size - 1) div chunk_size]))"

fun chunks :: "nat \<Rightarrow> 'a list \<Rightarrow> 'a list list" where
  "chunks n xs = (if n = 0 \<or> xs = [] then [] else take n xs # chunks n (drop n xs))"

declare chunks.simps [simp del]

lemma chunks_Nil [simp]: "chunks n [] = []"
  by (simp add: chunks.simps)

lemma chunks_step: "0 < n \<Longrightarrow> xs \<noteq> [] \<Longrightarrow> chunks n xs = take n xs # chunks n (drop n xs)"
  by (simp add: chunks.simps)

lemma ceil_div_step:
  assumes "0 < n" "0 < (m::nat)"
  shows "(m + n - 1) div n = Suc ((m - n + n - 1) div n)"
proof (cases "n \<le> m")
  case True
  define k where "k = m - n + n - 1"
  from True have "m + n - 1 = k + n" using assms by (simp add: k_def)
  then have "(m + n - 1) div n = Suc (k div n)" using assms by simp
  then show ?thesis by (simp add: k_def)
next
  case False
  define k where "k = m - 1"
  have "m + n - 1 = k + n" using assms by (simp add: k_def)
  then have "(m + n - 1) div n = Suc (k div n)" using assms by simp
  with False assms show ?thesis by (simp add: k_def)
qed

lemma chunk_list_chunks: "0 < n \<Longrightarrow> chunk_list xs n = Inr (chunks n xs)"
proof (induction n xs rule: chunks.induct)
  case (1 n xs)
  show ?case
  proof (cases "xs = []")
    case True
    then show ?thesis using "1.prems" by (simp add: chunk_list_def)
  next
    case False
    let ?c = "(length (drop n xs) + n - 1) div n"
    have len: "(length xs + n - 1) div n = Suc ?c"
      using ceil_div_step [of n "length xs"] "1.prems" False by simp
    have "map (\<lambda>k. take n (drop (k * n) xs)) [0..<Suc ?c]
        = take n xs # map (\<lambda>k. take n (drop (k * n) (drop n xs))) [0..<?c]"
      by (simp add: upt_conv_Cons map_Suc_upt [symmetric] add.commute del: upt_Suc)
    moreover have "chunk_list (drop n xs) n = Inr (chunks n (drop n xs))"
      using "1.IH" "1.prems" False by simp
    ultimately show ?thesis using "1.prems" False len
      by (simp add: chunk_list_def chunks_step del: length_drop upt_Suc)
  qed
qed

lemma concat_chunks: "0 < n \<Longrightarrow> concat (chunks n xs) = xs"
proof (induction n xs rule: chunks.induct)
  case (1 n xs)
  then show ?case by (cases "xs = []") (simp_all add: chunks_step)
qed

lemma length_chunks: "0 < n \<Longrightarrow> length (chunks n xs) = (length xs + n - 1) div n"
proof (induction n xs rule: chunks.induct)
  case (1 n xs)
  then show ?case
    using ceil_div_step [of n "length xs"] by (cases "xs = []") (simp_all add: chunks_step)
qed

lemma chunks_length_le: "c \<in> set (chunks n xs) \<Longrightarrow> length c \<le> n"
proof (induction n xs rule: chunks.induct)
  case (1 n xs)
  then show ?case by (cases "n = 0 \<or> xs = []") (auto simp: chunks.simps [of n xs])
qed

lemma chunks_nonempty: "c \<in> set (chunks n xs) \<Longrightarrow> c \<noteq> []"
proof (induction n xs rule: chunks.induct)
  case (1 n xs)
  then show ?case by (cases "n = 0 \<or> xs = []") (auto simp: chunks.simps [of n xs])
qed

text \<open>Every chunk but possibly the last one is full.\<close>

lemma butlast_chunks_full: "c \<in> set (butlast (chunks n xs)) \<Longrightarrow> length c = n"
proof (induction n xs rule: chunks.induct)
  case (1 n xs)
  show ?case
  proof (cases "n = 0 \<or> xs = []")
    case True
    then show ?thesis using "1.prems" by (auto simp: chunks.simps [of n xs])
  next
    case False
    then have eq: "chunks n xs = take n xs # chunks n (drop n xs)" by (simp add: chunks_step)
    show ?thesis
    proof (cases "drop n xs = []")
      case True
      then show ?thesis using "1.prems" eq by simp
    next
      case False': False
      then have ne: "chunks n (drop n xs) \<noteq> []" using False by (simp add: chunks_step)
      show ?thesis
      proof (cases "c = take n xs")
        case True
        then show ?thesis using False' by simp
      next
        case False'': False
        then have "c \<in> set (butlast (chunks n (drop n xs)))" using "1.prems" eq ne by auto
        then show ?thesis using "1.IH" False by simp
      qed
    qed
  qed
qed

section \<open>Slices of fixed length\<close>

definition slice :: "nat \<Rightarrow> 'a list \<Rightarrow> nat \<Rightarrow> 'a list" where
  "slice bs T i = take bs (drop (i * bs) T)"

lemma concat_slices: "length T \<le> n * bs \<Longrightarrow> concat (map (slice bs T) [0..<n]) = T"
proof (induction n arbitrary: T)
  case (Suc n)
  have "map (slice bs T) [0..<Suc n] = take bs T # map (slice bs (drop bs T)) [0..<n]"
    by (simp add: slice_def upt_conv_Cons map_Suc_upt [symmetric] add.commute del: upt_Suc)
  moreover have "concat (map (slice bs (drop bs T)) [0..<n]) = drop bs T"
    by (rule Suc.IH) (use Suc.prems in simp)
  ultimately show ?case by (simp del: upt_Suc)
qed simp

lemma concat_slices_take: "m * bs \<le> length T \<Longrightarrow> concat (map (slice bs T) [0..<m]) = take (m * bs) T"
proof (induction m arbitrary: T)
  case (Suc m)
  have "map (slice bs T) [0..<Suc m] = take bs T # map (slice bs (drop bs T)) [0..<m]"
    by (simp add: slice_def upt_conv_Cons map_Suc_upt [symmetric] add.commute del: upt_Suc)
  moreover have "concat (map (slice bs (drop bs T)) [0..<m]) = take (m * bs) (drop bs T)"
    by (rule Suc.IH) (use Suc.prems in simp)
  ultimately show ?case by (simp add: take_add del: upt_Suc)
qed simp

section \<open>Counting\<close>

lemma card_insert_flip:
  "finite A \<Longrightarrow> x \<notin> A \<Longrightarrow> card {y. y = x \<or> y \<in> A} = Suc (card A)"
proof -
  assume "finite A" "x \<notin> A"
  moreover have "{y. y = x \<or> y \<in> A} = insert x A" by auto
  ultimately show ?thesis by simp
qed

lemma hd_notin_tl: "distinct xs \<Longrightarrow> xs \<noteq> [] \<Longrightarrow> hd xs \<notin> set (tl xs)"
  by (cases xs) auto

lemma subseq_distinct: "subseq xs ys \<Longrightarrow> distinct ys \<Longrightarrow> distinct xs"
  by (auto simp: subseq_conv_nths distinct_nthsI)

lemma set_mono_subseq: "subseq xs ys \<Longrightarrow> set xs \<subseteq> set ys"
  by (auto simp: subseq_conv_nths dest: in_set_nthsD)

lemma insort_key_map: "insort_key f (g x) (map g xs) = map g (insort_key (\<lambda>x. f (g x)) x xs)"
  by (induction xs) auto

lemma sort_key_map: "sort_key f (map g xs) = map g (sort_key (\<lambda>x. f (g x)) xs)"
  by (induction xs) (simp_all add: insort_key_map)

section \<open>Dictionaries that keep their insertion order\<close>

text \<open>
  \<open>d[k] = v\<close> on an association list: a present key keeps its place, a new one goes to the end.
  \<open>del d[k]\<close> and \<open>d.pop(k)\<close> drop the key.
\<close>

fun dict_set :: "'k \<Rightarrow> 'v \<Rightarrow> ('k \<times> 'v) list \<Rightarrow> ('k \<times> 'v) list" where
  "dict_set k v [] = [(k, v)]"
| "dict_set k v ((k', v') # d) = (if k = k' then (k, v) # d else (k', v') # dict_set k v d)"

definition dict_del :: "'k \<Rightarrow> ('k \<times> 'v) list \<Rightarrow> ('k \<times> 'v) list" where
  "dict_del k d = filter (\<lambda>(k', _). k' \<noteq> k) d"

lemma dict_set_fresh: "k \<notin> fst ` set d \<Longrightarrow> dict_set k v d = d @ [(k, v)]"
  by (induction k v d rule: dict_set.induct) auto

lemma map_of_dict_set [simp]: "map_of (dict_set k v d) = (map_of d)(k \<mapsto> v)"
  by (induction d) auto

lemma map_of_dict_del [simp]: "map_of (dict_del k d) = (map_of d)(k := None)"
  by (induction d) (auto simp: dict_del_def fun_eq_iff)

lemma keys_dict_set [simp]: "fst ` set (dict_set k v d) = insert k (fst ` set d)"
  by (induction k v d rule: dict_set.induct) (simp_all add: insert_commute)

lemma keys_dict_del [simp]: "fst ` set (dict_del k d) = fst ` set d - {k}"
  by (auto simp: dict_del_def image_iff)

lemma distinct_dict_set [simp]: "distinct (map fst (dict_set k v d)) = distinct (map fst d)"
proof (induction d)
  case (Cons x d)
  then show ?case by (cases x) (use keys_dict_set [of k v d] in \<open>auto simp flip: set_map\<close>)
qed simp

lemma distinct_dict_del [simp]: "distinct (map fst d) \<Longrightarrow> distinct (map fst (dict_del k d))"
  unfolding dict_del_def by (rule distinct_map_filter)

lemma length_dict_set:
  "length (dict_set k v d) = (if k \<in> fst ` set d then length d else Suc (length d))"
  by (induction k v d rule: dict_set.induct) simp_all

text \<open>\<open>os.path.commonprefix\<close> of lists.\<close>

fun common_prefix :: "'a list \<Rightarrow> 'a list \<Rightarrow> 'a list" where
  "common_prefix (x # xs) (y # ys) = (if x = y then x # common_prefix xs ys else [])"
| "common_prefix xs ys = []"

fun common_prefixes :: "'a list list \<Rightarrow> 'a list" where
  "common_prefixes [] = []"
| "common_prefixes [xs] = xs"
| "common_prefixes (xs # xss) = common_prefix xs (common_prefixes xss)"

end
