(* ===== verification/Block_Common.thy ===== *)
theory Block_Common
  imports Prelude
begin

text \<open>
  The building blocks of the block allocators, \<open>vllm/core/block/common.py\<close>: the reference
  counter, the copy-on-write tracker, the pool of pre-allocated block objects, the block list of a
  block table and the cache-hit metric.

  Block objects are mutable and shared (a block keeps a reference to its predecessor), so they
  live in an explicit store: a \<open>bref\<close> is a block object, named by the pool that created it and its
  index in that pool, and a store maps it to the object's fields. \<open>nblock\<close> has the fields of
  \<open>NaiveBlock\<close>; it is an extensible record, so that a \<open>PrefixCachingBlock\<close> can extend it, and the
  pool is polymorphic in the extension with the constructor (\<open>Block.Factory\<close>) as an argument.
\<close>

section \<open>RefCounter\<close>

type_synonym block_id = nat

record ref_counter =
  refcounts :: "block_id \<rightharpoonup> int"

definition ref_counter_init :: "block_id list \<Rightarrow> ref_counter" where
  "ref_counter_init all_block_indices =
     \<lparr>refcounts = (\<lambda>i. if i \<in> set all_block_indices then Some 0 else None)\<rparr>"

definition rc_incr :: "ref_counter \<Rightarrow> block_id \<Rightarrow> py_error + (int \<times> ref_counter)" where
  "rc_incr rc b =
     bindE (from_option AssertionError (refcounts rc b)) (\<lambda>pre.
     bindE (py_assert (pre \<ge> 0)) (\<lambda>_.
     Inr (pre + 1, rc\<lparr>refcounts := (refcounts rc)(b \<mapsto> pre + 1)\<rparr>)))"

definition rc_decr :: "ref_counter \<Rightarrow> block_id \<Rightarrow> py_error + (int \<times> ref_counter)" where
  "rc_decr rc b =
     bindE (from_option AssertionError (refcounts rc b)) (\<lambda>n.
     bindE (py_assert (n > 0)) (\<lambda>_.
     Inr (n - 1, rc\<lparr>refcounts := (refcounts rc)(b \<mapsto> n - 1)\<rparr>)))"

definition rc_get :: "ref_counter \<Rightarrow> block_id \<Rightarrow> py_error + int" where
  "rc_get rc b = from_option AssertionError (refcounts rc b)"

lemma rc_incr_Inr [simp, resultE]:
  "rc_incr rc b = Inr (n, rc') \<longleftrightarrow>
     (\<exists>pre. refcounts rc b = Some pre \<and> pre \<ge> 0 \<and> n = pre + 1 \<and>
       rc' = rc\<lparr>refcounts := (refcounts rc)(b \<mapsto> pre + 1)\<rparr>)"
  by (auto simp: rc_incr_def)

lemma rc_decr_Inr [simp, resultE]:
  "rc_decr rc b = Inr (n, rc') \<longleftrightarrow>
     (\<exists>pre. refcounts rc b = Some pre \<and> pre > 0 \<and> n = pre - 1 \<and>
       rc' = rc\<lparr>refcounts := (refcounts rc)(b \<mapsto> pre - 1)\<rparr>)"
  by (auto simp: rc_decr_def)

lemma rc_get_Inr [simp, resultE]: "rc_get rc b = Inr n \<longleftrightarrow> refcounts rc b = Some n"
  by (simp add: rc_get_def)

section \<open>Block objects and their store\<close>

type_synonym token_id = int
datatype bref = Bref (ref_pool: nat) (ref_idx: nat)

record nblock =
  nb_token_ids :: "token_id list"
  nb_block_size :: nat
  nb_prev_block :: "bref option"
  nb_block_id :: "block_id option"
  nb_pool_id :: nat

type_synonym 'b store = "bref \<Rightarrow> 'b"

definition num_empty_slots :: "'x nblock_scheme \<Rightarrow> int" where
  "num_empty_slots b = int (nb_block_size b) - int (length (nb_token_ids b))"

definition is_full :: "'x nblock_scheme \<Rightarrow> bool" where
  "is_full b \<longleftrightarrow> num_empty_slots b = 0"

definition set_block_id :: "'x nblock_scheme store \<Rightarrow> bref \<Rightarrow> block_id option \<Rightarrow> 'x nblock_scheme store" where
  "set_block_id h r i = h(r := (h r)\<lparr>nb_block_id := i\<rparr>)"

lemma set_block_id_simps [simp]:
  "nb_token_ids (set_block_id h r i x) = nb_token_ids (h x)"
  "nb_block_size (set_block_id h r i x) = nb_block_size (h x)"
  "nb_prev_block (set_block_id h r i x) = nb_prev_block (h x)"
  "nb_pool_id (set_block_id h r i x) = nb_pool_id (h x)"
  "nb_block_id (set_block_id h r i x) = (if x = r then i else nb_block_id (h x))"
  by (simp_all add: set_block_id_def)

section \<open>CopyOnWriteTracker\<close>

record cow_tracker =
  copy_on_writes :: "(block_id \<times> block_id) list"

definition is_appendable :: "ref_counter \<Rightarrow> 'x nblock_scheme \<Rightarrow> py_error + bool" where
  "is_appendable rc block =
     (case nb_block_id block of
        None \<Rightarrow> Inr True
      | Some b \<Rightarrow> bindE (rc_get rc b) (\<lambda>refcount. Inr (refcount \<le> 1)))"

definition record_cow ::
  "cow_tracker \<Rightarrow> block_id option \<Rightarrow> block_id option \<Rightarrow> py_error + cow_tracker" where
  "record_cow t src trg =
     bindE (from_option AssertionError src) (\<lambda>s.
     bindE (from_option AssertionError trg) (\<lambda>d.
     Inr (t\<lparr>copy_on_writes := copy_on_writes t @ [(s, d)]\<rparr>)))"

definition clear_cows :: "cow_tracker \<Rightarrow> (block_id \<times> block_id) list \<times> cow_tracker" where
  "clear_cows t = (copy_on_writes t, t\<lparr>copy_on_writes := []\<rparr>)"

section \<open>BlockPool\<close>

text \<open>
  A pool names its objects \<open>(pool_tag, i)\<close> with \<open>i < pool_size\<close>. A factory builds a block from the
  store (a \<open>PrefixCachingBlock\<close> reads its predecessor), the predecessor, the tokens, the block size
  and the physical block id, and may raise.
\<close>

type_synonym 'b factory =
  "'b store \<Rightarrow> bref option \<Rightarrow> token_id list \<Rightarrow> nat \<Rightarrow> block_id option \<Rightarrow> py_error + 'b"

record block_pool =
  pool_tag :: nat
  pool_block_size :: nat
  pool_size :: nat
  free_ids :: "nat list"

definition create_blocks ::
  "'b factory \<Rightarrow> nat \<Rightarrow> nat \<Rightarrow> nat list \<Rightarrow> 'b store \<Rightarrow> py_error + 'b store" where
  "create_blocks fac tag bs is h =
     foldE (\<lambda>i h. bindE (fac h None [] bs None) (\<lambda>b. Inr (h(Bref tag i := b)))) is h"

definition block_pool_init ::
  "'b factory \<Rightarrow> nat \<Rightarrow> nat \<Rightarrow> nat \<Rightarrow> 'b store \<Rightarrow> py_error + ('b store \<times> block_pool)" where
  "block_pool_init fac tag bs num h =
     bindE (create_blocks fac tag bs [0..<num] h) (\<lambda>h'.
     Inr (h', \<lparr>pool_tag = tag, pool_block_size = bs, pool_size = num, free_ids = [0..<num]\<rparr>))"

definition increase_pool ::
  "'b factory \<Rightarrow> 'b store \<Rightarrow> block_pool \<Rightarrow> py_error + ('b store \<times> block_pool)" where
  "increase_pool fac h p =
     (let cur = pool_size p; new = cur * 2;
          p' = p\<lparr>pool_size := new, free_ids := free_ids p @ [cur..<new]\<rparr>
      in bindE (create_blocks fac (pool_tag p) (pool_block_size p) [cur..<new] h) (\<lambda>h'.
         Inr (h', p')))"

definition init_block ::
  "'x nblock_scheme factory \<Rightarrow> 'x nblock_scheme store \<Rightarrow> block_pool \<Rightarrow> bref option \<Rightarrow>
     token_id list \<Rightarrow> nat \<Rightarrow> block_id option \<Rightarrow>
     py_error + (bref \<times> 'x nblock_scheme store \<times> block_pool)" where
  "init_block fac h p prev_block token_ids block_size physical_block_id =
     bindE (if free_ids p = [] then increase_pool fac h p else Inr (h, p)) (\<lambda>(h, p).
     bindE (py_assert (free_ids p \<noteq> [])) (\<lambda>_.
     let pool_id = hd (free_ids p); p = p\<lparr>free_ids := tl (free_ids p)\<rparr> in
     bindE (raise_unless IndexError (pool_id < pool_size p)) (\<lambda>_.
     bindE (fac h prev_block token_ids block_size physical_block_id) (\<lambda>block.
     let r = Bref (pool_tag p) pool_id in
     Inr (r, h(r := block\<lparr>nb_pool_id := pool_id\<rparr>), p)))))"

definition pool_free_block :: "block_pool \<Rightarrow> 'x nblock_scheme \<Rightarrow> block_pool" where
  "pool_free_block p block = p\<lparr>free_ids := nb_pool_id block # free_ids p\<rparr>"

text \<open>
  The pool is well formed when its free list has no duplicate and holds only indices of the pool;
  an object of the pool that is not in the free list is in use.
\<close>

definition pool_inv :: "block_pool \<Rightarrow> bool" where
  "pool_inv p \<longleftrightarrow> distinct (free_ids p) \<and> set (free_ids p) \<subseteq> {..<pool_size p}"

definition pool_live :: "block_pool \<Rightarrow> bref set" where
  "pool_live p = {r. ref_pool r = pool_tag p \<and> ref_idx r < pool_size p \<and> ref_idx r \<notin> set (free_ids p)}"

lemma finite_pool_live [simp]: "finite (pool_live p)"
proof -
  have "pool_live p \<subseteq> Bref (pool_tag p) ` {..<pool_size p}"
  proof
    fix x assume "x \<in> pool_live p"
    then show "x \<in> Bref (pool_tag p) ` {..<pool_size p}" by (cases x) (auto simp: pool_live_def)
  qed
  then show ?thesis by (rule finite_subset) simp
qed

lemma create_blocks_frame:
  assumes "create_blocks fac tag bs is h = Inr h'" and "\<And>i. i \<in> set is \<Longrightarrow> x \<noteq> Bref tag i"
  shows "h' x = h x"
  using assms unfolding create_blocks_def
  by (induction "is" arbitrary: h) (fastforce simp: fun_upd_other)+

lemma create_blocks_ok:
  assumes "\<And>h. \<exists>b. fac h None [] bs None = Inr b"
  shows "\<exists>h'. create_blocks fac tag bs is h = Inr h'"
  unfolding create_blocks_def
proof (induction "is" arbitrary: h)
  case (Cons i "is")
  obtain b where "fac h None [] bs None = Inr b" using assms by blast
  then show ?case using Cons by simp
qed simp

lemma increase_pool_spec:
  assumes inv: "pool_inv p" and empty: "free_ids p = []"
    and run: "increase_pool fac h p = Inr (h', p')"
  shows "pool_inv p'" "pool_live p' = pool_live p" "pool_tag p' = pool_tag p"
    "\<And>x. x \<in> pool_live p \<or> ref_pool x \<noteq> pool_tag p \<Longrightarrow> h' x = h x"
proof -
  from run have p': "p' = p\<lparr>pool_size := pool_size p * 2,
      free_ids := [pool_size p..<pool_size p * 2]\<rparr>"
    and cr: "create_blocks fac (pool_tag p) (pool_block_size p)
      [pool_size p..<pool_size p * 2] h = Inr h'"
    by (auto simp: increase_pool_def Let_def empty)
  show "pool_inv p'" by (auto simp: p' pool_inv_def)
  show "pool_live p' = pool_live p" using empty by (auto simp: p' pool_live_def)
  show "pool_tag p' = pool_tag p" by (simp add: p')
  fix x assume "x \<in> pool_live p \<or> ref_pool x \<noteq> pool_tag p"
  then show "h' x = h x"
    by (intro create_blocks_frame [OF cr]) (auto simp: pool_live_def)
qed

text \<open>
  What a caller may rely on after \<open>init_block\<close>: the object is new (it was not in use), it is the
  only new one, and no object in use and no object of another pool has changed.
\<close>

lemma init_block_spec:
  assumes inv: "pool_inv p"
    and run: "init_block fac h p prev toks bs pid = Inr (r, h', p')"
  shows "pool_inv p'" "r \<notin> pool_live p" "pool_live p' = insert r (pool_live p)"
    "pool_tag p' = pool_tag p" "ref_pool r = pool_tag p"
    "\<And>x. x \<in> pool_live p \<or> ref_pool x \<noteq> pool_tag p \<Longrightarrow> h' x = h x"
    "\<exists>h0 blk. fac h0 prev toks bs pid = Inr blk \<and> h' r = blk\<lparr>nb_pool_id := ref_idx r\<rparr> \<and>
       (\<forall>x. x \<in> pool_live p \<or> ref_pool x \<noteq> pool_tag p \<longrightarrow> h0 x = h x)"
    "pool_size p \<le> pool_size p'" "pool_block_size p' = pool_block_size p"
proof -
  obtain h0 p0 where step: "(if free_ids p = [] then increase_pool fac h p else Inr (h, p)) = Inr (h0, p0)"
    and ne: "free_ids p0 \<noteq> []" and lt: "hd (free_ids p0) < pool_size p0"
    and r: "r = Bref (pool_tag p0) (hd (free_ids p0))"
    and p': "p' = p0\<lparr>free_ids := tl (free_ids p0)\<rparr>"
    and blk: "\<exists>blk. fac h0 prev toks bs pid = Inr blk \<and> h' = h0(r := blk\<lparr>nb_pool_id := ref_idx r\<rparr>)"
    using run by (auto simp: init_block_def Let_def)
  have "pool_inv p0 \<and> pool_live p0 = pool_live p \<and> pool_tag p0 = pool_tag p \<and>
    (\<forall>x. x \<in> pool_live p \<or> ref_pool x \<noteq> pool_tag p \<longrightarrow> h0 x = h x)"
  proof (cases "free_ids p = []")
    case True
    with step have "increase_pool fac h p = Inr (h0, p0)" by simp
    from increase_pool_spec [OF inv True this] show ?thesis by blast
  qed (use step inv in simp)
  then have p0: "pool_inv p0" "pool_live p0 = pool_live p" "pool_tag p0 = pool_tag p"
    "\<And>x. x \<in> pool_live p \<or> ref_pool x \<noteq> pool_tag p \<Longrightarrow> h0 x = h x"
    by blast+
  have hd: "hd (free_ids p0) \<notin> set (tl (free_ids p0))" "hd (free_ids p0) \<in> set (free_ids p0)"
    using p0(1) ne by (simp_all add: pool_inv_def hd_notin_tl)
  show "pool_inv p'" using p0(1) ne by (auto simp: p' pool_inv_def distinct_tl dest: list.set_sel(2))
  show new: "r \<notin> pool_live p" using hd p0(2) [symmetric] by (simp add: r pool_live_def)
  have "set (free_ids p0) = insert (hd (free_ids p0)) (set (tl (free_ids p0)))"
    using ne by (cases "free_ids p0") auto
  then have "x \<in> pool_live p' \<longleftrightarrow> x \<in> insert r (pool_live p0)" for x
    using hd(1) lt by (cases x) (auto simp: pool_live_def p' r)
  then have "pool_live p' = insert r (pool_live p0)" by blast
  then show "pool_live p' = insert r (pool_live p)" using p0(2) by simp
  show "pool_tag p' = pool_tag p" by (simp add: p' p0)
  show "ref_pool r = pool_tag p" by (simp add: r p0)
  have "pool_size p \<le> pool_size p0 \<and> pool_block_size p0 = pool_block_size p"
    using step by (auto simp: increase_pool_def Let_def split: if_splits)
  then show "pool_size p \<le> pool_size p'" "pool_block_size p' = pool_block_size p" by (simp_all add: p')
  show "\<exists>h0 blk. fac h0 prev toks bs pid = Inr blk \<and> h' r = blk\<lparr>nb_pool_id := ref_idx r\<rparr> \<and>
       (\<forall>x. x \<in> pool_live p \<or> ref_pool x \<noteq> pool_tag p \<longrightarrow> h0 x = h x)"
    using blk p0(4) by force
  fix x assume "x \<in> pool_live p \<or> ref_pool x \<noteq> pool_tag p"
  then have "h0 x = h x" "x \<noteq> r" using p0(4) new \<open>ref_pool r = pool_tag p\<close> by auto
  then show "h' x = h x" using blk by auto
qed

lemma init_block_ok:
  assumes inv: "pool_inv p" and pos: "0 < pool_size p"
    and fac0: "\<And>h. \<exists>b. fac h None [] (pool_block_size p) None = Inr b"
    and fac: "\<And>h. \<exists>b. fac h prev toks bs pid = Inr b"
  shows "\<exists>r h' p'. init_block fac h p prev toks bs pid = Inr (r, h', p')"
proof -
  obtain h0 p0 where step: "(if free_ids p = [] then increase_pool fac h p else Inr (h, p)) = Inr (h0, p0)"
    "free_ids p0 \<noteq> []" "pool_inv p0"
  proof (cases "free_ids p = []")
    case True
    obtain h0 where "create_blocks fac (pool_tag p) (pool_block_size p)
        [pool_size p..<pool_size p * 2] h = Inr h0"
      using create_blocks_ok fac0 by blast
    then have "increase_pool fac h p = Inr (h0, p\<lparr>pool_size := pool_size p * 2,
        free_ids := [pool_size p..<pool_size p * 2]\<rparr>)"
      using True by (simp add: increase_pool_def Let_def)
    with True pos increase_pool_spec(1) [OF inv True this] that show ?thesis by simp
  qed (use inv in auto)
  then have "hd (free_ids p0) < pool_size p0"
    by (metis hd_in_set lessThan_iff pool_inv_def subset_code(1))
  moreover obtain b where "fac h0 prev toks bs pid = Inr b" using fac by blast
  ultimately show ?thesis using step by (auto simp: init_block_def Let_def)
qed

lemma pool_free_block_spec:
  assumes "pool_inv p" "r \<in> pool_live p" "nb_pool_id b = ref_idx r"
  shows "pool_inv (pool_free_block p b)"
    "pool_live (pool_free_block p b) = pool_live p - {r}"
    "pool_tag (pool_free_block p b) = pool_tag p"
  using assms by (auto simp: pool_inv_def pool_live_def pool_free_block_def bref.expand)

section \<open>BlockList\<close>

record block_list =
  bl_blocks :: "bref list"
  bl_block_ids :: "block_id list"

definition bl_update :: "'x nblock_scheme store \<Rightarrow> bref list \<Rightarrow> py_error + block_list" where
  "bl_update h blocks =
     bindE (foldE (\<lambda>r ids. bindE (from_option AssertionError (nb_block_id (h r))) (\<lambda>b. Inr (ids @ [b])))
              blocks []) (\<lambda>ids.
     Inr \<lparr>bl_blocks = blocks, bl_block_ids = ids\<rparr>)"

definition bl_append :: "'x nblock_scheme store \<Rightarrow> block_list \<Rightarrow> bref \<Rightarrow> py_error + block_list" where
  "bl_append h l r =
     bindE (from_option AssertionError (nb_block_id (h r))) (\<lambda>b.
     Inr \<lparr>bl_blocks = bl_blocks l @ [r], bl_block_ids = bl_block_ids l @ [b]\<rparr>)"

definition bl_update_block_id :: "block_list \<Rightarrow> nat \<Rightarrow> block_id option \<Rightarrow> py_error + block_list" where
  "bl_update_block_id l block_index new_block_id =
     bindE (from_option AssertionError new_block_id) (\<lambda>b.
     bindE (raise_unless IndexError (block_index < length (bl_block_ids l))) (\<lambda>_.
     Inr (l\<lparr>bl_block_ids := (bl_block_ids l)[block_index := b]\<rparr>)))"

text \<open>\<open>app\<close> is \<open>block.append_token_ids\<close>, a method of the block's class.\<close>

definition bl_append_token_ids ::
  "('x nblock_scheme store \<Rightarrow> 'a \<Rightarrow> bref \<Rightarrow> token_id list \<Rightarrow> py_error + ('x nblock_scheme store \<times> 'a)) \<Rightarrow>
     'x nblock_scheme store \<Rightarrow> 'a \<Rightarrow> block_list \<Rightarrow> nat \<Rightarrow> token_id list \<Rightarrow>
     py_error + (block_list \<times> 'x nblock_scheme store \<times> 'a)" where
  "bl_append_token_ids app h a l block_index token_ids =
     bindE (raise_unless IndexError (block_index < length (bl_blocks l))) (\<lambda>_.
     let block = bl_blocks l ! block_index; prev_block_id = nb_block_id (h block) in
     bindE (app h a block token_ids) (\<lambda>(h', a').
     bindE (if prev_block_id \<noteq> nb_block_id (h' block)
            then bl_update_block_id l block_index (nb_block_id (h' block)) else Inr l) (\<lambda>l.
     Inr (l, h', a'))))"

definition bl_setitem :: "'x nblock_scheme store \<Rightarrow> block_list \<Rightarrow> nat \<Rightarrow> bref \<Rightarrow> py_error + block_list" where
  "bl_setitem h l block_index new_block =
     bindE (raise_unless IndexError (block_index < length (bl_blocks l))) (\<lambda>_.
     bl_update_block_id (l\<lparr>bl_blocks := (bl_blocks l)[block_index := new_block]\<rparr>) block_index
       (nb_block_id (h new_block)))"

definition bl_reset :: "block_list" where
  "bl_reset = \<lparr>bl_blocks = [], bl_block_ids = []\<rparr>"

text \<open>The cache is right when it holds the physical ids of the blocks, in order.\<close>

definition bl_ok :: "'x nblock_scheme store \<Rightarrow> block_list \<Rightarrow> bool" where
  "bl_ok h l \<longleftrightarrow> map Some (bl_block_ids l) = map (\<lambda>r. nb_block_id (h r)) (bl_blocks l)"

lemma bl_ok_length: "bl_ok h l \<Longrightarrow> length (bl_block_ids l) = length (bl_blocks l)"
  unfolding bl_ok_def by (metis length_map)

lemma bl_ok_cong:
  "bl_ok h l \<Longrightarrow> (\<And>r. r \<in> set (bl_blocks l) \<Longrightarrow> nb_block_id (h' r) = nb_block_id (h r)) \<Longrightarrow> bl_ok h' l"
  unfolding bl_ok_def by simp

lemma bl_update_Inr:
  "bl_update h blocks = Inr l \<longleftrightarrow> bl_blocks l = blocks \<and> bl_ok h l"
proof -
  have "foldE (\<lambda>r ids. bindE (from_option AssertionError (nb_block_id (h r))) (\<lambda>b. Inr (ids @ [b]))) blocks acc = Inr ids
      \<longleftrightarrow> (\<exists>new. ids = acc @ new \<and> map Some new = map (\<lambda>r. nb_block_id (h r)) blocks)" for acc ids
  proof (induction blocks arbitrary: acc)
    case (Cons r blocks)
    show ?case
    proof (cases "nb_block_id (h r)")
      case (Some b)
      then show ?thesis using Cons by (auto simp: Cons_eq_map_conv map_eq_Cons_conv)
    qed auto
  qed auto
  then show ?thesis by (cases l) (auto simp: bl_update_def bl_ok_def)
qed

lemma bl_append_Inr:
  assumes "bl_ok h l"
  shows "bl_append h l r = Inr l' \<longleftrightarrow> bl_blocks l' = bl_blocks l @ [r] \<and> bl_ok h l'"
  using assms by (cases l') (auto simp: bl_append_def bl_ok_def map_eq_append_conv append_eq_map_conv map_eq_Cons_conv)

lemma bl_append_token_ids_spec:
  assumes ok: "bl_ok h l" and dist: "distinct (bl_blocks l)"
    and run: "bl_append_token_ids app h a l i toks = Inr (l', h', a')"
    and frame: "\<And>x. x \<in> set (bl_blocks l) \<Longrightarrow> x \<noteq> bl_blocks l ! i \<Longrightarrow> nb_block_id (h' x) = nb_block_id (h x)"
  shows "bl_ok h' l'" "bl_blocks l' = bl_blocks l" "i < length (bl_blocks l)"
    "app h a (bl_blocks l ! i) toks = Inr (h', a')"
proof -
  let ?r = "bl_blocks l ! i"
  from run show i: "i < length (bl_blocks l)"
    and ap: "app h a ?r toks = Inr (h', a')"
    by (auto simp: bl_append_token_ids_def Let_def)
  from run ap have l': "(if nb_block_id (h ?r) \<noteq> nb_block_id (h' ?r)
      then bl_update_block_id l i (nb_block_id (h' ?r)) else Inr l) = Inr l'"
    by (auto simp: bl_append_token_ids_def Let_def)
  show blocks: "bl_blocks l' = bl_blocks l"
    using l' by (auto simp: bl_update_block_id_def split: if_splits)
  have ids: "map (\<lambda>r. nb_block_id (h' r)) (bl_blocks l)
      = (map (\<lambda>r. nb_block_id (h r)) (bl_blocks l))[i := nb_block_id (h' ?r)]"
  proof (rule nth_equalityI)
    fix k assume "k < length (map (\<lambda>r. nb_block_id (h' r)) (bl_blocks l))"
    then have k: "k < length (bl_blocks l)" by simp
    show "map (\<lambda>r. nb_block_id (h' r)) (bl_blocks l) ! k
        = (map (\<lambda>r. nb_block_id (h r)) (bl_blocks l))[i := nb_block_id (h' ?r)] ! k"
      using k i frame [of "bl_blocks l ! k"] dist
      by (cases "k = i") (auto simp: nth_eq_iff_index_eq)
  qed simp
  show "bl_ok h' l'"
  proof (cases "nb_block_id (h ?r) = nb_block_id (h' ?r)")
    case True
    then have "l' = l" using l' by simp
    moreover have "(map (\<lambda>r. nb_block_id (h r)) (bl_blocks l))[i := nb_block_id (h' ?r)]
        = map (\<lambda>r. nb_block_id (h r)) (bl_blocks l)"
      using True i by (metis (no_types, lifting) list_update_id nth_map)
    ultimately show ?thesis using ok ids by (simp add: bl_ok_def)
  next
    case False
    then obtain b where "nb_block_id (h' ?r) = Some b"
      "l' = l\<lparr>bl_block_ids := (bl_block_ids l)[i := b]\<rparr>"
      using l' by (auto simp: bl_update_block_id_def)
    then show ?thesis using ok ids by (simp add: bl_ok_def map_update)
  qed
qed

section \<open>CacheMetricData\<close>

text \<open>
  Python floats are modelled as reals here, so the statements are about the formula, not its
  rounding.
\<close>

record cache_metric =
  num_completed_blocks :: nat
  completed_block_cache_hit_rate :: real
  num_incompleted_block_queries :: nat
  num_incompleted_block_hit :: nat
  cm_block_size :: nat

definition cache_metric_init :: "nat \<Rightarrow> cache_metric" where
  "cache_metric_init bs = \<lparr>num_completed_blocks = 0, completed_block_cache_hit_rate = 0,
     num_incompleted_block_queries = 0, num_incompleted_block_hit = 0, cm_block_size = bs\<rparr>"

definition cm_query :: "bool \<Rightarrow> cache_metric \<Rightarrow> cache_metric" where
  "cm_query hit m =
     (let q = num_incompleted_block_queries m + 1;
          k = num_incompleted_block_hit m + (if hit then 1 else 0);
          m = m\<lparr>num_incompleted_block_queries := q, num_incompleted_block_hit := k\<rparr>
      in if q = cm_block_size m
         then m\<lparr>completed_block_cache_hit_rate :=
                  (completed_block_cache_hit_rate m * real (num_completed_blocks m) + real k / real q)
                  / (real (num_completed_blocks m) + 1),
                num_incompleted_block_queries := 0, num_incompleted_block_hit := 0,
                num_completed_blocks := num_completed_blocks m + 1\<rparr>
         else m)"

definition get_hit_rate :: "cache_metric \<Rightarrow> real" where
  "get_hit_rate m =
     (let incomplete_ratio = real (num_incompleted_block_queries m) / real (cm_block_size m);
          total_blocks = real (num_completed_blocks m) + incomplete_ratio
      in if total_blocks = 0 then 0
         else let completed = (if num_completed_blocks m > 0
                               then completed_block_cache_hit_rate m * real (num_completed_blocks m) else 0);
                  incompleted = (if num_incompleted_block_queries m > 0
                                 then real (num_incompleted_block_hit m) / real (num_incompleted_block_queries m)
                                      * incomplete_ratio else 0)
              in (completed + incompleted) / total_blocks)"

text \<open>The metric's invariant against the plain counts of queries and hits.\<close>

definition cm_counts :: "cache_metric \<Rightarrow> nat \<Rightarrow> nat \<Rightarrow> bool" where
  "cm_counts m queries hits \<longleftrightarrow>
     0 < cm_block_size m \<and> num_incompleted_block_queries m < cm_block_size m \<and>
     queries = num_completed_blocks m * cm_block_size m + num_incompleted_block_queries m \<and>
     real hits = completed_block_cache_hit_rate m * real (num_completed_blocks m) * real (cm_block_size m)
       + real (num_incompleted_block_hit m) \<and>
     (num_incompleted_block_queries m = 0 \<longrightarrow> num_incompleted_block_hit m = 0)"

lemma cm_counts_query:
  assumes "cm_counts m q k"
  shows "cm_counts (cm_query hit m) (q + 1) (k + (if hit then 1 else 0))"
proof (cases "num_incompleted_block_queries m + 1 = cm_block_size m")
  case True
  define k' where "k' = num_incompleted_block_hit m + (if hit then 1 else 0)"
  define R where "R = completed_block_cache_hit_rate m"
  define c where "c = num_completed_blocks m"
  define B where "B = cm_block_size m"
  define m' where "m' = cm_query hit m"
  have B: "0 < B" using assms by (simp add: cm_counts_def B_def)
  have m': "num_incompleted_block_queries m' = 0" "num_incompleted_block_hit m' = 0"
    "num_completed_blocks m' = c + 1" "cm_block_size m' = B"
    "completed_block_cache_hit_rate m' = (R * real c + real k' / real B) / (real c + 1)"
    using True by (simp_all add: m'_def cm_query_def Let_def k'_def R_def c_def B_def)
  have "(R * real c + real k' / real B) / (real c + 1) * real (c + 1) = R * real c + real k' / real B"
    using of_nat_0_le_iff [of c] by (simp add: add.commute add_nonneg_eq_0_iff)
  then have "(R * real c + real k' / real B) / (real c + 1) * real (c + 1) * real B = R * real c * real B + real k'"
    using B by (simp add: distrib_right)
  moreover have "real k = R * real c * real B + real (num_incompleted_block_hit m)"
    "q + 1 = (c + 1) * B"
    using assms True by (simp_all add: cm_counts_def R_def c_def B_def)
  ultimately have "cm_counts m' (q + 1) (k + (if hit then 1 else 0))"
    using B by (simp add: cm_counts_def m' k'_def)
  then show ?thesis by (simp add: m'_def)
next
  case False
  then show ?thesis using assms by (auto simp: cm_counts_def cm_query_def Let_def)
qed

lemma cm_counts_rate:
  assumes "cm_counts m q k" "0 < q"
  shows "get_hit_rate m = real k / real q"
proof -
  define B where "B = real (cm_block_size m)"
  define c where "c = real (num_completed_blocks m)"
  define i where "i = real (num_incompleted_block_queries m)"
  have B: "0 < B" using assms by (simp add: cm_counts_def B_def)
  have q: "real q = c * B + i" using assms by (simp add: cm_counts_def B_def c_def i_def)
  have k: "real k = completed_block_cache_hit_rate m * c * B + real (num_incompleted_block_hit m)"
    using assms by (simp add: cm_counts_def B_def c_def)
  have pos: "0 < c * B + i" using assms(2) q by simp
  have "c + i / B = (c * B + i) / B" using B by (simp add: field_simps)
  then have tot: "c + i / B \<noteq> 0" using pos B by simp
  define H where "H = real (num_incompleted_block_hit m)"
  define R where "R = completed_block_cache_hit_rate m"
  have "get_hit_rate m = ((if num_completed_blocks m > 0 then R * c else 0)
      + (if num_incompleted_block_queries m > 0 then H / i * (i / B) else 0)) / (c + i / B)"
    using tot by (simp add: get_hit_rate_def Let_def B_def c_def i_def H_def R_def)
  moreover have "(if num_incompleted_block_queries m > 0 then H / i * (i / B) else 0) = H / B"
  proof (cases "num_incompleted_block_queries m > 0")
    case False
    then have "H = 0" using assms(1) by (simp add: cm_counts_def H_def)
    then show ?thesis by simp
  qed (simp add: i_def)
  moreover have "(if num_completed_blocks m > 0 then R * c else 0) = R * c" by (simp add: c_def)
  ultimately have "get_hit_rate m = (R * c + H / B) / (c + i / B)" by simp
  also have "\<dots> = ((R * c + H / B) * B) / ((c + i / B) * B)" using B by simp
  also have "\<dots> = (R * c * B + H) / (c * B + i)" using B by (simp add: distrib_right)
  also have "\<dots> = real k / real q" using q k by (simp add: R_def H_def)
  finally show ?thesis .
qed

lemma cm_counts_fold:
  assumes "0 < bs"
  shows "cm_counts (fold cm_query hits (cache_metric_init bs)) (length hits) (length (filter id hits))"
proof (induction hits rule: rev_induct)
  case Nil
  then show ?case using assms by (simp add: cm_counts_def cache_metric_init_def)
next
  case (snoc x xs)
  then show ?case using cm_counts_query [OF snoc, of x] by (cases x) simp_all
qed

end
