(* ===== verification/Block_Interfaces.thy ===== *)
theory Block_Interfaces
  imports Block_Common
begin

text \<open>
  \<open>vllm/core/block/interfaces.py\<close>: the abstract classes \<open>BlockAllocator\<close> (one device) and
  \<open>DeviceAwareBlockAllocator\<close>, as records of operations through which a client calls an
  implementation, and the contracts the clients rely on, as locales. \<open>append_token_ids\<close> is a method
  of \<open>Block\<close> in the code; it is listed with the allocator because it acts on the block's allocator.
\<close>

section \<open>Chains of new blocks\<close>

fun chained :: "'x nblock_scheme store \<Rightarrow> bref option \<Rightarrow> bref list \<Rightarrow> bool" where
  "chained h prev [] \<longleftrightarrow> True"
| "chained h prev (r # rs) \<longleftrightarrow> nb_prev_block (h r) = prev \<and> chained h (Some r) rs"

lemma chained_cong: "(\<And>r. r \<in> set rs \<Longrightarrow> nb_prev_block (h' r) = nb_prev_block (h r)) \<Longrightarrow>
    chained h' prev rs = chained h prev rs"
  by (induction rs arbitrary: prev) auto

lemma chained_append:
  "chained h prev (xs @ ys) \<longleftrightarrow>
     chained h prev xs \<and> chained h (if xs = [] then prev else Some (last xs)) ys"
  by (induction xs arbitrary: prev) auto

text \<open>
  \<open>created L t bs h L' h' prev rs\<close>: with the objects \<open>L\<close> in use, exactly the objects \<open>rs\<close> of pool \<open>t\<close>
  were created, linked one after the other behind \<open>prev\<close>, and nothing else was disturbed.
\<close>

definition created ::
  "bref set \<Rightarrow> nat \<Rightarrow> nat \<Rightarrow> 'x nblock_scheme store \<Rightarrow> bref set \<Rightarrow> 'x nblock_scheme store \<Rightarrow>
     bref option \<Rightarrow> bref list \<Rightarrow> bool" where
  "created L t bs h L' h' prev rs \<longleftrightarrow>
     distinct rs \<and> set rs \<inter> L = {} \<and> L' = L \<union> set rs \<and>
     (\<forall>x. x \<in> L \<or> ref_pool x \<noteq> t \<longrightarrow> h' x = h x) \<and> chained h' prev rs \<and>
     (\<forall>r \<in> set rs. ref_pool r = t \<and> nb_block_size (h' r) = bs)"

lemma createdD:
  assumes "created L t bs h L' h' prev rs"
  shows "distinct rs" "set rs \<inter> L = {}" "L' = L \<union> set rs" "\<And>x. x \<in> L \<Longrightarrow> h' x = h x"
    "\<And>x. ref_pool x \<noteq> t \<Longrightarrow> h' x = h x" "chained h' prev rs"
    "\<And>r. r \<in> set rs \<Longrightarrow> ref_pool r = t" "\<And>r. r \<in> set rs \<Longrightarrow> nb_block_size (h' r) = bs"
  using assms by (auto simp: created_def)

section \<open>BlockAllocator\<close>

record ('x, 'a) allocator_ops =
  op_allocate_mutable_block ::
    "'x nblock_scheme store \<Rightarrow> 'a \<Rightarrow> bref option \<Rightarrow> py_error + (bref \<times> 'x nblock_scheme store \<times> 'a)"
  op_allocate_immutable_block ::
    "'x nblock_scheme store \<Rightarrow> 'a \<Rightarrow> bref option \<Rightarrow> token_id list \<Rightarrow>
       py_error + (bref \<times> 'x nblock_scheme store \<times> 'a)"
  op_allocate_immutable_blocks ::
    "'x nblock_scheme store \<Rightarrow> 'a \<Rightarrow> bref option \<Rightarrow> token_id list list \<Rightarrow>
       py_error + (bref list \<times> 'x nblock_scheme store \<times> 'a)"
  op_append_token_ids ::
    "'x nblock_scheme store \<Rightarrow> 'a \<Rightarrow> bref \<Rightarrow> token_id list \<Rightarrow> py_error + ('x nblock_scheme store \<times> 'a)"
  op_free :: "'x nblock_scheme store \<Rightarrow> 'a \<Rightarrow> bref \<Rightarrow> py_error + ('x nblock_scheme store \<times> 'a)"
  op_fork :: "'x nblock_scheme store \<Rightarrow> 'a \<Rightarrow> bref \<Rightarrow>
       py_error + (bref list \<times> 'x nblock_scheme store \<times> 'a)"
  op_swap_out :: "'x nblock_scheme store \<Rightarrow> 'a \<Rightarrow> bref list \<Rightarrow> py_error + ('x nblock_scheme store \<times> 'a)"
  op_swap_in :: "'x nblock_scheme store \<Rightarrow> 'a \<Rightarrow> bref list \<Rightarrow> py_error + ('x nblock_scheme store \<times> 'a)"
  op_get_num_total_blocks :: "'a \<Rightarrow> nat"
  op_get_num_free_blocks :: "'a \<Rightarrow> nat"
  op_get_physical_block_id :: "'a \<Rightarrow> nat \<Rightarrow> py_error + nat"
  op_all_block_ids :: "'a \<Rightarrow> block_id set"
  op_clear_copy_on_writes :: "'a \<Rightarrow> (block_id \<times> block_id) list \<times> 'a"
  op_mark_blocks_as_accessed :: "'a \<Rightarrow> block_id list \<Rightarrow> real \<Rightarrow> py_error + 'a"
  op_mark_blocks_as_computed :: "'a \<Rightarrow> block_id list \<Rightarrow> py_error + 'a"
  op_get_computed_block_ids :: "'a \<Rightarrow> block_id list \<Rightarrow> block_id list \<Rightarrow> bool \<Rightarrow> py_error + block_id list"
  op_get_common_computed_block_ids :: "'a \<Rightarrow> block_id list list \<Rightarrow> block_id list"
  op_get_num_full_blocks_touched :: "'x nblock_scheme store \<Rightarrow> 'a \<Rightarrow> bref list \<Rightarrow> py_error + nat"
  op_pool_tag :: "'a \<Rightarrow> nat"

text \<open>
  The contract: \<open>inv h a\<close> is the implementation's invariant when every object in use (\<open>live\<close>) is
  resident, that is, has one of the allocator's physical blocks. It depends on the objects in use
  only, so that two allocators can share a store.
\<close>

locale block_allocator =
  fixes ops :: "('x, 'a) allocator_ops"
    and inv :: "'x nblock_scheme store \<Rightarrow> 'a \<Rightarrow> bool"
    and live :: "'a \<Rightarrow> bref set"
    and bsize :: "'a \<Rightarrow> nat"
  assumes live_tag: "inv h a \<Longrightarrow> r \<in> live a \<Longrightarrow> ref_pool r = op_pool_tag ops a"
    and live_resident: "inv h a \<Longrightarrow> r \<in> live a \<Longrightarrow>
      \<exists>b \<in> op_all_block_ids ops a. nb_block_id (h r) = Some b"
    and inv_cong: "inv h a \<Longrightarrow> (\<And>x. x \<in> live a \<Longrightarrow> h' x = h x) \<Longrightarrow> inv h' a"
    and mutable_law: "inv h a \<Longrightarrow> op_allocate_mutable_block ops h a prev = Inr (r, h', a') \<Longrightarrow>
      inv h' a' \<and> created (live a) (op_pool_tag ops a) (bsize a) h (live a') h' prev [r] \<and>
      nb_token_ids (h' r) = [] \<and> op_pool_tag ops a' = op_pool_tag ops a \<and> bsize a' = bsize a \<and>
      op_all_block_ids ops a' = op_all_block_ids ops a"
    and immutables_law: "inv h a \<Longrightarrow>
      op_allocate_immutable_blocks ops h a prev toks = Inr (rs, h', a') \<Longrightarrow>
      (\<And>t. t \<in> set toks \<Longrightarrow> length t = bsize a) \<Longrightarrow>
      inv h' a' \<and> created (live a) (op_pool_tag ops a) (bsize a) h (live a') h' prev rs \<and>
      map (\<lambda>r. nb_token_ids (h' r)) rs = toks \<and> op_pool_tag ops a' = op_pool_tag ops a \<and>
      bsize a' = bsize a \<and> op_all_block_ids ops a' = op_all_block_ids ops a"
    and append_law: "inv h a \<Longrightarrow> r \<in> live a \<Longrightarrow> op_append_token_ids ops h a r ts = Inr (h', a') \<Longrightarrow>
      inv h' a' \<and> live a' = live a \<and> (\<forall>x. x \<noteq> r \<longrightarrow> h' x = h x) \<and>
      nb_token_ids (h' r) = nb_token_ids (h r) @ ts \<and> nb_prev_block (h' r) = nb_prev_block (h r) \<and>
      nb_block_size (h' r) = nb_block_size (h r) \<and>
      op_pool_tag ops a' = op_pool_tag ops a \<and> bsize a' = bsize a \<and>
      op_all_block_ids ops a' = op_all_block_ids ops a"
    and free_law: "inv h a \<Longrightarrow> r \<in> live a \<Longrightarrow> op_free ops h a r = Inr (h', a') \<Longrightarrow>
      inv h' a' \<and> live a' = live a - {r} \<and> (\<forall>x. x \<noteq> r \<longrightarrow> h' x = h x) \<and>
      op_pool_tag ops a' = op_pool_tag ops a \<and> bsize a' = bsize a \<and>
      op_all_block_ids ops a' = op_all_block_ids ops a"
    and fork_law: "inv h a \<Longrightarrow> chained h None bs \<Longrightarrow> bs \<noteq> [] \<Longrightarrow> set bs \<subseteq> live a \<Longrightarrow>
      op_fork ops h a (last bs) = Inr (rs, h', a') \<Longrightarrow>
      inv h' a' \<and> created (live a) (op_pool_tag ops a) (bsize a) h (live a') h' None rs \<and>
      map (\<lambda>r. (nb_token_ids (h' r), nb_block_id (h' r))) rs
        = map (\<lambda>r. (nb_token_ids (h r), nb_block_id (h r))) bs \<and>
      op_pool_tag ops a' = op_pool_tag ops a \<and> bsize a' = bsize a \<and>
      op_all_block_ids ops a' = op_all_block_ids ops a"

section \<open>DeviceAwareBlockAllocator\<close>

datatype device = GPU | CPU

record ('x, 'a) device_allocator_ops =
  d_allocate_mutable_block ::
    "'x nblock_scheme store \<Rightarrow> 'a \<Rightarrow> bref option \<Rightarrow> device \<Rightarrow>
       py_error + (bref \<times> 'x nblock_scheme store \<times> 'a)"
  d_allocate_immutable_blocks ::
    "'x nblock_scheme store \<Rightarrow> 'a \<Rightarrow> bref option \<Rightarrow> token_id list list \<Rightarrow> device \<Rightarrow>
       py_error + (bref list \<times> 'x nblock_scheme store \<times> 'a)"
  d_append_token_ids ::
    "'x nblock_scheme store \<Rightarrow> 'a \<Rightarrow> bref \<Rightarrow> token_id list \<Rightarrow> py_error + ('x nblock_scheme store \<times> 'a)"
  d_free :: "'x nblock_scheme store \<Rightarrow> 'a \<Rightarrow> bref \<Rightarrow> py_error + ('x nblock_scheme store \<times> 'a)"
  d_fork :: "'x nblock_scheme store \<Rightarrow> 'a \<Rightarrow> bref \<Rightarrow>
       py_error + (bref list \<times> 'x nblock_scheme store \<times> 'a)"
  d_allocate_or_get_null_block ::
    "'x nblock_scheme store \<Rightarrow> 'a \<Rightarrow> py_error + (bref \<times> 'x nblock_scheme store \<times> 'a)"

text \<open>
  \<open>usable A r\<close>: \<open>r\<close> is an object in use that is not the null block. \<open>fresh_chain U h U' h' prev rs\<close> is
  \<open>created\<close> for the client of both devices; \<open>pool_of dev\<close> is the pool of the device's blocks.
\<close>

definition fresh_chain ::
  "bref set \<Rightarrow> nat \<Rightarrow> 'x nblock_scheme store \<Rightarrow> bref set \<Rightarrow> 'x nblock_scheme store \<Rightarrow> bref option \<Rightarrow>
     bref list \<Rightarrow> bool" where
  "fresh_chain U bs h U' h' prev rs \<longleftrightarrow>
     distinct rs \<and> set rs \<inter> U = {} \<and> U' = U \<union> set rs \<and> (\<forall>x \<in> U. h' x = h x) \<and>
     chained h' prev rs \<and> (\<forall>r \<in> set rs. nb_block_size (h' r) = bs)"

locale device_allocator =
  fixes ops :: "('x, 'a) device_allocator_ops"
    and inv :: "'x nblock_scheme store \<Rightarrow> 'a \<Rightarrow> bool"
    and usable :: "'a \<Rightarrow> bref set"
    and bsize :: nat
    and pool_of :: "device \<Rightarrow> nat"
  assumes resident: "inv h a \<Longrightarrow> r \<in> usable a \<Longrightarrow> nb_block_id (h r) \<noteq> None"
    and d_mutable_law: "inv h a \<Longrightarrow> d_allocate_mutable_block ops h a prev dev = Inr (r, h', a') \<Longrightarrow>
      inv h' a' \<and> fresh_chain (usable a) bsize h (usable a') h' prev [r] \<and>
      nb_token_ids (h' r) = [] \<and> ref_pool r = pool_of dev"
    and d_immutables_law: "inv h a \<Longrightarrow>
      d_allocate_immutable_blocks ops h a prev toks dev = Inr (rs, h', a') \<Longrightarrow>
      (\<And>t. t \<in> set toks \<Longrightarrow> length t = bsize) \<Longrightarrow>
      inv h' a' \<and> fresh_chain (usable a) bsize h (usable a') h' prev rs \<and>
      map (\<lambda>r. nb_token_ids (h' r)) rs = toks \<and> (\<forall>r \<in> set rs. ref_pool r = pool_of dev)"
    and d_append_law: "inv h a \<Longrightarrow> r \<in> usable a \<Longrightarrow> d_append_token_ids ops h a r ts = Inr (h', a') \<Longrightarrow>
      inv h' a' \<and> usable a' = usable a \<and> (\<forall>x \<in> usable a. x \<noteq> r \<longrightarrow> h' x = h x) \<and>
      nb_token_ids (h' r) = nb_token_ids (h r) @ ts \<and> nb_prev_block (h' r) = nb_prev_block (h r) \<and>
      nb_block_size (h' r) = nb_block_size (h r)"
    and d_free_law: "inv h a \<Longrightarrow> r \<in> usable a \<Longrightarrow> d_free ops h a r = Inr (h', a') \<Longrightarrow>
      inv h' a' \<and> usable a' = usable a - {r} \<and> (\<forall>x \<in> usable a. x \<noteq> r \<longrightarrow> h' x = h x)"
    and d_fork_law: "inv h a \<Longrightarrow> chained h None bs \<Longrightarrow> bs \<noteq> [] \<Longrightarrow> set bs \<subseteq> usable a \<Longrightarrow>
      (\<And>r. r \<in> set bs \<Longrightarrow> ref_pool r = pool_of dev) \<Longrightarrow>
      d_fork ops h a (last bs) = Inr (rs, h', a') \<Longrightarrow>
      inv h' a' \<and> fresh_chain (usable a) bsize h (usable a') h' None rs \<and>
      map (\<lambda>r. (nb_token_ids (h' r), nb_block_id (h' r))) rs
        = map (\<lambda>r. (nb_token_ids (h r), nb_block_id (h r))) bs \<and>
      (\<forall>r \<in> set rs. ref_pool r = pool_of dev)"
    and d_null_law: "inv h a \<Longrightarrow> d_allocate_or_get_null_block ops h a = Inr (n, h', a') \<Longrightarrow>
      inv h' a' \<and> usable a' = usable a \<and> n \<notin> usable a \<and> (\<forall>x \<in> usable a. h' x = h x) \<and>
      nb_block_id (h' n) \<noteq> None"

end
