(* ===== verification/Naive_Block.thy ===== *)
theory Naive_Block
  imports Block_Interfaces
begin

text \<open>
  \<open>vllm/core/block/naive_block.py\<close>: \<open>NaiveBlock\<close> and \<open>NaiveBlockAllocator\<close>. An operation takes the
  store of block objects and the allocator and returns both, updated. The block factory is an
  argument (\<open>create_block\<close> of the constructor): the prefix caching allocator reuses this allocator
  with its own blocks.
\<close>

section \<open>NaiveBlock\<close>

definition append_token_ids_no_cow ::
  "'x nblock_scheme \<Rightarrow> token_id list \<Rightarrow> py_error + 'x nblock_scheme" where
  "append_token_ids_no_cow b token_ids =
     (if length token_ids = 0 then Inr b
      else bindE (py_assert (int (length token_ids) \<le> num_empty_slots b)) (\<lambda>_.
           Inr (b\<lparr>nb_token_ids := nb_token_ids b @ token_ids\<rparr>)))"

definition naive_block_init :: "nblock factory" where
  "naive_block_init h prev_block token_ids block_size block_id =
     append_token_ids_no_cow
       \<lparr>nb_token_ids = [], nb_block_size = block_size, nb_prev_block = prev_block,
        nb_block_id = block_id, nb_pool_id = 0\<rparr> token_ids"

section \<open>NaiveBlockAllocator\<close>

record naive_allocator =
  free_block_indices :: "block_id list"
  all_block_indices :: "block_id set"
  refcounter :: ref_counter
  na_block_size :: nat
  na_cow_tracker :: cow_tracker
  na_block_pool :: block_pool

text \<open>
  The constructor with the block ids already resolved (\<open>range(num_blocks)\<close> when none are given);
  \<open>pool\<close> is the caller's pool, if any.
\<close>

definition naive_allocator_init ::
  "'x nblock_scheme factory \<Rightarrow> nat \<Rightarrow> nat \<Rightarrow> nat \<Rightarrow> block_id list \<Rightarrow> block_pool option \<Rightarrow>
     'x nblock_scheme store \<Rightarrow> py_error + ('x nblock_scheme store \<times> naive_allocator)" where
  "naive_allocator_init create_block tag num_blocks block_size block_ids pool h =
     bindE (py_assert (card (set block_ids) = num_blocks)) (\<lambda>_.
     bindE (case pool of
              None \<Rightarrow> block_pool_init create_block tag block_size (num_blocks * 4) h
            | Some p \<Rightarrow> Inr (h, p)) (\<lambda>(h, p).
     Inr (h, \<lparr>free_block_indices = block_ids, all_block_indices = set block_ids,
              refcounter = ref_counter_init block_ids, na_block_size = block_size,
              na_cow_tracker = \<lparr>copy_on_writes = []\<rparr>, na_block_pool = p\<rparr>)))"

definition allocate_block_id :: "naive_allocator \<Rightarrow> py_error + (block_id \<times> naive_allocator)" where
  "allocate_block_id a =
     (case free_block_indices a of
        [] \<Rightarrow> Inl NoFreeBlocksError
      | b # bs \<Rightarrow>
          bindE (rc_incr (refcounter a) b) (\<lambda>(_, rc).
          Inr (b, a\<lparr>free_block_indices := bs, refcounter := rc\<rparr>)))"

definition free_block_id ::
  "'x nblock_scheme store \<Rightarrow> naive_allocator \<Rightarrow> bref \<Rightarrow>
     py_error + ('x nblock_scheme store \<times> naive_allocator)" where
  "free_block_id h a block =
     bindE (from_option AssertionError (nb_block_id (h block))) (\<lambda>b.
     bindE (rc_decr (refcounter a) b) (\<lambda>(refcount, rc).
     let a = a\<lparr>refcounter := rc\<rparr>;
         a = (if refcount = 0 then a\<lparr>free_block_indices := b # free_block_indices a\<rparr> else a)
     in Inr (set_block_id h block None, a)))"

definition naive_free ::
  "'x nblock_scheme store \<Rightarrow> naive_allocator \<Rightarrow> bref \<Rightarrow> bool \<Rightarrow>
     py_error + ('x nblock_scheme store \<times> naive_allocator)" where
  "naive_free h a block keep_block_object =
     bindE (free_block_id h a block) (\<lambda>(h, a).
     if keep_block_object then Inr (h, a)
     else Inr (h, a\<lparr>na_block_pool := pool_free_block (na_block_pool a) (h block)\<rparr>))"

definition cow_block_if_not_appendable ::
  "'x nblock_scheme store \<Rightarrow> naive_allocator \<Rightarrow> bref \<Rightarrow>
     py_error + (block_id \<times> 'x nblock_scheme store \<times> naive_allocator)" where
  "cow_block_if_not_appendable h a block =
     bindE (from_option AssertionError (nb_block_id (h block))) (\<lambda>src.
     bindE (is_appendable (refcounter a) (h block)) (\<lambda>ok.
     if ok then Inr (src, h, a)
     else
       bindE (free_block_id h a block) (\<lambda>(h, a).
       bindE (allocate_block_id a) (\<lambda>(trg, a).
       bindE (record_cow (na_cow_tracker a) (Some src) (Some trg)) (\<lambda>t.
       Inr (trg, h, a\<lparr>na_cow_tracker := t\<rparr>))))))"

text \<open>\<open>NaiveBlock.append_token_ids\<close>; the block's \<open>_cow_target\<close> is the block itself.\<close>

definition naive_append_token_ids ::
  "'x nblock_scheme store \<Rightarrow> naive_allocator \<Rightarrow> bref \<Rightarrow> token_id list \<Rightarrow>
     py_error + ('x nblock_scheme store \<times> naive_allocator)" where
  "naive_append_token_ids h a block token_ids =
     bindE (append_token_ids_no_cow (h block) token_ids) (\<lambda>b.
     let h = h(block := b) in
     if nb_block_id b = None then Inr (h, a)
     else bindE (cow_block_if_not_appendable h a block) (\<lambda>(i, h, a).
          Inr (set_block_id h block (Some i), a)))"

definition naive_allocate_mutable_block ::
  "'x nblock_scheme factory \<Rightarrow> 'x nblock_scheme store \<Rightarrow> naive_allocator \<Rightarrow> bref option \<Rightarrow>
     py_error + (bref \<times> 'x nblock_scheme store \<times> naive_allocator)" where
  "naive_allocate_mutable_block create_block h a prev_block =
     bindE (allocate_block_id a) (\<lambda>(b, a).
     bindE (init_block create_block h (na_block_pool a) prev_block [] (na_block_size a) (Some b))
       (\<lambda>(r, h, p). Inr (r, h, a\<lparr>na_block_pool := p\<rparr>)))"

definition naive_allocate_immutable_block ::
  "'x nblock_scheme factory \<Rightarrow> 'x nblock_scheme store \<Rightarrow> naive_allocator \<Rightarrow> bref option \<Rightarrow>
     token_id list \<Rightarrow> py_error + (bref \<times> 'x nblock_scheme store \<times> naive_allocator)" where
  "naive_allocate_immutable_block create_block h a prev_block token_ids =
     bindE (naive_allocate_mutable_block create_block h a prev_block) (\<lambda>(r, h, a).
     bindE (naive_append_token_ids h a r token_ids) (\<lambda>(h, a). Inr (r, h, a)))"

fun allocate_block_ids :: "nat \<Rightarrow> naive_allocator \<Rightarrow> py_error + (block_id list \<times> naive_allocator)" where
  "allocate_block_ids 0 a = Inr ([], a)"
| "allocate_block_ids (Suc n) a =
     bindE (allocate_block_id a) (\<lambda>(b, a).
     bindE (allocate_block_ids n a) (\<lambda>(bs, a). Inr (b # bs, a)))"

fun init_blocks ::
  "'x nblock_scheme factory \<Rightarrow> 'x nblock_scheme store \<Rightarrow> naive_allocator \<Rightarrow> bref option \<Rightarrow>
     (token_id list \<times> block_id) list \<Rightarrow>
     py_error + (bref list \<times> 'x nblock_scheme store \<times> naive_allocator)" where
  "init_blocks create_block h a prev_block [] = Inr ([], h, a)"
| "init_blocks create_block h a prev_block ((toks, b) # rest) =
     bindE (init_block create_block h (na_block_pool a) prev_block toks (na_block_size a) (Some b))
       (\<lambda>(r, h, p).
     bindE (init_blocks create_block h (a\<lparr>na_block_pool := p\<rparr>) (Some r) rest) (\<lambda>(rs, h, a).
     Inr (r # rs, h, a)))"

definition naive_allocate_immutable_blocks ::
  "'x nblock_scheme factory \<Rightarrow> 'x nblock_scheme store \<Rightarrow> naive_allocator \<Rightarrow> bref option \<Rightarrow>
     token_id list list \<Rightarrow> py_error + (bref list \<times> 'x nblock_scheme store \<times> naive_allocator)" where
  "naive_allocate_immutable_blocks create_block h a prev_block block_token_ids =
     bindE (allocate_block_ids (length block_token_ids) a) (\<lambda>(ids, a).
     init_blocks create_block h a prev_block (zip block_token_ids ids))"

text \<open>
  \<open>get_all_blocks_recursively\<close> (common.py) follows the \<open>prev_block\<close> links; \<open>depth\<close> is the
  interpreter's remaining recursion depth, whose exhaustion is a \<open>RecursionError\<close>.
\<close>

fun get_all_blocks_recursively ::
  "nat \<Rightarrow> 'x nblock_scheme store \<Rightarrow> bref \<Rightarrow> py_error + bref list" where
  "get_all_blocks_recursively 0 h last_block = Inl RecursionError"
| "get_all_blocks_recursively (Suc depth) h last_block =
     bindE (case nb_prev_block (h last_block) of
              None \<Rightarrow> Inr []
            | Some p \<Rightarrow> get_all_blocks_recursively depth h p) (\<lambda>lst.
     Inr (lst @ [last_block]))"

fun fork_blocks ::
  "'x nblock_scheme factory \<Rightarrow> 'x nblock_scheme store \<Rightarrow> naive_allocator \<Rightarrow> bref option \<Rightarrow>
     bref list \<Rightarrow> py_error + (bref list \<times> 'x nblock_scheme store \<times> naive_allocator)" where
  "fork_blocks create_block h a prev_block [] = Inr ([], h, a)"
| "fork_blocks create_block h a prev_block (block # blocks) =
     bindE (from_option AssertionError (nb_block_id (h block))) (\<lambda>b.
     bindE (rc_incr (refcounter a) b) (\<lambda>(refcount, rc).
     bindE (py_assert (refcount \<noteq> 1)) (\<lambda>_.
     bindE (init_block create_block h (na_block_pool a) prev_block (nb_token_ids (h block))
              (na_block_size a) (Some b)) (\<lambda>(r, h, p).
     bindE (fork_blocks create_block h (a\<lparr>refcounter := rc, na_block_pool := p\<rparr>) (Some r) blocks)
       (\<lambda>(rs, h, a). Inr (r # rs, h, a))))))"

definition naive_fork ::
  "'x nblock_scheme factory \<Rightarrow> nat \<Rightarrow> 'x nblock_scheme store \<Rightarrow> naive_allocator \<Rightarrow> bref \<Rightarrow>
     py_error + (bref list \<times> 'x nblock_scheme store \<times> naive_allocator)" where
  "naive_fork create_block depth h a last_block =
     bindE (get_all_blocks_recursively depth h last_block) (\<lambda>source_blocks.
     fork_blocks create_block h a None source_blocks)"

definition naive_get_num_free_blocks :: "naive_allocator \<Rightarrow> nat" where
  "naive_get_num_free_blocks a = length (free_block_indices a)"

definition naive_get_num_total_blocks :: "naive_allocator \<Rightarrow> nat" where
  "naive_get_num_total_blocks a = card (all_block_indices a)"

fun list_index :: "'a list \<Rightarrow> 'a \<Rightarrow> py_error + nat" where
  "list_index [] x = Inl ValueError"
| "list_index (y # ys) x = (if x = y then Inr 0 else bindE (list_index ys x) (\<lambda>i. Inr (Suc i)))"

definition naive_get_physical_block_id :: "naive_allocator \<Rightarrow> nat \<Rightarrow> py_error + nat" where
  "naive_get_physical_block_id a absolute_id =
     list_index (sorted_list_of_set (all_block_indices a)) absolute_id"

definition naive_clear_copy_on_writes ::
  "naive_allocator \<Rightarrow> (block_id \<times> block_id) list \<times> naive_allocator" where
  "naive_clear_copy_on_writes a =
     (let (cows, t) = clear_cows (na_cow_tracker a) in (cows, a\<lparr>na_cow_tracker := t\<rparr>))"

definition naive_get_num_full_blocks_touched :: "'x nblock_scheme store \<Rightarrow> bref list \<Rightarrow> nat" where
  "naive_get_num_full_blocks_touched h blocks = card (set (filter (\<lambda>r. is_full (h r)) blocks))"

definition naive_swap_out ::
  "'x nblock_scheme store \<Rightarrow> naive_allocator \<Rightarrow> bref list \<Rightarrow>
     py_error + ('x nblock_scheme store \<times> naive_allocator)" where
  "naive_swap_out h a blocks = foldE (\<lambda>r (h, a). free_block_id h a r) blocks (h, a)"

definition naive_swap_in_block ::
  "'x nblock_scheme factory \<Rightarrow> bref \<Rightarrow> 'x nblock_scheme store \<times> naive_allocator \<Rightarrow>
     py_error + ('x nblock_scheme store \<times> naive_allocator)" where
  "naive_swap_in_block create_block block = (\<lambda>(h, a).
     bindE (if is_full (h block)
            then naive_allocate_immutable_block create_block h a (nb_prev_block (h block))
                   (nb_token_ids (h block))
            else bindE (naive_allocate_mutable_block create_block h a (nb_prev_block (h block)))
                   (\<lambda>(t, h, a).
                 bindE (naive_append_token_ids h a t (nb_token_ids (h block))) (\<lambda>(h, a).
                 Inr (t, h, a)))) (\<lambda>(tmp_block, h, a).
     let b = nb_block_id (h tmp_block);
         h = set_block_id h tmp_block None;
         a = a\<lparr>na_block_pool := pool_free_block (na_block_pool a) (h tmp_block)\<rparr>
     in Inr (set_block_id h block b, a)))"

definition naive_swap_in ::
  "'x nblock_scheme factory \<Rightarrow> 'x nblock_scheme store \<Rightarrow> naive_allocator \<Rightarrow> bref list \<Rightarrow>
     py_error + ('x nblock_scheme store \<times> naive_allocator)" where
  "naive_swap_in create_block h a blocks = foldE (naive_swap_in_block create_block) blocks (h, a)"

text \<open>Operations the naive allocator does not support, or answers with a constant.\<close>

definition naive_promote_to_immutable_block :: "bref \<Rightarrow> py_error + block_id" where
  "naive_promote_to_immutable_block block = Inl NotImplementedError"

definition naive_get_computed_block_ids :: "block_id list \<Rightarrow> block_id list \<Rightarrow> bool \<Rightarrow> block_id list" where
  "naive_get_computed_block_ids prev_computed_block_ids block_ids skip_last_block_id = []"

definition naive_get_common_computed_block_ids :: "block_id list list \<Rightarrow> block_id list" where
  "naive_get_common_computed_block_ids computed_seq_block_ids = []"

section \<open>The allocator's own invariant\<close>

text \<open>
  The free list has no duplicate, the counter is defined on exactly the allocator's ids, no count is
  negative, and an id is in the free list exactly when its count is zero.
\<close>

definition naive_inv :: "naive_allocator \<Rightarrow> bool" where
  "naive_inv a \<longleftrightarrow>
     finite (all_block_indices a) \<and> distinct (free_block_indices a) \<and>
     dom (refcounts (refcounter a)) = all_block_indices a \<and>
     (\<forall>b n. refcounts (refcounter a) b = Some n \<longrightarrow> 0 \<le> n) \<and>
     (\<forall>b. b \<in> set (free_block_indices a) \<longleftrightarrow> refcounts (refcounter a) b = Some 0)"

lemma naive_inv_free_subset: "naive_inv a \<Longrightarrow> set (free_block_indices a) \<subseteq> all_block_indices a"
  by (auto simp: naive_inv_def)

lemma allocate_block_id_Inr:
  "allocate_block_id a = Inr (b, a') \<longleftrightarrow>
     (\<exists>bs n. free_block_indices a = b # bs \<and> refcounts (refcounter a) b = Some n \<and> 0 \<le> n \<and>
       a' = a\<lparr>free_block_indices := bs,
              refcounter := (refcounter a)\<lparr>refcounts := (refcounts (refcounter a))(b \<mapsto> n + 1)\<rparr>\<rparr>)"
  by (auto simp: allocate_block_id_def split: list.splits)

lemma free_block_id_Inr:
  "free_block_id h a r = Inr (h', a') \<longleftrightarrow>
     (\<exists>b n. nb_block_id (h r) = Some b \<and> refcounts (refcounter a) b = Some n \<and> 0 < n \<and>
        h' = set_block_id h r None \<and>
        a' = a\<lparr>refcounter := (refcounter a)\<lparr>refcounts := (refcounts (refcounter a))(b \<mapsto> n - 1)\<rparr>,
               free_block_indices :=
                 (if n = 1 then b # free_block_indices a else free_block_indices a)\<rparr>)"
  by (fastforce simp: free_block_id_def Let_def)

lemma allocate_block_id_inv:
  assumes "naive_inv a" "allocate_block_id a = Inr (b, a')"
  shows "naive_inv a'"
  using assms unfolding allocate_block_id_Inr naive_inv_def
  by (fastforce split: if_splits)

lemma free_block_id_inv:
  assumes "naive_inv a" "free_block_id h a r = Inr (h', a')"
  shows "naive_inv a'"
  using assms unfolding free_block_id_Inr naive_inv_def
  by (fastforce split: if_splits)

text \<open>With a free id the allocator never fails; the id it hands out was not in use.\<close>

lemma allocate_block_id_ok:
  assumes "naive_inv a" "free_block_indices a \<noteq> []"
  shows "\<exists>a'. allocate_block_id a = Inr (hd (free_block_indices a), a')"
proof (cases "free_block_indices a")
  case (Cons b bs)
  with assms(1) have "refcounts (refcounter a) b = Some 0" by (auto simp: naive_inv_def)
  with Cons show ?thesis by (auto simp: allocate_block_id_Inr)
qed (use assms in simp)

lemma allocate_block_id_fresh:
  assumes "naive_inv a" "allocate_block_id a = Inr (b, a')"
  shows "refcounts (refcounter a) b = Some 0" "refcounts (refcounter a') b = Some 1"
    "b \<in> all_block_indices a"
  using assms unfolding allocate_block_id_Inr naive_inv_def
  by (fastforce simp: domI)+

section \<open>Reference counts count references\<close>

text \<open>
  \<open>naive_refs h a b\<close> is the number of block objects in use whose physical block is \<open>b\<close>. \<open>ext b\<close>
  stands for references held elsewhere: by a local variable between two statements, or by an object
  of another pool after a swap.
\<close>

definition naive_refs :: "'x nblock_scheme store \<Rightarrow> naive_allocator \<Rightarrow> block_id \<Rightarrow> nat" where
  "naive_refs h a b = card {r \<in> pool_live (na_block_pool a). nb_block_id (h r) = Some b}"

definition naive_owned ::
  "'x nblock_scheme store \<Rightarrow> naive_allocator \<Rightarrow> (block_id \<Rightarrow> nat) \<Rightarrow> bool" where
  "naive_owned h a ext \<longleftrightarrow>
     naive_inv a \<and> pool_inv (na_block_pool a) \<and>
     (all_block_indices a \<noteq> {} \<longrightarrow> 0 < pool_size (na_block_pool a)) \<and>
     (\<forall>r \<in> pool_live (na_block_pool a). nb_pool_id (h r) = ref_idx r) \<and>
     (\<forall>b \<in> all_block_indices a.
        refcounts (refcounter a) b = Some (int (naive_refs h a b + ext b)))"

lemma naive_refs_pos:
  "r \<in> pool_live (na_block_pool a) \<Longrightarrow> nb_block_id (h r) = Some b \<Longrightarrow> 0 < naive_refs h a b"
  unfolding naive_refs_def by (auto simp: card_gt_0_iff)

lemma naive_refs_upd:
  assumes "r \<in> pool_live (na_block_pool a)" and "\<And>x. x \<noteq> r \<Longrightarrow> nb_block_id (h' x) = nb_block_id (h x)"
  shows "naive_refs h' a b + (if nb_block_id (h r) = Some b then 1 else 0)
       = naive_refs h a b + (if nb_block_id (h' r) = Some b then 1 else 0)"
proof -
  let ?L = "pool_live (na_block_pool a)"
  let ?O = "{x \<in> ?L - {r}. nb_block_id (h x) = Some b}"
  have fin: "finite ?O" by simp
  have eq: "{x \<in> ?L. nb_block_id (h x) = Some b}
      = (if nb_block_id (h r) = Some b then insert r ?O else ?O)"
    using assms(1) by auto
  have "{x \<in> ?L. nb_block_id (h' x) = Some b}
      = (if nb_block_id (h' r) = Some b then insert r ?O else ?O)"
    (is "?A = ?B")
  proof (rule set_eqI)
    fix x show "x \<in> ?A \<longleftrightarrow> x \<in> ?B" using assms by (cases "x = r") auto
  qed
  then show ?thesis unfolding naive_refs_def using eq fin by simp
qed

lemma naive_refs_cong:
  assumes "pool_live (na_block_pool a') = pool_live (na_block_pool a)"
    and "\<And>x. x \<in> pool_live (na_block_pool a) \<Longrightarrow> nb_block_id (h' x) = nb_block_id (h x)"
  shows "naive_refs h' a' b = naive_refs h a b"
proof -
  have "{x \<in> pool_live (na_block_pool a'). nb_block_id (h' x) = Some b}
      = {x \<in> pool_live (na_block_pool a). nb_block_id (h x) = Some b}"
    using assms by auto
  then show ?thesis by (simp add: naive_refs_def)
qed

lemma naive_ownedD:
  assumes "naive_owned h a ext"
  shows "naive_inv a" "pool_inv (na_block_pool a)"
    "\<And>r. r \<in> pool_live (na_block_pool a) \<Longrightarrow> nb_pool_id (h r) = ref_idx r"
    "\<And>b n. refcounts (refcounter a) b = Some n \<Longrightarrow> n = int (naive_refs h a b + ext b)"
    "\<And>b. b \<in> all_block_indices a \<Longrightarrow>
       refcounts (refcounter a) b = Some (int (naive_refs h a b + ext b))"
    "all_block_indices a \<noteq> {} \<Longrightarrow> 0 < pool_size (na_block_pool a)"
proof -
  show inv: "naive_inv a" and "pool_inv (na_block_pool a)"
    and "\<And>r. r \<in> pool_live (na_block_pool a) \<Longrightarrow> nb_pool_id (h r) = ref_idx r"
    and "all_block_indices a \<noteq> {} \<Longrightarrow> 0 < pool_size (na_block_pool a)"
    using assms by (simp_all add: naive_owned_def)
  show all: "refcounts (refcounter a) b = Some (int (naive_refs h a b + ext b))"
    if "b \<in> all_block_indices a" for b using assms that by (simp add: naive_owned_def)
  show "n = int (naive_refs h a b + ext b)" if n: "refcounts (refcounter a) b = Some n" for b n
  proof -
    have "b \<in> all_block_indices a" using inv n by (auto simp: naive_inv_def intro: domI)
    from all [OF this] n show ?thesis by simp
  qed
qed

lemma naive_ownedI:
  assumes "naive_inv a" "pool_inv (na_block_pool a)"
    "\<And>r. r \<in> pool_live (na_block_pool a) \<Longrightarrow> nb_pool_id (h r) = ref_idx r"
    "\<And>b n. refcounts (refcounter a) b = Some n \<Longrightarrow> n = int (naive_refs h a b + ext b)"
    "all_block_indices a \<noteq> {} \<Longrightarrow> 0 < pool_size (na_block_pool a)"
  shows "naive_owned h a ext"
proof -
  have "refcounts (refcounter a) b = Some (int (naive_refs h a b + ext b))"
    if "b \<in> all_block_indices a" for b
  proof -
    from that assms(1) obtain n where "refcounts (refcounter a) b = Some n"
      unfolding naive_inv_def by blast
    then show ?thesis using assms(4) by simp
  qed
  then show ?thesis using assms(1-3,5) by (auto simp: naive_owned_def)
qed

text \<open>Memory safety: the physical block of an object in use is never in the free list.\<close>

lemma naive_owned_not_free:
  assumes "naive_owned h a ext" "r \<in> pool_live (na_block_pool a)" "nb_block_id (h r) = Some b"
  shows "b \<notin> set (free_block_indices a)"
proof
  assume "b \<in> set (free_block_indices a)"
  with naive_ownedD(1) [OF assms(1)] have "refcounts (refcounter a) b = Some 0"
    by (simp add: naive_inv_def)
  moreover have "0 < naive_refs h a b" using assms(2,3) by (rule naive_refs_pos)
  ultimately show False using naive_ownedD(4) [OF assms(1), of b 0] by simp
qed

text \<open>The elementary steps, each moving one reference.\<close>

lemma allocate_block_id_owned:
  assumes own: "naive_owned h a ext" and run: "allocate_block_id a = Inr (b, a')"
  shows "naive_owned h a' (ext(b := 1))" "ext b = 0" "naive_refs h a b = 0"
    "na_block_pool a' = na_block_pool a" "all_block_indices a' = all_block_indices a"
    "na_cow_tracker a' = na_cow_tracker a" "na_block_size a' = na_block_size a"
    "free_block_indices a = b # free_block_indices a'"
proof -
  note D = naive_ownedD [OF own]
  note F = allocate_block_id_fresh [OF D(1) run]
  obtain bs where a': "free_block_indices a = b # bs" "a' = a\<lparr>free_block_indices := bs,
      refcounter := (refcounter a)\<lparr>refcounts := (refcounts (refcounter a))(b \<mapsto> 1)\<rparr>\<rparr>"
    using run F(1) by (auto simp: allocate_block_id_Inr)
  show fields: "na_block_pool a' = na_block_pool a" "all_block_indices a' = all_block_indices a"
    "na_cow_tracker a' = na_cow_tracker a" "na_block_size a' = na_block_size a"
    "free_block_indices a = b # free_block_indices a'"
    using a' by simp_all
  have rc: "refcounts (refcounter a') = (refcounts (refcounter a))(b \<mapsto> 1)" using a' by simp
  from D(4) [OF F(1)] show zero: "ext b = 0" "naive_refs h a b = 0" by simp_all
  have refs: "naive_refs h a' c = naive_refs h a c" for c
    by (rule naive_refs_cong) (simp_all add: fields)
  show "naive_owned h a' (ext(b := 1))"
  proof (rule naive_ownedI)
    show "naive_inv a'" using D(1) run by (rule allocate_block_id_inv)
    fix c n assume "refcounts (refcounter a') c = Some n"
    then show "n = int (naive_refs h a' c + (ext(b := 1)) c)"
      using zero D(4) [of c n] by (auto simp: refs rc split: if_splits)
  qed (use D fields in simp_all)
qed

lemma free_block_id_owned:
  assumes own: "naive_owned h a ext" and live: "r \<in> pool_live (na_block_pool a)"
    and run: "free_block_id h a r = Inr (h', a')"
  shows "naive_owned h' a' ext" "h' = set_block_id h r None"
    "na_block_pool a' = na_block_pool a" "all_block_indices a' = all_block_indices a"
    "na_cow_tracker a' = na_cow_tracker a" "na_block_size a' = na_block_size a"
proof -
  note D = naive_ownedD [OF own]
  obtain b n where b: "nb_block_id (h r) = Some b" "refcounts (refcounter a) b = Some n" "0 < n"
    and h': "h' = set_block_id h r None"
    and a': "a' = a\<lparr>refcounter := (refcounter a)\<lparr>refcounts := (refcounts (refcounter a))(b \<mapsto> n - 1)\<rparr>,
               free_block_indices := (if n = 1 then b # free_block_indices a else free_block_indices a)\<rparr>"
    using run unfolding free_block_id_Inr by blast
  show "h' = set_block_id h r None" by (rule h')
  show fields: "na_block_pool a' = na_block_pool a" "all_block_indices a' = all_block_indices a"
    "na_cow_tracker a' = na_cow_tracker a" "na_block_size a' = na_block_size a"
    using a' by simp_all
  have "naive_refs h' a' c = naive_refs h' a c" for c
    by (rule naive_refs_cong) (simp_all add: fields)
  moreover have "naive_refs h' a c + (if c = b then 1 else 0) = naive_refs h a c" for c
    using naive_refs_upd [OF live, of h' h c] b(1) by (auto simp: h')
  ultimately have refs: "naive_refs h' a' c + (if c = b then 1 else 0) = naive_refs h a c" for c
    by simp
  show "naive_owned h' a' ext"
  proof (rule naive_ownedI)
    show "naive_inv a'" using D(1) run by (rule free_block_id_inv)
    fix c m assume m: "refcounts (refcounter a') c = Some m"
    show "m = int (naive_refs h' a' c + ext c)"
    proof (cases "c = b")
      case True
      then have "m = n - 1" using m by (simp add: a')
      then show ?thesis using D(4) [OF b(2)] refs [of b] True by simp
    next
      case False
      then show ?thesis using m D(4) [of c m] refs [of c] by (simp add: a')
    qed
  qed (use D fields in \<open>simp_all add: h'\<close>)
qed

lemma set_block_id_owned:
  assumes own: "naive_owned h a (ext(b := Suc (ext b)))"
    and live: "r \<in> pool_live (na_block_pool a)" and none: "nb_block_id (h r) = None"
  shows "naive_owned (set_block_id h r (Some b)) a ext"
proof (rule naive_ownedI)
  note D = naive_ownedD [OF own]
  show "naive_inv a" "pool_inv (na_block_pool a)" by (fact D)+
  show "0 < pool_size (na_block_pool a)" if "all_block_indices a \<noteq> {}" using D(6) that .
  show "nb_pool_id (set_block_id h r (Some b) x) = ref_idx x" if "x \<in> pool_live (na_block_pool a)" for x
    using D(3) that by simp
  fix c n assume "refcounts (refcounter a) c = Some n"
  from D(4) [OF this] show "n = int (naive_refs (set_block_id h r (Some b)) a c + ext c)"
    using naive_refs_upd [OF live, of "set_block_id h r (Some b)" h c] none
    by (auto split: if_splits)
qed

text \<open>Changing an object in use but not its physical block, and the fields the invariant ignores.\<close>

lemma naive_owned_cong:
  assumes "naive_owned h a ext"
    and "\<And>x. x \<in> pool_live (na_block_pool a) \<Longrightarrow>
      nb_block_id (h' x) = nb_block_id (h x) \<and> nb_pool_id (h' x) = nb_pool_id (h x)"
  shows "naive_owned h' a ext"
proof (rule naive_ownedI)
  note D = naive_ownedD [OF assms(1)]
  show "naive_inv a" "pool_inv (na_block_pool a)" by (fact D)+
  show "0 < pool_size (na_block_pool a)" if "all_block_indices a \<noteq> {}" using D(6) that .
  show "nb_pool_id (h' x) = ref_idx x" if "x \<in> pool_live (na_block_pool a)" for x
    using D(3) assms(2) that by simp
  fix c n assume "refcounts (refcounter a) c = Some n"
  moreover have "naive_refs h' a c = naive_refs h a c"
    by (rule naive_refs_cong) (simp_all add: assms(2))
  ultimately show "n = int (naive_refs h' a c + ext c)" using D(4) by simp
qed

lemma naive_refs_cow [simp]: "naive_refs h (a\<lparr>na_cow_tracker := t\<rparr>) = naive_refs h a"
  by (rule ext) (simp add: naive_refs_def)

lemma naive_inv_cow [simp]: "naive_inv (a\<lparr>na_cow_tracker := t\<rparr>) = naive_inv a"
  unfolding naive_inv_def by simp

lemma naive_inv_pool [simp]: "naive_inv (a\<lparr>na_block_pool := p\<rparr>) = naive_inv a"
  unfolding naive_inv_def by simp

lemma naive_owned_cow [simp]:
  "naive_owned h (a\<lparr>na_cow_tracker := t\<rparr>) ext = naive_owned h a ext"
  unfolding naive_owned_def by simp

lemma pool_free_owned:
  assumes own: "naive_owned h a ext" and live: "r \<in> pool_live (na_block_pool a)"
    and none: "nb_block_id (h r) = None"
  shows "naive_owned h (a\<lparr>na_block_pool := pool_free_block (na_block_pool a) (h r)\<rparr>) ext"
proof (rule naive_ownedI)
  let ?a = "a\<lparr>na_block_pool := pool_free_block (na_block_pool a) (h r)\<rparr>"
  note D = naive_ownedD [OF own]
  have pid: "nb_pool_id (h r) = ref_idx r" using live by (rule D(3))
  note P = pool_free_block_spec [where p = "na_block_pool a" and b = "h r", OF D(2) live pid]
  show "naive_inv ?a" using D(1) by simp
  show "0 < pool_size (na_block_pool ?a)" if "all_block_indices ?a \<noteq> {}"
    using D(6) that by (simp add: pool_free_block_def)
  have pool: "na_block_pool ?a = pool_free_block (na_block_pool a) (h r)" by simp
  show "pool_inv (na_block_pool ?a)" unfolding pool by (rule P(1))
  show "nb_pool_id (h x) = ref_idx x" if "x \<in> pool_live (na_block_pool ?a)" for x
    using D(3) that unfolding pool P(2) by blast
  fix c n assume "refcounts (refcounter ?a) c = Some n"
  then have "refcounts (refcounter a) c = Some n" by simp
  moreover have "{x \<in> pool_live (na_block_pool ?a). nb_block_id (h x) = Some c}
      = {x \<in> pool_live (na_block_pool a). nb_block_id (h x) = Some c}"
    unfolding pool P(2) using none by force
  then have "naive_refs h ?a c = naive_refs h a c" unfolding naive_refs_def by (rule arg_cong)
  ultimately show "n = int (naive_refs h ?a c + ext c)" using D(4) by simp
qed

text \<open>The fields fixed at construction agree.\<close>

definition same_config :: "naive_allocator \<Rightarrow> naive_allocator \<Rightarrow> bool" where
  "same_config a a' \<longleftrightarrow> all_block_indices a' = all_block_indices a \<and>
     na_block_size a' = na_block_size a \<and> pool_tag (na_block_pool a') = pool_tag (na_block_pool a)"

lemma same_config_refl [simp, intro]: "same_config a a"
  by (simp add: same_config_def)

lemma same_config_trans [trans]: "same_config a b \<Longrightarrow> same_config b c \<Longrightarrow> same_config a c"
  by (simp add: same_config_def)

lemma unset_block_id_owned:
  assumes own: "naive_owned h a ext" and live: "r \<in> pool_live (na_block_pool a)"
    and b: "nb_block_id (h r) = Some b"
  shows "naive_owned (set_block_id h r None) a (ext(b := Suc (ext b)))"
proof (rule naive_ownedI)
  note D = naive_ownedD [OF own]
  show "naive_inv a" "pool_inv (na_block_pool a)" by (fact D)+
  show "0 < pool_size (na_block_pool a)" if "all_block_indices a \<noteq> {}" using D(6) that .
  show "nb_pool_id (set_block_id h r None x) = ref_idx x" if "x \<in> pool_live (na_block_pool a)" for x
    using D(3) that by simp
  fix c n assume "refcounts (refcounter a) c = Some n"
  from D(4) [OF this]
  show "n = int (naive_refs (set_block_id h r None) a c + (ext(b := Suc (ext b))) c)"
    using naive_refs_upd [OF live, of "set_block_id h r None" h c] b by (auto split: if_splits)
qed

lemma incr_owned:
  assumes own: "naive_owned h a ext" and n: "refcounts (refcounter a) b = Some n" "0 < n"
    and rc: "rc = (refcounter a)\<lparr>refcounts := (refcounts (refcounter a))(b \<mapsto> n + 1)\<rparr>"
  shows "naive_owned h (a\<lparr>refcounter := rc\<rparr>) (ext(b := Suc (ext b)))"
proof (rule naive_ownedI)
  let ?a = "a\<lparr>refcounter := rc\<rparr>"
  note D = naive_ownedD [OF own]
  have rc': "refcounts (refcounter ?a) = (refcounts (refcounter a))(b \<mapsto> n + 1)" by (simp add: rc)
  have other: "all_block_indices ?a = all_block_indices a" "free_block_indices ?a = free_block_indices a"
    by simp_all
  have "b \<notin> set (free_block_indices a)" "b \<in> all_block_indices a" "\<forall>c n. refcounts (refcounter a) c = Some n \<longrightarrow> 0 \<le> n"
    using D(1) n unfolding naive_inv_def by auto
  then show "naive_inv ?a" using D(1) n unfolding naive_inv_def rc' other by (simp add: insert_absorb)
  show "pool_inv (na_block_pool ?a)" using D(2) by simp
  show "0 < pool_size (na_block_pool ?a)" if "all_block_indices ?a \<noteq> {}" using D(6) that by simp
  show "nb_pool_id (h x) = ref_idx x" if "x \<in> pool_live (na_block_pool ?a)" for x
    using D(3) that by simp
  fix c m assume m: "refcounts (refcounter ?a) c = Some m"
  have "naive_refs h ?a c = naive_refs h a c" by (simp add: naive_refs_def)
  moreover have "m = int (naive_refs h a c + (ext(b := Suc (ext b))) c)"
    using m D(4) [OF n(1)] D(4) [of c m] by (cases "c = b") (simp_all add: rc del: of_nat_add)
  ultimately show "m = int (naive_refs h ?a c + (ext(b := Suc (ext b))) c)" by simp
qed

section \<open>Appending with copy on write\<close>

lemma is_appendable_Some:
  "nb_block_id blk = Some b \<Longrightarrow> is_appendable rc blk = Inr ok \<longleftrightarrow>
     (\<exists>n. refcounts rc b = Some n \<and> ok = (n \<le> 1))"
  by (auto simp: is_appendable_def)

lemma cow_shared:
  assumes own: "naive_owned h a ext" and live: "r \<in> pool_live (na_block_pool a)"
    and src: "nb_block_id (h r) = Some src" "refcounts (refcounter a) src = Some n" "1 < n"
    and run: "cow_block_if_not_appendable h a r = Inr (trg, h', a')"
  shows "free_block_indices a = trg # free_block_indices a'" "h' = set_block_id h r None"
    "naive_owned h' a' (ext(trg := Suc (ext trg)))" "na_block_pool a' = na_block_pool a"
    "same_config a a'" "refcounts (refcounter a') trg = Some 1"
    "copy_on_writes (na_cow_tracker a') = copy_on_writes (na_cow_tracker a) @ [(src, trg)]"
proof -
  obtain h1 a1 a2 t where fr: "free_block_id h a r = Inr (h1, a1)"
    and al: "allocate_block_id a1 = Inr (trg, a2)"
    and t: "record_cow (na_cow_tracker a2) (Some src) (Some trg) = Inr t"
    and res: "h' = h1" "a' = a2\<lparr>na_cow_tracker := t\<rparr>"
    using run src by (auto simp: cow_block_if_not_appendable_def is_appendable_Some bindE_eq_Inr
        split: if_splits)
  note F = free_block_id_owned [OF own live fr]
  note A = allocate_block_id_owned [OF F(1) al]
  have "free_block_indices a1 = free_block_indices a"
    using fr src by (auto simp: free_block_id_Inr)
  then show "free_block_indices a = trg # free_block_indices a'" using A(8) by (simp add: res)
  show "h' = set_block_id h r None" using F(2) res by simp
  show "naive_owned h' a' (ext(trg := Suc (ext trg)))" using A(1,2) by (simp add: res)
  show "na_block_pool a' = na_block_pool a" "same_config a a'"
    using A F by (simp_all add: res same_config_def)
  show "refcounts (refcounter a') trg = Some 1"
    using allocate_block_id_fresh(2) [OF naive_ownedD(1) [OF F(1)] al] by (simp add: res)
  show "copy_on_writes (na_cow_tracker a') = copy_on_writes (na_cow_tracker a) @ [(src, trg)]"
    using t A(6) F(5) by (auto simp: record_cow_def res)
qed

lemma cow_exclusive:
  assumes "nb_block_id (h r) = Some src" "refcounts (refcounter a) src = Some n" "n \<le> 1"
  shows "cow_block_if_not_appendable h a r = Inr (src, h, a)"
  using assms by (simp add: cow_block_if_not_appendable_def is_appendable_def rc_get_def)

lemma append_token_ids_no_cow_Inr:
  "append_token_ids_no_cow b toks = Inr b' \<longleftrightarrow>
     (toks = [] \<or> int (length toks) \<le> num_empty_slots b) \<and>
     b' = b\<lparr>nb_token_ids := nb_token_ids b @ toks\<rparr>"
  by (auto simp: append_token_ids_no_cow_def)

lemma naive_append_cases:
  assumes own: "naive_owned h a ext" and live: "r \<in> pool_live (na_block_pool a)"
    and run: "naive_append_token_ids h a r toks = Inr (h', a')"
  obtains (no_id) "nb_block_id (h r) = None" "a' = a"
      "h' = h(r := (h r)\<lparr>nb_token_ids := nb_token_ids (h r) @ toks\<rparr>)"
  | (exclusive) src n where "nb_block_id (h r) = Some src" "refcounts (refcounter a) src = Some n"
      "n \<le> 1" "a' = a" "h' = h(r := (h r)\<lparr>nb_token_ids := nb_token_ids (h r) @ toks\<rparr>)"
  | (shared) src n trg where "nb_block_id (h r) = Some src" "refcounts (refcounter a) src = Some n"
      "1 < n" "free_block_indices a = trg # free_block_indices a'"
      "h' = h(r := (h r)\<lparr>nb_token_ids := nb_token_ids (h r) @ toks, nb_block_id := Some trg\<rparr>)"
      "naive_owned h' a' ext" "na_block_pool a' = na_block_pool a" "same_config a a'"
      "refcounts (refcounter a') trg = Some 1"
      "copy_on_writes (na_cow_tracker a') = copy_on_writes (na_cow_tracker a) @ [(src, trg)]"
proof -
  define h1 where "h1 = h(r := (h r)\<lparr>nb_token_ids := nb_token_ids (h r) @ toks\<rparr>)"
  have own1: "naive_owned h1 a ext" by (rule naive_owned_cong [OF own]) (simp add: h1_def)
  have bid: "nb_block_id (h1 r) = nb_block_id (h r)" by (simp add: h1_def)
  show thesis
  proof (cases "nb_block_id (h r)")
    case None
    then have "h' = h1" "a' = a"
      using run by (auto simp: naive_append_token_ids_def append_token_ids_no_cow_Inr h1_def)
    then show ?thesis using None no_id by (simp add: h1_def)
  next
    case (Some src)
    then obtain i h2 where cow: "cow_block_if_not_appendable h1 a r = Inr (i, h2, a')"
      and h': "h' = set_block_id h2 r (Some i)"
      using run by (auto simp: naive_append_token_ids_def append_token_ids_no_cow_Inr h1_def)
    then obtain n where n: "refcounts (refcounter a) src = Some n"
      using Some bid by (auto simp: cow_block_if_not_appendable_def is_appendable_Some)
    show ?thesis
    proof (cases "n \<le> 1")
      case True
      have "i = src" "h2 = h1" "a' = a"
        using cow cow_exclusive [of h1 r src a n] Some bid n True by auto
      then have "h' = h1" using Some by (auto simp: h' h1_def set_block_id_def)
      then show ?thesis using exclusive Some n True \<open>a' = a\<close> by (simp add: h1_def)
    next
      case False
      have src: "nb_block_id (h1 r) = Some src" using Some bid by simp
      have "1 < n" using False by simp
      note S = cow_shared [OF own1 live src n this cow]
      have "naive_owned h' a' ext" unfolding h'
        by (rule set_block_id_owned) (use S live in simp_all)
      moreover have "h' = h(r := (h r)\<lparr>nb_token_ids := nb_token_ids (h r) @ toks, nb_block_id := Some i\<rparr>)"
        by (simp add: h' S(2) set_block_id_def h1_def)
      ultimately show ?thesis using shared Some n False S by simp
    qed
  qed
qed

lemma naive_append_spec:
  assumes own: "naive_owned h a ext" and live: "r \<in> pool_live (na_block_pool a)"
    and run: "naive_append_token_ids h a r toks = Inr (h', a')"
  shows "naive_owned h' a' ext" "na_block_pool a' = na_block_pool a" "same_config a a'"
    "\<And>x. x \<noteq> r \<Longrightarrow> h' x = h x" "nb_token_ids (h' r) = nb_token_ids (h r) @ toks"
    "nb_block_size (h' r) = nb_block_size (h r)" "nb_prev_block (h' r) = nb_prev_block (h r)"
    "nb_block_id (h' r) = None \<longleftrightarrow> nb_block_id (h r) = None"
proof -
  have "naive_owned (h(r := (h r)\<lparr>nb_token_ids := nb_token_ids (h r) @ toks\<rparr>)) a ext"
    by (rule naive_owned_cong [OF own]) simp
  with own live run show "naive_owned h' a' ext" by (cases rule: naive_append_cases) simp_all
  from own live run show "na_block_pool a' = na_block_pool a" "same_config a a'"
    by (cases rule: naive_append_cases; simp)+
  from own live run show "nb_token_ids (h' r) = nb_token_ids (h r) @ toks"
    "nb_block_size (h' r) = nb_block_size (h r)" "nb_prev_block (h' r) = nb_prev_block (h r)"
    "nb_block_id (h' r) = None \<longleftrightarrow> nb_block_id (h r) = None"
    by (cases rule: naive_append_cases; simp)+
  show "h' x = h x" if "x \<noteq> r" for x
    using own live run that by (cases rule: naive_append_cases) simp_all
qed

lemma naive_free_spec:
  assumes own: "naive_owned h a ext" and live: "r \<in> pool_live (na_block_pool a)"
    and run: "naive_free h a r keep = Inr (h', a')"
  shows "naive_owned h' a' ext" "h' = set_block_id h r None" "same_config a a'"
    "pool_live (na_block_pool a') = pool_live (na_block_pool a) - (if keep then {} else {r})"
proof -
  obtain a1 where fr: "free_block_id h a r = Inr (h', a1)"
    and a': "a' = (if keep then a1 else a1\<lparr>na_block_pool := pool_free_block (na_block_pool a1) (h' r)\<rparr>)"
    using run by (auto simp: naive_free_def split: if_splits)
  note F = free_block_id_owned [OF own live fr]
  show "h' = set_block_id h r None" by (rule F(2))
  have live1: "r \<in> pool_live (na_block_pool a1)" using live F(3) by simp
  have none: "nb_block_id (h' r) = None" by (simp add: F(2))
  show "naive_owned h' a' ext"
    using F(1) pool_free_owned [OF F(1) live1 none] by (simp add: a')
  have pid: "nb_pool_id (h' r) = ref_idx r" using naive_ownedD(3) [OF F(1)] live1 by simp
  note P = pool_free_block_spec [where p = "na_block_pool a1" and b = "h' r",
      OF naive_ownedD(2) [OF F(1)] live1 pid]
  show "same_config a a'" using F P(3) by (simp add: same_config_def a')
  show "pool_live (na_block_pool a') = pool_live (na_block_pool a) - (if keep then {} else {r})"
    using F(3) P(2) by (simp add: a')
qed

section \<open>Operations that create a chain of blocks\<close>

text \<open>
  \<open>new_blocks h a h' a' prev rs\<close>: the step from \<open>(h, a)\<close> to \<open>(h', a')\<close> created exactly the objects
  \<open>rs\<close>, linked one after the other behind \<open>prev\<close>, and disturbed nothing else.
\<close>

text \<open>\<open>kept a x\<close>: \<open>x\<close> is in use, or of another pool, so the allocator must not disturb it.\<close>

definition kept :: "naive_allocator \<Rightarrow> bref \<Rightarrow> bool" where
  "kept a x \<longleftrightarrow> x \<in> pool_live (na_block_pool a) \<or> ref_pool x \<noteq> pool_tag (na_block_pool a)"

definition new_blocks ::
  "'x nblock_scheme store \<Rightarrow> naive_allocator \<Rightarrow> 'x nblock_scheme store \<Rightarrow> naive_allocator \<Rightarrow>
     bref option \<Rightarrow> bref list \<Rightarrow> bool" where
  "new_blocks h a h' a' prev rs \<longleftrightarrow>
     distinct rs \<and> set rs \<inter> pool_live (na_block_pool a) = {} \<and>
     pool_live (na_block_pool a') = pool_live (na_block_pool a) \<union> set rs \<and>
     (\<forall>x. kept a x \<longrightarrow> h' x = h x) \<and> same_config a a' \<and> chained h' prev rs \<and>
     (\<forall>r \<in> set rs. ref_pool r = pool_tag (na_block_pool a) \<and>
        nb_block_size (h' r) = na_block_size a)"

lemma new_blocks_Nil [simp]: "new_blocks h a h a prev []"
  by (simp add: new_blocks_def)

lemma new_blocks_Cons:
  assumes "new_blocks h a h1 a1 prev [r]" "new_blocks h1 a1 h2 a2 (Some r) rs"
  shows "new_blocks h a h2 a2 prev (r # rs)" "h2 r = h1 r"
proof -
  from assms(1) have "kept a1 r" by (simp add: new_blocks_def kept_def)
  with assms(2) show r: "h2 r = h1 r" by (simp add: new_blocks_def)
  have k: "kept a x \<Longrightarrow> kept a1 x" for x
    using assms(1) by (auto simp: new_blocks_def kept_def same_config_def)
  then have frame: "kept a x \<Longrightarrow> h2 x = h x" for x using assms by (simp add: new_blocks_def)
  show "new_blocks h a h2 a2 prev (r # rs)"
    unfolding new_blocks_def
  proof (intro conjI allI impI frame)
    show "same_config a a2" using assms same_config_trans unfolding new_blocks_def by blast
  qed (use assms r in \<open>auto simp: new_blocks_def same_config_def\<close>)
qed

lemma allocate_block_ids_spec:
  assumes "naive_owned h a ext" "allocate_block_ids n a = Inr (ids, a')"
  shows "naive_owned h a' (\<lambda>c. ext c + count_list ids c) \<and> length ids = n \<and>
    free_block_indices a = ids @ free_block_indices a' \<and> na_block_pool a' = na_block_pool a \<and>
    same_config a a' \<and> na_cow_tracker a' = na_cow_tracker a"
  using assms
proof (induction n arbitrary: a ext ids)
  case (Suc n)
  from Suc.prems(2) obtain b a1 bs where al: "allocate_block_id a = Inr (b, a1)"
    and rest: "allocate_block_ids n a1 = Inr (bs, a')" and ids: "ids = b # bs" by auto
  note A = allocate_block_id_owned [OF Suc.prems(1) al]
  have "(\<lambda>c. (ext(b := 1)) c + count_list bs c) = (\<lambda>c. ext c + count_list ids c)"
    using A(2) ids by (auto simp: fun_eq_iff)
  then show ?case using Suc.IH [OF A(1) rest] A ids by (auto simp: same_config_def)
qed auto

section \<open>The block constructor as an interface\<close>

text \<open>
  What the allocator relies on in \<open>create_block\<close>: a constructed block has the fields it was given,
  and construction succeeds when the tokens fit.
\<close>

locale block_factory =
  fixes create_block :: "'x nblock_scheme factory"
  assumes create_block_fields:
    "create_block h prev toks bs pid = Inr b \<Longrightarrow>
       nb_token_ids b = toks \<and> nb_block_size b = bs \<and> nb_prev_block b = prev \<and> nb_block_id b = pid"
    and create_block_total: "length toks \<le> bs \<Longrightarrow> \<exists>b. create_block h prev toks bs pid = Inr b"

context block_factory
begin

lemma init_block_fields:
  assumes "pool_inv p" "init_block create_block h p prev toks bs pid = Inr (r, h', p')"
  shows "nb_token_ids (h' r) = toks" "nb_block_size (h' r) = bs" "nb_prev_block (h' r) = prev"
    "nb_block_id (h' r) = pid" "nb_pool_id (h' r) = ref_idx r"
proof -
  obtain h0 blk where "create_block h0 prev toks bs pid = Inr blk"
    "h' r = blk\<lparr>nb_pool_id := ref_idx r\<rparr>"
    using init_block_spec(7) [OF assms] by blast
  with create_block_fields show "nb_token_ids (h' r) = toks" "nb_block_size (h' r) = bs"
    "nb_prev_block (h' r) = prev" "nb_block_id (h' r) = pid" "nb_pool_id (h' r) = ref_idx r"
    by simp_all
qed

lemma init_block_owned:
  assumes own: "naive_owned h a (ext(b := Suc (ext b)))"
    and run: "init_block create_block h (na_block_pool a) prev toks bs (Some b) = Inr (r, h', p')"
  shows "naive_owned h' (a\<lparr>na_block_pool := p'\<rparr>) ext"
proof (rule naive_ownedI)
  let ?a = "a\<lparr>na_block_pool := p'\<rparr>"
  note D = naive_ownedD [OF own]
  note I = init_block_spec [OF D(2) run]
  note F = init_block_fields [OF D(2) run]
  have pool: "na_block_pool ?a = p'" by simp
  show "naive_inv ?a" using D(1) by simp
  show "0 < pool_size (na_block_pool ?a)" if "all_block_indices ?a \<noteq> {}"
    using D(6) I(8) that by simp
  show "pool_inv (na_block_pool ?a)" unfolding pool by (rule I(1))
  show "nb_pool_id (h' x) = ref_idx x" if "x \<in> pool_live (na_block_pool ?a)" for x
    using that F(5) D(3) I(6) unfolding pool I(3) by auto
  fix c n assume "refcounts (refcounter ?a) c = Some n"
  then have n: "n = int (naive_refs h a c + (ext(b := Suc (ext b))) c)" using D(4) by simp
  let ?S = "{x \<in> pool_live (na_block_pool a). nb_block_id (h x) = Some c}"
  have "{x \<in> pool_live p'. nb_block_id (h' x) = Some c} = (if c = b then insert r ?S else ?S)"
    using F(4) I(6) unfolding I(3) by auto
  moreover have "card (insert r ?S) = Suc (card ?S)"
    using I(2) by (intro card_insert_disjoint) auto
  ultimately have "naive_refs h' ?a c = naive_refs h a c + (if c = b then 1 else 0)"
    unfolding naive_refs_def pool by (cases "c = b") simp_all
  with n show "n = int (naive_refs h' ?a c + ext c)" by simp
qed

lemma allocate_mutable_spec:
  assumes own: "naive_owned h a ext"
    and run: "naive_allocate_mutable_block create_block h a prev = Inr (r, h', a')"
  shows "naive_owned h' a' ext" "r \<notin> pool_live (na_block_pool a)"
    "pool_live (na_block_pool a') = insert r (pool_live (na_block_pool a))"
    "\<And>x. kept a x \<Longrightarrow> h' x = h x" "same_config a a'" "na_cow_tracker a' = na_cow_tracker a"
    "nb_token_ids (h' r) = []" "nb_block_size (h' r) = na_block_size a" "nb_prev_block (h' r) = prev"
    "\<exists>b. free_block_indices a = b # free_block_indices a' \<and> nb_block_id (h' r) = Some b \<and>
       refcounts (refcounter a') b = Some 1"
    "ref_pool r = pool_tag (na_block_pool a)"
proof -
  obtain b a1 p where al: "allocate_block_id a = Inr (b, a1)"
    and ib: "init_block create_block h (na_block_pool a1) prev [] (na_block_size a1) (Some b) = Inr (r, h', p)"
    and a': "a' = a1\<lparr>na_block_pool := p\<rparr>"
    using run by (auto simp: naive_allocate_mutable_block_def)
  note A = allocate_block_id_owned [OF own al]
  have "naive_owned h a1 (ext(b := Suc (ext b)))" using A(1,2) by simp
  from init_block_owned [OF this ib] show "naive_owned h' a' ext" by (simp add: a')
  note P = naive_ownedD(2) [OF A(1)]
  note I = init_block_spec [OF P ib] and F = init_block_fields [OF P ib]
  show "r \<notin> pool_live (na_block_pool a)"
    "pool_live (na_block_pool a') = insert r (pool_live (na_block_pool a))"
    "ref_pool r = pool_tag (na_block_pool a)" "same_config a a'"
    using I(2-5) A(4,5,7) by (simp_all add: a' same_config_def)
  show "h' x = h x" if "kept a x" for x using that I(6) A(4) by (simp add: kept_def)
  show "na_cow_tracker a' = na_cow_tracker a" "nb_token_ids (h' r) = []"
    "nb_block_size (h' r) = na_block_size a" "nb_prev_block (h' r) = prev"
    "\<exists>b. free_block_indices a = b # free_block_indices a' \<and> nb_block_id (h' r) = Some b \<and>
       refcounts (refcounter a') b = Some 1"
    using F A allocate_block_id_fresh(2) [OF naive_ownedD(1) [OF own] al] by (simp_all add: a')
qed

lemma init_block_new:
  assumes "pool_inv (na_block_pool a)" "same_config a (a1\<lparr>na_block_pool := na_block_pool a\<rparr>)"
    and "init_block create_block h (na_block_pool a) prev toks (na_block_size a) pid = Inr (r, h', p)"
  shows "new_blocks h a h' (a1\<lparr>na_block_pool := p\<rparr>) prev [r]"
  using init_block_spec [OF assms(1,3)] init_block_fields [OF assms(1,3)] assms(2)
  by (auto simp: new_blocks_def same_config_def kept_def)

lemma init_blocks_spec:
  assumes "naive_owned h a (\<lambda>c. ext c + count_list (map snd tb) c)"
    "init_blocks create_block h a prev tb = Inr (rs, h', a')"
  shows "naive_owned h' a' ext \<and> new_blocks h a h' a' prev rs \<and>
    map (\<lambda>r. (nb_token_ids (h' r), nb_block_id (h' r))) rs = map (\<lambda>(t, b). (t, Some b)) tb \<and>
    na_cow_tracker a' = na_cow_tracker a \<and> free_block_indices a' = free_block_indices a"
  using assms
proof (induction tb arbitrary: h a prev rs)
  case (Cons x tb)
  obtain toks b where x: "x = (toks, b)" by (cases x)
  from Cons.prems(2) x obtain r h1 p rs1 where
    ib: "init_block create_block h (na_block_pool a) prev toks (na_block_size a) (Some b) = Inr (r, h1, p)"
    and rest: "init_blocks create_block h1 (a\<lparr>na_block_pool := p\<rparr>) (Some r) tb = Inr (rs1, h', a')"
    and rs: "rs = r # rs1" by auto
  let ?e = "\<lambda>c. ext c + count_list (map snd tb) c"
  have "(\<lambda>c. ext c + count_list (map snd (x # tb)) c) = ?e(b := Suc (?e b))"
    by (auto simp: x fun_eq_iff)
  then have "naive_owned h a (?e(b := Suc (?e b)))" using Cons.prems(1) by (simp only:)
  note own = this and P = naive_ownedD(2) [OF this]
  note IH = Cons.IH [OF init_block_owned [OF own ib] rest]
  have new: "new_blocks h a h1 (a\<lparr>na_block_pool := p\<rparr>) prev [r]"
    by (rule init_block_new [OF P _ ib]) (simp add: same_config_def)
  note N = new_blocks_Cons [OF new, of h' a' rs1]
  show ?case using IH N init_block_fields [OF P ib] by (simp add: x rs)
qed auto

lemma allocate_immutable_blocks_spec:
  assumes own: "naive_owned h a ext"
    and run: "naive_allocate_immutable_blocks create_block h a prev toks = Inr (rs, h', a')"
  shows "naive_owned h' a' ext" "new_blocks h a h' a' prev rs"
    "map (\<lambda>r. nb_token_ids (h' r)) rs = toks" "na_cow_tracker a' = na_cow_tracker a"
    "\<exists>ids. free_block_indices a = ids @ free_block_indices a' \<and>
       map (\<lambda>r. nb_block_id (h' r)) rs = map Some ids"
proof -
  obtain ids a1 where al: "allocate_block_ids (length toks) a = Inr (ids, a1)"
    and ib: "init_blocks create_block h a1 prev (zip toks ids) = Inr (rs, h', a')"
    using run by (auto simp: naive_allocate_immutable_blocks_def)
  note A = allocate_block_ids_spec [OF own al]
  then have "naive_owned h a1 (\<lambda>c. ext c + count_list (map snd (zip toks ids)) c)" by simp
  note I = init_blocks_spec [OF this ib]
  show "naive_owned h' a' ext" "na_cow_tracker a' = na_cow_tracker a" using I A by simp_all
  show "new_blocks h a h' a' prev rs"
    using I A by (auto simp: new_blocks_def kept_def same_config_def)
  have fields: "map (\<lambda>r. (nb_token_ids (h' r), nb_block_id (h' r))) rs
      = map (\<lambda>(t, b). (t, Some b)) (zip toks ids)" using I by blast
  from arg_cong [OF this, of "map fst"] A show "map (\<lambda>r. nb_token_ids (h' r)) rs = toks"
    by (simp add: comp_def split_beta)
  from arg_cong [OF fields, of "map snd"] A have "map (\<lambda>r. nb_block_id (h' r)) rs = map Some ids"
    by (simp add: comp_def split_beta flip: map_map [of Some snd, unfolded comp_def])
  then show "\<exists>ids. free_block_indices a = ids @ free_block_indices a' \<and>
       map (\<lambda>r. nb_block_id (h' r)) rs = map Some ids" using A I by auto
qed

lemma fork_blocks_spec:
  assumes "naive_owned h a ext" "fork_blocks create_block h a prev blocks = Inr (rs, h', a')"
    "set blocks \<subseteq> pool_live (na_block_pool a)"
  shows "naive_owned h' a' ext \<and> new_blocks h a h' a' prev rs \<and>
    map (\<lambda>r. (nb_token_ids (h' r), nb_block_id (h' r))) rs
      = map (\<lambda>r. (nb_token_ids (h r), nb_block_id (h r))) blocks \<and>
    na_cow_tracker a' = na_cow_tracker a \<and> free_block_indices a' = free_block_indices a"
  using assms
proof (induction blocks arbitrary: h a prev rs)
  case (Cons x blocks)
  from Cons.prems(2) obtain b n r h1 p rs1 where
    b: "nb_block_id (h x) = Some b" "refcounts (refcounter a) b = Some n" "0 \<le> n" "n + 1 \<noteq> 1"
    and ib: "init_block create_block h (na_block_pool a) prev (nb_token_ids (h x)) (na_block_size a)
       (Some b) = Inr (r, h1, p)"
    and rest: "fork_blocks create_block h1 (a\<lparr>refcounter := (refcounter a)\<lparr>refcounts :=
       (refcounts (refcounter a))(b \<mapsto> n + 1)\<rparr>, na_block_pool := p\<rparr>) (Some r) blocks = Inr (rs1, h', a')"
    and rs: "rs = r # rs1" by auto
  define a1 where "a1 = a\<lparr>refcounter := (refcounter a)\<lparr>refcounts := (refcounts (refcounter a))(b \<mapsto> n + 1)\<rparr>\<rparr>"
  have own1: "naive_owned h a1 (ext(b := Suc (ext b)))"
    unfolding a1_def using b by (intro incr_owned [OF Cons.prems(1)]) auto
  have ib1: "init_block create_block h (na_block_pool a1) prev (nb_token_ids (h x)) (na_block_size a1)
       (Some b) = Inr (r, h1, p)" using ib by (simp add: a1_def)
  note P = naive_ownedD(2) [OF Cons.prems(1)]
  have new: "new_blocks h a h1 (a1\<lparr>na_block_pool := p\<rparr>) prev [r]"
    by (rule init_block_new [OF P _ ib]) (simp add: same_config_def a1_def)
  have keep: "h1 y = h y" if "y \<in> set (x # blocks)" for y
    using new Cons.prems(3) that by (auto simp: new_blocks_def kept_def)
  have live: "set blocks \<subseteq> pool_live (na_block_pool (a1\<lparr>na_block_pool := p\<rparr>))"
    using new Cons.prems(3) by (auto simp: new_blocks_def)
  have rest1: "fork_blocks create_block h1 (a1\<lparr>na_block_pool := p\<rparr>) (Some r) blocks = Inr (rs1, h', a')"
    using rest by (simp add: a1_def)
  note IH = Cons.IH [OF init_block_owned [OF own1 ib1] rest1 live]
  note N = new_blocks_Cons [OF new, of h' a' rs1]
  show ?case using IH N init_block_fields [OF P ib] b(1) keep by (simp add: rs a1_def)
qed auto

lemma swap_in_block_spec:
  assumes own: "naive_owned h a ext" and foreign: "ref_pool r \<noteq> pool_tag (na_block_pool a)"
    and run: "naive_swap_in_block create_block r (h, a) = Inr (h', a')"
  obtains b where "free_block_indices a = b # free_block_indices a'" "ext b = 0"
    "h' r = (h r)\<lparr>nb_block_id := Some b\<rparr>" "\<And>x. kept a x \<Longrightarrow> x \<noteq> r \<Longrightarrow> h' x = h x"
    "naive_owned h' a' (ext(b := 1))" "same_config a a'"
    "pool_live (na_block_pool a') = pool_live (na_block_pool a)"
    "na_cow_tracker a' = na_cow_tracker a"
proof -
  have kept_r: "kept a r" using foreign by (simp add: kept_def)
  obtain t h1 a1 h2 a2 where
    mu: "naive_allocate_mutable_block create_block h a (nb_prev_block (h r)) = Inr (t, h1, a1)"
    and ap: "naive_append_token_ids h1 a1 t (nb_token_ids (h r)) = Inr (h2, a2)"
    and res: "a' = a2\<lparr>na_block_pool := pool_free_block (na_block_pool a2) (set_block_id h2 t None t)\<rparr>"
      "h' = set_block_id (set_block_id h2 t None) r (nb_block_id (h2 t))"
    using run by (auto simp: naive_swap_in_block_def naive_allocate_immutable_block_def Let_def
        kept_r allocate_mutable_spec(4) [OF own] split: if_splits)
  note M = allocate_mutable_spec [OF own mu]
  from M(10) obtain b where b: "free_block_indices a = b # free_block_indices a1"
    "nb_block_id (h1 t) = Some b" "refcounts (refcounter a1) b = Some 1" by blast
  have live1: "t \<in> pool_live (na_block_pool a1)" using M(3) by simp
  note A = naive_append_spec [OF M(1) live1 ap]
  have a2: "a2 = a1" and bid: "nb_block_id (h2 t) = Some b"
    using M(1) live1 ap b by (cases rule: naive_append_cases; simp)+
  have tr: "t \<noteq> r" using M(11) foreign by auto
  have live2: "t \<in> pool_live (na_block_pool a2)" using live1 a2 by simp
  define h3 where "h3 = set_block_id h2 t None"
  have own3: "naive_owned h3 a2 (ext(b := Suc (ext b)))"
    unfolding h3_def by (rule unset_block_id_owned [OF A(1) live2 bid])
  have none: "nb_block_id (h3 t) = None" by (simp add: h3_def)
  have own4: "naive_owned h3 a' (ext(b := Suc (ext b)))"
    using pool_free_owned [OF own3 live2 none] by (simp add: res h3_def)
  have pid: "nb_pool_id (h3 t) = ref_idx t" using naive_ownedD(3) [OF own3] live2 by simp
  note P = pool_free_block_spec [where p = "na_block_pool a2" and b = "h3 t",
      OF naive_ownedD(2) [OF own3] live2 pid]
  have live': "pool_live (na_block_pool a') = pool_live (na_block_pool a)"
    using P(2) M(2,3) by (simp add: res a2 h3_def)
  have own': "naive_owned h' a' (ext(b := Suc (ext b)))"
  proof (rule naive_owned_cong [OF own4])
    fix x assume "x \<in> pool_live (na_block_pool a')"
    then have "x \<noteq> r" using live' foreign by (auto simp: pool_live_def)
    then show "nb_block_id (h' x) = nb_block_id (h3 x) \<and> nb_pool_id (h' x) = nb_pool_id (h3 x)"
      by (simp add: res h3_def)
  qed
  have fresh: "refcounts (refcounter a) b = Some 0"
    using naive_ownedD(1) [OF own] b(1) unfolding naive_inv_def by (metis list.set_intros(1))
  then have zero: "ext b = 0" using naive_ownedD(4) [OF own fresh] by simp
  have frame: "h2 x = h x" if "kept a x" for x
  proof -
    have "x \<noteq> t" using that M(2,11) by (auto simp: kept_def)
    then show ?thesis using A(4) M(4) that by simp
  qed
  show thesis
  proof
    show "free_block_indices a = b # free_block_indices a'" using b(1) by (simp add: res a2)
    show "ext b = 0" by (rule zero)
    show "h' r = (h r)\<lparr>nb_block_id := Some b\<rparr>"
      using frame [OF kept_r] tr bid by (simp add: res set_block_id_def)
    show "h' x = h x" if "kept a x" "x \<noteq> r" for x
    proof -
      have "x \<noteq> t" using that M(2,11) by (auto simp: kept_def)
      then show ?thesis using frame [OF that(1)] that(2) by (simp add: res set_block_id_def)
    qed
    show "naive_owned h' a' (ext(b := 1))" using own' zero by simp
    show "same_config a a'" using M(5) P(3) by (simp add: res a2 same_config_def h3_def)
    show "pool_live (na_block_pool a') = pool_live (na_block_pool a)" by (rule live')
    show "na_cow_tracker a' = na_cow_tracker a" using M(6) by (simp add: res a2)
  qed
qed

lemma allocate_immutable_spec:
  assumes own: "naive_owned h a ext"
    and run: "naive_allocate_immutable_block create_block h a prev toks = Inr (r, h', a')"
  shows "naive_owned h' a' ext" "new_blocks h a h' a' prev [r]" "nb_token_ids (h' r) = toks"
    "\<exists>b. free_block_indices a = b # free_block_indices a' \<and> nb_block_id (h' r) = Some b"
    "na_cow_tracker a' = na_cow_tracker a"
proof -
  obtain h1 a1 where mu: "naive_allocate_mutable_block create_block h a prev = Inr (r, h1, a1)"
    and ap: "naive_append_token_ids h1 a1 r toks = Inr (h', a')"
    using run by (auto simp: naive_allocate_immutable_block_def)
  note M = allocate_mutable_spec [OF own mu]
  have live: "r \<in> pool_live (na_block_pool a1)" using M(3) by simp
  note A = naive_append_spec [OF M(1) live ap]
  from M(10) obtain b where b: "free_block_indices a = b # free_block_indices a1"
    "nb_block_id (h1 r) = Some b" "refcounts (refcounter a1) b = Some 1" by blast
  have same: "a' = a1" "nb_block_id (h' r) = Some b"
    using M(1) live ap b by (cases rule: naive_append_cases; simp)+
  show "naive_owned h' a' ext" by (rule A(1))
  show "nb_token_ids (h' r) = toks" using A(5) M(7) by simp
  show "\<exists>b. free_block_indices a = b # free_block_indices a' \<and> nb_block_id (h' r) = Some b"
    "na_cow_tracker a' = na_cow_tracker a" using b same M(6) by simp_all
  have "h' x = h x" if "kept a x" for x
    using that A(4) M(2,4,11) by (cases "x = r") (auto simp: kept_def)
  then show "new_blocks h a h' a' prev [r]"
    using M A(6,7) same by (simp add: new_blocks_def)
qed

text \<open>Success: with enough free ids and tokens that fit, no operation raises.\<close>

lemma init_block_fits:
  assumes "pool_inv p" "0 < pool_size p" "length toks \<le> bs"
  shows "\<exists>r h' p'. init_block create_block h p prev toks bs pid = Inr (r, h', p')"
proof (rule init_block_ok [OF assms(1,2)])
  show "\<exists>b. create_block h None [] (pool_block_size p) None = Inr b" for h
    by (rule create_block_total) simp
  show "\<exists>b. create_block h prev toks bs pid = Inr b" for h
    by (rule create_block_total) (rule assms(3))
qed

lemma allocate_mutable_ok:
  assumes own: "naive_owned h a ext" and free: "free_block_indices a \<noteq> []"
  shows "\<exists>r h' a'. naive_allocate_mutable_block create_block h a prev = Inr (r, h', a')"
proof -
  note D = naive_ownedD [OF own]
  obtain a1 where al: "allocate_block_id a = Inr (hd (free_block_indices a), a1)"
    using allocate_block_id_ok [OF D(1) free] by blast
  note A = allocate_block_id_owned [OF own al]
  have "all_block_indices a \<noteq> {}" using naive_inv_free_subset [OF D(1)] free by (cases "free_block_indices a") auto
  then have "0 < pool_size (na_block_pool a1)" using D(6) A(4) by simp
  then obtain r h' p where "init_block create_block h (na_block_pool a1) prev [] (na_block_size a1)
      (Some (hd (free_block_indices a))) = Inr (r, h', p)"
    using init_block_fits [OF naive_ownedD(2) [OF A(1)]] by (metis le0 list.size(3))
  then show ?thesis using al by (auto simp: naive_allocate_mutable_block_def)
qed

lemma init_blocks_ok:
  assumes "naive_owned h a (\<lambda>c. ext c + count_list (map snd tb) c)" "all_block_indices a \<noteq> {}"
    "\<And>t. t \<in> fst ` set tb \<Longrightarrow> length t \<le> na_block_size a"
  shows "\<exists>rs h' a'. init_blocks create_block h a prev tb = Inr (rs, h', a')"
  using assms
proof (induction tb arbitrary: h a prev)
  case (Cons x tb)
  obtain toks b where x: "x = (toks, b)" by (cases x)
  let ?e = "\<lambda>c. ext c + count_list (map snd tb) c"
  have "(\<lambda>c. ext c + count_list (map snd (x # tb)) c) = ?e(b := Suc (?e b))"
    by (auto simp: x fun_eq_iff)
  then have own: "naive_owned h a (?e(b := Suc (?e b)))" using Cons.prems(1) by (simp only:)
  note D = naive_ownedD [OF own]
  have fits: "length toks \<le> na_block_size a" using Cons.prems(3) [of toks] by (simp add: x)
  have "0 < pool_size (na_block_pool a)" using D(6) Cons.prems(2) by simp
  then obtain r h1 p where ib: "init_block create_block h (na_block_pool a) prev toks (na_block_size a)
      (Some b) = Inr (r, h1, p)"
    using init_block_fits [OF D(2) _ fits] by blast
  have "\<exists>rs h' a'. init_blocks create_block h1 (a\<lparr>na_block_pool := p\<rparr>) (Some r) tb = Inr (rs, h', a')"
    by (rule Cons.IH [OF init_block_owned [OF own ib]]) (use Cons.prems in auto)
  then show ?case using ib by (auto simp: x)
qed auto

end

lemma allocate_block_ids_ok:
  assumes "naive_owned h a ext" "n \<le> length (free_block_indices a)"
  shows "\<exists>ids a'. allocate_block_ids n a = Inr (ids, a')"
  using assms
proof (induction n arbitrary: a ext)
  case (Suc n)
  obtain a1 where al: "allocate_block_id a = Inr (hd (free_block_indices a), a1)"
    using allocate_block_id_ok [OF naive_ownedD(1) [OF Suc.prems(1)]] Suc.prems(2) by fastforce
  note A = allocate_block_id_owned [OF Suc.prems(1) al]
  have "n \<le> length (free_block_indices a1)" using A(8) Suc.prems(2) by (metis Suc_le_mono length_Cons)
  from Suc.IH [OF A(1) this] al show ?case by auto
qed simp

context block_factory
begin

lemma allocate_immutable_blocks_ok:
  assumes own: "naive_owned h a ext" and enough: "length toks \<le> length (free_block_indices a)"
    and fits: "\<And>t. t \<in> set toks \<Longrightarrow> length t \<le> na_block_size a"
  shows "\<exists>rs h' a'. naive_allocate_immutable_blocks create_block h a prev toks = Inr (rs, h', a')"
proof -
  obtain ids a1 where al: "allocate_block_ids (length toks) a = Inr (ids, a1)"
    using allocate_block_ids_ok [OF own enough] by blast
  note A = allocate_block_ids_spec [OF own al]
  have "\<exists>rs h' a'. init_blocks create_block h a1 prev (zip toks ids) = Inr (rs, h', a')"
  proof (cases "toks = []")
    case False
    have "all_block_indices a \<noteq> {}"
      using naive_inv_free_subset [OF naive_ownedD(1) [OF own]] enough False
      by (cases "free_block_indices a") auto
    then have ne: "all_block_indices a1 \<noteq> {}" using A by (simp add: same_config_def)
    have "naive_owned h a1 (\<lambda>c. ext c + count_list (map snd (zip toks ids)) c)" using A by simp
    from this ne show ?thesis
      by (rule init_blocks_ok) (use A fits in \<open>auto simp: same_config_def dest: set_zip_leftD\<close>)
  qed simp
  then show ?thesis using al by (auto simp: naive_allocate_immutable_blocks_def)
qed

end

lemma naive_append_ok:
  assumes own: "naive_owned h a ext" and live: "r \<in> pool_live (na_block_pool a)"
    and id: "nb_block_id (h r) = Some b" "b \<in> all_block_indices a"
    and fits: "int (length toks) \<le> num_empty_slots (h r)" and free: "free_block_indices a \<noteq> []"
  shows "\<exists>h' a'. naive_append_token_ids h a r toks = Inr (h', a')"
proof -
  define h1 where "h1 = h(r := (h r)\<lparr>nb_token_ids := nb_token_ids (h r) @ toks\<rparr>)"
  have own1: "naive_owned h1 a ext" by (rule naive_owned_cong [OF own]) (simp add: h1_def)
  have id1: "nb_block_id (h1 r) = Some b" by (simp add: h1_def id)
  obtain n where n: "refcounts (refcounter a) b = Some n" using naive_ownedD(5) [OF own id(2)] by blast
  have "\<exists>i h2 a'. cow_block_if_not_appendable h1 a r = Inr (i, h2, a')"
  proof (cases "n \<le> 1")
    case True
    then show ?thesis using cow_exclusive [of h1 r b a n] id1 n by blast
  next
    case False
    define a1 where "a1 = a\<lparr>refcounter := (refcounter a)\<lparr>refcounts := (refcounts (refcounter a))(b \<mapsto> n - 1)\<rparr>\<rparr>"
    have fr: "free_block_id h1 a r = Inr (set_block_id h1 r None, a1)"
      using id1 n False by (auto simp: free_block_id_Inr a1_def)
    note F = free_block_id_owned [OF own1 live fr]
    have "free_block_indices a1 \<noteq> []" using free by (simp add: a1_def)
    then obtain t a2 where "allocate_block_id a1 = Inr (t, a2)"
      using allocate_block_id_ok [OF naive_ownedD(1) [OF F(1)]] by blast
    then show ?thesis using fr id1 n False
      by (auto simp: cow_block_if_not_appendable_def is_appendable_def rc_get_def record_cow_def)
  qed
  moreover have "append_token_ids_no_cow (h r) toks = Inr (h1 r)"
    using fits by (simp add: append_token_ids_no_cow_Inr h1_def)
  ultimately show ?thesis using id1 by (auto simp: naive_append_token_ids_def h1_def)
qed

section \<open>NaiveBlock as a block constructor\<close>

interpretation naive: block_factory naive_block_init
proof
  fix h :: "nblock store" and prev toks bs pid b
  show "naive_block_init h prev toks bs pid = Inr b \<Longrightarrow>
      nb_token_ids b = toks \<and> nb_block_size b = bs \<and> nb_prev_block b = prev \<and> nb_block_id b = pid"
    by (auto simp: naive_block_init_def append_token_ids_no_cow_Inr)
  show "length toks \<le> bs \<Longrightarrow> \<exists>b. naive_block_init h prev toks bs pid = Inr b"
    by (simp add: naive_block_init_def append_token_ids_no_cow_def num_empty_slots_def)
qed

section \<open>NaiveBlockAllocator as a BlockAllocator\<close>

text \<open>\<open>depth\<close> is the recursion limit of the interpreter, which bounds \<open>fork\<close>.\<close>

definition naive_ops :: "'x nblock_scheme factory \<Rightarrow> nat \<Rightarrow> ('x, naive_allocator) allocator_ops" where
  "naive_ops create_block depth =
     \<lparr>op_allocate_mutable_block = naive_allocate_mutable_block create_block,
      op_allocate_immutable_block = naive_allocate_immutable_block create_block,
      op_allocate_immutable_blocks = naive_allocate_immutable_blocks create_block,
      op_append_token_ids = naive_append_token_ids,
      op_free = (\<lambda>h a r. naive_free h a r False),
      op_fork = naive_fork create_block depth,
      op_swap_out = naive_swap_out,
      op_swap_in = naive_swap_in create_block,
      op_get_num_total_blocks = naive_get_num_total_blocks,
      op_get_num_free_blocks = naive_get_num_free_blocks,
      op_get_physical_block_id = naive_get_physical_block_id,
      op_all_block_ids = all_block_indices,
      op_clear_copy_on_writes = naive_clear_copy_on_writes,
      op_mark_blocks_as_accessed = (\<lambda>a block_ids now. Inr a),
      op_mark_blocks_as_computed = (\<lambda>a block_ids. Inr a),
      op_get_computed_block_ids = (\<lambda>a prev ids skip. Inr (naive_get_computed_block_ids prev ids skip)),
      op_get_common_computed_block_ids = (\<lambda>a. naive_get_common_computed_block_ids),
      op_get_num_full_blocks_touched = (\<lambda>h a rs. Inr (naive_get_num_full_blocks_touched h rs)),
      op_pool_tag = (\<lambda>a. pool_tag (na_block_pool a))\<rparr>"

definition naive_live :: "naive_allocator \<Rightarrow> bref set" where
  "naive_live a = pool_live (na_block_pool a)"

definition naive_resident :: "'x nblock_scheme store \<Rightarrow> naive_allocator \<Rightarrow> bool" where
  "naive_resident h a \<longleftrightarrow> naive_owned h a (\<lambda>_. 0) \<and>
     (\<forall>r \<in> naive_live a. \<exists>b \<in> all_block_indices a. nb_block_id (h r) = Some b)"

lemma new_blocks_created:
  "new_blocks h a h' a' prev rs \<Longrightarrow>
     created (naive_live a) (pool_tag (na_block_pool a)) (na_block_size a) h (naive_live a') h' prev rs"
  unfolding new_blocks_def created_def naive_live_def kept_def by blast

lemma naive_resident_free_ids:
  "naive_resident h a \<Longrightarrow> b \<in> set (free_block_indices a) \<Longrightarrow> b \<in> all_block_indices a"
  using naive_inv_free_subset naive_ownedD(1) unfolding naive_resident_def by blast

lemma naive_resident_new:
  assumes res: "naive_resident h a" and own: "naive_owned h' a' (\<lambda>_. 0)"
    and new: "new_blocks h a h' a' prev rs"
    and ids: "\<And>r. r \<in> set rs \<Longrightarrow> \<exists>b \<in> all_block_indices a. nb_block_id (h' r) = Some b"
  shows "naive_resident h' a'"
proof -
  have "\<exists>b \<in> all_block_indices a'. nb_block_id (h' r) = Some b" if "r \<in> naive_live a'" for r
  proof (cases "r \<in> set rs")
    case True
    then show ?thesis using ids new by (auto simp: new_blocks_def same_config_def)
  next
    case False
    with that new have "r \<in> naive_live a" "h' r = h r" by (auto simp: new_blocks_def naive_live_def kept_def)
    then show ?thesis using res new by (auto simp: naive_resident_def new_blocks_def same_config_def)
  qed
  with own show ?thesis by (simp add: naive_resident_def)
qed

lemma mem_map_eqD: "map f xs = map g ys \<Longrightarrow> x \<in> set xs \<Longrightarrow> \<exists>y \<in> set ys. f x = g y"
  by (metis image_iff list.set_map)

lemma get_all_blocks_chained:
  assumes "chained h None bs" "bs \<noteq> []" "get_all_blocks_recursively depth h (last bs) = Inr rs"
  shows "rs = bs"
  using assms
proof (induction bs arbitrary: depth rs rule: rev_induct)
  case (snoc r bs)
  obtain d where d: "depth = Suc d" using snoc.prems(3) by (cases depth) auto
  show ?case
  proof (cases "bs = []")
    case True
    then show ?thesis using snoc.prems d by (auto simp: chained_append)
  next
    case False
    then have "nb_prev_block (h r) = Some (last bs)" "chained h None bs"
      using snoc.prems(1) by (auto simp: chained_append)
    then show ?thesis using snoc.prems(3) snoc.IH [OF _ False] d by auto
  qed
qed simp

context block_factory
begin

lemma naive_mutable_law:
  assumes res: "naive_resident h a"
    and run: "naive_allocate_mutable_block create_block h a prev = Inr (r, h', a')"
  shows "naive_resident h' a'" "new_blocks h a h' a' prev [r]"
proof -
  have own: "naive_owned h a (\<lambda>_. 0)" using res by (simp add: naive_resident_def)
  note M = allocate_mutable_spec [OF own run]
  show new: "new_blocks h a h' a' prev [r]" using M by (simp add: new_blocks_def)
  show "naive_resident h' a'"
    by (rule naive_resident_new [OF res M(1) new])
      (use M(10) naive_resident_free_ids [OF res] in auto)
qed

lemma naive_immutables_law:
  assumes res: "naive_resident h a"
    and run: "naive_allocate_immutable_blocks create_block h a prev toks = Inr (rs, h', a')"
  shows "naive_resident h' a'"
proof -
  have own: "naive_owned h a (\<lambda>_. 0)" using res by (simp add: naive_resident_def)
  note M = allocate_immutable_blocks_spec [OF own run]
  obtain ids where ids: "free_block_indices a = ids @ free_block_indices a'"
    "map (\<lambda>r. nb_block_id (h' r)) rs = map Some ids" using M(5) by blast
  show ?thesis
    by (rule naive_resident_new [OF res M(1,2)])
      (use ids(1) mem_map_eqD [OF ids(2)] naive_resident_free_ids [OF res] in fastforce)
qed

lemma naive_fork_law:
  assumes res: "naive_resident h a" and chain: "chained h None bs" "bs \<noteq> []" "set bs \<subseteq> naive_live a"
    and run: "naive_fork create_block depth h a (last bs) = Inr (rs, h', a')"
  shows "naive_resident h' a'" "new_blocks h a h' a' None rs"
    "map (\<lambda>r. (nb_token_ids (h' r), nb_block_id (h' r))) rs
       = map (\<lambda>r. (nb_token_ids (h r), nb_block_id (h r))) bs"
proof -
  have own: "naive_owned h a (\<lambda>_. 0)" using res by (simp add: naive_resident_def)
  obtain src where "get_all_blocks_recursively depth h (last bs) = Inr src"
    "fork_blocks create_block h a None src = Inr (rs, h', a')"
    using run by (auto simp: naive_fork_def)
  with get_all_blocks_chained [OF chain(1,2)]
  have "fork_blocks create_block h a None bs = Inr (rs, h', a')" by blast
  from fork_blocks_spec [OF own this] chain(3)
  have F: "naive_owned h' a' (\<lambda>_. 0)" "new_blocks h a h' a' None rs"
    "map (\<lambda>r. (nb_token_ids (h' r), nb_block_id (h' r))) rs
       = map (\<lambda>r. (nb_token_ids (h r), nb_block_id (h r))) bs" by (auto simp: naive_live_def)
  from F(2,3) show "new_blocks h a h' a' None rs"
    "map (\<lambda>r. (nb_token_ids (h' r), nb_block_id (h' r))) rs
       = map (\<lambda>r. (nb_token_ids (h r), nb_block_id (h r))) bs" .
  show "naive_resident h' a'"
  proof (rule naive_resident_new [OF res F(1,2)])
    fix r assume "r \<in> set rs"
    from mem_map_eqD [OF F(3) this] obtain s where "s \<in> set bs" "nb_block_id (h' r) = nb_block_id (h s)"
      by auto
    then show "\<exists>b \<in> all_block_indices a. nb_block_id (h' r) = Some b"
      using res chain(3) by (auto simp: naive_resident_def)
  qed
qed

end

lemma naive_append_law:
  assumes res: "naive_resident h a" and live: "r \<in> naive_live a"
    and run: "naive_append_token_ids h a r toks = Inr (h', a')"
  shows "naive_resident h' a'" "naive_live a' = naive_live a"
proof -
  have own: "naive_owned h a (\<lambda>_. 0)" and live': "r \<in> pool_live (na_block_pool a)"
    using res live by (simp_all add: naive_resident_def naive_live_def)
  note A = naive_append_spec [OF own live' run]
  show nl: "naive_live a' = naive_live a" using A(2) by (simp add: naive_live_def)
  obtain b where b: "b \<in> all_block_indices a" "nb_block_id (h r) = Some b"
    using res live by (auto simp: naive_resident_def)
  have "\<exists>b \<in> all_block_indices a. nb_block_id (h' r) = Some b"
    using own live' run by (cases rule: naive_append_cases) (use b naive_resident_free_ids [OF res] in auto)
  then have "\<exists>b \<in> all_block_indices a'. nb_block_id (h' x) = Some b" if "x \<in> naive_live a'" for x
    using that A(3,4) res nl by (cases "x = r") (auto simp: naive_resident_def same_config_def)
  then show "naive_resident h' a'" using A(1) by (simp add: naive_resident_def)
qed

lemma naive_free_law:
  assumes res: "naive_resident h a" and live: "r \<in> naive_live a"
    and run: "naive_free h a r False = Inr (h', a')"
  shows "naive_resident h' a'" "naive_live a' = naive_live a - {r}"
proof -
  have own: "naive_owned h a (\<lambda>_. 0)" and live': "r \<in> pool_live (na_block_pool a)"
    using res live by (simp_all add: naive_resident_def naive_live_def)
  note F = naive_free_spec [OF own live' run]
  show nl: "naive_live a' = naive_live a - {r}" using F(4) by (simp add: naive_live_def)
  have "\<exists>b \<in> all_block_indices a'. nb_block_id (h' x) = Some b" if "x \<in> naive_live a'" for x
    using that F(2,3) res nl by (auto simp: naive_resident_def same_config_def)
  then show "naive_resident h' a'" using F(1) by (simp add: naive_resident_def)
qed

lemma naive_resident_cong:
  assumes "naive_resident h a" "\<And>x. x \<in> naive_live a \<Longrightarrow> h' x = h x"
  shows "naive_resident h' a"
proof -
  have "naive_owned h' a (\<lambda>_. 0)"
    by (rule naive_owned_cong [of h]) (use assms in \<open>auto simp: naive_resident_def naive_live_def\<close>)
  then show ?thesis using assms by (simp add: naive_resident_def)
qed

lemma naive_ops_simps [simp]:
  "op_allocate_mutable_block (naive_ops fac depth) = naive_allocate_mutable_block fac"
  "op_allocate_immutable_blocks (naive_ops fac depth) = naive_allocate_immutable_blocks fac"
  "op_append_token_ids (naive_ops fac depth) = naive_append_token_ids"
  "op_free (naive_ops fac depth) h a r = naive_free h a r False"
  "op_fork (naive_ops fac depth) = naive_fork fac depth"
  "op_swap_out (naive_ops fac depth) = naive_swap_out"
  "op_swap_in (naive_ops fac depth) = naive_swap_in fac"
  "op_all_block_ids (naive_ops fac depth) = all_block_indices"
  "op_pool_tag (naive_ops fac depth) a = pool_tag (na_block_pool a)"
  "op_get_num_free_blocks (naive_ops fac depth) = naive_get_num_free_blocks"
  "op_get_num_total_blocks (naive_ops fac depth) = naive_get_num_total_blocks"
  "op_clear_copy_on_writes (naive_ops fac depth) = naive_clear_copy_on_writes"
  "op_get_physical_block_id (naive_ops fac depth) = naive_get_physical_block_id"
  by (simp_all add: naive_ops_def)

lemma naive_residentD: "naive_resident h a \<Longrightarrow> naive_owned h a (\<lambda>_. 0)"
  by (simp add: naive_resident_def)

interpretation naive_alloc: block_allocator "naive_ops naive_block_init depth" naive_resident
  naive_live na_block_size for depth
proof
  fix h h' :: "nblock store" and a a' :: naive_allocator and r prev toks rs bs ts
  let ?ops = "naive_ops naive_block_init depth"
  show "naive_resident h a \<Longrightarrow> r \<in> naive_live a \<Longrightarrow> ref_pool r = op_pool_tag ?ops a"
    by (simp add: naive_live_def pool_live_def)
  show "naive_resident h a \<Longrightarrow> r \<in> naive_live a \<Longrightarrow>
      \<exists>b \<in> op_all_block_ids ?ops a. nb_block_id (h r) = Some b"
    by (simp add: naive_resident_def)
  show "naive_resident h a \<Longrightarrow> (\<And>x. x \<in> naive_live a \<Longrightarrow> h' x = h x) \<Longrightarrow> naive_resident h' a"
    by (rule naive_resident_cong)
  assume res: "naive_resident h a"
  note own = naive_residentD [OF res]
  { assume "op_allocate_mutable_block ?ops h a prev = Inr (r, h', a')"
    then have run: "naive_allocate_mutable_block naive_block_init h a prev = Inr (r, h', a')" by simp
    note L = naive.naive_mutable_law [OF res run] and M = naive.allocate_mutable_spec [OF own run]
    show "naive_resident h' a' \<and> created (naive_live a) (op_pool_tag ?ops a) (na_block_size a) h
        (naive_live a') h' prev [r] \<and> nb_token_ids (h' r) = [] \<and> op_pool_tag ?ops a' = op_pool_tag ?ops a \<and>
        na_block_size a' = na_block_size a \<and> op_all_block_ids ?ops a' = op_all_block_ids ?ops a"
      using L(1) new_blocks_created [OF L(2)] M(5,7) by (simp add: same_config_def) }
  { assume "op_allocate_immutable_blocks ?ops h a prev toks = Inr (rs, h', a')"
    then have run: "naive_allocate_immutable_blocks naive_block_init h a prev toks = Inr (rs, h', a')" by simp
    note L = naive.naive_immutables_law [OF res run] and M = naive.allocate_immutable_blocks_spec [OF own run]
    show "naive_resident h' a' \<and> created (naive_live a) (op_pool_tag ?ops a) (na_block_size a) h
        (naive_live a') h' prev rs \<and> map (\<lambda>r. nb_token_ids (h' r)) rs = toks \<and>
        op_pool_tag ?ops a' = op_pool_tag ?ops a \<and>
        na_block_size a' = na_block_size a \<and> op_all_block_ids ?ops a' = op_all_block_ids ?ops a"
      using L new_blocks_created [OF M(2)] M(2,3) by (simp add: new_blocks_def same_config_def) }
  { assume "set bs \<subseteq> naive_live a" "chained h None bs" "bs \<noteq> []" "op_fork ?ops h a (last bs) = Inr (rs, h', a')"
    then have run: "naive_fork naive_block_init depth h a (last bs) = Inr (rs, h', a')"
      and ch: "chained h None bs" "bs \<noteq> []" "set bs \<subseteq> naive_live a" by simp_all
    note L = naive.naive_fork_law [OF res ch run]
    show "naive_resident h' a' \<and> created (naive_live a) (op_pool_tag ?ops a) (na_block_size a) h
        (naive_live a') h' None rs \<and>
        map (\<lambda>r. (nb_token_ids (h' r), nb_block_id (h' r))) rs
          = map (\<lambda>r. (nb_token_ids (h r), nb_block_id (h r))) bs \<and>
        op_pool_tag ?ops a' = op_pool_tag ?ops a \<and>
        na_block_size a' = na_block_size a \<and> op_all_block_ids ?ops a' = op_all_block_ids ?ops a"
      using L new_blocks_created [OF L(2)] by (simp add: new_blocks_def same_config_def) }
  assume live: "r \<in> naive_live a"
  then have live': "r \<in> pool_live (na_block_pool a)" by (simp add: naive_live_def)
  { assume "op_append_token_ids ?ops h a r ts = Inr (h', a')"
    then have run: "naive_append_token_ids h a r ts = Inr (h', a')" by simp
    note L = naive_append_law [OF res live run] and M = naive_append_spec [OF own live' run]
    show "naive_resident h' a' \<and> naive_live a' = naive_live a \<and> (\<forall>x. x \<noteq> r \<longrightarrow> h' x = h x) \<and>
      nb_token_ids (h' r) = nb_token_ids (h r) @ ts \<and> nb_prev_block (h' r) = nb_prev_block (h r) \<and>
      nb_block_size (h' r) = nb_block_size (h r) \<and>
      op_pool_tag ?ops a' = op_pool_tag ?ops a \<and> na_block_size a' = na_block_size a \<and>
      op_all_block_ids ?ops a' = op_all_block_ids ?ops a"
      using L M by (simp add: same_config_def) }
  { assume "op_free ?ops h a r = Inr (h', a')"
    then have run: "naive_free h a r False = Inr (h', a')" by simp
    note L = naive_free_law [OF res live run] and M = naive_free_spec [OF own live' run]
    show "naive_resident h' a' \<and> naive_live a' = naive_live a - {r} \<and> (\<forall>x. x \<noteq> r \<longrightarrow> h' x = h x) \<and>
      op_pool_tag ?ops a' = op_pool_tag ?ops a \<and> na_block_size a' = na_block_size a \<and>
      op_all_block_ids ?ops a' = op_all_block_ids ?ops a"
      using L M by (simp add: same_config_def set_block_id_def) }
qed

end
