(* ===== verification/Naive_Reach.thy ===== *)
theory Naive_Reach
  imports Naive_Block
begin

text \<open>
  Executions of \<open>NaiveBlockAllocator\<close>: the states its clients can reach by calling the operations of
  the \<open>BlockAllocator\<close> interface in any order, and what holds in all of them. The client's duties are
  the premises of the rules: it passes blocks that are in use. Swapping is treated with the
  allocator of both devices.
\<close>

inductive naive_step ::
  "nat \<Rightarrow> nblock store \<times> naive_allocator \<Rightarrow> nblock store \<times> naive_allocator \<Rightarrow> bool" for depth where
  alloc_mutable: "naive_allocate_mutable_block naive_block_init h a prev = Inr (r, h', a') \<Longrightarrow>
     naive_step depth (h, a) (h', a')"
| alloc_immutable: "naive_allocate_immutable_block naive_block_init h a prev toks = Inr (r, h', a') \<Longrightarrow>
     naive_step depth (h, a) (h', a')"
| alloc_immutables: "naive_allocate_immutable_blocks naive_block_init h a prev tss = Inr (rs, h', a') \<Longrightarrow>
     naive_step depth (h, a) (h', a')"
| append: "r \<in> naive_live a \<Longrightarrow> naive_append_token_ids h a r toks = Inr (h', a') \<Longrightarrow>
     naive_step depth (h, a) (h', a')"
| free: "r \<in> naive_live a \<Longrightarrow> naive_free h a r False = Inr (h', a') \<Longrightarrow>
     naive_step depth (h, a) (h', a')"
| fork: "chained h None bs \<Longrightarrow> bs \<noteq> [] \<Longrightarrow> set bs \<subseteq> naive_live a \<Longrightarrow>
     naive_fork naive_block_init depth h a (last bs) = Inr (rs, h', a') \<Longrightarrow>
     naive_step depth (h, a) (h', a')"
| clear_cows: "naive_clear_copy_on_writes a = (cows, a') \<Longrightarrow> naive_step depth (h, a) (h, a')"

inductive naive_reach :: "nat \<Rightarrow> nblock store \<times> naive_allocator \<Rightarrow> bool" for depth where
  init: "distinct ids \<Longrightarrow> naive_allocator_init naive_block_init tag n bs ids None h0 = Inr (h, a) \<Longrightarrow>
     naive_reach depth (h, a)"
| step: "naive_reach depth s \<Longrightarrow> naive_step depth s s' \<Longrightarrow> naive_reach depth s'"

text \<open>
  Coherence: block objects that share a physical block agree on its contents, so that no writer is
  ever visible through another sequence's block.
\<close>

definition coherent :: "'x nblock_scheme store \<Rightarrow> naive_allocator \<Rightarrow> bool" where
  "coherent h a \<longleftrightarrow> (\<forall>r \<in> naive_live a. \<forall>s \<in> naive_live a. \<forall>b.
     nb_block_id (h r) = Some b \<longrightarrow> nb_block_id (h s) = Some b \<longrightarrow> nb_token_ids (h r) = nb_token_ids (h s))"

lemma coherentD:
  "coherent h a \<Longrightarrow> r \<in> naive_live a \<Longrightarrow> s \<in> naive_live a \<Longrightarrow> nb_block_id (h r) = Some b \<Longrightarrow>
     nb_block_id (h s) = Some b \<Longrightarrow> nb_token_ids (h r) = nb_token_ids (h s)"
  unfolding coherent_def by blast

lemma coherentI:
  "(\<And>r s b. r \<in> naive_live a \<Longrightarrow> s \<in> naive_live a \<Longrightarrow> r \<noteq> s \<Longrightarrow> nb_block_id (h r) = Some b \<Longrightarrow>
     nb_block_id (h s) = Some b \<Longrightarrow> nb_token_ids (h r) = nb_token_ids (h s)) \<Longrightarrow> coherent h a"
  unfolding coherent_def by metis

lemma not_free_live:
  "naive_resident h a \<Longrightarrow> r \<in> naive_live a \<Longrightarrow> nb_block_id (h r) = Some b \<Longrightarrow> b \<notin> set (free_block_indices a)"
  using naive_owned_not_free [of h a "\<lambda>_. 0" r b] by (simp add: naive_resident_def naive_live_def)

text \<open>New blocks on ids from the free list, each used once, cannot clash with anything.\<close>

lemma coherent_fresh:
  assumes coh: "coherent h a" and res: "naive_resident h a" and new: "new_blocks h a h' a' prev rs"
    and ids: "map (\<lambda>r. nb_block_id (h' r)) rs = map Some ids" "distinct ids"
      "set ids \<subseteq> set (free_block_indices a)"
  shows "coherent h' a'"
proof (rule coherentI)
  fix r s b assume rs: "r \<in> naive_live a'" "s \<in> naive_live a'" "r \<noteq> s"
    and b: "nb_block_id (h' r) = Some b" "nb_block_id (h' s) = Some b"
  have old: "h' x = h x" "x \<in> naive_live a" if "x \<in> naive_live a'" "x \<notin> set rs" for x
    using new that by (auto simp: new_blocks_def naive_live_def kept_def)
  have inj: "inj_on (\<lambda>r. nb_block_id (h' r)) (set rs)"
    using ids by (metis distinct_map inj_Some inj_on_subset subset_UNIV)
  have fresh: "b \<in> set (free_block_indices a)" if "x \<in> set rs" "nb_block_id (h' x) = Some b" for x
    using mem_map_eqD [OF ids(1) that(1)] that(2) ids(3) by auto
  have notfree: "b \<notin> set (free_block_indices a)" if "x \<in> naive_live a'" "x \<notin> set rs" "nb_block_id (h' x) = Some b" for x
    using not_free_live [OF res old(2) [OF that(1,2)]] old(1) [OF that(1,2)] that(3) by simp
  consider "r \<in> set rs" "s \<in> set rs" | "r \<notin> set rs" "s \<notin> set rs" | "r \<in> set rs \<longleftrightarrow> s \<notin> set rs" by blast
  then show "nb_token_ids (h' r) = nb_token_ids (h' s)"
  proof cases
    case 1
    then show ?thesis using inj b rs(3) by (metis inj_onD)
  next
    case 2
    then show ?thesis using old rs b coherentD [OF coh] by metis
  next
    case 3
    then show ?thesis using fresh notfree rs b by metis
  qed
qed

lemma coherent_mutable:
  assumes res: "naive_resident h a" and coh: "coherent h a"
    and run: "naive_allocate_mutable_block naive_block_init h a prev = Inr (r, h', a')"
  shows "coherent h' a'"
proof -
  obtain b where "free_block_indices a = b # free_block_indices a'" "nb_block_id (h' r) = Some b"
    using naive.allocate_mutable_spec(10) [OF naive_residentD [OF res] run] by blast
  then show ?thesis
    by (intro coherent_fresh [OF coh res naive.naive_mutable_law(2) [OF res run], of "[b]"]) auto
qed

lemma coherent_immutable:
  assumes res: "naive_resident h a" and coh: "coherent h a"
    and run: "naive_allocate_immutable_block naive_block_init h a prev toks = Inr (r, h', a')"
  shows "coherent h' a'" "naive_resident h' a'"
proof -
  note M = naive.allocate_immutable_spec [OF naive_residentD [OF res] run]
  then obtain b where b: "free_block_indices a = b # free_block_indices a'" "nb_block_id (h' r) = Some b"
    by blast
  then show "coherent h' a'" by (intro coherent_fresh [OF coh res M(2), of "[b]"]) auto
  show "naive_resident h' a'"
    by (rule naive_resident_new [OF res M(1,2)]) (use b naive_resident_free_ids [OF res, of b] in auto)
qed

lemma coherent_immutables:
  assumes res: "naive_resident h a" and coh: "coherent h a"
    and run: "naive_allocate_immutable_blocks naive_block_init h a prev tss = Inr (rs, h', a')"
  shows "coherent h' a'"
proof -
  note M = naive.allocate_immutable_blocks_spec [OF naive_residentD [OF res] run]
  obtain ids where ids: "free_block_indices a = ids @ free_block_indices a'"
    "map (\<lambda>r. nb_block_id (h' r)) rs = map Some ids" using M(5) by blast
  have "distinct (free_block_indices a)"
    using naive_ownedD(1) [OF naive_residentD [OF res]] unfolding naive_inv_def by blast
  then show ?thesis by (intro coherent_fresh [OF coh res M(2) ids(2)]) (use ids(1) in auto)
qed

lemma coherent_fork:
  assumes res: "naive_resident h a" and coh: "coherent h a"
    and ch: "chained h None bs" "bs \<noteq> []" "set bs \<subseteq> naive_live a"
    and run: "naive_fork naive_block_init depth h a (last bs) = Inr (rs, h', a')"
  shows "coherent h' a'"
proof -
  note F = naive.naive_fork_law [OF res ch run]
  have src: "\<exists>y \<in> naive_live a. nb_token_ids (h' x) = nb_token_ids (h y) \<and> nb_block_id (h' x) = nb_block_id (h y)"
    if x: "x \<in> naive_live a'" for x
  proof (cases "x \<in> set rs")
    case True
    then show ?thesis using mem_map_eqD [OF F(3)] ch(3) by fastforce
  next
    case False
    then have "x \<in> naive_live a" "h' x = h x"
      using F(2) x by (auto simp: new_blocks_def naive_live_def kept_def)
    then show ?thesis by auto
  qed
  show ?thesis by (rule coherentI) (metis src coherentD [OF coh])
qed

text \<open>A block whose count is at most one has a single user, which may write in place.\<close>

lemma sole_user:
  assumes res: "naive_resident h a" and n: "refcounts (refcounter a) b = Some n" "n \<le> 1"
    and r: "r \<in> naive_live a" "nb_block_id (h r) = Some b" and s: "s \<in> naive_live a" "nb_block_id (h s) = Some b"
  shows "r = s"
proof -
  let ?S = "{x \<in> pool_live (na_block_pool a). nb_block_id (h x) = Some b}"
  have "card ?S \<le> 1"
    using naive_ownedD(4) [OF naive_residentD [OF res] n(1)] n(2) by (simp add: naive_refs_def)
  moreover have "r \<in> ?S" "s \<in> ?S" "finite ?S" using r s by (simp_all add: naive_live_def)
  ultimately show ?thesis by (auto simp: card_le_Suc0_iff_eq)
qed

lemma coherent_append:
  assumes res: "naive_resident h a" and coh: "coherent h a" and live: "r \<in> naive_live a"
    and run: "naive_append_token_ids h a r toks = Inr (h', a')"
  shows "coherent h' a'"
proof -
  have own: "naive_owned h a (\<lambda>_. 0)" and live': "r \<in> pool_live (na_block_pool a)"
    using res live by (simp_all add: naive_resident_def naive_live_def)
  note L = naive_append_law(2) [OF res live run] and A = naive_append_spec [OF own live' run]
  have excl: "nb_block_id (h' s) \<noteq> Some b"
    if s: "s \<in> naive_live a" "s \<noteq> r" and b: "nb_block_id (h' r) = Some b" for s b
    using own live' run
  proof (cases rule: naive_append_cases)
    case (exclusive src n)
    then show ?thesis using s b sole_user [OF res exclusive(2,3) live, of s] by auto
  next
    case (shared src n trg)
    then show ?thesis using s b not_free_live [OF res s(1), of trg] by auto
  qed (use b in auto)
  show ?thesis
  proof (rule coherentI)
    fix x y b assume "x \<in> naive_live a'" "y \<in> naive_live a'" "x \<noteq> y"
      "nb_block_id (h' x) = Some b" "nb_block_id (h' y) = Some b"
    then show "nb_token_ids (h' x) = nb_token_ids (h' y)"
      using excl L A(4) coherentD [OF coh] by metis
  qed
qed

lemma coherent_free:
  assumes res: "naive_resident h a" and coh: "coherent h a" and live: "r \<in> naive_live a"
    and run: "naive_free h a r False = Inr (h', a')"
  shows "coherent h' a'"
proof -
  have live': "r \<in> pool_live (na_block_pool a)" using live by (simp add: naive_live_def)
  note F = naive_free_spec [OF naive_residentD [OF res] live' run]
  show ?thesis
    by (rule coherentI) (use naive_free_law(2) [OF res live run] F(2) coherentD [OF coh] in auto)
qed

lemma naive_init_resident:
  assumes "distinct ids" "naive_allocator_init fac tag n bs ids None h0 = Inr (h, a)"
  shows "naive_resident h a" "naive_live a = {}" "na_block_size a = bs" "pool_tag (na_block_pool a) = tag"
    "all_block_indices a = set ids" "free_block_indices a = ids"
proof -
  obtain p where p: "p = \<lparr>pool_tag = tag, pool_block_size = bs, pool_size = n * 4, free_ids = [0..<n * 4]\<rparr>"
    and card: "card (set ids) = n"
    and a: "a = \<lparr>free_block_indices = ids, all_block_indices = set ids, refcounter = ref_counter_init ids,
      na_block_size = bs, na_cow_tracker = \<lparr>copy_on_writes = []\<rparr>, na_block_pool = p\<rparr>"
    using assms(2) by (auto simp: naive_allocator_init_def block_pool_init_def)
  show live: "naive_live a = {}" by (auto simp: naive_live_def a p pool_live_def)
  show "na_block_size a = bs" "pool_tag (na_block_pool a) = tag" "all_block_indices a = set ids"
    "free_block_indices a = ids" by (simp_all add: a p)
  have "naive_owned h a (\<lambda>_. 0)"
  proof (rule naive_ownedI)
    show "naive_inv a"
      using assms(1) unfolding naive_inv_def a by (auto simp: ref_counter_init_def split: if_splits)
    show "pool_inv (na_block_pool a)" by (auto simp: a p pool_inv_def)
    show "0 < pool_size (na_block_pool a)" if "all_block_indices a \<noteq> {}"
      using that card by (auto simp: a p card_gt_0_iff)
    show "nb_pool_id (h r) = ref_idx r" if "r \<in> pool_live (na_block_pool a)" for r
      using live that by (simp add: naive_live_def)
    show "k = int (naive_refs h a b + 0)" if "refcounts (refcounter a) b = Some k" for b k
      using that live by (auto simp: a ref_counter_init_def naive_refs_def naive_live_def split: if_splits)
  qed
  then show "naive_resident h a" using live by (simp add: naive_resident_def)
qed

lemma cow_tracker_irrelevant [simp]:
  "naive_live (a\<lparr>na_cow_tracker := t\<rparr>) = naive_live a"
  "naive_resident h (a\<lparr>na_cow_tracker := t\<rparr>) = naive_resident h a"
  "coherent h (a\<lparr>na_cow_tracker := t\<rparr>) = coherent h a"
  unfolding naive_resident_def naive_live_def coherent_def by simp_all

lemma naive_step_inv:
  assumes "naive_step depth (h, a) (h', a')" "naive_resident h a" "coherent h a"
  shows "naive_resident h' a' \<and> coherent h' a'"
  using assms(1)
proof (cases rule: naive_step.cases)
  case (alloc_mutable prev r)
  then show ?thesis using assms naive.naive_mutable_law(1) coherent_mutable by blast
next
  case (alloc_immutable prev toks r)
  then show ?thesis using assms coherent_immutable by blast
next
  case (alloc_immutables prev tss rs)
  then show ?thesis using assms naive.naive_immutables_law coherent_immutables by blast
next
  case (append r toks)
  then show ?thesis using assms naive_append_law(1) coherent_append by blast
next
  case (free r)
  then show ?thesis using assms naive_free_law(1) coherent_free by blast
next
  case (fork bs rs)
  then show ?thesis using assms naive.naive_fork_law(1) coherent_fork by blast
next
  case (clear_cows cows)
  then have "h' = h" "a' = a\<lparr>na_cow_tracker := (na_cow_tracker a)\<lparr>copy_on_writes := []\<rparr>\<rparr>"
    by (auto simp: naive_clear_copy_on_writes_def clear_cows_def)
  then show ?thesis using assms(2,3) by simp
qed

lemma naive_reach_inv:
  assumes "naive_reach depth s"
  shows "naive_resident (fst s) (snd s) \<and> coherent (fst s) (snd s)"
  using assms
proof (induction rule: naive_reach.induct)
  case (init ids tag n bs h0 h a)
  then show ?case using naive_init_resident [OF init] by (simp add: coherent_def)
next
  case (step s s')
  then show ?case using naive_step_inv [of depth "fst s" "snd s" "fst s'" "snd s'"] by simp
qed

section \<open>A concrete run\<close>

text \<open>
  Three ids and blocks of two tokens: allocate a block holding one token, fork it. The run is used
  to instantiate the properties.
\<close>

definition ex_store :: "nblock store" where
  "ex_store = (\<lambda>_. \<lparr>nb_token_ids = [], nb_block_size = 2, nb_prev_block = None, nb_block_id = None, nb_pool_id = 0\<rparr>)"

definition ex_run :: "py_error + (nblock store \<times> naive_allocator)" where
  "ex_run =
     bindE (naive_allocator_init naive_block_init 0 3 2 [0, 1, 2] None ex_store) (\<lambda>(h, a).
     bindE (naive_allocate_immutable_block naive_block_init h a None [7]) (\<lambda>(r, h, a).
     bindE (naive_fork naive_block_init 10 h a r) (\<lambda>(rs, h, a). Inr (h, a))))"

lemma ex_run_ok: "\<not> isl ex_run"
  by code_simp

lemma ex_run_reach: "naive_reach 10 (projr ex_run)"
proof -
  obtain h a r h1 a1 rs h2 a2 where
    i: "naive_allocator_init naive_block_init 0 3 2 [0, 1, 2] None ex_store = Inr (h, a)"
    and m: "naive_allocate_immutable_block naive_block_init h a None [7] = Inr (r, h1, a1)"
    and f: "naive_fork naive_block_init 10 h1 a1 r = Inr (rs, h2, a2)" and run: "ex_run = Inr (h2, a2)"
  proof -
    obtain h2 a2 where "ex_run = Inr (h2, a2)" using ex_run_ok by (metis not_isl surj_pair)
    then show ?thesis using that by (auto simp: ex_run_def)
  qed
  have "distinct [0, 1, 2 :: nat]" by simp
  from naive_reach.init [OF this i] have r0: "naive_reach 10 (h, a)" .
  then have res: "naive_resident h a" using naive_reach_inv by fastforce
  have r1: "naive_reach 10 (h1, a1)" by (rule naive_reach.step [OF r0 alloc_immutable [OF m]])
  note M = naive.allocate_immutable_spec(2) [OF naive_residentD [OF res] m]
  then have ch: "chained h1 None [r]" "set [r] \<subseteq> naive_live a1" by (auto simp: new_blocks_def naive_live_def)
  have "naive_step 10 (h1, a1) (h2, a2)" by (rule fork [OF ch(1) _ ch(2)]) (use f in simp_all)
  then show ?thesis using r1 naive_reach.step by (simp add: run)
qed

lemma ex_run_pair: "naive_reach 10 (fst (projr ex_run), snd (projr ex_run))"
  using ex_run_reach by simp

section \<open>Properties\<close>

text \<open>
  C5. In every reachable state the reference count of a physical block is the number of block
  objects in use that point to it, and the block is in the free list exactly when there is none. (The steps
  allocate, append with copy-on-write, fork and free; swaps between the devices are not steps.)
\<close>

theorem naive_refcounts_count:
  assumes "naive_reach depth (h, a)" "b \<in> all_block_indices a"
  shows "refcounts (refcounter a) b = Some (int (card {r \<in> naive_live a. nb_block_id (h r) = Some b})) \<and>
    (b \<in> set (free_block_indices a) \<longleftrightarrow> \<not> (\<exists>r \<in> naive_live a. nb_block_id (h r) = Some b))"
proof -
  have own: "naive_owned h a (\<lambda>_. 0)" using naive_reach_inv [OF assms(1)] by (simp add: naive_resident_def)
  have rc: "refcounts (refcounter a) b = Some (int (card {r \<in> naive_live a. nb_block_id (h r) = Some b}))"
    using naive_ownedD(5) [OF own assms(2)] by (simp add: naive_refs_def naive_live_def)
  have "finite {r \<in> naive_live a. nb_block_id (h r) = Some b}" by (simp add: naive_live_def)
  then have "card {r \<in> naive_live a. nb_block_id (h r) = Some b} = 0
      \<longleftrightarrow> \<not> (\<exists>r \<in> naive_live a. nb_block_id (h r) = Some b)" by auto
  moreover have "b \<in> set (free_block_indices a) \<longleftrightarrow> refcounts (refcounter a) b = Some 0"
    using naive_ownedD(1) [OF own] unfolding naive_inv_def by blast
  ultimately show ?thesis using rc by simp
qed

theorem naive_refcounts_count_witness:
  "refcounts (refcounter (snd (projr ex_run))) 0 = Some 2 \<and>
   card {r \<in> naive_live (snd (projr ex_run)). nb_block_id (fst (projr ex_run) r) = Some 0} = 2"
proof -
  have rc: "refcounts (refcounter (snd (projr ex_run))) 0 = Some 2" by code_simp
  have "0 \<in> all_block_indices (snd (projr ex_run))" by code_simp
  from naive_refcounts_count [OF ex_run_pair this] rc show ?thesis by simp
qed

text \<open>
  C14. Coherence: in every reachable state, block objects that share a physical block hold the same
  tokens, so a write through one sequence is never seen by another.
\<close>

theorem naive_reach_coherent:
  assumes "naive_reach depth (h, a)" "r \<in> naive_live a" "s \<in> naive_live a"
    and "nb_block_id (h r) = Some b" "nb_block_id (h s) = Some b"
  shows "nb_token_ids (h r) = nb_token_ids (h s)"
  using coherentD [OF _ assms(2-)] naive_reach_inv [OF assms(1)] by simp

theorem naive_reach_coherent_witness:
  "nb_token_ids (fst (projr ex_run) (Bref 0 0)) = nb_token_ids (fst (projr ex_run) (Bref 0 1)) \<and>
   nb_block_id (fst (projr ex_run) (Bref 0 0)) = Some 0"
proof -
  have "Bref 0 0 \<in> naive_live (snd (projr ex_run))" "Bref 0 1 \<in> naive_live (snd (projr ex_run))"
    unfolding naive_live_def pool_live_def mem_Collect_eq by code_simp+
  moreover have b: "nb_block_id (fst (projr ex_run) (Bref 0 0)) = Some 0"
    "nb_block_id (fst (projr ex_run) (Bref 0 1)) = Some 0" by code_simp+
  ultimately have "nb_token_ids (fst (projr ex_run) (Bref 0 0)) = nb_token_ids (fst (projr ex_run) (Bref 0 1))"
    using naive_reach_coherent [OF ex_run_pair] by blast
  with b show ?thesis by blast
qed

text \<open>
  Copy on write: appending to a block whose physical block another block object shares moves the
  writer to a block that was free, leaves the other object as it was, and records the copy.
\<close>

lemma naive_append_copies_shared:
  assumes "naive_reach depth (h, a)" "r \<in> naive_live a" "s \<in> naive_live a" "r \<noteq> s"
    and "nb_block_id (h r) = Some src" "nb_block_id (h s) = Some src"
    and "naive_append_token_ids h a r toks = Inr (h', a')"
  shows "h' s = h s \<and> nb_token_ids (h' r) = nb_token_ids (h r) @ toks \<and>
    (\<exists>trg. nb_block_id (h' r) = Some trg \<and> trg \<in> set (free_block_indices a) \<and> trg \<noteq> src \<and>
       copy_on_writes (na_cow_tracker a') = copy_on_writes (na_cow_tracker a) @ [(src, trg)])"
proof -
  have res: "naive_resident h a" using naive_reach_inv [OF assms(1)] by simp
  have own: "naive_owned h a (\<lambda>_. 0)" and live: "r \<in> pool_live (na_block_pool a)"
    using res assms(2) by (simp_all add: naive_resident_def naive_live_def)
  note A = naive_append_spec [OF own live assms(7)]
  have nf: "src \<notin> set (free_block_indices a)" using res assms(2,5) by (rule not_free_live)
  have many: "\<not> n \<le> 1" if "refcounts (refcounter a) src = Some n" for n
    using sole_user [OF res that _ assms(2,5,3,6)] assms(4) by blast
  from own live assms(7) show ?thesis
  proof (cases rule: naive_append_cases)
    case (shared src' n trg)
    then have "nb_block_id (h' r) = Some trg \<and> trg \<in> set (free_block_indices a) \<and>
       copy_on_writes (na_cow_tracker a') = copy_on_writes (na_cow_tracker a) @ [(src, trg)]"
      using assms(5) by simp
    then show ?thesis using A(4,5) assms(4) nf by auto
  qed (use assms(5) many in auto)
qed

lemma naive_append_copies_shared_witness:
  "case projr ex_run of (h, a) \<Rightarrow>
     \<exists>h' a'. naive_append_token_ids h a (Bref 0 1) [8] = Inr (h', a') \<and> h' (Bref 0 0) = h (Bref 0 0) \<and>
       nb_token_ids (h' (Bref 0 1)) = [7, 8]"
proof -
  define h a where "h = fst (projr ex_run)" and "a = snd (projr ex_run)"
  have "\<not> isl (naive_append_token_ids (fst (projr ex_run)) (snd (projr ex_run)) (Bref 0 1) [8])" by code_simp
  then obtain h' a' where run: "naive_append_token_ids h a (Bref 0 1) [8] = Inr (h', a')"
    unfolding h_def a_def by (metis not_isl surj_pair)
  have reach: "naive_reach 10 (h, a)" unfolding h_def a_def by (rule ex_run_pair)
  have live: "Bref 0 1 \<in> naive_live a" "Bref 0 0 \<in> naive_live a"
    unfolding a_def naive_live_def pool_live_def mem_Collect_eq by code_simp+
  have ids: "nb_block_id (h (Bref 0 1)) = Some 0" "nb_block_id (h (Bref 0 0)) = Some 0"
    unfolding h_def by code_simp+
  have toks: "nb_token_ids (h (Bref 0 1)) = [7]" unfolding h_def by code_simp
  from naive_append_copies_shared [OF reach live _ ids run] toks run show ?thesis
    by (simp add: h_def a_def split_beta)
qed

text \<open>
  Allocation raises \<open>NoFreeBlocksError\<close> exactly when no block is free, and otherwise succeeds.
\<close>

lemma naive_allocate_outcome:
  assumes "naive_reach depth (h, a)"
  shows "if naive_get_num_free_blocks a = 0
     then naive_allocate_mutable_block naive_block_init h a prev = Inl NoFreeBlocksError
     else \<exists>r h' a'. naive_allocate_mutable_block naive_block_init h a prev = Inr (r, h', a') \<and>
       naive_get_num_free_blocks a' = naive_get_num_free_blocks a - 1"
proof (cases "free_block_indices a")
  case Nil
  then show ?thesis
    by (simp add: naive_get_num_free_blocks_def naive_allocate_mutable_block_def allocate_block_id_def)
next
  case (Cons b bs)
  have own: "naive_owned h a (\<lambda>_. 0)" using naive_reach_inv [OF assms] by (simp add: naive_resident_def)
  obtain r h' a' where run: "naive_allocate_mutable_block naive_block_init h a prev = Inr (r, h', a')"
    using naive.allocate_mutable_ok [OF own, of prev] Cons by auto
  from naive.allocate_mutable_spec(10) [OF own run] Cons run show ?thesis
    by (auto simp: naive_get_num_free_blocks_def)
qed

lemma naive_allocate_outcome_witness:
  "\<exists>r h' a'. naive_allocate_mutable_block naive_block_init (fst (projr ex_run)) (snd (projr ex_run)) None
     = Inr (r, h', a') \<and> naive_get_num_free_blocks a' = 1"
proof -
  have "naive_get_num_free_blocks (snd (projr ex_run)) = 2" by code_simp
  with naive_allocate_outcome [OF ex_run_pair, of None] show ?thesis by simp
qed

text \<open>
  C28. Conservation: in every reachable state the free blocks and the distinct blocks in use add up to
  the allocator's total. (Swaps between the devices are not steps.)
\<close>

theorem naive_conservation:
  assumes "naive_reach depth (h, a)"
  shows "naive_get_num_free_blocks a + card {b. \<exists>r \<in> naive_live a. nb_block_id (h r) = Some b}
    = naive_get_num_total_blocks a"
proof -
  have res: "naive_resident h a" using naive_reach_inv [OF assms] by simp
  note D = naive_ownedD [OF naive_residentD [OF res]]
  let ?U = "{b. \<exists>r \<in> naive_live a. nb_block_id (h r) = Some b}"
  have in_use: "b \<in> ?U \<longleftrightarrow> b \<notin> set (free_block_indices a)" if "b \<in> all_block_indices a" for b
  proof
    show "b \<in> ?U \<Longrightarrow> b \<notin> set (free_block_indices a)" using not_free_live [OF res] by blast
    assume "b \<notin> set (free_block_indices a)"
    with D(1,5) that have "0 < naive_refs h a b" by (auto simp: naive_inv_def)
    then show "b \<in> ?U" unfolding naive_refs_def naive_live_def card_gt_0_iff by blast
  qed
  have "?U \<subseteq> all_block_indices a" using res by (fastforce simp: naive_resident_def)
  moreover have fr: "set (free_block_indices a) \<subseteq> all_block_indices a" using naive_inv_free_subset [OF D(1)] .
  ultimately have "all_block_indices a = set (free_block_indices a) \<union> ?U" "set (free_block_indices a) \<inter> ?U = {}"
    using in_use by blast+
  moreover have "finite (all_block_indices a)" "distinct (free_block_indices a)"
    using D(1) unfolding naive_inv_def by blast+
  ultimately show ?thesis
    unfolding naive_get_num_free_blocks_def naive_get_num_total_blocks_def
    by (metis card_Un_disjoint distinct_card finite_Un)
qed

theorem naive_conservation_witness:
  "naive_get_num_free_blocks (snd (projr ex_run)) +
     card {b. \<exists>r \<in> naive_live (snd (projr ex_run)). nb_block_id (fst (projr ex_run) r) = Some b} = 3"
proof -
  have "naive_get_num_total_blocks (snd (projr ex_run)) = 3" by code_simp
  with naive_conservation [OF ex_run_pair] show ?thesis by simp
qed

end
