(* ===== verification/Cpu_Gpu_Allocator.thy ===== *)
theory Cpu_Gpu_Allocator
  imports Naive_Reach
begin

text \<open>
  \<open>vllm/core/block/cpu_gpu_block_allocator.py\<close>: \<open>CpuGpuBlockAllocator\<close> dispatches to one allocator
  per device through the interface record, by the requested device, by the owner of a physical id
  (\<open>free\<close>, \<open>fork\<close>), or, for \<open>append_token_ids\<close>, by the allocator whose pool made the block object.
  A \<open>NullBlock\<close> wraps one ordinary block that is reachable only through it, and is named by it.
\<close>

section \<open>State and operations\<close>

record 'a cpu_gpu =
  cg_gpu :: 'a
  cg_cpu :: 'a
  cg_swap_mapping :: "(block_id \<times> block_id) list"
  cg_null_block :: "bref option"
  cg_block_ids_to_allocator :: "block_id \<rightharpoonup> device"

primrec cg_get :: "device \<Rightarrow> 'a cpu_gpu \<Rightarrow> 'a" where
  "cg_get GPU A = cg_gpu A"
| "cg_get CPU A = cg_cpu A"

primrec cg_put :: "device \<Rightarrow> 'a \<Rightarrow> 'a cpu_gpu \<Rightarrow> 'a cpu_gpu" where
  "cg_put GPU a A = A\<lparr>cg_gpu := a\<rparr>"
| "cg_put CPU a A = A\<lparr>cg_cpu := a\<rparr>"

definition cg_init :: "('x, 'a) allocator_ops \<Rightarrow> 'a \<Rightarrow> 'a \<Rightarrow> py_error + 'a cpu_gpu" where
  "cg_init ops cpu gpu =
     bindE (py_assert (op_all_block_ids ops cpu \<inter> op_all_block_ids ops gpu = {})) (\<lambda>_.
     Inr \<lparr>cg_gpu = gpu, cg_cpu = cpu, cg_swap_mapping = [], cg_null_block = None,
          cg_block_ids_to_allocator =
            (\<lambda>b. if b \<in> op_all_block_ids ops gpu then Some GPU
                 else if b \<in> op_all_block_ids ops cpu then Some CPU else None)\<rparr>)"

text \<open>\<open>create\<close> for the naive allocator type; the pools of the two devices have the tags 0 and 1.\<close>

definition cg_create_naive ::
  "nat \<Rightarrow> nat \<Rightarrow> nat \<Rightarrow> nat \<Rightarrow> nblock store \<Rightarrow> py_error + (nblock store \<times> naive_allocator cpu_gpu)" where
  "cg_create_naive depth num_gpu_blocks num_cpu_blocks block_size h =
     (let block_ids = [0..<num_gpu_blocks + num_cpu_blocks];
          gpu_block_ids = take num_gpu_blocks block_ids;
          cpu_block_ids = drop num_gpu_blocks block_ids
      in bindE (naive_allocator_init naive_block_init 0 num_gpu_blocks block_size gpu_block_ids None h)
           (\<lambda>(h, gpu).
         bindE (naive_allocator_init naive_block_init 1 num_cpu_blocks block_size cpu_block_ids None h)
           (\<lambda>(h, cpu).
         bindE (cg_init (naive_ops naive_block_init depth) cpu gpu) (\<lambda>A. Inr (h, A)))))"

definition cg_allocate_mutable_block ::
  "('x, 'a) allocator_ops \<Rightarrow> 'x nblock_scheme store \<Rightarrow> 'a cpu_gpu \<Rightarrow> bref option \<Rightarrow> device \<Rightarrow>
     py_error + (bref \<times> 'x nblock_scheme store \<times> 'a cpu_gpu)" where
  "cg_allocate_mutable_block ops h A prev_block device =
     bindE (op_allocate_mutable_block ops h (cg_get device A) prev_block) (\<lambda>(r, h, a).
     Inr (r, h, cg_put device a A))"

definition cg_allocate_immutable_blocks ::
  "('x, 'a) allocator_ops \<Rightarrow> 'x nblock_scheme store \<Rightarrow> 'a cpu_gpu \<Rightarrow> bref option \<Rightarrow> token_id list list \<Rightarrow>
     device \<Rightarrow> py_error + (bref list \<times> 'x nblock_scheme store \<times> 'a cpu_gpu)" where
  "cg_allocate_immutable_blocks ops h A prev_block block_token_ids device =
     bindE (op_allocate_immutable_blocks ops h (cg_get device A) prev_block block_token_ids) (\<lambda>(rs, h, a).
     Inr (rs, h, cg_put device a A))"

definition cg_allocate_immutable_block ::
  "('x, 'a) allocator_ops \<Rightarrow> 'x nblock_scheme store \<Rightarrow> 'a cpu_gpu \<Rightarrow> bref option \<Rightarrow> token_id list \<Rightarrow>
     device \<Rightarrow> py_error + (bref \<times> 'x nblock_scheme store \<times> 'a cpu_gpu)" where
  "cg_allocate_immutable_block ops h A prev_block token_ids device =
     bindE (op_allocate_immutable_block ops h (cg_get device A) prev_block token_ids) (\<lambda>(r, h, a).
     Inr (r, h, cg_put device a A))"

definition cg_allocate_or_get_null_block ::
  "('x, 'a) allocator_ops \<Rightarrow> 'x nblock_scheme store \<Rightarrow> 'a cpu_gpu \<Rightarrow>
     py_error + (bref \<times> 'x nblock_scheme store \<times> 'a cpu_gpu)" where
  "cg_allocate_or_get_null_block ops h A =
     (case cg_null_block A of
        Some n \<Rightarrow> Inr (n, h, A)
      | None \<Rightarrow> bindE (cg_allocate_mutable_block ops h A None GPU) (\<lambda>(n, h, A).
                Inr (n, h, A\<lparr>cg_null_block := Some n\<rparr>)))"

definition cg_append_token_ids ::
  "('x, 'a) allocator_ops \<Rightarrow> 'x nblock_scheme store \<Rightarrow> 'a cpu_gpu \<Rightarrow> bref \<Rightarrow> token_id list \<Rightarrow>
     py_error + ('x nblock_scheme store \<times> 'a cpu_gpu)" where
  "cg_append_token_ids ops h A block token_ids =
     (if cg_null_block A = Some block then Inl ValueError
      else let device = (if ref_pool block = op_pool_tag ops (cg_gpu A) then GPU else CPU)
           in bindE (op_append_token_ids ops h (cg_get device A) block token_ids) (\<lambda>(h, a).
              Inr (h, cg_put device a A)))"

definition cg_free ::
  "('x, 'a) allocator_ops \<Rightarrow> 'x nblock_scheme store \<Rightarrow> 'a cpu_gpu \<Rightarrow> bref \<Rightarrow>
     py_error + ('x nblock_scheme store \<times> 'a cpu_gpu)" where
  "cg_free ops h A block =
     (if cg_null_block A = Some block then Inr (h, A)
      else bindE (from_option AssertionError (nb_block_id (h block))) (\<lambda>block_id.
           bindE (from_option KeyError (cg_block_ids_to_allocator A block_id)) (\<lambda>device.
           bindE (op_free ops h (cg_get device A) block) (\<lambda>(h, a).
           Inr (h, cg_put device a A)))))"

definition cg_fork ::
  "('x, 'a) allocator_ops \<Rightarrow> 'x nblock_scheme store \<Rightarrow> 'a cpu_gpu \<Rightarrow> bref \<Rightarrow>
     py_error + (bref list \<times> 'x nblock_scheme store \<times> 'a cpu_gpu)" where
  "cg_fork ops h A last_block =
     bindE (py_assert (cg_null_block A \<noteq> Some last_block)) (\<lambda>_.
     bindE (from_option AssertionError (nb_block_id (h last_block))) (\<lambda>block_id.
     bindE (from_option KeyError (cg_block_ids_to_allocator A block_id)) (\<lambda>device.
     bindE (op_fork ops h (cg_get device A) last_block) (\<lambda>(rs, h, a).
     Inr (rs, h, cg_put device a A)))))"

definition cg_get_num_free_blocks :: "('x, 'a) allocator_ops \<Rightarrow> 'a cpu_gpu \<Rightarrow> device \<Rightarrow> nat" where
  "cg_get_num_free_blocks ops A device = op_get_num_free_blocks ops (cg_get device A)"

definition cg_get_num_total_blocks :: "('x, 'a) allocator_ops \<Rightarrow> 'a cpu_gpu \<Rightarrow> device \<Rightarrow> nat" where
  "cg_get_num_total_blocks ops A device = op_get_num_total_blocks ops (cg_get device A)"

definition cg_get_physical_block_id ::
  "('x, 'a) allocator_ops \<Rightarrow> 'a cpu_gpu \<Rightarrow> device \<Rightarrow> nat \<Rightarrow> py_error + nat" where
  "cg_get_physical_block_id ops A device absolute_id =
     op_get_physical_block_id ops (cg_get device A) absolute_id"

text \<open>The pairs \<open>swap\<close> records: those where both ids are present.\<close>

definition swap_pairs :: "(block_id option \<times> block_id option) list \<Rightarrow> (block_id \<times> block_id) list" where
  "swap_pairs ps = concat (map (\<lambda>(s, d). case (s, d) of (Some i, Some j) \<Rightarrow> [(i, j)] | _ \<Rightarrow> []) ps)"

definition cg_swap ::
  "('x, 'a) allocator_ops \<Rightarrow> 'x nblock_scheme store \<Rightarrow> 'a cpu_gpu \<Rightarrow> bref list \<Rightarrow> device \<Rightarrow> device \<Rightarrow>
     py_error + ((block_id \<times> block_id) list \<times> 'x nblock_scheme store \<times> 'a cpu_gpu)" where
  "cg_swap ops h A blocks src_device dst_device =
     (let src_block_ids = map (\<lambda>r. nb_block_id (h r)) blocks in
      bindE (op_swap_out ops h (cg_get src_device A) blocks) (\<lambda>(h, a).
      let A = cg_put src_device a A in
      bindE (op_swap_in ops h (cg_get dst_device A) blocks) (\<lambda>(h, a).
      let A = cg_put dst_device a A;
          dst_block_ids = map (\<lambda>r. nb_block_id (h r)) blocks;
          new = swap_pairs (zip src_block_ids dst_block_ids)
      in Inr (fold (\<lambda>(s, d). dict_set s d) new [], h,
              A\<lparr>cg_swap_mapping := fold (\<lambda>(s, d). dict_set s d) new (cg_swap_mapping A)\<rparr>))))"

definition cg_get_num_full_blocks_touched ::
  "('x, 'a) allocator_ops \<Rightarrow> 'x nblock_scheme store \<Rightarrow> 'a cpu_gpu \<Rightarrow> bref list \<Rightarrow> device \<Rightarrow> py_error + nat" where
  "cg_get_num_full_blocks_touched ops h A blocks device =
     op_get_num_full_blocks_touched ops h (cg_get device A) blocks"

definition cg_clear_copy_on_writes ::
  "('x, 'a) allocator_ops \<Rightarrow> 'a cpu_gpu \<Rightarrow> (block_id \<times> block_id) list \<times> 'a cpu_gpu" where
  "cg_clear_copy_on_writes ops A =
     (let (cows, a) = op_clear_copy_on_writes ops (cg_get GPU A) in (cows, cg_put GPU a A))"

definition cg_mark_blocks_as_accessed ::
  "('x, 'a) allocator_ops \<Rightarrow> 'a cpu_gpu \<Rightarrow> block_id list \<Rightarrow> real \<Rightarrow> py_error + 'a cpu_gpu" where
  "cg_mark_blocks_as_accessed ops A block_ids now =
     bindE (op_mark_blocks_as_accessed ops (cg_get GPU A) block_ids now) (\<lambda>a. Inr (cg_put GPU a A))"

definition cg_mark_blocks_as_computed ::
  "('x, 'a) allocator_ops \<Rightarrow> 'a cpu_gpu \<Rightarrow> block_id list \<Rightarrow> py_error + 'a cpu_gpu" where
  "cg_mark_blocks_as_computed ops A block_ids =
     bindE (op_mark_blocks_as_computed ops (cg_get GPU A) block_ids) (\<lambda>a. Inr (cg_put GPU a A))"

definition cg_get_computed_block_ids ::
  "('x, 'a) allocator_ops \<Rightarrow> 'a cpu_gpu \<Rightarrow> block_id list \<Rightarrow> block_id list \<Rightarrow> bool \<Rightarrow>
     py_error + block_id list" where
  "cg_get_computed_block_ids ops A prev_computed_block_ids block_ids skip_last_block_id =
     op_get_computed_block_ids ops (cg_get GPU A) prev_computed_block_ids block_ids skip_last_block_id"

definition cg_get_common_computed_block_ids ::
  "('x, 'a) allocator_ops \<Rightarrow> 'a cpu_gpu \<Rightarrow> block_id list list \<Rightarrow> block_id list" where
  "cg_get_common_computed_block_ids ops A computed_seq_block_ids =
     op_get_common_computed_block_ids ops (cg_get GPU A) computed_seq_block_ids"

definition cg_all_block_ids :: "'a cpu_gpu \<Rightarrow> block_id set" where
  "cg_all_block_ids A = dom (cg_block_ids_to_allocator A)"

definition cg_get_and_reset_swaps :: "'a cpu_gpu \<Rightarrow> (block_id \<times> block_id) list \<times> 'a cpu_gpu" where
  "cg_get_and_reset_swaps A = (cg_swap_mapping A, A\<lparr>cg_swap_mapping := []\<rparr>)"

definition cg_ops :: "('x, 'a) allocator_ops \<Rightarrow> ('x, 'a cpu_gpu) device_allocator_ops" where
  "cg_ops ops =
     \<lparr>d_allocate_mutable_block = cg_allocate_mutable_block ops,
      d_allocate_immutable_blocks = cg_allocate_immutable_blocks ops,
      d_append_token_ids = cg_append_token_ids ops,
      d_free = cg_free ops,
      d_fork = cg_fork ops,
      d_allocate_or_get_null_block = cg_allocate_or_get_null_block ops\<rparr>"

section \<open>The two allocators together keep the device-aware contract\<close>

definition cg_live :: "('a \<Rightarrow> bref set) \<Rightarrow> 'a cpu_gpu \<Rightarrow> bref set" where
  "cg_live live A = live (cg_gpu A) \<union> live (cg_cpu A)"

definition cg_usable :: "('a \<Rightarrow> bref set) \<Rightarrow> 'a cpu_gpu \<Rightarrow> bref set" where
  "cg_usable live A = cg_live live A - set_option (cg_null_block A)"

definition cg_inv ::
  "('x, 'a) allocator_ops \<Rightarrow> ('x nblock_scheme store \<Rightarrow> 'a \<Rightarrow> bool) \<Rightarrow> ('a \<Rightarrow> bref set) \<Rightarrow> ('a \<Rightarrow> nat) \<Rightarrow>
     nat \<Rightarrow> (device \<Rightarrow> nat) \<Rightarrow> 'x nblock_scheme store \<Rightarrow> 'a cpu_gpu \<Rightarrow> bool" where
  "cg_inv ops ainv live bsize bs pl h A \<longleftrightarrow>
     ainv h (cg_gpu A) \<and> ainv h (cg_cpu A) \<and>
     (\<forall>dev. op_pool_tag ops (cg_get dev A) = pl dev) \<and> pl GPU \<noteq> pl CPU \<and>
     op_all_block_ids ops (cg_gpu A) \<inter> op_all_block_ids ops (cg_cpu A) = {} \<and>
     bsize (cg_gpu A) = bs \<and> bsize (cg_cpu A) = bs \<and>
     (\<forall>dev. \<forall>b \<in> op_all_block_ids ops (cg_get dev A). cg_block_ids_to_allocator A b = Some dev) \<and>
     set_option (cg_null_block A) \<subseteq> live (cg_gpu A)"

fun other_device :: "device \<Rightarrow> device" where
  "other_device GPU = CPU"
| "other_device CPU = GPU"

lemma cg_get_put [simp]:
  "cg_get dev (cg_put dev a A) = a" "cg_get (other_device dev) (cg_put dev a A) = cg_get (other_device dev) A"
  by (cases dev; simp)+

lemma cg_put_fields [simp]:
  "cg_null_block (cg_put dev a A) = cg_null_block A"
  "cg_block_ids_to_allocator (cg_put dev a A) = cg_block_ids_to_allocator A"
  "cg_swap_mapping (cg_put dev a A) = cg_swap_mapping A"
  by (cases dev; simp)+

lemma all_device: "(\<forall>dev. P dev) \<longleftrightarrow> P GPU \<and> P CPU"
  by (metis device.exhaust)

lemma cg_live_split: "cg_live live A = live (cg_get dev A) \<union> live (cg_get (other_device dev) A)"
  by (cases dev) (auto simp: cg_live_def)

lemma cg_invD:
  assumes "cg_inv ops ainv live bsize bs pl h A"
  shows "ainv h (cg_get dev A)" "bsize (cg_get dev A) = bs"
    "op_pool_tag ops (cg_get dev A) \<noteq> op_pool_tag ops (cg_get (other_device dev) A)"
    "\<And>b. b \<in> op_all_block_ids ops (cg_get dev A) \<Longrightarrow> cg_block_ids_to_allocator A b = Some dev"
    "set_option (cg_null_block A) \<subseteq> live (cg_gpu A)" "op_pool_tag ops (cg_get dev A) = pl dev"
  using assms unfolding cg_inv_def by (cases dev; auto simp del: cg_get.simps simp: cg_get.simps [symmetric])+

lemma cg_get_null [simp]:
  "cg_get dev (A\<lparr>cg_null_block := n\<rparr>) = cg_get dev A" "cg_get dev (A\<lparr>cg_swap_mapping := m\<rparr>) = cg_get dev A"
  by (cases dev; simp)+

lemma cg_inv_null:
  "cg_inv ops ainv live bsize bs pl h A \<Longrightarrow> n \<in> live (cg_gpu A) \<Longrightarrow>
     cg_inv ops ainv live bsize bs pl h (A\<lparr>cg_null_block := Some n\<rparr>)"
  unfolding cg_inv_def by simp

context block_allocator
begin

abbreviation CGI :: "nat \<Rightarrow> (device \<Rightarrow> nat) \<Rightarrow> 'x nblock_scheme store \<Rightarrow> 'a cpu_gpu \<Rightarrow> bool" where
  "CGI \<equiv> cg_inv ops inv live bsize"

lemma cg_other_live:
  assumes "CGI bs pl h A" "x \<in> live (cg_get (other_device dev) A)"
  shows "ref_pool x \<noteq> op_pool_tag ops (cg_get dev A)"
  using live_tag [OF cg_invD(1) [OF assms(1)] assms(2)] cg_invD(3) [OF assms(1), of dev] by simp

lemma cg_inv_put:
  assumes I: "CGI bs pl h A" and a': "inv h' a'"
    and same: "op_pool_tag ops a' = op_pool_tag ops (cg_get dev A)" "bsize a' = bsize (cg_get dev A)"
      "op_all_block_ids ops a' = op_all_block_ids ops (cg_get dev A)"
    and other: "\<And>x. x \<in> live (cg_get (other_device dev) A) \<Longrightarrow> h' x = h x"
    and null: "\<And>n. cg_null_block A = Some n \<Longrightarrow> n \<in> live (cg_get dev A) \<Longrightarrow> n \<in> live a'"
  shows "CGI bs pl h' (cg_put dev a' A)"
proof -
  have o: "inv h' (cg_get (other_device dev) A)"
    by (rule inv_cong [OF cg_invD(1) [OF I]]) (rule other)
  have ids: "op_all_block_ids ops (cg_get d (cg_put dev a' A)) = op_all_block_ids ops (cg_get d A)"
    and tag: "op_pool_tag ops (cg_get d (cg_put dev a' A)) = op_pool_tag ops (cg_get d A)" for d
    using same by (cases d; cases dev; simp)+
  have "set_option (cg_null_block A) \<subseteq> live (cg_gpu (cg_put dev a' A))"
    using null cg_invD(5) [OF I] by (cases dev) auto
  then show ?thesis using I a' same o unfolding cg_inv_def ids tag by (cases dev) auto
qed

text \<open>Each operation on one device leaves the other device's objects alone.\<close>

lemma cg_created:
  assumes I: "CGI bs pl h A" and a': "inv h' a'"
    and cr: "created (live (cg_get dev A)) (op_pool_tag ops (cg_get dev A)) (bsize (cg_get dev A)) h
       (live a') h' prev rs"
    and same: "op_pool_tag ops a' = op_pool_tag ops (cg_get dev A)" "bsize a' = bsize (cg_get dev A)"
      "op_all_block_ids ops a' = op_all_block_ids ops (cg_get dev A)"
  shows "CGI bs pl h' (cg_put dev a' A)"
    "fresh_chain (cg_usable live A) bs h (cg_usable live (cg_put dev a' A)) h' prev rs"
    "set rs \<inter> cg_live live A = {}"
proof -
  note C = createdD [OF cr]
  have other: "h' x = h x" if "x \<in> live (cg_get (other_device dev) A)" for x
    using C(5) cg_other_live [OF I that] by simp
  show "CGI bs pl h' (cg_put dev a' A)"
    by (rule cg_inv_put [OF I a' same other]) (use C(3) in auto)
  have new: "set rs \<inter> live (cg_get (other_device dev) A) = {}"
    using C(7) cg_other_live [OF I, of _ dev] by auto
  show disj: "set rs \<inter> cg_live live A = {}"
    using new C(2) by (auto simp: cg_live_split [of live A dev])
  have l': "cg_live live (cg_put dev a' A) = cg_live live A \<union> set rs"
    using C(3) by (auto simp: cg_live_split [of live _ dev])
  have null: "set_option (cg_null_block A) \<subseteq> cg_live live A"
    using cg_invD(5) [OF I] by (auto simp: cg_live_def)
  show "fresh_chain (cg_usable live A) bs h (cg_usable live (cg_put dev a' A)) h' prev rs"
    unfolding fresh_chain_def cg_usable_def cg_put_fields l'
  proof (intro conjI)
    show "\<forall>x \<in> cg_live live A - set_option (cg_null_block A). h' x = h x"
      using C(4) other by (auto simp: cg_live_split [of live A dev])
    show "\<forall>r \<in> set rs. nb_block_size (h' r) = bs" using C(8) cg_invD(2) [OF I] by simp
  qed (use C disj null in auto)
qed

lemma cg_owner:
  assumes I: "CGI bs pl h A" and r: "r \<in> cg_usable live A"
  obtains dev b where "r \<in> live (cg_get dev A)" "nb_block_id (h r) = Some b"
    "cg_block_ids_to_allocator A b = Some dev" "cg_null_block A \<noteq> Some r"
    "(if ref_pool r = op_pool_tag ops (cg_gpu A) then GPU else CPU) = dev"
proof -
  obtain dev where dev: "r \<in> live (cg_get dev A)"
    using r cg_get.simps unfolding cg_usable_def cg_live_def by (metis DiffD1 UnE)
  obtain b where b: "b \<in> op_all_block_ids ops (cg_get dev A)" "nb_block_id (h r) = Some b"
    using live_resident [OF cg_invD(1) [OF I] dev] by blast
  have "(if ref_pool r = op_pool_tag ops (cg_gpu A) then GPU else CPU) = dev"
    using live_tag [OF cg_invD(1) [OF I] dev] cg_invD(3) [OF I, of dev] by (cases dev) auto
  moreover have "cg_null_block A \<noteq> Some r" using r by (auto simp: cg_usable_def)
  ultimately show thesis using that dev b cg_invD(4) [OF I] by blast
qed

lemma cg_mutable_law:
  assumes I: "CGI bs pl h A" and run: "cg_allocate_mutable_block ops h A prev dev = Inr (r, h', A')"
  shows "CGI bs pl h' A' \<and> fresh_chain (cg_usable live A) bs h (cg_usable live A') h' prev [r] \<and>
    nb_token_ids (h' r) = [] \<and> ref_pool r = pl dev" "r \<notin> cg_live live A" "r \<in> live (cg_get dev A')"
    "cg_null_block A' = cg_null_block A"
proof -
  obtain a' where op: "op_allocate_mutable_block ops h (cg_get dev A) prev = Inr (r, h', a')"
    and A': "A' = cg_put dev a' A" using run by (auto simp: cg_allocate_mutable_block_def)
  note L = mutable_law [OF cg_invD(1) [OF I] op]
  have "ref_pool r = pl dev" using createdD(7) L cg_invD(6) [OF I] by (metis list.set_intros(1))
  note C = cg_created [OF I, of h' a' dev prev "[r]"]
  show "CGI bs pl h' A' \<and> fresh_chain (cg_usable live A) bs h (cg_usable live A') h' prev [r] \<and>
    nb_token_ids (h' r) = [] \<and> ref_pool r = pl dev" "r \<notin> cg_live live A" using C L \<open>ref_pool r = pl dev\<close> by (simp_all add: A')
  show "r \<in> live (cg_get dev A')" "cg_null_block A' = cg_null_block A"
    using L createdD(3) by (fastforce simp: A')+
qed

lemma cg_immutables_law:
  assumes I: "CGI bs pl h A"
    and run: "cg_allocate_immutable_blocks ops h A prev toks dev = Inr (rs, h', A')"
    and full: "\<And>t. t \<in> set toks \<Longrightarrow> length t = bs"
  shows "CGI bs pl h' A' \<and> fresh_chain (cg_usable live A) bs h (cg_usable live A') h' prev rs \<and>
    map (\<lambda>r. nb_token_ids (h' r)) rs = toks \<and> (\<forall>r \<in> set rs. ref_pool r = pl dev)"
proof -
  obtain a' where op: "op_allocate_immutable_blocks ops h (cg_get dev A) prev toks = Inr (rs, h', a')"
    and A': "A' = cg_put dev a' A" using run by (auto simp: cg_allocate_immutable_blocks_def)
  have "length t = bsize (cg_get dev A)" if "t \<in> set toks" for t
    using full that cg_invD(2) [OF I] by simp
  note L = immutables_law [OF cg_invD(1) [OF I] op this]
  note C = cg_created [OF I, of h' a' dev prev rs]
  have "\<forall>r \<in> set rs. ref_pool r = pl dev" using createdD(7) L cg_invD(6) [OF I] by metis
  then show ?thesis using C L by (simp add: A')
qed

lemma cg_append_law:
  assumes I: "CGI bs pl h A" and r: "r \<in> cg_usable live A"
    and run: "cg_append_token_ids ops h A r ts = Inr (h', A')"
  shows "CGI bs pl h' A' \<and> cg_usable live A' = cg_usable live A \<and>
    (\<forall>x \<in> cg_usable live A. x \<noteq> r \<longrightarrow> h' x = h x) \<and> nb_token_ids (h' r) = nb_token_ids (h r) @ ts \<and>
    nb_prev_block (h' r) = nb_prev_block (h r) \<and> nb_block_size (h' r) = nb_block_size (h r)"
proof -
  obtain dev where dev: "r \<in> live (cg_get dev A)" "cg_null_block A \<noteq> Some r"
    "(if ref_pool r = op_pool_tag ops (cg_gpu A) then GPU else CPU) = dev"
    using cg_owner [OF I r] by blast
  then obtain a' where op: "op_append_token_ids ops h (cg_get dev A) r ts = Inr (h', a')"
    and A': "A' = cg_put dev a' A"
    using run unfolding cg_append_token_ids_def dev(3) by (auto simp: Let_def)
  note L = append_law [OF cg_invD(1) [OF I] dev(1) op]
  have r': "r \<notin> live (cg_get (other_device dev) A)"
    using cg_other_live [OF I, of r dev] live_tag [OF cg_invD(1) [OF I] dev(1)] by blast
  have "CGI bs pl h' A'" unfolding A'
    by (rule cg_inv_put [OF I]) (use L r' in auto)
  moreover have "cg_usable live A' = cg_usable live A"
    using L by (simp add: cg_usable_def A' cg_live_split [of live _ dev])
  ultimately show ?thesis using L by simp
qed

lemma cg_free_law:
  assumes I: "CGI bs pl h A" and r: "r \<in> cg_usable live A" and run: "cg_free ops h A r = Inr (h', A')"
  shows "CGI bs pl h' A' \<and> cg_usable live A' = cg_usable live A - {r} \<and>
    (\<forall>x \<in> cg_usable live A. x \<noteq> r \<longrightarrow> h' x = h x)"
proof -
  obtain dev b where dev: "r \<in> live (cg_get dev A)" "cg_null_block A \<noteq> Some r"
    "nb_block_id (h r) = Some b" "cg_block_ids_to_allocator A b = Some dev"
    using cg_owner [OF I r] by metis
  then obtain a' where op: "op_free ops h (cg_get dev A) r = Inr (h', a')"
    and A': "A' = cg_put dev a' A" using run by (auto simp: cg_free_def)
  note L = free_law [OF cg_invD(1) [OF I] dev(1) op]
  have r': "r \<notin> live (cg_get (other_device dev) A)"
    using cg_other_live [OF I, of r dev] live_tag [OF cg_invD(1) [OF I] dev(1)] by blast
  have "CGI bs pl h' A'" unfolding A'
    by (rule cg_inv_put [OF I]) (use L r' dev(2) in auto)
  moreover have "cg_usable live A' = cg_usable live A - {r}"
    using L r' by (auto simp: cg_usable_def A' cg_live_split [of live _ dev])
  ultimately show ?thesis using L by simp
qed

lemma cg_fork_law:
  assumes I: "CGI bs pl h A" and chain: "chained h None cs" "cs \<noteq> []" "set cs \<subseteq> cg_usable live A"
    and pool: "\<And>r. r \<in> set cs \<Longrightarrow> ref_pool r = pl dev"
    and run: "cg_fork ops h A (last cs) = Inr (rs, h', A')"
  shows "CGI bs pl h' A' \<and> fresh_chain (cg_usable live A) bs h (cg_usable live A') h' None rs \<and>
    map (\<lambda>r. (nb_token_ids (h' r), nb_block_id (h' r))) rs
      = map (\<lambda>r. (nb_token_ids (h r), nb_block_id (h r))) cs \<and> (\<forall>r \<in> set rs. ref_pool r = pl dev)"
proof -
  have live: "set cs \<subseteq> live (cg_get dev A)"
  proof
    fix r assume r: "r \<in> set cs"
    then obtain d where d: "r \<in> live (cg_get d A)" using chain(3) cg_owner [OF I] by blast
    have "pl d = pl dev" using live_tag [OF cg_invD(1) [OF I] d] pool [OF r] cg_invD(6) [OF I] by simp
    moreover have "pl GPU \<noteq> pl CPU" using I by (simp add: cg_inv_def)
    ultimately have "d = dev" by (cases d; cases dev) auto
    then show "r \<in> live (cg_get dev A)" using d by simp
  qed
  have "last cs \<in> cg_usable live A" "last cs \<in> live (cg_get dev A)" using chain live by auto
  from live_resident [OF cg_invD(1) [OF I] this(2)] obtain b where
    "nb_block_id (h (last cs)) = Some b" "cg_block_ids_to_allocator A b = Some dev"
    using cg_invD(4) [OF I] by blast
  then obtain a' where op: "op_fork ops h (cg_get dev A) (last cs) = Inr (rs, h', a')"
    and A': "A' = cg_put dev a' A" using run by (auto simp: cg_fork_def)
  note L = fork_law [OF cg_invD(1) [OF I] chain(1,2) live op]
  note C = cg_created [OF I, of h' a' dev None rs]
  have "\<forall>r \<in> set rs. ref_pool r = pl dev" using createdD(7) L cg_invD(6) [OF I] by metis
  then show ?thesis using C L by (simp add: A')
qed

lemma cg_null_law:
  assumes I: "CGI bs pl h A" and run: "cg_allocate_or_get_null_block ops h A = Inr (n, h', A')"
  shows "CGI bs pl h' A' \<and> cg_usable live A' = cg_usable live A \<and> n \<notin> cg_usable live A \<and>
    (\<forall>x \<in> cg_usable live A. h' x = h x) \<and> nb_block_id (h' n) \<noteq> None"
proof (cases "cg_null_block A")
  case (Some m)
  then have "m = n" "h' = h" "A' = A" using run by (simp_all add: cg_allocate_or_get_null_block_def)
  moreover have "n \<in> live (cg_get GPU A)" using cg_invD(5) [OF I] Some \<open>m = n\<close> by simp
  moreover have "\<exists>b. nb_block_id (h n) = Some b"
    using live_resident [OF cg_invD(1) [OF I] \<open>n \<in> live (cg_get GPU A)\<close>] by blast
  ultimately show ?thesis using I Some by (auto simp: cg_usable_def)
next
  case None
  then obtain A1 where al: "cg_allocate_mutable_block ops h A None GPU = Inr (n, h', A1)"
    and A': "A' = A1\<lparr>cg_null_block := Some n\<rparr>"
    using run by (auto simp: cg_allocate_or_get_null_block_def)
  note M = cg_mutable_law [OF I al]
  have "CGI bs pl h' A'" unfolding A' by (rule cg_inv_null) (use M(1,3) in simp_all)
  moreover have "cg_live live A' = cg_live live A1" by (simp add: A' cg_live_def)
  moreover have "nb_block_id (h' n) \<noteq> None"
    using live_resident [of h' "cg_get GPU A1" n] cg_invD(1) M(1,3) by fastforce
  ultimately show ?thesis
    using M(1,2,4) None by (auto simp: cg_usable_def fresh_chain_def A')
qed

end

lemma cg_ops_simps [simp]:
  "d_allocate_mutable_block (cg_ops ops) = cg_allocate_mutable_block ops"
  "d_allocate_immutable_blocks (cg_ops ops) = cg_allocate_immutable_blocks ops"
  "d_append_token_ids (cg_ops ops) = cg_append_token_ids ops"
  "d_free (cg_ops ops) = cg_free ops" "d_fork (cg_ops ops) = cg_fork ops"
  "d_allocate_or_get_null_block (cg_ops ops) = cg_allocate_or_get_null_block ops"
  by (simp_all add: cg_ops_def)

sublocale block_allocator \<subseteq> cg: device_allocator "cg_ops ops" "cg_inv ops inv live bsize bs pl"
  "cg_usable live" bs pl for bs pl
  apply (unfold_locales, unfold cg_ops_simps)
  subgoal by (elim cg_owner) auto
  subgoal by (rule cg_mutable_law(1))
  subgoal by (rule cg_immutables_law)
  subgoal by (rule cg_append_law)
  subgoal by (rule cg_free_law)
  subgoal by (rule cg_fork_law)
  subgoal by (rule cg_null_law)
  done

section \<open>The naive allocator on both devices\<close>

text \<open>
  \<open>naive_cg_inv\<close> is the invariant of a \<open>CpuGpuBlockAllocator\<close> over two naive allocators: each device's
  counts are exact, every block in use is resident on the device of its pool, the devices' ids are
  disjoint. \<open>naive_pools\<close> names the pools that \<open>create\<close> makes.
\<close>

fun naive_pools :: "device \<Rightarrow> nat" where
  "naive_pools GPU = 0"
| "naive_pools CPU = 1"

abbreviation naive_cg_ops :: "nat \<Rightarrow> (unit, naive_allocator cpu_gpu) device_allocator_ops" where
  "naive_cg_ops depth \<equiv> cg_ops (naive_ops naive_block_init depth)"

abbreviation naive_cg_inv :: "nat \<Rightarrow> nat \<Rightarrow> nblock store \<Rightarrow> naive_allocator cpu_gpu \<Rightarrow> bool" where
  "naive_cg_inv depth bs \<equiv>
     cg_inv (naive_ops naive_block_init depth) naive_resident naive_live na_block_size bs naive_pools"

abbreviation naive_usable :: "naive_allocator cpu_gpu \<Rightarrow> bref set" where
  "naive_usable \<equiv> cg_usable naive_live"

lemma cg_create_naive_inv:
  assumes "cg_create_naive depth ng nc bs h0 = Inr (h, A)"
  shows "naive_cg_inv depth bs h A" "naive_usable A = {}"
    "cg_get_num_free_blocks (naive_ops naive_block_init depth) A GPU = ng"
    "cg_get_num_free_blocks (naive_ops naive_block_init depth) A CPU = nc"
proof -
  let ?ids = "[0..<ng + nc]"
  obtain h1 gpu cpu where g: "naive_allocator_init naive_block_init 0 ng bs (take ng ?ids) None h0 = Inr (h1, gpu)"
    and c: "naive_allocator_init naive_block_init 1 nc bs (drop ng ?ids) None h1 = Inr (h, cpu)"
    and i: "cg_init (naive_ops naive_block_init depth) cpu gpu = Inr A"
    using assms by (auto simp: cg_create_naive_def Let_def)
  note G = naive_init_resident [OF _ g] and C = naive_init_resident [OF _ c]
  have d: "distinct (take ng ?ids)" "distinct (drop ng ?ids)" by simp_all
  have "naive_resident h gpu" by (rule naive_resident_cong [OF G(1) [OF d(1)]]) (use G(2) [OF d(1)] in simp)
  then show "naive_cg_inv depth bs h A"
    using i G(2-) [OF d(1)] C [OF d(2)] unfolding cg_inv_def cg_init_def
    by (auto simp: all_device split: if_splits)
  show "naive_usable A = {}"
    "cg_get_num_free_blocks (naive_ops naive_block_init depth) A GPU = ng"
    "cg_get_num_free_blocks (naive_ops naive_block_init depth) A CPU = nc"
    using i G(2-) [OF d(1)] C(2-) [OF d(2)]
    by (auto simp: cg_init_def cg_usable_def cg_live_def cg_get_num_free_blocks_def naive_get_num_free_blocks_def)
qed

end
