(* ===== verification/Block_Table.thy ===== *)
theory Block_Table
  imports Cpu_Gpu_Allocator
begin

text \<open>
  \<open>vllm/core/block/block_table.py\<close>: \<open>BlockTable\<close>, the sequence of blocks that holds a sequence's
  tokens. Its operations call a device-aware allocator through the interface record \<open>D\<close>. The
  lemmas are proved once against the contract \<open>device_allocator\<close>; the abstraction of a table is
  the list of tokens it stores (\<open>bt_repr\<close>).
\<close>

section \<open>State and operations\<close>

record block_table =
  bt_block_size :: nat
  bt_blocks :: block_list
  bt_max_block_sliding_window :: "nat option"
  bt_num_full_slots :: nat

type_synonym ('x, 'a) state_result = "py_error + ('x nblock_scheme store \<times> 'a)"

definition get_num_token_ids :: "'x nblock_scheme store \<Rightarrow> bref list \<Rightarrow> nat" where
  "get_num_token_ids h blocks = sum_list (map (\<lambda>r. length (nb_token_ids (h r))) blocks)"

definition get_all_token_ids :: "'x nblock_scheme store \<Rightarrow> block_table \<Rightarrow> token_id list" where
  "get_all_token_ids h t = concat (map (\<lambda>r. nb_token_ids (h r)) (bl_blocks (bt_blocks t)))"

definition block_table_init ::
  "'x nblock_scheme store \<Rightarrow> nat \<Rightarrow> bref list \<Rightarrow> nat option \<Rightarrow> py_error + block_table" where
  "block_table_init h block_size blocks window =
     bindE (bl_update h blocks) (\<lambda>l.
     Inr \<lparr>bt_block_size = block_size, bt_blocks = l, bt_max_block_sliding_window = window,
          bt_num_full_slots = get_num_token_ids h blocks\<rparr>)"

definition get_num_required_blocks :: "nat \<Rightarrow> nat \<Rightarrow> nat \<Rightarrow> py_error + nat" where
  "get_num_required_blocks num_token_ids block_size num_lookahead_slots =
     bindE (raise_unless ZeroDivisionError (block_size \<noteq> 0)) (\<lambda>_.
     Inr (nat (cdiv (int (num_token_ids + num_lookahead_slots)) (int block_size))))"

definition bt_is_allocated :: "block_table \<Rightarrow> bool" where
  "bt_is_allocated t \<longleftrightarrow> length (bl_blocks (bt_blocks t)) > 0"

definition bt_num_empty_slots :: "block_table \<Rightarrow> int" where
  "bt_num_empty_slots t =
     int (length (bl_blocks (bt_blocks t)) * bt_block_size t) - int (bt_num_full_slots t)"

definition allocate_blocks_for_token_ids ::
  "('x, 'a) device_allocator_ops \<Rightarrow> 'x nblock_scheme store \<Rightarrow> 'a \<Rightarrow> nat \<Rightarrow> bref option \<Rightarrow> token_id list \<Rightarrow>
     device \<Rightarrow> py_error + (bref list \<times> 'x nblock_scheme store \<times> 'a)" where
  "allocate_blocks_for_token_ids D h A block_size prev_block token_ids device =
     bindE (chunk_list token_ids block_size) (\<lambda>cs.
     let block_token_ids = filter (\<lambda>c. length c = block_size) cs;
         tail_token_ids = filter (\<lambda>c. length c \<noteq> block_size) cs
     in bindE (if block_token_ids \<noteq> []
               then bindE (d_allocate_immutable_blocks D h A prev_block block_token_ids device)
                      (\<lambda>(blocks, h, A).
                    bindE (raise_unless IndexError (blocks \<noteq> [])) (\<lambda>_.
                    Inr (blocks, Some (last blocks), h, A)))
               else Inr ([], prev_block, h, A)) (\<lambda>(blocks, prev_block, h, A).
        if tail_token_ids \<noteq> []
        then bindE (py_assert (length tail_token_ids = 1)) (\<lambda>_.
             bindE (d_allocate_mutable_block D h A prev_block device) (\<lambda>(block, h, A).
             bindE (d_append_token_ids D h A block (hd tail_token_ids)) (\<lambda>(h, A).
             Inr (blocks @ [block], h, A))))
        else Inr (blocks, h, A)))"

definition bt_update :: "'x nblock_scheme store \<Rightarrow> block_table \<Rightarrow> bref list \<Rightarrow> py_error + block_table" where
  "bt_update h t blocks = bindE (bl_update h blocks) (\<lambda>l. Inr (t\<lparr>bt_blocks := l\<rparr>))"

definition bt_allocate ::
  "('x, 'a) device_allocator_ops \<Rightarrow> 'x nblock_scheme store \<Rightarrow> 'a \<Rightarrow> block_table \<Rightarrow> token_id list \<Rightarrow>
     device \<Rightarrow> py_error + (block_table \<times> 'x nblock_scheme store \<times> 'a)" where
  "bt_allocate D h A t token_ids device =
     bindE (py_assert (\<not> bt_is_allocated t)) (\<lambda>_.
     bindE (py_assert (token_ids \<noteq> [])) (\<lambda>_.
     bindE (allocate_blocks_for_token_ids D h A (bt_block_size t) None token_ids device) (\<lambda>(blocks, h, A).
     bindE (bt_update h t blocks) (\<lambda>t.
     Inr (t\<lparr>bt_num_full_slots := length token_ids\<rparr>, h, A)))))"

fun append_new_blocks ::
  "('x, 'a) device_allocator_ops \<Rightarrow> nat \<Rightarrow> 'x nblock_scheme store \<Rightarrow> 'a \<Rightarrow> block_list \<Rightarrow>
     py_error + (block_list \<times> 'x nblock_scheme store \<times> 'a)" where
  "append_new_blocks D 0 h A l = Inr (l, h, A)"
| "append_new_blocks D (Suc n) h A l =
     bindE (py_assert (length (bl_blocks l) > 0)) (\<lambda>_.
     bindE (d_allocate_mutable_block D h A (Some (last (bl_blocks l))) GPU) (\<lambda>(r, h, A).
     bindE (bl_append h l r) (\<lambda>l.
     append_new_blocks D n h A l)))"

definition ensure_num_empty_slots ::
  "('x, 'a) device_allocator_ops \<Rightarrow> 'x nblock_scheme store \<Rightarrow> 'a \<Rightarrow> block_table \<Rightarrow> nat \<Rightarrow>
     py_error + (block_table \<times> 'x nblock_scheme store \<times> 'a)" where
  "ensure_num_empty_slots D h A t num_slots =
     bindE (py_assert (bt_is_allocated t)) (\<lambda>_.
     if bt_num_empty_slots t \<ge> int num_slots then Inr (t, h, A)
     else let slots_to_allocate = int num_slots - bt_num_empty_slots t in
          bindE (raise_unless ZeroDivisionError (bt_block_size t \<noteq> 0)) (\<lambda>_.
          let blocks_to_allocate = cdiv slots_to_allocate (int (bt_block_size t)) in
          bindE (append_new_blocks D (nat blocks_to_allocate) h A (bt_blocks t)) (\<lambda>(l, h, A).
          Inr (t\<lparr>bt_blocks := l\<rparr>, h, A))))"

definition chunk_token_blocks_for_append :: "block_table \<Rightarrow> token_id list \<Rightarrow> py_error + token_id list list" where
  "chunk_token_blocks_for_append t token_ids =
     (if token_ids = [] then Inr []
      else bindE (raise_unless ZeroDivisionError (bt_block_size t \<noteq> 0)) (\<lambda>_.
           let first_chunk_size = bt_block_size t - bt_num_full_slots t mod bt_block_size t in
           bindE (chunk_list (drop first_chunk_size token_ids) (bt_block_size t)) (\<lambda>rest.
           Inr (take first_chunk_size token_ids # rest))))"

fun append_chunks ::
  "('x, 'a) device_allocator_ops \<Rightarrow> 'x nblock_scheme store \<Rightarrow> 'a \<Rightarrow> block_list \<Rightarrow> nat \<Rightarrow> token_id list list \<Rightarrow>
     py_error + (block_list \<times> 'x nblock_scheme store \<times> 'a)" where
  "append_chunks D h A l i [] = Inr (l, h, A)"
| "append_chunks D h A l i (c # cs) =
     bindE (bl_append_token_ids (d_append_token_ids D) h A l i c) (\<lambda>(l, h, A).
     append_chunks D h A l (Suc i) cs)"

text \<open>Dropping the blocks that left the sliding window.\<close>

fun drop_window_blocks ::
  "('x, 'a) device_allocator_ops \<Rightarrow> bref \<Rightarrow> nat list \<Rightarrow> 'x nblock_scheme store \<Rightarrow> 'a \<Rightarrow> block_list \<Rightarrow>
     py_error + (block_list \<times> 'x nblock_scheme store \<times> 'a)" where
  "drop_window_blocks D null_block [] h A l = Inr (l, h, A)"
| "drop_window_blocks D null_block (idx # idxs) h A l =
     bindE (raise_unless IndexError (idx < length (bl_blocks l))) (\<lambda>_.
     let b = bl_blocks l ! idx in
     bindE (if b \<noteq> null_block
            then bindE (d_free D h A b) (\<lambda>(h, A).
                 bindE (bl_setitem h l idx null_block) (\<lambda>l. Inr (l, h, A)))
            else Inr (l, h, A)) (\<lambda>(l, h, A).
     drop_window_blocks D null_block idxs h A l))"

definition bt_slide_window ::
  "('x, 'a) device_allocator_ops \<Rightarrow> 'x nblock_scheme store \<Rightarrow> 'a \<Rightarrow> block_table \<Rightarrow> nat option \<Rightarrow>
     py_error + (block_table \<times> 'x nblock_scheme store \<times> 'a)" where
  "bt_slide_window D h A t num_computed_slots =
     (case bt_max_block_sliding_window t of
        None \<Rightarrow> Inr (t, h, A)
      | Some w \<Rightarrow>
          bindE (d_allocate_or_get_null_block D h A) (\<lambda>(null_block, h, A).
          bindE (from_option AssertionError num_computed_slots) (\<lambda>slots.
          bindE (raise_unless ZeroDivisionError (bt_block_size t \<noteq> 0)) (\<lambda>_.
          let end_block_idx = int (slots div bt_block_size t) - int w in
          bindE (drop_window_blocks D null_block [0..<nat end_block_idx] h A (bt_blocks t)) (\<lambda>(l, h, A).
          Inr (t\<lparr>bt_blocks := l\<rparr>, h, A))))))"

definition bt_append_token_ids ::
  "('x, 'a) device_allocator_ops \<Rightarrow> 'x nblock_scheme store \<Rightarrow> 'a \<Rightarrow> block_table \<Rightarrow> token_id list \<Rightarrow> nat \<Rightarrow>
     nat option \<Rightarrow> py_error + (block_table \<times> 'x nblock_scheme store \<times> 'a)" where
  "bt_append_token_ids D h A t token_ids num_lookahead_slots num_computed_slots =
     bindE (py_assert (bt_is_allocated t)) (\<lambda>_.
     bindE (bt_slide_window D h A t num_computed_slots) (\<lambda>(t, h, A).
     bindE (ensure_num_empty_slots D h A t (length token_ids + num_lookahead_slots)) (\<lambda>(t, h, A).
     bindE (raise_unless ZeroDivisionError (bt_block_size t \<noteq> 0)) (\<lambda>_.
     let first_block_idx = bt_num_full_slots t div bt_block_size t in
     bindE (chunk_token_blocks_for_append t token_ids) (\<lambda>token_blocks.
     bindE (append_chunks D h A (bt_blocks t) first_block_idx token_blocks) (\<lambda>(l, h, A).
     Inr (t\<lparr>bt_blocks := l, bt_num_full_slots := bt_num_full_slots t + length token_ids\<rparr>, h, A)))))))"

definition bt_fork ::
  "('x, 'a) device_allocator_ops \<Rightarrow> 'x nblock_scheme store \<Rightarrow> 'a \<Rightarrow> block_table \<Rightarrow>
     py_error + (block_table \<times> 'x nblock_scheme store \<times> 'a)" where
  "bt_fork D h A t =
     bindE (py_assert (bt_is_allocated t)) (\<lambda>_.
     bindE (d_fork D h A (last (bl_blocks (bt_blocks t)))) (\<lambda>(forked_blocks, h, A).
     bindE (block_table_init h (bt_block_size t) forked_blocks (bt_max_block_sliding_window t)) (\<lambda>t'.
     Inr (t', h, A))))"

definition bt_free ::
  "('x, 'a) device_allocator_ops \<Rightarrow> 'x nblock_scheme store \<Rightarrow> 'a \<Rightarrow> block_table \<Rightarrow>
     py_error + (block_table \<times> 'x nblock_scheme store \<times> 'a)" where
  "bt_free D h A t =
     bindE (foldE (\<lambda>r (h, A). d_free D h A r) (bl_blocks (bt_blocks t)) (h, A)) (\<lambda>(h, A).
     Inr (t\<lparr>bt_blocks := bl_reset\<rparr>, h, A))"

definition physical_block_ids :: "block_table \<Rightarrow> block_id list" where
  "physical_block_ids t = bl_block_ids (bt_blocks t)"

definition get_unseen_token_ids :: "block_table \<Rightarrow> token_id list \<Rightarrow> token_id list" where
  "get_unseen_token_ids t sequence_token_ids = drop (bt_num_full_slots t) sequence_token_ids"

text \<open>\<open>math.ceil\<close> of a float quotient, here of the real quotient.\<close>

definition get_num_blocks_touched_by_append_slots :: "block_table \<Rightarrow> nat \<Rightarrow> nat \<Rightarrow> py_error + int" where
  "get_num_blocks_touched_by_append_slots t num_tokens num_lookahead_slots =
     bindE (raise_unless ZeroDivisionError (bt_block_size t \<noteq> 0)) (\<lambda>_.
     let num_token_ids = int (num_tokens + num_lookahead_slots);
         first_chunk_size = int (bt_block_size t) - int (bt_num_full_slots t mod bt_block_size t)
     in Inr (1 + \<lceil>real_of_int (num_token_ids - first_chunk_size) / real (bt_block_size t)\<rceil>))"

section \<open>The layout of a table\<close>

text \<open>
  \<open>holds h bs rs T\<close>: the blocks \<open>rs\<close> store the tokens \<open>T\<close> in order, block \<open>i\<close> the \<open>i\<close>-th slice of
  \<open>bs\<close> tokens; blocks beyond the last token are empty.
\<close>

definition holds :: "'x nblock_scheme store \<Rightarrow> nat \<Rightarrow> bref list \<Rightarrow> token_id list \<Rightarrow> bool" where
  "holds h bs rs T \<longleftrightarrow> length T \<le> length rs * bs \<and>
     (\<forall>i < length rs. nb_token_ids (h (rs ! i)) = slice bs T i)"

lemma holds_concat:
  assumes "holds h bs rs T"
  shows "concat (map (\<lambda>r. nb_token_ids (h r)) rs) = T"
proof -
  have "map (\<lambda>r. nb_token_ids (h r)) rs = map (slice bs T) [0..<length rs]"
    using assms by (intro nth_equalityI) (auto simp: holds_def)
  then show ?thesis using assms concat_slices [of T "length rs" bs] by (simp add: holds_def)
qed

lemma holds_num_tokens: "holds h bs rs T \<Longrightarrow> get_num_token_ids h rs = length T"
  by (drule holds_concat) (auto simp: get_num_token_ids_def length_concat comp_def)

lemma holds_cong:
  "holds h bs rs T \<Longrightarrow> (\<And>r. r \<in> set rs \<Longrightarrow> nb_token_ids (h' r) = nb_token_ids (h r)) \<Longrightarrow> holds h' bs rs T"
  by (simp add: holds_def)

lemma slice_beyond: "length T \<le> i * bs \<Longrightarrow> slice bs T i = []"
  by (simp add: slice_def)

lemma round_up: "0 < bs \<Longrightarrow> n + (bs - n mod bs) = Suc (n div bs) * bs" for n bs :: nat
proof -
  assume bs: "0 < bs"
  have "n = n div bs * bs + n mod bs" by simp
  moreover have "n mod bs < bs" using bs by simp
  ultimately show ?thesis by (simp only: mult_Suc)
qed

lemma slice_append_other:
  assumes "0 < bs" "i \<noteq> length T div bs" "length c \<le> bs - length T mod bs"
  shows "slice bs (T @ c) i = slice bs T i"
proof (cases "i < length T div bs")
  case True
  then have "Suc i * bs \<le> (length T div bs) * bs" by (intro mult_le_mono1) simp
  also have "\<dots> \<le> length T" by simp
  finally show ?thesis by (simp add: slice_def)
next
  case False
  with assms(2) have "Suc (length T div bs) * bs \<le> i * bs" by (intro mult_le_mono1) simp
  moreover have "length T + (bs - length T mod bs) = Suc (length T div bs) * bs"
    using assms(1) by (rule round_up)
  ultimately have "length (T @ c) \<le> i * bs" "length T \<le> i * bs" using assms(3) by auto
  then show ?thesis by (simp only: slice_beyond)
qed

lemma slice_append_at:
  assumes "0 < bs" "length c \<le> bs - length T mod bs"
  shows "slice bs (T @ c) (length T div bs) = slice bs T (length T div bs) @ c"
proof -
  let ?k = "length T div bs * bs"
  have "length T - ?k = length T mod bs" by (simp add: minus_div_mult_eq_mod)
  then show ?thesis using assms(2) by (simp add: slice_def)
qed

lemma holds_append_chunk:
  assumes h: "holds h bs rs T" and bs: "0 < bs" and i: "length T div bs < length rs"
    and c: "length c \<le> bs - length T mod bs" and dist: "distinct rs"
    and at: "nb_token_ids (h' (rs ! (length T div bs))) = nb_token_ids (h (rs ! (length T div bs))) @ c"
    and other: "\<And>r. r \<in> set rs \<Longrightarrow> r \<noteq> rs ! (length T div bs) \<Longrightarrow> nb_token_ids (h' r) = nb_token_ids (h r)"
  shows "holds h' bs rs (T @ c)"
  unfolding holds_def
proof (intro conjI allI impI)
  have "length T + (bs - length T mod bs) = Suc (length T div bs) * bs"
    using bs by (rule round_up)
  also have "\<dots> \<le> length rs * bs" using i by (intro mult_le_mono1) simp
  finally show "length (T @ c) \<le> length rs * bs" using c by simp
  fix j assume j: "j < length rs"
  show "nb_token_ids (h' (rs ! j)) = slice bs (T @ c) j"
  proof (cases "j = length T div bs")
    case True
    then show ?thesis using at h j slice_append_at [OF bs c] by (simp add: holds_def)
  next
    case False
    then have "rs ! j \<noteq> rs ! (length T div bs)" using dist i j by (simp add: nth_eq_iff_index_eq)
    then show ?thesis using other [of "rs ! j"] h j slice_append_other [OF bs False c] by (simp add: holds_def)
  qed
qed

lemma holds_append_empty:
  assumes "holds h bs rs T" "nb_token_ids (h r) = []"
  shows "holds h bs (rs @ [r]) T"
  using assms by (auto simp: holds_def nth_append slice_beyond not_less_iff_gr_or_eq)

lemma holds_chunks:
  assumes "0 < bs" "map (\<lambda>r. nb_token_ids (h r)) rs = chunks bs T"
  shows "holds h bs rs T"
proof -
  have len: "length rs = (length T + bs - 1) div bs"
    using assms length_chunks [of bs T] by (metis length_map)
  have "chunks bs T = map (\<lambda>k. take bs (drop (k * bs) T)) [0..<length rs]"
    using chunk_list_chunks [OF assms(1), of T] assms(1) len by (simp add: chunk_list_def)
  also have "\<dots> = map (slice bs T) [0..<length rs]" by (simp add: slice_def)
  finally have ch: "map (\<lambda>r. nb_token_ids (h r)) rs = map (slice bs T) [0..<length rs]"
    using assms(2) by simp
  have "length T + bs - 1 < bs + length rs * bs"
    unfolding len by (rule dividend_less_div_times [OF assms(1)])
  then have "length T \<le> length rs * bs" by linarith
  moreover have "nb_token_ids (h (rs ! i)) = slice bs T i" if "i < length rs" for i
    using arg_cong [OF ch, of "\<lambda>l. l ! i"] that by simp
  ultimately show ?thesis by (simp add: holds_def)
qed

definition bl_repr ::
  "bref set \<Rightarrow> nat \<Rightarrow> nat \<Rightarrow> 'x nblock_scheme store \<Rightarrow> block_list \<Rightarrow> token_id list \<Rightarrow> bool" where
  "bl_repr U pool bs h l T \<longleftrightarrow>
     bl_ok h l \<and> distinct (bl_blocks l) \<and> set (bl_blocks l) \<subseteq> U \<and> chained h None (bl_blocks l) \<and>
     (\<forall>r \<in> set (bl_blocks l). ref_pool r = pool \<and> nb_block_size (h r) = bs) \<and>
     holds h bs (bl_blocks l) T"

definition bt_repr ::
  "bref set \<Rightarrow> nat \<Rightarrow> 'x nblock_scheme store \<Rightarrow> block_table \<Rightarrow> token_id list \<Rightarrow> bool" where
  "bt_repr U pool h t T \<longleftrightarrow>
     0 < bt_block_size t \<and> bl_repr U pool (bt_block_size t) h (bt_blocks t) T \<and>
     bt_num_full_slots t = length T"

lemma bl_reprD:
  assumes "bl_repr U pool bs h l T"
  shows "bl_ok h l" "distinct (bl_blocks l)" "set (bl_blocks l) \<subseteq> U" "chained h None (bl_blocks l)"
    "\<And>r. r \<in> set (bl_blocks l) \<Longrightarrow> ref_pool r = pool" "\<And>r. r \<in> set (bl_blocks l) \<Longrightarrow> nb_block_size (h r) = bs"
    "holds h bs (bl_blocks l) T"
  using assms by (auto simp: bl_repr_def)

text \<open>A table whose blocks are not touched keeps its contents.\<close>

lemma bl_repr_frame:
  assumes "bl_repr U pool bs h l T" "set (bl_blocks l) \<subseteq> U'"
    "\<And>r. r \<in> set (bl_blocks l) \<Longrightarrow> h' r = h r"
  shows "bl_repr U' pool bs h' l T"
  using assms bl_ok_cong [of h l h'] chained_cong [of "bl_blocks l" h' h] holds_cong [of h bs "bl_blocks l" T h']
  by (simp add: bl_repr_def)

lemma bt_repr_frame:
  assumes "bt_repr U pool h t T" "set (bl_blocks (bt_blocks t)) \<subseteq> U'"
    "\<And>r. r \<in> set (bl_blocks (bt_blocks t)) \<Longrightarrow> h' r = h r"
  shows "bt_repr U' pool h' t T"
  using assms bl_repr_frame unfolding bt_repr_def by blast

lemma bt_repr_tokens: "bt_repr U pool h t T \<Longrightarrow> get_all_token_ids h t = T"
  unfolding bt_repr_def bl_repr_def get_all_token_ids_def using holds_concat by blast

lemma bl_repr_snoc:
  assumes R: "bl_repr U pool bs h l T" and l: "bl_blocks l1 = bl_blocks l @ [r]" "bl_ok h l1"
    and r: "r \<in> U" "r \<notin> set (bl_blocks l)" "ref_pool r = pool" "nb_block_size (h r) = bs"
      "nb_prev_block (h r) = Some (last (bl_blocks l))" "nb_token_ids (h r) = []"
    and ne: "bl_blocks l \<noteq> []"
  shows "bl_repr U pool bs h l1 T"
proof -
  note D = bl_reprD [OF R]
  have "chained h None (bl_blocks l1)" using D(4) ne r by (simp add: l chained_append)
  moreover have "holds h bs (bl_blocks l1) T" unfolding l(1) by (rule holds_append_empty [OF D(7) r(6)])
  ultimately show ?thesis using D l r by (auto simp: bl_repr_def)
qed

lemma chunks_full_tail:
  "chunks bs xs = filter (\<lambda>c. length c = bs) (chunks bs xs) @ filter (\<lambda>c. length c \<noteq> bs) (chunks bs xs)"
proof (cases "chunks bs xs" rule: rev_cases)
  case (snoc cs c)
  have full: "length c' = bs" if "c' \<in> set cs" for c'
    using butlast_chunks_full [of c' bs xs] that snoc by simp
  have "filter (\<lambda>c. length c = bs) cs = cs" "filter (\<lambda>c. length c \<noteq> bs) cs = []"
    using full by (auto simp: filter_id_conv filter_empty_conv)
  then show ?thesis by (simp add: snoc)
qed simp

context device_allocator
begin

lemma append_new_blocks_spec:
  assumes "inv h A" "bl_repr (usable A) (pool_of GPU) bsize h l T"
    "append_new_blocks ops n h A l = Inr (l', h', A')"
  shows "inv h' A' \<and> bl_repr (usable A') (pool_of GPU) bsize h' l' T \<and> (\<forall>x \<in> usable A. h' x = h x) \<and>
    (\<exists>new. bl_blocks l' = bl_blocks l @ new \<and> length new = n \<and> set new \<inter> usable A = {} \<and>
       usable A' = usable A \<union> set new)"
  using assms
proof (induction n arbitrary: h A l)
  case (Suc n)
  note R = bl_reprD [OF Suc.prems(2)]
  from Suc.prems(3) obtain r h1 A1 l1 where ne: "bl_blocks l \<noteq> []"
    and al: "d_allocate_mutable_block ops h A (Some (last (bl_blocks l))) GPU = Inr (r, h1, A1)"
    and ba: "bl_append h1 l r = Inr l1" and rest: "append_new_blocks ops n h1 A1 l1 = Inr (l', h', A')"
    by auto
  note M = d_mutable_law [OF Suc.prems(1) al]
  then have F: "r \<notin> usable A" "usable A1 = insert r (usable A)" "\<And>x. x \<in> usable A \<Longrightarrow> h1 x = h x"
    "nb_prev_block (h1 r) = Some (last (bl_blocks l))" "nb_block_size (h1 r) = bsize"
    by (auto simp: fresh_chain_def)
  have R1: "bl_repr (usable A1) (pool_of GPU) bsize h1 l T"
    by (rule bl_repr_frame [OF Suc.prems(2)]) (use R(3) F in auto)
  have l1: "bl_blocks l1 = bl_blocks l @ [r]" "bl_ok h1 l1"
    using bl_append_Inr [OF bl_reprD(1) [OF R1], of r l1] ba by simp_all
  have "bl_repr (usable A1) (pool_of GPU) bsize h1 l1 T"
    by (rule bl_repr_snoc [OF R1 l1]) (use F M ne R(3) in auto)
  from Suc.IH [OF _ this rest] M obtain new where IH: "inv h' A'"
    "bl_repr (usable A') (pool_of GPU) bsize h' l' T" "\<forall>x \<in> usable A1. h' x = h1 x"
    "bl_blocks l' = bl_blocks l1 @ new" "length new = n" "set new \<inter> usable A1 = {}"
    "usable A' = usable A1 \<union> set new" by blast
  have "\<forall>x \<in> usable A. h' x = h x" using IH(3) F(2,3) by simp
  moreover have "bl_blocks l' = bl_blocks l @ (r # new)" using IH(4) l1(1) by simp
  moreover have "set (r # new) \<inter> usable A = {}" "usable A' = usable A \<union> set (r # new)"
    using IH(6,7) F(1,2) by auto
  ultimately show ?case using IH(1,2,5) by (intro conjI exI [of _ "r # new"]) simp_all
qed auto

lemma append_chunk_spec:
  assumes I: "inv h A" and R: "bl_repr (usable A) pool bsize h l T" and bs: "0 < bsize"
    and c: "length c \<le> bsize - length T mod bsize"
    and run: "bl_append_token_ids (d_append_token_ids ops) h A l (length T div bsize) c = Inr (l', h', A')"
  shows "inv h' A'" "bl_repr (usable A') pool bsize h' l' (T @ c)" "bl_blocks l' = bl_blocks l"
    "usable A' = usable A" "\<And>x. x \<in> usable A \<Longrightarrow> x \<notin> set (bl_blocks l) \<Longrightarrow> h' x = h x"
proof -
  let ?i = "length T div bsize" let ?r = "bl_blocks l ! ?i"
  note D = bl_reprD [OF R]
  have i: "?i < length (bl_blocks l)" and ap: "d_append_token_ids ops h A ?r c = Inr (h', A')"
    using run by (auto simp: bl_append_token_ids_def Let_def)
  have r: "?r \<in> usable A" using i D(3) nth_mem by blast
  note L = d_append_law [OF I r ap]
  show "inv h' A'" "usable A' = usable A" using L by simp_all
  show "h' x = h x" if "x \<in> usable A" "x \<notin> set (bl_blocks l)" for x
  proof -
    have "x \<noteq> ?r" using that(2) nth_mem [OF i] by metis
    then show ?thesis using L that(1) by simp
  qed
  have ids: "nb_block_id (h' x) = nb_block_id (h x)" if "x \<in> set (bl_blocks l)" "x \<noteq> ?r" for x
    using L D(3) that by auto
  note B = bl_append_token_ids_spec [OF D(1,2) run ids]
  show bl: "bl_blocks l' = bl_blocks l" using B by simp
  have same: "nb_prev_block (h' x) = nb_prev_block (h x) \<and> nb_block_size (h' x) = nb_block_size (h x)"
    if "x \<in> set (bl_blocks l)" for x using L D(3) that by (cases "x = ?r") auto
  have "holds h' bsize (bl_blocks l) (T @ c)"
    by (rule holds_append_chunk [OF D(7) bs i c D(2)]) (use L D(3) in auto)
  then show "bl_repr (usable A') pool bsize h' l' (T @ c)"
    using D B(1) L bl same chained_cong [of "bl_blocks l" h' h] by (auto simp: bl_repr_def)
qed

end

text \<open>
  \<open>fits bs n cs\<close>: appended one per block to a table that holds \<open>n\<close> tokens, the chunks \<open>cs\<close> fill the
  blocks, each chunk but the last one completely.
\<close>

fun fits :: "nat \<Rightarrow> nat \<Rightarrow> 'a list list \<Rightarrow> bool" where
  "fits bs n [] \<longleftrightarrow> True"
| "fits bs n (c # cs) \<longleftrightarrow> length c \<le> bs - n mod bs \<and>
     (cs \<noteq> [] \<longrightarrow> length c = bs - n mod bs) \<and> fits bs (n + length c) cs"

lemma fits_chunks: "0 < bs \<Longrightarrow> n mod bs = 0 \<Longrightarrow> fits bs n (chunks bs xs)"
proof (induction bs xs arbitrary: n rule: chunks.induct)
  case (1 bs xs)
  show ?case
  proof (cases "xs = []")
    case False
    show ?thesis
    proof (cases "drop bs xs = []")
      case True
      then show ?thesis using 1 False by (simp add: chunks_step)
    next
      case False': False
      then have "length (take bs xs) = bs" by simp
      then show ?thesis using 1 False by (simp add: chunks_step)
    qed
  qed simp
qed

lemma chunk_token_blocks_Inr:
  assumes "0 < bt_block_size t" "chunk_token_blocks_for_append t ts = Inr cs"
  shows "concat cs = ts" "fits (bt_block_size t) (bt_num_full_slots t) cs"
proof -
  let ?bs = "bt_block_size t" let ?n = "bt_num_full_slots t" let ?k = "?bs - ?n mod ?bs"
  have cs: "cs = (if ts = [] then [] else take ?k ts # chunks ?bs (drop ?k ts))"
    using assms by (auto simp: chunk_token_blocks_for_append_def Let_def chunk_list_chunks)
  show "concat cs = ts" using assms(1) by (simp add: cs concat_chunks)
  show "fits ?bs ?n cs"
  proof (cases "drop ?k ts = []")
    case True
    then show ?thesis by (simp add: cs)
  next
    case False
    then have "length (take ?k ts) = ?k" by simp
    moreover have "(?n + ?k) mod ?bs = 0" using round_up [OF assms(1), of ?n] by (simp only: mod_mult_self2_is_0)
    ultimately show ?thesis using assms(1) by (simp add: cs fits_chunks)
  qed
qed

context device_allocator
begin

lemma append_chunks_spec:
  assumes "inv h A" "bl_repr (usable A) pool bsize h l T" "0 < bsize" "fits bsize (length T) cs"
    "append_chunks ops h A l (length T div bsize) cs = Inr (l', h', A')"
  shows "inv h' A' \<and> bl_repr (usable A') pool bsize h' l' (T @ concat cs) \<and> bl_blocks l' = bl_blocks l \<and>
    usable A' = usable A \<and> (\<forall>x \<in> usable A. x \<notin> set (bl_blocks l) \<longrightarrow> h' x = h x)"
  using assms
proof (induction cs arbitrary: h A l T)
  case (Cons c cs)
  from Cons.prems(5) obtain l1 h1 A1 where
    ap: "bl_append_token_ids (d_append_token_ids ops) h A l (length T div bsize) c = Inr (l1, h1, A1)"
    and rest: "append_chunks ops h1 A1 l1 (Suc (length T div bsize)) cs = Inr (l', h', A')" by auto
  have c: "length c \<le> bsize - length T mod bsize" using Cons.prems(4) by simp
  note S = append_chunk_spec [OF Cons.prems(1-3) c ap]
  show ?case
  proof (cases "cs = []")
    case True
    then show ?thesis using rest S by auto
  next
    case False
    then have "length c = bsize - length T mod bsize" using Cons.prems(4) by simp
    then have "length (T @ c) = Suc (length T div bsize) * bsize"
      using round_up [OF Cons.prems(3), of "length T"] by simp
    then have "length (T @ c) div bsize = Suc (length T div bsize)"
      using Cons.prems(3) by (metis div_mult_self_is_m)
    then have rest': "append_chunks ops h1 A1 l1 (length (T @ c) div bsize) cs = Inr (l', h', A')"
      using rest by simp
    have "fits bsize (length (T @ c)) cs" using Cons.prems(4) by simp
    from Cons.IH [OF S(1,2) Cons.prems(3) this rest'] S show ?thesis by auto
  qed
qed auto

lemma ensure_num_empty_slots_spec:
  assumes I: "inv h A" and R: "bl_repr (usable A) (pool_of GPU) bsize h (bt_blocks t) T"
    and run: "ensure_num_empty_slots ops h A t n = Inr (t', h', A')"
  shows "inv h' A'" "bl_repr (usable A') (pool_of GPU) bsize h' (bt_blocks t') T"
    "\<And>x. x \<in> usable A \<Longrightarrow> h' x = h x" "bt_num_full_slots t' = bt_num_full_slots t"
    "bt_block_size t' = bt_block_size t" "bt_max_block_sliding_window t' = bt_max_block_sliding_window t"
    "\<exists>new. bl_blocks (bt_blocks t') = bl_blocks (bt_blocks t) @ new \<and> set new \<inter> usable A = {} \<and>
       usable A' = usable A \<union> set new"
    "int n \<le> bt_num_empty_slots t'"
proof -
  have "inv h' A' \<and> bl_repr (usable A') (pool_of GPU) bsize h' (bt_blocks t') T \<and>
    (\<forall>x \<in> usable A. h' x = h x) \<and> bt_num_full_slots t' = bt_num_full_slots t \<and>
    bt_block_size t' = bt_block_size t \<and> bt_max_block_sliding_window t' = bt_max_block_sliding_window t \<and>
    (\<exists>new. bl_blocks (bt_blocks t') = bl_blocks (bt_blocks t) @ new \<and> set new \<inter> usable A = {} \<and>
       usable A' = usable A \<union> set new) \<and> int n \<le> bt_num_empty_slots t'"
  proof (cases "int n \<le> bt_num_empty_slots t")
    case True
    then have "t' = t" "h' = h" "A' = A" using run by (auto simp: ensure_num_empty_slots_def)
    then show ?thesis using I R True by simp
  next
    case False
    let ?d = "int n - bt_num_empty_slots t" let ?k = "nat (cdiv ?d (int (bt_block_size t)))"
    from False run obtain l where bs: "0 < bt_block_size t"
      and nb: "append_new_blocks ops ?k h A (bt_blocks t) = Inr (l, h', A')"
      and t': "t' = t\<lparr>bt_blocks := l\<rparr>"
      by (auto simp: ensure_num_empty_slots_def Let_def)
    from append_new_blocks_spec [OF I R nb] obtain new where S: "inv h' A'"
      "bl_repr (usable A') (pool_of GPU) bsize h' l T" "\<forall>x \<in> usable A. h' x = h x"
      "bl_blocks l = bl_blocks (bt_blocks t) @ new" "length new = ?k" "set new \<inter> usable A = {}"
      "usable A' = usable A \<union> set new" by blast
    have "?d = int (nat ?d)" using False by simp
    then have "?k = (nat ?d + bt_block_size t - 1) div bt_block_size t" using nat_cdiv [OF bs] by metis
    then have "nat ?d + bt_block_size t - 1 < bt_block_size t + ?k * bt_block_size t"
      using dividend_less_div_times [OF bs] by simp
    then have "nat ?d \<le> ?k * bt_block_size t" by linarith
    then have "?d \<le> int (?k * bt_block_size t)" by linarith
    then have "int n \<le> bt_num_empty_slots t'"
      using S(4,5) by (simp add: bt_num_empty_slots_def t' distrib_right)
    then show ?thesis using S by (auto simp: t')
  qed
  then show "inv h' A'" "bl_repr (usable A') (pool_of GPU) bsize h' (bt_blocks t') T"
    "\<And>x. x \<in> usable A \<Longrightarrow> h' x = h x" "bt_num_full_slots t' = bt_num_full_slots t"
    "bt_block_size t' = bt_block_size t" "bt_max_block_sliding_window t' = bt_max_block_sliding_window t"
    "\<exists>new. bl_blocks (bt_blocks t') = bl_blocks (bt_blocks t) @ new \<and> set new \<inter> usable A = {} \<and>
       usable A' = usable A \<union> set new"
    "int n \<le> bt_num_empty_slots t'" by blast+
qed

text \<open>Appending refines appending to the list of tokens, and disturbs no other table.\<close>

lemma bt_append_spec:
  assumes I: "inv h A" and R: "bt_repr (usable A) (pool_of GPU) h t T" and bs: "bt_block_size t = bsize"
    and nw: "bt_max_block_sliding_window t = None"
    and run: "bt_append_token_ids ops h A t ts look computed = Inr (t', h', A')"
  shows "inv h' A' \<and> bt_repr (usable A') (pool_of GPU) h' t' (T @ ts) \<and>
    (\<forall>x \<in> usable A. x \<notin> set (bl_blocks (bt_blocks t)) \<longrightarrow> h' x = h x) \<and>
    (\<exists>new. bl_blocks (bt_blocks t') = bl_blocks (bt_blocks t) @ new \<and> set new \<inter> usable A = {} \<and>
       usable A' = usable A \<union> set new) \<and> int look \<le> bt_num_empty_slots t'"
proof -
  obtain t1 h1 A1 cs l where
    en: "ensure_num_empty_slots ops h A t (length ts + look) = Inr (t1, h1, A1)"
    and ch: "chunk_token_blocks_for_append t1 ts = Inr cs"
    and ac: "append_chunks ops h1 A1 (bt_blocks t1) (bt_num_full_slots t1 div bt_block_size t1) cs = Inr (l, h', A')"
    and t': "t' = t1\<lparr>bt_blocks := l, bt_num_full_slots := bt_num_full_slots t1 + length ts\<rparr>"
    using run nw by (auto simp: bt_append_token_ids_def bt_slide_window_def Let_def)
  have R0: "bl_repr (usable A) (pool_of GPU) bsize h (bt_blocks t) T" "0 < bsize" "bt_num_full_slots t = length T"
    using R bs by (simp_all add: bt_repr_def)
  note E = ensure_num_empty_slots_spec [OF I R0(1) en]
  have c: "concat cs = ts" "fits bsize (length T) cs"
    using chunk_token_blocks_Inr [OF _ ch] E(4,5) R0 bs by simp_all
  have ac': "append_chunks ops h1 A1 (bt_blocks t1) (length T div bsize) cs = Inr (l, h', A')"
    using ac E(4,5) R0 bs by simp
  note S = append_chunks_spec [OF E(1,2) R0(2) c(2) ac']
  from E(7) obtain new where new: "bl_blocks (bt_blocks t1) = bl_blocks (bt_blocks t) @ new"
    "set new \<inter> usable A = {}" "usable A1 = usable A \<union> set new" by blast
  have "bt_repr (usable A') (pool_of GPU) h' t' (T @ ts)"
    using S c(1) E(4,5) R0 bs by (auto simp: bt_repr_def t')
  moreover have "h' x = h x" if "x \<in> usable A" "x \<notin> set (bl_blocks (bt_blocks t))" for x
    using S E(3) [OF that(1)] new that by auto
  moreover have "int look \<le> bt_num_empty_slots t'"
    using E(8) S new(1) by (simp add: bt_num_empty_slots_def t')
  moreover have "bl_blocks (bt_blocks t') = bl_blocks (bt_blocks t) @ new" "usable A' = usable A \<union> set new"
    using S new by (simp_all add: t')
  ultimately show ?thesis using S new(2) by blast
qed

lemma fresh_append:
  assumes "fresh_chain U bs h U1 h1 prev xs" "fresh_chain U1 bs h1 U2 h2 (if xs = [] then prev else Some (last xs)) ys"
  shows "fresh_chain U bs h U2 h2 prev (xs @ ys)" "\<And>x. x \<in> set xs \<Longrightarrow> h2 x = h1 x"
proof -
  show same: "h2 x = h1 x" if "x \<in> set xs" for x using assms that by (simp add: fresh_chain_def)
  then have "chained h2 prev xs" using assms(1) chained_cong [of xs h2 h1] by (simp add: fresh_chain_def)
  then show "fresh_chain U bs h U2 h2 prev (xs @ ys)"
    using assms same by (auto simp: fresh_chain_def chained_append)
qed

lemma allocate_blocks_spec:
  assumes I: "inv h A" and bs: "0 < bsize"
    and run: "allocate_blocks_for_token_ids ops h A bsize prev toks dev = Inr (rs, h', A')"
  shows "inv h' A'" "fresh_chain (usable A) bsize h (usable A') h' prev rs"
    "map (\<lambda>r. nb_token_ids (h' r)) rs = chunks bsize toks" "\<And>r. r \<in> set rs \<Longrightarrow> ref_pool r = pool_of dev"
proof -
  let ?cs = "chunks bsize toks"
  define full where "full = filter (\<lambda>c. length c = bsize) ?cs"
  define tail where "tail = filter (\<lambda>c. length c \<noteq> bsize) ?cs"
  have split: "?cs = full @ tail" unfolding full_def tail_def by (rule chunks_full_tail)
  obtain xs p h1 A1 where
    imm: "(if full \<noteq> [] then bindE (d_allocate_immutable_blocks ops h A prev full dev) (\<lambda>(blocks, h, A).
            bindE (raise_unless IndexError (blocks \<noteq> [])) (\<lambda>_. Inr (blocks, Some (last blocks), h, A)))
          else Inr ([], prev, h, A)) = Inr (xs, p, h1, A1)"
    and rest: "(if tail \<noteq> [] then bindE (py_assert (length tail = 1)) (\<lambda>_.
             bindE (d_allocate_mutable_block ops h1 A1 p dev) (\<lambda>(block, h, A).
             bindE (d_append_token_ids ops h A block (hd tail)) (\<lambda>(h, A). Inr (xs @ [block], h, A))))
        else Inr (xs, h1, A1)) = Inr (rs, h', A')"
    using run unfolding allocate_blocks_for_token_ids_def chunk_list_chunks [OF bs] bindE.simps Let_def
      full_def [symmetric] tail_def [symmetric] by (elim bindE_eq_Inr [THEN iffD1, THEN exE]) auto
  have X: "inv h1 A1 \<and> fresh_chain (usable A) bsize h (usable A1) h1 prev xs \<and>
    map (\<lambda>r. nb_token_ids (h1 r)) xs = full \<and> (\<forall>r \<in> set xs. ref_pool r = pool_of dev) \<and>
    p = (if xs = [] then prev else Some (last xs))"
  proof (cases "full = []")
    case True
    then show ?thesis using imm I by (simp add: fresh_chain_def)
  next
    case False
    then have al: "d_allocate_immutable_blocks ops h A prev full dev = Inr (xs, h1, A1)"
      and p: "xs \<noteq> []" "p = Some (last xs)" using imm by auto
    have "length t = bsize" if "t \<in> set full" for t using that by (simp add: full_def)
    from d_immutables_law [OF I al this] p show ?thesis by simp
  qed
  have "inv h' A' \<and> fresh_chain (usable A) bsize h (usable A') h' prev rs \<and>
    map (\<lambda>r. nb_token_ids (h' r)) rs = ?cs \<and> (\<forall>r \<in> set rs. ref_pool r = pool_of dev)"
  proof (cases "tail = []")
    case True
    then show ?thesis using rest X split by simp
  next
    case False
    then obtain r h2 A2 c where tl: "tail = [c]" and mu: "d_allocate_mutable_block ops h1 A1 p dev = Inr (r, h2, A2)"
      and ap: "d_append_token_ids ops h2 A2 r c = Inr (h', A')" and rs: "rs = xs @ [r]"
      using rest by (auto simp: length_Suc_conv)
    have I1: "inv h1 A1" using X by simp
    note M = d_mutable_law [OF I1 mu]
    then have I2: "inv h2 A2" and r: "r \<in> usable A2" by (auto simp: fresh_chain_def)
    note L = d_append_law [OF I2 r ap]
    have "fresh_chain (usable A1) bsize h1 (usable A') h' p [r]"
      using M L by (auto simp: fresh_chain_def)
    with X have F: "fresh_chain (usable A) bsize h (usable A') h' prev rs" "\<And>x. x \<in> set xs \<Longrightarrow> h' x = h1 x"
      unfolding rs using fresh_append [of "usable A" bsize h "usable A1" h1 prev xs "usable A'" h' "[r]"] by auto
    have "map (\<lambda>r. nb_token_ids (h' r)) rs = map (\<lambda>r. nb_token_ids (h1 r)) xs @ [c]"
      using F(2) L M by (simp add: rs)
    then show ?thesis using F(1) L M X split tl by (auto simp: rs)
  qed
  then show "inv h' A'" "fresh_chain (usable A) bsize h (usable A') h' prev rs"
    "map (\<lambda>r. nb_token_ids (h' r)) rs = chunks bsize toks" "\<And>r. r \<in> set rs \<Longrightarrow> ref_pool r = pool_of dev"
    by auto
qed

lemma bl_repr_fresh:
  assumes "inv h' A'" "fresh_chain U bsize h (usable A') h' None rs" "0 < bsize" "bl_update h' rs = Inr l"
    "holds h' bsize rs T" "\<And>r. r \<in> set rs \<Longrightarrow> ref_pool r = pool"
  shows "bl_repr (usable A') pool bsize h' l T"
  using assms by (auto simp: bl_repr_def bl_update_Inr fresh_chain_def)

lemma bt_allocate_spec:
  assumes I: "inv h A" and bs: "0 < bsize" "bt_block_size t = bsize"
    and run: "bt_allocate ops h A t toks dev = Inr (t', h', A')"
  shows "inv h' A' \<and> bt_repr (usable A') (pool_of dev) h' t' toks \<and> (\<forall>x \<in> usable A. h' x = h x) \<and>
    usable A' = usable A \<union> set (bl_blocks (bt_blocks t')) \<and>
    set (bl_blocks (bt_blocks t')) \<inter> usable A = {} \<and>
    length (bl_blocks (bt_blocks t')) = nat (cdiv (int (length toks)) (int bsize)) \<and> bt_block_size t' = bsize \<and>
    bt_max_block_sliding_window t' = bt_max_block_sliding_window t"
proof -
  obtain rs l where al: "allocate_blocks_for_token_ids ops h A bsize None toks dev = Inr (rs, h', A')"
    and up: "bl_update h' rs = Inr l" and t': "t' = t\<lparr>bt_blocks := l, bt_num_full_slots := length toks\<rparr>"
    using run bs(2) by (auto simp: bt_allocate_def bt_update_def)
  note S = allocate_blocks_spec [OF I bs(1) al]
  have "holds h' bsize rs toks" by (rule holds_chunks [OF bs(1) S(3)])
  note R = bl_repr_fresh [OF S(1,2) bs(1) up this S(4)]
  have "length rs = nat (cdiv (int (length toks)) (int bsize))"
    using arg_cong [OF S(3), of length] bs(1) by (simp add: length_chunks nat_cdiv)
  then show ?thesis using S(1,2) R bs up by (auto simp: bt_repr_def t' fresh_chain_def bl_update_Inr)
qed

text \<open>A fork stores the same tokens in the same physical blocks, through new block objects.\<close>

lemma bt_fork_spec:
  assumes I: "inv h A" and R: "bt_repr (usable A) (pool_of dev) h t T" and bs: "bt_block_size t = bsize"
    and run: "bt_fork ops h A t = Inr (t', h', A')"
  shows "inv h' A' \<and> bt_repr (usable A') (pool_of dev) h' t' T \<and> (\<forall>x \<in> usable A. h' x = h x) \<and>
    usable A' = usable A \<union> set (bl_blocks (bt_blocks t')) \<and>
    set (bl_blocks (bt_blocks t')) \<inter> usable A = {} \<and>
    physical_block_ids t' = physical_block_ids t \<and> bt_block_size t' = bsize"
proof -
  let ?cs = "bl_blocks (bt_blocks t)"
  obtain rs l where ne: "?cs \<noteq> []" and fk: "d_fork ops h A (last ?cs) = Inr (rs, h', A')"
    and up: "bl_update h' rs = Inr l"
    and t': "t' = \<lparr>bt_block_size = bsize, bt_blocks = l,
      bt_max_block_sliding_window = bt_max_block_sliding_window t, bt_num_full_slots = get_num_token_ids h' rs\<rparr>"
    using run bs by (auto simp: bt_fork_def block_table_init_def bt_is_allocated_def)
  have R0: "bl_repr (usable A) (pool_of dev) bsize h (bt_blocks t) T" "0 < bsize"
    using R bs by (simp_all add: bt_repr_def)
  note D = bl_reprD [OF R0(1)]
  note F = d_fork_law [OF I D(4) ne D(3) D(5) fk]
  then have pairs: "map (\<lambda>r. (nb_token_ids (h' r), nb_block_id (h' r))) rs
      = map (\<lambda>r. (nb_token_ids (h r), nb_block_id (h r))) ?cs" by blast
  have ids: "map (\<lambda>r. nb_token_ids (h' r)) rs = map (\<lambda>r. nb_token_ids (h r)) ?cs"
    "map (\<lambda>r. nb_block_id (h' r)) rs = map (\<lambda>r. nb_block_id (h r)) ?cs"
    using arg_cong [OF pairs, of "map fst"] arg_cong [OF pairs, of "map snd"] by (simp_all add: comp_def)
  have len: "length rs = length ?cs" using arg_cong [OF ids(1), of length] by simp
  have "nb_token_ids (h' (rs ! i)) = nb_token_ids (h (?cs ! i))" if "i < length rs" for i
    using arg_cong [OF ids(1), of "\<lambda>l. l ! i"] that len by simp
  then have H: "holds h' bsize rs T" using D(7) len by (simp add: holds_def)
  have "bl_repr (usable A') (pool_of dev) bsize h' l T"
    by (rule bl_repr_fresh [OF _ _ R0(2) up H]) (use F in auto)
  moreover have "map Some (bl_block_ids l) = map Some (bl_block_ids (bt_blocks t))"
    using up D(1) ids(2) by (auto simp: bl_update_Inr bl_ok_def)
  then have "bl_block_ids l = bl_block_ids (bt_blocks t)" by (simp add: inj_map_eq_map)
  ultimately show ?thesis
    using F R0(2) up holds_num_tokens [OF H]
    by (auto simp: bt_repr_def t' fresh_chain_def bl_update_Inr physical_block_ids_def)
qed

lemma bt_free_spec:
  assumes I: "inv h A" and bl: "set (bl_blocks (bt_blocks t)) \<subseteq> usable A" "distinct (bl_blocks (bt_blocks t))"
    and run: "bt_free ops h A t = Inr (t', h', A')"
  shows "inv h' A' \<and> usable A' = usable A - set (bl_blocks (bt_blocks t)) \<and>
    (\<forall>x \<in> usable A'. h' x = h x) \<and> \<not> bt_is_allocated t'"
proof -
  have loop: "inv h' A' \<and> usable A' = usable A - set rs \<and> (\<forall>x \<in> usable A'. h' x = h x)"
    if "inv h A" "set rs \<subseteq> usable A" "distinct rs" "foldE (\<lambda>r (h, A). d_free ops h A r) rs (h, A) = Inr (h', A')"
    for rs h A h' A' using that
  proof (induction rs arbitrary: h A)
    case (Cons r rs)
    from Cons.prems(4) obtain h1 A1 where fr: "d_free ops h A r = Inr (h1, A1)"
      and rest: "foldE (\<lambda>r (h, A). d_free ops h A r) rs (h1, A1) = Inr (h', A')" by auto
    have r: "r \<in> usable A" using Cons.prems(2) by simp
    note L = d_free_law [OF Cons.prems(1) r fr]
    have "set rs \<subseteq> usable A1" using L Cons.prems(2,3) by auto
    from Cons.IH [OF _ this _ rest] L Cons.prems(3) show ?case by auto
  qed simp
  show ?thesis using run loop [OF I bl] by (auto simp: bt_free_def bt_is_allocated_def bl_reset_def)
qed

end

section \<open>Properties\<close>

text \<open>A concrete table: four GPU blocks of two tokens, and a table holding the tokens 5, 6, 7.\<close>

definition ex_cg :: "py_error + (nblock store \<times> naive_allocator cpu_gpu)" where
  "ex_cg = cg_create_naive 10 4 2 2 ex_store"

definition ex_table0 :: block_table where
  "ex_table0 = \<lparr>bt_block_size = 2, bt_blocks = bl_reset, bt_max_block_sliding_window = None, bt_num_full_slots = 0\<rparr>"

definition ex_table :: "py_error + (block_table \<times> nblock store \<times> naive_allocator cpu_gpu)" where
  "ex_table = bindE ex_cg (\<lambda>(h, A). bt_allocate (naive_cg_ops 10) h A ex_table0 [5, 6, 7] GPU)"

lemma ex_cg_ok: "\<exists>h A. ex_cg = Inr (h, A) \<and> naive_cg_inv 10 2 h A \<and> naive_usable A = {}"
proof -
  have "\<not> isl ex_cg" by code_simp
  then obtain h A where "ex_cg = Inr (h, A)" by (metis not_isl surj_pair)
  then show ?thesis using cg_create_naive_inv [of 10 4 2 2 ex_store h A] by (auto simp: ex_cg_def)
qed

lemma ex_table_ok: "\<exists>t h A. ex_table = Inr (t, h, A) \<and> naive_cg_inv 10 2 h A \<and>
    bt_repr (naive_usable A) 0 h t [5, 6, 7] \<and> bt_block_size t = 2 \<and> bt_max_block_sliding_window t = None"
proof -
  obtain h A where cg: "ex_cg = Inr (h, A)" "naive_cg_inv 10 2 h A" using ex_cg_ok by blast
  have "\<not> isl ex_table" by code_simp
  then obtain t' h' A' where t': "ex_table = Inr (t', h', A')" by (metis not_isl surj_pair)
  then have run: "bt_allocate (naive_cg_ops 10) h A ex_table0 [5, 6, 7] GPU = Inr (t', h', A')"
    unfolding ex_table_def cg(1) by simp
  have "naive_cg_inv 10 2 h' A' \<and> bt_repr (naive_usable A') 0 h' t' [5, 6, 7] \<and> bt_block_size t' = 2 \<and>
      bt_max_block_sliding_window t' = None"
    using naive_alloc.cg.bt_allocate_spec [OF cg(2) _ _ run] by (auto simp: ex_table0_def)
  then show ?thesis using t' by blast
qed

text \<open>
  C29. Allocating a table: it then stores exactly the given tokens, in \<open>cdiv(len, block_size)\<close> blocks
  that were not in use, and no block in use is disturbed.
\<close>

theorem block_table_allocate:
  assumes "naive_cg_inv depth bs h A" "0 < bs" "bt_block_size t = bs"
    and "bt_allocate (naive_cg_ops depth) h A t toks dev = Inr (t', h', A')"
  shows "naive_cg_inv depth bs h' A' \<and> bt_repr (naive_usable A') (naive_pools dev) h' t' toks \<and>
    get_all_token_ids h' t' = toks \<and> (\<forall>x \<in> naive_usable A. h' x = h x) \<and>
    naive_usable A' = naive_usable A \<union> set (bl_blocks (bt_blocks t')) \<and>
    set (bl_blocks (bt_blocks t')) \<inter> naive_usable A = {} \<and>
    length (bl_blocks (bt_blocks t')) = nat (cdiv (int (length toks)) (int bs))"
proof -
  note S = naive_alloc.cg.bt_allocate_spec [OF assms]
  then have "bt_repr (naive_usable A') (naive_pools dev) h' t' toks" by blast
  from bt_repr_tokens [OF this] S show ?thesis by blast
qed

theorem block_table_allocate_witness:
  "\<exists>t h A. ex_table = Inr (t, h, A) \<and> get_all_token_ids h t = [5, 6, 7] \<and> length (bl_blocks (bt_blocks t)) = 2"
proof -
  obtain h A where cg: "ex_cg = Inr (h, A)" "naive_cg_inv 10 2 h A" using ex_cg_ok by blast
  have "\<not> isl ex_table" by code_simp
  then obtain t' h' A' where t': "ex_table = Inr (t', h', A')" by (metis not_isl surj_pair)
  then have run: "bt_allocate (naive_cg_ops 10) h A ex_table0 [5, 6, 7] GPU = Inr (t', h', A')"
    unfolding ex_table_def cg(1) by simp
  have "get_all_token_ids h' t' = [5, 6, 7] \<and> length (bl_blocks (bt_blocks t')) = nat (cdiv (int (length [5, 6, 7 :: int])) (int 2))"
    using block_table_allocate [OF cg(2) _ _ run] by (simp add: ex_table0_def)
  moreover have "nat (cdiv (int (length [5, 6, 7 :: int])) (int 2)) = 2" by code_simp
  ultimately show ?thesis using t' by metis
qed

text \<open>
  C15. Appending refines list append: a table that stores \<open>T\<close> stores \<open>T @ ts\<close> afterwards, has room for
  the look-ahead slots, and every other table (with other block objects) still stores what it did. The table
  has no sliding window.
\<close>

theorem block_table_append:
  assumes "naive_cg_inv depth bs h A" "bt_repr (naive_usable A) (naive_pools GPU) h t T" "bt_block_size t = bs"
    and "bt_max_block_sliding_window t = None"
    and "bt_append_token_ids (naive_cg_ops depth) h A t ts look computed = Inr (t', h', A')"
  shows "naive_cg_inv depth bs h' A' \<and> bt_repr (naive_usable A') (naive_pools GPU) h' t' (T @ ts) \<and>
    get_all_token_ids h' t' = T @ ts \<and> int look \<le> bt_num_empty_slots t' \<and>
    (\<forall>pool t2 T2. bt_repr (naive_usable A) pool h t2 T2 \<and>
       set (bl_blocks (bt_blocks t2)) \<inter> set (bl_blocks (bt_blocks t)) = {} \<longrightarrow>
       bt_repr (naive_usable A') pool h' t2 T2)"
proof -
  note S = naive_alloc.cg.bt_append_spec [OF assms]
  then have R: "bt_repr (naive_usable A') (naive_pools GPU) h' t' (T @ ts)" by blast
  have "bt_repr (naive_usable A') pool h' t2 T2"
    if t2: "bt_repr (naive_usable A) pool h t2 T2"
      "set (bl_blocks (bt_blocks t2)) \<inter> set (bl_blocks (bt_blocks t)) = {}" for pool t2 T2
  proof (rule bt_repr_frame [OF t2(1)])
    have "set (bl_blocks (bt_blocks t2)) \<subseteq> naive_usable A" using t2(1) by (simp add: bt_repr_def bl_repr_def)
    then show "set (bl_blocks (bt_blocks t2)) \<subseteq> naive_usable A'"
      "\<And>r. r \<in> set (bl_blocks (bt_blocks t2)) \<Longrightarrow> h' r = h r" using S t2(2) by blast+
  qed
  with S R bt_repr_tokens [OF R] show ?thesis by blast
qed

theorem block_table_append_witness:
  "\<exists>t h A t' h' A'. ex_table = Inr (t, h, A) \<and>
     bt_append_token_ids (naive_cg_ops 10) h A t [8, 9, 4] 1 None = Inr (t', h', A') \<and>
     get_all_token_ids h' t' = [5, 6, 7, 8, 9, 4]"
proof -
  obtain t h A where ex: "ex_table = Inr (t, h, A)" "naive_cg_inv 10 2 h A"
    "bt_repr (naive_usable A) (naive_pools GPU) h t [5, 6, 7]" "bt_block_size t = 2" "bt_max_block_sliding_window t = None"
    using ex_table_ok by auto
  have "\<not> isl (bindE ex_table (\<lambda>(t, h, A). bt_append_token_ids (naive_cg_ops 10) h A t [8, 9, 4] 1 None))" by code_simp
  then obtain t' h' A' where run: "bt_append_token_ids (naive_cg_ops 10) h A t [8, 9, 4] 1 None = Inr (t', h', A')"
    unfolding ex(1) by (auto dest!: not_isl)
  have "get_all_token_ids h' t' = [5, 6, 7, 8, 9, 4]" using block_table_append [OF ex(2-) run] by simp
  then show ?thesis using ex(1) run by blast
qed

text \<open>
  A fork stores the same tokens in the same physical blocks through new block objects, and the
  original and every other table keep theirs.
\<close>

lemma block_table_fork:
  assumes "naive_cg_inv depth bs h A" "bt_repr (naive_usable A) (naive_pools dev) h t T" "bt_block_size t = bs"
    and "bt_fork (naive_cg_ops depth) h A t = Inr (t', h', A')"
  shows "naive_cg_inv depth bs h' A' \<and> bt_repr (naive_usable A') (naive_pools dev) h' t' T \<and>
    physical_block_ids t' = physical_block_ids t \<and>
    set (bl_blocks (bt_blocks t')) \<inter> naive_usable A = {} \<and>
    (\<forall>pool t2 T2. bt_repr (naive_usable A) pool h t2 T2 \<longrightarrow> bt_repr (naive_usable A') pool h' t2 T2)"
proof -
  note S = naive_alloc.cg.bt_fork_spec [OF assms]
  have "bt_repr (naive_usable A') pool h' t2 T2" if t2: "bt_repr (naive_usable A) pool h t2 T2" for pool t2 T2
  proof (rule bt_repr_frame [OF t2])
    have "set (bl_blocks (bt_blocks t2)) \<subseteq> naive_usable A" using t2 by (simp add: bt_repr_def bl_repr_def)
    then show "set (bl_blocks (bt_blocks t2)) \<subseteq> naive_usable A'"
      "\<And>r. r \<in> set (bl_blocks (bt_blocks t2)) \<Longrightarrow> h' r = h r" using S by blast+
  qed
  with S show ?thesis by blast
qed

lemma block_table_fork_witness:
  "\<exists>t h A t' h' A'. ex_table = Inr (t, h, A) \<and> bt_fork (naive_cg_ops 10) h A t = Inr (t', h', A') \<and>
     get_all_token_ids h' t' = [5, 6, 7] \<and> physical_block_ids t' = physical_block_ids t"
proof -
  obtain t h A where ex: "ex_table = Inr (t, h, A)" "naive_cg_inv 10 2 h A"
    "bt_repr (naive_usable A) (naive_pools GPU) h t [5, 6, 7]" "bt_block_size t = 2"
    using ex_table_ok by auto
  have "\<not> isl (bindE ex_table (\<lambda>(t, h, A). bt_fork (naive_cg_ops 10) h A t))" by code_simp
  then obtain t' h' A' where run: "bt_fork (naive_cg_ops 10) h A t = Inr (t', h', A')"
    unfolding ex(1) by (auto dest!: not_isl)
  note S = block_table_fork [OF ex(2-) run]
  then have "get_all_token_ids h' t' = [5, 6, 7]" using bt_repr_tokens by blast
  then show ?thesis using S ex(1) run by blast
qed

text \<open>
  Freeing a table releases exactly its block objects and leaves every table that shares no block
  object with it (a fork, in particular, which shares its physical blocks) as it was.
\<close>

lemma block_table_free:
  assumes "naive_cg_inv depth bs h A" "bt_repr (naive_usable A) pool h t T"
    and "bt_free (naive_cg_ops depth) h A t = Inr (t', h', A')"
  shows "naive_cg_inv depth bs h' A' \<and> naive_usable A' = naive_usable A - set (bl_blocks (bt_blocks t)) \<and>
    \<not> bt_is_allocated t' \<and>
    (\<forall>pool t2 T2. bt_repr (naive_usable A) pool h t2 T2 \<and>
       set (bl_blocks (bt_blocks t2)) \<inter> set (bl_blocks (bt_blocks t)) = {} \<longrightarrow>
       bt_repr (naive_usable A') pool h' t2 T2)"
proof -
  have bl: "set (bl_blocks (bt_blocks t)) \<subseteq> naive_usable A" "distinct (bl_blocks (bt_blocks t))"
    using assms(2) by (simp_all add: bt_repr_def bl_repr_def)
  note S = naive_alloc.cg.bt_free_spec [OF assms(1) bl assms(3)]
  have "bt_repr (naive_usable A') pool h' t2 T2"
    if t2: "bt_repr (naive_usable A) pool h t2 T2"
      "set (bl_blocks (bt_blocks t2)) \<inter> set (bl_blocks (bt_blocks t)) = {}" for pool t2 T2
  proof (rule bt_repr_frame [OF t2(1)])
    have "set (bl_blocks (bt_blocks t2)) \<subseteq> naive_usable A" using t2(1) by (simp add: bt_repr_def bl_repr_def)
    then show sub: "set (bl_blocks (bt_blocks t2)) \<subseteq> naive_usable A'" using S t2(2) by blast
    show "\<And>r. r \<in> set (bl_blocks (bt_blocks t2)) \<Longrightarrow> h' r = h r" using S sub by blast
  qed
  with S show ?thesis by blast
qed

lemma block_table_free_witness:
  "\<exists>t h A t' h' A'. ex_table = Inr (t, h, A) \<and> bt_free (naive_cg_ops 10) h A t = Inr (t', h', A') \<and>
     \<not> bt_is_allocated t' \<and> naive_usable A' = naive_usable A - set (bl_blocks (bt_blocks t))"
proof -
  obtain t h A where ex: "ex_table = Inr (t, h, A)" "naive_cg_inv 10 2 h A"
    "bt_repr (naive_usable A) (naive_pools GPU) h t [5, 6, 7]"
    using ex_table_ok by auto
  have "\<not> isl (bindE ex_table (\<lambda>(t, h, A). bt_free (naive_cg_ops 10) h A t))" by code_simp
  then obtain t' h' A' where run: "bt_free (naive_cg_ops 10) h A t = Inr (t', h', A')"
    unfolding ex(1) by (auto dest!: not_isl)
  from block_table_free [OF ex(2-) run] ex(1) run show ?thesis by blast
qed

lemma blocks_touched_nonempty:
  assumes "0 < bt_block_size t" "chunk_token_blocks_for_append t ts = Inr cs" "n + look = length ts" and nonempty: "ts \<noteq> []"
  shows "get_num_blocks_touched_by_append_slots t n look = Inr (int (length cs))"
proof -
  define bs where "bs = bt_block_size t"
  define K where "K = bs - bt_num_full_slots t mod bs"
  have bs: "0 < bs" using assms(1) by (simp add: bs_def)
  have k: "int bs - int (bt_num_full_slots t mod bs) = int K" using bs by (simp add: K_def of_nat_diff)
  have K: "K \<le> bs" "0 < length ts" using nonempty by (simp_all add: K_def)
  have cs: "cs = take K ts # chunks bs (drop K ts)"
    using assms nonempty bs by (auto simp: chunk_token_blocks_for_append_def Let_def chunk_list_chunks K_def bs_def)
  have "\<lceil>real_of_int (int (length ts) - int K) / real bs\<rceil> = cdiv (int (length ts) - int K) (int bs)"
    using ceiling_divide_eq_cdiv [of "int (length ts) - int K" "int bs"] by simp
  also have "\<dots> = int (length (chunks bs (drop K ts)))"
  proof (cases "K < length ts")
    case True
    then have "int (length ts) - int K = int (length (drop K ts))" by simp
    then show ?thesis using bs by (simp only: cdiv_nat length_chunks)
  next
    case False
    then have "drop K ts = []" by simp
    moreover have "0 \<le> int K - int (length ts)" "int K - int (length ts) < int bs"
      using False K by linarith+
    then have "(int K - int (length ts)) div int bs = 0" by (rule div_pos_pos_trivial)
    ultimately show ?thesis unfolding cdiv_def by (simp add: div_minus_right)
  qed
  finally have "\<lceil>real_of_int (int (length ts) - int K) / real bs\<rceil> = int (length (chunks bs (drop K ts)))" .
  then show ?thesis
    using bs unfolding get_num_blocks_touched_by_append_slots_def bs_def [symmetric] k assms(3) Let_def cs
    by simp
qed



end
