(* ===== verification/Sequence.thy ===== *)
theory Sequence
  imports Block_Common
begin

text \<open>
  \<open>vllm/sequence.py\<close>: the data of a sequence (\<open>SequenceData\<close>) with the deltas sent to the workers,
  \<open>Sequence\<close>, and \<open>SequenceGroup\<close>. Lengths of token lists are natural numbers; the number of computed
  tokens is an \<open>int\<close>, because the code adds any number to it. Token ids are taken to fit the
  64-bit arrays that hold them. Prompt text, multi-modal data, prompt adapters and trace headers are
  carried along by the code without being looked at and are left out.
\<close>

section \<open>Status and stage\<close>

datatype seq_status =
    WAITING | RUNNING | SWAPPED
  | FINISHED_STOPPED | FINISHED_LENGTH_CAPPED | FINISHED_ABORTED | FINISHED_IGNORED

fun status_value :: "seq_status \<Rightarrow> nat" where
  "status_value WAITING = 0"
| "status_value RUNNING = 1"
| "status_value SWAPPED = 2"
| "status_value FINISHED_STOPPED = 3"
| "status_value FINISHED_LENGTH_CAPPED = 4"
| "status_value FINISHED_ABORTED = 5"
| "status_value FINISHED_IGNORED = 6"

definition status_is_finished :: "seq_status \<Rightarrow> bool" where
  "status_is_finished status \<longleftrightarrow> status_value status > status_value SWAPPED"

fun get_finished_reason :: "seq_status \<Rightarrow> string option" where
  "get_finished_reason FINISHED_STOPPED = Some ''stop''"
| "get_finished_reason FINISHED_LENGTH_CAPPED = Some ''length''"
| "get_finished_reason FINISHED_ABORTED = Some ''abort''"
| "get_finished_reason FINISHED_IGNORED = Some ''length''"
| "get_finished_reason _ = None"

lemma finished_reason_iff: "get_finished_reason st \<noteq> None \<longleftrightarrow> status_is_finished st"
  by (cases st) (simp_all add: status_is_finished_def)

lemma unfinished_statuses [simp]:
  "\<not> status_is_finished WAITING" "\<not> status_is_finished RUNNING" "\<not> status_is_finished SWAPPED"
  "status_is_finished FINISHED_ABORTED" "status_is_finished FINISHED_IGNORED"
  by (simp_all add: status_is_finished_def)

datatype stage = PREFILL | DECODE

section \<open>SequenceData\<close>

record seq_data =
  sd_prompt_token_ids :: "token_id list"
  sd_output_token_ids :: "token_id list"
  sd_cumulative_logprob :: real
  sd_prompt_token_ids_tuple :: "token_id list"
  sd_num_computed_tokens :: int
  sd_stage :: stage
  sd_cached_all_token_ids :: "token_id list"
  sd_new_appended_tokens :: "token_id list"

record seq_data_delta =
  dl_new_output_token_ids :: "token_id list"
  dl_new_cumulative_logprob :: real
  dl_new_num_computed_tokens :: int
  dl_new_stage :: stage

definition update_cached_all_tokens :: "seq_data \<Rightarrow> seq_data" where
  "update_cached_all_tokens d =
     d\<lparr>sd_cached_all_token_ids := sd_prompt_token_ids d @ sd_output_token_ids d\<rparr>"

text \<open>Construction with \<open>__post_init__\<close>.\<close>

definition seq_data_init :: "token_id list \<Rightarrow> token_id list \<Rightarrow> seq_data" where
  "seq_data_init prompt output =
     update_cached_all_tokens
       \<lparr>sd_prompt_token_ids = prompt, sd_output_token_ids = output, sd_cumulative_logprob = 0,
        sd_prompt_token_ids_tuple = prompt, sd_num_computed_tokens = 0, sd_stage = PREFILL,
        sd_cached_all_token_ids = [], sd_new_appended_tokens = []\<rparr>"

definition from_seqs :: "token_id list \<Rightarrow> token_id list option \<Rightarrow> seq_data" where
  "from_seqs prompt output = seq_data_init prompt (case output of None \<Rightarrow> [] | Some ts \<Rightarrow> ts)"

definition from_token_counts :: "(token_id \<times> nat) list \<Rightarrow> seq_data" where
  "from_token_counts counts =
     (if counts = [] then from_seqs [] None
      else seq_data_init (concat (map (\<lambda>(token_id, count). replicate count token_id) counts)) [])"

definition set_output_token_ids :: "token_id list \<Rightarrow> seq_data \<Rightarrow> seq_data" where
  "set_output_token_ids new_output d = update_cached_all_tokens (d\<lparr>sd_output_token_ids := new_output\<rparr>)"

definition sd_append_token_id :: "token_id \<Rightarrow> real \<Rightarrow> seq_data \<Rightarrow> seq_data" where
  "sd_append_token_id token_id logprob d =
     d\<lparr>sd_output_token_ids := sd_output_token_ids d @ [token_id],
       sd_new_appended_tokens := sd_new_appended_tokens d @ [token_id],
       sd_cached_all_token_ids := sd_cached_all_token_ids d @ [token_id],
       sd_cumulative_logprob := sd_cumulative_logprob d + logprob\<rparr>"

definition sd_get_len :: "seq_data \<Rightarrow> nat" where
  "sd_get_len d = length (sd_output_token_ids d) + length (sd_prompt_token_ids d)"

definition sd_get_prompt_len :: "seq_data \<Rightarrow> nat" where
  "sd_get_prompt_len d = length (sd_prompt_token_ids d)"

definition sd_get_output_len :: "seq_data \<Rightarrow> nat" where
  "sd_get_output_len d = length (sd_output_token_ids d)"

definition sd_get_token_ids :: "seq_data \<Rightarrow> token_id list" where
  "sd_get_token_ids d = sd_cached_all_token_ids d"

definition get_prefix_token_ids :: "nat \<Rightarrow> seq_data \<Rightarrow> token_id list \<times> token_id list option" where
  "get_prefix_token_ids num_tokens d =
     (let prompt_length = sd_get_prompt_len d in
      if num_tokens > prompt_length
      then (sd_prompt_token_ids_tuple d, Some (take (num_tokens - prompt_length) (sd_output_token_ids d)))
      else (take num_tokens (sd_prompt_token_ids_tuple d), None))"

definition sd_get_num_uncomputed_tokens :: "seq_data \<Rightarrow> int" where
  "sd_get_num_uncomputed_tokens d = int (sd_get_len d) - sd_num_computed_tokens d"

definition sd_update_num_computed_tokens :: "int \<Rightarrow> seq_data \<Rightarrow> py_error + seq_data" where
  "sd_update_num_computed_tokens num_new d =
     (let d = d\<lparr>sd_num_computed_tokens := sd_num_computed_tokens d + num_new\<rparr> in
      bindE (py_assert (sd_num_computed_tokens d \<le> int (sd_get_len d))) (\<lambda>_.
      Inr (if sd_get_num_uncomputed_tokens d = 0 then d\<lparr>sd_stage := DECODE\<rparr> else d)))"

definition sd_reset_state_for_recompute :: "seq_data \<Rightarrow> seq_data" where
  "sd_reset_state_for_recompute d =
     d\<lparr>sd_num_computed_tokens := 0, sd_stage := PREFILL, sd_new_appended_tokens := []\<rparr>"

definition sd_get_last_token_id :: "seq_data \<Rightarrow> py_error + token_id" where
  "sd_get_last_token_id d =
     (if sd_output_token_ids d = []
      then bindE (raise_unless IndexError (sd_prompt_token_ids d \<noteq> [])) (\<lambda>_. Inr (last (sd_prompt_token_ids d)))
      else Inr (last (sd_output_token_ids d)))"

definition get_delta_and_reset :: "seq_data \<Rightarrow> seq_data_delta \<times> seq_data" where
  "get_delta_and_reset d =
     (\<lparr>dl_new_output_token_ids = sd_new_appended_tokens d, dl_new_cumulative_logprob = sd_cumulative_logprob d,
       dl_new_num_computed_tokens = sd_num_computed_tokens d, dl_new_stage = sd_stage d\<rparr>,
      d\<lparr>sd_new_appended_tokens := []\<rparr>)"

definition apply_delta :: "seq_data_delta \<Rightarrow> seq_data \<Rightarrow> seq_data" where
  "apply_delta delta d =
     d\<lparr>sd_num_computed_tokens := dl_new_num_computed_tokens delta,
       sd_cumulative_logprob := dl_new_cumulative_logprob delta,
       sd_stage := dl_new_stage delta,
       sd_output_token_ids := sd_output_token_ids d @ dl_new_output_token_ids delta,
       sd_cached_all_token_ids := sd_cached_all_token_ids d @ dl_new_output_token_ids delta\<rparr>"

section \<open>Sequence\<close>

record lora_request =
  lr_lora_int_id :: nat
  lr_long_lora_max_len :: "nat option"

text \<open>Text is a list of code points, as a \<open>str\<close> of Python is.\<close>

type_synonym py_text = "int list"

datatype stop_reason = Stop_token token_id | Stop_string py_text

record logprob =
  lp_logprob :: real
  lp_rank :: "nat option"
  lp_decoded_token :: "py_text option"

record sequence =
  sq_seq_id :: nat
  sq_block_size :: nat
  sq_lora_request :: "lora_request option"
  sq_data :: seq_data
  sq_output_logprobs :: "(token_id \<times> logprob) list list"
  sq_output_text :: py_text
  sq_status :: seq_status
  sq_last_output_token_ids_offset :: nat
  sq_last_output_text_offset :: nat
  sq_eos_token_id :: "token_id option"
  sq_stop_reason :: "stop_reason option"
  sq_prefix_offset :: nat
  sq_read_offset :: nat
  sq_tokens :: "py_text list option"

text \<open>
  \<open>Sequence.__init__\<close>: the prompt is that of the decoder or of the encoder; an encoder sequence of
  inputs without encoder prompt is a \<open>ValueError\<close>.
\<close>

record llm_inputs =
  li_prompt_token_ids :: "token_id list"
  li_encoder_prompt_token_ids :: "token_id list option"

definition sequence_init ::
  "nat \<Rightarrow> llm_inputs \<Rightarrow> nat \<Rightarrow> token_id option \<Rightarrow> lora_request option \<Rightarrow> bool \<Rightarrow> py_error + sequence" where
  "sequence_init seq_id inputs block_size eos_token_id lora_request from_decoder_prompt =
     bindE (raise_unless ValueError (from_decoder_prompt \<or> li_encoder_prompt_token_ids inputs \<noteq> None)) (\<lambda>_.
     let prompt = (if from_decoder_prompt then li_prompt_token_ids inputs
                   else the (li_encoder_prompt_token_ids inputs)) in
     Inr \<lparr>sq_seq_id = seq_id, sq_block_size = block_size, sq_lora_request = lora_request,
          sq_data = from_seqs prompt None, sq_output_logprobs = [], sq_output_text = [], sq_status = WAITING,
          sq_last_output_token_ids_offset = 0, sq_last_output_text_offset = 0, sq_eos_token_id = eos_token_id,
          sq_stop_reason = None, sq_prefix_offset = 0, sq_read_offset = 0, sq_tokens = None\<rparr>)"

definition sq_get_len :: "sequence \<Rightarrow> nat" where
  "sq_get_len s = sd_get_len (sq_data s)"

definition n_blocks :: "sequence \<Rightarrow> py_error + nat" where
  "n_blocks s =
     bindE (raise_unless ZeroDivisionError (sq_block_size s \<noteq> 0)) (\<lambda>_.
     Inr ((sq_get_len s + sq_block_size s - 1) div sq_block_size s))"

definition sq_lora_int_id :: "sequence \<Rightarrow> nat" where
  "sq_lora_int_id s = (case sq_lora_request s of None \<Rightarrow> 0 | Some l \<Rightarrow> lr_lora_int_id l)"

definition sq_is_finished :: "sequence \<Rightarrow> bool" where
  "sq_is_finished s = status_is_finished (sq_status s)"

definition get_output_text_to_return :: "nat \<Rightarrow> bool \<Rightarrow> sequence \<Rightarrow> py_text \<times> sequence" where
  "get_output_text_to_return buffer_length delta s =
     (let truncate = (buffer_length \<noteq> 0 \<and> \<not> sq_is_finished s) in
      if \<not> delta
      then (if truncate then take (length (sq_output_text s) - buffer_length) (sq_output_text s)
            else sq_output_text s, s)
      else let len = int (length (sq_output_text s)) - (if truncate then int buffer_length else 0);
               last_offset = sq_last_output_text_offset s
           in if int last_offset < len
              then (drop last_offset (take (nat len) (sq_output_text s)), s\<lparr>sq_last_output_text_offset := nat len\<rparr>)
              else ([], s))"

text \<open>
  A single new token is returned as an \<open>int\<close> and not as a list (here a list of one). Else the result is
  \<open>xs[-k:]\<close>, where \<open>k = 0\<close> gives \<open>xs[0:]\<close>, the whole list. The offset never exceeds the output length
  unless the output was replaced by a shorter one; then \<open>num_new_tokens\<close> is negative, and \<open>xs[k:]\<close>
  drops that many tokens.
\<close>

definition last_slice :: "int \<Rightarrow> 'a list \<Rightarrow> 'a list" where
  "last_slice k xs = (if k > 0 then drop (length xs - nat k) xs else drop (nat (- k)) xs)"

definition get_output_token_ids_to_return :: "bool \<Rightarrow> sequence \<Rightarrow> py_error + (token_id list \<times> sequence)" where
  "get_output_token_ids_to_return delta s =
     (if \<not> delta then Inr (sd_output_token_ids (sq_data s), s)
      else let output_len = sd_get_output_len (sq_data s);
               num_new_tokens = int output_len - int (sq_last_output_token_ids_offset s);
               s = s\<lparr>sq_last_output_token_ids_offset := output_len\<rparr>;
               cached = sd_cached_all_token_ids (sq_data s)
           in if num_new_tokens = 1
              then bindE (raise_unless IndexError (cached \<noteq> [])) (\<lambda>_. Inr ([last cached], s))
              else Inr (last_slice num_new_tokens cached, s))"

definition num_hashed_tokens_of_block :: "nat \<Rightarrow> sequence \<Rightarrow> nat" where
  "num_hashed_tokens_of_block logical_idx s = logical_idx * sq_block_size s + sq_block_size s"

definition sq_reset_state_for_recompute :: "sequence \<Rightarrow> sequence" where
  "sq_reset_state_for_recompute s = s\<lparr>sq_data := sd_reset_state_for_recompute (sq_data s)\<rparr>"

definition sq_append_token_id :: "token_id \<Rightarrow> (token_id \<times> logprob) list \<Rightarrow> sequence \<Rightarrow> py_error + sequence" where
  "sq_append_token_id token_id logprobs s =
     bindE (from_option AssertionError (map_of logprobs token_id)) (\<lambda>logprob.
     Inr (s\<lparr>sq_output_logprobs := sq_output_logprobs s @ [logprobs],
            sq_data := sd_append_token_id token_id (lp_logprob logprob) (sq_data s)\<rparr>))"

definition sq_fork :: "nat \<Rightarrow> sequence \<Rightarrow> sequence" where
  "sq_fork new_seq_id s = s\<lparr>sq_seq_id := new_seq_id\<rparr>"

definition sq_get_num_new_tokens :: "sequence \<Rightarrow> int" where
  "sq_get_num_new_tokens s =
     (if sd_stage (sq_data s) = DECODE then 1 else sd_get_num_uncomputed_tokens (sq_data s))"

definition sq_is_prefill :: "sequence \<Rightarrow> bool" where
  "sq_is_prefill s \<longleftrightarrow> sd_stage (sq_data s) = PREFILL"

section \<open>SequenceGroup\<close>

record request_metrics =
  rm_arrival_time :: real
  rm_last_token_time :: real
  rm_first_scheduled_time :: "real option"
  rm_first_token_time :: "real option"
  rm_time_in_queue :: "real option"
  rm_finished_time :: "real option"
  rm_scheduler_time :: "real option"

record group_state =
  gs_num_steps :: nat
  gs_current_step :: nat

definition remaining_steps :: "group_state \<Rightarrow> int" where
  "remaining_steps st = int (gs_num_steps st) - int (gs_current_step st)"

text \<open>
  \<open>sg_best_of\<close> is \<open>sampling_params.best_of\<close>, \<open>None\<close> without sampling parameters. \<open>seqs_dict\<close> holds the
  sequences of \<open>seqs\<close> under their ids, so it is not a field of its own; of two sequences with the same
  id it holds the last one.
\<close>

record seq_group =
  sg_request_id :: string
  sg_seqs :: "sequence list"
  sg_arrival_time :: real
  sg_best_of :: "nat option"
  sg_lora_request :: "lora_request option"
  sg_metrics :: request_metrics
  sg_state :: group_state
  sg_encoder_seq :: "sequence option"
  sg_priority :: int
  sg_prompt_logprobs :: "(token_id \<times> logprob) list option list option"

definition seq_group_init ::
  "string \<Rightarrow> sequence list \<Rightarrow> real \<Rightarrow> nat option \<Rightarrow> lora_request option \<Rightarrow> sequence option \<Rightarrow> int \<Rightarrow> seq_group" where
  "seq_group_init request_id seqs arrival_time best_of lora_request encoder_seq priority =
     \<lparr>sg_request_id = request_id, sg_seqs = seqs, sg_arrival_time = arrival_time, sg_best_of = best_of,
      sg_lora_request = lora_request,
      sg_metrics = \<lparr>rm_arrival_time = arrival_time, rm_last_token_time = arrival_time, rm_first_scheduled_time = None,
        rm_first_token_time = None, rm_time_in_queue = None, rm_finished_time = None, rm_scheduler_time = None\<rparr>,
      sg_state = \<lparr>gs_num_steps = 1, gs_current_step = 0\<rparr>, sg_encoder_seq = encoder_seq, sg_priority = priority,
      sg_prompt_logprobs = None\<rparr>"

definition sg_is_single_seq :: "seq_group \<Rightarrow> bool" where
  "sg_is_single_seq g \<longleftrightarrow> length (sg_seqs g) = 1"

definition sg_lora_int_id :: "seq_group \<Rightarrow> nat" where
  "sg_lora_int_id g = (case sg_lora_request g of None \<Rightarrow> 0 | Some l \<Rightarrow> lr_lora_int_id l)"

definition sg_is_prefill :: "seq_group \<Rightarrow> py_error + bool" where
  "sg_is_prefill g =
     bindE (raise_unless IndexError (sg_seqs g \<noteq> [])) (\<lambda>_. Inr (sq_is_prefill (hd (sg_seqs g))))"

definition init_multi_step :: "nat \<Rightarrow> seq_group \<Rightarrow> seq_group" where
  "init_multi_step num_steps g = g\<lparr>sg_state := \<lparr>gs_num_steps = num_steps, gs_current_step = 0\<rparr>\<rparr>"

definition init_multi_step_from_lookahead_slots ::
  "nat \<Rightarrow> nat \<Rightarrow> bool \<Rightarrow> bool \<Rightarrow> seq_group \<Rightarrow> py_error + seq_group" where
  "init_multi_step_from_lookahead_slots num_lookahead_slots num_scheduler_steps is_multi_step enable_chunking g =
     (if \<not> is_multi_step then Inr (init_multi_step num_scheduler_steps g)
      else bindE (sg_is_prefill g) (\<lambda>is_prefill.
           if is_prefill \<and> enable_chunking
           then bindE (py_assert (num_lookahead_slots = num_scheduler_steps)) (\<lambda>_.
                Inr (init_multi_step num_lookahead_slots g))
           else bindE (py_assert (num_lookahead_slots = 0 \<or> \<not> is_prefill)) (\<lambda>_.
                bindE (py_assert (num_lookahead_slots + 1 = num_scheduler_steps \<or> is_prefill)) (\<lambda>_.
                Inr (init_multi_step (num_lookahead_slots + 1) g)))))"

definition get_last_latency :: "real \<Rightarrow> seq_group \<Rightarrow> py_error + (real \<times> seq_group)" where
  "get_last_latency now g =
     bindE (sg_is_prefill g) (\<lambda>is_prefill.
     bindE (raise_unless ValueError (\<not> is_prefill)) (\<lambda>_.
     Inr (now - rm_last_token_time (sg_metrics g), g\<lparr>sg_metrics := (sg_metrics g)\<lparr>rm_last_token_time := now\<rparr>\<rparr>)))"

definition maybe_set_first_token_time :: "real \<Rightarrow> seq_group \<Rightarrow> py_error + seq_group" where
  "maybe_set_first_token_time time g =
     (if rm_first_token_time (sg_metrics g) \<noteq> None then Inr g
      else bindE (raise_unless IndexError (sg_seqs g \<noteq> [])) (\<lambda>_.
           Inr (if sd_get_output_len (sq_data (hd (sg_seqs g))) = 1
                then g\<lparr>sg_metrics := (sg_metrics g)\<lparr>rm_first_token_time := Some time\<rparr>\<rparr> else g)))"

definition maybe_set_first_scheduled_time :: "real \<Rightarrow> seq_group \<Rightarrow> seq_group" where
  "maybe_set_first_scheduled_time time g =
     (if rm_first_scheduled_time (sg_metrics g) = None
      then g\<lparr>sg_metrics := (sg_metrics g)\<lparr>rm_first_scheduled_time := Some time,
             rm_time_in_queue := Some (time - rm_arrival_time (sg_metrics g))\<rparr>\<rparr>
      else g)"

definition set_finished_time :: "real option \<Rightarrow> seq_group \<Rightarrow> seq_group" where
  "set_finished_time time g = g\<lparr>sg_metrics := (sg_metrics g)\<lparr>rm_finished_time := time\<rparr>\<rparr>"

definition sg_get_seqs :: "seq_status option \<Rightarrow> seq_group \<Rightarrow> sequence list" where
  "sg_get_seqs status g =
     (case status of
        None \<Rightarrow> sg_seqs g
      | Some st \<Rightarrow>
          if sg_is_single_seq g then (if sq_status (hd (sg_seqs g)) = st then sg_seqs g else [])
          else filter (\<lambda>s. sq_status s = st) (sg_seqs g))"

definition get_unfinished_seqs :: "seq_group \<Rightarrow> sequence list" where
  "get_unfinished_seqs g =
     (if sg_is_single_seq g then (if \<not> sq_is_finished (hd (sg_seqs g)) then sg_seqs g else [])
      else filter (\<lambda>s. \<not> sq_is_finished s) (sg_seqs g))"

definition get_finished_seqs :: "seq_group \<Rightarrow> sequence list" where
  "get_finished_seqs g =
     (if sg_is_single_seq g then (if sq_is_finished (hd (sg_seqs g)) then sg_seqs g else [])
      else filter sq_is_finished (sg_seqs g))"

definition num_seqs :: "seq_status option \<Rightarrow> seq_group \<Rightarrow> nat" where
  "num_seqs status g =
     (case status of
        None \<Rightarrow> length (sg_seqs g)
      | Some st \<Rightarrow> if sg_is_single_seq g then (if sq_status (hd (sg_seqs g)) = st then 1 else 0)
                   else length (sg_get_seqs status g))"

definition num_unfinished_seqs :: "seq_group \<Rightarrow> nat" where
  "num_unfinished_seqs g =
     (if sg_is_single_seq g then (if \<not> sq_is_finished (hd (sg_seqs g)) then 1 else 0)
      else length (get_unfinished_seqs g))"

definition num_finished_seqs :: "seq_group \<Rightarrow> nat" where
  "num_finished_seqs g =
     (if sg_is_single_seq g then (if sq_is_finished (hd (sg_seqs g)) then 1 else 0)
      else length (get_finished_seqs g))"

definition get_max_num_running_seqs :: "seq_group \<Rightarrow> nat" where
  "get_max_num_running_seqs g =
     (case sg_best_of g of
        Some best_of \<Rightarrow> if best_of > num_seqs None g then best_of else num_unfinished_seqs g
      | None \<Rightarrow> num_unfinished_seqs g)"

definition is_encoder_decoder :: "seq_group \<Rightarrow> bool" where
  "is_encoder_decoder g \<longleftrightarrow> sg_encoder_seq g \<noteq> None"

text \<open>A loop over the sequences that may raise, with the updated sequences put back.\<close>

fun map_seqsE :: "(sequence \<Rightarrow> py_error + sequence) \<Rightarrow> sequence list \<Rightarrow> py_error + sequence list" where
  "map_seqsE f [] = Inr []"
| "map_seqsE f (s # ss) = bindE (f s) (\<lambda>s. bindE (map_seqsE f ss) (\<lambda>ss. Inr (s # ss)))"

definition sg_update_num_computed_tokens :: "int \<Rightarrow> seq_group \<Rightarrow> py_error + seq_group" where
  "sg_update_num_computed_tokens num_new g =
     bindE (map_seqsE (\<lambda>s. if sq_is_finished s then Inr s
                      else bindE (sd_update_num_computed_tokens num_new (sq_data s)) (\<lambda>d. Inr (s\<lparr>sq_data := d\<rparr>)))
            (sg_seqs g)) (\<lambda>ss. Inr (g\<lparr>sg_seqs := ss\<rparr>))"

definition sg_get_num_uncomputed_tokens :: "seq_group \<Rightarrow> int" where
  "sg_get_num_uncomputed_tokens g =
     sum_list (map (\<lambda>s. if sq_is_finished s then 0 else sd_get_num_uncomputed_tokens (sq_data s)) (sg_seqs g))"

definition sg_find :: "nat \<Rightarrow> seq_group \<Rightarrow> py_error + sequence" where
  "sg_find seq_id g = from_option ValueError (find (\<lambda>s. sq_seq_id s = seq_id) (rev (sg_seqs g)))"

definition sg_add :: "sequence \<Rightarrow> seq_group \<Rightarrow> py_error + seq_group" where
  "sg_add seq g =
     bindE (raise_unless ValueError (sq_seq_id seq \<notin> sq_seq_id ` set (sg_seqs g))) (\<lambda>_.
     Inr (g\<lparr>sg_seqs := sg_seqs g @ [seq]\<rparr>))"

text \<open>Removal from the dictionary and of that object from the list; the ids of a group are distinct.\<close>

definition sg_remove :: "nat \<Rightarrow> seq_group \<Rightarrow> py_error + seq_group" where
  "sg_remove seq_id g =
     bindE (raise_unless ValueError (seq_id \<in> sq_seq_id ` set (sg_seqs g))) (\<lambda>_.
     Inr (g\<lparr>sg_seqs := filter (\<lambda>s. sq_seq_id s \<noteq> seq_id) (sg_seqs g)\<rparr>))"

definition sg_is_finished :: "seq_group \<Rightarrow> bool" where
  "sg_is_finished g =
     (if sg_is_single_seq g then sq_is_finished (hd (sg_seqs g)) else list_all sq_is_finished (sg_seqs g))"

section \<open>Basic facts\<close>

lemma single_seq: "sg_is_single_seq g \<Longrightarrow> \<exists>s. sg_seqs g = [s]"
  by (auto simp: sg_is_single_seq_def length_Suc_conv)

text \<open>The fast paths for a single sequence agree with the general ones.\<close>

lemma sg_get_seqs_filter: "sg_get_seqs (Some st) g = filter (\<lambda>s. sq_status s = st) (sg_seqs g)"
  by (auto simp: sg_get_seqs_def dest: single_seq)

lemma get_unfinished_seqs_filter: "get_unfinished_seqs g = filter (\<lambda>s. \<not> sq_is_finished s) (sg_seqs g)"
  by (auto simp: get_unfinished_seqs_def dest: single_seq)

lemma num_unfinished_seqs_count: "num_unfinished_seqs g = length (filter (\<lambda>s. \<not> sq_is_finished s) (sg_seqs g))"
  by (auto simp: num_unfinished_seqs_def get_unfinished_seqs_filter dest: single_seq)

lemma sg_is_finished_iff: "sg_is_finished g \<longleftrightarrow> (\<forall>s\<in>set (sg_seqs g). sq_is_finished s)"
  by (auto simp: sg_is_finished_def list_all_iff dest: single_seq)

section \<open>The life of the data of a sequence\<close>

text \<open>The states that the operations reach from a non-empty prompt.\<close>

inductive seq_data_reach :: "seq_data \<Rightarrow> bool" where
  init: "prompt \<noteq> [] \<Longrightarrow> seq_data_reach (from_seqs prompt None)"
| append: "seq_data_reach d \<Longrightarrow> seq_data_reach (sd_append_token_id token_id logprob d)"
| computed: "seq_data_reach d \<Longrightarrow> 0 \<le> k \<Longrightarrow> sd_update_num_computed_tokens k d = Inr d' \<Longrightarrow> seq_data_reach d'"
| recompute: "seq_data_reach d \<Longrightarrow> seq_data_reach (sd_reset_state_for_recompute d)"
| delta: "seq_data_reach d \<Longrightarrow> seq_data_reach (snd (get_delta_and_reset d))"

definition seq_data_ok :: "seq_data \<Rightarrow> bool" where
  "seq_data_ok d \<longleftrightarrow> sd_cached_all_token_ids d = sd_prompt_token_ids d @ sd_output_token_ids d \<and>
     sd_prompt_token_ids_tuple d = sd_prompt_token_ids d \<and> sd_prompt_token_ids d \<noteq> [] \<and>
     0 \<le> sd_num_computed_tokens d \<and> sd_num_computed_tokens d \<le> int (sd_get_len d) \<and>
     (sd_stage d = PREFILL \<longrightarrow> sd_num_computed_tokens d < int (sd_get_len d))"

lemmas seq_data_defs = from_seqs_def seq_data_init_def update_cached_all_tokens_def sd_append_token_id_def
  sd_update_num_computed_tokens_def sd_reset_state_for_recompute_def get_delta_and_reset_def apply_delta_def
  sd_get_len_def sd_get_num_uncomputed_tokens_def

lemma seq_data_reach_ok: "seq_data_reach d \<Longrightarrow> seq_data_ok d"
proof (induction rule: seq_data_reach.induct)
  case (init prompt)
  then show ?case by (simp add: seq_data_ok_def seq_data_defs)
next
  case (computed d k d')
  then show ?case by (auto simp: seq_data_ok_def seq_data_defs Let_def split: if_splits)
next
  case (recompute d)
  then have "0 < length (sd_prompt_token_ids d)" by (simp add: seq_data_ok_def)
  then have "0 < int (sd_get_len d)" unfolding sd_get_len_def by linarith
  then show ?case using recompute.IH by (auto simp: seq_data_ok_def sd_reset_state_for_recompute_def sd_get_len_def)
qed (auto simp: seq_data_ok_def seq_data_defs)

definition ex_seq :: "nat \<Rightarrow> token_id list \<Rightarrow> sequence" where
  "ex_seq i prompt = \<lparr>sq_seq_id = i, sq_block_size = 4, sq_lora_request = None, sq_data = from_seqs prompt None,
     sq_output_logprobs = [], sq_output_text = [], sq_status = WAITING, sq_last_output_token_ids_offset = 0,
     sq_last_output_text_offset = 0, sq_eos_token_id = Some 2, sq_stop_reason = None, sq_prefix_offset = 0,
     sq_read_offset = 0, sq_tokens = None\<rparr>"

text \<open>
  The life of a sequence under the scheduler, with one token sampled per step: a step computes what it was
  granted, at most what \<open>get_num_new_tokens\<close> asks for; when everything is computed a token is sampled and
  appended, otherwise the prompt goes on in the next step (\<open>do_sample\<close> is then false). Between two steps it
  may be preempted for recomputation, and deltas may be sent.
\<close>

inductive sequence_reach :: "sequence \<Rightarrow> bool" where
  start: "sq_data s = from_seqs prompt None \<Longrightarrow> prompt \<noteq> [] \<Longrightarrow> sequence_reach s"
| chunk: "sequence_reach s \<Longrightarrow> 1 \<le> k \<Longrightarrow> k \<le> sq_get_num_new_tokens s \<Longrightarrow>
    sd_update_num_computed_tokens k (sq_data s) = Inr d \<Longrightarrow> sd_get_num_uncomputed_tokens d \<noteq> 0 \<Longrightarrow>
    sequence_reach (s\<lparr>sq_data := d\<rparr>)"
| sample: "sequence_reach s \<Longrightarrow> 1 \<le> k \<Longrightarrow> k \<le> sq_get_num_new_tokens s \<Longrightarrow>
    sd_update_num_computed_tokens k (sq_data s) = Inr d \<Longrightarrow> sd_get_num_uncomputed_tokens d = 0 \<Longrightarrow>
    sq_append_token_id token_id logprobs (s\<lparr>sq_data := d\<rparr>) = Inr s' \<Longrightarrow> sequence_reach s'"
| preempt: "sequence_reach s \<Longrightarrow> sequence_reach (sq_reset_state_for_recompute s)"
| send: "sequence_reach s \<Longrightarrow> sequence_reach (s\<lparr>sq_data := snd (get_delta_and_reset (sq_data s))\<rparr>)"

definition one_to_decode :: "seq_data \<Rightarrow> bool" where
  "one_to_decode d \<longleftrightarrow> seq_data_reach d \<and> (sd_stage d = DECODE \<longrightarrow> sd_get_num_uncomputed_tokens d = 1)"

lemma sequence_reach_data: "sequence_reach s \<Longrightarrow> one_to_decode (sq_data s)"
proof (induction rule: sequence_reach.induct)
  case (start s prompt)
  then show ?case by (simp add: one_to_decode_def seq_data_reach.init) (simp add: seq_data_defs)
next
  case (chunk s k d)
  then have "seq_data_reach d" by (auto simp: one_to_decode_def intro: seq_data_reach.computed [of "sq_data s" k])
  moreover have "sd_stage d = DECODE \<Longrightarrow> sd_stage (sq_data s) = DECODE \<and>
      sd_get_num_uncomputed_tokens d = sd_get_num_uncomputed_tokens (sq_data s) - k"
    using chunk.hyps(4,5) by (auto simp: sd_update_num_computed_tokens_def sd_get_num_uncomputed_tokens_def sd_get_len_def Let_def split: if_splits)
  ultimately show ?case using chunk by (auto simp: one_to_decode_def sq_get_num_new_tokens_def)
next
  case (sample s k d token_id logprobs s')
  then have "seq_data_reach d" by (auto simp: one_to_decode_def intro: seq_data_reach.computed [of "sq_data s" k])
  moreover obtain p where "sq_data s' = sd_append_token_id token_id p d"
    using sample.hyps(6) by (auto simp: sq_append_token_id_def)
  ultimately show ?case using sample.hyps(5)
    by (auto simp: one_to_decode_def sd_append_token_id_def sd_get_num_uncomputed_tokens_def sd_get_len_def
        dest: seq_data_reach.append [of d token_id p])
next
  case (preempt s)
  then show ?case by (simp add: one_to_decode_def sq_reset_state_for_recompute_def seq_data_reach.recompute)
    (simp add: sd_reset_state_for_recompute_def)
next
  case (send s)
  then show ?case by (simp add: one_to_decode_def seq_data_reach.delta)
    (simp add: get_delta_and_reset_def sd_get_num_uncomputed_tokens_def sd_get_len_def)
qed


text \<open>A prompt of three tokens in two chunks, one sampled token, and a preemption: four tokens to compute.\<close>

definition ex_preempted :: "py_error + sequence" where
  "ex_preempted =
     bindE (sd_update_num_computed_tokens 2 (from_seqs [5, 6, 7] None)) (\<lambda>d.
     bindE (sd_update_num_computed_tokens 1 d) (\<lambda>d.
     bindE (sq_append_token_id 8 [(8, \<lparr>lp_logprob = 0, lp_rank = None, lp_decoded_token = None\<rparr>)]
              ((ex_seq 0 [5, 6, 7])\<lparr>sq_data := d\<rparr>)) (\<lambda>s.
     Inr (sq_reset_state_for_recompute s))))"

lemma ex_preempted_reach: "\<exists>s. ex_preempted = Inr s \<and> sequence_reach s \<and> sd_get_num_uncomputed_tokens (sq_data s) = 4"
proof -
  let ?s0 = "ex_seq 0 [5, 6, 7]"
  have r0: "sequence_reach ?s0" by (rule sequence_reach.start [of _ "[5, 6, 7]"]) (simp_all add: ex_seq_def)
  obtain d1 where d1: "sd_update_num_computed_tokens 2 (sq_data ?s0) = Inr d1"
    and u1: "sd_get_num_uncomputed_tokens d1 = 1" "sd_stage d1 = PREFILL"
    by (simp add: ex_seq_def seq_data_defs py_assert_def)
  have r1: "sequence_reach (?s0\<lparr>sq_data := d1\<rparr>)"
    by (rule sequence_reach.chunk [OF r0 _ _ d1]) (use u1 in \<open>simp_all add: ex_seq_def seq_data_defs sq_get_num_new_tokens_def\<close>)
  let ?s1 = "?s0\<lparr>sq_data := d1\<rparr>"
  have e1: "d1 = (from_seqs [5, 6, 7] None)\<lparr>sd_num_computed_tokens := 2\<rparr>"
    using d1 by (simp add: ex_seq_def seq_data_defs py_assert_def)
  obtain d2 where d2: "sd_update_num_computed_tokens 1 (sq_data ?s1) = Inr d2" "sd_get_num_uncomputed_tokens d2 = 0"
    unfolding e1 by (simp add: ex_seq_def seq_data_defs py_assert_def)
  obtain s2 where s2: "sq_append_token_id 8 [(8, \<lparr>lp_logprob = 0, lp_rank = None, lp_decoded_token = None\<rparr>)] (?s1\<lparr>sq_data := d2\<rparr>) = Inr s2"
    by (simp add: sq_append_token_id_def)
  have r2: "sequence_reach s2"
    by (rule sequence_reach.sample [OF r1 _ _ d2 s2]) (use u1 in \<open>simp_all add: sq_get_num_new_tokens_def\<close>)
  have e: "ex_preempted = Inr (sq_reset_state_for_recompute s2)"
    using d1 d2 s2 by (simp add: ex_preempted_def ex_seq_def)
  have "sd_get_num_uncomputed_tokens (sq_data (sq_reset_state_for_recompute s2)) = 4"
    using s2 d2 unfolding e1
    by (auto simp: ex_seq_def seq_data_defs sq_append_token_id_def sq_reset_state_for_recompute_def py_assert_def)
  then show ?thesis using e sequence_reach.preempt [OF r2] by blast
qed


section \<open>The worker's copy\<close>

text \<open>
  What \<open>Scheduler.schedule\<close> sends when \<open>send_delta_data\<close> is set: the whole data at the first prefill,
  else the delta; the worker has no copy (\<open>None\<close>) before the first message.
\<close>

definition send_to_worker :: "seq_data \<Rightarrow> seq_data option \<Rightarrow> py_error + (seq_data \<times> seq_data)" where
  "send_to_worker d w =
     (if sd_stage d = PREFILL \<and> sd_num_computed_tokens d = 0 then Inr (d, d)
      else let (delta, d) = get_delta_and_reset d in
           bindE (from_option KeyError w) (\<lambda>w. Inr (d, apply_delta delta w)))"

text \<open>
  The rounds of a sequence: it may be preempted for recomputation before a round; a round sends the
  data, computes at least one token and then appends the sampled tokens, if any.
\<close>

inductive worker_reach :: "seq_data \<Rightarrow> seq_data option \<Rightarrow> bool" where
  init: "worker_reach (from_seqs prompt None) None"
| preempt: "worker_reach d w \<Longrightarrow> worker_reach (sd_reset_state_for_recompute d) w"
| round: "worker_reach d w \<Longrightarrow> send_to_worker d w = Inr (d', w') \<Longrightarrow> 1 \<le> k \<Longrightarrow>
    sd_update_num_computed_tokens k d' = Inr d'' \<Longrightarrow>
    worker_reach (fold (\<lambda>(t, p). sd_append_token_id t p) toks d'') (Some w')"

definition behind :: "seq_data \<Rightarrow> seq_data option \<Rightarrow> bool" where
  "behind d w \<longleftrightarrow> 0 \<le> sd_num_computed_tokens d \<and>
     (if sd_stage d = PREFILL \<and> sd_num_computed_tokens d = 0 then sd_new_appended_tokens d = []
      else \<exists>v. w = Some v \<and> sd_prompt_token_ids v = sd_prompt_token_ids d \<and>
        sd_prompt_token_ids_tuple v = sd_prompt_token_ids_tuple d \<and>
        sd_output_token_ids d = sd_output_token_ids v @ sd_new_appended_tokens d \<and>
        sd_cached_all_token_ids d = sd_cached_all_token_ids v @ sd_new_appended_tokens d)"

definition in_sync :: "seq_data \<Rightarrow> seq_data \<Rightarrow> bool" where
  "in_sync d w \<longleftrightarrow> w\<lparr>sd_new_appended_tokens := []\<rparr> = d\<lparr>sd_new_appended_tokens := []\<rparr>"

lemma in_sync_fields:
  "in_sync d w \<longleftrightarrow> sd_prompt_token_ids w = sd_prompt_token_ids d \<and> sd_output_token_ids w = sd_output_token_ids d \<and>
     sd_cumulative_logprob w = sd_cumulative_logprob d \<and> sd_prompt_token_ids_tuple w = sd_prompt_token_ids_tuple d \<and>
     sd_num_computed_tokens w = sd_num_computed_tokens d \<and> sd_stage w = sd_stage d \<and>
     sd_cached_all_token_ids w = sd_cached_all_token_ids d"
  unfolding in_sync_def by (cases d, cases w) auto

lemma send_in_sync:
  assumes "behind d w"
  shows "\<exists>d' w'. send_to_worker d w = Inr (d', w') \<and> in_sync d' w' \<and> sd_new_appended_tokens d' = [] \<and>
    0 \<le> sd_num_computed_tokens d'"
  using assms
  by (auto simp: behind_def send_to_worker_def in_sync_fields get_delta_and_reset_def apply_delta_def split: if_splits)

lemma fold_append_behind:
  "behind d w \<Longrightarrow> \<not> (sd_stage d = PREFILL \<and> sd_num_computed_tokens d = 0) \<Longrightarrow>
     behind (fold (\<lambda>(t, p). sd_append_token_id t p) toks d) w"
proof (induction toks arbitrary: d)
  case (Cons x toks)
  obtain t p where x: "x = (t, p)" by (cases x)
  have "behind (sd_append_token_id t p d) w" using Cons.prems unfolding behind_def sd_append_token_id_def by auto
  then show ?case using Cons x by (simp add: sd_append_token_id_def)
qed simp

lemma worker_reach_behind: "worker_reach d w \<Longrightarrow> behind d w"
proof (induction rule: worker_reach.induct)
  case (round d w d' w' k d'' toks)
  have s: "in_sync d' w'" "sd_new_appended_tokens d' = []" "0 \<le> sd_num_computed_tokens d'"
    using send_in_sync [OF round.IH] round.hyps(2) by auto
  have d'': "sd_num_computed_tokens d'' = sd_num_computed_tokens d' + k" "sd_new_appended_tokens d'' = []"
    "sd_prompt_token_ids d'' = sd_prompt_token_ids d'" "sd_output_token_ids d'' = sd_output_token_ids d'"
    "sd_cached_all_token_ids d'' = sd_cached_all_token_ids d'" "sd_prompt_token_ids_tuple d'' = sd_prompt_token_ids_tuple d'"
    using round.hyps(4) s(2) by (auto simp: sd_update_num_computed_tokens_def Let_def split: if_splits)
  have "behind d'' (Some w')" using d'' s round.hyps(3) by (simp add: behind_def in_sync_fields)
  then show ?case by (rule fold_append_behind) (use d'' s(3) round.hyps(3) in linarith)
qed (auto simp: behind_def seq_data_defs)

text \<open>
  C18. Deltas are enough: in every history of rounds and preemptions the message of the next round can
  be applied, and after it the worker's copy agrees with the scheduler's data in every field.
\<close>

theorem delta_keeps_worker_in_sync:
  assumes "worker_reach d w"
  shows "\<exists>d' w'. send_to_worker d w = Inr (d', w') \<and> in_sync d' w'"
  using send_in_sync [OF worker_reach_behind [OF assms]] by blast

theorem delta_keeps_worker_in_sync_witness:
  "\<exists>d' w'. send_to_worker (from_seqs [1, 2] None) None = Inr (d', w') \<and> in_sync d' w'"
  by (rule delta_keeps_worker_in_sync) (rule worker_reach.init)

text \<open>
  Delta output: a call that follows the production of at least one token returns exactly the new
  tokens; a call without a new token returns the whole prompt and output instead of nothing.
\<close>

lemma delta_output_tokens:
  assumes "sd_cached_all_token_ids (sq_data s) = sd_prompt_token_ids (sq_data s) @ sd_output_token_ids (sq_data s)"
    and "sq_last_output_token_ids_offset s \<le> sd_get_output_len (sq_data s)"
  shows "\<exists>s'. get_output_token_ids_to_return True s =
      Inr (if sq_last_output_token_ids_offset s < sd_get_output_len (sq_data s)
           then drop (sq_last_output_token_ids_offset s) (sd_output_token_ids (sq_data s))
           else sd_prompt_token_ids (sq_data s) @ sd_output_token_ids (sq_data s), s') \<and>
    sq_last_output_token_ids_offset s' = sd_get_output_len (sq_data s) \<and> sq_data s' = sq_data s"
proof -
  let ?k = "sq_last_output_token_ids_offset s" let ?out = "sd_output_token_ids (sq_data s)"
  have "drop ?k ?out = [last (sd_cached_all_token_ids (sq_data s))]" if "length ?out = Suc ?k"
  proof -
    have "drop ?k ?out = [?out ! ?k]" using that by (metis Cons_nth_drop_Suc drop_all lessI order_refl)
    moreover have "last ?out = ?out ! ?k" using that by (metis diff_Suc_1 last_conv_nth length_0_conv nat.distinct(1))
    moreover have "?out \<noteq> []" using that by auto
    ultimately show ?thesis using assms(1) by simp
  qed
  moreover have "last_slice (int (length ?out) - int ?k) (sd_cached_all_token_ids (sq_data s)) =
      (if ?k < length ?out then drop ?k ?out else sd_cached_all_token_ids (sq_data s))"
    using assms by (auto simp: last_slice_def sd_get_output_len_def nat_diff_distrib)
  ultimately show ?thesis using assms
    by (auto simp: get_output_token_ids_to_return_def Let_def sd_get_output_len_def)
qed

lemma delta_output_tokens_witness:
  "\<exists>s'. get_output_token_ids_to_return True (ex_seq 0 [5, 6]) = Inr ([5, 6], s')"
  using delta_output_tokens [of "ex_seq 0 [5, 6]"]
  by (auto simp: ex_seq_def seq_data_defs sd_get_output_len_def)

end
