(* ===== verification/Manager_Interface.thy ===== *)
theory Manager_Interface
  imports Sequence
begin

text \<open>
  \<open>vllm/core/interfaces.py\<close>: the block space manager through which the scheduler allocates KV-cache
  blocks, as a record of operations on the manager's state, and its trivial implementation for
  embedding models (\<open>vllm/core/embedding_model_block_manager.py\<close>). A list result that the embedding
  manager leaves \<open>None\<close> is \<open>None\<close> here too.
\<close>

datatype alloc_status = OK | LATER | NEVER

type_synonym block_pairs = "(block_id \<times> block_id) list"

record 'b manager_ops =
  bm_can_allocate :: "seq_group \<Rightarrow> nat \<Rightarrow> 'b \<Rightarrow> py_error + alloc_status"
  bm_allocate :: "seq_group \<Rightarrow> 'b \<Rightarrow> py_error + 'b"
  bm_can_append_slots :: "seq_group \<Rightarrow> nat \<Rightarrow> 'b \<Rightarrow> py_error + bool"
  bm_append_slots :: "sequence \<Rightarrow> nat \<Rightarrow> 'b \<Rightarrow> py_error + (block_pairs option \<times> 'b)"
  bm_fork :: "sequence \<Rightarrow> sequence \<Rightarrow> 'b \<Rightarrow> py_error + 'b"
  bm_can_swap_in :: "seq_group \<Rightarrow> nat \<Rightarrow> 'b \<Rightarrow> py_error + alloc_status"
  bm_swap_in :: "seq_group \<Rightarrow> 'b \<Rightarrow> py_error + (block_pairs option \<times> 'b)"
  bm_can_swap_out :: "seq_group \<Rightarrow> 'b \<Rightarrow> py_error + bool"
  bm_swap_out :: "seq_group \<Rightarrow> 'b \<Rightarrow> py_error + (block_pairs option \<times> 'b)"
  bm_free :: "sequence \<Rightarrow> 'b \<Rightarrow> py_error + 'b"
  bm_free_cross :: "seq_group \<Rightarrow> 'b \<Rightarrow> py_error + 'b"
  bm_get_block_table :: "sequence \<Rightarrow> 'b \<Rightarrow> py_error + block_id list option"
  bm_get_cross_block_table :: "seq_group \<Rightarrow> 'b \<Rightarrow> py_error + block_id list option"
  bm_get_num_free_gpu_blocks :: "'b \<Rightarrow> nat"
  bm_get_num_free_cpu_blocks :: "'b \<Rightarrow> nat"
  bm_access_all_blocks_in_seq :: "sequence \<Rightarrow> real \<Rightarrow> 'b \<Rightarrow> py_error + 'b"
  bm_get_common_computed_block_ids :: "sequence list \<Rightarrow> 'b \<Rightarrow> py_error + (block_id list \<times> 'b)"
  bm_mark_blocks_as_computed :: "seq_group \<Rightarrow> nat \<Rightarrow> 'b \<Rightarrow> py_error + 'b"

section \<open>The manager for embedding models\<close>

text \<open>It has no state; it does not define \<open>free_cross\<close> and \<open>get_cross_block_table\<close>.\<close>

definition embedding_ops :: "unit manager_ops" where
  "embedding_ops =
     \<lparr>bm_can_allocate = (\<lambda>_ _ _. Inr OK), bm_allocate = (\<lambda>_ b. Inr b),
      bm_can_append_slots = (\<lambda>_ _ _. Inr True), bm_append_slots = (\<lambda>_ _ b. Inr (None, b)),
      bm_fork = (\<lambda>_ _ b. Inr b), bm_can_swap_in = (\<lambda>_ _ _. Inr OK), bm_swap_in = (\<lambda>_ b. Inr (None, b)),
      bm_can_swap_out = (\<lambda>_ _. Inr True), bm_swap_out = (\<lambda>_ b. Inr (None, b)), bm_free = (\<lambda>_ b. Inr b),
      bm_free_cross = (\<lambda>_ _. Inl AttributeError), bm_get_block_table = (\<lambda>_ _. Inr None),
      bm_get_cross_block_table = (\<lambda>_ _. Inl AttributeError), bm_get_num_free_gpu_blocks = (\<lambda>_. 1),
      bm_get_num_free_cpu_blocks = (\<lambda>_. 1), bm_access_all_blocks_in_seq = (\<lambda>_ _ b. Inr b),
      bm_get_common_computed_block_ids = (\<lambda>_ b. Inr ([], b)), bm_mark_blocks_as_computed = (\<lambda>_ _ b. Inr b)\<rparr>"

lemma embedding_ops_simps [simp]:
  "bm_can_allocate embedding_ops g n b = Inr OK" "bm_allocate embedding_ops g b = Inr b"
  "bm_can_append_slots embedding_ops g n b = Inr True" "bm_append_slots embedding_ops s n b = Inr (None, b)"
  "bm_free embedding_ops s b = Inr b" "bm_free_cross embedding_ops g b = Inl AttributeError"
  "bm_can_swap_in embedding_ops g n b = Inr OK" "bm_swap_in embedding_ops g b = Inr (None, b)"
  by (simp_all add: embedding_ops_def)

end
