(* ===== verification/Block_Manager.thy ===== *)
theory Block_Manager
  imports Block_Table Manager_Interface
begin

text \<open>
  \<open>vllm/core/block_manager_v2.py\<close>: \<open>BlockSpaceManagerV2\<close>, a block table for every sequence over the
  allocator of two devices, with the two trackers of \<open>prefix_caching_block.py\<close>. The state holds the
  store of the block objects. The tables are values: the code stores each table under one key.
\<close>

section \<open>State\<close>

record ('x, 'a) manager =
  m2_block_size :: nat
  m2_num_total_gpu_blocks :: nat
  m2_num_total_cpu_blocks :: nat
  m2_max_block_sliding_window :: "nat option"
  m2_watermark_blocks :: nat
  m2_enable_caching :: bool
  m2_store :: "'x nblock_scheme store"
  m2_allocator :: "'a cpu_gpu"
  m2_block_tables :: "nat \<rightharpoonup> block_table"
  m2_cross_block_tables :: "string \<rightharpoonup> block_table"
  m2_computed :: "nat \<rightharpoonup> (block_id list \<times> bool)"
  m2_last_access :: "nat \<rightharpoonup> real option"

text \<open>The constructor, with the allocator that \<open>CpuGpuBlockAllocator.create\<close> made.\<close>

definition manager_init ::
  "nat \<Rightarrow> nat \<Rightarrow> nat \<Rightarrow> real \<Rightarrow> nat option \<Rightarrow> bool \<Rightarrow> 'x nblock_scheme store \<Rightarrow> 'a cpu_gpu \<Rightarrow> py_error + ('x, 'a) manager" where
  "manager_init block_size num_gpu_blocks num_cpu_blocks watermark sliding_window enable_caching h A =
     bindE (raise_unless ZeroDivisionError (sliding_window \<noteq> None \<longrightarrow> block_size \<noteq> 0)) (\<lambda>_.
     bindE (py_assert (watermark \<ge> 0)) (\<lambda>_.
     Inr \<lparr>m2_block_size = block_size, m2_num_total_gpu_blocks = num_gpu_blocks, m2_num_total_cpu_blocks = num_cpu_blocks,
          m2_max_block_sliding_window = map_option (\<lambda>w. w div block_size + 1 + 1) sliding_window,
          m2_watermark_blocks = nat \<lfloor>watermark * real num_gpu_blocks\<rfloor>, m2_enable_caching = enable_caching,
          m2_store = h, m2_allocator = A, m2_block_tables = (\<lambda>_. None), m2_cross_block_tables = (\<lambda>_. None),
          m2_computed = (\<lambda>_. None), m2_last_access = (\<lambda>_. None)\<rparr>))"

section \<open>The trackers\<close>

definition computed_add_seq :: "nat \<Rightarrow> (nat \<rightharpoonup> (block_id list \<times> bool)) \<Rightarrow> py_error + (nat \<rightharpoonup> (block_id list \<times> bool))" where
  "computed_add_seq seq_id t = bindE (py_assert (t seq_id = None)) (\<lambda>_. Inr (t(seq_id \<mapsto> ([], False))))"

definition computed_remove_seq :: "nat \<Rightarrow> (nat \<rightharpoonup> (block_id list \<times> bool)) \<Rightarrow> py_error + (nat \<rightharpoonup> (block_id list \<times> bool))" where
  "computed_remove_seq seq_id t = bindE (py_assert (t seq_id \<noteq> None)) (\<lambda>_. Inr (t(seq_id := None)))"

definition get_cached_computed_blocks_and_update ::
  "('x, 'a) allocator_ops \<Rightarrow> 'a cpu_gpu \<Rightarrow> nat \<Rightarrow> block_id list \<Rightarrow> (nat \<rightharpoonup> (block_id list \<times> bool)) \<Rightarrow>
     py_error + (block_id list \<times> (nat \<rightharpoonup> (block_id list \<times> bool)))" where
  "get_cached_computed_blocks_and_update ops A seq_id block_ids t =
     (case t seq_id of
        None \<Rightarrow> Inl AssertionError
      | Some (prev_computed_block_ids, has_gap) \<Rightarrow>
          if has_gap then Inr (prev_computed_block_ids, t)
          else bindE (py_assert (length block_ids \<ge> 1)) (\<lambda>_.
               let num_cur_blocks = length block_ids - 1 in
               if length prev_computed_block_ids \<ge> num_cur_blocks
               then bindE (py_assert (length prev_computed_block_ids = num_cur_blocks)) (\<lambda>_.
                    Inr (prev_computed_block_ids, t))
               else bindE (cg_get_computed_block_ids ops A prev_computed_block_ids block_ids True) (\<lambda>computed.
                    Inr (computed, t(seq_id \<mapsto> (computed, length computed < num_cur_blocks))))))"

definition access_add_seq :: "nat \<Rightarrow> (nat \<rightharpoonup> real option) \<Rightarrow> py_error + (nat \<rightharpoonup> real option)" where
  "access_add_seq seq_id t = bindE (py_assert (t seq_id = None)) (\<lambda>_. Inr (t(seq_id \<mapsto> None)))"

definition access_remove_seq :: "nat \<Rightarrow> (nat \<rightharpoonup> real option) \<Rightarrow> py_error + (nat \<rightharpoonup> real option)" where
  "access_remove_seq seq_id t = bindE (py_assert (t seq_id \<noteq> None)) (\<lambda>_. Inr (t(seq_id := None)))"

definition update_last_access :: "nat \<Rightarrow> real \<Rightarrow> (nat \<rightharpoonup> real option) \<Rightarrow> py_error + (nat \<rightharpoonup> real option)" where
  "update_last_access seq_id time t = bindE (py_assert (t seq_id \<noteq> None)) (\<lambda>_. Inr (t(seq_id \<mapsto> Some time)))"

definition update_seq_blocks_last_access ::
  "('x, 'a) allocator_ops \<Rightarrow> 'a cpu_gpu \<Rightarrow> nat \<Rightarrow> block_id list \<Rightarrow> (nat \<rightharpoonup> real option) \<Rightarrow> py_error + 'a cpu_gpu" where
  "update_seq_blocks_last_access ops A seq_id block_ids t =
     (case t seq_id of
        None \<Rightarrow> Inl AssertionError
      | Some None \<Rightarrow> Inr A
      | Some (Some ts) \<Rightarrow> cg_mark_blocks_as_accessed ops A block_ids ts)"

text \<open>Start and stop tracking a sequence in both.\<close>

definition track_seq :: "nat \<Rightarrow> ('x, 'a) manager \<Rightarrow> py_error + ('x, 'a) manager" where
  "track_seq seq_id m =
     bindE (computed_add_seq seq_id (m2_computed m)) (\<lambda>c.
     bindE (access_add_seq seq_id (m2_last_access m)) (\<lambda>l.
     Inr (m\<lparr>m2_computed := c, m2_last_access := l\<rparr>)))"

section \<open>Allocation\<close>

definition check_no_caching_or_swa :: "('x, 'a) manager \<Rightarrow> seq_group \<Rightarrow> py_error + unit" where
  "check_no_caching_or_swa m g =
     raise_unless NotImplementedError
       (is_encoder_decoder g \<longrightarrow> m2_max_block_sliding_window m = None \<and> \<not> m2_enable_caching m)"

definition can_allocate :: "('x, 'a) allocator_ops \<Rightarrow> seq_group \<Rightarrow> nat \<Rightarrow> ('x, 'a) manager \<Rightarrow> py_error + alloc_status" where
  "can_allocate ops g num_lookahead_slots m =
     bindE (check_no_caching_or_swa m g) (\<lambda>_.
     let seqs = sg_get_seqs (Some WAITING) g in
     bindE (raise_unless IndexError (seqs \<noteq> [])) (\<lambda>_.
     bindE (get_num_required_blocks (length (sd_get_token_ids (sq_data (hd seqs)))) (m2_block_size m) num_lookahead_slots) (\<lambda>n.
     bindE (case sg_encoder_seq g of
              None \<Rightarrow> Inr n
            | Some enc \<Rightarrow> bindE (get_num_required_blocks (length (sd_get_token_ids (sq_data enc))) (m2_block_size m) 0) (\<lambda>k.
                Inr (n + k))) (\<lambda>n.
     let num_required_blocks = (case m2_max_block_sliding_window m of None \<Rightarrow> n | Some w \<Rightarrow> min n w);
         num_free_gpu_blocks = cg_get_num_free_blocks ops (m2_allocator m) GPU
     in Inr (if int (m2_num_total_gpu_blocks m) - int num_required_blocks < int (m2_watermark_blocks m) then NEVER
             else if int num_free_gpu_blocks - int num_required_blocks \<ge> int (m2_watermark_blocks m) then OK
             else LATER)))))"

definition allocate_sequence ::
  "('x, 'a) allocator_ops \<Rightarrow> sequence \<Rightarrow> ('x, 'a) manager \<Rightarrow> py_error + (block_table \<times> ('x, 'a) manager)" where
  "allocate_sequence ops seq m =
     bindE (block_table_init (m2_store m) (m2_block_size m) [] (m2_max_block_sliding_window m)) (\<lambda>t.
     let toks = sd_get_token_ids (sq_data seq) in
     if toks \<noteq> []
     then bindE (bt_allocate (cg_ops ops) (m2_store m) (m2_allocator m) t toks GPU) (\<lambda>(t, h, A).
          Inr (t, m\<lparr>m2_store := h, m2_allocator := A\<rparr>))
     else Inr (t, m))"

definition set_table :: "nat \<Rightarrow> block_table \<Rightarrow> ('x, 'a) manager \<Rightarrow> ('x, 'a) manager" where
  "set_table i t m = m\<lparr>m2_block_tables := (m2_block_tables m)(i \<mapsto> t)\<rparr>"

definition fork_table ::
  "('x, 'a) allocator_ops \<Rightarrow> block_table \<Rightarrow> nat \<Rightarrow> ('x, 'a) manager \<Rightarrow> py_error + ('x, 'a) manager" where
  "fork_table ops t child m =
     bindE (bt_fork (cg_ops ops) (m2_store m) (m2_allocator m) t) (\<lambda>(t', h, A).
     track_seq child (set_table child t' (m\<lparr>m2_store := h, m2_allocator := A\<rparr>)))"

definition allocate :: "('x, 'a) allocator_ops \<Rightarrow> seq_group \<Rightarrow> ('x, 'a) manager \<Rightarrow> py_error + ('x, 'a) manager" where
  "allocate ops g m =
     (let waiting_seqs = sg_get_seqs (Some WAITING) g in
      bindE (py_assert (list_all (\<lambda>q. m2_block_tables m (sq_seq_id q) = None) waiting_seqs)) (\<lambda>_.
      bindE (raise_unless IndexError (waiting_seqs \<noteq> [])) (\<lambda>_.
      let seq = hd waiting_seqs in
      bindE (allocate_sequence ops seq m) (\<lambda>(t, m).
      bindE (track_seq (sq_seq_id seq) (set_table (sq_seq_id seq) t m)) (\<lambda>m.
      bindE (foldE (\<lambda>q. fork_table ops t (sq_seq_id q)) (tl waiting_seqs) m) (\<lambda>m.
      bindE (py_assert (m2_cross_block_tables m (sg_request_id g) = None)) (\<lambda>_.
      bindE (check_no_caching_or_swa m g) (\<lambda>_.
      case sg_encoder_seq g of
        None \<Rightarrow> Inr m
      | Some enc \<Rightarrow> bindE (allocate_sequence ops enc m) (\<lambda>(t, m).
          Inr (m\<lparr>m2_cross_block_tables := (m2_cross_block_tables m)(sg_request_id g \<mapsto> t)\<rparr>))))))))))"

section \<open>Appending, forking, freeing\<close>

definition get_table :: "nat \<Rightarrow> ('x, 'a) manager \<Rightarrow> py_error + block_table" where
  "get_table i m = from_option KeyError (m2_block_tables m i)"

definition touched_by_seq :: "nat \<Rightarrow> sequence \<Rightarrow> ('x, 'a) manager \<Rightarrow> py_error + int" where
  "touched_by_seq num_lookahead_slots seq m =
     bindE (get_table (sq_seq_id seq) m) (\<lambda>t.
     get_num_blocks_touched_by_append_slots t (length (get_unseen_token_ids t (sd_get_token_ids (sq_data seq)))) num_lookahead_slots)"

definition can_append_slots_v2 :: "('x, 'a) allocator_ops \<Rightarrow> seq_group \<Rightarrow> nat \<Rightarrow> ('x, 'a) manager \<Rightarrow> py_error + bool" where
  "can_append_slots_v2 ops g num_lookahead_slots m =
     bindE (foldE (\<lambda>seq n. bindE (touched_by_seq num_lookahead_slots seq m) (\<lambda>k. Inr (n + k)))
              (sg_get_seqs (Some RUNNING) g) 0) (\<lambda>num_touched_blocks.
     Inr (num_touched_blocks \<le> int (cg_get_num_free_blocks ops (m2_allocator m) GPU)))"

definition append_slots_v2 ::
  "('x, 'a) allocator_ops \<Rightarrow> sequence \<Rightarrow> nat \<Rightarrow> ('x, 'a) manager \<Rightarrow> py_error + (block_pairs \<times> ('x, 'a) manager)" where
  "append_slots_v2 ops seq num_lookahead_slots m =
     bindE (get_table (sq_seq_id seq) m) (\<lambda>t.
     bindE (bt_append_token_ids (cg_ops ops) (m2_store m) (m2_allocator m) t
              (get_unseen_token_ids t (sd_get_token_ids (sq_data seq))) num_lookahead_slots
              (Some (nat (sd_num_computed_tokens (sq_data seq))))) (\<lambda>(t, h, A).
     let (new_cows, A) = cg_clear_copy_on_writes ops A
     in Inr (new_cows, set_table (sq_seq_id seq) t (m\<lparr>m2_store := h, m2_allocator := A\<rparr>))))"

definition free_table :: "('x, 'a) allocator_ops \<Rightarrow> block_table \<Rightarrow> ('x, 'a) manager \<Rightarrow> py_error + ('x, 'a) manager" where
  "free_table ops t m =
     bindE (bt_free (cg_ops ops) (m2_store m) (m2_allocator m) t) (\<lambda>(_, h, A).
     Inr (m\<lparr>m2_store := h, m2_allocator := A\<rparr>))"

definition free :: "('x, 'a) allocator_ops \<Rightarrow> sequence \<Rightarrow> ('x, 'a) manager \<Rightarrow> py_error + ('x, 'a) manager" where
  "free ops seq m =
     (let i = sq_seq_id seq in
      case m2_block_tables m i of
        None \<Rightarrow> Inr m
      | Some t \<Rightarrow>
          bindE (update_seq_blocks_last_access ops (m2_allocator m) i (physical_block_ids t) (m2_last_access m)) (\<lambda>A.
          bindE (access_remove_seq i (m2_last_access m)) (\<lambda>l.
          bindE (computed_remove_seq i (m2_computed m)) (\<lambda>c.
          bindE (free_table ops t (m\<lparr>m2_allocator := A, m2_computed := c, m2_last_access := l\<rparr>)) (\<lambda>m.
          Inr (m\<lparr>m2_block_tables := (m2_block_tables m)(i := None)\<rparr>))))))"

definition free_cross :: "('x, 'a) allocator_ops \<Rightarrow> seq_group \<Rightarrow> ('x, 'a) manager \<Rightarrow> py_error + ('x, 'a) manager" where
  "free_cross ops g m =
     (case m2_cross_block_tables m (sg_request_id g) of
        None \<Rightarrow> Inr m
      | Some t \<Rightarrow> bindE (free_table ops t m) (\<lambda>m.
          Inr (m\<lparr>m2_cross_block_tables := (m2_cross_block_tables m)(sg_request_id g := None)\<rparr>)))"

definition fork :: "('x, 'a) allocator_ops \<Rightarrow> sequence \<Rightarrow> sequence \<Rightarrow> ('x, 'a) manager \<Rightarrow> py_error + ('x, 'a) manager" where
  "fork ops parent child m =
     (case m2_block_tables m (sq_seq_id parent) of
        None \<Rightarrow> Inr m
      | Some t \<Rightarrow> fork_table ops t (sq_seq_id child) m)"

definition get_block_table :: "sequence \<Rightarrow> ('x, 'a) manager \<Rightarrow> py_error + block_id list" where
  "get_block_table seq m = bindE (get_table (sq_seq_id seq) m) (\<lambda>t. Inr (physical_block_ids t))"

definition get_cross_block_table :: "seq_group \<Rightarrow> ('x, 'a) manager \<Rightarrow> py_error + block_id list" where
  "get_cross_block_table g m =
     bindE (from_option AssertionError (m2_cross_block_tables m (sg_request_id g))) (\<lambda>t. Inr (physical_block_ids t))"

definition access_all_blocks_in_seq :: "sequence \<Rightarrow> real \<Rightarrow> ('x, 'a) manager \<Rightarrow> py_error + ('x, 'a) manager" where
  "access_all_blocks_in_seq seq now m =
     (if m2_enable_caching m
      then bindE (update_last_access (sq_seq_id seq) now (m2_last_access m)) (\<lambda>l. Inr (m\<lparr>m2_last_access := l\<rparr>))
      else Inr m)"

definition mark_blocks_as_computed ::
  "('x, 'a) allocator_ops \<Rightarrow> seq_group \<Rightarrow> nat \<Rightarrow> ('x, 'a) manager \<Rightarrow> py_error + ('x, 'a) manager" where
  "mark_blocks_as_computed ops g token_chunk_size m =
     bindE (cg_mark_blocks_as_computed ops (m2_allocator m) []) (\<lambda>A. Inr (m\<lparr>m2_allocator := A\<rparr>))"

definition get_common_computed_block_ids ::
  "('x, 'a) allocator_ops \<Rightarrow> sequence list \<Rightarrow> ('x, 'a) manager \<Rightarrow> py_error + (block_id list \<times> ('x, 'a) manager)" where
  "get_common_computed_block_ids ops seqs m =
     bindE (collectE (\<lambda>seq m.
         bindE (get_table (sq_seq_id seq) m) (\<lambda>t.
         bindE (get_cached_computed_blocks_and_update ops (m2_allocator m) (sq_seq_id seq) (physical_block_ids t) (m2_computed m))
           (\<lambda>(ids, c). Inr (ids, m\<lparr>m2_computed := c\<rparr>)))) seqs m) (\<lambda>(computed_seq_block_ids, m).
     Inr (cg_get_common_computed_block_ids ops (m2_allocator m) computed_seq_block_ids, m))"

section \<open>Swapping\<close>

definition can_swap ::
  "('x, 'a) allocator_ops \<Rightarrow> seq_group \<Rightarrow> device \<Rightarrow> seq_status \<Rightarrow> nat \<Rightarrow> ('x, 'a) manager \<Rightarrow> py_error + alloc_status" where
  "can_swap ops g device status num_lookahead_slots m =
     bindE (foldE (\<lambda>seq (n, blocks).
         bindE (touched_by_seq num_lookahead_slots seq m) (\<lambda>k.
         bindE (get_table (sq_seq_id seq) m) (\<lambda>t. Inr (n + k, blocks @ bl_blocks (bt_blocks t)))))
       (sg_get_seqs (Some status) g) (0, [])) (\<lambda>(n, blocks).
     bindE (cg_get_num_full_blocks_touched ops (m2_store m) (m2_allocator m) blocks device) (\<lambda>full.
     let num_blocks_touched = n + int full;
         watermark_blocks = (if device = GPU then int (m2_watermark_blocks m) else 0)
     in Inr (if int (cg_get_num_total_blocks ops (m2_allocator m) device) < num_blocks_touched then NEVER
             else if int (cg_get_num_free_blocks ops (m2_allocator m) device) - num_blocks_touched \<ge> watermark_blocks then OK
             else LATER)))"

text \<open>The mapping of physical ids, a dict comprehension over the items of the swap.\<close>

fun physical_mapping ::
  "('x, 'a) allocator_ops \<Rightarrow> 'a cpu_gpu \<Rightarrow> device \<Rightarrow> device \<Rightarrow> block_pairs \<Rightarrow> (nat \<times> nat) list \<Rightarrow> py_error + (nat \<times> nat) list" where
  "physical_mapping ops A src dst [] d = Inr d"
| "physical_mapping ops A src dst ((s, t) # ps) d =
     bindE (cg_get_physical_block_id ops A src s) (\<lambda>ps'.
     bindE (cg_get_physical_block_id ops A dst t) (\<lambda>pt.
     physical_mapping ops A src dst ps (dict_set ps' pt d)))"

definition swap_seq ::
  "('x, 'a) allocator_ops \<Rightarrow> device \<Rightarrow> device \<Rightarrow> sequence \<Rightarrow> block_pairs \<times> ('x, 'a) manager \<Rightarrow>
     py_error + (block_pairs \<times> ('x, 'a) manager)" where
  "swap_seq ops src dst seq = (\<lambda>(physical_block_id_mapping, m).
     bindE (get_table (sq_seq_id seq) m) (\<lambda>t.
     let blocks = bl_blocks (bt_blocks t) in
     if length blocks = 0 then Inr (physical_block_id_mapping, m)
     else bindE (cg_swap ops (m2_store m) (m2_allocator m) blocks src dst) (\<lambda>(seq_swap_mapping, h, A).
          bindE (bt_update h t blocks) (\<lambda>t.
          bindE (physical_mapping ops A src dst seq_swap_mapping []) (\<lambda>mapping.
          Inr (physical_block_id_mapping @ mapping,
               set_table (sq_seq_id seq) t (m\<lparr>m2_store := h, m2_allocator := A\<rparr>)))))))"

definition swap_in_v2 :: "('x, 'a) allocator_ops \<Rightarrow> seq_group \<Rightarrow> ('x, 'a) manager \<Rightarrow> py_error + (block_pairs \<times> ('x, 'a) manager)" where
  "swap_in_v2 ops g m = foldE (swap_seq ops CPU GPU) (sg_get_seqs (Some SWAPPED) g) ([], m)"

definition swap_out_v2 :: "('x, 'a) allocator_ops \<Rightarrow> seq_group \<Rightarrow> ('x, 'a) manager \<Rightarrow> py_error + (block_pairs \<times> ('x, 'a) manager)" where
  "swap_out_v2 ops g m = foldE (swap_seq ops GPU CPU) (sg_get_seqs (Some RUNNING) g) ([], m)"

definition can_swap_in :: "('x, 'a) allocator_ops \<Rightarrow> seq_group \<Rightarrow> nat \<Rightarrow> ('x, 'a) manager \<Rightarrow> py_error + alloc_status" where
  "can_swap_in ops g num_lookahead_slots m = can_swap ops g GPU SWAPPED num_lookahead_slots m"

definition can_swap_out :: "('x, 'a) allocator_ops \<Rightarrow> seq_group \<Rightarrow> ('x, 'a) manager \<Rightarrow> py_error + bool" where
  "can_swap_out ops g m = bindE (can_swap ops g CPU RUNNING 0 m) (\<lambda>st. Inr (st = OK))"

text \<open>The manager as seen by the scheduler.\<close>

definition manager_v2_ops :: "('x, 'a) allocator_ops \<Rightarrow> ('x, 'a) manager manager_ops" where
  "manager_v2_ops ops =
     \<lparr>bm_can_allocate = can_allocate ops, bm_allocate = allocate ops, bm_can_append_slots = can_append_slots_v2 ops,
      bm_append_slots = (\<lambda>seq n m. bindE (append_slots_v2 ops seq n m) (\<lambda>(cows, m). Inr (Some cows, m))),
      bm_fork = fork ops, bm_can_swap_in = can_swap_in ops,
      bm_swap_in = (\<lambda>g m. bindE (swap_in_v2 ops g m) (\<lambda>(ps, m). Inr (Some ps, m))),
      bm_can_swap_out = can_swap_out ops,
      bm_swap_out = (\<lambda>g m. bindE (swap_out_v2 ops g m) (\<lambda>(ps, m). Inr (Some ps, m))),
      bm_free = free ops, bm_free_cross = free_cross ops,
      bm_get_block_table = (\<lambda>seq m. bindE (get_block_table seq m) (\<lambda>ids. Inr (Some ids))),
      bm_get_cross_block_table = (\<lambda>g m. bindE (get_cross_block_table g m) (\<lambda>ids. Inr (Some ids))),
      bm_get_num_free_gpu_blocks = (\<lambda>m. cg_get_num_free_blocks ops (m2_allocator m) GPU),
      bm_get_num_free_cpu_blocks = (\<lambda>m. cg_get_num_free_blocks ops (m2_allocator m) CPU),
      bm_access_all_blocks_in_seq = access_all_blocks_in_seq,
      bm_get_common_computed_block_ids = get_common_computed_block_ids ops,
      bm_mark_blocks_as_computed = mark_blocks_as_computed ops\<rparr>"

end
