(* ===== verification/Manager_Refinement.thy ===== *)
theory Manager_Refinement
  imports Block_Manager
begin

text \<open>
  \<open>BlockSpaceManagerV2\<close> over the naive allocator, without sliding window: the tables of a manager stay
  disjoint and well-formed, and its operations refine those of a finite map from sequence ids to the
  tokens stored for them.
\<close>

section \<open>A collection of disjoint tables\<close>

abbreviation blocks_of :: "block_table \<Rightarrow> bref set" where "blocks_of t \<equiv> set (bl_blocks (bt_blocks t))"

definition tabs_ok ::
  "nat \<Rightarrow> nat \<Rightarrow> nblock store \<Rightarrow> naive_allocator cpu_gpu \<Rightarrow> ('k \<rightharpoonup> block_table) \<Rightarrow> bool" where
  "tabs_ok depth bs h A tabs \<longleftrightarrow>
     naive_cg_inv depth bs h A \<and> 0 < bs \<and>
     (\<forall>k t. tabs k = Some t \<longrightarrow> bt_repr (naive_usable A) 0 h t (get_all_token_ids h t) \<and> bt_block_size t = bs \<and>
        bt_max_block_sliding_window t = None) \<and>
     (\<forall>k k' t t'. tabs k = Some t \<longrightarrow> tabs k' = Some t' \<longrightarrow> k \<noteq> k' \<longrightarrow> blocks_of t \<inter> blocks_of t' = {})"

definition contents :: "nblock store \<Rightarrow> ('k \<rightharpoonup> block_table) \<Rightarrow> 'k \<rightharpoonup> token_id list" where
  "contents h tabs k = map_option (get_all_token_ids h) (tabs k)"

lemma tabs_okD:
  assumes "tabs_ok depth bs h A tabs"
  shows "naive_cg_inv depth bs h A" "0 < bs" "tabs k = Some t \<Longrightarrow> bt_repr (naive_usable A) 0 h t (get_all_token_ids h t)"
    "tabs k = Some t \<Longrightarrow> bt_block_size t = bs" "tabs k = Some t \<Longrightarrow> bt_max_block_sliding_window t = None"
    "tabs k = Some t \<Longrightarrow> blocks_of t \<subseteq> naive_usable A"
    "tabs k = Some t \<Longrightarrow> tabs k' = Some t' \<Longrightarrow> k \<noteq> k' \<Longrightarrow> blocks_of t \<inter> blocks_of t' = {}"
  using assms unfolding tabs_ok_def bt_repr_def bl_repr_def by blast+

text \<open>The operations change one table: \<open>B\<close> are the blocks it had before.\<close>

lemma tabs_update:
  assumes ok: "tabs_ok depth bs h A tabs" and B: "B = (case tabs k of None \<Rightarrow> {} | Some t \<Rightarrow> blocks_of t)"
    and inv: "naive_cg_inv depth bs h' A'" and same: "\<And>x. x \<in> naive_usable A \<Longrightarrow> x \<notin> B \<Longrightarrow> h' x = h x"
    and kept: "naive_usable A - B \<subseteq> naive_usable A'"
    and new: "\<And>t. n = Some t \<Longrightarrow> bt_repr (naive_usable A') 0 h' t T \<and> bt_block_size t = bs \<and>
       bt_max_block_sliding_window t = None \<and> blocks_of t \<inter> (naive_usable A - B) = {}"
  shows "tabs_ok depth bs h' A' (tabs(k := n))" "contents h' (tabs(k := n)) = (contents h tabs)(k := map_option (\<lambda>_. T) n)"
proof -
  have other: "bt_repr (naive_usable A') 0 h' t (get_all_token_ids h t)" "get_all_token_ids h' t = get_all_token_ids h t"
    "blocks_of t \<subseteq> naive_usable A - B" if t: "tabs k' = Some t" "k' \<noteq> k" for k' t
  proof -
    have "blocks_of t \<inter> B = {}" using tabs_okD(7) [OF ok t(1) _ t(2)] B by (auto split: option.splits)
    then show sub: "blocks_of t \<subseteq> naive_usable A - B" using tabs_okD(6) [OF ok t(1)] by blast
    show "bt_repr (naive_usable A') 0 h' t (get_all_token_ids h t)"
      by (rule bt_repr_frame [OF tabs_okD(3) [OF ok t(1)]]) (use sub kept same in blast)+
    then show "get_all_token_ids h' t = get_all_token_ids h t" by (rule bt_repr_tokens)
  qed
  have n: "bt_repr (naive_usable A') 0 h' t (get_all_token_ids h' t) \<and> get_all_token_ids h' t = T" if "n = Some t" for t
    using new [OF that] bt_repr_tokens by metis
  show "tabs_ok depth bs h' A' (tabs(k := n))"
    unfolding tabs_ok_def
  proof (intro conjI allI impI)
    show "naive_cg_inv depth bs h' A'" "0 < bs" by (rule inv, rule tabs_okD(2) [OF ok])
  next
    fix k' t assume t: "(tabs(k := n)) k' = Some t"
    show "bt_repr (naive_usable A') 0 h' t (get_all_token_ids h' t)"
      using t n other [of k' t] by (cases "k' = k") auto
    show "bt_block_size t = bs" "bt_max_block_sliding_window t = None"
      using t new tabs_okD(4,5) [OF ok, of k' t] by (cases "k' = k"; auto)+
  next
    fix k1 k2 t1 t2 assume t: "(tabs(k := n)) k1 = Some t1" "(tabs(k := n)) k2 = Some t2" "k1 \<noteq> k2"
    then consider "k1 = k" "n = Some t1" "tabs k2 = Some t2" | "k2 = k" "n = Some t2" "tabs k1 = Some t1"
      | "k1 \<noteq> k" "k2 \<noteq> k" by (auto split: if_splits)
    then show "blocks_of t1 \<inter> blocks_of t2 = {}"
    proof cases
      case 1
      then show ?thesis using new [OF 1(2)] other(3) [OF 1(3)] t(3) by blast
    next
      case 2
      then show ?thesis using new [OF 2(2)] other(3) [OF 2(3)] t(3) by blast
    next
      case 3
      then show ?thesis using tabs_okD(7) [OF ok] t by simp
    qed
  qed
  show "contents h' (tabs(k := n)) = (contents h tabs)(k := map_option (\<lambda>_. T) n)"
  proof
    fix j show "contents h' (tabs(k := n)) j = ((contents h tabs)(k := map_option (\<lambda>_. T) n)) j"
      using n other(2) [of j] by (cases "j = k"; cases n; cases "tabs j") (auto simp: contents_def)
  qed
qed

lemma tabs_allocate:
  assumes ok: "tabs_ok depth bs h A tabs" and k: "tabs k = None" and t0: "bt_block_size t0 = bs" "bt_max_block_sliding_window t0 = None"
    and run: "bt_allocate (naive_cg_ops depth) h A t0 toks GPU = Inr (t, h', A')"
  shows "tabs_ok depth bs h' A' (tabs(k \<mapsto> t))" "contents h' (tabs(k \<mapsto> t)) = (contents h tabs)(k \<mapsto> toks)"
proof -
  note S = naive_alloc.cg.bt_allocate_spec [OF tabs_okD(1,2) [OF ok] t0(1) run]
  show "tabs_ok depth bs h' A' (tabs(k \<mapsto> t))" "contents h' (tabs(k \<mapsto> t)) = (contents h tabs)(k \<mapsto> toks)"
    using tabs_update [OF ok refl, of h' A' k "Some t" toks] S k t0(2) by auto
qed

lemma tabs_empty_table:
  assumes ok: "tabs_ok depth bs h A tabs" and k: "tabs k = None"
    and run: "block_table_init h bs [] None = Inr t"
  shows "tabs_ok depth bs h A (tabs(k \<mapsto> t))" "contents h (tabs(k \<mapsto> t)) = (contents h tabs)(k \<mapsto> [])"
proof -
  have "bt_repr (naive_usable A) 0 h t []" "bt_block_size t = bs" "bt_max_block_sliding_window t = None" "blocks_of t = {}"
    using run tabs_okD(2) [OF ok]
    by (auto simp: block_table_init_def bl_update_Inr bt_repr_def bl_repr_def holds_def get_num_token_ids_def)
  then show "tabs_ok depth bs h A (tabs(k \<mapsto> t))" "contents h (tabs(k \<mapsto> t)) = (contents h tabs)(k \<mapsto> [])"
    using tabs_update [OF ok refl tabs_okD(1) [OF ok], of k "Some t" "[]"] k by auto
qed

lemma tabs_fork:
  assumes ok: "tabs_ok depth bs h A tabs" and k: "tabs k = None" and p: "tabs p = Some t"
    and run: "bt_fork (naive_cg_ops depth) h A t = Inr (t', h', A')"
  shows "tabs_ok depth bs h' A' (tabs(k \<mapsto> t'))" "contents h' (tabs(k \<mapsto> t')) = (contents h tabs)(k \<mapsto> get_all_token_ids h t)"
proof -
  have R: "bt_repr (naive_usable A) (naive_pools GPU) h t (get_all_token_ids h t)" using tabs_okD(3) [OF ok p] by simp
  note S = naive_alloc.cg.bt_fork_spec [OF tabs_okD(1) [OF ok] R tabs_okD(4) [OF ok p] run]
  have "bt_max_block_sliding_window t' = None"
    using run tabs_okD(5) [OF ok p] by (auto simp: bt_fork_def block_table_init_def)
  then show "tabs_ok depth bs h' A' (tabs(k \<mapsto> t'))"
    "contents h' (tabs(k \<mapsto> t')) = (contents h tabs)(k \<mapsto> get_all_token_ids h t)"
    using tabs_update [OF ok refl, of h' A' k "Some t'" "get_all_token_ids h t"] S k by auto
qed

lemma append_keeps_window:
  assumes "bt_append_token_ids D h A t ts look computed = Inr (t', h', A')" "bt_max_block_sliding_window t = None"
  shows "bt_max_block_sliding_window t' = None" "bt_block_size t' = bt_block_size t"
  using assms by (auto simp: bt_append_token_ids_def bt_slide_window_def ensure_num_empty_slots_def Let_def split: if_splits)

lemma tabs_append:
  assumes ok: "tabs_ok depth bs h A tabs" and k: "tabs k = Some t"
    and run: "bt_append_token_ids (naive_cg_ops depth) h A t ts look computed = Inr (t', h', A')"
  shows "tabs_ok depth bs h' A' (tabs(k \<mapsto> t'))" "contents h' (tabs(k \<mapsto> t')) = (contents h tabs)(k \<mapsto> get_all_token_ids h t @ ts)"
proof -
  have R: "bt_repr (naive_usable A) (naive_pools GPU) h t (get_all_token_ids h t)" using tabs_okD(3) [OF ok k] by simp
  note S = naive_alloc.cg.bt_append_spec [OF tabs_okD(1) [OF ok] R tabs_okD(4,5) [OF ok k] run]
  from S obtain new where n: "bl_blocks (bt_blocks t') = bl_blocks (bt_blocks t) @ new"
    "set new \<inter> naive_usable A = {}" "naive_usable A' = naive_usable A \<union> set new" by blast
  show "tabs_ok depth bs h' A' (tabs(k \<mapsto> t'))"
    "contents h' (tabs(k \<mapsto> t')) = (contents h tabs)(k \<mapsto> get_all_token_ids h t @ ts)"
    using tabs_update [OF ok refl, of h' A' k "Some t'" "get_all_token_ids h t @ ts"] S n k
      append_keeps_window [OF run tabs_okD(5) [OF ok k]] tabs_okD(4) [OF ok k] by auto
qed

lemma tabs_free:
  assumes ok: "tabs_ok depth bs h A tabs" and k: "tabs k = Some t" and run: "bt_free (naive_cg_ops depth) h A t = Inr (t', h', A')"
  shows "tabs_ok depth bs h' A' (tabs(k := None))" "contents h' (tabs(k := None)) = (contents h tabs)(k := None)"
proof -
  have d: "distinct (bl_blocks (bt_blocks t))" using tabs_okD(3) [OF ok k] by (simp add: bt_repr_def bl_repr_def)
  note S = naive_alloc.cg.bt_free_spec [OF tabs_okD(1) [OF ok] tabs_okD(6) [OF ok k] d run]
  show "tabs_ok depth bs h' A' (tabs(k := None))" "contents h' (tabs(k := None)) = (contents h tabs)(k := None)"
    using tabs_update [OF ok refl, of h' A' k None "[]"] S k by auto
qed

section \<open>The manager\<close>

type_synonym naive_manager = "(unit, naive_allocator) manager"

abbreviation nops :: "nat \<Rightarrow> (unit, naive_allocator) allocator_ops" where "nops depth \<equiv> naive_ops naive_block_init depth"

text \<open>The tables of the sequences and of the encoder prompts together.\<close>

definition all_tables :: "naive_manager \<Rightarrow> nat + string \<rightharpoonup> block_table" where
  "all_tables m k = (case k of Inl i \<Rightarrow> m2_block_tables m i | Inr r \<Rightarrow> m2_cross_block_tables m r)"

definition manager_ok :: "nat \<Rightarrow> naive_manager \<Rightarrow> bool" where
  "manager_ok depth m \<longleftrightarrow>
     tabs_ok depth (m2_block_size m) (m2_store m) (m2_allocator m) (all_tables m) \<and>
     m2_max_block_sliding_window m = None \<and> dom (m2_computed m) = dom (m2_block_tables m)"

definition stored :: "naive_manager \<Rightarrow> nat + string \<rightharpoonup> token_id list" where
  "stored m = contents (m2_store m) (all_tables m)"

lemma all_tables_simps [simp]:
  "all_tables m (Inl i) = m2_block_tables m i" "all_tables m (Inr r) = m2_cross_block_tables m r"
  "all_tables (m\<lparr>m2_store := h\<rparr>) = all_tables m" "all_tables (m\<lparr>m2_allocator := A\<rparr>) = all_tables m"
  "all_tables (m\<lparr>m2_computed := c\<rparr>) = all_tables m" "all_tables (m\<lparr>m2_last_access := l\<rparr>) = all_tables m"
  "all_tables (set_table i t m) = (all_tables m)(Inl i \<mapsto> t)"
  "all_tables (m\<lparr>m2_block_tables := (m2_block_tables m)(i := None)\<rparr>) = (all_tables m)(Inl i := None)"
  "all_tables (m\<lparr>m2_cross_block_tables := (m2_cross_block_tables m)(r := v)\<rparr>) = (all_tables m)(Inr r := v)"
  by (auto simp: all_tables_def set_table_def fun_eq_iff split: sum.splits)

lemma track_seq_effect:
  assumes "track_seq i m = Inr m'"
  shows "m2_store m' = m2_store m" "m2_allocator m' = m2_allocator m" "all_tables m' = all_tables m"
    "m2_block_tables m' = m2_block_tables m" "m2_block_size m' = m2_block_size m"
    "m2_max_block_sliding_window m' = m2_max_block_sliding_window m"
    "m2_computed m i = None" "dom (m2_computed m') = insert i (dom (m2_computed m))"
proof -
  have m': "m' = m\<lparr>m2_computed := (m2_computed m)(i \<mapsto> ([], False)), m2_last_access := (m2_last_access m)(i \<mapsto> None)\<rparr>"
    and i: "m2_computed m i = None"
    using assms by (auto simp: track_seq_def computed_add_seq_def access_add_seq_def)
  show "m2_store m' = m2_store m" "m2_allocator m' = m2_allocator m" "all_tables m' = all_tables m"
    "m2_block_tables m' = m2_block_tables m" "m2_block_size m' = m2_block_size m"
    "m2_max_block_sliding_window m' = m2_max_block_sliding_window m"
    "m2_computed m i = None" "dom (m2_computed m') = insert i (dom (m2_computed m))"
    using i unfolding m' by simp_all
qed

lemma set_table_simps [simp]:
  "m2_store (set_table i t m) = m2_store m" "m2_allocator (set_table i t m) = m2_allocator m"
  "m2_block_tables (set_table i t m) = (m2_block_tables m)(i \<mapsto> t)" "m2_block_size (set_table i t m) = m2_block_size m"
  "m2_max_block_sliding_window (set_table i t m) = m2_max_block_sliding_window m" "m2_computed (set_table i t m) = m2_computed m"
  "m2_cross_block_tables (set_table i t m) = m2_cross_block_tables m"
  by (simp_all add: set_table_def)

lemma clear_cows_inv:
  assumes "cg_clear_copy_on_writes (nops depth) A = (cows, A')"
  shows "naive_cg_inv depth bs h A' = naive_cg_inv depth bs h A" "naive_usable A' = naive_usable A"
proof -
  obtain t where A': "A' = A\<lparr>cg_gpu := (cg_gpu A)\<lparr>na_cow_tracker := t\<rparr>\<rparr>"
    using assms by (auto simp: cg_clear_copy_on_writes_def naive_clear_copy_on_writes_def split: prod.splits)
  show "naive_cg_inv depth bs h A' = naive_cg_inv depth bs h A" "naive_usable A' = naive_usable A"
    unfolding A' cg_inv_def cg_usable_def cg_live_def all_device by simp_all
qed

lemma accessed_same:
  assumes "update_seq_blocks_last_access (nops depth) A i ids t = Inr A'"
  shows "A' = A"
  using assms by (auto simp: update_seq_blocks_last_access_def cg_mark_blocks_as_accessed_def naive_ops_def split: option.splits)

lemma allocate_sequence_effect:
  assumes run: "allocate_sequence (nops depth) seq m = Inr (t, m')" and ok: "manager_ok depth m" and k: "all_tables m k = None"
  shows "tabs_ok depth (m2_block_size m) (m2_store m') (m2_allocator m') ((all_tables m)(k \<mapsto> t))"
    "contents (m2_store m') ((all_tables m)(k \<mapsto> t)) = (stored m)(k \<mapsto> sd_get_token_ids (sq_data seq))"
    "\<exists>h A. m' = m\<lparr>m2_store := h, m2_allocator := A\<rparr>"
proof -
  note t = ok [unfolded manager_ok_def, THEN conjunct1] and w = ok [unfolded manager_ok_def, THEN conjunct2, THEN conjunct1]
  let ?toks = "sd_get_token_ids (sq_data seq)"
  obtain t0 where t0: "block_table_init (m2_store m) (m2_block_size m) [] None = Inr t0"
    using run w by (auto simp: allocate_sequence_def)
  have "tabs_ok depth (m2_block_size m) (m2_store m') (m2_allocator m') ((all_tables m)(k \<mapsto> t)) \<and>
    contents (m2_store m') ((all_tables m)(k \<mapsto> t)) = (stored m)(k \<mapsto> ?toks) \<and> (\<exists>h A. m' = m\<lparr>m2_store := h, m2_allocator := A\<rparr>)"
  proof (cases "?toks = []")
    case True
    then have e: "t = t0" "m' = m\<lparr>m2_store := m2_store m, m2_allocator := m2_allocator m\<rparr>"
      using run t0 w by (auto simp: allocate_sequence_def)
    have e': "m2_store m' = m2_store m" "m2_allocator m' = m2_allocator m" using e(2) by simp_all
    show ?thesis using tabs_empty_table [OF t k t0] e True unfolding e' stored_def
      by (intro conjI exI [of _ "m2_store m"] exI [of _ "m2_allocator m"]) simp_all
  next
    case False
    have b: "bt_block_size t0 = m2_block_size m" "bt_max_block_sliding_window t0 = None"
      using t0 by (auto simp: block_table_init_def)
    obtain h A where r: "bt_allocate (naive_cg_ops depth) (m2_store m) (m2_allocator m) t0 ?toks GPU = Inr (t, h, A)"
      "m' = m\<lparr>m2_store := h, m2_allocator := A\<rparr>"
      using run t0 w False by (auto simp: allocate_sequence_def)
    then show ?thesis using tabs_allocate [OF t k b r(1)] by (auto simp: stored_def)
  qed
  then show "tabs_ok depth (m2_block_size m) (m2_store m') (m2_allocator m') ((all_tables m)(k \<mapsto> t))"
    "contents (m2_store m') ((all_tables m)(k \<mapsto> t)) = (stored m)(k \<mapsto> ?toks)"
    "\<exists>h A. m' = m\<lparr>m2_store := h, m2_allocator := A\<rparr>" by blast+
qed

lemma fork_table_effect:
  assumes run: "fork_table (nops depth) t child m = Inr m'" and ok: "manager_ok depth m" and p: "all_tables m p = Some t"
  shows "manager_ok depth m'" "stored m' = (stored m)(Inl child \<mapsto> get_all_token_ids (m2_store m) t)"
    "all_tables m' p = Some t" "m2_block_tables m' = (m2_block_tables m)(child := m2_block_tables m' child)"
    "get_all_token_ids (m2_store m') t = get_all_token_ids (m2_store m) t" "m2_cross_block_tables m' = m2_cross_block_tables m"
proof -
  obtain t' h A where f: "bt_fork (naive_cg_ops depth) (m2_store m) (m2_allocator m) t = Inr (t', h, A)"
    and tr: "track_seq child (set_table child t' (m\<lparr>m2_store := h, m2_allocator := A\<rparr>)) = Inr m'"
    using run by (auto simp: fork_table_def)
  note e = track_seq_effect [OF tr]
  have new: "m2_block_tables m child = None" using e(7) ok by (auto simp: manager_ok_def)
  then have k: "all_tables m (Inl child) = None" "p \<noteq> Inl child" using p by auto
  note F = tabs_fork [OF ok [unfolded manager_ok_def, THEN conjunct1] k(1) p f]
  show m': "manager_ok depth m'" using F(1) e ok by (simp add: manager_ok_def)
  show s: "stored m' = (stored m)(Inl child \<mapsto> get_all_token_ids (m2_store m) t)" using F(2) e by (simp add: stored_def)
  show pt: "all_tables m' p = Some t" using e(3) k p by simp
  show "m2_block_tables m' = (m2_block_tables m)(child := m2_block_tables m' child)" using e(4) by auto
  have "stored m' p = stored m p" using s k(2) by simp
  then show "get_all_token_ids (m2_store m') t = get_all_token_ids (m2_store m) t"
    using pt p by (simp add: stored_def contents_def)
  show "m2_cross_block_tables m' = m2_cross_block_tables m" using e(3) by (auto simp: fun_eq_iff dest: spec [of _ "Inr _"])
qed

section \<open>The operations on the stored tokens\<close>

lemma fork_all_effect:
  "foldE (\<lambda>q. fork_table (nops depth) t (sq_seq_id q)) qs m = Inr m' \<Longrightarrow> manager_ok depth m \<Longrightarrow> all_tables m p = Some t \<Longrightarrow>
     get_all_token_ids (m2_store m) t = T \<Longrightarrow>
     manager_ok depth m' \<and> m2_cross_block_tables m' = m2_cross_block_tables m \<and>
     (\<forall>i. stored m' (Inl i) = (if i \<in> sq_seq_id ` set qs then Some T else stored m (Inl i)))"
proof (induction qs arbitrary: m)
  case (Cons q qs)
  then obtain m1 where m1: "fork_table (nops depth) t (sq_seq_id q) m = Inr m1"
    "foldE (\<lambda>q. fork_table (nops depth) t (sq_seq_id q)) qs m1 = Inr m'" by auto
  note e = fork_table_effect [OF m1(1) Cons.prems(2,3)]
  have T: "get_all_token_ids (m2_store m1) t = T" using e(5) Cons.prems(4) by simp
  from Cons.IH [OF m1(2) e(1,3) T] e(2,6) Cons.prems(4) show ?case by auto
qed simp

lemma allocate_effect:
  assumes run: "allocate (nops depth) g m = Inr m'" and ok: "manager_ok depth m"
  shows "manager_ok depth m'"
    "stored m' (Inl i) = (if i \<in> sq_seq_id ` set (sg_get_seqs (Some WAITING) g)
       then Some (sd_get_token_ids (sq_data (hd (sg_get_seqs (Some WAITING) g)))) else stored m (Inl i))"
proof -
  let ?ws = "sg_get_seqs (Some WAITING) g"
  let ?i = "sq_seq_id (hd ?ws)" and ?T = "sd_get_token_ids (sq_data (hd ?ws))"
  obtain t m1 m2 m3 where a: "list_all (\<lambda>q. m2_block_tables m (sq_seq_id q) = None) ?ws" "?ws \<noteq> []"
    "allocate_sequence (nops depth) (hd ?ws) m = Inr (t, m1)" "track_seq ?i (set_table ?i t m1) = Inr m2"
    "foldE (\<lambda>q. fork_table (nops depth) t (sq_seq_id q)) (tl ?ws) m2 = Inr m3"
    "m2_cross_block_tables m3 (sg_request_id g) = None"
    "(case sg_encoder_seq g of None \<Rightarrow> Inr m3
      | Some enc \<Rightarrow> bindE (allocate_sequence (nops depth) enc m3) (\<lambda>(t, m).
          Inr (m\<lparr>m2_cross_block_tables := (m2_cross_block_tables m)(sg_request_id g \<mapsto> t)\<rparr>))) = Inr m'"
    using run by (auto simp: allocate_def Let_def)
  have k: "all_tables m (Inl ?i) = None" using a(1,2) by (cases ?ws) simp_all
  note s = allocate_sequence_effect [OF a(3) ok k]
  from s(3) obtain h A where m1: "m1 = m\<lparr>m2_store := h, m2_allocator := A\<rparr>" by blast
  note e = track_seq_effect [OF a(4)]
  have ok2: "manager_ok depth m2" using s(1) e ok unfolding m1 by (simp add: manager_ok_def)
  have s2: "stored m2 = (stored m)(Inl ?i \<mapsto> ?T)" using s(2) e unfolding m1 by (simp add: stored_def)
  have t2: "all_tables m2 (Inl ?i) = Some t" using e(3) by simp
  then have T2: "get_all_token_ids (m2_store m2) t = ?T" using fun_cong [OF s2, of "Inl ?i"] by (simp add: stored_def contents_def)
  note f = fork_all_effect [OF a(5) ok2 t2 T2]
  have ids: "sq_seq_id ` set ?ws = insert ?i (sq_seq_id ` set (tl ?ws))" using a(2) by (cases ?ws) auto
  have r: "manager_ok depth m' \<and> (\<forall>i. stored m' (Inl i) = stored m3 (Inl i))"
  proof (cases "sg_encoder_seq g")
    case None
    then show ?thesis using a(7) f by simp
  next
    case (Some enc)
    then obtain t4 m4 where x: "allocate_sequence (nops depth) enc m3 = Inr (t4, m4)"
      "m' = m4\<lparr>m2_cross_block_tables := (m2_cross_block_tables m4)(sg_request_id g \<mapsto> t4)\<rparr>" using a(7) by auto
    have k3: "all_tables m3 (Inr (sg_request_id g)) = None" using a(6) by simp
    have "manager_ok depth m3" using f by blast
    note y = allocate_sequence_effect [OF x(1) this k3]
    from y(3) obtain h A where m4: "m4 = m3\<lparr>m2_store := h, m2_allocator := A\<rparr>" by blast
    have at: "all_tables m' = (all_tables m3)(Inr (sg_request_id g) \<mapsto> t4)"
      unfolding x(2) m4 by (auto simp: all_tables_def fun_eq_iff split: sum.splits)
    have "stored m' = (stored m3)(Inr (sg_request_id g) \<mapsto> sd_get_token_ids (sq_data enc))"
      using y(2) unfolding stored_def at unfolding x(2) m4 by simp
    moreover have "manager_ok depth m'" using y(1) f unfolding manager_ok_def at unfolding x(2) m4 by simp
    ultimately show ?thesis by simp
  qed
  then show "manager_ok depth m'"
    "stored m' (Inl i) = (if i \<in> sq_seq_id ` set ?ws then Some ?T else stored m (Inl i))"
    using f s2 unfolding ids by auto
qed

lemma append_effect:
  assumes run: "append_slots_v2 (nops depth) seq look m = Inr (cows, m')" and ok: "manager_ok depth m"
    and T: "stored m (Inl (sq_seq_id seq)) = Some T"
  shows "manager_ok depth m'" "stored m' = (stored m)(Inl (sq_seq_id seq) \<mapsto> T @ drop (length T) (sd_get_token_ids (sq_data seq)))"
proof -
  let ?i = "sq_seq_id seq" and ?toks = "sd_get_token_ids (sq_data seq)"
  obtain t t' h A where a: "m2_block_tables m ?i = Some t"
    "bt_append_token_ids (naive_cg_ops depth) (m2_store m) (m2_allocator m) t (get_unseen_token_ids t ?toks) look
       (Some (nat (sd_num_computed_tokens (sq_data seq)))) = Inr (t', h, A)"
    using run by (auto simp: append_slots_v2_def get_table_def)
  moreover obtain cows' A' where b: "cg_clear_copy_on_writes (nops depth) A = (cows', A')" by fastforce
  moreover have m': "m' = set_table ?i t' (m\<lparr>m2_store := h, m2_allocator := A'\<rparr>)"
    using run a b by (simp add: append_slots_v2_def get_table_def)
  note tabs = ok [unfolded manager_ok_def, THEN conjunct1]
  have k: "all_tables m (Inl ?i) = Some t" using a(1) by simp
  have tk: "get_all_token_ids (m2_store m) t = T" using T a(1) by (simp add: stored_def contents_def)
  have "bt_num_full_slots t = length T" using tabs_okD(3) [OF tabs k] tk by (simp add: bt_repr_def)
  then have u: "get_unseen_token_ids t ?toks = drop (length T) ?toks" by (simp add: get_unseen_token_ids_def)
  note F = tabs_append [OF tabs k a(2)]
  have "tabs_ok depth (m2_block_size m) h A' ((all_tables m)(Inl ?i \<mapsto> t'))"
    using F(1) clear_cows_inv [OF b] unfolding tabs_ok_def by simp
  moreover have "dom ((m2_block_tables m)(?i \<mapsto> t')) = dom (m2_block_tables m)" using a(1) by auto
  ultimately show "manager_ok depth m'" using ok unfolding manager_ok_def m' by simp
  show "stored m' = (stored m)(Inl ?i \<mapsto> T @ drop (length T) ?toks)" using F(2) unfolding m' stored_def tk u by simp
qed

lemma free_table_effect:
  assumes run: "free_table (nops depth) t m = Inr m'" and ok: "tabs_ok depth (m2_block_size m) (m2_store m) (m2_allocator m) tabs"
    and k: "tabs k = Some t"
  shows "tabs_ok depth (m2_block_size m) (m2_store m') (m2_allocator m') (tabs(k := None))"
    "contents (m2_store m') (tabs(k := None)) = (contents (m2_store m) tabs)(k := None)"
    "\<exists>h A. m' = m\<lparr>m2_store := h, m2_allocator := A\<rparr>"
  using run tabs_free [OF ok k] by (auto simp: free_table_def)

lemma free_effect:
  assumes run: "free (nops depth) seq m = Inr m'" and ok: "manager_ok depth m"
  shows "manager_ok depth m'" "stored m' = (stored m)(Inl (sq_seq_id seq) := None)"
proof -
  let ?i = "sq_seq_id seq"
  note tabs = ok [unfolded manager_ok_def, THEN conjunct1]
  have "manager_ok depth m' \<and> stored m' = (stored m)(Inl ?i := None)"
  proof (cases "m2_block_tables m ?i")
    case None
    then have "m' = m" using run by (simp add: free_def)
    then show ?thesis using ok None by (auto simp: stored_def contents_def fun_eq_iff)
  next
    case (Some t)
    then obtain A l c m1 where a: "update_seq_blocks_last_access (nops depth) (m2_allocator m) ?i (physical_block_ids t) (m2_last_access m) = Inr A"
      "computed_remove_seq ?i (m2_computed m) = Inr c"
      "free_table (nops depth) t (m\<lparr>m2_allocator := A, m2_computed := c, m2_last_access := l\<rparr>) = Inr m1"
      "m' = m1\<lparr>m2_block_tables := (m2_block_tables m1)(?i := None)\<rparr>"
      using run by (auto simp: free_def Let_def)
    have A: "A = m2_allocator m" by (rule accessed_same [OF a(1)])
    let ?m = "m\<lparr>m2_allocator := m2_allocator m, m2_computed := c, m2_last_access := l\<rparr>"
    have t: "tabs_ok depth (m2_block_size ?m) (m2_store ?m) (m2_allocator ?m) (all_tables m)" using tabs by simp
    have k: "all_tables m (Inl ?i) = Some t" using Some by simp
    note F = free_table_effect [OF a(3) [unfolded A] t k]
    from F(3) obtain h A1 where m1: "m1 = ?m\<lparr>m2_store := h, m2_allocator := A1\<rparr>" by blast
    have c: "dom c = dom (m2_computed m) - {?i}" using a(2) by (auto simp: computed_remove_seq_def split: if_splits)
    have "all_tables m' = (all_tables m)(Inl ?i := None)"
      unfolding a(4) m1 by (auto simp: all_tables_def fun_eq_iff split: sum.splits)
    then show ?thesis using F(1,2) ok c unfolding a(4) m1 manager_ok_def stored_def by auto
  qed
  then show "manager_ok depth m'" "stored m' = (stored m)(Inl ?i := None)" by auto
qed

lemma fork_effect:
  assumes run: "fork (nops depth) parent child m = Inr m'" and ok: "manager_ok depth m"
  shows "manager_ok depth m'" "stored m' = (case stored m (Inl (sq_seq_id parent)) of
    None \<Rightarrow> stored m | Some T \<Rightarrow> (stored m)(Inl (sq_seq_id child) \<mapsto> T))"
proof -
  have "manager_ok depth m' \<and> stored m' = (case stored m (Inl (sq_seq_id parent)) of
      None \<Rightarrow> stored m | Some T \<Rightarrow> (stored m)(Inl (sq_seq_id child) \<mapsto> T))"
  proof (cases "m2_block_tables m (sq_seq_id parent)")
    case None
    then show ?thesis using run ok by (simp add: fork_def stored_def contents_def)
  next
    case (Some t)
    then have r: "fork_table (nops depth) t (sq_seq_id child) m = Inr m'" and p: "all_tables m (Inl (sq_seq_id parent)) = Some t"
      using run by (simp_all add: fork_def)
    show ?thesis using fork_table_effect(1,2) [OF r ok p] Some by (simp add: stored_def contents_def)
  qed
  then show "manager_ok depth m'" "stored m' = (case stored m (Inl (sq_seq_id parent)) of
    None \<Rightarrow> stored m | Some T \<Rightarrow> (stored m)(Inl (sq_seq_id child) \<mapsto> T))" by auto
qed

section \<open>Executions of the manager refine a map\<close>

text \<open>
  The states that a client reaches by calling the operations (swapping and cross attention apart), with
  the map that an abstract store of token lists would hold: \<open>allocate\<close> stores the tokens of the first
  waiting sequence for every waiting sequence, \<open>append_slots\<close> the tokens not yet stored, \<open>fork\<close> copies
  and \<open>free\<close> forgets.
\<close>

inductive manager_run :: "nat \<Rightarrow> naive_manager \<Rightarrow> (nat \<rightharpoonup> token_id list) \<Rightarrow> bool" for depth :: nat where
  init: "cg_create_naive depth ng nc bs h0 = Inr (h, A) \<Longrightarrow> 0 < bs \<Longrightarrow>
    manager_init bs ng nc watermark None False h A = Inr m \<Longrightarrow> manager_run depth m (\<lambda>_. None)"
| allocate: "manager_run depth m S \<Longrightarrow> allocate (nops depth) g m = Inr m' \<Longrightarrow>
    manager_run depth m' (\<lambda>i. if i \<in> sq_seq_id ` set (sg_get_seqs (Some WAITING) g)
       then Some (sd_get_token_ids (sq_data (hd (sg_get_seqs (Some WAITING) g)))) else S i)"
| append: "manager_run depth m S \<Longrightarrow> append_slots_v2 (nops depth) seq look m = Inr (cows, m') \<Longrightarrow> S (sq_seq_id seq) = Some T \<Longrightarrow>
    manager_run depth m' (S(sq_seq_id seq \<mapsto> T @ drop (length T) (sd_get_token_ids (sq_data seq))))"
| fork: "manager_run depth m S \<Longrightarrow> fork (nops depth) parent child m = Inr m' \<Longrightarrow>
    manager_run depth m' (case S (sq_seq_id parent) of None \<Rightarrow> S | Some T \<Rightarrow> S(sq_seq_id child \<mapsto> T))"
| free: "manager_run depth m S \<Longrightarrow> free (nops depth) seq m = Inr m' \<Longrightarrow>
    manager_run depth m' (S(sq_seq_id seq := None))"

definition seq_contents :: "naive_manager \<Rightarrow> nat \<rightharpoonup> token_id list" where
  "seq_contents m i = map_option (get_all_token_ids (m2_store m)) (m2_block_tables m i)"

lemma seq_contents_stored: "seq_contents m i = stored m (Inl i)"
  by (simp add: seq_contents_def stored_def contents_def)

lemma init_ok:
  assumes "cg_create_naive depth ng nc bs h0 = Inr (h, A)" "0 < bs" "manager_init bs ng nc watermark None False h A = Inr m"
  shows "manager_ok depth m" "seq_contents m = (\<lambda>_. None)"
proof -
  have m: "m2_block_tables m = (\<lambda>_. None)" "m2_cross_block_tables m = (\<lambda>_. None)" "m2_computed m = (\<lambda>_. None)"
    "m2_store m = h" "m2_allocator m = A" "m2_block_size m = bs" "m2_max_block_sliding_window m = None"
    using assms(3) by (auto simp: manager_init_def)
  have "all_tables m = (\<lambda>_. None)" using m by (auto simp: all_tables_def fun_eq_iff split: sum.splits)
  then show "manager_ok depth m" using m cg_create_naive_inv(1) [OF assms(1)] assms(2)
    by (simp add: manager_ok_def tabs_ok_def)
  show "seq_contents m = (\<lambda>_. None)" using m by (simp add: seq_contents_def fun_eq_iff)
qed

lemma manager_run_ok: "manager_run depth m S \<Longrightarrow> manager_ok depth m \<and> seq_contents m = S"
proof (induction rule: manager_run.induct)
  case (init ng nc bs h0 h A watermark m)
  then show ?case using init_ok by blast
next
  case (allocate m S g m')
  then have ok: "manager_ok depth m" "seq_contents m = S" by auto
  show ?case using allocate_effect [OF allocate.hyps(2) ok(1)] ok(2) by (auto simp: seq_contents_stored fun_eq_iff)
next
  case (append m S seq look cows m' T)
  then have ok: "manager_ok depth m" "seq_contents m = S" by auto
  have "stored m (Inl (sq_seq_id seq)) = Some T" using append.hyps(3) ok(2) seq_contents_stored by metis
  then show ?case using append_effect [OF append.hyps(2) ok(1)] ok(2) by (auto simp: seq_contents_stored fun_eq_iff)
next
  case (fork m S parent child m')
  then have ok: "manager_ok depth m" "seq_contents m = S" by auto
  note e = fork_effect [OF fork.hyps(2) ok(1)]
  have "stored m (Inl (sq_seq_id parent)) = S (sq_seq_id parent)" using ok(2) seq_contents_stored by metis
  then show ?case using e ok(2) by (auto simp: seq_contents_stored fun_eq_iff split: option.splits)
next
  case (free m S seq m')
  then have ok: "manager_ok depth m" "seq_contents m = S" by auto
  show ?case using free_effect [OF free.hyps(2) ok(1)] ok(2) by (auto simp: seq_contents_stored fun_eq_iff)
qed

text \<open>Two waiting samples of the prompt 5, 6, 7 on four GPU blocks of two tokens; the first gets the token 9.\<close>

definition ex_group :: seq_group where
  "ex_group = seq_group_init ''a'' [ex_seq 0 [5, 6, 7], ex_seq 1 [5, 6, 7]] 0 None None None 0"

definition ex_grown :: sequence where
  "ex_grown = (ex_seq 0 [5, 6, 7])\<lparr>sq_data := sd_append_token_id 9 0 (from_seqs [5, 6, 7] None)\<rparr>"

definition ex_manager :: "py_error + naive_manager" where
  "ex_manager = bindE (cg_create_naive 10 4 2 2 ex_store) (\<lambda>(h, A). manager_init 2 4 2 0 None False h A)"

definition ex_manager_steps :: "py_error + (naive_manager \<times> naive_manager \<times> block_pairs)" where
  "ex_manager_steps = bindE ex_manager (\<lambda>m. bindE (allocate (nops 10) ex_group m) (\<lambda>m1.
     bindE (append_slots_v2 (nops 10) ex_grown 0 m1) (\<lambda>(cows, m2). Inr (m1, m2, cows))))"

lemma ex_manager_runs: "map_sum id (\<lambda>(m1, m2, cows). (cows, map_option physical_block_ids (m2_block_tables m2 0),
    map_option physical_block_ids (m2_block_tables m2 1))) ex_manager_steps = Inr ([(1, 2)], Some [0, 2], Some [0, 1])"
  by code_simp

text \<open>
  C3. The block manager refines a finite map from sequences to token lists: whatever sequence of
  allocations, appends, forks and frees is run, the table of every sequence stores exactly the tokens
  of the abstract map, in blocks that no other sequence's table object uses. The manager works over the naive
  allocator, without sliding window and without prefix caching.
\<close>

theorem manager_refines_map:
  assumes "manager_run depth m S"
  shows "seq_contents m = S \<and>
    (\<forall>i j t t'. m2_block_tables m i = Some t \<and> m2_block_tables m j = Some t' \<and> i \<noteq> j \<longrightarrow> blocks_of t \<inter> blocks_of t' = {})"
proof -
  have ok: "manager_ok depth m" "seq_contents m = S" using manager_run_ok [OF assms] by auto
  note t = ok(1) [unfolded manager_ok_def, THEN conjunct1]
  have "blocks_of t1 \<inter> blocks_of t2 = {}" if "m2_block_tables m i = Some t1" "m2_block_tables m j = Some t2" "i \<noteq> j" for i j t1 t2
    using tabs_okD(7) [OF t, of "Inl i" t1 "Inl j" t2] that by simp
  then show ?thesis using ok(2) by blast
qed

theorem manager_refines_map_witness:
  "\<exists>m1 m2 cows. ex_manager_steps = Inr (m1, m2, cows) \<and> seq_contents m2 0 = Some [5, 6, 7, 9] \<and> seq_contents m2 1 = Some [5, 6, 7]"
proof -
  have "\<not> isl ex_manager_steps" by code_simp
  then obtain m1 m2 cows where s: "ex_manager_steps = Inr (m1, m2, cows)" by (metis not_isl surj_pair)
  then obtain h A m where i: "cg_create_naive 10 4 2 2 ex_store = Inr (h, A)" "manager_init 2 4 2 0 None False h A = Inr m"
    "allocate (nops 10) ex_group m = Inr m1" "append_slots_v2 (nops 10) ex_grown 0 m1 = Inr (cows, m2)"
    by (auto simp: ex_manager_steps_def ex_manager_def)
  have ws: "sg_get_seqs (Some WAITING) ex_group = [ex_seq 0 [5, 6, 7], ex_seq 1 [5, 6, 7]]" by code_simp
  have toks: "sd_get_token_ids (sq_data (ex_seq 0 [5, 6, 7])) = [5, 6, 7]" "sd_get_token_ids (sq_data ex_grown) = [5, 6, 7, 9]"
    "sq_seq_id ex_grown = 0" "sq_seq_id (ex_seq k p) = k" for k p
    by (code_simp, code_simp, simp_all add: ex_grown_def ex_seq_def)
  have r0: "manager_run 10 m (\<lambda>_. None)" by (rule manager_run.init [OF i(1) _ i(2)]) simp
  note r1 = manager_run.allocate [OF r0 i(3), unfolded ws]
  have "(\<lambda>i. if i \<in> sq_seq_id ` set [ex_seq 0 [5, 6, 7], ex_seq 1 [5, 6, 7]]
      then Some (sd_get_token_ids (sq_data (hd [ex_seq 0 [5, 6, 7], ex_seq 1 [5, 6, 7]]))) else None)
    = [0 \<mapsto> [5, 6, 7], 1 \<mapsto> [5, 6, 7]]" by (auto simp: toks fun_eq_iff)
  with r1 have r1': "manager_run 10 m1 [0 \<mapsto> [5, 6, 7], 1 \<mapsto> [5, 6, 7]]" by simp
  have "manager_run 10 m2 ([0 \<mapsto> [5, 6, 7], 1 \<mapsto> [5, 6, 7]](0 \<mapsto> [5, 6, 7, 9]))"
    using manager_run.append [OF r1' i(4), of "[5, 6, 7]"] by (simp add: toks)
  note c = manager_refines_map [OF this, THEN conjunct1]
  show ?thesis by (intro exI [of _ m1] exI [of _ m2] exI [of _ cows] conjI) (simp_all add: s c)
qed

end
