(* ===== verification/Evictor.thy ===== *)
theory Evictor
  imports Prelude "HOL-Library.Multiset" "HOL-Library.Product_Lexorder"
begin

text \<open>
  \<open>vllm/core/evictor_v2.py\<close>: the cache of blocks that nobody references and whose content may still be
  reused. The free table is an ordered dictionary: a list of pairs in the order of insertion, where
  setting a present key keeps its place.
\<close>

record block_meta =
  md_content_hash :: int
  md_num_hashed_tokens :: nat
  md_last_accessed :: real

type_synonym evictor = "(nat \<times> block_meta) list"

definition ev_contains :: "evictor \<Rightarrow> nat \<Rightarrow> bool" where
  "ev_contains t i = list_ex (\<lambda>(j, _). j = i) t"

definition ev_num_blocks :: "evictor \<Rightarrow> nat" where
  "ev_num_blocks t = length t"

text \<open>The loop of \<open>evict\<close>, with the best candidate so far; it stops at the first later timestamp.\<close>

fun evict_scan :: "nat \<times> block_meta \<Rightarrow> evictor \<Rightarrow> nat \<times> block_meta" where
  "evict_scan best [] = best"
| "evict_scan (i, b) ((j, c) # t) =
     (if md_last_accessed b < md_last_accessed c then (i, b)
      else evict_scan (if md_num_hashed_tokens b < md_num_hashed_tokens c then (j, c) else (i, b)) t)"

fun evict :: "evictor \<Rightarrow> py_error + (nat \<times> int \<times> evictor)" where
  "evict [] = Inl ValueError"
| "evict (x # t) = (let (i, b) = evict_scan x t in Inr (i, md_content_hash b, dict_del i (x # t)))"

definition ev_add :: "nat \<Rightarrow> int \<Rightarrow> nat \<Rightarrow> real \<Rightarrow> evictor \<Rightarrow> evictor" where
  "ev_add i content_hash num_hashed_tokens last_accessed t =
     dict_set i \<lparr>md_content_hash = content_hash, md_num_hashed_tokens = num_hashed_tokens,
                 md_last_accessed = last_accessed\<rparr> t"

definition ev_update :: "nat \<Rightarrow> real \<Rightarrow> evictor \<Rightarrow> py_error + evictor" where
  "ev_update i last_accessed t =
     bindE (from_option KeyError (map_of t i)) (\<lambda>b. Inr (dict_set i (b\<lparr>md_last_accessed := last_accessed\<rparr>) t))"

definition ev_remove :: "nat \<Rightarrow> evictor \<Rightarrow> py_error + evictor" where
  "ev_remove i t = bindE (raise_unless ValueError (ev_contains t i)) (\<lambda>_. Inr (dict_del i t))"

lemma ev_contains_iff [simp]: "ev_contains t i \<longleftrightarrow> i \<in> fst ` set t"
  by (force simp: ev_contains_def list_ex_iff)

section \<open>The order of eviction\<close>

text \<open>
  The order that the class documents: the oldest timestamp first, and among equal timestamps the most
  hashed tokens first.
\<close>

definition lru_key :: "nat \<times> block_meta \<Rightarrow> real \<times> int" where
  "lru_key = (\<lambda>(i, b). (md_last_accessed b, - int (md_num_hashed_tokens b)))"

definition evict_many :: "nat \<Rightarrow> evictor \<Rightarrow> py_error + ((nat \<times> int) list \<times> evictor)" where
  "evict_many n t = collectE (\<lambda>_ t. bindE (evict t) (\<lambda>(i, h, t). Inr ((i, h), t))) [0..<n] t"

abbreviation access_order :: "evictor \<Rightarrow> bool" where
  "access_order t \<equiv> sorted (map (\<lambda>(_, b). md_last_accessed b) t)"

text \<open>The scan returns the first entry with the least key.\<close>

lemma evict_scan_first_least:
  assumes "access_order (x # t)"
  shows "\<exists>as bs. x # t = as @ evict_scan x t # bs \<and> (\<forall>y \<in> set as. lru_key (evict_scan x t) < lru_key y) \<and>
    (\<forall>y \<in> set bs. lru_key (evict_scan x t) \<le> lru_key y)"
  using assms
proof (induction x t rule: evict_scan.induct)
  case (1 best)
  then show ?case by force
next
  case (2 i b j c t)
  consider (stop) "md_last_accessed b < md_last_accessed c"
    | (better) "md_last_accessed c = md_last_accessed b" "md_num_hashed_tokens b < md_num_hashed_tokens c"
    | (keep) "md_last_accessed c = md_last_accessed b" "md_num_hashed_tokens c \<le> md_num_hashed_tokens b"
    using 2(2) by fastforce
  then show ?case
  proof cases
    case stop
    then have "lru_key (i, b) \<le> lru_key y" if "y \<in> set ((j, c) # t)" for y
      using that 2(2) by (cases y) (force simp: lru_key_def less_eq_prod_def)
    then show ?thesis using stop by (intro exI [of _ "[]"] exI [of _ "(j, c) # t"]) simp
  next
    case better
    then obtain as bs where d: "(j, c) # t = as @ evict_scan (j, c) t # bs"
      "\<forall>y \<in> set as. lru_key (evict_scan (j, c) t) < lru_key y" "\<forall>y \<in> set bs. lru_key (evict_scan (j, c) t) \<le> lru_key y"
      using 2 by auto
    have "(j, c) \<in> set (as @ evict_scan (j, c) t # bs)" unfolding d(1) [symmetric] by simp
    then have "lru_key (evict_scan (j, c) t) \<le> lru_key (j, c)" using d(2,3) by (fastforce intro: less_imp_le)
    also have "\<dots> < lru_key (i, b)" using better by (simp add: lru_key_def less_prod_def)
    finally have less: "lru_key (evict_scan (j, c) t) < lru_key (i, b)" .
    have e: "evict_scan (i, b) ((j, c) # t) = evict_scan (j, c) t" using better by simp
    show ?thesis unfolding e using d less by (intro exI [of _ "(i, b) # as"] exI [of _ bs]) simp
  next
    case keep
    have s: "access_order ((i, b) # t)" using 2(2) by simp
    have e: "evict_scan (i, b) ((j, c) # t) = evict_scan (i, b) t" using keep by simp
    obtain as bs where d: "(i, b) # t = as @ evict_scan (i, b) t # bs"
      "\<forall>y \<in> set as. lru_key (evict_scan (i, b) t) < lru_key y" "\<forall>y \<in> set bs. lru_key (evict_scan (i, b) t) \<le> lru_key y"
      using 2(1) [OF _ ] s keep by auto
    have le: "lru_key (i, b) \<le> lru_key (j, c)" using keep by (simp add: lru_key_def less_eq_prod_def)
    show ?thesis
    proof (cases as)
      case Nil
      then have x: "evict_scan (i, b) t = (i, b)" "bs = t" using d(1) by (metis append_Nil list.inject)+
      have "\<forall>y \<in> set ((j, c) # t). lru_key (i, b) \<le> lru_key y" using d(3) le unfolding x by simp
      then show ?thesis unfolding e x(1) by (intro exI [of _ "[]"] exI [of _ "(j, c) # t"]) simp
    next
      case (Cons a as')
      then have "a = (i, b)" "t = as' @ evict_scan (i, b) t # bs" using d(1) by (metis append_Cons list.inject)+
      then show ?thesis unfolding e using d(2,3) le Cons
        by (intro exI [of _ "(i, b) # (j, c) # as'"] exI [of _ bs]) (auto intro: less_le_trans)
    qed
  qed
qed

lemma sort_key_first_least:
  fixes f :: "'a \<Rightarrow> 'b::linorder"
  assumes "\<And>y. y \<in> set as \<Longrightarrow> f x < f y" "\<And>y. y \<in> set bs \<Longrightarrow> f x \<le> f y"
  shows "sort_key f (as @ x # bs) = x # sort_key f (as @ bs)"
proof (rule properties_for_sort_key)
  show "mset (x # sort_key f (as @ bs)) = mset (as @ x # bs)" by simp
  show "sorted (map f (x # sort_key f (as @ bs)))" using assms by (auto intro: less_imp_le)
  show "filter (\<lambda>y. f k = f y) (x # sort_key f (as @ bs)) = filter (\<lambda>y. f k = f y) (as @ x # bs)" for k
  proof -
    have "filter (\<lambda>y. f k = f y) (sort_key f (as @ bs)) = filter (\<lambda>y. f k = f y) (as @ bs)"
      using sort_key_stable [of f "f k" "as @ bs"] by (simp add: eq_commute)
    moreover have "f k = f x \<Longrightarrow> filter (\<lambda>y. f k = f y) as = []" using assms(1) by (force simp: filter_empty_conv)
    ultimately show ?thesis by (cases "f k = f x") simp_all
  qed
qed

lemma dict_del_notin: "i \<notin> fst ` set d \<Longrightarrow> dict_del i d = d"
  by (force simp: dict_del_def filter_id_conv)

lemma dict_del_middle:
  assumes "distinct (map fst (as @ (i, b) # bs))"
  shows "dict_del i (as @ (i, b) # bs) = as @ bs"
proof -
  have "dict_del i as = as" "dict_del i bs = bs" using assms by (intro dict_del_notin; simp)+
  then show ?thesis by (simp add: dict_del_def)
qed

lemma evict_least:
  assumes "access_order t" "distinct (map fst t)" "t \<noteq> []"
  obtains as i b bs where "t = as @ (i, b) # bs" "evict t = Inr (i, md_content_hash b, as @ bs)"
    "sort_key lru_key t = (i, b) # sort_key lru_key (as @ bs)"
proof -
  obtain x r where t: "t = x # r" using assms(3) by (cases t) auto
  obtain i b where s: "evict_scan x r = (i, b)" by (cases "evict_scan x r")
  then obtain as bs where d: "t = as @ (i, b) # bs" "\<forall>y \<in> set as. lru_key (i, b) < lru_key y" "\<forall>y \<in> set bs. lru_key (i, b) \<le> lru_key y"
    using evict_scan_first_least [of x r] assms(1) t by auto
  have "evict t = Inr (i, md_content_hash b, dict_del i t)" by (simp add: t s)
  moreover have "dict_del i t = as @ bs" using assms(2) unfolding d(1) by (rule dict_del_middle)
  ultimately show ?thesis using that d sort_key_first_least [of as lru_key "(i, b)" bs] by auto
qed

lemma evict_many_lru:
  assumes "access_order t" "distinct (map fst t)" "n \<le> length t"
  shows "\<exists>r. evict_many n t = Inr (map (\<lambda>(i, b). (i, md_content_hash b)) (take n (sort_key lru_key t)), r) \<and>
    mset r = mset (drop n (sort_key lru_key t))"
proof -
  have "\<exists>r. collectE (\<lambda>_ t. bindE (evict t) (\<lambda>(i, h, t). Inr ((i, h), t))) ns t
      = Inr (map (\<lambda>(i, b). (i, md_content_hash b)) (take (length ns) (sort_key lru_key t)), r) \<and>
    mset r = mset (drop (length ns) (sort_key lru_key t))" if "length ns \<le> length t" for ns :: "nat list"
    using that assms(1,2)
  proof (induction ns arbitrary: t)
    case (Cons n ns)
    then have "t \<noteq> []" by auto
    obtain as i b bs where e: "t = as @ (i, b) # bs" "evict t = Inr (i, md_content_hash b, as @ bs)"
      "sort_key lru_key t = (i, b) # sort_key lru_key (as @ bs)" using evict_least [OF Cons.prems(2,3) \<open>t \<noteq> []\<close>] by metis
    have "access_order (as @ bs)" "distinct (map fst (as @ bs))" "length ns \<le> length (as @ bs)"
      using Cons.prems unfolding e(1) by (auto simp: sorted_append)
    from Cons.IH [OF this(3,1,2)] show ?case by (auto simp: e(2,3))
  qed simp
  from this [of "[0..<n]"] show ?thesis using assms(3) by (simp add: evict_many_def)
qed
section \<open>Runs\<close>

text \<open>The tables that a client builds who never adds a block with a timestamp older than the newest one.\<close>

inductive ev_run :: "real \<Rightarrow> evictor \<Rightarrow> bool" where
  init: "ev_run now []"
| add: "ev_run now t \<Longrightarrow> now \<le> now' \<Longrightarrow> \<not> ev_contains t i \<Longrightarrow> ev_run now' (ev_add i h k now' t)"
| remove: "ev_run now t \<Longrightarrow> ev_remove i t = Inr t' \<Longrightarrow> ev_run now t'"
| evict: "ev_run now t \<Longrightarrow> evict t = Inr (i, h, t') \<Longrightarrow> ev_run now t'"

lemma access_order_del: "access_order t \<Longrightarrow> access_order (dict_del i t)"
  unfolding dict_del_def by (rule sorted_filter)

lemma ev_run_order:
  "ev_run now t \<Longrightarrow> access_order t \<and> distinct (map fst t) \<and> (\<forall>(i, b) \<in> set t. md_last_accessed b \<le> now)"
proof (induction rule: ev_run.induct)
  case (add now t now' i h k)
  then show ?case by (fastforce simp: ev_add_def dict_set_fresh sorted_append)
next
  case (remove now t i t')
  then have "t' = dict_del i t" by (simp add: ev_remove_def)
  then show ?case using remove access_order_del by (auto simp: dict_del_def intro: distinct_map_filter)
next
  case (evict now t i h t')
  then obtain j where "t' = dict_del j t" by (cases t) (auto simp: Let_def split: prod.splits)
  then show ?case using evict access_order_del by (auto simp: dict_del_def intro: distinct_map_filter)
qed simp

text \<open>
  C23. As long as blocks enter the evictor in the order of their last access, evicting any number of
  blocks returns the blocks that come first in the documented order: oldest first, among equally old
  ones the block with the most hashed tokens, then the one that entered first. The others stay.
\<close>

theorem evictor_is_lru:
  assumes "ev_run now t" "n \<le> ev_num_blocks t"
  shows "\<exists>r. evict_many n t = Inr (map (\<lambda>(i, b). (i, md_content_hash b)) (take n (sort_key lru_key t)), r) \<and>
    mset r = mset (drop n (sort_key lru_key t))"
proof (rule evict_many_lru)
  show "access_order t" "distinct (map fst t)" using ev_run_order [OF assms(1)] by auto
  show "n \<le> length t" using assms(2) by (simp add: ev_num_blocks_def)
qed

text \<open>Three blocks of one sequence and one of a later sequence.\<close>

definition ex_evictor :: evictor where
  "ex_evictor = ev_add 7 40 2 3 (ev_add 5 30 6 1 (ev_add 4 20 4 1 (ev_add 3 10 2 1 [])))"

theorem evictor_is_lru_witness:
  "\<exists>r. evict_many 3 ex_evictor = Inr ([(5, 30), (4, 20), (3, 10)], r) \<and> map fst r = [7]"
proof -
  have "ev_run 3 ex_evictor" unfolding ex_evictor_def
    by (rule ev_run.add [OF ev_run.add [OF ev_run.add [OF ev_run.add [OF ev_run.init [of 1]]]]])
       (simp_all add: ev_add_def)
  from evictor_is_lru [OF this, of 3] obtain r where
    r: "evict_many 3 ex_evictor = Inr (map (\<lambda>(i, b). (i, md_content_hash b)) (take 3 (sort_key lru_key ex_evictor)), r)"
    "mset r = mset (drop 3 (sort_key lru_key ex_evictor))"
    by (auto simp: ev_num_blocks_def ex_evictor_def ev_add_def)
  have s: "sort_key lru_key ex_evictor = [(5, \<lparr>md_content_hash = 30, md_num_hashed_tokens = 6, md_last_accessed = 1\<rparr>),
      (4, \<lparr>md_content_hash = 20, md_num_hashed_tokens = 4, md_last_accessed = 1\<rparr>),
      (3, \<lparr>md_content_hash = 10, md_num_hashed_tokens = 2, md_last_accessed = 1\<rparr>),
      (7, \<lparr>md_content_hash = 40, md_num_hashed_tokens = 2, md_last_accessed = 3\<rparr>)]"
    by (simp add: ex_evictor_def ev_add_def lru_key_def less_eq_prod_def)
  show ?thesis using r by (auto simp: s)
qed

text \<open>
  The scan trusts the order of the dictionary. A block that enters with an older timestamp than one
  already there, as a swapped-out block does whose tracker still has the default time, or a block whose
  timestamp \<open>update\<close> renews, keeps its place: the newer block is evicted first.
\<close>

lemma evict_ignores_older_block:
  assumes "t2 < t1" "k2 \<le> k1" "i \<noteq> j"
  shows "evict (ev_add j h2 k2 t2 (ev_add i h1 k1 t1 [])) = Inr (i, h1, ev_add j h2 k2 t2 [])"
  using assms by (simp add: ev_add_def dict_del_def)

lemma evict_ignores_update:
  assumes "t2 < t3" "k2 \<le> k1" "i \<noteq> j"
  shows "bindE (ev_update i t3 (ev_add j h2 k2 t2 (ev_add i h1 k1 t1 []))) evict = Inr (i, h1, ev_add j h2 k2 t2 [])"
  using assms by (simp add: ev_add_def ev_update_def dict_del_def)

end
