(* ===== verification/Scheduler.thy ===== *)
theory Scheduler
  imports Manager_Interface "HOL-Library.List_Lexorder" "HOL-Library.Char_ord" "HOL-Library.Product_Lexorder"
begin

text \<open>
  \<open>vllm/core/scheduler.py\<close>. Sequence groups are shared mutable objects of the code: here a store \<open>sc_groups\<close>
  from references to groups, and the queues hold references. A deque is a list whose head is its left
  end. The object caches of the code only recycle output objects; outputs are fresh values here. The
  artificial preemption used by tests is off.
\<close>

section \<open>Scheduling budget\<close>

record budget =
  bg_token_budget :: int
  bg_max_num_seqs :: int
  bg_request_ids_num_batched_tokens :: "string set"
  bg_request_ids_num_curr_seqs :: "string set"
  bg_num_batched_tokens :: int
  bg_num_curr_seqs :: int

definition new_budget :: "int \<Rightarrow> int \<Rightarrow> budget" where
  "new_budget token_budget max_num_seqs =
     \<lparr>bg_token_budget = token_budget, bg_max_num_seqs = max_num_seqs, bg_request_ids_num_batched_tokens = {},
      bg_request_ids_num_curr_seqs = {}, bg_num_batched_tokens = 0, bg_num_curr_seqs = 0\<rparr>"

definition can_schedule :: "int \<Rightarrow> int \<Rightarrow> budget \<Rightarrow> py_error + bool" where
  "can_schedule num_new_tokens num_new_seqs b =
     bindE (py_assert (num_new_tokens \<noteq> 0)) (\<lambda>_.
     bindE (py_assert (num_new_seqs \<noteq> 0)) (\<lambda>_.
     Inr (bg_num_batched_tokens b + num_new_tokens \<le> bg_token_budget b \<and>
          bg_num_curr_seqs b + num_new_seqs \<le> bg_max_num_seqs b)))"

definition remaining_token_budget :: "budget \<Rightarrow> int" where
  "remaining_token_budget b = bg_token_budget b - bg_num_batched_tokens b"

definition add_num_batched_tokens :: "string \<Rightarrow> int \<Rightarrow> budget \<Rightarrow> budget" where
  "add_num_batched_tokens req_id n b =
     (if req_id \<in> bg_request_ids_num_batched_tokens b then b
      else b\<lparr>bg_request_ids_num_batched_tokens := insert req_id (bg_request_ids_num_batched_tokens b),
             bg_num_batched_tokens := bg_num_batched_tokens b + n\<rparr>)"

definition subtract_num_batched_tokens :: "string \<Rightarrow> int \<Rightarrow> budget \<Rightarrow> budget" where
  "subtract_num_batched_tokens req_id n b =
     (if req_id \<in> bg_request_ids_num_batched_tokens b
      then b\<lparr>bg_request_ids_num_batched_tokens := bg_request_ids_num_batched_tokens b - {req_id},
             bg_num_batched_tokens := bg_num_batched_tokens b - n\<rparr>
      else b)"

definition add_num_seqs :: "string \<Rightarrow> int \<Rightarrow> budget \<Rightarrow> budget" where
  "add_num_seqs req_id n b =
     (if req_id \<in> bg_request_ids_num_curr_seqs b then b
      else b\<lparr>bg_request_ids_num_curr_seqs := insert req_id (bg_request_ids_num_curr_seqs b),
             bg_num_curr_seqs := bg_num_curr_seqs b + n\<rparr>)"

definition subtract_num_seqs :: "string \<Rightarrow> int \<Rightarrow> budget \<Rightarrow> budget" where
  "subtract_num_seqs req_id n b =
     (if req_id \<in> bg_request_ids_num_curr_seqs b
      then b\<lparr>bg_request_ids_num_curr_seqs := bg_request_ids_num_curr_seqs b - {req_id},
             bg_num_curr_seqs := bg_num_curr_seqs b - n\<rparr>
      else b)"

section \<open>Configuration, state and outputs\<close>

type_synonym gid = nat

datatype preemption_mode = SWAP | RECOMPUTE

text \<open>
  \<open>cf_max_loras\<close> is \<open>lora_config.max_loras\<close>, \<open>None\<close> without LoRA. \<open>cf_output_proc\<close> is the callback of the
  asynchronous output processor, a parameter that may change groups and block manager.
\<close>

record 'b config =
  cf_max_num_batched_tokens :: nat
  cf_max_num_seqs :: nat
  cf_max_model_len :: nat
  cf_chunked_prefill_enabled :: bool
  cf_is_multi_step :: bool
  cf_num_scheduler_steps :: nat
  cf_num_lookahead_slots :: nat
  cf_delay_factor :: real
  cf_policy :: string
  cf_preemption_mode :: "string option"
  cf_send_delta_data :: bool
  cf_max_loras :: "nat option"
  cf_enable_prefix_caching :: bool
  cf_block_size :: nat
  cf_output_proc :: "(string \<Rightarrow> (gid \<Rightarrow> seq_group) \<times> 'b \<Rightarrow> py_error + ((gid \<Rightarrow> seq_group) \<times> 'b)) option"

record 'b scheduler =
  sc_groups :: "gid \<Rightarrow> seq_group"
  sc_block_manager :: 'b
  sc_waiting :: "gid list"
  sc_running :: "gid list"
  sc_swapped :: "gid list"
  sc_finished_requests_ids :: "string list"
  sc_prev_time :: real
  sc_prev_prompt :: bool
  sc_last_prompt_latency :: real
  sc_num_cumulative_preemption :: nat
  sc_async_stopped :: "gid list"

definition scheduler_init :: "(gid \<Rightarrow> seq_group) \<Rightarrow> 'b \<Rightarrow> 'b scheduler" where
  "scheduler_init groups bm =
     \<lparr>sc_groups = groups, sc_block_manager = bm, sc_waiting = [], sc_running = [], sc_swapped = [],
      sc_finished_requests_ids = [], sc_prev_time = 0, sc_prev_prompt = False, sc_last_prompt_latency = 0,
      sc_num_cumulative_preemption = 0, sc_async_stopped = []\<rparr>"

definition put_group :: "gid \<Rightarrow> seq_group \<Rightarrow> 'b scheduler \<Rightarrow> 'b scheduler" where
  "put_group i g s = s\<lparr>sc_groups := (sc_groups s)(i := g)\<rparr>"

record scheduled =
  sch_group :: gid
  sch_token_chunk_size :: int

record running_outputs =
  ro_decode_seq_groups :: "scheduled list"
  ro_prefill_seq_groups :: "scheduled list"
  ro_preempted :: "gid list"
  ro_swapped_out :: "gid list"
  ro_blocks_to_swap_out :: block_pairs
  ro_blocks_to_copy :: block_pairs
  ro_num_lookahead_slots :: nat

definition running_outputs_empty :: running_outputs where
  "running_outputs_empty =
     \<lparr>ro_decode_seq_groups = [], ro_prefill_seq_groups = [], ro_preempted = [], ro_swapped_out = [],
      ro_blocks_to_swap_out = [], ro_blocks_to_copy = [], ro_num_lookahead_slots = 0\<rparr>"

record swapped_in_outputs =
  so_decode_seq_groups :: "scheduled list"
  so_prefill_seq_groups :: "scheduled list"
  so_blocks_to_swap_in :: block_pairs
  so_blocks_to_copy :: block_pairs
  so_num_lookahead_slots :: nat
  so_infeasible_seq_groups :: "gid list"

definition swapped_in_outputs_empty :: swapped_in_outputs where
  "swapped_in_outputs_empty =
     \<lparr>so_decode_seq_groups = [], so_prefill_seq_groups = [], so_blocks_to_swap_in = [], so_blocks_to_copy = [],
      so_num_lookahead_slots = 0, so_infeasible_seq_groups = []\<rparr>"

record prefill_outputs =
  po_seq_groups :: "scheduled list"
  po_ignored_seq_groups :: "gid list"
  po_num_lookahead_slots :: nat

definition prefill_outputs_empty :: prefill_outputs where
  "prefill_outputs_empty = \<lparr>po_seq_groups = [], po_ignored_seq_groups = [], po_num_lookahead_slots = 0\<rparr>"

record scheduler_outputs =
  out_scheduled_seq_groups :: "scheduled list"
  out_num_prefill_groups :: nat
  out_num_batched_tokens :: int
  out_blocks_to_swap_in :: block_pairs
  out_blocks_to_swap_out :: block_pairs
  out_blocks_to_copy :: block_pairs
  out_ignored_seq_groups :: "gid list"
  out_num_lookahead_slots :: nat
  out_running_queue_size :: nat
  out_preempted :: nat

text \<open>\<open>SchedulerOutputs.__post_init__\<close>: with LoRA requests the scheduled groups are sorted.\<close>

definition sort_by_lora_ids :: "(gid \<Rightarrow> seq_group) \<Rightarrow> scheduled list \<Rightarrow> scheduled list" where
  "sort_by_lora_ids gs xs =
     sort_key (\<lambda>x. (sg_lora_int_id (gs (sch_group x)), sg_request_id (gs (sch_group x)))) xs"

definition make_outputs :: "(gid \<Rightarrow> seq_group) \<Rightarrow> scheduler_outputs \<Rightarrow> py_error + scheduler_outputs" where
  "make_outputs gs out =
     bindE (py_assert (\<not> (out_blocks_to_swap_in out \<noteq> [] \<and> out_blocks_to_swap_out out \<noteq> []))) (\<lambda>_.
     Inr (if \<exists>x\<in>set (out_scheduled_seq_groups out). sg_lora_request (gs (sch_group x)) \<noteq> None
          then out\<lparr>out_scheduled_seq_groups := sort_by_lora_ids gs (out_scheduled_seq_groups out)\<rparr>
          else out))"

definition out_is_empty :: "scheduler_outputs \<Rightarrow> bool" where
  "out_is_empty out \<longleftrightarrow> out_scheduled_seq_groups out = [] \<and> out_blocks_to_swap_in out = [] \<and>
     out_blocks_to_swap_out out = [] \<and> out_blocks_to_copy out = []"

section \<open>Helpers of the scheduler\<close>

definition get_num_lookahead_slots :: "'b config \<Rightarrow> bool \<Rightarrow> bool \<Rightarrow> nat" where
  "get_num_lookahead_slots cfg is_prefill enable_chunking =
     (if is_prefill
      then (if cf_is_multi_step cfg \<and> enable_chunking then cf_num_lookahead_slots cfg + 1 else 0)
      else cf_num_lookahead_slots cfg)"

definition get_prompt_limit :: "'b config \<Rightarrow> seq_group \<Rightarrow> py_error + nat" where
  "get_prompt_limit cfg g =
     (let prompt_limit = (if cf_chunked_prefill_enabled cfg \<and> \<not> cf_is_multi_step cfg then cf_max_model_len cfg
                          else min (cf_max_model_len cfg) (cf_max_num_batched_tokens cfg)) in
      case sg_lora_request g of
        None \<Rightarrow> Inr prompt_limit
      | Some l \<Rightarrow> (case lr_long_lora_max_len l of
            None \<Rightarrow> Inr prompt_limit
          | Some m \<Rightarrow> if m = 0 then Inr prompt_limit
                      else bindE (py_assert (prompt_limit \<le> m)) (\<lambda>_. Inr m)))"

definition get_num_new_tokens :: "'b config \<Rightarrow> seq_group \<Rightarrow> seq_status \<Rightarrow> bool \<Rightarrow> budget \<Rightarrow> py_error + int" where
  "get_num_new_tokens cfg g status enable_chunking b =
     (let seqs = sg_get_seqs (Some status) g;
          num_new_tokens = sum_list (map sq_get_num_new_tokens seqs) in
      bindE (py_assert (num_new_tokens > 0)) (\<lambda>_.
      if enable_chunking \<and> length seqs = 1
      then let remaining = remaining_token_budget b in
           if cf_is_multi_step cfg
           then bindE (get_prompt_limit cfg g) (\<lambda>limit.
                Inr (if num_new_tokens > int limit then num_new_tokens
                     else if num_new_tokens > remaining then 0 else num_new_tokens))
           else if cf_enable_prefix_caching cfg
           then bindE (raise_unless ZeroDivisionError (cf_block_size cfg \<noteq> 0)) (\<lambda>_.
                let block_size = int (cf_block_size cfg) in
                bindE (raise_unless ValueError (bg_token_budget b mod block_size = 0)) (\<lambda>_.
                Inr (if remaining < num_new_tokens then remaining div block_size * block_size else num_new_tokens)))
           else Inr (min num_new_tokens remaining)
      else Inr num_new_tokens))"

definition get_priority :: "(gid \<Rightarrow> seq_group) \<Rightarrow> gid \<Rightarrow> int \<times> real" where
  "get_priority gs i = (sg_priority (gs i), sg_arrival_time (gs i))"

text \<open>\<open>passed_delay\<close> with the clock reading \<open>now\<close> and the waiting queue it looks at.\<close>

definition passed_delay :: "'b config \<Rightarrow> real \<Rightarrow> gid list \<Rightarrow> 'b scheduler \<Rightarrow> bool \<times> 'b scheduler" where
  "passed_delay cfg now waiting s =
     (let s = (if sc_prev_prompt s then s\<lparr>sc_last_prompt_latency := now - sc_prev_time s\<rparr> else s);
          s = s\<lparr>sc_prev_time := now, sc_prev_prompt := False\<rparr>
      in (if cf_delay_factor cfg > 0 \<and> waiting \<noteq> []
          then now - Min (set (map (\<lambda>i. rm_arrival_time (sg_metrics (sc_groups s i))) waiting))
                 > cf_delay_factor cfg * sc_last_prompt_latency s \<or> sc_running s = []
          else True, s))"

definition can_append_slots :: "'b manager_ops \<Rightarrow> 'b config \<Rightarrow> seq_group \<Rightarrow> bool \<Rightarrow> 'b \<Rightarrow> py_error + bool" where
  "can_append_slots B cfg g enable_chunking bm =
     bindE (sg_is_prefill g) (\<lambda>is_prefill.
     let num_lookahead_slots = get_num_lookahead_slots cfg is_prefill enable_chunking in
     bindE (py_assert (is_prefill \<and> num_lookahead_slots > 0 \<longrightarrow> cf_is_multi_step cfg \<and> enable_chunking)) (\<lambda>_.
     bm_can_append_slots B g num_lookahead_slots bm))"

section \<open>Changing the state of a group\<close>

text \<open>\<open>for seq in seq_group.get_seqs(status=\<dots>): seq.status = \<dots>\<close>.\<close>

definition change_status :: "seq_status \<Rightarrow> seq_status \<Rightarrow> seq_group \<Rightarrow> seq_group" where
  "change_status old new g = g\<lparr>sg_seqs := map (\<lambda>s. if sq_status s = old then s\<lparr>sq_status := new\<rparr> else s) (sg_seqs g)\<rparr>"

definition set_all_status :: "seq_status \<Rightarrow> seq_group \<Rightarrow> seq_group" where
  "set_all_status new g = g\<lparr>sg_seqs := map (\<lambda>s. s\<lparr>sq_status := new\<rparr>) (sg_seqs g)\<rparr>"

definition free_seq :: "'b manager_ops \<Rightarrow> sequence \<Rightarrow> 'b scheduler \<Rightarrow> py_error + 'b scheduler" where
  "free_seq B seq s = bindE (bm_free B seq (sc_block_manager s)) (\<lambda>bm. Inr (s\<lparr>sc_block_manager := bm\<rparr>))"

definition fork_seq :: "'b manager_ops \<Rightarrow> sequence \<Rightarrow> sequence \<Rightarrow> 'b scheduler \<Rightarrow> py_error + 'b scheduler" where
  "fork_seq B parent child s =
     bindE (bm_fork B parent child (sc_block_manager s)) (\<lambda>bm. Inr (s\<lparr>sc_block_manager := bm\<rparr>))"

definition free_seq_group_cross_attn_blocks ::
  "'b manager_ops \<Rightarrow> gid \<Rightarrow> 'b scheduler \<Rightarrow> py_error + 'b scheduler" where
  "free_seq_group_cross_attn_blocks B i s =
     (if is_encoder_decoder (sc_groups s i)
      then bindE (bm_free_cross B (sc_groups s i) (sc_block_manager s)) (\<lambda>bm. Inr (s\<lparr>sc_block_manager := bm\<rparr>))
      else Inr s)"

definition free_finished_seqs :: "'b manager_ops \<Rightarrow> gid \<Rightarrow> 'b scheduler \<Rightarrow> py_error + 'b scheduler" where
  "free_finished_seqs B i s = foldE (free_seq B) (filter sq_is_finished (sg_seqs (sc_groups s i))) s"

definition free_finished_seq_group :: "'b manager_ops \<Rightarrow> gid \<Rightarrow> 'b scheduler \<Rightarrow> py_error + 'b scheduler" where
  "free_finished_seq_group B i s =
     bindE (if sg_is_finished (sc_groups s i)
            then bindE (free_seq_group_cross_attn_blocks B i s) (\<lambda>s.
                 Inr (s\<lparr>sc_finished_requests_ids := sc_finished_requests_ids s @ [sg_request_id (sc_groups s i)]\<rparr>))
            else Inr s) (\<lambda>s.
     free_finished_seqs B i s)"

definition allocate_and_set_running :: "'b manager_ops \<Rightarrow> gid \<Rightarrow> 'b scheduler \<Rightarrow> py_error + 'b scheduler" where
  "allocate_and_set_running B i s =
     bindE (bm_allocate B (sc_groups s i) (sc_block_manager s)) (\<lambda>bm.
     Inr (put_group i (change_status WAITING RUNNING (sc_groups s i)) (s\<lparr>sc_block_manager := bm\<rparr>)))"

text \<open>The loop of \<open>_append_slots\<close>; a manager that returns \<open>None\<close> makes \<open>len(cows)\<close> raise.\<close>

fun append_slots_loop ::
  "'b manager_ops \<Rightarrow> nat \<Rightarrow> sequence list \<Rightarrow> block_pairs \<Rightarrow> 'b \<Rightarrow> py_error + (block_pairs \<times> 'b)" where
  "append_slots_loop B num_lookahead_slots [] blocks_to_copy bm = Inr (blocks_to_copy, bm)"
| "append_slots_loop B num_lookahead_slots (seq # seqs) blocks_to_copy bm =
     bindE (bm_append_slots B seq num_lookahead_slots bm) (\<lambda>(cows, bm).
     bindE (from_option TypeError cows) (\<lambda>cows.
     append_slots_loop B num_lookahead_slots seqs (blocks_to_copy @ cows) bm))"

definition append_slots ::
  "'b manager_ops \<Rightarrow> 'b config \<Rightarrow> gid \<Rightarrow> bool \<Rightarrow> block_pairs \<Rightarrow> 'b scheduler \<Rightarrow> py_error + (block_pairs \<times> 'b scheduler)" where
  "append_slots B cfg i enable_chunking blocks_to_copy s =
     bindE (sg_is_prefill (sc_groups s i)) (\<lambda>is_prefill.
     let num_lookahead_slots = get_num_lookahead_slots cfg is_prefill enable_chunking in
     bindE (init_multi_step_from_lookahead_slots num_lookahead_slots (cf_num_scheduler_steps cfg)
              (cf_is_multi_step cfg) enable_chunking (sc_groups s i)) (\<lambda>g.
     let s = put_group i g s;
         seq_status = (if cf_is_multi_step cfg \<and> enable_chunking then None else Some RUNNING) in
     bindE (append_slots_loop B num_lookahead_slots (sg_get_seqs seq_status g) blocks_to_copy (sc_block_manager s))
       (\<lambda>(blocks_to_copy, bm). Inr (blocks_to_copy, s\<lparr>sc_block_manager := bm\<rparr>))))"

definition preempt_by_recompute :: "'b manager_ops \<Rightarrow> gid \<Rightarrow> 'b scheduler \<Rightarrow> py_error + 'b scheduler" where
  "preempt_by_recompute B i s =
     (let g = sc_groups s i; seqs = sg_get_seqs (Some RUNNING) g in
      bindE (py_assert (length seqs = 1)) (\<lambda>_.
      bindE (foldE (free_seq B) (map (\<lambda>q. q\<lparr>sq_status := WAITING\<rparr>) seqs) s) (\<lambda>s.
      Inr (put_group i (g\<lparr>sg_seqs := map (\<lambda>q. if sq_status q = RUNNING
             then sq_reset_state_for_recompute (q\<lparr>sq_status := WAITING\<rparr>) else q) (sg_seqs g)\<rparr>) s))))"

definition swap_in :: "'b manager_ops \<Rightarrow> gid \<Rightarrow> block_pairs \<Rightarrow> 'b scheduler \<Rightarrow> py_error + (block_pairs \<times> 'b scheduler)" where
  "swap_in B i blocks_to_swap_in s =
     bindE (bm_swap_in B (sc_groups s i) (sc_block_manager s)) (\<lambda>(mapping, bm).
     bindE (from_option TypeError mapping) (\<lambda>mapping.
     Inr (blocks_to_swap_in @ mapping,
          put_group i (change_status SWAPPED RUNNING (sc_groups s i)) (s\<lparr>sc_block_manager := bm\<rparr>))))"

definition swap_out :: "'b manager_ops \<Rightarrow> gid \<Rightarrow> block_pairs \<Rightarrow> 'b scheduler \<Rightarrow> py_error + (block_pairs \<times> 'b scheduler)" where
  "swap_out B i blocks_to_swap_out s =
     bindE (bm_can_swap_out B (sc_groups s i) (sc_block_manager s)) (\<lambda>ok.
     bindE (raise_unless RuntimeError ok) (\<lambda>_.
     bindE (bm_swap_out B (sc_groups s i) (sc_block_manager s)) (\<lambda>(mapping, bm).
     bindE (from_option TypeError mapping) (\<lambda>mapping.
     Inr (blocks_to_swap_out @ mapping,
          put_group i (change_status RUNNING SWAPPED (sc_groups s i)) (s\<lparr>sc_block_manager := bm\<rparr>))))))"

text \<open>\<open>_preempt\<close>; the mode asked for is overwritten on every branch before it is used.\<close>

definition choose_preemption_mode :: "'b config \<Rightarrow> seq_group \<Rightarrow> preemption_mode option \<Rightarrow> preemption_mode" where
  "choose_preemption_mode cfg g mode =
     (case cf_preemption_mode cfg of
        None \<Rightarrow> if get_max_num_running_seqs g = 1 then RECOMPUTE else SWAP
      | Some m \<Rightarrow> if m = ''swap'' then SWAP else RECOMPUTE)"

definition preempt ::
  "'b manager_ops \<Rightarrow> 'b config \<Rightarrow> gid \<Rightarrow> block_pairs \<Rightarrow> preemption_mode option \<Rightarrow> 'b scheduler \<Rightarrow>
     py_error + (preemption_mode \<times> block_pairs \<times> 'b scheduler)" where
  "preempt B cfg i blocks_to_swap_out preemption_mode s =
     (let mode = choose_preemption_mode cfg (sc_groups s i) preemption_mode;
          s = s\<lparr>sc_num_cumulative_preemption := sc_num_cumulative_preemption s + 1\<rparr> in
      case mode of
        RECOMPUTE \<Rightarrow> bindE (preempt_by_recompute B i s) (\<lambda>s. Inr (mode, blocks_to_swap_out, s))
      | SWAP \<Rightarrow> bindE (swap_out B i blocks_to_swap_out s) (\<lambda>(blocks_to_swap_out, s).
                  Inr (mode, blocks_to_swap_out, s)))"

section \<open>Queue operations\<close>

definition add_seq_group :: "gid \<Rightarrow> 'b scheduler \<Rightarrow> 'b scheduler" where
  "add_seq_group i s = s\<lparr>sc_waiting := sc_waiting s @ [i]\<rparr>"

definition has_unfinished_seqs :: "'b scheduler \<Rightarrow> bool" where
  "has_unfinished_seqs s \<longleftrightarrow> length (sc_waiting s) \<noteq> 0 \<or> length (sc_running s) \<noteq> 0 \<or> length (sc_swapped s) \<noteq> 0"

definition get_num_unfinished_seq_groups :: "'b scheduler \<Rightarrow> nat" where
  "get_num_unfinished_seq_groups s = length (sc_waiting s) + length (sc_running s) + length (sc_swapped s)"

definition get_and_reset_finished_requests_ids :: "'b scheduler \<Rightarrow> string list \<times> 'b scheduler" where
  "get_and_reset_finished_requests_ids s = (sc_finished_requests_ids s, s\<lparr>sc_finished_requests_ids := []\<rparr>)"

text \<open>\<open>abort_seq_group\<close>: the groups of a queue to abort, then the work on each.\<close>

fun abort_collect :: "(gid \<Rightarrow> seq_group) \<Rightarrow> string set \<Rightarrow> gid list \<Rightarrow> gid list \<times> string set" where
  "abort_collect gs ids [] = ([], ids)"
| "abort_collect gs ids (i # q) =
     (if ids = {} then ([], ids)
      else if sg_request_id (gs i) \<in> ids
      then let (aborted, ids) = abort_collect gs (ids - {sg_request_id (gs i)}) q in (i # aborted, ids)
      else abort_collect gs ids q)"

definition abort_group :: "'b manager_ops \<Rightarrow> gid \<Rightarrow> 'b scheduler \<Rightarrow> py_error + 'b scheduler" where
  "abort_group B i s =
     (let g = sc_groups s i;
          s = s\<lparr>sc_finished_requests_ids := sc_finished_requests_ids s @ [sg_request_id g]\<rparr> in
      bindE (foldE (free_seq B)
               (map (\<lambda>q. q\<lparr>sq_status := FINISHED_ABORTED\<rparr>) (filter (\<lambda>q. \<not> sq_is_finished q) (sg_seqs g))) s) (\<lambda>s.
      free_seq_group_cross_attn_blocks B i
        (put_group i (g\<lparr>sg_seqs := map (\<lambda>q. if sq_is_finished q then q else q\<lparr>sq_status := FINISHED_ABORTED\<rparr>)
           (sg_seqs g)\<rparr>) s)))"

datatype queue = Waiting | Running | Swapped

fun get_queue :: "queue \<Rightarrow> 'b scheduler \<Rightarrow> gid list" where
  "get_queue Waiting s = sc_waiting s"
| "get_queue Running s = sc_running s"
| "get_queue Swapped s = sc_swapped s"

fun set_queue :: "queue \<Rightarrow> gid list \<Rightarrow> 'b scheduler \<Rightarrow> 'b scheduler" where
  "set_queue Waiting q s = s\<lparr>sc_waiting := q\<rparr>"
| "set_queue Running q s = s\<lparr>sc_running := q\<rparr>"
| "set_queue Swapped q s = s\<lparr>sc_swapped := q\<rparr>"

definition abort_queue :: "'b manager_ops \<Rightarrow> queue \<Rightarrow> string set \<times> 'b scheduler \<Rightarrow> py_error + (string set \<times> 'b scheduler)" where
  "abort_queue B k = (\<lambda>(ids, s).
     let (aborted, ids) = abort_collect (sc_groups s) ids (get_queue k s) in
     bindE (foldE (\<lambda>i s. abort_group B i (set_queue k (remove1 i (get_queue k s)) s)) aborted s) (\<lambda>s.
     Inr (ids, s)))"

definition abort_seq_group :: "'b manager_ops \<Rightarrow> string set \<Rightarrow> 'b scheduler \<Rightarrow> py_error + 'b scheduler" where
  "abort_seq_group B request_ids s =
     bindE (foldE (abort_queue B) [Waiting, Running, Swapped] (request_ids, s)) (\<lambda>(_, s). Inr s)"

definition free_finished_seq_groups :: "'b manager_ops \<Rightarrow> 'b scheduler \<Rightarrow> py_error + 'b scheduler" where
  "free_finished_seq_groups B s =
     bindE (foldE (free_finished_seq_group B) (sc_running s) s) (\<lambda>s.
     let s = s\<lparr>sc_running := filter (\<lambda>i. \<not> sg_is_finished (sc_groups s i)) (sc_running s)\<rparr> in
     bindE (foldE (\<lambda>i s.
              bindE (free_seq_group_cross_attn_blocks B i s) (\<lambda>s.
              free_finished_seqs B i
                (s\<lparr>sc_finished_requests_ids := sc_finished_requests_ids s @ [sg_request_id (sc_groups s i)]\<rparr>)))
            (sc_async_stopped s) s) (\<lambda>s.
     Inr (s\<lparr>sc_async_stopped := []\<rparr>)))"

section \<open>Scheduling the running queue\<close>

text \<open>What the loops update in place: the scheduler, the budget, the LoRA ids and the outputs.\<close>

record ('b, 'o) ctx =
  cx_sched :: "'b scheduler"
  cx_budget :: budget
  cx_loras :: "nat set option"
  cx_out :: 'o

definition add_lora :: "nat \<Rightarrow> nat set option \<Rightarrow> nat set option" where
  "add_lora l loras = (if l > 0 then map_option (insert l) loras else loras)"

definition remove_lora :: "nat \<Rightarrow> nat set option \<Rightarrow> nat set option" where
  "remove_lora l loras = (if l > 0 then map_option (\<lambda>ls. ls - {l}) loras else loras)"

definition record_victim :: "gid \<Rightarrow> preemption_mode \<Rightarrow> block_pairs \<Rightarrow> running_outputs \<Rightarrow> running_outputs" where
  "record_victim v mode blocks_to_swap_out out =
     (let out = out\<lparr>ro_blocks_to_swap_out := blocks_to_swap_out\<rparr> in
      case mode of
        RECOMPUTE \<Rightarrow> out\<lparr>ro_preempted := ro_preempted out @ [v]\<rparr>
      | SWAP \<Rightarrow> out\<lparr>ro_swapped_out := ro_swapped_out out @ [v]\<rparr>)"

text \<open>Preempting a victim; with the asynchronous processor it may turn out to be finished.\<close>

definition preempt_victim ::
  "'b manager_ops \<Rightarrow> 'b config \<Rightarrow> gid \<Rightarrow> ('b, running_outputs) ctx \<Rightarrow> py_error + ('b, running_outputs) ctx" where
  "preempt_victim B cfg v c =
     bindE (case cf_output_proc cfg of
              None \<Rightarrow> Inr (True, cx_sched c)
            | Some callback \<Rightarrow>
                bindE (callback (sg_request_id (sc_groups (cx_sched c) v))
                         (sc_groups (cx_sched c), sc_block_manager (cx_sched c))) (\<lambda>(gs, bm).
                let s = (cx_sched c)\<lparr>sc_groups := gs, sc_block_manager := bm\<rparr> in
                if sg_is_finished (gs v)
                then bindE (free_finished_seq_group B v s) (\<lambda>s. Inr (False, s))
                else Inr (True, s))) (\<lambda>(do_preempt, s).
     if do_preempt
     then bindE (preempt B cfg v (ro_blocks_to_swap_out (cx_out c)) None s) (\<lambda>(mode, blocks_to_swap_out, s).
          Inr (c\<lparr>cx_sched := s, cx_out := record_victim v mode blocks_to_swap_out (cx_out c)\<rparr>))
     else Inr (c\<lparr>cx_sched := s\<rparr>))"

text \<open>What the inner loop gives back to the budget for the group before it looks for a victim.\<close>

definition release_budget :: "gid \<Rightarrow> int \<Rightarrow> ('b, 'o) ctx \<Rightarrow> ('b, 'o) ctx" where
  "release_budget i num_running_tokens c =
     (let g = sc_groups (cx_sched c) i in
      c\<lparr>cx_budget := subtract_num_seqs (sg_request_id g) (int (get_max_num_running_seqs g))
           (subtract_num_batched_tokens (sg_request_id g) num_running_tokens (cx_budget c)),
        cx_loras := remove_lora (sg_lora_int_id g) (cx_loras c)\<rparr>)"

lemma bindE_cong [fundef_cong]:
  "r = r' \<Longrightarrow> (\<And>x. r' = Inr x \<Longrightarrow> f x = f' x) \<Longrightarrow> bindE r f = bindE r' f'"
  by (cases r') auto

text \<open>
  The inner \<open>while\<close> loop: preempt from the right end of the queue until the group fits; when the queue
  is empty the group itself is the victim and the loop is left. The flag says whether it fits.
\<close>

function make_room ::
  "'b manager_ops \<Rightarrow> 'b config \<Rightarrow> bool \<Rightarrow> gid \<Rightarrow> int \<Rightarrow> gid list \<Rightarrow> ('b, running_outputs) ctx \<Rightarrow>
     py_error + (bool \<times> gid list \<times> ('b, running_outputs) ctx)" where
  "make_room B cfg enable_chunking i num_running_tokens q c =
     bindE (can_append_slots B cfg (sc_groups (cx_sched c) i) enable_chunking (sc_block_manager (cx_sched c))) (\<lambda>ok.
     if ok then Inr (True, q, c)
     else let c = release_budget i num_running_tokens c in
          if q = [] then bindE (preempt_victim B cfg i c) (\<lambda>c. Inr (False, [], c))
          else bindE (preempt_victim B cfg (last q) c) (\<lambda>c.
               make_room B cfg enable_chunking i num_running_tokens (butlast q) c))"
  by pat_completeness auto
termination
  by (relation "measure (\<lambda>(_, _, _, _, _, q, _). length q)") (auto simp: length_greater_0_conv)

declare make_room.simps [simp del]

text \<open>The \<open>else\<close> branch of the inner loop: the group is scheduled.\<close>

definition schedule_running_group ::
  "'b manager_ops \<Rightarrow> 'b config \<Rightarrow> bool \<Rightarrow> gid \<Rightarrow> int \<Rightarrow> ('b, running_outputs) ctx \<Rightarrow> py_error + ('b, running_outputs) ctx" where
  "schedule_running_group B cfg enable_chunking i num_running_tokens c =
     bindE (append_slots B cfg i enable_chunking (ro_blocks_to_copy (cx_out c)) (cx_sched c)) (\<lambda>(blocks_to_copy, s).
     let g = sc_groups s i; out = (cx_out c)\<lparr>ro_blocks_to_copy := blocks_to_copy\<rparr> in
     bindE (sg_is_prefill g) (\<lambda>is_prefill.
     let out = (if is_prefill
          then out\<lparr>ro_prefill_seq_groups := ro_prefill_seq_groups out @
                 [\<lparr>sch_group = i, sch_token_chunk_size = num_running_tokens\<rparr>]\<rparr>
          else out\<lparr>ro_decode_seq_groups := ro_decode_seq_groups out @
                 [\<lparr>sch_group = i, sch_token_chunk_size = 1\<rparr>]\<rparr>);
         b = add_num_batched_tokens (sg_request_id g) num_running_tokens (cx_budget c);
         b = (if enable_chunking then add_num_seqs (sg_request_id g) (int (get_max_num_running_seqs g)) b else b)
     in Inr (c\<lparr>cx_sched := s, cx_budget := b, cx_loras := add_lora (sg_lora_int_id g) (cx_loras c), cx_out := out\<rparr>)))"

lemma make_room_length:
  "make_room B cfg ch i n q c = Inr (ok, q', c') \<Longrightarrow> length q' \<le> length q"
proof (induction B cfg ch i n q c rule: make_room.induct)
  case (1 B cfg ch i n q c)
  from "1.prems" show ?case unfolding make_room.simps [of B cfg ch i n q c]
    using "1.IH" by (fastforce simp: Let_def split: if_splits)
qed

text \<open>The outer loop over \<open>running_queue\<close>.\<close>

function running_loop ::
  "'b manager_ops \<Rightarrow> 'b config \<Rightarrow> bool \<Rightarrow> gid list \<Rightarrow> ('b, running_outputs) ctx \<Rightarrow>
     py_error + (gid list \<times> ('b, running_outputs) ctx)" where
  "running_loop B cfg enable_chunking [] c = Inr ([], c)"
| "running_loop B cfg enable_chunking (i # q) c =
     (let g = sc_groups (cx_sched c) i in
      bindE (get_num_new_tokens cfg g RUNNING enable_chunking (cx_budget c)) (\<lambda>num_running_tokens.
      if num_running_tokens = 0 then Inr (i # q, c)
      else bindE (if cf_output_proc cfg = None then Inr False
                  else bindE (raise_unless IndexError (sg_seqs g \<noteq> [])) (\<lambda>_.
                       Inr (sq_get_len (hd (sg_seqs g)) > cf_max_model_len cfg))) (\<lambda>stop.
      if stop
      then running_loop B cfg enable_chunking q
             (c\<lparr>cx_sched := (cx_sched c)\<lparr>sc_async_stopped := sc_async_stopped (cx_sched c) @ [i]\<rparr>\<rparr>)
      else bindE (make_room B cfg enable_chunking i num_running_tokens q c) (\<lambda>(fits, q, c).
           bindE (if fits then schedule_running_group B cfg enable_chunking i num_running_tokens c else Inr c) (\<lambda>c.
           running_loop B cfg enable_chunking q c)))))"
  by pat_completeness auto
termination
  by (relation "measure (\<lambda>(_, _, _, q, _). length q)") (auto dest!: make_room_length)

declare running_loop.simps [simp del]

definition schedule_running ::
  "'b manager_ops \<Rightarrow> 'b config \<Rightarrow> bool \<Rightarrow> budget \<Rightarrow> nat set option \<Rightarrow> 'b scheduler \<Rightarrow>
     py_error + ('b, running_outputs) ctx" where
  "schedule_running B cfg enable_chunking b loras s =
     (let out = running_outputs_empty\<lparr>ro_num_lookahead_slots := get_num_lookahead_slots cfg False enable_chunking\<rparr> in
      bindE (py_assert (sc_async_stopped s = [])) (\<lambda>_.
      bindE (running_loop B cfg enable_chunking (sc_running s)
               \<lparr>cx_sched = s, cx_budget = b, cx_loras = loras, cx_out = out\<rparr>) (\<lambda>(q, c).
      Inr (c\<lparr>cx_sched := (cx_sched c)\<lparr>sc_running := q\<rparr>\<rparr>))))"

section \<open>Scheduling the swapped queue\<close>

text \<open>Whether there is no room for another LoRA; the assertion that \<open>curr_loras\<close> is set comes first.\<close>

definition lora_full :: "'b config \<Rightarrow> seq_group \<Rightarrow> nat set option \<Rightarrow> py_error + bool" where
  "lora_full cfg g loras =
     (case cf_max_loras cfg of
        None \<Rightarrow> Inr False
      | Some max_loras \<Rightarrow>
          bindE (from_option AssertionError loras) (\<lambda>ls.
          Inr (sg_lora_int_id g > 0 \<and> sg_lora_int_id g \<notin> ls \<and> card ls \<ge> max_loras)))"

definition lora_id_if_enabled :: "'b config \<Rightarrow> seq_group \<Rightarrow> nat" where
  "lora_id_if_enabled cfg g = (if cf_max_loras cfg = None then 0 else sg_lora_int_id g)"

text \<open>\<open>num_new_tokens == 0 or not budget.can_schedule(\<dots>)\<close>.\<close>

definition over_budget :: "int \<Rightarrow> int \<Rightarrow> budget \<Rightarrow> py_error + bool" where
  "over_budget num_new_tokens num_new_seqs b =
     (if num_new_tokens = 0 then Inr True
      else bindE (can_schedule num_new_tokens num_new_seqs b) (\<lambda>ok. Inr (\<not> ok)))"

definition swap_in_group ::
  "'b manager_ops \<Rightarrow> 'b config \<Rightarrow> bool \<Rightarrow> gid \<Rightarrow> int \<Rightarrow> int \<Rightarrow> ('b, swapped_in_outputs) ctx \<Rightarrow>
     py_error + ('b, swapped_in_outputs) ctx" where
  "swap_in_group B cfg enable_chunking i num_new_tokens num_new_seqs c =
     (let loras = add_lora (lora_id_if_enabled cfg (sc_groups (cx_sched c) i)) (cx_loras c) in
      bindE (swap_in B i (so_blocks_to_swap_in (cx_out c)) (cx_sched c)) (\<lambda>(blocks_to_swap_in, s).
      bindE (append_slots B cfg i enable_chunking (so_blocks_to_copy (cx_out c)) s) (\<lambda>(blocks_to_copy, s).
      let g = sc_groups s i;
          out = (cx_out c)\<lparr>so_blocks_to_swap_in := blocks_to_swap_in, so_blocks_to_copy := blocks_to_copy\<rparr> in
      bindE (sg_is_prefill g) (\<lambda>is_prefill.
      let out = (if is_prefill
            then out\<lparr>so_prefill_seq_groups := so_prefill_seq_groups out @
                   [\<lparr>sch_group = i, sch_token_chunk_size = num_new_tokens\<rparr>]\<rparr>
            else out\<lparr>so_decode_seq_groups := so_decode_seq_groups out @
                   [\<lparr>sch_group = i, sch_token_chunk_size = 1\<rparr>]\<rparr>)
      in Inr (c\<lparr>cx_sched := s, cx_loras := loras, cx_out := out,
           cx_budget := add_num_seqs (sg_request_id g) num_new_seqs
             (add_num_batched_tokens (sg_request_id g) num_new_tokens (cx_budget c))\<rparr>)))))"

text \<open>The loop; the last argument are the groups left over for lack of LoRA slots, in queue order.\<close>

fun swapped_loop ::
  "'b manager_ops \<Rightarrow> 'b config \<Rightarrow> bool \<Rightarrow> gid list \<Rightarrow> ('b, swapped_in_outputs) ctx \<Rightarrow> gid list \<Rightarrow>
     py_error + (gid list \<times> ('b, swapped_in_outputs) ctx \<times> gid list)" where
  "swapped_loop B cfg enable_chunking [] c leftover = Inr ([], c, leftover)"
| "swapped_loop B cfg enable_chunking (i # q) c leftover =
     (let g = sc_groups (cx_sched c) i in
      bindE (sg_is_prefill g) (\<lambda>is_prefill.
      bindE (bm_can_swap_in B g (get_num_lookahead_slots cfg is_prefill enable_chunking)
               (sc_block_manager (cx_sched c))) (\<lambda>status.
      case status of
        LATER \<Rightarrow> Inr (i # q, c, leftover)
      | NEVER \<Rightarrow>
          swapped_loop B cfg enable_chunking q
            (c\<lparr>cx_sched := put_group i (set_all_status FINISHED_IGNORED g) (cx_sched c),
               cx_out := (cx_out c)\<lparr>so_infeasible_seq_groups := so_infeasible_seq_groups (cx_out c) @ [i]\<rparr>\<rparr>) leftover
      | OK \<Rightarrow>
          bindE (lora_full cfg g (cx_loras c)) (\<lambda>full.
          if full then swapped_loop B cfg enable_chunking q c (leftover @ [i])
          else let num_new_seqs = int (get_max_num_running_seqs g) in
               bindE (get_num_new_tokens cfg g SWAPPED enable_chunking (cx_budget c)) (\<lambda>num_new_tokens.
               bindE (over_budget num_new_tokens num_new_seqs (cx_budget c)) (\<lambda>stop.
               if stop then Inr (i # q, c, leftover)
               else bindE (swap_in_group B cfg enable_chunking i num_new_tokens num_new_seqs c) (\<lambda>c.
                    swapped_loop B cfg enable_chunking q c leftover)))))))"

definition schedule_swapped ::
  "'b manager_ops \<Rightarrow> 'b config \<Rightarrow> bool \<Rightarrow> budget \<Rightarrow> nat set option \<Rightarrow> 'b scheduler \<Rightarrow>
     py_error + ('b, swapped_in_outputs) ctx" where
  "schedule_swapped B cfg enable_chunking b loras s =
     bindE (swapped_loop B cfg enable_chunking (sc_swapped s)
              \<lparr>cx_sched = s, cx_budget = b, cx_loras = loras, cx_out = swapped_in_outputs_empty\<rparr> [])
       (\<lambda>(q, c, leftover).
     Inr (c\<lparr>cx_sched := (cx_sched c)\<lparr>sc_swapped := leftover @ q\<rparr>,
            cx_out := (cx_out c)\<lparr>so_num_lookahead_slots := get_num_lookahead_slots cfg False enable_chunking\<rparr>\<rparr>))"

section \<open>Scheduling the waiting queue\<close>

definition prefill_group ::
  "'b manager_ops \<Rightarrow> 'b config \<Rightarrow> bool \<Rightarrow> gid \<Rightarrow> int \<Rightarrow> int \<Rightarrow> nat \<Rightarrow> ('b, prefill_outputs) ctx \<Rightarrow>
     py_error + ('b, prefill_outputs) ctx" where
  "prefill_group B cfg enable_chunking i num_new_tokens num_new_seqs num_lookahead_slots c =
     (let loras = add_lora (lora_id_if_enabled cfg (sc_groups (cx_sched c) i)) (cx_loras c) in
      bindE (allocate_and_set_running B i (cx_sched c)) (\<lambda>s.
      bindE (if enable_chunking \<and> cf_is_multi_step cfg
             then bindE (append_slots B cfg i enable_chunking [] s) (\<lambda>(blocks_to_copy, s).
                  bindE (py_assert (blocks_to_copy = [])) (\<lambda>_. Inr s))
             else bindE (init_multi_step_from_lookahead_slots num_lookahead_slots (cf_num_scheduler_steps cfg)
                           (cf_is_multi_step cfg) enable_chunking (sc_groups s i)) (\<lambda>g.
                  Inr (put_group i g s))) (\<lambda>s.
      let out = (cx_out c)\<lparr>po_seq_groups := po_seq_groups (cx_out c) @
                   [\<lparr>sch_group = i, sch_token_chunk_size = num_new_tokens\<rparr>]\<rparr>;
          id = sg_request_id (sc_groups s i)
      in Inr (c\<lparr>cx_sched := s, cx_loras := loras, cx_out := out,
           cx_budget := add_num_seqs id num_new_seqs (add_num_batched_tokens id num_new_tokens (cx_budget c))\<rparr>))))"

definition ignore_waiting :: "gid \<Rightarrow> ('b, prefill_outputs) ctx \<Rightarrow> ('b, prefill_outputs) ctx" where
  "ignore_waiting i c =
     c\<lparr>cx_sched := put_group i (change_status WAITING FINISHED_IGNORED (sc_groups (cx_sched c) i)) (cx_sched c),
       cx_out := (cx_out c)\<lparr>po_ignored_seq_groups := po_ignored_seq_groups (cx_out c) @ [i]\<rparr>\<rparr>"

text \<open>The loop; \<open>clock k\<close> is the time at its \<open>k\<close>-th test.\<close>

fun prefill_loop ::
  "'b manager_ops \<Rightarrow> 'b config \<Rightarrow> bool \<Rightarrow> (nat \<Rightarrow> real) \<Rightarrow> nat \<Rightarrow> gid list \<Rightarrow> ('b, prefill_outputs) ctx \<Rightarrow> gid list \<Rightarrow>
     py_error + (gid list \<times> ('b, prefill_outputs) ctx \<times> gid list)" where
  "prefill_loop B cfg enable_chunking clock k [] c leftover =
     (let (_, s) = passed_delay cfg (clock k) [] (cx_sched c) in Inr ([], c\<lparr>cx_sched := s\<rparr>, leftover))"
| "prefill_loop B cfg enable_chunking clock k (i # q) c leftover =
     (let (passed, s) = passed_delay cfg (clock k) (i # q) (cx_sched c);
          c = c\<lparr>cx_sched := s\<rparr>; g = sc_groups s i;
          next = prefill_loop B cfg enable_chunking clock (Suc k) q
      in if \<not> passed then Inr (i # q, c, leftover)
      else let waiting_seqs = sg_get_seqs (Some WAITING) g in
      bindE (py_assert (length waiting_seqs = 1)) (\<lambda>_.
      bindE (get_num_new_tokens cfg g WAITING enable_chunking (cx_budget c)) (\<lambda>num_new_tokens.
      bindE (py_assert (\<not> enable_chunking \<longrightarrow> num_new_tokens = int (sq_get_len (hd waiting_seqs)))) (\<lambda>_.
      bindE (get_prompt_limit cfg g) (\<lambda>prompt_limit.
      if num_new_tokens > int prompt_limit then next (ignore_waiting i c) leftover
      else let num_lookahead_slots = (if cf_is_multi_step cfg \<and> enable_chunking
                 then get_num_lookahead_slots cfg True enable_chunking else 0) in
      bindE (bm_can_allocate B g num_lookahead_slots (sc_block_manager s)) (\<lambda>status.
      case status of
        LATER \<Rightarrow> Inr (i # q, c, leftover)
      | NEVER \<Rightarrow> next (ignore_waiting i c) leftover
      | OK \<Rightarrow>
          bindE (lora_full cfg g (cx_loras c)) (\<lambda>full.
          if full then next c (leftover @ [i])
          else let num_new_seqs = int (get_max_num_running_seqs g) in
               bindE (over_budget num_new_tokens num_new_seqs (cx_budget c)) (\<lambda>stop.
               if stop then Inr (i # q, c, leftover)
               else bindE (prefill_group B cfg enable_chunking i num_new_tokens num_new_seqs num_lookahead_slots c) (\<lambda>c.
                    next c leftover)))))))))"

definition schedule_prefills ::
  "'b manager_ops \<Rightarrow> 'b config \<Rightarrow> bool \<Rightarrow> (nat \<Rightarrow> real) \<Rightarrow> budget \<Rightarrow> nat set option \<Rightarrow> 'b scheduler \<Rightarrow>
     py_error + ('b, prefill_outputs) ctx" where
  "schedule_prefills B cfg enable_chunking clock b loras s =
     bindE (prefill_loop B cfg enable_chunking clock 0 (sc_waiting s)
              \<lparr>cx_sched = s, cx_budget = b, cx_loras = loras, cx_out = prefill_outputs_empty\<rparr> []) (\<lambda>(q, c, leftover).
     let s = (cx_sched c)\<lparr>sc_waiting := leftover @ q\<rparr>;
         s = (if length (po_seq_groups (cx_out c)) > 0 then s\<lparr>sc_prev_prompt := True\<rparr> else s)
     in Inr (c\<lparr>cx_sched := s,
            cx_out := (cx_out c)\<lparr>po_num_lookahead_slots := get_num_lookahead_slots cfg True enable_chunking\<rparr>\<rparr>))"

section \<open>Priority preemption\<close>

text \<open>
  The loop that preempts running groups of lower priority than the first waiting one, from the end of
  the sorted queue; the preempted groups go to the left end of the waiting queue. The list
  \<open>blocks_to_swap_out\<close> that \<open>_preempt\<close> extends is local to the method and dropped.
\<close>

function priority_loop ::
  "'b manager_ops \<Rightarrow> 'b config \<Rightarrow> gid \<Rightarrow> int \<Rightarrow> int \<Rightarrow> gid list \<Rightarrow> gid list \<Rightarrow> block_pairs \<Rightarrow> budget \<Rightarrow> nat \<Rightarrow> 'b scheduler \<Rightarrow>
     py_error + (gid list \<times> gid list \<times> budget \<times> nat \<times> 'b scheduler)" where
  "priority_loop B cfg i num_new_tokens num_new_seqs running waiting blocks b cnt s =
     (if running = [] \<or> \<not> get_priority (sc_groups s) (last running) > get_priority (sc_groups s) i
      then Inr (running, waiting, b, cnt, s)
      else bindE (bm_can_allocate B (sc_groups s i) 0 (sc_block_manager s)) (\<lambda>status.
           bindE (if num_new_tokens \<noteq> 0 \<and> status = OK then can_schedule num_new_tokens num_new_seqs b else Inr False) (\<lambda>stop.
           if stop then Inr (running, waiting, b, cnt, s)
           else let v = last running; g = sc_groups s v in
                bindE (get_num_new_tokens cfg g RUNNING False b) (\<lambda>num_running_tokens.
                let b = subtract_num_seqs (sg_request_id g) (int (get_max_num_running_seqs g))
                          (subtract_num_batched_tokens (sg_request_id g) num_running_tokens b) in
                bindE (preempt B cfg v blocks (Some RECOMPUTE) s) (\<lambda>(_, blocks, s).
                priority_loop B cfg i num_new_tokens num_new_seqs (butlast running) (v # waiting) blocks b (Suc cnt) s)))))"
  by pat_completeness auto
termination
  by (relation "measure (\<lambda>(_, _, _, _, _, running, _). length running)") auto

declare priority_loop.simps [simp del]

definition schedule_priority_preemption ::
  "'b manager_ops \<Rightarrow> 'b config \<Rightarrow> budget \<Rightarrow> 'b scheduler \<Rightarrow> py_error + (nat \<times> budget \<times> 'b scheduler)" where
  "schedule_priority_preemption B cfg b s =
     (let running = sort_key (get_priority (sc_groups s)) (sc_running s) in
      bindE (case sc_waiting s of
               [] \<Rightarrow> Inr (running, [], b, 0, s)
             | i # waiting \<Rightarrow>
                 let num_new_seqs = int (get_max_num_running_seqs (sc_groups s i)) in
                 bindE (get_num_new_tokens cfg (sc_groups s i) WAITING False b) (\<lambda>num_new_tokens.
                 bindE (priority_loop B cfg i num_new_tokens num_new_seqs running waiting [] b 0 s)
                   (\<lambda>(running, waiting, b, cnt, s). Inr (running, i # waiting, b, cnt, s))))
        (\<lambda>(running, waiting, b, cnt, s).
      Inr (cnt, b, s\<lparr>sc_waiting := sort_key (get_priority (sc_groups s)) waiting, sc_running := running\<rparr>)))"

section \<open>The two policies\<close>

definition default_budget :: "'b config \<Rightarrow> 'b scheduler \<Rightarrow> budget" where
  "default_budget cfg s =
     fold (\<lambda>i. add_num_seqs (sg_request_id (sc_groups s i)) (int (get_max_num_running_seqs (sc_groups s i))))
       (sc_running s) (new_budget (int (cf_max_num_batched_tokens cfg)) (int (cf_max_num_seqs cfg)))"

definition default_loras :: "'b config \<Rightarrow> 'b scheduler \<Rightarrow> nat set option" where
  "default_loras cfg s =
     (if cf_max_loras cfg = None then None
      else Some (set (filter (\<lambda>l. l > 0) (map (\<lambda>i. sg_lora_int_id (sc_groups s i)) (sc_running s)))))"

text \<open>The three scheduling loops of the default policy, up to the assertions on the budget.\<close>

definition default_loops ::
  "'b manager_ops \<Rightarrow> 'b config \<Rightarrow> (nat \<Rightarrow> real) \<Rightarrow> 'b scheduler \<Rightarrow>
     py_error + (prefill_outputs \<times> running_outputs \<times> swapped_in_outputs \<times> budget \<times> 'b scheduler)" where
  "default_loops B cfg clock s =
     (let b = default_budget cfg s; loras = default_loras cfg s in
      bindE (if sc_swapped s = [] then schedule_prefills B cfg False clock b loras s
             else Inr \<lparr>cx_sched = s, cx_budget = b, cx_loras = loras, cx_out = prefill_outputs_empty\<rparr>) (\<lambda>cp.
      let prefills = cx_out cp; none = (length (po_seq_groups prefills) = 0) in
      bindE (if none \<and> cf_policy cfg = ''priority''
             then schedule_priority_preemption B cfg (cx_budget cp) (cx_sched cp)
             else Inr (0, cx_budget cp, cx_sched cp)) (\<lambda>(_, b, s).
      bindE (if none then schedule_running B cfg False b (cx_loras cp) s
             else Inr \<lparr>cx_sched = s, cx_budget = b, cx_loras = cx_loras cp, cx_out = running_outputs_empty\<rparr>) (\<lambda>cr.
      let running = cx_out cr in
      bindE (if none \<and> length (ro_preempted running) + length (ro_swapped_out running) = 0
             then schedule_swapped B cfg False (cx_budget cr) (cx_loras cr) (cx_sched cr)
             else Inr \<lparr>cx_sched = cx_sched cr, cx_budget = cx_budget cr, cx_loras = cx_loras cr,
                       cx_out = swapped_in_outputs_empty\<rparr>) (\<lambda>cs.
      Inr (prefills, running, cx_out cs, cx_budget cs, cx_sched cs))))))"

definition assert_budget :: "'b config \<Rightarrow> budget \<Rightarrow> py_error + unit" where
  "assert_budget cfg b =
     bindE (py_assert (bg_num_batched_tokens b \<le> int (cf_max_num_batched_tokens cfg))) (\<lambda>_.
     py_assert (bg_num_curr_seqs b \<le> int (cf_max_num_seqs cfg)))"

definition schedule_default ::
  "'b manager_ops \<Rightarrow> 'b config \<Rightarrow> (nat \<Rightarrow> real) \<Rightarrow> 'b scheduler \<Rightarrow> py_error + (scheduler_outputs \<times> 'b scheduler)" where
  "schedule_default B cfg clock s =
     bindE (default_loops B cfg clock s) (\<lambda>(prefills, running, swapped, b, s).
     bindE (assert_budget cfg b) (\<lambda>_.
     let s = s\<lparr>sc_waiting := rev (ro_preempted running) @ sc_waiting s,
               sc_running := sc_running s @ map sch_group (po_seq_groups prefills) @
                 map sch_group (ro_decode_seq_groups running) @ map sch_group (so_decode_seq_groups swapped),
               sc_swapped := sc_swapped s @ ro_swapped_out running\<rparr> in
     bindE (py_assert (length (ro_prefill_seq_groups running) = 0)) (\<lambda>_.
     bindE (py_assert (length (so_prefill_seq_groups swapped) = 0)) (\<lambda>_.
     bindE (make_outputs (sc_groups s)
       \<lparr>out_scheduled_seq_groups = po_seq_groups prefills @ ro_decode_seq_groups running @ so_decode_seq_groups swapped,
        out_num_prefill_groups = length (po_seq_groups prefills),
        out_num_batched_tokens = bg_num_batched_tokens b,
        out_blocks_to_swap_in = so_blocks_to_swap_in swapped,
        out_blocks_to_swap_out = ro_blocks_to_swap_out running,
        out_blocks_to_copy = ro_blocks_to_copy running @ so_blocks_to_copy swapped,
        out_ignored_seq_groups = po_ignored_seq_groups prefills @ so_infeasible_seq_groups swapped,
        out_num_lookahead_slots = ro_num_lookahead_slots running,
        out_running_queue_size = length (sc_running s),
        out_preempted = length (ro_preempted running) + length (ro_swapped_out running)\<rparr>) (\<lambda>out.
     Inr (out, s))))))"

definition chunked_loops ::
  "'b manager_ops \<Rightarrow> 'b config \<Rightarrow> (nat \<Rightarrow> real) \<Rightarrow> 'b scheduler \<Rightarrow>
     py_error + (prefill_outputs \<times> running_outputs \<times> swapped_in_outputs \<times> budget \<times> 'b scheduler)" where
  "chunked_loops B cfg clock s =
     (let b = new_budget (int (cf_max_num_batched_tokens cfg)) (int (cf_max_num_seqs cfg)) in
      bindE (schedule_running B cfg True b (Some {}) s) (\<lambda>cr.
      let running = cx_out cr in
      bindE (if length (ro_preempted running) + length (ro_swapped_out running) = 0
             then schedule_swapped B cfg False (cx_budget cr) (cx_loras cr) (cx_sched cr)
             else Inr \<lparr>cx_sched = cx_sched cr, cx_budget = cx_budget cr, cx_loras = cx_loras cr,
                       cx_out = swapped_in_outputs_empty\<rparr>) (\<lambda>cs.
      bindE (schedule_prefills B cfg True clock (cx_budget cs) (cx_loras cs) (cx_sched cs)) (\<lambda>cp.
      Inr (cx_out cp, running, cx_out cs, cx_budget cp, cx_sched cp)))))"

definition schedule_chunked_prefill ::
  "'b manager_ops \<Rightarrow> 'b config \<Rightarrow> (nat \<Rightarrow> real) \<Rightarrow> 'b scheduler \<Rightarrow> py_error + (scheduler_outputs \<times> 'b scheduler)" where
  "schedule_chunked_prefill B cfg clock s =
     bindE (chunked_loops B cfg clock s) (\<lambda>(prefills, running, swapped, b, s).
     bindE (assert_budget cfg b) (\<lambda>_.
     let s = s\<lparr>sc_waiting := rev (ro_preempted running) @ sc_waiting s,
               sc_running := sc_running s @ map sch_group (so_decode_seq_groups swapped) @
                 map sch_group (so_prefill_seq_groups swapped) @ map sch_group (ro_decode_seq_groups running) @
                 map sch_group (ro_prefill_seq_groups running) @ map sch_group (po_seq_groups prefills),
               sc_swapped := sc_swapped s @ ro_swapped_out running\<rparr> in
     bindE (make_outputs (sc_groups s)
       \<lparr>out_scheduled_seq_groups = po_seq_groups prefills @ ro_prefill_seq_groups running @
          so_prefill_seq_groups swapped @ ro_decode_seq_groups running @ so_decode_seq_groups swapped,
        out_num_prefill_groups = length (po_seq_groups prefills) + length (so_prefill_seq_groups swapped) +
          length (ro_prefill_seq_groups running),
        out_num_batched_tokens = bg_num_batched_tokens b,
        out_blocks_to_swap_in = so_blocks_to_swap_in swapped,
        out_blocks_to_swap_out = ro_blocks_to_swap_out running,
        out_blocks_to_copy = ro_blocks_to_copy running @ so_blocks_to_copy swapped,
        out_ignored_seq_groups = po_ignored_seq_groups prefills @ so_infeasible_seq_groups swapped,
        out_num_lookahead_slots = ro_num_lookahead_slots running,
        out_running_queue_size = length (sc_running s),
        out_preempted = length (ro_preempted running) + length (ro_swapped_out running)\<rparr>) (\<lambda>out.
     Inr (out, s))))"

definition schedule_policy ::
  "'b manager_ops \<Rightarrow> 'b config \<Rightarrow> (nat \<Rightarrow> real) \<Rightarrow> 'b scheduler \<Rightarrow> py_error + (scheduler_outputs \<times> 'b scheduler)" where
  "schedule_policy B cfg clock s =
     (if cf_chunked_prefill_enabled cfg then schedule_chunked_prefill B cfg clock s else schedule_default B cfg clock s)"

section \<open>The batch sent to the workers\<close>

datatype seq_payload = FullData "(nat \<times> seq_data) list" | DeltaData "(nat \<times> seq_data_delta) list"

text \<open>The parts of \<open>SequenceGroupMetadata\<close> and \<open>SequenceGroupMetadataDelta\<close> that the scheduler computes.\<close>

record metadata =
  md_request_id :: string
  md_is_prompt :: bool
  md_do_sample :: bool
  md_token_chunk_size :: int
  md_payload :: seq_payload
  md_block_tables :: "(nat \<times> block_id list option) list"
  md_computed_block_nums :: "block_id list"
  md_encoder_seq_data :: "seq_data option"
  md_cross_block_table :: "block_id list option"

fun collect_block_tables ::
  "'b manager_ops \<Rightarrow> real \<Rightarrow> sequence list \<Rightarrow> 'b \<Rightarrow> py_error + ((nat \<times> block_id list option) list \<times> 'b)" where
  "collect_block_tables B now [] bm = Inr ([], bm)"
| "collect_block_tables B now (seq # seqs) bm =
     bindE (bm_get_block_table B seq bm) (\<lambda>table.
     bindE (bm_access_all_blocks_in_seq B seq now bm) (\<lambda>bm.
     bindE (collect_block_tables B now seqs bm) (\<lambda>(tables, bm).
     Inr ((sq_seq_id seq, table) # tables, bm))))"

text \<open>\<open>is_prompt\<close>, \<open>is_first_prefill\<close> and \<open>do_sample\<close> of a scheduled group.\<close>

definition prompt_flags :: "seq_group \<Rightarrow> int \<Rightarrow> py_error + (bool \<times> bool \<times> bool)" where
  "prompt_flags g token_chunk_size =
     bindE (sg_is_prefill g) (\<lambda>is_prompt.
     if \<not> is_prompt then Inr (False, False, True)
     else bindE (py_assert (length (sg_seqs g) = 1)) (\<lambda>_.
          let d = sq_data (hd (sg_seqs g)); num_computed_tokens = sd_num_computed_tokens d in
          Inr (True, num_computed_tokens = 0, \<not> token_chunk_size + num_computed_tokens < int (sd_get_len d))))"

definition reset_deltas :: "seq_group \<Rightarrow> seq_group" where
  "reset_deltas g =
     g\<lparr>sg_seqs := map (\<lambda>q. if sq_status q = RUNNING then q\<lparr>sq_data := snd (get_delta_and_reset (sq_data q))\<rparr> else q)
        (sg_seqs g)\<rparr>"

definition make_metadata ::
  "'b manager_ops \<Rightarrow> 'b config \<Rightarrow> real \<Rightarrow> scheduled \<Rightarrow> 'b scheduler \<Rightarrow> py_error + (metadata \<times> 'b scheduler)" where
  "make_metadata B cfg now x s =
     (let i = sch_group x; g = maybe_set_first_scheduled_time now (sc_groups s i); s = put_group i g s;
          running = sg_get_seqs (Some RUNNING) g in
      bindE (case sg_encoder_seq g of
               None \<Rightarrow> Inr (None, None)
             | Some enc \<Rightarrow> bindE (bm_get_cross_block_table B g (sc_block_manager s)) (\<lambda>t. Inr (Some (sq_data enc), t)))
        (\<lambda>(encoder_seq_data, cross_block_table).
      bindE (collect_block_tables B now running (sc_block_manager s)) (\<lambda>(block_tables, bm).
      bindE (if cf_enable_prefix_caching cfg then bm_get_common_computed_block_ids B running bm else Inr ([], bm))
        (\<lambda>(computed, bm).
      bindE (prompt_flags g (sch_token_chunk_size x)) (\<lambda>(is_prompt, is_first_prefill, do_sample).
      let full = (is_first_prefill \<or> \<not> cf_send_delta_data cfg);
          payload = (if full then FullData (map (\<lambda>q. (sq_seq_id q, sq_data q)) running)
                     else DeltaData (map (\<lambda>q. (sq_seq_id q, fst (get_delta_and_reset (sq_data q)))) running));
          s = put_group i (if full then g else reset_deltas g) (s\<lparr>sc_block_manager := bm\<rparr>)
      in Inr (\<lparr>md_request_id = sg_request_id g, md_is_prompt = is_prompt, md_do_sample = do_sample,
               md_token_chunk_size = sch_token_chunk_size x, md_payload = payload, md_block_tables = block_tables,
               md_computed_block_nums = computed, md_encoder_seq_data = encoder_seq_data,
               md_cross_block_table = cross_block_table\<rparr>, s))))))"

definition mark_computed :: "'b manager_ops \<Rightarrow> scheduled \<Rightarrow> 'b scheduler \<Rightarrow> py_error + 'b scheduler" where
  "mark_computed B x s =
     bindE (bm_mark_blocks_as_computed B (sc_groups s (sch_group x)) (nat (sch_token_chunk_size x)) (sc_block_manager s))
       (\<lambda>bm. Inr (s\<lparr>sc_block_manager := bm\<rparr>))"

definition add_scheduler_time :: "real \<Rightarrow> seq_group \<Rightarrow> seq_group" where
  "add_scheduler_time t g =
     g\<lparr>sg_metrics := (sg_metrics g)\<lparr>rm_scheduler_time :=
        Some (case rm_scheduler_time (sg_metrics g) of None \<Rightarrow> t | Some u \<Rightarrow> u + t)\<rparr>\<rparr>"

definition allow_async_output_proc :: "seq_group \<Rightarrow> bool" where
  "allow_async_output_proc g \<longleftrightarrow> sg_best_of g = None \<or> sg_best_of g = Some 1"

text \<open>
  \<open>schedule\<close>: the decision, the metadata of the batch, marking of the computed blocks and the time
  spent (\<open>elapsed\<close>) added to the running groups.
\<close>

definition schedule ::
  "'b manager_ops \<Rightarrow> 'b config \<Rightarrow> (nat \<Rightarrow> real) \<Rightarrow> real \<Rightarrow> real \<Rightarrow> 'b scheduler \<Rightarrow>
     py_error + ((metadata list \<times> scheduler_outputs \<times> bool) \<times> 'b scheduler)" where
  "schedule B cfg clock now elapsed s =
     bindE (schedule_policy B cfg clock s) (\<lambda>(out, s).
     bindE (collectE (make_metadata B cfg now) (out_scheduled_seq_groups out) s) (\<lambda>(mds, s).
     let async = (cf_output_proc cfg \<noteq> None \<and>
           list_all (\<lambda>x. allow_async_output_proc (sc_groups s (sch_group x))) (out_scheduled_seq_groups out)) in
     bindE (foldE (mark_computed B) (out_scheduled_seq_groups out) s) (\<lambda>s.
     Inr ((mds, out, async),
          fold (\<lambda>i s. put_group i (add_scheduler_time elapsed (sc_groups s i)) s) (sc_running s) s))))"

end
