(* ===== verification/Scheduler_Queues.thy ===== *)
theory Scheduler_Queues
  imports Scheduler
begin

text \<open>
  What a scheduling step does with the queues: every group that was queued is afterwards in exactly
  one queue, or reported as ignored, or was stopped by the asynchronous output processor.
\<close>

section \<open>Operations that leave the queues alone\<close>

definition same_queues :: "'b scheduler \<Rightarrow> 'b scheduler \<Rightarrow> bool" where
  "same_queues s s' \<longleftrightarrow> sc_waiting s' = sc_waiting s \<and> sc_running s' = sc_running s \<and> sc_swapped s' = sc_swapped s \<and>
     sc_async_stopped s' = sc_async_stopped s"

lemma same_queues_refl [simp]: "same_queues s s"
  by (simp add: same_queues_def)

lemma same_queues_trans: "same_queues s t \<Longrightarrow> same_queues t u \<Longrightarrow> same_queues s u"
  by (simp add: same_queues_def)

lemma same_queues_upd [simp]:
  "same_queues s (put_group i g t) = same_queues s t" "same_queues s (t\<lparr>sc_block_manager := bm\<rparr>) = same_queues s t"
  "same_queues s (t\<lparr>sc_groups := gs\<rparr>) = same_queues s t"
  "same_queues s (t\<lparr>sc_finished_requests_ids := fs\<rparr>) = same_queues s t"
  "same_queues s (t\<lparr>sc_num_cumulative_preemption := n\<rparr>) = same_queues s t"
  by (simp_all add: same_queues_def put_group_def)

lemma same_queues_foldE:
  assumes "foldE f xs s = Inr s'" "\<And>x s s'. f x s = Inr s' \<Longrightarrow> same_queues s s'"
  shows "same_queues s s'"
  by (rule foldE_inv [OF assms(1)]) (auto intro: same_queues_trans assms(2))

lemma free_seq_queues: "free_seq B q s = Inr s' \<Longrightarrow> same_queues s s'"
  by (auto simp: free_seq_def)

lemma free_seq_groups: "free_seq B q s = Inr s' \<Longrightarrow> sc_groups s' = sc_groups s"
  by (auto simp: free_seq_def)

lemma foldE_groups:
  assumes "foldE f xs s = Inr s'" "\<And>x s s'. f x s = Inr s' \<Longrightarrow> sc_groups s' = sc_groups s"
  shows "sc_groups s' = sc_groups s"
  by (rule foldE_inv [OF assms(1), of "\<lambda>t. sc_groups t = sc_groups s"]) (auto dest: assms(2))

lemma free_cross_groups: "free_seq_group_cross_attn_blocks B i s = Inr s' \<Longrightarrow> sc_groups s' = sc_groups s"
  by (auto simp: free_seq_group_cross_attn_blocks_def split: if_splits)

lemma free_finished_seqs_groups: "free_finished_seqs B i s = Inr s' \<Longrightarrow> sc_groups s' = sc_groups s"
  unfolding free_finished_seqs_def by (erule foldE_groups) (rule free_seq_groups)

lemma free_finished_seq_group_groups: "free_finished_seq_group B i s = Inr s' \<Longrightarrow> sc_groups s' = sc_groups s"
  by (auto simp: free_finished_seq_group_def split: if_splits dest!: free_finished_seqs_groups free_cross_groups)

text \<open>
  What every change of a group keeps: its request id, that it is finished, and how long its first
  sequence has grown.
\<close>

definition group_kept :: "seq_group \<Rightarrow> seq_group \<Rightarrow> bool" where
  "group_kept g g' \<longleftrightarrow> sg_request_id g' = sg_request_id g \<and> (sg_is_finished g \<longrightarrow> sg_is_finished g') \<and>
     (sg_seqs g \<noteq> [] \<longrightarrow> sg_seqs g' \<noteq> [] \<and> sq_get_len (hd (sg_seqs g)) \<le> sq_get_len (hd (sg_seqs g')))"

definition groups_kept :: "'b scheduler \<Rightarrow> 'b scheduler \<Rightarrow> bool" where
  "groups_kept s s' \<longleftrightarrow> (\<forall>i. group_kept (sc_groups s i) (sc_groups s' i))"

lemma group_kept_refl [simp]: "group_kept g g"
  by (simp add: group_kept_def)

lemma group_kept_trans: "group_kept g h \<Longrightarrow> group_kept h k \<Longrightarrow> group_kept g k"
  unfolding group_kept_def by fastforce

lemma groups_kept_refl [simp]: "groups_kept s s"
  by (simp add: groups_kept_def)

lemma groups_kept_trans: "groups_kept s t \<Longrightarrow> groups_kept t u \<Longrightarrow> groups_kept s u"
  unfolding groups_kept_def using group_kept_trans by blast

lemma groups_kept_put: "groups_kept s (put_group i g s) = group_kept (sc_groups s i) g"
  by (auto simp: groups_kept_def put_group_def)

lemma group_kept_map:
  assumes "sg_seqs g' = map f (sg_seqs g)" "sg_request_id g' = sg_request_id g"
    "\<And>q. sq_is_finished q \<Longrightarrow> sq_is_finished (f q)" "\<And>q. sq_get_len (f q) = sq_get_len q"
  shows "group_kept g g'"
  using assms by (auto simp: group_kept_def sg_is_finished_iff hd_map)

lemma group_kept_change: "\<not> status_is_finished a \<Longrightarrow> group_kept g (change_status a b g)"
  by (rule group_kept_map [where f = "\<lambda>s. if sq_status s = a then s\<lparr>sq_status := b\<rparr> else s"])
     (auto simp: change_status_def sq_is_finished_def sq_get_len_def)

lemma group_kept_ignored: "group_kept g (set_all_status FINISHED_IGNORED g)"
  by (rule group_kept_map [where f = "\<lambda>s. s\<lparr>sq_status := FINISHED_IGNORED\<rparr>"])
     (auto simp: set_all_status_def sq_is_finished_def sq_get_len_def)

text \<open>A step that leaves the queues, the finished ids and what it keeps of the groups alone.\<close>

definition quiet :: "'b scheduler \<Rightarrow> 'b scheduler \<Rightarrow> bool" where
  "quiet s s' \<longleftrightarrow> same_queues s s' \<and> sc_finished_requests_ids s' = sc_finished_requests_ids s \<and> groups_kept s s'"

lemma quiet_refl [simp]: "quiet s s"
  by (simp add: quiet_def)

lemma quiet_trans: "quiet s t \<Longrightarrow> quiet t u \<Longrightarrow> quiet s u"
  unfolding quiet_def using same_queues_trans groups_kept_trans by metis

lemma quiet_same: "quiet s s' \<Longrightarrow> same_queues s s'"
  by (simp add: quiet_def)

lemma quiet_put: "group_kept (sc_groups s i) g \<Longrightarrow> quiet s (put_group i g s)"
  by (simp add: quiet_def groups_kept_put) (simp add: put_group_def)

lemma quiet_upd [simp]:
  "quiet s (t\<lparr>sc_block_manager := bm\<rparr>) = quiet s t" "quiet (t\<lparr>sc_block_manager := bm\<rparr>) u = quiet t u"
  "quiet s (t\<lparr>sc_num_cumulative_preemption := n\<rparr>) = quiet s t"
  "quiet (t\<lparr>sc_num_cumulative_preemption := n\<rparr>) u = quiet t u"
  by (simp_all add: quiet_def same_queues_def groups_kept_def)

lemma quiet_put_manager: "group_kept (sc_groups s i) g \<Longrightarrow> quiet s (put_group i g (s\<lparr>sc_block_manager := bm\<rparr>))"
  using quiet_put [of "s\<lparr>sc_block_manager := bm\<rparr>" i g] by simp

lemma free_seq_quiet: "free_seq B q s = Inr s' \<Longrightarrow> quiet s s'"
  by (auto simp: free_seq_def)

lemma quiet_foldE:
  assumes "foldE f xs s = Inr s'" "\<And>x s s'. f x s = Inr s' \<Longrightarrow> quiet s s'"
  shows "quiet s s'"
  by (rule foldE_inv [OF assms(1)]) (auto intro: quiet_trans assms(2))

lemma free_cross_quiet: "free_seq_group_cross_attn_blocks B i s = Inr s' \<Longrightarrow> quiet s s'"
  by (auto simp: free_seq_group_cross_attn_blocks_def split: if_splits)

lemma free_finished_seqs_quiet: "free_finished_seqs B i s = Inr s' \<Longrightarrow> quiet s s'"
  unfolding free_finished_seqs_def by (rule quiet_foldE) (auto intro: free_seq_quiet)

lemma free_finished_seq_group_finished:
  assumes "free_finished_seq_group B i s = Inr s'" "sg_is_finished (sc_groups s i)"
  shows "same_queues s s'" "groups_kept s s'"
    "sc_finished_requests_ids s' = sc_finished_requests_ids s @ [sg_request_id (sc_groups s i)]"
proof -
  obtain t where t: "free_seq_group_cross_attn_blocks B i s = Inr t" and u: "free_finished_seqs B i
      (t\<lparr>sc_finished_requests_ids := sc_finished_requests_ids t @ [sg_request_id (sc_groups t i)]\<rparr>) = Inr s'"
    using assms by (auto simp: free_finished_seq_group_def)
  note a = free_cross_quiet [OF t] and b = free_finished_seqs_quiet [OF u]
  have g: "sg_request_id (sc_groups t i) = sg_request_id (sc_groups s i)"
    using a by (simp add: quiet_def groups_kept_def group_kept_def)
  show "same_queues s s'" using a b by (auto simp: quiet_def same_queues_def)
  have "groups_kept t s'" using b by (simp add: quiet_def groups_kept_def)
  then show "groups_kept s s'" using a groups_kept_trans unfolding quiet_def by blast
  show "sc_finished_requests_ids s' = sc_finished_requests_ids s @ [sg_request_id (sc_groups s i)]"
    using a b g by (simp add: quiet_def)
qed

lemma allocate_quiet: "allocate_and_set_running B i s = Inr s' \<Longrightarrow> quiet s s'"
  by (auto simp: allocate_and_set_running_def intro!: quiet_put_manager group_kept_change)

lemma multi_step_kept:
  "init_multi_step_from_lookahead_slots la st ms ch g = Inr g' \<Longrightarrow> group_kept g g'"
  by (auto simp: init_multi_step_from_lookahead_slots_def init_multi_step_def group_kept_def sg_is_finished_iff split: if_splits)

lemma append_slots_quiet: "append_slots B cfg i ch bc s = Inr (bc', s') \<Longrightarrow> quiet s s'"
  by (auto simp: append_slots_def Let_def intro!: quiet_put dest!: multi_step_kept)

lemma recompute_quiet: "preempt_by_recompute B i s = Inr s' \<Longrightarrow> quiet s s'"
proof -
  let ?f = "\<lambda>q. if sq_status q = RUNNING then sq_reset_state_for_recompute (q\<lparr>sq_status := WAITING\<rparr>) else q"
  let ?g = "(sc_groups s i)\<lparr>sg_seqs := map ?f (sg_seqs (sc_groups s i))\<rparr>"
  assume "preempt_by_recompute B i s = Inr s'"
  then obtain t where t: "foldE (free_seq B) (map (\<lambda>q. q\<lparr>sq_status := WAITING\<rparr>) (sg_get_seqs (Some RUNNING) (sc_groups s i))) s = Inr t"
    and s': "s' = put_group i ?g t" by (auto simp: preempt_by_recompute_def Let_def)
  have q: "quiet s t" by (rule quiet_foldE [OF t]) (rule free_seq_quiet)
  have k: "sc_groups t = sc_groups s" by (rule foldE_inv [OF t]) (auto simp: free_seq_def)
  have "group_kept (sc_groups s i) ?g"
    by (rule group_kept_map [where f = ?f])
       (auto simp: sq_is_finished_def sq_get_len_def sq_reset_state_for_recompute_def
         sd_reset_state_for_recompute_def sd_get_len_def)
  then have "quiet t s'" unfolding s' by (intro quiet_put) (simp add: k)
  then show ?thesis using q quiet_trans by blast
qed

lemma swap_in_quiet: "swap_in B i bs s = Inr (bs', s') \<Longrightarrow> quiet s s'"
  by (auto simp: swap_in_def intro!: quiet_put_manager group_kept_change)

lemma swap_out_quiet: "swap_out B i bs s = Inr (bs', s') \<Longrightarrow> quiet s s'"
  by (auto simp: swap_out_def intro!: quiet_put_manager group_kept_change)

lemma preempt_quiet: "preempt B cfg i bs m s = Inr (mode, bs', s') \<Longrightarrow> quiet s s'"
  unfolding preempt_def Let_def
  by (auto split: preemption_mode.splits dest!: recompute_quiet swap_out_quiet)

lemma passed_delay_quiet: "quiet s (snd (passed_delay cfg now q s))"
  by (auto simp: passed_delay_def Let_def quiet_def same_queues_def groups_kept_def)

section \<open>What the asynchronous output processor may do\<close>

text \<open>
  The callback is the engine's own \<open>_process_model_outputs\<close>, bound to a context and called with a
  request id; the output of a batch is left to it only when no group of the batch samples several
  sequences (\<open>_allow_async_output_proc\<close>), so that none is forked. What it may do to a group: it keeps
  the request id and the sequences, and a sequence keeps its status or becomes finished, and may grow.
\<close>

definition processed :: "seq_group \<Rightarrow> seq_group \<Rightarrow> bool" where
  "processed g g' \<longleftrightarrow> sg_request_id g' = sg_request_id g \<and>
     list_all2 (\<lambda>q q'. (sq_status q' = sq_status q \<or> sq_is_finished q') \<and> sq_get_len q \<le> sq_get_len q') (sg_seqs g) (sg_seqs g')"

definition callback_ok :: "'b config \<Rightarrow> bool" where
  "callback_ok cfg \<longleftrightarrow> (case cf_output_proc cfg of None \<Rightarrow> True
     | Some callback \<Rightarrow> \<forall>r gs bm gs' bm' i. callback r (gs, bm) = Inr (gs', bm') \<longrightarrow> processed (gs i) (gs' i))"

lemma processed_kept: "processed g g' \<Longrightarrow> group_kept g g'"
proof -
  assume p: "processed g g'"
  then have l: "list_all2 (\<lambda>q q'. (sq_status q' = sq_status q \<or> sq_is_finished q') \<and> sq_get_len q \<le> sq_get_len q') (sg_seqs g) (sg_seqs g')"
    by (simp add: processed_def)
  have "\<forall>q\<in>set (sg_seqs g). sq_is_finished q \<Longrightarrow> \<forall>q\<in>set (sg_seqs g'). sq_is_finished q"
    using l by (induction rule: list_all2_induct) (auto simp: sq_is_finished_def)
  moreover have "sg_seqs g \<noteq> [] \<Longrightarrow> sg_seqs g' \<noteq> [] \<and> sq_get_len (hd (sg_seqs g)) \<le> sq_get_len (hd (sg_seqs g'))"
    using l by (cases "sg_seqs g"; cases "sg_seqs g'") auto
  ultimately show ?thesis using p unfolding group_kept_def processed_def sg_is_finished_iff by blast
qed

lemma processed_refl [simp]: "processed g g"
  by (simp add: processed_def list_all2_refl)

text \<open>A group that is over the length limit, for which the running loop stops.\<close>

definition over_length :: "'b config \<Rightarrow> seq_group \<Rightarrow> bool" where
  "over_length cfg g \<longleftrightarrow> sg_seqs g \<noteq> [] \<and> sq_get_len (hd (sg_seqs g)) > cf_max_model_len cfg"

text \<open>
  The groups \<open>D\<close> that a stretch of the step takes out of the queues without a mention in its outputs:
  none without the processor; with it, finished groups, each reported among the finished request ids,
  while the groups it stops are over the length limit.
\<close>

definition accounted :: "'b config \<Rightarrow> gid multiset \<Rightarrow> 'b scheduler \<Rightarrow> 'b scheduler \<Rightarrow> bool" where
  "accounted cfg D s s' \<longleftrightarrow> (cf_output_proc cfg = None \<longrightarrow> D = {#} \<and> sc_async_stopped s' = sc_async_stopped s) \<and>
     (callback_ok cfg \<longrightarrow> groups_kept s s' \<and>
        (\<forall>i\<in>#D. sg_is_finished (sc_groups s' i)) \<and>
        mset (sc_finished_requests_ids s') =
          mset (sc_finished_requests_ids s) + image_mset (\<lambda>i. sg_request_id (sc_groups s' i)) D \<and>
        (\<exists>xs. sc_async_stopped s' = sc_async_stopped s @ xs \<and> (\<forall>i\<in>set xs. over_length cfg (sc_groups s' i))))"

lemma accounted_upd [simp]:
  "accounted cfg D s (t\<lparr>sc_waiting := q\<rparr>) = accounted cfg D s t" "accounted cfg D s (t\<lparr>sc_running := q\<rparr>) = accounted cfg D s t"
  "accounted cfg D s (t\<lparr>sc_swapped := q\<rparr>) = accounted cfg D s t" "accounted cfg D s (t\<lparr>sc_prev_prompt := p\<rparr>) = accounted cfg D s t"
  by (simp_all add: accounted_def groups_kept_def)

lemma over_length_kept: "over_length cfg g \<Longrightarrow> group_kept g g' \<Longrightarrow> over_length cfg g'"
  by (auto simp: over_length_def group_kept_def)

lemma accounted_quiet: "quiet s s' \<Longrightarrow> accounted cfg {#} s s'"
  by (simp add: accounted_def quiet_def same_queues_def)

lemma accounted_trans:
  assumes "accounted cfg D s t" "accounted cfg E t u"
  shows "accounted cfg (D + E) s u"
proof (cases "callback_ok cfg")
  case True
  have k: "group_kept (sc_groups t i) (sc_groups u i)" for i
    using assms(2) True by (simp add: accounted_def groups_kept_def)
  have fin: "sg_is_finished (sc_groups t i) \<Longrightarrow> sg_is_finished (sc_groups u i)" for i
    using k [of i] by (simp add: group_kept_def)
  have "groups_kept s u" using assms True groups_kept_trans unfolding accounted_def by metis
  moreover have "\<forall>i\<in>#D + E. sg_is_finished (sc_groups u i)"
    using assms True fin by (auto simp: accounted_def)
  moreover have "mset (sc_finished_requests_ids u) =
      mset (sc_finished_requests_ids s) + image_mset (\<lambda>i. sg_request_id (sc_groups u i)) (D + E)"
  proof -
    have "(\<lambda>i. sg_request_id (sc_groups u i)) = (\<lambda>i. sg_request_id (sc_groups t i))"
      using k by (auto simp: group_kept_def)
    then show ?thesis using assms True by (simp add: accounted_def)
  qed
  moreover have "\<exists>xs. sc_async_stopped u = sc_async_stopped s @ xs \<and> (\<forall>i\<in>set xs. over_length cfg (sc_groups u i))"
  proof -
    obtain xs ys where x: "sc_async_stopped t = sc_async_stopped s @ xs" "\<forall>i\<in>set xs. over_length cfg (sc_groups t i)"
      and y: "sc_async_stopped u = sc_async_stopped t @ ys" "\<forall>i\<in>set ys. over_length cfg (sc_groups u i)"
      using assms True unfolding accounted_def by metis
    have "\<forall>i\<in>set (xs @ ys). over_length cfg (sc_groups u i)" using x(2) y(2) over_length_kept [OF _ k] by auto
    then show ?thesis using x(1) y(1) by (intro exI [of _ "xs @ ys"]) simp
  qed
  moreover have "cf_output_proc cfg = None \<longrightarrow> D + E = {#} \<and> sc_async_stopped u = sc_async_stopped s"
    using assms by (simp add: accounted_def)
  ultimately show ?thesis by (simp add: accounted_def)
qed (use assms in \<open>simp add: accounted_def\<close>)

lemma accounted_quiet_after: "accounted cfg D s t \<Longrightarrow> quiet t u \<Longrightarrow> accounted cfg D s u"
  using accounted_trans [OF _ accounted_quiet] by fastforce

lemma accounted_quiet_before: "quiet s t \<Longrightarrow> accounted cfg D t u \<Longrightarrow> accounted cfg D s u"
  using accounted_trans [OF accounted_quiet] by fastforce

section \<open>The loops conserve the groups\<close>

definition run_tracked :: "running_outputs \<Rightarrow> gid multiset" where
  "run_tracked out = mset (map sch_group (ro_decode_seq_groups out)) + mset (map sch_group (ro_prefill_seq_groups out)) +
     mset (ro_preempted out) + mset (ro_swapped_out out)"

lemma preempt_victim_conserves:
  assumes "preempt_victim B cfg v c = Inr c'"
  shows "same_queues (cx_sched c) (cx_sched c') \<and>
    (\<exists>D. run_tracked (cx_out c') + D = run_tracked (cx_out c) + {#v#} \<and> accounted cfg D (cx_sched c) (cx_sched c'))"
proof -
  let ?find = "\<lambda>s. case cf_output_proc cfg of None \<Rightarrow> Inr (True, s)
      | Some callback \<Rightarrow> bindE (callback (sg_request_id (sc_groups s v)) (sc_groups s, sc_block_manager s)) (\<lambda>(gs, bm).
          let s = s\<lparr>sc_groups := gs, sc_block_manager := bm\<rparr> in
          if sg_is_finished (gs v) then bindE (free_finished_seq_group B v s) (\<lambda>s. Inr (False, s)) else Inr (True, s))"
  obtain d s where d: "?find (cx_sched c) = Inr (d, s)"
    using assms unfolding preempt_victim_def by auto
  have s: "same_queues (cx_sched c) s \<and> accounted cfg (if d then {#} else {#v#}) (cx_sched c) s"
  proof (cases "cf_output_proc cfg")
    case None
    then show ?thesis using d accounted_quiet [OF quiet_refl] by auto
  next
    case (Some cb)
    then obtain gs bm where cb: "cb (sg_request_id (sc_groups (cx_sched c) v)) (sc_groups (cx_sched c), sc_block_manager (cx_sched c))
        = Inr (gs, bm)" using d by auto
    let ?t = "(cx_sched c)\<lparr>sc_groups := gs, sc_block_manager := bm\<rparr>"
    have k: "callback_ok cfg \<Longrightarrow> groups_kept (cx_sched c) ?t"
      using Some cb processed_kept unfolding callback_ok_def groups_kept_def by simp blast
    show ?thesis
    proof (cases "sg_is_finished (gs v)")
      case True
      then have f: "free_finished_seq_group B v ?t = Inr s" "\<not> d" using d Some cb by (auto simp: Let_def)
      note fin = free_finished_seq_group_finished [OF f(1)]
      have t: "sg_is_finished (sc_groups ?t v)" using True by simp
      have "groups_kept ?t s" by (rule fin(2) [OF t])
      then have v: "sg_is_finished (sc_groups s v)" "sg_request_id (sc_groups s v) = sg_request_id (gs v)"
        using True by (auto simp: groups_kept_def group_kept_def)
      have "same_queues (cx_sched c) s" using fin(1) [OF t] by (simp add: same_queues_def)
      moreover have "callback_ok cfg \<Longrightarrow> groups_kept (cx_sched c) s" using k groups_kept_trans [OF _ fin(2) [OF t]] by blast
      ultimately show ?thesis using v fin(3) [OF t] f(2) Some by (simp add: accounted_def same_queues_def)
    next
      case False
      then have "d" "s = ?t" using d Some cb by (auto simp: Let_def)
      then show ?thesis using k Some by (simp add: accounted_def same_queues_def)
    qed
  qed
  show ?thesis
  proof (cases d)
    case True
    then obtain mode bs s' where p: "preempt B cfg v (ro_blocks_to_swap_out (cx_out c)) None s = Inr (mode, bs, s')"
      and c': "c' = c\<lparr>cx_sched := s', cx_out := record_victim v mode bs (cx_out c)\<rparr>"
      using assms d unfolding preempt_victim_def by (auto simp: Let_def)
    have "run_tracked (cx_out c') = run_tracked (cx_out c) + {#v#}"
      using c' by (cases mode) (simp_all add: run_tracked_def record_victim_def Let_def)
    moreover have "accounted cfg {#} (cx_sched c) (cx_sched c')"
      using s True accounted_quiet_after [OF _ preempt_quiet [OF p]] c' by simp
    moreover have "same_queues (cx_sched c) (cx_sched c')"
      using s same_queues_trans [OF _ quiet_same [OF preempt_quiet [OF p]]] c' by simp
    ultimately show ?thesis by auto
  next
    case False
    then have "c' = c\<lparr>cx_sched := s\<rparr>" using assms d unfolding preempt_victim_def by auto
    then show ?thesis using s False by auto
  qed
qed

lemma sum_chain:
  fixes a b t1 t d1 d2 e :: "'x multiset"
  assumes "a + d2 = b + t1 + e" "t1 + d1 = t"
  shows "a + (d1 + d2) = b + t + e"
proof -
  have "a + (d1 + d2) = (a + d2) + d1" by (simp only: ac_simps)
  also have "\<dots> = b + (t1 + d1) + e" unfolding assms(1) by (simp only: ac_simps)
  finally show ?thesis unfolding assms(2) .
qed

lemma make_room_conserves:
  "make_room B cfg ch i n q c = Inr (fits, q', c') \<Longrightarrow> same_queues (cx_sched c) (cx_sched c') \<and>
     (\<exists>D. mset q' + run_tracked (cx_out c') + (if fits then {#i#} else {#}) + D = mset q + run_tracked (cx_out c) + {#i#} \<and>
       accounted cfg D (cx_sched c) (cx_sched c'))"
proof (induction B cfg ch i n q c rule: make_room.induct)
  case (1 B cfg ch i n q c)
  let ?c = "release_budget i n c"
  have c: "cx_sched ?c = cx_sched c" "cx_out ?c = cx_out c" by (simp_all add: release_budget_def Let_def)
  obtain ok where ok: "can_append_slots B cfg (sc_groups (cx_sched c) i) ch (sc_block_manager (cx_sched c)) = Inr ok"
    using "1.prems" unfolding make_room.simps [of B cfg ch i n q c] by auto
  consider (fits) "ok" | (self) "\<not> ok" "q = []" | (victim) "\<not> ok" "q \<noteq> []" by blast
  then show ?case
  proof cases
    case fits
    then show ?thesis using "1.prems" ok unfolding make_room.simps [of B cfg ch i n q c]
      by (auto intro: accounted_quiet)
  next
    case self
    then have "preempt_victim B cfg i ?c = Inr c'" "q' = []" "\<not> fits"
      using "1.prems" ok unfolding make_room.simps [of B cfg ch i n q c] by (auto simp: Let_def)
    then show ?thesis using preempt_victim_conserves [of B cfg i ?c c'] c self by auto
  next
    case victim
    then obtain c1 where c1: "preempt_victim B cfg (last q) ?c = Inr c1"
      "make_room B cfg ch i n (butlast q) c1 = Inr (fits, q', c')"
      using "1.prems" ok unfolding make_room.simps [of B cfg ch i n q c] by (auto simp: Let_def)
    have q: "mset q = mset (butlast q) + {#last q#}"
      using victim(2) by (metis append_butlast_last_id mset.simps(2) mset_append mset_single_iff_right)
    note v = preempt_victim_conserves [OF c1(1), unfolded c]
    have ih: "same_queues (cx_sched c1) (cx_sched c') \<and>
      (\<exists>D. mset q' + run_tracked (cx_out c') + (if fits then {#i#} else {#}) + D = mset (butlast q) + run_tracked (cx_out c1) + {#i#} \<and>
       accounted cfg D (cx_sched c1) (cx_sched c'))"
      using "1.IH" [OF ok victim(1) refl victim(2) c1] by blast
    from conjunct2 [OF v] obtain D1 where d1: "run_tracked (cx_out c1) + D1 = run_tracked (cx_out c) + {#last q#} \<and>
      accounted cfg D1 (cx_sched c) (cx_sched c1)" by (rule exE)
    note D1 = conjunct1 [OF d1] conjunct2 [OF d1]
    from conjunct2 [OF ih] obtain D2 where d2: "mset q' + run_tracked (cx_out c') + (if fits then {#i#} else {#}) + D2 = mset (butlast q) + run_tracked (cx_out c1) + {#i#} \<and>
      accounted cfg D2 (cx_sched c1) (cx_sched c')" by (rule exE)
    note D2 = conjunct1 [OF d2] conjunct2 [OF d2]
    have sq: "same_queues (cx_sched c) (cx_sched c')" using v ih same_queues_trans by blast
    have "mset (butlast q) + (run_tracked (cx_out c) + {#last q#}) + {#i#} = mset q + run_tracked (cx_out c) + {#i#}"
      unfolding q by (simp add: ac_simps)
    with sum_chain [OF D2(1) D1(1)]
    have "mset q' + run_tracked (cx_out c') + (if fits then {#i#} else {#}) + (D1 + D2) =
        mset q + run_tracked (cx_out c) + {#i#}" by (rule trans)
    moreover have "accounted cfg (D1 + D2) (cx_sched c) (cx_sched c')" by (rule accounted_trans [OF D1(2) D2(2)])
    ultimately show ?thesis using sq by - (intro conjI exI [of _ "D1 + D2"], assumption+)
  qed
qed

lemma schedule_running_group_conserves:
  assumes "schedule_running_group B cfg ch i n c = Inr c'"
  shows "quiet (cx_sched c) (cx_sched c') \<and> run_tracked (cx_out c') = run_tracked (cx_out c) + {#i#}"
proof -
  obtain bc s p where a: "append_slots B cfg i ch (ro_blocks_to_copy (cx_out c)) (cx_sched c) = Inr (bc, s)"
    "sg_is_prefill (sc_groups s i) = Inr p"
    using assms unfolding schedule_running_group_def by (auto simp: Let_def)
  then have "cx_sched c' = s" "run_tracked (cx_out c') = run_tracked (cx_out c) + {#i#}"
    using assms unfolding schedule_running_group_def by (auto simp: Let_def run_tracked_def)
  then show ?thesis using append_slots_quiet [OF a(1)] by simp
qed

text \<open>The queues proper, without the list of stopped groups.\<close>

definition queues :: "'b scheduler \<Rightarrow> gid list \<times> gid list \<times> gid list" where
  "queues s = (sc_waiting s, sc_running s, sc_swapped s)"

lemma same_queues_iff: "same_queues s s' \<longleftrightarrow> queues s' = queues s \<and> sc_async_stopped s' = sc_async_stopped s"
  by (auto simp: same_queues_def queues_def)

lemma running_loop_conserves:
  "running_loop B cfg ch q c = Inr (q', c') \<Longrightarrow> queues (cx_sched c') = queues (cx_sched c) \<and>
     (\<exists>D. mset q' + run_tracked (cx_out c') + mset (sc_async_stopped (cx_sched c')) + D =
        mset q + run_tracked (cx_out c) + mset (sc_async_stopped (cx_sched c)) \<and>
        accounted cfg D (cx_sched c) (cx_sched c'))"
proof (induction B cfg ch q c rule: running_loop.induct)
  case (1 B cfg ch c)
  then show ?case by (auto simp: running_loop.simps intro: accounted_quiet)
next
  case (2 B cfg ch i q c)
  let ?g = "sc_groups (cx_sched c) i"
  obtain n where n: "get_num_new_tokens cfg ?g RUNNING ch (cx_budget c) = Inr n"
    using "2.prems" unfolding running_loop.simps by (auto simp: Let_def)
  show ?case
  proof (cases "n = 0")
    case True
    then show ?thesis using "2.prems" n unfolding running_loop.simps by (auto simp: Let_def intro: accounted_quiet)
  next
    case False
    obtain stop where st: "(if cf_output_proc cfg = None then Inr False
        else bindE (raise_unless IndexError (sg_seqs ?g \<noteq> [])) (\<lambda>_.
             Inr (sq_get_len (hd (sg_seqs ?g)) > cf_max_model_len cfg))) = Inr stop"
      using "2.prems" n False unfolding running_loop.simps by (auto simp: Let_def)
    show ?thesis
    proof (cases stop)
      case True
      let ?c = "c\<lparr>cx_sched := (cx_sched c)\<lparr>sc_async_stopped := sc_async_stopped (cx_sched c) @ [i]\<rparr>\<rparr>"
      have "running_loop B cfg ch q ?c = Inr (q', c')"
        using "2.prems" n False st True unfolding running_loop.simps by (simp add: Let_def)
      note ih = "2.IH"(1) [OF refl n False st True this]
      have "accounted cfg {#} (cx_sched c) (cx_sched ?c)"
        using st True by (auto simp: accounted_def groups_kept_def over_length_def split: if_splits)
      then have t: "accounted cfg D (cx_sched ?c) (cx_sched c') \<Longrightarrow> accounted cfg D (cx_sched c) (cx_sched c')" for D
        using accounted_trans [of cfg "{#}" "cx_sched c" "cx_sched ?c" D "cx_sched c'"] by simp
      from conjunct2 [OF ih] obtain D where "mset q' + run_tracked (cx_out c') + mset (sc_async_stopped (cx_sched c')) + D =
          mset q + run_tracked (cx_out ?c) + mset (sc_async_stopped (cx_sched ?c)) \<and>
          accounted cfg D (cx_sched ?c) (cx_sched c')" by (rule exE)
      then show ?thesis using conjunct1 [OF ih] t [of D] by (intro conjI exI [of _ D]) (simp_all add: queues_def)
    next
      case nostop: False
      obtain fits q1 c1 c2 where r: "make_room B cfg ch i n q c = Inr (fits, q1, c1)"
        "(if fits then schedule_running_group B cfg ch i n c1 else Inr c1) = Inr c2"
        "running_loop B cfg ch q1 c2 = Inr (q', c')"
        using "2.prems" n False st nostop unfolding running_loop.simps by (auto simp: Let_def)
      have ih: "queues (cx_sched c') = queues (cx_sched c2) \<and>
        (\<exists>D. mset q' + run_tracked (cx_out c') + mset (sc_async_stopped (cx_sched c')) + D =
          mset q1 + run_tracked (cx_out c2) + mset (sc_async_stopped (cx_sched c2)) \<and>
          accounted cfg D (cx_sched c2) (cx_sched c'))"
        using "2.IH"(2) [OF refl n False st nostop r(1) refl refl r(2,3)] .
      note m = make_room_conserves [OF r(1)]
      have c2: "quiet (cx_sched c1) (cx_sched c2)"
        "run_tracked (cx_out c2) = run_tracked (cx_out c1) + (if fits then {#i#} else {#})"
        using r(2) schedule_running_group_conserves [of B cfg ch i n c1 c2] by (auto split: if_splits)
      have sq: "same_queues (cx_sched c) (cx_sched c2)" using m quiet_same [OF c2(1)] same_queues_trans by blast
      from conjunct2 [OF m] obtain D1 where d1: "mset q1 + run_tracked (cx_out c1) + (if fits then {#i#} else {#}) + D1 =
          mset q + run_tracked (cx_out c) + {#i#} \<and>
      accounted cfg D1 (cx_sched c) (cx_sched c1)" by (rule exE)
      note D1 = conjunct1 [OF d1] conjunct2 [OF d1]
      from conjunct2 [OF ih] obtain D2 where d2: "mset q' + run_tracked (cx_out c') + mset (sc_async_stopped (cx_sched c')) + D2 =
          mset q1 + run_tracked (cx_out c2) + mset (sc_async_stopped (cx_sched c2)) \<and>
      accounted cfg D2 (cx_sched c2) (cx_sched c')" by (rule exE)
    note D2 = conjunct1 [OF d2] conjunct2 [OF d2]
      have t: "mset q1 + run_tracked (cx_out c2) + D1 = mset q + run_tracked (cx_out c) + {#i#}"
        using D1(1) unfolding c2(2) add.assoc .
      have "{#} + (mset q1 + run_tracked (cx_out c2)) + mset (sc_async_stopped (cx_sched c2)) =
          mset q1 + run_tracked (cx_out c2) + mset (sc_async_stopped (cx_sched c2))" by simp
      with D2(1) have "mset q' + run_tracked (cx_out c') + mset (sc_async_stopped (cx_sched c')) + D2 =
          {#} + (mset q1 + run_tracked (cx_out c2)) + mset (sc_async_stopped (cx_sched c2))" by argo
      note sum_chain [OF this t]
      moreover have "{#} + (mset q + run_tracked (cx_out c) + {#i#}) + mset (sc_async_stopped (cx_sched c2)) =
          mset (i # q) + run_tracked (cx_out c) + mset (sc_async_stopped (cx_sched c))"
        using sq by (simp add: same_queues_def)
      ultimately have "mset q' + run_tracked (cx_out c') + mset (sc_async_stopped (cx_sched c')) + (D1 + D2) =
          mset (i # q) + run_tracked (cx_out c) + mset (sc_async_stopped (cx_sched c))" by (rule trans)
      moreover have "accounted cfg (D1 + D2) (cx_sched c) (cx_sched c')"
        by (rule accounted_trans [OF accounted_quiet_after [OF D1(2) c2(1)] D2(2)])
      moreover have "queues (cx_sched c') = queues (cx_sched c)" using ih sq by (simp add: same_queues_iff)
      ultimately show ?thesis by - (intro conjI exI [of _ "D1 + D2"], assumption+)
    qed
  qed
qed

definition swap_tracked :: "swapped_in_outputs \<Rightarrow> gid multiset" where
  "swap_tracked out = mset (map sch_group (so_decode_seq_groups out)) + mset (map sch_group (so_prefill_seq_groups out)) +
     mset (so_infeasible_seq_groups out)"

lemma swap_in_group_conserves:
  assumes "swap_in_group B cfg ch i n k c = Inr c'"
  shows "quiet (cx_sched c) (cx_sched c') \<and> swap_tracked (cx_out c') = swap_tracked (cx_out c) + {#i#}"
proof -
  obtain bs s bc s' p where a: "swap_in B i (so_blocks_to_swap_in (cx_out c)) (cx_sched c) = Inr (bs, s)"
    "append_slots B cfg i ch (so_blocks_to_copy (cx_out c)) s = Inr (bc, s')" "sg_is_prefill (sc_groups s' i) = Inr p"
    using assms unfolding swap_in_group_def by (auto simp: Let_def)
  then have "cx_sched c' = s'" "swap_tracked (cx_out c') = swap_tracked (cx_out c) + {#i#}"
    using assms unfolding swap_in_group_def by (auto simp: Let_def swap_tracked_def)
  then show ?thesis using quiet_trans [OF swap_in_quiet [OF a(1)] append_slots_quiet [OF a(2)]] by simp
qed

lemma swapped_loop_conserves:
  "swapped_loop B cfg ch q c l = Inr (q', c', l') \<Longrightarrow> quiet (cx_sched c) (cx_sched c') \<and>
     mset q' + swap_tracked (cx_out c') + mset l' = mset q + swap_tracked (cx_out c) + mset l"
proof (induction q arbitrary: c l)
  case (Cons i q)
  let ?g = "sc_groups (cx_sched c) i"
  obtain p status where s: "sg_is_prefill ?g = Inr p"
    "bm_can_swap_in B ?g (get_num_lookahead_slots cfg p ch) (sc_block_manager (cx_sched c)) = Inr status"
    using Cons.prems by (auto simp: Let_def)
  show ?case
  proof (cases status)
    case OK
    then obtain full where full: "lora_full cfg ?g (cx_loras c) = Inr full" using Cons.prems s by (auto simp: Let_def)
    show ?thesis
    proof (cases full)
      case True
      then have "swapped_loop B cfg ch q c (l @ [i]) = Inr (q', c', l')" using Cons.prems s OK full by (simp add: Let_def)
      from Cons.IH [OF this] show ?thesis by simp
    next
      case False
      then obtain n stop where n: "get_num_new_tokens cfg ?g SWAPPED ch (cx_budget c) = Inr n"
        "over_budget n (int (get_max_num_running_seqs ?g)) (cx_budget c) = Inr stop"
        using Cons.prems s OK full by (auto simp: Let_def)
      show ?thesis
      proof (cases stop)
        case True
        then show ?thesis using Cons.prems s OK full False n by (auto simp: Let_def)
      next
        case go: False
        then obtain c1 where c1: "swap_in_group B cfg ch i n (int (get_max_num_running_seqs ?g)) c = Inr c1"
          "swapped_loop B cfg ch q c1 l = Inr (q', c', l')" using Cons.prems s OK full False n by (auto simp: Let_def)
        note a = swap_in_group_conserves [OF c1(1)] and b = Cons.IH [OF c1(2)]
        show ?thesis using conjunct2 [OF a] conjunct2 [OF b] quiet_trans [OF conjunct1 [OF a] conjunct1 [OF b]]
          by simp
      qed
    qed
  next
    case NEVER
    let ?c = "c\<lparr>cx_sched := put_group i (set_all_status FINISHED_IGNORED ?g) (cx_sched c),
      cx_out := (cx_out c)\<lparr>so_infeasible_seq_groups := so_infeasible_seq_groups (cx_out c) @ [i]\<rparr>\<rparr>"
    have "swapped_loop B cfg ch q ?c l = Inr (q', c', l')" using Cons.prems s NEVER by (simp add: Let_def)
    note ih = Cons.IH [OF this]
    have "quiet (cx_sched c) (cx_sched ?c)" by (simp add: quiet_put group_kept_ignored)
    then show ?thesis using ih quiet_trans by (auto simp: swap_tracked_def)
  qed (use Cons.prems s in \<open>auto simp: Let_def\<close>)
qed simp

definition pre_tracked :: "prefill_outputs \<Rightarrow> gid multiset" where
  "pre_tracked out = mset (map sch_group (po_seq_groups out)) + mset (po_ignored_seq_groups out)"

lemma prefill_group_conserves:
  assumes "prefill_group B cfg ch i n k la c = Inr c'"
  shows "quiet (cx_sched c) (cx_sched c') \<and> pre_tracked (cx_out c') = pre_tracked (cx_out c) + {#i#}"
proof -
  obtain s s' where a: "allocate_and_set_running B i (cx_sched c) = Inr s"
    "(if ch \<and> cf_is_multi_step cfg
      then bindE (append_slots B cfg i ch [] s) (\<lambda>(blocks_to_copy, s). bindE (py_assert (blocks_to_copy = [])) (\<lambda>_. Inr s))
      else bindE (init_multi_step_from_lookahead_slots la (cf_num_scheduler_steps cfg)
             (cf_is_multi_step cfg) ch (sc_groups s i)) (\<lambda>g. Inr (put_group i g s))) = Inr s'"
    "cx_sched c' = s'" "pre_tracked (cx_out c') = pre_tracked (cx_out c) + {#i#}"
    using assms unfolding prefill_group_def by (auto simp: Let_def pre_tracked_def)
  have "quiet s s'" using a(2)
    by (auto split: if_splits intro!: quiet_put dest: append_slots_quiet multi_step_kept)
  then show ?thesis using quiet_trans [OF allocate_quiet [OF a(1)]] a(3,4) by simp
qed

lemma ignore_waiting_conserves:
  "quiet (cx_sched c) (cx_sched (ignore_waiting i c))"
  "pre_tracked (cx_out (ignore_waiting i c)) = pre_tracked (cx_out c) + {#i#}"
  by (simp_all add: ignore_waiting_def pre_tracked_def quiet_put group_kept_change)

text \<open>The ways an iteration of the loop over the waiting queue can go.\<close>

lemma prefill_loop_cases:
  assumes "prefill_loop B cfg ch clock k (i # q) c l = Inr (q', c', l')"
  obtains (stop) s where "s = snd (passed_delay cfg (clock k) (i # q) (cx_sched c))"
      "q' = i # q" "c' = c\<lparr>cx_sched := s\<rparr>" "l' = l"
  | (ignore) s where "s = snd (passed_delay cfg (clock k) (i # q) (cx_sched c))"
      "length (sg_get_seqs (Some WAITING) (sc_groups s i)) = 1"
      "prefill_loop B cfg ch clock (Suc k) q (ignore_waiting i (c\<lparr>cx_sched := s\<rparr>)) l = Inr (q', c', l')"
  | (left) s where "s = snd (passed_delay cfg (clock k) (i # q) (cx_sched c))"
      "prefill_loop B cfg ch clock (Suc k) q (c\<lparr>cx_sched := s\<rparr>) (l @ [i]) = Inr (q', c', l')"
  | (go) s n la c1 where "s = snd (passed_delay cfg (clock k) (i # q) (cx_sched c))"
      "length (sg_get_seqs (Some WAITING) (sc_groups s i)) = 1"
      "get_num_new_tokens cfg (sc_groups s i) WAITING ch (cx_budget c) = Inr n"
      "bm_can_allocate B (sc_groups s i) la (sc_block_manager s) = Inr OK"
      "over_budget n (int (get_max_num_running_seqs (sc_groups s i))) (cx_budget c) = Inr False"
      "prefill_group B cfg ch i n (int (get_max_num_running_seqs (sc_groups s i))) la (c\<lparr>cx_sched := s\<rparr>) = Inr c1"
      "prefill_loop B cfg ch clock (Suc k) q c1 l = Inr (q', c', l')"
proof -
  obtain passed s where pd: "passed_delay cfg (clock k) (i # q) (cx_sched c) = (passed, s)" by fastforce
  let ?c = "c\<lparr>cx_sched := s\<rparr>" and ?g = "sc_groups s i"
  have sn: "s = snd (passed_delay cfg (clock k) (i # q) (cx_sched c))" using pd by simp
  show ?thesis
  proof (cases passed)
    case False
    show ?thesis by (rule stop [OF sn]) (use assms pd False in \<open>auto simp: Let_def\<close>)
  next
    case True
    note base = assms [simplified prefill_loop.simps pd prod.case Let_def True]
    obtain n limit where w: "length (sg_get_seqs (Some WAITING) ?g) = 1"
      "get_num_new_tokens cfg ?g WAITING ch (cx_budget c) = Inr n" "get_prompt_limit cfg ?g = Inr limit"
      using base by (auto simp: Let_def)
    define la where "la = (if cf_is_multi_step cfg \<and> ch then get_num_lookahead_slots cfg True ch else 0)"
    show ?thesis
    proof (cases "n > int limit")
      case True
      show ?thesis by (rule ignore [OF sn w(1)]) (use base w True in \<open>auto simp: Let_def\<close>)
    next
      case fit: False
      obtain status where st: "bm_can_allocate B ?g la (sc_block_manager s) = Inr status"
        using base w fit unfolding la_def by (auto simp: Let_def split: if_splits)
      show ?thesis
      proof (cases status)
        case LATER
        show ?thesis by (rule stop [OF sn]) (use base w fit st LATER in \<open>auto simp: Let_def la_def split: if_splits\<close>)
      next
        case NEVER
        show ?thesis by (rule ignore [OF sn w(1)])
          (use base w fit st NEVER in \<open>auto simp: Let_def la_def split: if_splits\<close>)
      next
        case OK
        obtain full where full: "lora_full cfg ?g (cx_loras c) = Inr full"
          using base w fit st OK by (auto simp: Let_def la_def split: if_splits)
        show ?thesis
        proof (cases full)
          case True
          show ?thesis by (rule left [OF sn])
            (use base w fit st OK full True in \<open>auto simp: Let_def la_def split: if_splits\<close>)
        next
          case room: False
          obtain over where o: "over_budget n (int (get_max_num_running_seqs ?g)) (cx_budget c) = Inr over"
            using base w fit st OK full room by (auto simp: Let_def la_def split: if_splits)
          show ?thesis
          proof (cases over)
            case True
            show ?thesis by (rule stop [OF sn])
              (use base w fit st OK full room o True in \<open>auto simp: Let_def la_def split: if_splits\<close>)
          next
            case False
            then obtain c1 where c1: "prefill_group B cfg ch i n (int (get_max_num_running_seqs ?g)) la ?c = Inr c1"
              "prefill_loop B cfg ch clock (Suc k) q c1 l = Inr (q', c', l')"
              using base w fit st OK full room o by (auto simp: Let_def la_def split: if_splits)
            have "over_budget n (int (get_max_num_running_seqs ?g)) (cx_budget c) = Inr False" using o False by simp
            from go [OF sn w(1,2) st [unfolded OK] this c1] show ?thesis .
          qed
        qed
      qed
    qed
  qed
qed

lemma prefill_loop_conserves:
  "prefill_loop B cfg ch clock k q c l = Inr (q', c', l') \<Longrightarrow> quiet (cx_sched c) (cx_sched c') \<and>
     mset q' + pre_tracked (cx_out c') + mset l' = mset q + pre_tracked (cx_out c) + mset l"
proof (induction q arbitrary: k c l)
  case Nil
  then show ?case using passed_delay_quiet [of "cx_sched c" cfg "clock k" "[]"] by (auto simp: split: prod.splits)
next
  case (Cons i q)
  note pd = passed_delay_quiet [of "cx_sched c" cfg "clock k" "i # q"]
  from Cons.prems show ?case
  proof (cases rule: prefill_loop_cases)
    case (stop s)
    then show ?thesis using pd by simp
  next
    case (ignore s)
    show ?thesis using Cons.IH [OF ignore(3)] ignore(1) pd ignore_waiting_conserves [where c = "c\<lparr>cx_sched := s\<rparr>" and i = i]
      by (auto intro: quiet_trans)
  next
    case (left s)
    show ?thesis using Cons.IH [OF left(2)] left(1) pd by (auto intro: quiet_trans)
  next
    case (go s n la c1)
    show ?thesis using Cons.IH [OF go(7)] go(1) pd prefill_group_conserves [OF go(6)]
      by (auto intro: quiet_trans)
  qed
qed

section \<open>A scheduling step conserves the groups\<close>

definition pending :: "'b scheduler \<Rightarrow> gid multiset" where
  "pending s = mset (sc_waiting s) + mset (sc_running s) + mset (sc_swapped s)"

lemma tracked_empty [simp]:
  "run_tracked running_outputs_empty = {#}" "swap_tracked swapped_in_outputs_empty = {#}"
  "pre_tracked prefill_outputs_empty = {#}" "run_tracked (r\<lparr>ro_num_lookahead_slots := n\<rparr>) = run_tracked r"
  "swap_tracked (w\<lparr>so_num_lookahead_slots := n\<rparr>) = swap_tracked w"
  "pre_tracked (p\<lparr>po_num_lookahead_slots := n\<rparr>) = pre_tracked p"
  by (simp_all add: run_tracked_def swap_tracked_def pre_tracked_def running_outputs_empty_def
      swapped_in_outputs_empty_def prefill_outputs_empty_def)

lemma schedule_running_conserves:
  assumes "schedule_running B cfg ch b loras s = Inr c"
  shows "sc_waiting (cx_sched c) = sc_waiting s" "sc_swapped (cx_sched c) = sc_swapped s"
    "\<exists>D. mset (sc_running (cx_sched c)) + run_tracked (cx_out c) + mset (sc_async_stopped (cx_sched c)) + D =
       mset (sc_running s) + mset (sc_async_stopped s) \<and> accounted cfg D s (cx_sched c)"
proof -
  let ?c = "\<lparr>cx_sched = s, cx_budget = b, cx_loras = loras,
    cx_out = running_outputs_empty\<lparr>ro_num_lookahead_slots := get_num_lookahead_slots cfg False ch\<rparr>\<rparr>"
  obtain q c1 where r: "running_loop B cfg ch (sc_running s) ?c = Inr (q, c1)"
    and c: "c = c1\<lparr>cx_sched := (cx_sched c1)\<lparr>sc_running := q\<rparr>\<rparr>"
    using assms unfolding schedule_running_def by (auto simp: Let_def)
  note k = running_loop_conserves [OF r]
  show "sc_waiting (cx_sched c) = sc_waiting s" "sc_swapped (cx_sched c) = sc_swapped s"
    using conjunct1 [OF k] c by (simp_all add: queues_def)
  show "\<exists>D. mset (sc_running (cx_sched c)) + run_tracked (cx_out c) + mset (sc_async_stopped (cx_sched c)) + D =
       mset (sc_running s) + mset (sc_async_stopped s) \<and> accounted cfg D s (cx_sched c)"
    using conjunct2 [OF k] c by (auto simp: accounted_def groups_kept_def)
qed

lemma schedule_swapped_conserves:
  assumes "schedule_swapped B cfg ch b loras s = Inr c"
  shows "sc_waiting (cx_sched c) = sc_waiting s" "sc_running (cx_sched c) = sc_running s"
    "sc_async_stopped (cx_sched c) = sc_async_stopped s"
    "mset (sc_swapped (cx_sched c)) + swap_tracked (cx_out c) = mset (sc_swapped s)"
    "accounted cfg {#} s (cx_sched c)"
proof -
  obtain q c1 l where r: "swapped_loop B cfg ch (sc_swapped s)
      \<lparr>cx_sched = s, cx_budget = b, cx_loras = loras, cx_out = swapped_in_outputs_empty\<rparr> [] = Inr (q, c1, l)"
    and c: "c = c1\<lparr>cx_sched := (cx_sched c1)\<lparr>sc_swapped := l @ q\<rparr>,
      cx_out := (cx_out c1)\<lparr>so_num_lookahead_slots := get_num_lookahead_slots cfg False ch\<rparr>\<rparr>"
    using assms unfolding schedule_swapped_def by auto
  note k = swapped_loop_conserves [OF r]
  show "sc_waiting (cx_sched c) = sc_waiting s" "sc_running (cx_sched c) = sc_running s"
    "sc_async_stopped (cx_sched c) = sc_async_stopped s"
    using conjunct1 [OF k] c by (simp_all add: quiet_def same_queues_def)
  show "mset (sc_swapped (cx_sched c)) + swap_tracked (cx_out c) = mset (sc_swapped s)"
    using conjunct2 [OF k] c by (simp add: ac_simps)
  show "accounted cfg {#} s (cx_sched c)" using accounted_quiet [OF conjunct1 [OF k]] c by simp
qed

lemma schedule_prefills_conserves:
  assumes "schedule_prefills B cfg ch clock b loras s = Inr c"
  shows "sc_swapped (cx_sched c) = sc_swapped s" "sc_running (cx_sched c) = sc_running s"
    "sc_async_stopped (cx_sched c) = sc_async_stopped s"
    "mset (sc_waiting (cx_sched c)) + pre_tracked (cx_out c) = mset (sc_waiting s)"
    "accounted cfg {#} s (cx_sched c)"
proof -
  obtain q c1 l where r: "prefill_loop B cfg ch clock 0 (sc_waiting s)
      \<lparr>cx_sched = s, cx_budget = b, cx_loras = loras, cx_out = prefill_outputs_empty\<rparr> [] = Inr (q, c1, l)"
    and c: "c = c1\<lparr>cx_sched := (let t = (cx_sched c1)\<lparr>sc_waiting := l @ q\<rparr> in
        if length (po_seq_groups (cx_out c1)) > 0 then t\<lparr>sc_prev_prompt := True\<rparr> else t),
      cx_out := (cx_out c1)\<lparr>po_num_lookahead_slots := get_num_lookahead_slots cfg True ch\<rparr>\<rparr>"
    using assms unfolding schedule_prefills_def by (auto simp: Let_def)
  note k = prefill_loop_conserves [OF r]
  show "sc_swapped (cx_sched c) = sc_swapped s" "sc_running (cx_sched c) = sc_running s"
    "sc_async_stopped (cx_sched c) = sc_async_stopped s"
    using conjunct1 [OF k] c by (simp_all add: quiet_def same_queues_def Let_def)
  show "mset (sc_waiting (cx_sched c)) + pre_tracked (cx_out c) = mset (sc_waiting s)"
    using conjunct2 [OF k] c by (simp add: ac_simps Let_def)
  show "accounted cfg {#} s (cx_sched c)" using accounted_quiet [OF conjunct1 [OF k]] c by (simp add: Let_def)
qed

lemma priority_loop_conserves:
  "priority_loop B cfg i n k running waiting blocks b cnt s = Inr (running', waiting', b', cnt', s') \<Longrightarrow>
     quiet s s' \<and> mset running' + mset waiting' = mset running + mset waiting"
proof (induction B cfg i n k running waiting blocks b cnt s rule: priority_loop.induct)
  case (1 B cfg i n k running waiting blocks b cnt s)
  show ?case
  proof (cases "running = [] \<or> \<not> get_priority (sc_groups s) (last running) > get_priority (sc_groups s) i")
    case True
    then show ?thesis using "1.prems" by (simp add: priority_loop.simps [of B cfg i n k running])
  next
    case False
    then obtain status stop where st: "bm_can_allocate B (sc_groups s i) 0 (sc_block_manager s) = Inr status"
      "(if n \<noteq> 0 \<and> status = OK then can_schedule n k b else Inr False) = Inr stop"
      using "1.prems" unfolding priority_loop.simps [of B cfg i n k running] by auto
    show ?thesis
    proof (cases stop)
      case True
      then show ?thesis using "1.prems" False st unfolding priority_loop.simps [of B cfg i n k running] by simp
    next
      case go: False
      let ?v = "last running" and ?g = "sc_groups s (last running)"
      obtain nr mode bl s1 where p: "get_num_new_tokens cfg ?g RUNNING False b = Inr nr"
        "preempt B cfg ?v blocks (Some RECOMPUTE) s = Inr (mode, bl, s1)"
        "priority_loop B cfg i n k (butlast running) (?v # waiting) bl
           (subtract_num_seqs (sg_request_id ?g) (int (get_max_num_running_seqs ?g))
             (subtract_num_batched_tokens (sg_request_id ?g) nr b)) (Suc cnt) s1 = Inr (running', waiting', b', cnt', s')"
        using "1.prems" False st go unfolding priority_loop.simps [of B cfg i n k running] by (auto simp: Let_def)
      have ih: "quiet s1 s' \<and> mset running' + mset waiting' = mset (butlast running) + mset (?v # waiting)"
        using "1.IH" [OF False st go refl refl p(1) refl p(2) refl refl p(3)] .
      have "mset running = add_mset ?v (mset (butlast running))"
        using False by (metis append_butlast_last_id mset.simps(2) mset_append mset_rev rev.simps(2) rev_rev_ident union_mset_add_mset_right add.right_neutral mset.simps(1))
      then show ?thesis using ih quiet_trans [OF preempt_quiet [OF p(2)]] by simp
    qed
  qed
qed

lemma accounted_refl [simp]: "accounted cfg {#} s s"
  by (simp add: accounted_quiet)

lemma schedule_priority_conserves:
  assumes "schedule_priority_preemption B cfg b s = Inr (cnt, b', s')"
  shows "mset (sc_waiting s') + mset (sc_running s') = mset (sc_waiting s) + mset (sc_running s)"
    "sc_swapped s' = sc_swapped s" "accounted cfg' {#} s s'" "sc_async_stopped s' = sc_async_stopped s"
proof -
  have "mset (sc_waiting s') + mset (sc_running s') = mset (sc_waiting s) + mset (sc_running s) \<and>
    sc_swapped s' = sc_swapped s \<and> accounted cfg' {#} s s' \<and> sc_async_stopped s' = sc_async_stopped s"
  proof (cases "sc_waiting s")
    case Nil
    then show ?thesis using assms unfolding schedule_priority_preemption_def by (auto simp: Let_def intro: accounted_quiet)
  next
    case (Cons i w)
    then obtain n r1 w1 b1 s1 where p: "priority_loop B cfg i n (int (get_max_num_running_seqs (sc_groups s i)))
        (sort_key (get_priority (sc_groups s)) (sc_running s)) w [] b 0 s = Inr (r1, w1, b1, cnt, s1)"
      "s' = s1\<lparr>sc_waiting := sort_key (get_priority (sc_groups s1)) (i # w1), sc_running := r1\<rparr>"
      using assms unfolding schedule_priority_preemption_def by (auto simp: Let_def)
    note k = priority_loop_conserves [OF p(1)]
    have "accounted cfg' {#} s s'" using accounted_quiet [OF conjunct1 [OF k]] p(2) by simp
    then show ?thesis using k p(2) Cons by (auto simp: quiet_def same_queues_def ac_simps)
  qed
  then show "mset (sc_waiting s') + mset (sc_running s') = mset (sc_waiting s) + mset (sc_running s)"
    "sc_swapped s' = sc_swapped s" "accounted cfg' {#} s s'" "sc_async_stopped s' = sc_async_stopped s" by blast+
qed

text \<open>What the three loops together keep; \<open>D\<close> are the groups the output processor found finished.\<close>

definition loops_conserve ::
  "'b config \<Rightarrow> 'b scheduler \<Rightarrow> prefill_outputs \<Rightarrow> running_outputs \<Rightarrow> swapped_in_outputs \<Rightarrow> 'b scheduler \<Rightarrow> bool" where
  "loops_conserve cfg s p r w s' \<longleftrightarrow>
     (\<exists>D. pending s' + pre_tracked p + run_tracked r + swap_tracked w + mset (sc_async_stopped s') + D =
        pending s + mset (sc_async_stopped s) \<and> accounted cfg D s s')"

lemma accounted_async: "accounted cfg D s s' \<Longrightarrow> cf_output_proc cfg = None \<Longrightarrow> sc_async_stopped s' = sc_async_stopped s"
  by (simp add: accounted_def)

lemma accounted_none: "accounted cfg {#} s s' \<Longrightarrow> accounted cfg D s' t \<Longrightarrow> accounted cfg D s t"
  using accounted_trans [of cfg "{#}" s s' D t] by simp

lemma accounted_after_none: "accounted cfg D s s' \<Longrightarrow> accounted cfg {#} s' t \<Longrightarrow> accounted cfg D s t"
  using accounted_trans [of cfg D s s' "{#}" t] by simp

lemma conserve_arith:
  fixes W :: "'x multiset"
  assumes "W1 + R1 = Wc + R" "Wc + p = W" "Rr + r + A' + D = R1 + A" "Sw + w = S"
  shows "(W1 + Rr + Sw) + p + r + w + A' + D = (W + R + S) + A"
proof -
  have "(W1 + Rr + Sw) + p + r + w + A' + D = W1 + (Rr + r + A' + D) + (Sw + w) + p" by (simp add: ac_simps)
  also have "\<dots> = (W1 + R1) + A + S + p" unfolding assms(3,4) by (simp add: ac_simps)
  also have "\<dots> = (Wc + p) + R + S + A" unfolding assms(1) by (simp add: ac_simps)
  finally show ?thesis unfolding assms(2) .
qed

lemma default_loops_conserve:
  assumes "default_loops B cfg clock s = Inr (p, r, w, b, s')"
  shows "loops_conserve cfg s p r w s'"
proof -
  define b0 l0 where "b0 = default_budget cfg s" and "l0 = default_loras cfg s"
  obtain cp where cp: "(if sc_swapped s = [] then schedule_prefills B cfg False clock b0 l0 s
      else Inr \<lparr>cx_sched = s, cx_budget = b0, cx_loras = l0, cx_out = prefill_outputs_empty\<rparr>) = Inr cp"
    using assms unfolding default_loops_def b0_def l0_def by (auto simp: Let_def)
  define none where "none = (length (po_seq_groups (cx_out cp)) = 0)"
  obtain n1 b1 s1 where pr: "(if none \<and> cf_policy cfg = ''priority''
      then schedule_priority_preemption B cfg (cx_budget cp) (cx_sched cp) else Inr (0, cx_budget cp, cx_sched cp)) = Inr (n1, b1, s1)"
    using assms cp unfolding default_loops_def b0_def l0_def none_def by (auto simp: Let_def)
  obtain cr where cr: "(if none then schedule_running B cfg False b1 (cx_loras cp) s1
      else Inr \<lparr>cx_sched = s1, cx_budget = b1, cx_loras = cx_loras cp, cx_out = running_outputs_empty\<rparr>) = Inr cr"
    using assms cp pr unfolding default_loops_def b0_def l0_def none_def by (auto simp: Let_def)
  obtain cs where cs: "(if none \<and> length (ro_preempted (cx_out cr)) + length (ro_swapped_out (cx_out cr)) = 0
      then schedule_swapped B cfg False (cx_budget cr) (cx_loras cr) (cx_sched cr)
      else Inr \<lparr>cx_sched = cx_sched cr, cx_budget = cx_budget cr, cx_loras = cx_loras cr, cx_out = swapped_in_outputs_empty\<rparr>) = Inr cs"
    using assms cp pr cr unfolding default_loops_def b0_def l0_def none_def by (auto simp: Let_def)
  have res: "p = cx_out cp" "r = cx_out cr" "w = cx_out cs" "s' = cx_sched cs"
    using assms cp pr cr cs unfolding default_loops_def b0_def l0_def none_def by (auto simp: Let_def)
  have A: "mset (sc_waiting (cx_sched cp)) + pre_tracked p = mset (sc_waiting s)" "sc_running (cx_sched cp) = sc_running s"
    "sc_swapped (cx_sched cp) = sc_swapped s" "sc_async_stopped (cx_sched cp) = sc_async_stopped s"
    "accounted cfg {#} s (cx_sched cp)"
    using cp res(1) schedule_prefills_conserves [of B cfg False clock b0 l0 s cp] by (auto split: if_splits)
  have P: "mset (sc_waiting s1) + mset (sc_running s1) = mset (sc_waiting (cx_sched cp)) + mset (sc_running (cx_sched cp))"
    "sc_swapped s1 = sc_swapped (cx_sched cp)" "accounted cfg {#} (cx_sched cp) s1"
    using pr schedule_priority_conserves [of B cfg "cx_budget cp" "cx_sched cp" n1 b1 s1] by (auto split: if_splits)
  have P4: "sc_async_stopped s1 = sc_async_stopped (cx_sched cp)"
    using pr schedule_priority_conserves(4) [of B cfg "cx_budget cp" "cx_sched cp" n1 b1 s1] by (auto split: if_splits)
  have R: "sc_waiting (cx_sched cr) = sc_waiting s1" "sc_swapped (cx_sched cr) = sc_swapped s1"
    using cr schedule_running_conserves(1,2) [of B cfg False b1 "cx_loras cp" s1 cr] by (auto split: if_splits)
  have "\<exists>D. mset (sc_running (cx_sched cr)) + run_tracked r + mset (sc_async_stopped (cx_sched cr)) + D =
      mset (sc_running s1) + mset (sc_async_stopped s1) \<and> accounted cfg D s1 (cx_sched cr)"
  proof (cases none)
    case True
    then have "schedule_running B cfg False b1 (cx_loras cp) s1 = Inr cr" using cr by simp
    from schedule_running_conserves(3) [OF this] show ?thesis unfolding res(2) .
  next
    case False
    then show ?thesis using cr res(2) by (intro exI [of _ "{#}"]) auto
  qed
  then obtain D where D: "mset (sc_running (cx_sched cr)) + run_tracked r + mset (sc_async_stopped (cx_sched cr)) + D =
      mset (sc_running s1) + mset (sc_async_stopped s1)" "accounted cfg D s1 (cx_sched cr)" by blast
  have S: "mset (sc_swapped s') + swap_tracked w = mset (sc_swapped (cx_sched cr))" "sc_waiting s' = sc_waiting (cx_sched cr)"
    "sc_running s' = sc_running (cx_sched cr)" "sc_async_stopped s' = sc_async_stopped (cx_sched cr)"
    "accounted cfg {#} (cx_sched cr) s'"
    using cs res(3,4) schedule_swapped_conserves [of B cfg False "cx_budget cr" "cx_loras cr" "cx_sched cr" cs]
    by (auto split: if_splits)
  have "pending s' + pre_tracked p + run_tracked r + swap_tracked w + mset (sc_async_stopped s') + D =
      pending s + mset (sc_async_stopped s)"
    unfolding pending_def
    by (rule conserve_arith [of _ "mset (sc_running s1)" "mset (sc_waiting (cx_sched cp))"]) (use A P P4 R S D in simp_all)
  moreover have "accounted cfg D s s'"
    by (rule accounted_after_none [OF accounted_none [OF accounted_none [OF A(5) P(3)] D(2)] S(5)])
  ultimately show ?thesis unfolding loops_conserve_def by blast
qed

lemma chunked_loops_conserve:
  assumes "chunked_loops B cfg clock s = Inr (p, r, w, b, s')"
  shows "loops_conserve cfg s p r w s'"
proof -
  define b0 where "b0 = new_budget (int (cf_max_num_batched_tokens cfg)) (int (cf_max_num_seqs cfg))"
  obtain cr cs cp where cr: "schedule_running B cfg True b0 (Some {}) s = Inr cr"
    and cs: "(if length (ro_preempted (cx_out cr)) + length (ro_swapped_out (cx_out cr)) = 0
      then schedule_swapped B cfg False (cx_budget cr) (cx_loras cr) (cx_sched cr)
      else Inr \<lparr>cx_sched = cx_sched cr, cx_budget = cx_budget cr, cx_loras = cx_loras cr, cx_out = swapped_in_outputs_empty\<rparr>) = Inr cs"
    and cp: "schedule_prefills B cfg True clock (cx_budget cs) (cx_loras cs) (cx_sched cs) = Inr cp"
    and res: "p = cx_out cp" "r = cx_out cr" "w = cx_out cs" "s' = cx_sched cp"
    using assms unfolding chunked_loops_def b0_def by (auto simp: Let_def)
  note R = schedule_running_conserves [OF cr] and A = schedule_prefills_conserves [OF cp]
  have S: "mset (sc_swapped (cx_sched cs)) + swap_tracked w = mset (sc_swapped (cx_sched cr))"
    "sc_waiting (cx_sched cs) = sc_waiting (cx_sched cr)" "sc_running (cx_sched cs) = sc_running (cx_sched cr)"
    "sc_async_stopped (cx_sched cs) = sc_async_stopped (cx_sched cr)" "accounted cfg {#} (cx_sched cr) (cx_sched cs)"
    using cs res(3) schedule_swapped_conserves [of B cfg False "cx_budget cr" "cx_loras cr" "cx_sched cr" cs]
    by (auto split: if_splits)
  from R(3) obtain D where D: "mset (sc_running (cx_sched cr)) + run_tracked (cx_out cr) + mset (sc_async_stopped (cx_sched cr)) + D =
      mset (sc_running s) + mset (sc_async_stopped s)" "accounted cfg D s (cx_sched cr)" by blast
  have "pending s' + pre_tracked p + run_tracked r + swap_tracked w + mset (sc_async_stopped s') + D =
      pending s + mset (sc_async_stopped s)"
    unfolding pending_def
    by (rule conserve_arith [of _ "mset (sc_running s)" "mset (sc_waiting s')"]) (use A R(1,2) S D res in simp_all)
  moreover have "accounted cfg D s s'" unfolding res(4)
    by (rule accounted_after_none [OF accounted_after_none [OF D(2) S(5)] A(5)])
  ultimately show ?thesis unfolding loops_conserve_def by blast
qed

lemma sorted_outputs_set: "set (sort_by_lora_ids gs xs) = set xs"
  by (simp add: sort_by_lora_ids_def)

lemma make_outputs_same:
  assumes "make_outputs gs out = Inr out'"
  shows "mset (out_scheduled_seq_groups out') = mset (out_scheduled_seq_groups out)"
    "out_ignored_seq_groups out' = out_ignored_seq_groups out" "out_num_batched_tokens out' = out_num_batched_tokens out"
  using assms by (auto simp: make_outputs_def sort_by_lora_ids_def split: if_splits)

text \<open>Two requests wait for an embedding model, the second with a prompt over the limit.\<close>

definition ex_cfg :: "unit config" where
  "ex_cfg = \<lparr>cf_max_num_batched_tokens = 8, cf_max_num_seqs = 4, cf_max_model_len = 3, cf_chunked_prefill_enabled = False,
     cf_is_multi_step = False, cf_num_scheduler_steps = 1, cf_num_lookahead_slots = 0, cf_delay_factor = 0,
     cf_policy = ''fcfs'', cf_preemption_mode = None, cf_send_delta_data = False, cf_max_loras = None,
     cf_enable_prefix_caching = False, cf_block_size = 4, cf_output_proc = None\<rparr>"

definition ex_groups :: "gid \<Rightarrow> seq_group" where
  "ex_groups i = seq_group_init (if i = 0 then ''a'' else ''b'') [ex_seq i (if i = 0 then [5, 6] else [1, 2, 3, 4])] 0 None None None 0"

definition ex_sched :: "unit scheduler" where
  "ex_sched = add_seq_group 1 (add_seq_group 0 (scheduler_init ex_groups ()))"

lemma ex_schedule:
  "map_sum id (\<lambda>(out, s). (map sch_group (out_scheduled_seq_groups out), out_ignored_seq_groups out, sc_running s))
     (schedule_policy embedding_ops ex_cfg (\<lambda>_. 1) ex_sched) = Inr ([0], [1], [0])"
  by code_simp

lemma schedule_policy_conserves:
  assumes "schedule_policy B cfg clock s = Inr (out, s')"
  shows "(\<exists>D. pending s' + mset (out_ignored_seq_groups out) + mset (sc_async_stopped s') + D =
      pending s + mset (sc_async_stopped s) \<and>
      accounted cfg D s s') \<and>
    sch_group ` set (out_scheduled_seq_groups out) \<subseteq> set (sc_running s')"
proof -
  have "\<exists>p r w s1. loops_conserve cfg s p r w s1 \<and>
      pending s' = pending s1 + run_tracked r + mset (map sch_group (po_seq_groups p)) +
        mset (map sch_group (so_decode_seq_groups w)) + mset (map sch_group (so_prefill_seq_groups w)) \<and>
      sc_async_stopped s' = sc_async_stopped s1 \<and> (\<forall>D. accounted cfg D s s1 \<longrightarrow> accounted cfg D s s') \<and>
      out_ignored_seq_groups out = po_ignored_seq_groups p @ so_infeasible_seq_groups w \<and>
      sch_group ` set (out_scheduled_seq_groups out) \<subseteq> set (sc_running s')"
  proof (cases "cf_chunked_prefill_enabled cfg")
    case True
    then have "schedule_chunked_prefill B cfg clock s = Inr (out, s')" using assms by (simp add: schedule_policy_def)
    then obtain p r w b s1 out1 where l: "chunked_loops B cfg clock s = Inr (p, r, w, b, s1)"
      and m: "make_outputs (sc_groups s1) out1 = Inr out"
      and s': "s' = s1\<lparr>sc_waiting := rev (ro_preempted r) @ sc_waiting s1,
        sc_running := sc_running s1 @ map sch_group (so_decode_seq_groups w) @ map sch_group (so_prefill_seq_groups w) @
          map sch_group (ro_decode_seq_groups r) @ map sch_group (ro_prefill_seq_groups r) @ map sch_group (po_seq_groups p),
        sc_swapped := sc_swapped s1 @ ro_swapped_out r\<rparr>"
      and o: "out_scheduled_seq_groups out1 = po_seq_groups p @ ro_prefill_seq_groups r @ so_prefill_seq_groups w @
          ro_decode_seq_groups r @ so_decode_seq_groups w"
        "out_ignored_seq_groups out1 = po_ignored_seq_groups p @ so_infeasible_seq_groups w"
      by (auto simp: schedule_chunked_prefill_def Let_def)
    have "set (out_scheduled_seq_groups out) = set (out_scheduled_seq_groups out1)"
      using make_outputs_same(1) [OF m] by (rule mset_eq_setD)
    then show ?thesis using chunked_loops_conserve [OF l] make_outputs_same(2) [OF m] s' o
      by (intro exI [of _ p] exI [of _ r] exI [of _ w] exI [of _ s1]) (auto simp: pending_def run_tracked_def ac_simps)
  next
    case False
    then have "schedule_default B cfg clock s = Inr (out, s')" using assms by (simp add: schedule_policy_def)
    then obtain p r w b s1 out1 where l: "default_loops B cfg clock s = Inr (p, r, w, b, s1)"
      and m: "make_outputs (sc_groups s1) out1 = Inr out"
      and s': "s' = s1\<lparr>sc_waiting := rev (ro_preempted r) @ sc_waiting s1,
        sc_running := sc_running s1 @ map sch_group (po_seq_groups p) @ map sch_group (ro_decode_seq_groups r) @
          map sch_group (so_decode_seq_groups w),
        sc_swapped := sc_swapped s1 @ ro_swapped_out r\<rparr>"
      and o: "out_scheduled_seq_groups out1 = po_seq_groups p @ ro_decode_seq_groups r @ so_decode_seq_groups w"
        "out_ignored_seq_groups out1 = po_ignored_seq_groups p @ so_infeasible_seq_groups w"
        "ro_prefill_seq_groups r = []" "so_prefill_seq_groups w = []"
      by (auto simp: schedule_default_def Let_def)
    have "set (out_scheduled_seq_groups out) = set (out_scheduled_seq_groups out1)"
      using make_outputs_same(1) [OF m] by (rule mset_eq_setD)
    then show ?thesis using default_loops_conserve [OF l] make_outputs_same(2) [OF m] s' o
      by (intro exI [of _ p] exI [of _ r] exI [of _ w] exI [of _ s1]) (auto simp: pending_def run_tracked_def ac_simps)
  qed
  then obtain p r w s1 where c: "loops_conserve cfg s p r w s1"
    "pending s' = pending s1 + run_tracked r + mset (map sch_group (po_seq_groups p)) +
        mset (map sch_group (so_decode_seq_groups w)) + mset (map sch_group (so_prefill_seq_groups w))"
    "sc_async_stopped s' = sc_async_stopped s1" "\<forall>D. accounted cfg D s s1 \<longrightarrow> accounted cfg D s s'"
    "out_ignored_seq_groups out = po_ignored_seq_groups p @ so_infeasible_seq_groups w"
    "sch_group ` set (out_scheduled_seq_groups out) \<subseteq> set (sc_running s')" by blast
  from c(1) obtain D where D: "pending s1 + pre_tracked p + run_tracked r + swap_tracked w + mset (sc_async_stopped s1) + D =
      pending s + mset (sc_async_stopped s)" "accounted cfg D s s1" unfolding loops_conserve_def by blast
  have "pending s' + mset (out_ignored_seq_groups out) + mset (sc_async_stopped s') + D = pending s + mset (sc_async_stopped s)"
    using D(1) c(2,3,5) unfolding pre_tracked_def swap_tracked_def by (simp add: ac_simps)
  then show ?thesis using c(4,6) D(2) by blast
qed

text \<open>
  For the asynchronous processor: two running requests and a manager that counts free blocks and has
  none, so that the second request is to be preempted. The processor finds that it has finished.
\<close>

definition counting_ops :: "nat manager_ops" where
  "counting_ops =
     \<lparr>bm_can_allocate = (\<lambda>_ _ _. Inr OK), bm_allocate = (\<lambda>_ b. Inr (b - 1)),
      bm_can_append_slots = (\<lambda>_ _ b. Inr (0 < b)), bm_append_slots = (\<lambda>_ _ b. Inr (Some [], b - 1)),
      bm_fork = (\<lambda>_ _ b. Inr b), bm_can_swap_in = (\<lambda>_ _ _. Inr OK), bm_swap_in = (\<lambda>_ b. Inr (None, b)),
      bm_can_swap_out = (\<lambda>_ _. Inr True), bm_swap_out = (\<lambda>_ b. Inr (None, b)), bm_free = (\<lambda>_ b. Inr (b + 1)),
      bm_free_cross = (\<lambda>_ _. Inl AttributeError), bm_get_block_table = (\<lambda>_ _. Inr None),
      bm_get_cross_block_table = (\<lambda>_ _. Inl AttributeError), bm_get_num_free_gpu_blocks = id,
      bm_get_num_free_cpu_blocks = (\<lambda>_. 0), bm_access_all_blocks_in_seq = (\<lambda>_ _ b. Inr b),
      bm_get_common_computed_block_ids = (\<lambda>_ b. Inr ([], b)), bm_mark_blocks_as_computed = (\<lambda>_ _ b. Inr b)\<rparr>"

definition ex_async_cfg :: "nat config" where
  "ex_async_cfg = \<lparr>cf_max_num_batched_tokens = 8, cf_max_num_seqs = 4, cf_max_model_len = 8, cf_chunked_prefill_enabled = False,
     cf_is_multi_step = False, cf_num_scheduler_steps = 1, cf_num_lookahead_slots = 0, cf_delay_factor = 0,
     cf_policy = ''fcfs'', cf_preemption_mode = None, cf_send_delta_data = False, cf_max_loras = None,
     cf_enable_prefix_caching = False, cf_block_size = 4,
     cf_output_proc = Some (\<lambda>r (gs, bm). Inr (\<lambda>i. if sg_request_id (gs i) = r then change_status RUNNING FINISHED_STOPPED (gs i)
       else gs i, bm))\<rparr>"

definition ex_async_sched :: "nat scheduler" where
  "ex_async_sched = (scheduler_init (\<lambda>i. seq_group_init (if i = 0 then ''a'' else ''b'')
     [(ex_seq i [5, 6])\<lparr>sq_status := RUNNING, sq_data := (from_seqs [5, 6] None)\<lparr>sd_stage := DECODE\<rparr>\<rparr>] 0 None None None 0) 0)
     \<lparr>sc_running := [0, 1]\<rparr>"

lemma ex_async_schedule:
  "map_sum id (\<lambda>(out, s). (map sch_group (out_scheduled_seq_groups out), out_ignored_seq_groups out, sc_running s,
       sc_waiting s, sc_swapped s, sc_async_stopped s, sc_finished_requests_ids s))
     (schedule_policy counting_ops ex_async_cfg (\<lambda>_. 1) ex_async_sched) = Inr ([0], [], [0], [], [], [], [''b''])"
  by code_simp

lemma ex_async_callback_ok: "callback_ok ex_async_cfg"
proof -
  have "processed g (change_status RUNNING FINISHED_STOPPED g)" for g
    by (simp add: processed_def change_status_def list_all2_map2 sq_is_finished_def status_is_finished_def sq_get_len_def
        list_all2_same)
  then show ?thesis by (auto simp: callback_ok_def ex_async_cfg_def)
qed

text \<open>
  C1. No request is lost or duplicated: after a scheduling step under either policy, every group that
  was queued is in exactly one queue, or is reported as ignored, or was stopped by the asynchronous
  output processor, or is one of the groups \<open>D\<close> that its callback found finished; and what is
  scheduled is running. Without the processor nothing is stopped and \<open>D\<close> is empty. With it, if the
  callback keeps request ids and sequences and only finishes or extends the latter (\<open>callback_ok\<close>), every group of \<open>D\<close> is finished after the step and its request id has been added to the finished
  ones, once per group and no other, and the groups that were stopped are over the length limit.
\<close>

theorem schedule_conserves_requests:
  assumes "schedule_policy B cfg clock s = Inr (out, s')"
  shows "(\<exists>D. pending s' + mset (out_ignored_seq_groups out) + mset (sc_async_stopped s') + D =
      pending s + mset (sc_async_stopped s) \<and>
      (cf_output_proc cfg = None \<longrightarrow> D = {#} \<and> sc_async_stopped s' = sc_async_stopped s) \<and>
      (callback_ok cfg \<longrightarrow>
         (\<forall>i\<in>#D. sg_is_finished (sc_groups s' i)) \<and>
         mset (sc_finished_requests_ids s') =
           mset (sc_finished_requests_ids s) + image_mset (\<lambda>i. sg_request_id (sc_groups s' i)) D \<and>
         (\<exists>xs. sc_async_stopped s' = sc_async_stopped s @ xs \<and> (\<forall>i\<in>set xs. over_length cfg (sc_groups s' i))))) \<and>
    sch_group ` set (out_scheduled_seq_groups out) \<subseteq> set (sc_running s')"
proof -
  note k = schedule_policy_conserves [OF assms]
  from conjunct1 [OF k] obtain D where D: "pending s' + mset (out_ignored_seq_groups out) + mset (sc_async_stopped s') + D =
      pending s + mset (sc_async_stopped s) \<and> accounted cfg D s s'" by (rule exE)
  show ?thesis using conjunct2 [OF k] D unfolding accounted_def by (intro conjI exI [of _ D]) simp_all
qed

theorem schedule_conserves_requests_witness:
  "(\<exists>out s'. schedule_policy embedding_ops ex_cfg (\<lambda>_. 1) ex_sched = Inr (out, s') \<and>
     pending s' + mset (out_ignored_seq_groups out) = pending ex_sched) \<and>
   (\<exists>out s' i. schedule_policy counting_ops ex_async_cfg (\<lambda>_. 1) ex_async_sched = Inr (out, s') \<and>
     pending s' + {#i#} = pending ex_async_sched \<and> sg_is_finished (sc_groups s' i) \<and>
     sc_finished_requests_ids s' = [sg_request_id (sc_groups s' i)])"
proof (rule conjI)
  obtain out s' where o: "schedule_policy embedding_ops ex_cfg (\<lambda>_. 1) ex_sched = Inr (out, s')"
    using ex_schedule by (cases "schedule_policy embedding_ops ex_cfg (\<lambda>_. 1) ex_sched") auto
  have "cf_output_proc ex_cfg = None" by (simp add: ex_cfg_def)
  then show "\<exists>out s'. schedule_policy embedding_ops ex_cfg (\<lambda>_. 1) ex_sched = Inr (out, s') \<and>
     pending s' + mset (out_ignored_seq_groups out) = pending ex_sched"
    using schedule_conserves_requests [OF o] o by auto
next
  obtain out s' where o: "schedule_policy counting_ops ex_async_cfg (\<lambda>_. 1) ex_async_sched = Inr (out, s')"
    using ex_async_schedule by (cases "schedule_policy counting_ops ex_async_cfg (\<lambda>_. 1) ex_async_sched") auto
  then have e: "out_ignored_seq_groups out = []" "sc_running s' = [0]" "sc_waiting s' = []" "sc_swapped s' = []"
    "sc_async_stopped s' = []" "sc_finished_requests_ids s' = [''b'']"
    using ex_async_schedule by auto
  have s: "pending ex_async_sched = {#0, 1#}" "sc_async_stopped ex_async_sched = []" "sc_finished_requests_ids ex_async_sched = []"
    by (simp_all add: pending_def ex_async_sched_def scheduler_init_def)
  obtain D where D: "{#0#} + D = {#0, 1#}" "\<forall>i\<in>#D. sg_is_finished (sc_groups s' i)"
    "mset [''b''] = image_mset (\<lambda>i. sg_request_id (sc_groups s' i)) D"
    using schedule_conserves_requests [OF o] ex_async_callback_ok e s by (auto simp: pending_def)
  have "D = {#1#}" using D(1) by simp
  then have "pending s' + {#1#} = pending ex_async_sched \<and> sg_is_finished (sc_groups s' 1) \<and>
      sc_finished_requests_ids s' = [sg_request_id (sc_groups s' 1)]"
    using D(2,3) e s by (simp add: pending_def)
  then show "\<exists>out s' i. schedule_policy counting_ops ex_async_cfg (\<lambda>_. 1) ex_async_sched = Inr (out, s') \<and>
     pending s' + {#i#} = pending ex_async_sched \<and> sg_is_finished (sc_groups s' i) \<and>
     sc_finished_requests_ids s' = [sg_request_id (sc_groups s' i)]" using o by blast
qed

end
