(* ===== verification/Scheduler_Status.thy ===== *)
theory Scheduler_Status
  imports Scheduler_Queues
begin

text \<open>
  The life cycle of the groups: which status the sequences of a group have in which queue, and the
  token budget of a batch. A step is followed through two views of the store, the statuses and the
  request ids of every group.
\<close>

definition stat :: "'b scheduler \<Rightarrow> gid \<Rightarrow> seq_status list" where
  "stat s i = map sq_status (sg_seqs (sc_groups s i))"

definition rid :: "'b scheduler \<Rightarrow> gid \<Rightarrow> string" where
  "rid s i = sg_request_id (sc_groups s i)"

definition change :: "seq_status \<Rightarrow> seq_status \<Rightarrow> seq_status list \<Rightarrow> seq_status list" where
  "change old new = map (\<lambda>st. if st = old then new else st)"

text \<open>A status and the finished ones only.\<close>

definition all_are :: "seq_status \<Rightarrow> seq_status list \<Rightarrow> bool" where
  "all_are st sts \<longleftrightarrow> (\<forall>x\<in>set sts. x = st \<or> status_is_finished x)"

lemma all_are_change: "all_are a sts \<Longrightarrow> all_are b (change a b sts)"
  by (auto simp: all_are_def change_def)

text \<open>What the output processor may do to the statuses of a group.\<close>

definition settles :: "seq_status list \<Rightarrow> seq_status list \<Rightarrow> bool" where
  "settles = list_all2 (\<lambda>x x'. x' = x \<or> status_is_finished x')"

lemma settles_refl [simp]: "settles sts sts"
  by (simp add: settles_def list_all2_refl)

lemma settles_trans: "settles xs ys \<Longrightarrow> settles ys zs \<Longrightarrow> settles xs zs"
  unfolding settles_def by (rule list_all2_trans) auto

lemma all_are_settles: "settles sts sts' \<Longrightarrow> all_are st sts \<Longrightarrow> all_are st sts'"
  unfolding settles_def by (induction rule: list_all2_induct) (auto simp: all_are_def)

lemma settles_processed: "processed g g' \<Longrightarrow> settles (map sq_status (sg_seqs g)) (map sq_status (sg_seqs g'))"
  unfolding processed_def settles_def
  by (auto simp: list_all2_map1 list_all2_map2 sq_is_finished_def elim!: list_all2_mono)

section \<open>The effect of the operations on the views\<close>

lemma views_upd [simp]:
  "stat (s\<lparr>sc_block_manager := bm\<rparr>) = stat s" "rid (s\<lparr>sc_block_manager := bm\<rparr>) = rid s"
  "stat (s\<lparr>sc_finished_requests_ids := fs\<rparr>) = stat s" "rid (s\<lparr>sc_finished_requests_ids := fs\<rparr>) = rid s"
  "stat (s\<lparr>sc_num_cumulative_preemption := n\<rparr>) = stat s" "rid (s\<lparr>sc_num_cumulative_preemption := n\<rparr>) = rid s"
  "stat (s\<lparr>sc_waiting := q\<rparr>) = stat s" "rid (s\<lparr>sc_waiting := q\<rparr>) = rid s"
  "stat (s\<lparr>sc_running := q\<rparr>) = stat s" "rid (s\<lparr>sc_running := q\<rparr>) = rid s"
  "stat (s\<lparr>sc_swapped := q\<rparr>) = stat s" "rid (s\<lparr>sc_swapped := q\<rparr>) = rid s"
  "stat (s\<lparr>sc_prev_prompt := p\<rparr>) = stat s" "rid (s\<lparr>sc_prev_prompt := p\<rparr>) = rid s"
  by (simp_all add: stat_def rid_def fun_eq_iff)

lemma views_put [simp]:
  "stat (put_group i g s) = (stat s)(i := map sq_status (sg_seqs g))"
  "rid (put_group i g s) = (rid s)(i := sg_request_id g)"
  by (auto simp: stat_def rid_def put_group_def)

lemma statuses_change [simp]:
  "map sq_status (sg_seqs (change_status a b (sc_groups s i))) = change a b (stat s i)"
  "sg_request_id (change_status a b g) = sg_request_id g"
  by (auto simp: change_status_def change_def stat_def)

lemma rid_self [simp]: "(rid s)(i := sg_request_id (sc_groups s i)) = rid s"
  by (auto simp: rid_def)

lemma foldE_free_views: "foldE (free_seq B) qs s = Inr s' \<Longrightarrow> stat s' = stat s \<and> rid s' = rid s"
  by (erule foldE_inv) (auto simp: free_seq_def)

lemma init_multi_step_views:
  "init_multi_step_from_lookahead_slots la st ms ch g = Inr g' \<Longrightarrow> sg_seqs g' = sg_seqs g \<and> sg_request_id g' = sg_request_id g"
  by (auto simp: init_multi_step_from_lookahead_slots_def init_multi_step_def split: if_splits)

lemma append_slots_views: "append_slots B cfg i ch bc s = Inr (bc', s') \<Longrightarrow> stat s' = stat s \<and> rid s' = rid s"
  by (auto simp: append_slots_def Let_def stat_def rid_def dest!: init_multi_step_views)

lemma allocate_views:
  "allocate_and_set_running B i s = Inr s' \<Longrightarrow> stat s' = (stat s)(i := change WAITING RUNNING (stat s i)) \<and> rid s' = rid s"
  by (auto simp: allocate_and_set_running_def)

lemma swap_in_views:
  "swap_in B i bs s = Inr (bs', s') \<Longrightarrow> stat s' = (stat s)(i := change SWAPPED RUNNING (stat s i)) \<and> rid s' = rid s"
  by (auto simp: swap_in_def)

lemma swap_out_views:
  "swap_out B i bs s = Inr (bs', s') \<Longrightarrow> stat s' = (stat s)(i := change RUNNING SWAPPED (stat s i)) \<and> rid s' = rid s"
  by (auto simp: swap_out_def)

lemma recompute_views:
  assumes "preempt_by_recompute B i s = Inr s'"
  shows "stat s' = (stat s)(i := change RUNNING WAITING (stat s i)) \<and> rid s' = rid s"
proof -
  let ?g = "sc_groups s i"
  let ?g' = "?g\<lparr>sg_seqs := map (\<lambda>q. if sq_status q = RUNNING
             then sq_reset_state_for_recompute (q\<lparr>sq_status := WAITING\<rparr>) else q) (sg_seqs ?g)\<rparr>"
  obtain t where t: "foldE (free_seq B) (map (\<lambda>q. q\<lparr>sq_status := WAITING\<rparr>) (sg_get_seqs (Some RUNNING) ?g)) s = Inr t"
    and s': "s' = put_group i ?g' t"
    using assms by (auto simp: preempt_by_recompute_def Let_def)
  have "map sq_status (sg_seqs ?g') = change RUNNING WAITING (stat s i)"
    by (auto simp: change_def stat_def sq_reset_state_for_recompute_def)
  moreover have "sg_request_id ?g' = rid s i" by (simp add: rid_def)
  ultimately show ?thesis using foldE_free_views [OF t] s' by auto
qed

lemma preempt_views:
  assumes "preempt B cfg i bs m s = Inr (mode, bs', s')"
  shows "rid s' = rid s \<and>
    stat s' = (stat s)(i := change RUNNING (case mode of RECOMPUTE \<Rightarrow> WAITING | SWAP \<Rightarrow> SWAPPED) (stat s i))"
  using assms unfolding preempt_def Let_def
  by (auto split: preemption_mode.splits dest!: recompute_views swap_out_views)

lemma passed_delay_views:
  "stat (snd (passed_delay cfg now q s)) = stat s" "rid (snd (passed_delay cfg now q s)) = rid s"
  by (auto simp: passed_delay_def Let_def stat_def rid_def)

text \<open>Preempting a victim: the output processor first, then the preemption, unless it has finished.\<close>

lemma preempt_victim_views:
  assumes "preempt_victim B cfg v c = Inr c'" "callback_ok cfg"
  obtains sts where "\<forall>j. settles (stat (cx_sched c) j) (sts j)" "rid (cx_sched c') = rid (cx_sched c)" "cx_budget c' = cx_budget c"
    "(cx_out c' = cx_out c \<and> stat (cx_sched c') = sts) \<or>
     (\<exists>mode bs. cx_out c' = record_victim v mode bs (cx_out c) \<and> stat (cx_sched c') =
        sts(v := change RUNNING (case mode of RECOMPUTE \<Rightarrow> WAITING | SWAP \<Rightarrow> SWAPPED) (sts v)))"
proof -
  have pre: "\<exists>mode bs. cx_out c' = record_victim v mode bs (cx_out c) \<and> stat (cx_sched c') =
        (stat s)(v := change RUNNING (case mode of RECOMPUTE \<Rightarrow> WAITING | SWAP \<Rightarrow> SWAPPED) (stat s v)) \<and>
        rid (cx_sched c') = rid s \<and> cx_budget c' = cx_budget c"
    if h: "bindE (preempt B cfg v (ro_blocks_to_swap_out (cx_out c)) None s) (\<lambda>(mode, bs, s).
          Inr (c\<lparr>cx_sched := s, cx_out := record_victim v mode bs (cx_out c)\<rparr>)) = Inr c'" for s
  proof -
    obtain mode bs s' where p: "preempt B cfg v (ro_blocks_to_swap_out (cx_out c)) None s = Inr (mode, bs, s')"
      "c' = c\<lparr>cx_sched := s', cx_out := record_victim v mode bs (cx_out c)\<rparr>" using h by auto
    then show ?thesis using preempt_views [OF p(1)] by (intro exI [of _ mode] exI [of _ bs]) simp
  qed
  show ?thesis
  proof (cases "cf_output_proc cfg")
    case None
    then obtain mode bs where "cx_out c' = record_victim v mode bs (cx_out c)" "stat (cx_sched c') = (stat (cx_sched c))
        (v := change RUNNING (case mode of RECOMPUTE \<Rightarrow> WAITING | SWAP \<Rightarrow> SWAPPED) (stat (cx_sched c) v))"
      "rid (cx_sched c') = rid (cx_sched c)" "cx_budget c' = cx_budget c"
      using assms(1) pre [of "cx_sched c"] unfolding preempt_victim_def by auto
    then show ?thesis by (intro that [of "stat (cx_sched c)"]) (auto intro!: disjI2)
  next
    case (Some cb)
    then obtain gs bm where cb: "cb (sg_request_id (sc_groups (cx_sched c) v)) (sc_groups (cx_sched c), sc_block_manager (cx_sched c))
        = Inr (gs, bm)" using assms(1) unfolding preempt_victim_def by auto
    let ?t = "(cx_sched c)\<lparr>sc_groups := gs, sc_block_manager := bm\<rparr>"
    have p: "processed (sc_groups (cx_sched c) i) (gs i)" for i
      using assms(2) Some cb unfolding callback_ok_def by simp blast
    then have t: "settles (stat (cx_sched c) j) (stat ?t j)" "rid ?t = rid (cx_sched c)" for j
      using settles_processed by (auto simp: stat_def rid_def processed_def)
    show ?thesis
    proof (cases "sg_is_finished (gs v)")
      case True
      then obtain s where s: "free_finished_seq_group B v ?t = Inr s" "c' = c\<lparr>cx_sched := s\<rparr>"
        using assms(1) Some cb unfolding preempt_victim_def by (auto simp: Let_def)
      then have "stat (cx_sched c') = stat ?t" "rid (cx_sched c') = rid ?t"
        using free_finished_seq_group_groups [OF s(1)] by (simp_all add: stat_def rid_def fun_eq_iff)
      then show ?thesis using t s(2) by (intro that [of "stat ?t"]) simp_all
    next
      case False
      then have "bindE (preempt B cfg v (ro_blocks_to_swap_out (cx_out c)) None ?t) (\<lambda>(mode, bs, s).
          Inr (c\<lparr>cx_sched := s, cx_out := record_victim v mode bs (cx_out c)\<rparr>)) = Inr c'"
        using assms(1) Some cb unfolding preempt_victim_def by (simp add: Let_def)
      from pre [OF this] show ?thesis using t by (intro that [of "stat ?t"]) auto
    qed
  qed
qed

section \<open>Queues and statuses\<close>

text \<open>What the running loop has decided so far, with the statuses this requires.\<close>

definition run_ok :: "gid list \<Rightarrow> ('b, running_outputs) ctx \<Rightarrow> bool" where
  "run_ok q c \<longleftrightarrow>
     (\<forall>i\<in>set q \<union> sch_group ` set (ro_decode_seq_groups (cx_out c)) \<union> sch_group ` set (ro_prefill_seq_groups (cx_out c)).
        all_are RUNNING (stat (cx_sched c) i)) \<and>
     (\<forall>i\<in>set (ro_preempted (cx_out c)). all_are WAITING (stat (cx_sched c) i)) \<and>
     (\<forall>i\<in>set (ro_swapped_out (cx_out c)). all_are SWAPPED (stat (cx_sched c) i))"

text \<open>The groups a loop deals with, without repetition.\<close>

definition distinct_run :: "gid list \<Rightarrow> running_outputs \<Rightarrow> bool" where
  "distinct_run q out \<longleftrightarrow> (\<forall>i. count (mset q + run_tracked out) i \<le> 1)"

lemma run_tracked_mem:
  "i \<in># run_tracked out \<longleftrightarrow> i \<in> sch_group ` set (ro_decode_seq_groups out) \<or> i \<in> sch_group ` set (ro_prefill_seq_groups out) \<or>
     i \<in> set (ro_preempted out) \<or> i \<in> set (ro_swapped_out out)"
  by (auto simp: run_tracked_def)

lemma distinct_run_Cons:
  "distinct_run (v # q) out \<longleftrightarrow> v \<notin> set q \<and> v \<notin># run_tracked out \<and> distinct_run q out"
proof
  assume d: "distinct_run (v # q) out"
  then have "count (mset q + run_tracked out) v = 0" unfolding distinct_run_def by (auto dest: spec [of _ v])
  then have "v \<notin># mset q + run_tracked out" by (simp only: not_in_iff)
  moreover have "count (mset q + run_tracked out) i \<le> 1" for i
    using d unfolding distinct_run_def by (metis count_add_mset le_Suc_eq le_trans mset.simps(2) union_mset_add_mset_left nat_le_linear order_refl)
  ultimately show "v \<notin> set q \<and> v \<notin># run_tracked out \<and> distinct_run q out" by (simp add: distinct_run_def)
next
  assume "v \<notin> set q \<and> v \<notin># run_tracked out \<and> distinct_run q out"
  then show "distinct_run (v # q) out" by (auto simp: distinct_run_def not_in_iff)
qed

lemma distinct_run_mset: "mset q + run_tracked out = mset q' + run_tracked out' \<Longrightarrow> distinct_run q out = distinct_run q' out'"
  by (simp add: distinct_run_def)

lemma run_ok_mono: "run_ok q c \<Longrightarrow> set q' \<subseteq> set q \<Longrightarrow> run_ok q' c"
  unfolding run_ok_def by blast

lemma run_ok_settles:
  "run_ok q c \<Longrightarrow> cx_out c' = cx_out c \<Longrightarrow> \<forall>j. settles (stat (cx_sched c) j) (stat (cx_sched c') j) \<Longrightarrow> run_ok q c'"
proof -
  assume a: "run_ok q c" "cx_out c' = cx_out c" "\<forall>j. settles (stat (cx_sched c) j) (stat (cx_sched c') j)"
  have "all_are st (stat (cx_sched c) i) \<Longrightarrow> all_are st (stat (cx_sched c') i)" for st i
    by (rule all_are_settles [OF spec [OF a(3)]])
  then show ?thesis using a(1) unfolding run_ok_def a(2) by auto
qed

lemma distinct_run_le: "mset q + run_tracked out \<subseteq># mset q' + run_tracked out' \<Longrightarrow> distinct_run q' out' \<Longrightarrow> distinct_run q out"
  unfolding distinct_run_def by (meson mset_subset_eq_count order_trans)

lemma preempt_victim_status:
  assumes "preempt_victim B cfg v c = Inr c'" "callback_ok cfg" "run_ok (v # q) c" "distinct_run (v # q) (cx_out c)"
  shows "run_ok q c'"
proof -
  obtain sts where v4: "\<forall>j. settles (stat (cx_sched c) j) (sts j)" "rid (cx_sched c') = rid (cx_sched c)" "cx_budget c' = cx_budget c"
    "(cx_out c' = cx_out c \<and> stat (cx_sched c') = sts) \<or>
     (\<exists>mode bs. cx_out c' = record_victim v mode bs (cx_out c) \<and> stat (cx_sched c') =
        sts(v := change RUNNING (case mode of RECOMPUTE \<Rightarrow> WAITING | SWAP \<Rightarrow> SWAPPED) (sts v)))"
    by (rule preempt_victim_views [OF assms(1,2)])
  note t = v4(1) and d = v4(4)
  have a: "all_are st (stat (cx_sched c) j) \<Longrightarrow> all_are st (sts j)" for st j using all_are_settles [OF spec [OF t]] .
  from d show ?thesis
  proof
    assume "cx_out c' = cx_out c \<and> stat (cx_sched c') = sts"
    then show ?thesis using run_ok_settles [OF run_ok_mono [OF assms(3), of q]] t by auto
  next
    assume "\<exists>mode bs. cx_out c' = record_victim v mode bs (cx_out c) \<and> stat (cx_sched c') =
        sts(v := change RUNNING (case mode of RECOMPUTE \<Rightarrow> WAITING | SWAP \<Rightarrow> SWAPPED) (sts v))"
    then obtain mode bs where v: "cx_out c' = record_victim v mode bs (cx_out c)" "stat (cx_sched c') =
        sts(v := change RUNNING (case mode of RECOMPUTE \<Rightarrow> WAITING | SWAP \<Rightarrow> SWAPPED) (sts v))" by blast
    have n: "v \<notin> set q" "v \<notin># run_tracked (cx_out c)" using assms(4) by (auto simp: distinct_run_Cons)
    have "all_are RUNNING (sts v)" using assms(3) a by (simp add: run_ok_def)
    then have "all_are (case mode of RECOMPUTE \<Rightarrow> WAITING | SWAP \<Rightarrow> SWAPPED) (stat (cx_sched c') v)"
      using v(2) by (simp add: all_are_change)
    then show ?thesis using assms(3) v n a unfolding run_ok_def run_tracked_mem
      by (cases mode) (auto simp: record_victim_def Let_def)
  qed
qed

lemma make_room_status:
  "make_room B cfg ch i n q c = Inr (fits, q', c') \<Longrightarrow> callback_ok cfg \<Longrightarrow> run_ok (i # q) c \<Longrightarrow>
     distinct_run (i # q) (cx_out c) \<Longrightarrow> run_ok (if fits then i # q' else q') c'"
proof (induction B cfg ch i n q c rule: make_room.induct)
  case (1 B cfg ch i n q c)
  let ?c = "release_budget i n c"
  have c: "cx_sched ?c = cx_sched c" "cx_out ?c = cx_out c" by (simp_all add: release_budget_def Let_def)
  have rok: "run_ok (i # q) ?c" using "1.prems"(3) unfolding run_ok_def c .
  obtain ok where ok: "can_append_slots B cfg (sc_groups (cx_sched c) i) ch (sc_block_manager (cx_sched c)) = Inr ok"
    using "1.prems"(1) unfolding make_room.simps [of B cfg ch i n q c] by auto
  consider (fits) "ok" | (self) "\<not> ok" "q = []" | (victim) "\<not> ok" "q \<noteq> []" by blast
  then show ?case
  proof cases
    case fits
    then show ?thesis using "1.prems" ok unfolding make_room.simps [of B cfg ch i n q c] by auto
  next
    case self
    then have "preempt_victim B cfg i ?c = Inr c'" "q' = []" "\<not> fits"
      using "1.prems"(1) ok unfolding make_room.simps [of B cfg ch i n q c] by (auto simp: Let_def)
    then show ?thesis
      using preempt_victim_status [of B cfg i ?c c' q] "1.prems"(2,4) rok self unfolding c by simp
  next
    case victim
    then obtain c1 where c1: "preempt_victim B cfg (last q) ?c = Inr c1"
      "make_room B cfg ch i n (butlast q) c1 = Inr (fits, q', c')"
      using "1.prems"(1) ok unfolding make_room.simps [of B cfg ch i n q c] by (auto simp: Let_def)
    have q: "q = butlast q @ [last q]" using victim(2) by simp
    have ms: "mset (i # q) = mset (last q # i # butlast q)" by (subst q) simp
    then have d: "distinct_run (last q # i # butlast q) (cx_out ?c)"
      using "1.prems"(4) distinct_run_mset [of "i # q" "cx_out c" "last q # i # butlast q" "cx_out c"] c by simp
    have r: "run_ok (last q # i # butlast q) ?c"
      by (rule run_ok_mono [OF rok]) (use ms in \<open>metis mset_eq_setD order_refl\<close>)
    have r1: "run_ok (i # butlast q) c1"
      by (rule preempt_victim_status [OF c1(1) "1.prems"(2) r d])
    obtain D where D: "run_tracked (cx_out c1) + D = run_tracked (cx_out ?c) + {#last q#}"
      using preempt_victim_conserves [OF c1(1)] by blast
    have "mset (i # butlast q) + run_tracked (cx_out c1) + D = mset (last q # i # butlast q) + run_tracked (cx_out ?c)"
      using D by (simp add: add.assoc)
    then have "distinct_run (i # butlast q) (cx_out c1)" using distinct_run_le [OF _ d] by (metis mset_subset_eq_add_left)
    from "1.IH" [OF ok victim(1) refl victim(2) c1 "1.prems"(2) r1 this] show ?thesis .
  qed
qed

lemma schedule_running_group_status:
  assumes "schedule_running_group B cfg ch i n c = Inr c'" "run_ok (i # q) c"
  shows "run_ok q c'"
proof -
  obtain bc s p where a: "append_slots B cfg i ch (ro_blocks_to_copy (cx_out c)) (cx_sched c) = Inr (bc, s)"
    "sg_is_prefill (sc_groups s i) = Inr p"
    using assms unfolding schedule_running_group_def by (auto simp: Let_def)
  note v = append_slots_views [OF a(1)]
  have c': "stat (cx_sched c') = stat (cx_sched c)" "ro_preempted (cx_out c') = ro_preempted (cx_out c)"
    "ro_swapped_out (cx_out c') = ro_swapped_out (cx_out c)"
    "sch_group ` set (ro_decode_seq_groups (cx_out c')) \<union> sch_group ` set (ro_prefill_seq_groups (cx_out c')) =
       insert i (sch_group ` set (ro_decode_seq_groups (cx_out c)) \<union> sch_group ` set (ro_prefill_seq_groups (cx_out c)))"
    using assms(1) a v unfolding schedule_running_group_def by (auto simp: Let_def split: if_splits)
  show ?thesis using assms(2) c' unfolding run_ok_def by (auto simp: Un_assoc)
qed

text \<open>The steps of the running loop.\<close>

lemma running_loop_cases:
  assumes "running_loop B cfg ch (i # q) c = Inr (q', c')"
  obtains (stop) "q' = i # q" "c' = c"
  | (async) c1 where "c1 = c\<lparr>cx_sched := (cx_sched c)\<lparr>sc_async_stopped := sc_async_stopped (cx_sched c) @ [i]\<rparr>\<rparr>"
      "running_loop B cfg ch q c1 = Inr (q', c')"
  | (victim) n q1 c1 where "get_num_new_tokens cfg (sc_groups (cx_sched c) i) RUNNING ch (cx_budget c) = Inr n"
      "make_room B cfg ch i n q c = Inr (False, q1, c1)" "running_loop B cfg ch q1 c1 = Inr (q', c')"
  | (go) n q1 c1 c2 where "get_num_new_tokens cfg (sc_groups (cx_sched c) i) RUNNING ch (cx_budget c) = Inr n" "n \<noteq> 0"
      "make_room B cfg ch i n q c = Inr (True, q1, c1)" "schedule_running_group B cfg ch i n c1 = Inr c2"
      "running_loop B cfg ch q1 c2 = Inr (q', c')"
proof -
  obtain n where n: "get_num_new_tokens cfg (sc_groups (cx_sched c) i) RUNNING ch (cx_budget c) = Inr n"
    using assms(1) unfolding running_loop.simps by (auto simp: Let_def)
  show ?thesis
  proof (cases "n = 0")
    case True
    then show ?thesis using assms(1) n stop unfolding running_loop.simps by (auto simp: Let_def)
  next
    case False
    obtain over where o: "(if cf_output_proc cfg = None then Inr False
        else bindE (raise_unless IndexError (sg_seqs (sc_groups (cx_sched c) i) \<noteq> [])) (\<lambda>_.
             Inr (sq_get_len (hd (sg_seqs (sc_groups (cx_sched c) i))) > cf_max_model_len cfg))) = Inr over"
      using assms n False unfolding running_loop.simps by (auto simp: Let_def)
    show ?thesis
    proof (cases over)
      case True
      then show ?thesis using assms n False o async unfolding running_loop.simps by (simp add: Let_def)
    next
      case no: False
      then obtain fits q1 c1 c2 where r: "make_room B cfg ch i n q c = Inr (fits, q1, c1)"
        "(if fits then schedule_running_group B cfg ch i n c1 else Inr c1) = Inr c2"
        "running_loop B cfg ch q1 c2 = Inr (q', c')"
        using assms n False o unfolding running_loop.simps by (auto simp: Let_def)
      show ?thesis
      proof (cases fits)
        case True
        show ?thesis by (rule go [OF n False]) (use r True in auto)
      next
        case f: False
        show ?thesis by (rule victim [OF n]) (use r f in auto)
      qed
    qed
  qed
qed

lemma running_loop_status:
  "running_loop B cfg ch q c = Inr (q', c') \<Longrightarrow> callback_ok cfg \<Longrightarrow> run_ok q c \<Longrightarrow> distinct_run q (cx_out c) \<Longrightarrow>
     run_ok q' c'"
proof (induction "length q" arbitrary: q c rule: less_induct)
  case less
  show ?case
  proof (cases q)
    case Nil
    then show ?thesis using less.prems by (simp add: running_loop.simps)
  next
    case (Cons i r)
    note ok = less.prems(3) [unfolded Cons] and d = less.prems(4) [unfolded Cons]
    from less.prems(1) [unfolded Cons] show ?thesis
    proof (cases rule: running_loop_cases)
      case stop
      then show ?thesis using ok by simp
    next
      case (async c1)
      have "run_ok r c1" using run_ok_settles [OF run_ok_mono [OF ok, of r], of c1] async(1) by (auto simp: stat_def)
      moreover have "distinct_run r (cx_out c1)" using d async(1) by (simp add: distinct_run_Cons)
      ultimately show ?thesis using less.hyps [OF _ async(2) less.prems(2)] Cons by simp
    next
      case (victim n q1 c1)
      have l: "length q1 < length q" using make_room_length [OF victim(2)] Cons by simp
      have "run_ok q1 c1" using make_room_status [OF victim(2) less.prems(2) ok d] by simp
      moreover obtain D where "mset q1 + run_tracked (cx_out c1) + D = mset r + run_tracked (cx_out c) + {#i#}"
        using make_room_conserves [OF victim(2)] by auto
      then have "mset q1 + run_tracked (cx_out c1) + D = mset (i # r) + run_tracked (cx_out c)" by simp
      then have "distinct_run q1 (cx_out c1)" using distinct_run_le [OF _ d] by (metis mset_subset_eq_add_left)
      ultimately show ?thesis using less.hyps [OF l victim(3) less.prems(2)] by blast
    next
      case (go n q1 c1 c2)
      have l: "length q1 < length q" using make_room_length [OF go(3)] Cons by simp
      have "run_ok (i # q1) c1" using make_room_status [OF go(3) less.prems(2) ok d] by simp
      then have "run_ok q1 c2" by (rule schedule_running_group_status [OF go(4)])
      moreover obtain D where D: "mset q1 + run_tracked (cx_out c1) + {#i#} + D = mset r + run_tracked (cx_out c) + {#i#}"
        using make_room_conserves [OF go(3)] by auto
      have "mset q1 + run_tracked (cx_out c2) + D = mset (i # r) + run_tracked (cx_out c)"
        using D conjunct2 [OF schedule_running_group_conserves [OF go(4)]] by simp
      then have "distinct_run q1 (cx_out c2)" using distinct_run_le [OF _ d] by (metis mset_subset_eq_add_left)
      ultimately show ?thesis using less.hyps [OF l go(5) less.prems(2)] by blast
    qed
  qed
qed

text \<open>The running loop touches only the groups of its queue.\<close>

lemma preempt_victim_frame:
  assumes "preempt_victim B cfg v c = Inr c'" "callback_ok cfg"
  shows "rid (cx_sched c') = rid (cx_sched c)" "j \<noteq> v \<Longrightarrow> settles (stat (cx_sched c) j) (stat (cx_sched c') j)"
proof -
  obtain sts where t: "\<forall>j. settles (stat (cx_sched c) j) (sts j)" "rid (cx_sched c') = rid (cx_sched c)" "cx_budget c' = cx_budget c"
    "(cx_out c' = cx_out c \<and> stat (cx_sched c') = sts) \<or>
     (\<exists>mode bs. cx_out c' = record_victim v mode bs (cx_out c) \<and> stat (cx_sched c') =
        sts(v := change RUNNING (case mode of RECOMPUTE \<Rightarrow> WAITING | SWAP \<Rightarrow> SWAPPED) (sts v)))"
    by (rule preempt_victim_views [OF assms])
  show "rid (cx_sched c') = rid (cx_sched c)" by (rule t(2))
  show "j \<noteq> v \<Longrightarrow> settles (stat (cx_sched c) j) (stat (cx_sched c') j)" using spec [OF t(1), of j] t(4) by auto
qed

lemma make_room_frame:
  "make_room B cfg ch i n q c = Inr (fits, q', c') \<Longrightarrow> callback_ok cfg \<Longrightarrow>
     set q' \<subseteq> set q \<and> rid (cx_sched c') = rid (cx_sched c) \<and> (\<forall>j. j \<notin> set (i # q) \<longrightarrow> settles (stat (cx_sched c) j) (stat (cx_sched c') j))"
proof (induction B cfg ch i n q c rule: make_room.induct)
  case (1 B cfg ch i n q c)
  let ?c = "release_budget i n c"
  have c: "cx_sched ?c = cx_sched c" by (simp add: release_budget_def Let_def)
  obtain ok where ok: "can_append_slots B cfg (sc_groups (cx_sched c) i) ch (sc_block_manager (cx_sched c)) = Inr ok"
    using "1.prems"(1) unfolding make_room.simps [of B cfg ch i n q c] by auto
  consider (fits) "ok" | (self) "\<not> ok" "q = []" | (victim) "\<not> ok" "q \<noteq> []" by blast
  then show ?case
  proof cases
    case fits
    then show ?thesis using "1.prems" ok unfolding make_room.simps [of B cfg ch i n q c] by auto
  next
    case self
    then have "preempt_victim B cfg i ?c = Inr c'" "q' = []"
      using "1.prems"(1) ok unfolding make_room.simps [of B cfg ch i n q c] by (auto simp: Let_def)
    then show ?thesis using preempt_victim_frame [OF _ "1.prems"(2), of B i ?c c'] c self by simp
  next
    case victim
    then obtain c1 where c1: "preempt_victim B cfg (last q) ?c = Inr c1"
      "make_room B cfg ch i n (butlast q) c1 = Inr (fits, q', c')"
      using "1.prems"(1) ok unfolding make_room.simps [of B cfg ch i n q c] by (auto simp: Let_def)
    have v: "rid (cx_sched c1) = rid (cx_sched c)" "j \<noteq> last q \<Longrightarrow> settles (stat (cx_sched c) j) (stat (cx_sched c1) j)" for j
      using preempt_victim_frame [OF c1(1) "1.prems"(2)] unfolding c by simp_all
    have b: "set (butlast q) \<subseteq> set q" "last q \<in> set q" using victim(2) by (auto dest: in_set_butlastD)
    note ih = "1.IH" [OF ok victim(1) refl victim(2) c1 "1.prems"(2)]
    show ?thesis
    proof (intro conjI allI impI)
      show "set q' \<subseteq> set q" using ih b by blast
      show "rid (cx_sched c') = rid (cx_sched c)" using ih v(1) by simp
      fix j assume j: "j \<notin> set (i # q)"
      then have "j \<notin> set (i # butlast q)" "j \<noteq> last q" using b by auto
      then show "settles (stat (cx_sched c) j) (stat (cx_sched c') j)" using ih v(2) settles_trans by blast
    qed
  qed
qed

lemma schedule_running_group_views:
  assumes "schedule_running_group B cfg ch i n c = Inr c'"
  shows "stat (cx_sched c') = stat (cx_sched c)" "rid (cx_sched c') = rid (cx_sched c)"
proof -
  obtain bc s p where a: "append_slots B cfg i ch (ro_blocks_to_copy (cx_out c)) (cx_sched c) = Inr (bc, s)"
    "sg_is_prefill (sc_groups s i) = Inr p"
    using assms unfolding schedule_running_group_def by (auto simp: Let_def)
  have "cx_sched c' = s" using assms a unfolding schedule_running_group_def by (auto simp: Let_def)
  then show "stat (cx_sched c') = stat (cx_sched c)" "rid (cx_sched c') = rid (cx_sched c)"
    using append_slots_views [OF a(1)] by simp_all
qed

lemma running_loop_frame:
  "running_loop B cfg ch q c = Inr (q', c') \<Longrightarrow> callback_ok cfg \<Longrightarrow>
     set q' \<subseteq> set q \<and> rid (cx_sched c') = rid (cx_sched c) \<and> (\<forall>j. j \<notin> set q \<longrightarrow> settles (stat (cx_sched c) j) (stat (cx_sched c') j))"
proof (induction "length q" arbitrary: q c rule: less_induct)
  case less
  show ?case
  proof (cases q)
    case Nil
    then show ?thesis using less.prems by (simp add: running_loop.simps)
  next
    case (Cons i r)
    from less.prems(1) [unfolded Cons] show ?thesis
    proof (cases rule: running_loop_cases)
      case stop
      then show ?thesis using Cons by simp
    next
      case (async c1)
      have "stat (cx_sched c1) = stat (cx_sched c)" "rid (cx_sched c1) = rid (cx_sched c)"
        using async(1) by (simp_all add: stat_def rid_def fun_eq_iff)
      then show ?thesis using less.hyps [OF _ async(2) less.prems(2)] Cons by auto
    next
      case (victim n q1 c1)
      have l: "length q1 < length q" using make_room_length [OF victim(2)] Cons by simp
      show ?thesis using less.hyps [OF l victim(3) less.prems(2)] make_room_frame [OF victim(2) less.prems(2)] Cons settles_trans
        by (auto; blast)
    next
      case (go n q1 c1 c2)
      have l: "length q1 < length q" using make_room_length [OF go(3)] Cons by simp
      show ?thesis using less.hyps [OF l go(5) less.prems(2)] make_room_frame [OF go(3) less.prems(2)]
          schedule_running_group_views [OF go(4)] Cons settles_trans by (auto; blast)
    qed
  qed
qed

section \<open>The swapped and the waiting queue\<close>

definition one_each :: "gid multiset \<Rightarrow> bool" where
  "one_each M \<longleftrightarrow> (\<forall>i. count M i \<le> 1)"

lemma one_each_add [simp]: "one_each (add_mset i M) \<longleftrightarrow> i \<notin># M \<and> one_each M"
proof
  assume d: "one_each (add_mset i M)"
  then have "count M i = 0" unfolding one_each_def by (auto dest: spec [of _ i])
  moreover have "count M j \<le> 1" for j
    using spec [OF d [unfolded one_each_def], of j] by (simp split: if_splits)
  ultimately show "i \<notin># M \<and> one_each M" by (simp add: one_each_def not_in_iff)
qed (auto simp: one_each_def not_in_iff)

lemma one_each_mset: "one_each (mset q) = distinct q"
  by (induction q) (simp add: one_each_def, simp)

lemma swapped_loop_cases:
  assumes "swapped_loop B cfg ch (i # q) c l = Inr (q', c', l')"
  obtains (stop) "q' = i # q" "c' = c" "l' = l"
  | (infeasible) "swapped_loop B cfg ch q
      (c\<lparr>cx_sched := put_group i (set_all_status FINISHED_IGNORED (sc_groups (cx_sched c) i)) (cx_sched c),
         cx_out := (cx_out c)\<lparr>so_infeasible_seq_groups := so_infeasible_seq_groups (cx_out c) @ [i]\<rparr>\<rparr>) l = Inr (q', c', l')"
  | (left) "swapped_loop B cfg ch q c (l @ [i]) = Inr (q', c', l')"
  | (go) n c1 where "get_num_new_tokens cfg (sc_groups (cx_sched c) i) SWAPPED ch (cx_budget c) = Inr n"
      "over_budget n (int (get_max_num_running_seqs (sc_groups (cx_sched c) i))) (cx_budget c) = Inr False"
      "swap_in_group B cfg ch i n (int (get_max_num_running_seqs (sc_groups (cx_sched c) i))) c = Inr c1"
      "swapped_loop B cfg ch q c1 l = Inr (q', c', l')"
proof -
  let ?g = "sc_groups (cx_sched c) i"
  obtain p status where s: "sg_is_prefill ?g = Inr p"
    "bm_can_swap_in B ?g (get_num_lookahead_slots cfg p ch) (sc_block_manager (cx_sched c)) = Inr status"
    using assms by (auto simp: Let_def)
  show ?thesis
  proof (cases status)
    case OK
    then obtain full where full: "lora_full cfg ?g (cx_loras c) = Inr full" using assms s by (auto simp: Let_def)
    show ?thesis
    proof (cases full)
      case True
      then show ?thesis using left assms s OK full by (simp add: Let_def)
    next
      case False
      then obtain n over where n: "get_num_new_tokens cfg ?g SWAPPED ch (cx_budget c) = Inr n"
        "over_budget n (int (get_max_num_running_seqs ?g)) (cx_budget c) = Inr over"
        using assms s OK full by (auto simp: Let_def)
      show ?thesis
      proof (cases over)
        case True
        then show ?thesis using assms s OK full False n stop by (auto simp: Let_def)
      next
        case o: False
        then obtain c1 where "swap_in_group B cfg ch i n (int (get_max_num_running_seqs ?g)) c = Inr c1"
          "swapped_loop B cfg ch q c1 l = Inr (q', c', l')" using assms s OK full False n by (auto simp: Let_def)
        then show ?thesis using go n o by simp
      qed
    qed
  qed (use assms s stop infeasible in \<open>auto simp: Let_def\<close>)
qed

definition swap_ok :: "gid list \<Rightarrow> ('b, swapped_in_outputs) ctx \<Rightarrow> bool" where
  "swap_ok q c \<longleftrightarrow> one_each (mset q + swap_tracked (cx_out c)) \<and>
     (\<forall>i\<in>set q. all_are SWAPPED (stat (cx_sched c) i)) \<and>
     (\<forall>i\<in>sch_group ` set (so_decode_seq_groups (cx_out c)) \<union> sch_group ` set (so_prefill_seq_groups (cx_out c)).
        all_are RUNNING (stat (cx_sched c) i)) \<and>
     (\<forall>i\<in>set (so_infeasible_seq_groups (cx_out c)). all_are FINISHED_IGNORED (stat (cx_sched c) i))"

lemma swap_tracked_mem:
  "i \<in># swap_tracked out \<longleftrightarrow> i \<in> sch_group ` set (so_decode_seq_groups out) \<or> i \<in> sch_group ` set (so_prefill_seq_groups out) \<or>
     i \<in> set (so_infeasible_seq_groups out)"
  by (auto simp: swap_tracked_def)

lemma swap_in_group_step:
  assumes "swap_in_group B cfg ch i n k c = Inr c'"
  shows "stat (cx_sched c') = (stat (cx_sched c))(i := change SWAPPED RUNNING (stat (cx_sched c) i))"
    "rid (cx_sched c') = rid (cx_sched c)"
    "so_infeasible_seq_groups (cx_out c') = so_infeasible_seq_groups (cx_out c)"
    "sch_group ` set (so_decode_seq_groups (cx_out c')) \<union> sch_group ` set (so_prefill_seq_groups (cx_out c')) =
       insert i (sch_group ` set (so_decode_seq_groups (cx_out c)) \<union> sch_group ` set (so_prefill_seq_groups (cx_out c)))"
proof -
  obtain bs s bc s' p where a: "swap_in B i (so_blocks_to_swap_in (cx_out c)) (cx_sched c) = Inr (bs, s)"
    "append_slots B cfg i ch (so_blocks_to_copy (cx_out c)) s = Inr (bc, s')" "sg_is_prefill (sc_groups s' i) = Inr p"
    using assms unfolding swap_in_group_def by (auto simp: Let_def)
  have c': "cx_sched c' = s'" using assms a unfolding swap_in_group_def by (auto simp: Let_def)
  show "stat (cx_sched c') = (stat (cx_sched c))(i := change SWAPPED RUNNING (stat (cx_sched c) i))"
    "rid (cx_sched c') = rid (cx_sched c)"
    using swap_in_views [OF a(1)] append_slots_views [OF a(2)] c' by simp_all
  show "so_infeasible_seq_groups (cx_out c') = so_infeasible_seq_groups (cx_out c)"
    "sch_group ` set (so_decode_seq_groups (cx_out c')) \<union> sch_group ` set (so_prefill_seq_groups (cx_out c')) =
       insert i (sch_group ` set (so_decode_seq_groups (cx_out c)) \<union> sch_group ` set (so_prefill_seq_groups (cx_out c)))"
    using assms a unfolding swap_in_group_def by (cases p; auto simp: Let_def)+
qed

lemma set_all_status_stat [simp]:
  "map sq_status (sg_seqs (set_all_status st g)) = map (\<lambda>_. st) (sg_seqs g)" "sg_request_id (set_all_status st g) = sg_request_id g"
  by (simp_all add: set_all_status_def)

lemma swapped_loop_status:
  "swapped_loop B cfg ch q c l = Inr (q', c', l') \<Longrightarrow> swap_ok (l @ q) c \<Longrightarrow> swap_ok (l' @ q') c' \<and>
     rid (cx_sched c') = rid (cx_sched c) \<and> (\<forall>j. j \<notin> set q \<longrightarrow> stat (cx_sched c') j = stat (cx_sched c) j)"
proof (induction q arbitrary: c l)
  case (Cons i q)
  from Cons.prems(1) show ?case
  proof (cases rule: swapped_loop_cases)
    case stop
    then show ?thesis using Cons.prems by simp
  next
    case infeasible
    let ?c = "c\<lparr>cx_sched := put_group i (set_all_status FINISHED_IGNORED (sc_groups (cx_sched c) i)) (cx_sched c),
      cx_out := (cx_out c)\<lparr>so_infeasible_seq_groups := so_infeasible_seq_groups (cx_out c) @ [i]\<rparr>\<rparr>"
    have "swap_ok (l @ q) ?c" using Cons.prems(2) unfolding swap_ok_def
      by (auto simp: swap_tracked_def all_are_def)
    from Cons.IH [OF infeasible this] show ?thesis by auto
  next
    case left
    have "swap_ok ((l @ [i]) @ q) c" using Cons.prems(2) by simp
    from Cons.IH [OF left this] show ?thesis by simp
  next
    case (go n c1)
    note s = swap_in_group_step [OF go(3)] and t = conjunct2 [OF swap_in_group_conserves [OF go(3)]]
    have "swap_ok (l @ q) c1" using Cons.prems(2) t unfolding swap_ok_def s
      by (auto simp: swap_tracked_mem all_are_change)
    from Cons.IH [OF go(4) this] show ?thesis using s(1,2) by auto
  qed
qed simp

definition pre_ok :: "gid list \<Rightarrow> ('b, prefill_outputs) ctx \<Rightarrow> bool" where
  "pre_ok q c \<longleftrightarrow> one_each (mset q + pre_tracked (cx_out c)) \<and>
     (\<forall>i\<in>set q. all_are WAITING (stat (cx_sched c) i)) \<and>
     (\<forall>i\<in>sch_group ` set (po_seq_groups (cx_out c)). all_are RUNNING (stat (cx_sched c) i)) \<and>
     (\<forall>i\<in>set (po_ignored_seq_groups (cx_out c)). all_are FINISHED_IGNORED (stat (cx_sched c) i))"

lemma prefill_group_step:
  assumes "prefill_group B cfg ch i n k la c = Inr c'"
  shows "stat (cx_sched c') = (stat (cx_sched c))(i := change WAITING RUNNING (stat (cx_sched c) i))"
    "rid (cx_sched c') = rid (cx_sched c)"
    "po_seq_groups (cx_out c') = po_seq_groups (cx_out c) @ [\<lparr>sch_group = i, sch_token_chunk_size = n\<rparr>]"
    "po_ignored_seq_groups (cx_out c') = po_ignored_seq_groups (cx_out c)"
proof -
  obtain s s' where a: "allocate_and_set_running B i (cx_sched c) = Inr s"
    "(if ch \<and> cf_is_multi_step cfg
      then bindE (append_slots B cfg i ch [] s) (\<lambda>(blocks_to_copy, s). bindE (py_assert (blocks_to_copy = [])) (\<lambda>_. Inr s))
      else bindE (init_multi_step_from_lookahead_slots la (cf_num_scheduler_steps cfg)
             (cf_is_multi_step cfg) ch (sc_groups s i)) (\<lambda>g. Inr (put_group i g s))) = Inr s'"
    "cx_sched c' = s'" "po_seq_groups (cx_out c') = po_seq_groups (cx_out c) @ [\<lparr>sch_group = i, sch_token_chunk_size = n\<rparr>]"
    "po_ignored_seq_groups (cx_out c') = po_ignored_seq_groups (cx_out c)"
    using assms unfolding prefill_group_def by (auto simp: Let_def)
  have "stat s' = stat s \<and> rid s' = rid s"
    using a(2) by (auto split: if_splits dest!: init_multi_step_views append_slots_views simp: stat_def rid_def)
  then show "stat (cx_sched c') = (stat (cx_sched c))(i := change WAITING RUNNING (stat (cx_sched c) i))"
    "rid (cx_sched c') = rid (cx_sched c)" using allocate_views [OF a(1)] a(3) by simp_all
qed (use assms in \<open>auto simp: prefill_group_def Let_def\<close>)

lemma pre_ok_upd: "stat s = stat (cx_sched c) \<Longrightarrow> pre_ok q (c\<lparr>cx_sched := s\<rparr>) = pre_ok q c"
  by (simp add: pre_ok_def)

lemma prefill_loop_status:
  "prefill_loop B cfg ch clock k q c l = Inr (q', c', l') \<Longrightarrow> pre_ok (l @ q) c \<Longrightarrow> pre_ok (l' @ q') c' \<and>
     rid (cx_sched c') = rid (cx_sched c) \<and> (\<forall>j. j \<notin> set q \<longrightarrow> stat (cx_sched c') j = stat (cx_sched c) j)"
proof (induction q arbitrary: k c l)
  case Nil
  obtain p s where s: "passed_delay cfg (clock k) [] (cx_sched c) = (p, s)" by fastforce
  have "stat s = stat (cx_sched c)" "rid s = rid (cx_sched c)"
    using passed_delay_views [of cfg "clock k" "[]" "cx_sched c"] s by simp_all
  then show ?case using Nil s pre_ok_upd [of s c] by auto
next
  case (Cons i q)
  note v = passed_delay_views [of cfg "clock k" "i # q" "cx_sched c"]
  from Cons.prems(1) show ?case
  proof (cases rule: prefill_loop_cases)
    case (stop s)
    then show ?thesis using Cons.prems(2) v pre_ok_upd [of s c] by simp
  next
    case (ignore s)
    let ?c = "ignore_waiting i (c\<lparr>cx_sched := s\<rparr>)"
    have ch: "stat (cx_sched ?c) = (stat (cx_sched c))(i := change WAITING FINISHED_IGNORED (stat (cx_sched c) i))"
      "rid (cx_sched ?c) = rid (cx_sched c)"
      using v rid_self [of s i] unfolding ignore(1) [symmetric] by (simp_all add: ignore_waiting_def)
    have "pre_ok (l @ q) ?c" using Cons.prems(2) unfolding pre_ok_def ch
      by (auto simp: pre_tracked_def ignore_waiting_def all_are_change)
    from Cons.IH [OF ignore(3) this] show ?thesis using ch by auto
  next
    case (left s)
    have "pre_ok ((l @ [i]) @ q) (c\<lparr>cx_sched := s\<rparr>)" using Cons.prems(2) left(1) v pre_ok_upd [of s c] by simp
    from Cons.IH [OF left(2) this] show ?thesis using left(1) v by simp
  next
    case (go s n la c1)
    note st = prefill_group_step [OF go(6)] and t = conjunct2 [OF prefill_group_conserves [OF go(6)]]
    have "pre_ok (l @ q) c1" using Cons.prems(2) t go(1) v unfolding pre_ok_def st
      by (auto simp: pre_tracked_def all_are_change)
    from Cons.IH [OF go(7) this] show ?thesis using st(1,2) go(1) v by auto
  qed
qed

section \<open>The invariant of the queues\<close>

definition queues_ok :: "'b scheduler \<Rightarrow> bool" where
  "queues_ok s \<longleftrightarrow> distinct (sc_waiting s @ sc_running s @ sc_swapped s) \<and>
     (\<forall>i\<in>set (sc_waiting s). all_are WAITING (stat s i)) \<and> (\<forall>i\<in>set (sc_running s). all_are RUNNING (stat s i)) \<and>
     (\<forall>i\<in>set (sc_swapped s). all_are SWAPPED (stat s i))"

lemma schedule_running_status:
  assumes "schedule_running B cfg ch b loras s = Inr c" "callback_ok cfg"
    "distinct (sc_running s)" "\<forall>i\<in>set (sc_running s). all_are RUNNING (stat s i)"
  shows "run_ok (sc_running (cx_sched c)) c" "rid (cx_sched c) = rid s" "set (sc_running (cx_sched c)) \<subseteq> set (sc_running s)"
    "\<forall>j. j \<notin> set (sc_running s) \<longrightarrow> settles (stat s j) (stat (cx_sched c) j)"
proof -
  let ?c = "\<lparr>cx_sched = s, cx_budget = b, cx_loras = loras,
    cx_out = running_outputs_empty\<lparr>ro_num_lookahead_slots := get_num_lookahead_slots cfg False ch\<rparr>\<rparr>"
  obtain q c1 where r: "running_loop B cfg ch (sc_running s) ?c = Inr (q, c1)"
    and c: "c = c1\<lparr>cx_sched := (cx_sched c1)\<lparr>sc_running := q\<rparr>\<rparr>"
    using assms unfolding schedule_running_def by (auto simp: Let_def)
  have "run_ok (sc_running s) ?c" using assms(4) by (simp add: run_ok_def running_outputs_empty_def)
  moreover have "distinct_run (sc_running s) (cx_out ?c)"
    using assms(3) one_each_mset [of "sc_running s"] by (simp add: distinct_run_def one_each_def)
  ultimately have "run_ok q c1" by (rule running_loop_status [OF r assms(2)])
  then show "run_ok (sc_running (cx_sched c)) c" unfolding c run_ok_def by simp
  show "rid (cx_sched c) = rid s" "set (sc_running (cx_sched c)) \<subseteq> set (sc_running s)"
    "\<forall>j. j \<notin> set (sc_running s) \<longrightarrow> settles (stat s j) (stat (cx_sched c) j)"
    using running_loop_frame [OF r assms(2)] c by (simp_all add: stat_def)
qed

lemma schedule_swapped_status:
  assumes "schedule_swapped B cfg ch b loras s = Inr c" "distinct (sc_swapped s)" "\<forall>i\<in>set (sc_swapped s). all_are SWAPPED (stat s i)"
  shows "swap_ok (sc_swapped (cx_sched c)) c" "rid (cx_sched c) = rid s"
    "\<forall>j. j \<notin> set (sc_swapped s) \<longrightarrow> stat (cx_sched c) j = stat s j"
proof -
  let ?c = "\<lparr>cx_sched = s, cx_budget = b, cx_loras = loras, cx_out = swapped_in_outputs_empty\<rparr>"
  obtain q c1 l where r: "swapped_loop B cfg ch (sc_swapped s) ?c [] = Inr (q, c1, l)"
    and c: "c = c1\<lparr>cx_sched := (cx_sched c1)\<lparr>sc_swapped := l @ q\<rparr>,
      cx_out := (cx_out c1)\<lparr>so_num_lookahead_slots := get_num_lookahead_slots cfg False ch\<rparr>\<rparr>"
    using assms unfolding schedule_swapped_def by auto
  have "swap_ok ([] @ sc_swapped s) ?c" using assms(2,3) one_each_mset [of "sc_swapped s"]
    by (simp add: swap_ok_def swapped_in_outputs_empty_def swap_tracked_def)
  note k = swapped_loop_status [OF r this]
  then show "swap_ok (sc_swapped (cx_sched c)) c" unfolding c swap_ok_def by simp
  show "rid (cx_sched c) = rid s" "\<forall>j. j \<notin> set (sc_swapped s) \<longrightarrow> stat (cx_sched c) j = stat s j"
    using k c by simp_all
qed

lemma schedule_prefills_status:
  assumes "schedule_prefills B cfg ch clock b loras s = Inr c" "distinct (sc_waiting s)" "\<forall>i\<in>set (sc_waiting s). all_are WAITING (stat s i)"
  shows "pre_ok (sc_waiting (cx_sched c)) c" "rid (cx_sched c) = rid s"
    "\<forall>j. j \<notin> set (sc_waiting s) \<longrightarrow> stat (cx_sched c) j = stat s j"
proof -
  let ?c = "\<lparr>cx_sched = s, cx_budget = b, cx_loras = loras, cx_out = prefill_outputs_empty\<rparr>"
  obtain q c1 l where r: "prefill_loop B cfg ch clock 0 (sc_waiting s) ?c [] = Inr (q, c1, l)"
    and c: "c = c1\<lparr>cx_sched := (let t = (cx_sched c1)\<lparr>sc_waiting := l @ q\<rparr> in
        if length (po_seq_groups (cx_out c1)) > 0 then t\<lparr>sc_prev_prompt := True\<rparr> else t),
      cx_out := (cx_out c1)\<lparr>po_num_lookahead_slots := get_num_lookahead_slots cfg True ch\<rparr>\<rparr>"
    using assms unfolding schedule_prefills_def by (auto simp: Let_def)
  have "pre_ok ([] @ sc_waiting s) ?c" using assms(2,3) one_each_mset [of "sc_waiting s"]
    by (simp add: pre_ok_def prefill_outputs_empty_def pre_tracked_def)
  note k = prefill_loop_status [OF r this]
  then show "pre_ok (sc_waiting (cx_sched c)) c" unfolding c pre_ok_def by (auto simp: Let_def pre_tracked_def)
  show "rid (cx_sched c) = rid s" "\<forall>j. j \<notin> set (sc_waiting s) \<longrightarrow> stat (cx_sched c) j = stat s j"
    using k c by (simp_all add: Let_def)
qed

text \<open>What the three loops leave behind, before the outputs are moved to the queues.\<close>

definition loops_ok :: "'b scheduler \<Rightarrow> prefill_outputs \<Rightarrow> running_outputs \<Rightarrow> swapped_in_outputs \<Rightarrow> bool" where
  "loops_ok s p r w \<longleftrightarrow>
     (\<forall>i\<in>set (sc_waiting s) \<union> set (ro_preempted r). all_are WAITING (stat s i)) \<and>
     (\<forall>i\<in>set (sc_swapped s) \<union> set (ro_swapped_out r). all_are SWAPPED (stat s i)) \<and>
     (\<forall>i\<in>set (sc_running s) \<union> sch_group ` set (po_seq_groups p) \<union> sch_group ` set (ro_decode_seq_groups r) \<union>
         sch_group ` set (ro_prefill_seq_groups r) \<union> sch_group ` set (so_decode_seq_groups w) \<union>
         sch_group ` set (so_prefill_seq_groups w). all_are RUNNING (stat s i)) \<and>
     (\<forall>i\<in>set (po_ignored_seq_groups p) \<union> set (so_infeasible_seq_groups w). all_are FINISHED_IGNORED (stat s i))"

lemma run_out_in_queue:
  assumes "schedule_running B cfg ch b loras s = Inr c"
  shows "set_mset (run_tracked (cx_out c)) \<subseteq> set (sc_running s)"
proof -
  have "sc_async_stopped s = []" using assms unfolding schedule_running_def by (auto simp: Let_def)
  then obtain D where "mset (sc_running (cx_sched c)) + run_tracked (cx_out c) + mset (sc_async_stopped (cx_sched c)) + D =
       mset (sc_running s)" using schedule_running_conserves(3) [OF assms] by auto
  then have "run_tracked (cx_out c) \<subseteq># mset (sc_running s)"
    by (metis mset_subset_eq_add_left mset_subset_eq_add_right subset_mset.order_trans)
  then show ?thesis by (metis set_mset_mono set_mset_mset)
qed

lemma swap_out_in_queue:
  assumes "schedule_swapped B cfg ch b loras s = Inr c"
  shows "set_mset (swap_tracked (cx_out c)) \<subseteq> set (sc_swapped s)" "set (sc_swapped (cx_sched c)) \<subseteq> set (sc_swapped s)"
  using schedule_swapped_conserves(4) [OF assms] by (metis set_mset_mset set_mset_union sup_ge2, metis set_mset_mset set_mset_union sup_ge1)

lemma pre_out_in_queue:
  assumes "schedule_prefills B cfg ch clock b loras s = Inr c"
  shows "set_mset (pre_tracked (cx_out c)) \<subseteq> set (sc_waiting s)" "set (sc_waiting (cx_sched c)) \<subseteq> set (sc_waiting s)"
  using schedule_prefills_conserves(4) [OF assms] by (metis set_mset_mset set_mset_union sup_ge2, metis set_mset_mset set_mset_union sup_ge1)

text \<open>Each of the loops, or its omission, in one lemma.\<close>

lemma running_part:
  assumes "(if go then schedule_running B cfg ch b loras s
      else Inr \<lparr>cx_sched = s, cx_budget = b, cx_loras = loras, cx_out = running_outputs_empty\<rparr>) = Inr c"
    "callback_ok cfg" "distinct (sc_running s)" "\<forall>i\<in>set (sc_running s). all_are RUNNING (stat s i)"
  shows "run_ok (sc_running (cx_sched c)) c \<and> rid (cx_sched c) = rid s \<and>
    set (sc_running (cx_sched c)) \<union> set_mset (run_tracked (cx_out c)) \<subseteq> set (sc_running s) \<and>
    sc_waiting (cx_sched c) = sc_waiting s \<and> sc_swapped (cx_sched c) = sc_swapped s \<and>
    (\<forall>j. j \<notin> set (sc_running s) \<longrightarrow> settles (stat s j) (stat (cx_sched c) j))"
proof (cases go)
  case True
  then have g: "schedule_running B cfg ch b loras s = Inr c" using assms(1) by simp
  show ?thesis using schedule_running_status [OF g assms(2-4)] run_out_in_queue [OF g] schedule_running_conserves(1,2) [OF g]
    by simp
next
  case False
  then have "c = \<lparr>cx_sched = s, cx_budget = b, cx_loras = loras, cx_out = running_outputs_empty\<rparr>" using assms(1) by simp
  then show ?thesis using assms(4) by (simp add: run_ok_def running_outputs_empty_def run_tracked_def)
qed

lemma swapped_part:
  assumes "(if go then schedule_swapped B cfg ch b loras s
      else Inr \<lparr>cx_sched = s, cx_budget = b, cx_loras = loras, cx_out = swapped_in_outputs_empty\<rparr>) = Inr c"
    "distinct (sc_swapped s)" "\<forall>i\<in>set (sc_swapped s). all_are SWAPPED (stat s i)"
  shows "swap_ok (sc_swapped (cx_sched c)) c \<and> rid (cx_sched c) = rid s \<and>
    set (sc_swapped (cx_sched c)) \<union> set_mset (swap_tracked (cx_out c)) \<subseteq> set (sc_swapped s) \<and>
    sc_waiting (cx_sched c) = sc_waiting s \<and> sc_running (cx_sched c) = sc_running s \<and>
    (\<forall>j. j \<notin> set (sc_swapped s) \<longrightarrow> stat (cx_sched c) j = stat s j)"
proof (cases go)
  case True
  then have g: "schedule_swapped B cfg ch b loras s = Inr c" using assms(1) by simp
  show ?thesis using schedule_swapped_status [OF g assms(2,3)] swap_out_in_queue [OF g] schedule_swapped_conserves(1,2) [OF g]
    by simp
next
  case False
  then have "c = \<lparr>cx_sched = s, cx_budget = b, cx_loras = loras, cx_out = swapped_in_outputs_empty\<rparr>" using assms(1) by simp
  then show ?thesis using assms(2,3) one_each_mset [of "sc_swapped s"]
    by (simp add: swap_ok_def swapped_in_outputs_empty_def swap_tracked_def)
qed

lemma prefills_part:
  assumes "(if go then schedule_prefills B cfg ch clock b loras s
      else Inr \<lparr>cx_sched = s, cx_budget = b, cx_loras = loras, cx_out = prefill_outputs_empty\<rparr>) = Inr c"
    "distinct (sc_waiting s)" "\<forall>i\<in>set (sc_waiting s). all_are WAITING (stat s i)"
  shows "pre_ok (sc_waiting (cx_sched c)) c \<and> rid (cx_sched c) = rid s \<and>
    set (sc_waiting (cx_sched c)) \<union> set_mset (pre_tracked (cx_out c)) \<subseteq> set (sc_waiting s) \<and>
    sc_running (cx_sched c) = sc_running s \<and> sc_swapped (cx_sched c) = sc_swapped s \<and>
    (\<forall>j. j \<notin> set (sc_waiting s) \<longrightarrow> stat (cx_sched c) j = stat s j)"
proof (cases go)
  case True
  then have g: "schedule_prefills B cfg ch clock b loras s = Inr c" using assms(1) by simp
  show ?thesis using schedule_prefills_status [OF g assms(2,3)] pre_out_in_queue [OF g] schedule_prefills_conserves(1,2) [OF g]
    by simp
next
  case False
  then have "c = \<lparr>cx_sched = s, cx_budget = b, cx_loras = loras, cx_out = prefill_outputs_empty\<rparr>" using assms(1) by simp
  then show ?thesis using assms(2,3) one_each_mset [of "sc_waiting s"]
    by (simp add: pre_ok_def prefill_outputs_empty_def pre_tracked_def)
qed

lemma loops_ok_combine:
  assumes "run_ok (sc_running s) cr" "set (sc_running s) \<union> set_mset (run_tracked (cx_out cr)) \<subseteq> R"
    "swap_ok (sc_swapped s) cs" "set (sc_swapped s) \<union> set_mset (swap_tracked (cx_out cs)) \<subseteq> S"
    "pre_ok (sc_waiting s) cp" "set (sc_waiting s) \<union> set_mset (pre_tracked (cx_out cp)) \<subseteq> W"
    "\<forall>j\<in>R. settles (stat (cx_sched cr) j) (stat s j)" "\<forall>j\<in>S. settles (stat (cx_sched cs) j) (stat s j)"
    "\<forall>j\<in>W. settles (stat (cx_sched cp) j) (stat s j)"
  shows "loops_ok s (cx_out cp) (cx_out cr) (cx_out cs)"
proof -
  have r: "i \<in> set (sc_running s) \<union> set_mset (run_tracked (cx_out cr)) \<Longrightarrow> all_are st (stat (cx_sched cr) i) \<Longrightarrow> all_are st (stat s i)"
    and s: "i \<in> set (sc_swapped s) \<union> set_mset (swap_tracked (cx_out cs)) \<Longrightarrow> all_are st (stat (cx_sched cs) i) \<Longrightarrow> all_are st (stat s i)"
    and w: "i \<in> set (sc_waiting s) \<union> set_mset (pre_tracked (cx_out cp)) \<Longrightarrow> all_are st (stat (cx_sched cp) i) \<Longrightarrow> all_are st (stat s i)"
    for i st using assms(2,4,6-9) all_are_settles by blast+
  show ?thesis unfolding loops_ok_def
  proof (intro conjI ballI)
    fix i assume "i \<in> set (sc_waiting s) \<union> set (ro_preempted (cx_out cr))"
    then show "all_are WAITING (stat s i)"
      using assms(1,5) r [of i] w [of i] by (auto simp: run_ok_def pre_ok_def run_tracked_def)
  next
    fix i assume "i \<in> set (sc_swapped s) \<union> set (ro_swapped_out (cx_out cr))"
    then show "all_are SWAPPED (stat s i)"
      using assms(1,3) r [of i] s [of i] by (auto simp: run_ok_def swap_ok_def run_tracked_def)
  next
    fix i assume "i \<in> set (sc_running s) \<union> sch_group ` set (po_seq_groups (cx_out cp)) \<union> sch_group ` set (ro_decode_seq_groups (cx_out cr)) \<union>
         sch_group ` set (ro_prefill_seq_groups (cx_out cr)) \<union> sch_group ` set (so_decode_seq_groups (cx_out cs)) \<union>
         sch_group ` set (so_prefill_seq_groups (cx_out cs))"
    then consider "i \<in> set (sc_running s) \<union> sch_group ` set (ro_decode_seq_groups (cx_out cr)) \<union> sch_group ` set (ro_prefill_seq_groups (cx_out cr))"
      | "i \<in> sch_group ` set (so_decode_seq_groups (cx_out cs)) \<union> sch_group ` set (so_prefill_seq_groups (cx_out cs))"
      | "i \<in> sch_group ` set (po_seq_groups (cx_out cp))" by blast
    then show "all_are RUNNING (stat s i)"
    proof cases
      case 1
      then have "all_are RUNNING (stat (cx_sched cr) i)" using assms(1) unfolding run_ok_def by auto
      then show ?thesis using 1 r [of i] run_tracked_mem [of i "cx_out cr"] by blast
    next
      case 2
      then have "all_are RUNNING (stat (cx_sched cs) i)" using assms(3) unfolding swap_ok_def by auto
      then show ?thesis using 2 s [of i] swap_tracked_mem [of i "cx_out cs"] by blast
    next
      case 3
      then have "all_are RUNNING (stat (cx_sched cp) i)" using assms(5) unfolding pre_ok_def by auto
      then show ?thesis using 3 w [of i] unfolding pre_tracked_def by auto
    qed
  next
    fix i assume "i \<in> set (po_ignored_seq_groups (cx_out cp)) \<union> set (so_infeasible_seq_groups (cx_out cs))"
    then show "all_are FINISHED_IGNORED (stat s i)"
      using assms(3,5) s [of i] w [of i] by (auto simp: swap_ok_def pre_ok_def swap_tracked_def pre_tracked_def)
  qed
qed

lemma loops_ok_chunked:
  assumes "chunked_loops B cfg clock s = Inr (p, r, w, b, s')" "callback_ok cfg" "queues_ok s"
  shows "loops_ok s' p r w"
proof -
  define b0 where "b0 = new_budget (int (cf_max_num_batched_tokens cfg)) (int (cf_max_num_seqs cfg))"
  obtain cr cs cp where cr: "schedule_running B cfg True b0 (Some {}) s = Inr cr"
    and cs: "(if length (ro_preempted (cx_out cr)) + length (ro_swapped_out (cx_out cr)) = 0
      then schedule_swapped B cfg False (cx_budget cr) (cx_loras cr) (cx_sched cr)
      else Inr \<lparr>cx_sched = cx_sched cr, cx_budget = cx_budget cr, cx_loras = cx_loras cr, cx_out = swapped_in_outputs_empty\<rparr>) = Inr cs"
    and cp: "schedule_prefills B cfg True clock (cx_budget cs) (cx_loras cs) (cx_sched cs) = Inr cp"
    and res: "p = cx_out cp" "r = cx_out cr" "w = cx_out cs" "s' = cx_sched cp"
    using assms unfolding chunked_loops_def b0_def by (auto simp: Let_def)
  have q: "distinct (sc_waiting s)" "distinct (sc_running s)" "distinct (sc_swapped s)"
    "set (sc_waiting s) \<inter> set (sc_running s) = {}" "set (sc_waiting s) \<inter> set (sc_swapped s) = {}"
    "set (sc_running s) \<inter> set (sc_swapped s) = {}"
    "\<forall>i\<in>set (sc_waiting s). all_are WAITING (stat s i)" "\<forall>i\<in>set (sc_running s). all_are RUNNING (stat s i)"
    "\<forall>i\<in>set (sc_swapped s). all_are SWAPPED (stat s i)"
    using assms(3) by (auto simp: queues_ok_def)
  have R: "run_ok (sc_running (cx_sched cr)) cr \<and> rid (cx_sched cr) = rid s \<and>
    set (sc_running (cx_sched cr)) \<union> set_mset (run_tracked (cx_out cr)) \<subseteq> set (sc_running s) \<and>
    sc_waiting (cx_sched cr) = sc_waiting s \<and> sc_swapped (cx_sched cr) = sc_swapped s \<and>
    (\<forall>j. j \<notin> set (sc_running s) \<longrightarrow> settles (stat s j) (stat (cx_sched cr) j))"
    by (rule running_part [of True, simplified if_True, OF cr assms(2) q(2,8)])
  have k: "all_are st (stat s i) \<Longrightarrow> i \<notin> set (sc_running s) \<Longrightarrow> all_are st (stat (cx_sched cr) i)" for st i
    using R all_are_settles by blast
  have "\<forall>i\<in>set (sc_swapped s). all_are SWAPPED (stat (cx_sched cr) i)" using q(6,9) k by blast
  then have S: "swap_ok (sc_swapped (cx_sched cs)) cs \<and> rid (cx_sched cs) = rid (cx_sched cr) \<and>
    set (sc_swapped (cx_sched cs)) \<union> set_mset (swap_tracked (cx_out cs)) \<subseteq> set (sc_swapped s) \<and>
    sc_waiting (cx_sched cs) = sc_waiting s \<and> sc_running (cx_sched cs) = sc_running (cx_sched cr) \<and>
    (\<forall>j. j \<notin> set (sc_swapped s) \<longrightarrow> stat (cx_sched cs) j = stat (cx_sched cr) j)"
    using swapped_part [OF cs] R q(3) by simp
  have "\<forall>i\<in>set (sc_waiting s). all_are WAITING (stat (cx_sched cs) i)" using k S q(4,5,7) by force
  then have P: "pre_ok (sc_waiting (cx_sched cp)) cp \<and> rid (cx_sched cp) = rid (cx_sched cs) \<and>
    set (sc_waiting (cx_sched cp)) \<union> set_mset (pre_tracked (cx_out cp)) \<subseteq> set (sc_waiting s) \<and>
    sc_running (cx_sched cp) = sc_running (cx_sched cr) \<and> sc_swapped (cx_sched cp) = sc_swapped (cx_sched cs) \<and>
    (\<forall>j. j \<notin> set (sc_waiting s) \<longrightarrow> stat (cx_sched cp) j = stat (cx_sched cs) j)"
    using prefills_part [of True, simplified if_True, OF cp] S q(1) by simp
  show ?thesis unfolding res
    by (rule loops_ok_combine [of _ cr "set (sc_running s)" cs "set (sc_swapped s)" cp "set (sc_waiting s)"])
       (use R S P q(4-6) in \<open>force+\<close>)
qed

lemma loops_ok_default:
  assumes "default_loops B cfg clock s = Inr (p, r, w, b, s')" "callback_ok cfg" "queues_ok s"
    "cf_policy cfg \<noteq> ''priority''"
  shows "loops_ok s' p r w"
proof -
  define b0 l0 where "b0 = default_budget cfg s" and "l0 = default_loras cfg s"
  obtain cp where cp: "(if sc_swapped s = [] then schedule_prefills B cfg False clock b0 l0 s
      else Inr \<lparr>cx_sched = s, cx_budget = b0, cx_loras = l0, cx_out = prefill_outputs_empty\<rparr>) = Inr cp"
    using assms(1) unfolding default_loops_def b0_def l0_def by (auto simp: Let_def)
  define none where "none = (length (po_seq_groups (cx_out cp)) = 0)"
  obtain cr where cr: "(if none then schedule_running B cfg False (cx_budget cp) (cx_loras cp) (cx_sched cp)
      else Inr \<lparr>cx_sched = cx_sched cp, cx_budget = cx_budget cp, cx_loras = cx_loras cp, cx_out = running_outputs_empty\<rparr>) = Inr cr"
    using assms(1,4) cp unfolding default_loops_def b0_def l0_def none_def by (auto simp: Let_def)
  obtain cs where cs: "(if none \<and> length (ro_preempted (cx_out cr)) + length (ro_swapped_out (cx_out cr)) = 0
      then schedule_swapped B cfg False (cx_budget cr) (cx_loras cr) (cx_sched cr)
      else Inr \<lparr>cx_sched = cx_sched cr, cx_budget = cx_budget cr, cx_loras = cx_loras cr, cx_out = swapped_in_outputs_empty\<rparr>) = Inr cs"
    using assms(1,4) cp cr unfolding default_loops_def b0_def l0_def none_def by (auto simp: Let_def)
  have res: "p = cx_out cp" "r = cx_out cr" "w = cx_out cs" "s' = cx_sched cs"
    using assms(1,4) cp cr cs unfolding default_loops_def b0_def l0_def none_def by (auto simp: Let_def)
  have q: "distinct (sc_waiting s)" "distinct (sc_running s)" "distinct (sc_swapped s)"
    "set (sc_waiting s) \<inter> set (sc_running s) = {}" "set (sc_waiting s) \<inter> set (sc_swapped s) = {}"
    "set (sc_running s) \<inter> set (sc_swapped s) = {}"
    "\<forall>i\<in>set (sc_waiting s). all_are WAITING (stat s i)" "\<forall>i\<in>set (sc_running s). all_are RUNNING (stat s i)"
    "\<forall>i\<in>set (sc_swapped s). all_are SWAPPED (stat s i)"
    using assms(3) by (auto simp: queues_ok_def)
  have P: "pre_ok (sc_waiting (cx_sched cp)) cp \<and> rid (cx_sched cp) = rid s \<and>
    set (sc_waiting (cx_sched cp)) \<union> set_mset (pre_tracked (cx_out cp)) \<subseteq> set (sc_waiting s) \<and>
    sc_running (cx_sched cp) = sc_running s \<and> sc_swapped (cx_sched cp) = sc_swapped s \<and>
    (\<forall>j. j \<notin> set (sc_waiting s) \<longrightarrow> stat (cx_sched cp) j = stat s j)"
    by (rule prefills_part [OF cp q(1,7)])
  have "\<forall>i\<in>set (sc_running s). all_are RUNNING (stat (cx_sched cp) i)" using P q(4,8) by force
  then have R: "run_ok (sc_running (cx_sched cr)) cr \<and> rid (cx_sched cr) = rid (cx_sched cp) \<and>
    set (sc_running (cx_sched cr)) \<union> set_mset (run_tracked (cx_out cr)) \<subseteq> set (sc_running s) \<and>
    sc_waiting (cx_sched cr) = sc_waiting (cx_sched cp) \<and> sc_swapped (cx_sched cr) = sc_swapped s \<and>
    (\<forall>j. j \<notin> set (sc_running s) \<longrightarrow> settles (stat (cx_sched cp) j) (stat (cx_sched cr) j))"
    using running_part [OF cr assms(2)] P q(2) by simp
  have "\<forall>i\<in>set (sc_swapped s). all_are SWAPPED (stat (cx_sched cp) i)" using P q(5,9) by force
  then have "\<forall>i\<in>set (sc_swapped s). all_are SWAPPED (stat (cx_sched cr) i)" using R q(6) all_are_settles by blast
  then have S: "swap_ok (sc_swapped (cx_sched cs)) cs \<and> rid (cx_sched cs) = rid (cx_sched cr) \<and>
    set (sc_swapped (cx_sched cs)) \<union> set_mset (swap_tracked (cx_out cs)) \<subseteq> set (sc_swapped s) \<and>
    sc_waiting (cx_sched cs) = sc_waiting (cx_sched cp) \<and> sc_running (cx_sched cs) = sc_running (cx_sched cr) \<and>
    (\<forall>j. j \<notin> set (sc_swapped s) \<longrightarrow> stat (cx_sched cs) j = stat (cx_sched cr) j)"
    using swapped_part [OF cs] R q(3) by simp
  show ?thesis unfolding res
    by (rule loops_ok_combine [of _ cr "set (sc_running s)" cs "set (sc_swapped s)" cp "set (sc_waiting s)"])
       (use R S P q(4-6) in \<open>force+\<close>)
qed

text \<open>The pieces a step is put together from, for either policy.\<close>

lemma schedule_policy_parts:
  assumes "schedule_policy B cfg clock s = Inr (out, s')"
  obtains p r w b s1 where
    "(if cf_chunked_prefill_enabled cfg then chunked_loops B cfg clock s else default_loops B cfg clock s) = Inr (p, r, w, b, s1)"
    "bg_num_batched_tokens b \<le> int (cf_max_num_batched_tokens cfg)" "bg_num_curr_seqs b \<le> int (cf_max_num_seqs cfg)"
    "out_num_batched_tokens out = bg_num_batched_tokens b"
    "mset (out_scheduled_seq_groups out) = mset (po_seq_groups p @ ro_prefill_seq_groups r @ so_prefill_seq_groups w @
       ro_decode_seq_groups r @ so_decode_seq_groups w)"
    "out_ignored_seq_groups out = po_ignored_seq_groups p @ so_infeasible_seq_groups w"
    "stat s' = stat s1" "rid s' = rid s1"
    "set (sc_waiting s') = set (sc_waiting s1) \<union> set (ro_preempted r)"
    "set (sc_running s') = set (sc_running s1) \<union> sch_group ` set (out_scheduled_seq_groups out)"
    "set (sc_swapped s') = set (sc_swapped s1) \<union> set (ro_swapped_out r)"
proof (cases "cf_chunked_prefill_enabled cfg")
  case True
  then have "schedule_chunked_prefill B cfg clock s = Inr (out, s')" using assms by (simp add: schedule_policy_def)
  then obtain p r w b s1 out1 where l: "chunked_loops B cfg clock s = Inr (p, r, w, b, s1)"
    and a: "assert_budget cfg b = Inr ()" and m: "make_outputs (sc_groups s1) out1 = Inr out"
    and s': "s' = s1\<lparr>sc_waiting := rev (ro_preempted r) @ sc_waiting s1,
      sc_running := sc_running s1 @ map sch_group (so_decode_seq_groups w) @ map sch_group (so_prefill_seq_groups w) @
        map sch_group (ro_decode_seq_groups r) @ map sch_group (ro_prefill_seq_groups r) @ map sch_group (po_seq_groups p),
      sc_swapped := sc_swapped s1 @ ro_swapped_out r\<rparr>"
    and o: "out_scheduled_seq_groups out1 = po_seq_groups p @ ro_prefill_seq_groups r @ so_prefill_seq_groups w @
        ro_decode_seq_groups r @ so_decode_seq_groups w"
      "out_ignored_seq_groups out1 = po_ignored_seq_groups p @ so_infeasible_seq_groups w"
      "out_num_batched_tokens out1 = bg_num_batched_tokens b"
    by (auto simp: schedule_chunked_prefill_def Let_def)
  show ?thesis by (rule that [of p r w b s1])
    (use True l a s' o make_outputs_same [OF m] mset_eq_setD [OF make_outputs_same(1) [OF m]] in \<open>auto simp: assert_budget_def\<close>)
next
  case False
  then have "schedule_default B cfg clock s = Inr (out, s')" using assms by (simp add: schedule_policy_def)
  then obtain p r w b s1 out1 where l: "default_loops B cfg clock s = Inr (p, r, w, b, s1)"
    and a: "assert_budget cfg b = Inr ()" and m: "make_outputs (sc_groups s1) out1 = Inr out"
    and s': "s' = s1\<lparr>sc_waiting := rev (ro_preempted r) @ sc_waiting s1,
      sc_running := sc_running s1 @ map sch_group (po_seq_groups p) @ map sch_group (ro_decode_seq_groups r) @
        map sch_group (so_decode_seq_groups w),
      sc_swapped := sc_swapped s1 @ ro_swapped_out r\<rparr>"
    and o: "out_scheduled_seq_groups out1 = po_seq_groups p @ ro_decode_seq_groups r @ so_decode_seq_groups w"
      "out_ignored_seq_groups out1 = po_ignored_seq_groups p @ so_infeasible_seq_groups w"
      "out_num_batched_tokens out1 = bg_num_batched_tokens b" "ro_prefill_seq_groups r = []" "so_prefill_seq_groups w = []"
    by (auto simp: schedule_default_def Let_def)
  show ?thesis by (rule that [of p r w b s1])
    (use False l a s' o make_outputs_same [OF m] mset_eq_setD [OF make_outputs_same(1) [OF m]] in \<open>auto simp: assert_budget_def\<close>)
qed

lemma one_each_left: "one_each (A + B) \<Longrightarrow> one_each A"
  unfolding one_each_def by (metis add_leD1 count_union)

lemma pending_distinct: "distinct (sc_waiting s @ sc_running s @ sc_swapped s) = one_each (pending s)"
  unfolding one_each_mset [symmetric] pending_def mset_append by (simp only: add.assoc)

lemma ignored_finished: "all_are FINISHED_IGNORED sts \<Longrightarrow> list_all status_is_finished sts"
  by (auto simp: all_are_def list_all_iff status_is_finished_def)

lemma finished_stat: "sg_is_finished (sc_groups s i) = list_all status_is_finished (stat s i)"
  by (simp add: sg_is_finished_iff stat_def list_all_iff sq_is_finished_def)

lemma ex_sched_ok: "queues_ok ex_sched"
  by (simp add: queues_ok_def ex_sched_def add_seq_group_def scheduler_init_def stat_def ex_groups_def all_are_def
      seq_group_init_def ex_seq_def)

text \<open>
  C2. The life cycle of the requests is kept: before and after a scheduling step the queues are
  disjoint, and every unfinished sequence of a waiting, running or swapped group has the status of its
  queue, however the groups moved between the queues by scheduling, preemption and swapping. The groups
  reported as ignored are finished. This is with or without the asynchronous output processor, whose
  callback has to keep request ids and sequences and only finish or extend the latter (\<open>callback_ok\<close>).
  The priority policy is covered under chunked prefill, where it is not consulted; under the default
  policy its preemption breaks the life cycle (\<open>priority_preemption_breaks_scheduler\<close>) and it is excluded.
\<close>

theorem schedule_keeps_queues_ok:
  assumes "schedule_policy B cfg clock s = Inr (out, s')" "queues_ok s" "callback_ok cfg"
    "cf_chunked_prefill_enabled cfg \<or> cf_policy cfg \<noteq> ''priority''"
  shows "queues_ok s' \<and> (\<forall>i\<in>set (out_ignored_seq_groups out). sg_is_finished (sc_groups s' i)) \<and>
    (\<forall>x\<in>set (out_scheduled_seq_groups out). all_are RUNNING (stat s' (sch_group x)))"
proof -
  obtain p r w b s1 where l: "(if cf_chunked_prefill_enabled cfg then chunked_loops B cfg clock s else default_loops B cfg clock s)
      = Inr (p, r, w, b, s1)"
    and m: "mset (out_scheduled_seq_groups out) = mset (po_seq_groups p @ ro_prefill_seq_groups r @ so_prefill_seq_groups w @
       ro_decode_seq_groups r @ so_decode_seq_groups w)"
    and o: "out_ignored_seq_groups out = po_ignored_seq_groups p @ so_infeasible_seq_groups w"
    and v: "stat s' = stat s1"
    and q: "set (sc_waiting s') = set (sc_waiting s1) \<union> set (ro_preempted r)"
      "set (sc_running s') = set (sc_running s1) \<union> sch_group ` set (out_scheduled_seq_groups out)"
      "set (sc_swapped s') = set (sc_swapped s1) \<union> set (ro_swapped_out r)"
    by (rule schedule_policy_parts [OF assms(1)])
  have ok: "loops_ok s1 p r w" using l assms(2-4) loops_ok_chunked loops_ok_default by (auto split: if_splits)
  have x: "set (out_scheduled_seq_groups out) = set (po_seq_groups p) \<union> set (ro_prefill_seq_groups r) \<union>
      set (so_prefill_seq_groups w) \<union> set (ro_decode_seq_groups r) \<union> set (so_decode_seq_groups w)"
    using mset_eq_setD [OF m] by auto
  obtain D xs where
    "pending s' + mset (out_ignored_seq_groups out) + mset (sc_async_stopped s') + D = pending s + mset (sc_async_stopped s)"
    "sc_async_stopped s' = sc_async_stopped s @ xs"
    using schedule_policy_conserves [OF assms(1)] assms(3) unfolding accounted_def by metis
  then have "pending s' + (mset (out_ignored_seq_groups out) + mset xs + D) = pending s" by (simp add: ac_simps)
  moreover have "one_each (pending s)" using assms(2) unfolding queues_ok_def pending_distinct by simp
  ultimately have "one_each (pending s')" by (metis one_each_left)
  then have "distinct (sc_waiting s' @ sc_running s' @ sc_swapped s')" unfolding pending_distinct .
  moreover have "\<forall>i\<in>set (out_ignored_seq_groups out). list_all status_is_finished (stat s' i)"
    using ok unfolding loops_ok_def o v set_append by (auto simp: ignored_finished)
  ultimately show ?thesis using ok unfolding queues_ok_def loops_ok_def q x v by (auto simp: finished_stat v)
qed

theorem schedule_keeps_queues_ok_witness:
  "(\<exists>out s'. schedule_policy embedding_ops ex_cfg (\<lambda>_. 1) ex_sched = Inr (out, s') \<and> queues_ok s') \<and>
   (\<exists>out s'. schedule_policy counting_ops ex_async_cfg (\<lambda>_. 1) ex_async_sched = Inr (out, s') \<and> queues_ok s')"
proof (rule conjI)
  obtain out s' where o: "schedule_policy embedding_ops ex_cfg (\<lambda>_. 1) ex_sched = Inr (out, s')"
    using ex_schedule by (cases "schedule_policy embedding_ops ex_cfg (\<lambda>_. 1) ex_sched") auto
  have "callback_ok ex_cfg" "cf_policy ex_cfg \<noteq> ''priority''" by (simp_all add: ex_cfg_def callback_ok_def)
  then show "\<exists>out s'. schedule_policy embedding_ops ex_cfg (\<lambda>_. 1) ex_sched = Inr (out, s') \<and> queues_ok s'"
    using schedule_keeps_queues_ok [OF o ex_sched_ok] o by blast
next
  obtain out s' where o: "schedule_policy counting_ops ex_async_cfg (\<lambda>_. 1) ex_async_sched = Inr (out, s')"
    using ex_async_schedule by (cases "schedule_policy counting_ops ex_async_cfg (\<lambda>_. 1) ex_async_sched") auto
  have "queues_ok ex_async_sched" by (simp add: queues_ok_def ex_async_sched_def scheduler_init_def stat_def all_are_def
      seq_group_init_def ex_seq_def)
  moreover have "cf_policy ex_async_cfg \<noteq> ''priority''" by (simp add: ex_async_cfg_def)
  ultimately show "\<exists>out s'. schedule_policy counting_ops ex_async_cfg (\<lambda>_. 1) ex_async_sched = Inr (out, s') \<and> queues_ok s'"
    using schedule_keeps_queues_ok [OF o _ ex_async_callback_ok] o by blast
qed

end
