(* ===== verification/Scheduler_Budget.thy ===== *)
theory Scheduler_Budget
  imports Scheduler_Status
begin

text \<open>
  The token budget of a batch: what the scheduling loops add to the budget covers the token chunks of
  the groups they schedule, for either policy; and the case in which it does not.
\<close>

section \<open>The budget and what has been scheduled\<close>

abbreviation toks :: "budget \<Rightarrow> int" where "toks \<equiv> bg_num_batched_tokens"
abbreviation counted :: "budget \<Rightarrow> string set" where "counted \<equiv> bg_request_ids_num_batched_tokens"

definition cost :: "scheduled list \<Rightarrow> int" where
  "cost xs = sum_list (map sch_token_chunk_size xs)"

lemma cost_simps [simp]: "cost [] = 0" "cost (x # xs) = sch_token_chunk_size x + cost xs" "cost (xs @ ys) = cost xs + cost ys"
  by (simp_all add: cost_def)

lemma cost_mset: "mset xs = mset ys \<Longrightarrow> cost xs = cost ys"
  unfolding cost_def by (metis mset_map sum_mset_sum_list)

text \<open>
  The loops have dealt with the groups \<open>A\<close> and scheduled \<open>x\<close> tokens: only requests of \<open>A\<close> are counted,
  and at least \<open>x\<close> tokens.
\<close>

definition covers :: "'b scheduler \<Rightarrow> gid set \<Rightarrow> int \<Rightarrow> budget \<Rightarrow> bool" where
  "covers s A x b \<longleftrightarrow> counted b \<subseteq> rid s ` A \<and> x \<le> toks b"

lemma covers_mono: "covers s A x b \<Longrightarrow> A \<subseteq> A' \<Longrightarrow> rid s' = rid s \<Longrightarrow> covers s' A' x b"
  unfolding covers_def by (metis image_mono order_trans)

lemma budget_seqs [simp]:
  "toks (add_num_seqs r n b) = toks b" "counted (add_num_seqs r n b) = counted b"
  "toks (subtract_num_seqs r n b) = toks b" "counted (subtract_num_seqs r n b) = counted b"
  "bg_token_budget (add_num_seqs r n b) = bg_token_budget b" "bg_token_budget (subtract_num_seqs r n b) = bg_token_budget b"
  by (simp_all add: add_num_seqs_def subtract_num_seqs_def)

lemma budget_tokens [simp]:
  "r \<notin> counted b \<Longrightarrow> toks (add_num_batched_tokens r n b) = toks b + n"
  "counted (add_num_batched_tokens r n b) = insert r (counted b)"
  "r \<notin> counted b \<Longrightarrow> subtract_num_batched_tokens r n b = b"
  "bg_token_budget (add_num_batched_tokens r n b) = bg_token_budget b"
  by (auto simp: add_num_batched_tokens_def subtract_num_batched_tokens_def)

text \<open>A group that has not been dealt with is not counted, when the request ids tell the groups apart.\<close>

lemma fresh_not_counted:
  "covers s A x b \<Longrightarrow> inj_on (rid s) (insert i A) \<Longrightarrow> i \<notin> A \<Longrightarrow> rid s i \<notin> counted b"
  unfolding covers_def inj_on_def by blast

lemma covers_add:
  assumes "covers s A x b" "rid s i \<notin> counted b" "rid s' = rid s" "m \<le> n"
  shows "covers s' (insert i A) (x + m) (add_num_batched_tokens (rid s i) n b)"
  using assms unfolding covers_def by auto

section \<open>The running loop\<close>

definition nrun :: "'b scheduler \<Rightarrow> gid \<Rightarrow> nat" where
  "nrun s i = length (filter (\<lambda>x. x = RUNNING) (stat s i))"

lemma nrun_change: "length (filter (\<lambda>x. x = RUNNING) (change RUNNING st sts)) \<le> length (filter (\<lambda>x. x = RUNNING) sts)"
  by (induction sts) (auto simp: change_def)

lemma running_seqs_nrun: "length (sg_get_seqs (Some RUNNING) (sc_groups s i)) = nrun s i"
  by (simp add: sg_get_seqs_filter nrun_def stat_def filter_map o_def)

lemma round_down:
  fixes r x :: int
  assumes "0 < x"
  shows "r div x * x \<le> r" "0 \<le> r \<Longrightarrow> 0 \<le> r div x * x"
  using minus_mod_eq_div_mult [of r x] pos_mod_sign [OF assms, of r] assms by (linarith, simp add: pos_imp_zdiv_nonneg_iff)

lemma get_num_new_tokens_bounds:
  assumes "get_num_new_tokens cfg g st ch b = Inr n" "ch \<and> \<not> cf_is_multi_step cfg \<Longrightarrow> toks b \<le> bg_token_budget b"
  shows "0 \<le> n \<and>
    (ch \<and> \<not> cf_is_multi_step cfg \<and> length (sg_get_seqs (Some st) g) \<le> 1 \<longrightarrow> toks b + n \<le> bg_token_budget b)"
proof -
  let ?l = "sg_get_seqs (Some st) g"
  let ?m = "sum_list (map sq_get_num_new_tokens ?l)" and ?r = "remaining_token_budget b"
  have m: "?m > 0" using assms(1) by (auto simp: get_num_new_tokens_def Let_def)
  then have l: "?l \<noteq> []" by auto
  consider (whole) "\<not> (ch \<and> length ?l = 1)" "n = ?m" | (multi) "cf_is_multi_step cfg" "n = ?m \<or> n = 0"
    | (round) "ch" "\<not> cf_is_multi_step cfg" "cf_block_size cfg \<noteq> 0"
      "n = (if ?r < ?m then ?r div int (cf_block_size cfg) * int (cf_block_size cfg) else ?m)"
    | (fit) "ch" "\<not> cf_is_multi_step cfg" "n = min ?m ?r"
    using assms(1) by (auto simp: get_num_new_tokens_def Let_def split: if_splits)
  then show ?thesis
  proof cases
    case whole
    then show ?thesis using m l by (cases ?l) auto
  next
    case round
    then have "?r \<ge> 0" using assms(2) by (simp add: remaining_token_budget_def)
    then show ?thesis using round m round_down [of "int (cf_block_size cfg)" ?r]
      by (simp add: remaining_token_budget_def split: if_splits)
  next
    case fit
    then have "0 \<le> n" "n \<le> ?r" using assms(2) m by (simp_all add: remaining_token_budget_def)
    then show ?thesis by (simp add: remaining_token_budget_def)
  qed (use m in auto)
qed

text \<open>What the loop over the running queue needs from a group; \<open>True\<close> without chunked prefill.\<close>

definition one_running :: "'b config \<Rightarrow> bool \<Rightarrow> 'b scheduler \<Rightarrow> gid list \<Rightarrow> bool" where
  "one_running cfg ch s q \<longleftrightarrow> (ch \<and> \<not> cf_is_multi_step cfg \<longrightarrow> (\<forall>i\<in>set q. nrun s i \<le> 1))"

definition in_budget :: "'b config \<Rightarrow> bool \<Rightarrow> budget \<Rightarrow> bool" where
  "in_budget cfg ch b \<longleftrightarrow> (ch \<and> \<not> cf_is_multi_step cfg \<longrightarrow> toks b \<le> bg_token_budget b)"

definition run_cost :: "running_outputs \<Rightarrow> int" where
  "run_cost out = cost (ro_decode_seq_groups out) + cost (ro_prefill_seq_groups out)"

lemma nrun_settles: "settles xs ys \<Longrightarrow> length (filter (\<lambda>x. x = RUNNING) ys) \<le> length (filter (\<lambda>x. x = RUNNING) xs)"
  unfolding settles_def by (induction rule: list_all2_induct) (auto simp: status_is_finished_def)

lemma preempt_victim_budget:
  assumes "preempt_victim B cfg v c = Inr c'" "callback_ok cfg"
  shows "cx_budget c' = cx_budget c" "rid (cx_sched c') = rid (cx_sched c)" "run_cost (cx_out c') = run_cost (cx_out c)"
    "nrun (cx_sched c') j \<le> nrun (cx_sched c) j"
proof -
  obtain sts where v: "\<forall>j. settles (stat (cx_sched c) j) (sts j)" "rid (cx_sched c') = rid (cx_sched c)" "cx_budget c' = cx_budget c"
    "(cx_out c' = cx_out c \<and> stat (cx_sched c') = sts) \<or>
     (\<exists>mode bs. cx_out c' = record_victim v mode bs (cx_out c) \<and> stat (cx_sched c') =
        sts(v := change RUNNING (case mode of RECOMPUTE \<Rightarrow> WAITING | SWAP \<Rightarrow> SWAPPED) (sts v)))"
    by (rule preempt_victim_views [OF assms])
  show "cx_budget c' = cx_budget c" "rid (cx_sched c') = rid (cx_sched c)" by (rule v(3), rule v(2))
  show "run_cost (cx_out c') = run_cost (cx_out c)"
  proof -
    have "run_cost (record_victim v mode bs out) = run_cost out" for mode bs out
      by (cases mode) (simp_all add: record_victim_def run_cost_def Let_def)
    then show ?thesis using v(4) by auto
  qed
  have n: "length (filter (\<lambda>x. x = RUNNING) (sts j)) \<le> nrun (cx_sched c) j"
    unfolding nrun_def by (rule nrun_settles) (simp add: v(1))
  have "nrun (cx_sched c') j \<le> length (filter (\<lambda>x. x = RUNNING) (sts j))"
    using v(4) nrun_change unfolding nrun_def by auto
  then show "nrun (cx_sched c') j \<le> nrun (cx_sched c) j" using n by (rule order_trans)
qed

lemma release_budget_fresh:
  "rid (cx_sched c) i \<notin> counted (cx_budget c) \<Longrightarrow>
     toks (cx_budget (release_budget i n c)) = toks (cx_budget c) \<and> counted (cx_budget (release_budget i n c)) = counted (cx_budget c) \<and>
     bg_token_budget (cx_budget (release_budget i n c)) = bg_token_budget (cx_budget c)"
  "cx_sched (release_budget i n c) = cx_sched c" "cx_out (release_budget i n c) = cx_out c"
  by (simp_all add: release_budget_def Let_def rid_def)

lemma make_room_budget:
  "make_room B cfg ch i n q c = Inr (fits, q', c') \<Longrightarrow> callback_ok cfg \<Longrightarrow>
     rid (cx_sched c) i \<notin> counted (cx_budget c) \<Longrightarrow>
     toks (cx_budget c') = toks (cx_budget c) \<and> counted (cx_budget c') = counted (cx_budget c) \<and>
     bg_token_budget (cx_budget c') = bg_token_budget (cx_budget c) \<and> run_cost (cx_out c') = run_cost (cx_out c) \<and>
     (\<forall>j. nrun (cx_sched c') j \<le> nrun (cx_sched c) j) \<and> (distinct q \<longrightarrow> distinct q')"
proof (induction B cfg ch i n q c rule: make_room.induct)
  case (1 B cfg ch i n q c)
  let ?c = "release_budget i n c"
  note r = release_budget_fresh(1) [OF "1.prems"(3), of n] release_budget_fresh(2,3) [of i n c]
  obtain ok where ok: "can_append_slots B cfg (sc_groups (cx_sched c) i) ch (sc_block_manager (cx_sched c)) = Inr ok"
    using "1.prems"(1) unfolding make_room.simps [of B cfg ch i n q c] by auto
  consider (fits) "ok" | (self) "\<not> ok" "q = []" | (victim) "\<not> ok" "q \<noteq> []" by blast
  then show ?case
  proof cases
    case fits
    then show ?thesis using "1.prems" ok unfolding make_room.simps [of B cfg ch i n q c] by auto
  next
    case self
    then have p: "preempt_victim B cfg i ?c = Inr c'" "q' = []"
      using "1.prems"(1) ok unfolding make_room.simps [of B cfg ch i n q c] by (auto simp: Let_def)
    show ?thesis using preempt_victim_budget [OF p(1) "1.prems"(2)] p(2) r by simp
  next
    case victim
    then obtain c1 where c1: "preempt_victim B cfg (last q) ?c = Inr c1"
      "make_room B cfg ch i n (butlast q) c1 = Inr (fits, q', c')"
      using "1.prems"(1) ok unfolding make_room.simps [of B cfg ch i n q c] by (auto simp: Let_def)
    note p = preempt_victim_budget [OF c1(1) "1.prems"(2), unfolded r(2,3)]
    have "rid (cx_sched c1) i \<notin> counted (cx_budget c1)" using p r "1.prems"(3) by simp
    note ih = "1.IH" [OF ok victim(1) refl victim(2) c1 "1.prems"(2) this]
    have "nrun (cx_sched c') j \<le> nrun (cx_sched c) j" for j using ih p(4) [of j] by (meson order_trans)
    then show ?thesis using ih p(1,3) r(1) distinct_butlast [of q] by auto
  qed
qed

lemma schedule_running_group_budget:
  assumes "schedule_running_group B cfg ch i n c = Inr c'" "rid (cx_sched c) i \<notin> counted (cx_budget c)" "1 \<le> n"
  shows "toks (cx_budget c') = toks (cx_budget c) + n \<and> counted (cx_budget c') = insert (rid (cx_sched c) i) (counted (cx_budget c)) \<and>
    bg_token_budget (cx_budget c') = bg_token_budget (cx_budget c) \<and>
    run_cost (cx_out c') \<le> run_cost (cx_out c) + n \<and> rid (cx_sched c') = rid (cx_sched c) \<and> nrun (cx_sched c') = nrun (cx_sched c)"
proof -
  obtain bc s p where a: "append_slots B cfg i ch (ro_blocks_to_copy (cx_out c)) (cx_sched c) = Inr (bc, s)"
    "sg_is_prefill (sc_groups s i) = Inr p"
    using assms(1) unfolding schedule_running_group_def by (auto simp: Let_def)
  note v = append_slots_views [OF a(1)]
  then have r: "sg_request_id (sc_groups s i) = rid (cx_sched c) i" by (metis rid_def)
  have "cx_sched c' = s" "toks (cx_budget c') = toks (cx_budget c) + n"
    "counted (cx_budget c') = insert (rid (cx_sched c) i) (counted (cx_budget c))"
    "bg_token_budget (cx_budget c') = bg_token_budget (cx_budget c)" "run_cost (cx_out c') \<le> run_cost (cx_out c) + n"
    using assms a r unfolding schedule_running_group_def by (cases ch; cases p; auto simp: Let_def run_cost_def)+
  then show ?thesis using v by (simp add: nrun_def fun_eq_iff)
qed

lemma running_loop_budget:
  "running_loop B cfg ch q c = Inr (q', c') \<Longrightarrow> callback_ok cfg \<Longrightarrow> distinct q \<Longrightarrow> set q \<inter> A = {} \<Longrightarrow>
     inj_on (rid (cx_sched c)) (A \<union> set q) \<Longrightarrow> covers (cx_sched c) A x (cx_budget c) \<Longrightarrow>
     one_running cfg ch (cx_sched c) q \<Longrightarrow> in_budget cfg ch (cx_budget c) \<Longrightarrow>
     covers (cx_sched c') (A \<union> set q) (x + (run_cost (cx_out c') - run_cost (cx_out c))) (cx_budget c')"
proof (induction "length q" arbitrary: q c A x rule: less_induct)
  case less
  show ?case
  proof (cases q)
    case Nil
    then show ?thesis using less.prems by (simp add: running_loop.simps)
  next
    case (Cons i r)
    have fresh: "rid (cx_sched c) i \<notin> counted (cx_budget c)"
      by (rule fresh_not_counted [OF less.prems(6)]) (use less.prems(4,5) Cons in \<open>auto intro: inj_on_subset\<close>)
    note one = less.prems(7) [unfolded one_running_def Cons]
    have bounds: "0 \<le> n" "ch \<Longrightarrow> \<not> cf_is_multi_step cfg \<Longrightarrow> toks (cx_budget c) + n \<le> bg_token_budget (cx_budget c)"
      if "get_num_new_tokens cfg (sc_groups (cx_sched c) i) RUNNING ch (cx_budget c) = Inr n" for n
      using get_num_new_tokens_bounds [OF that] less.prems(8) one unfolding in_budget_def running_seqs_nrun by auto
    from less.prems(1) [unfolded Cons] show ?thesis
    proof (cases rule: running_loop_cases)
      case stop
      then show ?thesis using covers_mono [OF less.prems(6) Un_upper1 refl] by simp
    next
      case (async c1)
      have c1: "rid (cx_sched c1) = rid (cx_sched c)" "nrun (cx_sched c1) = nrun (cx_sched c)" "cx_budget c1 = cx_budget c"
        "cx_out c1 = cx_out c" using async(1) by (simp_all add: rid_def nrun_def stat_def fun_eq_iff)
      have "covers (cx_sched c') (A \<union> set r) (x + (run_cost (cx_out c') - run_cost (cx_out c1))) (cx_budget c')"
      proof (rule less.hyps [OF _ async(2) less.prems(2)])
        show "inj_on (rid (cx_sched c1)) (A \<union> set r)" using c1 less.prems(5) Cons by (auto intro: inj_on_subset)
        show "covers (cx_sched c1) A x (cx_budget c1)" using less.prems(6) c1 by (simp add: covers_def)
      qed (use less.prems(3,4,7,8) Cons c1 in \<open>auto simp: one_running_def\<close>)
      then show ?thesis using covers_mono [of "cx_sched c'" "A \<union> set r" _ _ "A \<union> set q"] c1 Cons by auto
    next
      case (victim n q1 c1)
      note m = make_room_budget [OF victim(2) less.prems(2) fresh] and f = make_room_frame [OF victim(2) less.prems(2)]
      have l: "length q1 < length q" using make_room_length [OF victim(2)] Cons by simp
      have sub: "set q1 \<subseteq> set q" using f Cons by auto
      have "covers (cx_sched c') (A \<union> set q1) (x + (run_cost (cx_out c') - run_cost (cx_out c1))) (cx_budget c')"
      proof (rule less.hyps [OF l victim(3) less.prems(2)])
        show "distinct q1" using m less.prems(3) Cons by simp
        show "set q1 \<inter> A = {}" using sub less.prems(4) by blast
        show "inj_on (rid (cx_sched c1)) (A \<union> set q1)"
          using f less.prems(5) sub by (auto intro: inj_on_subset)
        show "covers (cx_sched c1) A x (cx_budget c1)" using less.prems(6) m f by (simp add: covers_def)
        show "one_running cfg ch (cx_sched c1) q1" using m one sub Cons unfolding one_running_def
          by (meson order_trans subsetD)
        show "in_budget cfg ch (cx_budget c1)" using less.prems(8) m by (simp add: in_budget_def)
      qed
      moreover have "A \<union> set q1 \<subseteq> A \<union> set q" using sub by blast
      ultimately have "covers (cx_sched c') (A \<union> set q) (x + (run_cost (cx_out c') - run_cost (cx_out c1))) (cx_budget c')"
        by (rule covers_mono) (rule refl)
      then show ?thesis using m by simp
    next
      case (go n q1 c1 c2)
      note m = make_room_budget [OF go(3) less.prems(2) fresh] and f = make_room_frame [OF go(3) less.prems(2)]
      have n: "1 \<le> n" using bounds [OF go(1)] go(2) by simp
      have fresh1: "rid (cx_sched c1) i \<notin> counted (cx_budget c1)" using fresh m f by simp
      note g = schedule_running_group_budget [OF go(4) fresh1 n]
      have l: "length q1 < length q" using make_room_length [OF go(3)] Cons by simp
      have sub: "set q1 \<subseteq> set q" "i \<notin> set q1" using f less.prems(3) Cons by auto
      have "covers (cx_sched c') (insert i A \<union> set q1) (x + n + (run_cost (cx_out c') - run_cost (cx_out c2))) (cx_budget c')"
      proof (rule less.hyps [OF l go(5) less.prems(2)])
        show "distinct q1" using m less.prems(3) Cons by simp
        show "set q1 \<inter> insert i A = {}" using sub less.prems(4) by blast
        show "inj_on (rid (cx_sched c2)) (insert i A \<union> set q1)"
          using f g less.prems(5) sub Cons by (auto intro: inj_on_subset)
        show "covers (cx_sched c2) (insert i A) (x + n) (cx_budget c2)"
          using less.prems(6) m f g by (auto simp: covers_def)
        show "one_running cfg ch (cx_sched c2) q1" using m g one sub(1) Cons unfolding one_running_def
          by (metis order_trans subsetD)
        show "in_budget cfg ch (cx_budget c2)" using bounds(2) [OF go(1)] m g by (simp add: in_budget_def)
      qed
      moreover have "insert i A \<union> set q1 \<subseteq> A \<union> set q" using sub Cons by auto
      ultimately show ?thesis using m g by (auto simp: covers_def)
    qed
  qed
qed

section \<open>The swapped and the waiting queue\<close>

definition swap_cost :: "swapped_in_outputs \<Rightarrow> int" where
  "swap_cost out = cost (so_decode_seq_groups out) + cost (so_prefill_seq_groups out)"

lemma over_budget_nonzero: "over_budget n k b = Inr False \<Longrightarrow> n \<noteq> 0"
  by (auto simp: over_budget_def)

lemma swap_in_group_budget:
  assumes "swap_in_group B cfg ch i n k c = Inr c'" "rid (cx_sched c) i \<notin> counted (cx_budget c)" "1 \<le> n"
  shows "toks (cx_budget c') = toks (cx_budget c) + n \<and> counted (cx_budget c') = insert (rid (cx_sched c) i) (counted (cx_budget c)) \<and>
    swap_cost (cx_out c') \<le> swap_cost (cx_out c) + n"
proof -
  obtain bs s bc s' p where a: "swap_in B i (so_blocks_to_swap_in (cx_out c)) (cx_sched c) = Inr (bs, s)"
    "append_slots B cfg i ch (so_blocks_to_copy (cx_out c)) s = Inr (bc, s')" "sg_is_prefill (sc_groups s' i) = Inr p"
    using assms unfolding swap_in_group_def by (auto simp: Let_def)
  have r: "sg_request_id (sc_groups s' i) = rid (cx_sched c) i"
    using swap_in_views [OF a(1)] append_slots_views [OF a(2)] by (metis rid_def)
  show ?thesis using assms a r unfolding swap_in_group_def by (cases p; auto simp: Let_def swap_cost_def)
qed

lemma swapped_loop_budget:
  "swapped_loop B cfg False q c l = Inr (q', c', l') \<Longrightarrow> distinct q \<Longrightarrow> set q \<inter> A = {} \<Longrightarrow>
     inj_on (rid (cx_sched c)) (A \<union> set q) \<Longrightarrow> covers (cx_sched c) A x (cx_budget c) \<Longrightarrow>
     covers (cx_sched c') (A \<union> set q) (x + (swap_cost (cx_out c') - swap_cost (cx_out c))) (cx_budget c')"
proof (induction q arbitrary: c l A x)
  case Nil
  then show ?case by simp
next
  case (Cons i q)
  have fresh: "rid (cx_sched c) i \<notin> counted (cx_budget c)"
    by (rule fresh_not_counted [OF Cons.prems(5)]) (use Cons.prems(3,4) in \<open>auto intro: inj_on_subset\<close>)
  have d: "distinct q" "i \<notin> set q" "set q \<inter> A = {}" "inj_on (rid (cx_sched c)) (A \<union> set q)"
    using Cons.prems(2-4) by (auto intro: inj_on_subset)
  from Cons.prems(1) show ?case
  proof (cases rule: swapped_loop_cases)
    case stop
    then show ?thesis using covers_mono [OF Cons.prems(5) Un_upper1 refl, of "set (i # q)"] by simp
  next
    case infeasible
    let ?c = "c\<lparr>cx_sched := put_group i (set_all_status FINISHED_IGNORED (sc_groups (cx_sched c) i)) (cx_sched c),
      cx_out := (cx_out c)\<lparr>so_infeasible_seq_groups := so_infeasible_seq_groups (cx_out c) @ [i]\<rparr>\<rparr>"
    have r: "rid (cx_sched ?c) = rid (cx_sched c)" by simp
    have "covers (cx_sched ?c) A x (cx_budget ?c)" using Cons.prems(5) unfolding covers_def r by simp
    from Cons.IH [OF infeasible d(1,3) _ this] d(4)
    have "covers (cx_sched c') (A \<union> set q) (x + (swap_cost (cx_out c') - swap_cost (cx_out ?c))) (cx_budget c')"
      unfolding r by blast
    from covers_mono [OF this _ refl, of "A \<union> set (i # q)"] show ?thesis by (auto simp: swap_cost_def)
  next
    case left
    from covers_mono [OF Cons.IH [OF left d(1,3,4) Cons.prems(5)] _ refl, of "A \<union> set (i # q)"] show ?thesis by auto
  next
    case (go n c1)
    have n: "1 \<le> n" using get_num_new_tokens_bounds [OF go(1)] over_budget_nonzero [OF go(2)] by simp
    note g = swap_in_group_budget [OF go(3) fresh n] and r = swap_in_group_step(2) [OF go(3)]
    have "covers (cx_sched c1) (insert i A) (x + n) (cx_budget c1)" using Cons.prems(5) g unfolding covers_def r by auto
    from Cons.IH [OF go(4) d(1) _ _ this] have "covers (cx_sched c') (insert i A \<union> set q)
        (x + n + (swap_cost (cx_out c') - swap_cost (cx_out c1))) (cx_budget c')"
      using d Cons.prems(4) unfolding r by simp
    then show ?thesis using g by (auto simp: covers_def)
  qed
qed

lemma prefill_group_budget:
  assumes "prefill_group B cfg ch i n k la c = Inr c'" "rid (cx_sched c) i \<notin> counted (cx_budget c)"
  shows "toks (cx_budget c') = toks (cx_budget c) + n \<and> counted (cx_budget c') = insert (rid (cx_sched c) i) (counted (cx_budget c))"
proof -
  obtain s where "cx_sched c' = s"
    "cx_budget c' = add_num_seqs (rid s i) k (add_num_batched_tokens (rid s i) n (cx_budget c))"
    using assms(1) unfolding prefill_group_def by (auto simp: Let_def rid_def)
  then show ?thesis using prefill_group_step(2) [OF assms(1)] assms(2) by simp
qed

lemma prefill_loop_budget:
  "prefill_loop B cfg ch clock k q c l = Inr (q', c', l') \<Longrightarrow> distinct q \<Longrightarrow> set q \<inter> A = {} \<Longrightarrow>
     inj_on (rid (cx_sched c)) (A \<union> set q) \<Longrightarrow> covers (cx_sched c) A x (cx_budget c) \<Longrightarrow>
     covers (cx_sched c') (A \<union> set q) (x + (cost (po_seq_groups (cx_out c')) - cost (po_seq_groups (cx_out c)))) (cx_budget c')"
proof (induction q arbitrary: k c l A x)
  case Nil
  then show ?case using passed_delay_views(2) [of cfg "clock k" "[]" "cx_sched c"]
    by (auto simp: covers_def split: prod.splits)
next
  case (Cons i q)
  note v = passed_delay_views(2) [of cfg "clock k" "i # q" "cx_sched c"]
  have fresh: "rid (cx_sched c) i \<notin> counted (cx_budget c)"
    by (rule fresh_not_counted [OF Cons.prems(5)]) (use Cons.prems(3,4) in \<open>auto intro: inj_on_subset\<close>)
  have d: "distinct q" "i \<notin> set q" "set q \<inter> A = {}" "inj_on (rid (cx_sched c)) (A \<union> set q)"
    using Cons.prems(2-4) by (auto intro: inj_on_subset)
  have sub: "A \<union> set q \<subseteq> A \<union> set (i # q)" by auto
  from Cons.prems(1) show ?case
  proof (cases rule: prefill_loop_cases)
    case (stop s)
    then show ?thesis using covers_mono [OF Cons.prems(5) Un_upper1, of s "set (i # q)"] v by simp
  next
    case (ignore s)
    let ?c = "ignore_waiting i (c\<lparr>cx_sched := s\<rparr>)"
    have r: "rid (cx_sched ?c) = rid (cx_sched c)" "cx_budget ?c = cx_budget c"
      "po_seq_groups (cx_out ?c) = po_seq_groups (cx_out c)"
      using ignore(1) v rid_self [of s i] by (simp_all add: ignore_waiting_def)
    have "covers (cx_sched ?c) A x (cx_budget ?c)" using Cons.prems(5) unfolding covers_def r .
    from Cons.IH [OF ignore(3) d(1,3) _ this] d(4) show ?thesis unfolding r
      using covers_mono [OF _ sub refl] by blast
  next
    case (left s)
    have r: "rid s = rid (cx_sched c)" using left(1) v by simp
    have "covers s A x (cx_budget c)" using Cons.prems(5) unfolding covers_def r .
    with Cons.IH [OF left(2) d(1,3), of x] d(4) show ?thesis
      using covers_mono [OF _ sub refl] by (simp add: r)
  next
    case (go s n la c1)
    have r: "rid s = rid (cx_sched c)" using go(1) v by simp
    note g = prefill_group_budget [OF go(6)] and st = prefill_group_step(2,3) [OF go(6)]
    have "covers (cx_sched c1) (insert i A) (x + n) (cx_budget c1)"
      using Cons.prems(5) g fresh unfolding covers_def st by (auto simp: r)
    from Cons.IH [OF go(7) d(1) _ _ this] have "covers (cx_sched c') (insert i A \<union> set q)
        (x + n + (cost (po_seq_groups (cx_out c')) - cost (po_seq_groups (cx_out c1)))) (cx_budget c')"
      using d Cons.prems(4) unfolding st by (simp add: r)
    then show ?thesis using st(2) by (simp add: covers_def)
  qed
qed

lemma preempt_rid: "preempt B cfg v bs m s = Inr (mode, bs', s') \<Longrightarrow> rid s' = rid s"
  using preempt_views by blast

lemma priority_loop_budget:
  "priority_loop B cfg i n k running waiting blocks b cnt s = Inr (running', waiting', b', cnt', s') \<Longrightarrow> counted b = {} \<Longrightarrow>
     toks b' = toks b \<and> counted b' = {} \<and> rid s' = rid s"
proof (induction B cfg i n k running waiting blocks b cnt s rule: priority_loop.induct)
  case (1 B cfg i n k running waiting blocks b cnt s)
  show ?case
  proof (cases "running = [] \<or> \<not> get_priority (sc_groups s) (last running) > get_priority (sc_groups s) i")
    case True
    then show ?thesis using "1.prems" by (simp add: priority_loop.simps [of B cfg i n k running])
  next
    case False
    then obtain status stop where st: "bm_can_allocate B (sc_groups s i) 0 (sc_block_manager s) = Inr status"
      "(if n \<noteq> 0 \<and> status = OK then can_schedule n k b else Inr False) = Inr stop"
      using "1.prems" unfolding priority_loop.simps [of B cfg i n k running] by auto
    show ?thesis
    proof (cases stop)
      case True
      then show ?thesis using "1.prems" False st unfolding priority_loop.simps [of B cfg i n k running] by simp
    next
      case go: False
      let ?v = "last running" and ?g = "sc_groups s (last running)"
      obtain nr mode bl s1 where p: "get_num_new_tokens cfg ?g RUNNING False b = Inr nr"
        "preempt B cfg ?v blocks (Some RECOMPUTE) s = Inr (mode, bl, s1)"
        "priority_loop B cfg i n k (butlast running) (?v # waiting) bl
           (subtract_num_seqs (sg_request_id ?g) (int (get_max_num_running_seqs ?g))
             (subtract_num_batched_tokens (sg_request_id ?g) nr b)) (Suc cnt) s1 = Inr (running', waiting', b', cnt', s')"
        using "1.prems" False st go unfolding priority_loop.simps [of B cfg i n k running] by (auto simp: Let_def)
      show ?thesis using "1.IH" [OF False st go refl refl p(1) refl p(2) refl refl p(3)] "1.prems"(2) preempt_rid [OF p(2)] by simp
    qed
  qed
qed

section \<open>A scheduling step\<close>

lemma running_budget_part:
  assumes "(if go then schedule_running B cfg ch b loras s
      else Inr \<lparr>cx_sched = s, cx_budget = b, cx_loras = loras, cx_out = running_outputs_empty\<rparr>) = Inr c"
    "callback_ok cfg" "distinct (sc_running s)" "set (sc_running s) \<inter> A = {}"
    "inj_on (rid s) (A \<union> set (sc_running s))" "covers s A x b" "one_running cfg ch s (sc_running s)" "in_budget cfg ch b"
  shows "covers (cx_sched c) (A \<union> set (sc_running s)) (x + run_cost (cx_out c)) (cx_budget c)"
proof (cases go)
  case True
  let ?c = "\<lparr>cx_sched = s, cx_budget = b, cx_loras = loras,
    cx_out = running_outputs_empty\<lparr>ro_num_lookahead_slots := get_num_lookahead_slots cfg False ch\<rparr>\<rparr>"
  obtain q c1 where r: "running_loop B cfg ch (sc_running s) ?c = Inr (q, c1)"
    and c: "c = c1\<lparr>cx_sched := (cx_sched c1)\<lparr>sc_running := q\<rparr>\<rparr>"
    using assms(1) True unfolding schedule_running_def by (auto simp: Let_def)
  have "run_cost (cx_out ?c) = 0" by (simp add: run_cost_def running_outputs_empty_def)
  then show ?thesis using running_loop_budget [OF r assms(2-4), of x] assms(5-8) c by (simp add: covers_def)
next
  case False
  then have "c = \<lparr>cx_sched = s, cx_budget = b, cx_loras = loras, cx_out = running_outputs_empty\<rparr>" using assms(1) by simp
  then show ?thesis using covers_mono [OF assms(6) Un_upper1 refl] by (simp add: run_cost_def running_outputs_empty_def)
qed

lemma swapped_budget_part:
  assumes "(if go then schedule_swapped B cfg False b loras s
      else Inr \<lparr>cx_sched = s, cx_budget = b, cx_loras = loras, cx_out = swapped_in_outputs_empty\<rparr>) = Inr c"
    "distinct (sc_swapped s)" "set (sc_swapped s) \<inter> A = {}" "inj_on (rid s) (A \<union> set (sc_swapped s))" "covers s A x b"
  shows "covers (cx_sched c) (A \<union> set (sc_swapped s)) (x + swap_cost (cx_out c)) (cx_budget c)"
proof (cases go)
  case True
  let ?c = "\<lparr>cx_sched = s, cx_budget = b, cx_loras = loras, cx_out = swapped_in_outputs_empty\<rparr>"
  obtain q c1 l where r: "swapped_loop B cfg False (sc_swapped s) ?c [] = Inr (q, c1, l)"
    and c: "c = c1\<lparr>cx_sched := (cx_sched c1)\<lparr>sc_swapped := l @ q\<rparr>,
      cx_out := (cx_out c1)\<lparr>so_num_lookahead_slots := get_num_lookahead_slots cfg False False\<rparr>\<rparr>"
    using assms True unfolding schedule_swapped_def by auto
  show ?thesis using swapped_loop_budget [OF r assms(2,3), of x] assms(4,5) c
    by (simp add: covers_def swap_cost_def swapped_in_outputs_empty_def)
next
  case False
  then have "c = \<lparr>cx_sched = s, cx_budget = b, cx_loras = loras, cx_out = swapped_in_outputs_empty\<rparr>" using assms(1) by simp
  then show ?thesis using covers_mono [OF assms(5) Un_upper1 refl] by (simp add: swap_cost_def swapped_in_outputs_empty_def)
qed

lemma prefills_budget_part:
  assumes "(if go then schedule_prefills B cfg ch clock b loras s
      else Inr \<lparr>cx_sched = s, cx_budget = b, cx_loras = loras, cx_out = prefill_outputs_empty\<rparr>) = Inr c"
    "distinct (sc_waiting s)" "set (sc_waiting s) \<inter> A = {}" "inj_on (rid s) (A \<union> set (sc_waiting s))" "covers s A x b"
  shows "covers (cx_sched c) (A \<union> set (sc_waiting s)) (x + cost (po_seq_groups (cx_out c))) (cx_budget c)"
proof (cases go)
  case True
  let ?c = "\<lparr>cx_sched = s, cx_budget = b, cx_loras = loras, cx_out = prefill_outputs_empty\<rparr>"
  obtain q c1 l where r: "prefill_loop B cfg ch clock 0 (sc_waiting s) ?c [] = Inr (q, c1, l)"
    and c: "c = c1\<lparr>cx_sched := (let t = (cx_sched c1)\<lparr>sc_waiting := l @ q\<rparr> in
        if length (po_seq_groups (cx_out c1)) > 0 then t\<lparr>sc_prev_prompt := True\<rparr> else t),
      cx_out := (cx_out c1)\<lparr>po_num_lookahead_slots := get_num_lookahead_slots cfg True ch\<rparr>\<rparr>"
    using assms True unfolding schedule_prefills_def by (auto simp: Let_def)
  show ?thesis using prefill_loop_budget [OF r assms(2,3), of x] assms(4,5) c
    by (simp add: covers_def prefill_outputs_empty_def Let_def)
next
  case False
  then have "c = \<lparr>cx_sched = s, cx_budget = b, cx_loras = loras, cx_out = prefill_outputs_empty\<rparr>" using assms(1) by simp
  then show ?thesis using covers_mono [OF assms(5) Un_upper1 refl] by (simp add: prefill_outputs_empty_def)
qed

text \<open>The request ids never change, and the loops leave the other queues alone.\<close>

lemma swapped_loop_rid: "swapped_loop B cfg ch q c l = Inr (q', c', l') \<Longrightarrow> rid (cx_sched c') = rid (cx_sched c)"
proof (induction q arbitrary: c l)
  case (Cons i q)
  from Cons.prems show ?case
    by (cases rule: swapped_loop_cases) (auto dest!: Cons.IH swap_in_group_step(2))
qed simp

lemma ignore_waiting_rid [simp]:
  "rid (cx_sched (ignore_waiting i c)) = rid (cx_sched c)" "cx_budget (ignore_waiting i c) = cx_budget c"
  "po_seq_groups (cx_out (ignore_waiting i c)) = po_seq_groups (cx_out c)"
  by (simp_all add: ignore_waiting_def)

lemma prefill_loop_rid: "prefill_loop B cfg ch clock k q c l = Inr (q', c', l') \<Longrightarrow> rid (cx_sched c') = rid (cx_sched c)"
proof (induction q arbitrary: k c l)
  case Nil
  then show ?case using passed_delay_views(2) [of cfg "clock k" "[]" "cx_sched c"] by (auto split: prod.splits)
next
  case (Cons i q)
  note v = passed_delay_views(2) [of cfg "clock k" "i # q" "cx_sched c"]
  from Cons.prems show ?case
  proof (cases rule: prefill_loop_cases)
    case (ignore s)
    then show ?thesis using Cons.IH [OF ignore(3)] v by simp
  next
    case (go s n la c1)
    then show ?thesis using Cons.IH [OF go(7)] v prefill_group_step(2) [OF go(6)] by simp
  qed (use v in \<open>auto dest!: Cons.IH\<close>)
qed

lemma running_frame:
  assumes "(if go then schedule_running B cfg ch b loras s
      else Inr \<lparr>cx_sched = s, cx_budget = b, cx_loras = loras, cx_out = running_outputs_empty\<rparr>) = Inr c" "callback_ok cfg"
  shows "rid (cx_sched c) = rid s" "sc_waiting (cx_sched c) = sc_waiting s" "sc_swapped (cx_sched c) = sc_swapped s"
proof -
  have "rid (cx_sched c) = rid s \<and> sc_waiting (cx_sched c) = sc_waiting s \<and> sc_swapped (cx_sched c) = sc_swapped s"
  proof (cases go)
    case True
    then have g: "schedule_running B cfg ch b loras s = Inr c" using assms(1) by simp
    then have "rid (cx_sched c) = rid s"
      unfolding schedule_running_def by (auto simp: Let_def dest!: running_loop_frame [OF _ assms(2)])
    then show ?thesis using schedule_running_conserves(1,2) [OF g] by simp
  qed (use assms(1) in auto)
  then show "rid (cx_sched c) = rid s" "sc_waiting (cx_sched c) = sc_waiting s" "sc_swapped (cx_sched c) = sc_swapped s" by auto
qed

lemma swapped_frame:
  assumes "(if go then schedule_swapped B cfg ch b loras s
      else Inr \<lparr>cx_sched = s, cx_budget = b, cx_loras = loras, cx_out = swapped_in_outputs_empty\<rparr>) = Inr c"
  shows "rid (cx_sched c) = rid s" "sc_waiting (cx_sched c) = sc_waiting s" "sc_running (cx_sched c) = sc_running s"
proof -
  have "rid (cx_sched c) = rid s \<and> sc_waiting (cx_sched c) = sc_waiting s \<and> sc_running (cx_sched c) = sc_running s"
  proof (cases go)
    case True
    then have g: "schedule_swapped B cfg ch b loras s = Inr c" using assms(1) by simp
    then have "rid (cx_sched c) = rid s" unfolding schedule_swapped_def by (auto dest!: swapped_loop_rid)
    then show ?thesis using schedule_swapped_conserves(1,2) [OF g] by simp
  qed (use assms(1) in auto)
  then show "rid (cx_sched c) = rid s" "sc_waiting (cx_sched c) = sc_waiting s" "sc_running (cx_sched c) = sc_running s" by auto
qed

lemma prefills_frame:
  assumes "(if go then schedule_prefills B cfg ch clock b loras s
      else Inr \<lparr>cx_sched = s, cx_budget = b, cx_loras = loras, cx_out = prefill_outputs_empty\<rparr>) = Inr c"
  shows "rid (cx_sched c) = rid s" "sc_running (cx_sched c) = sc_running s" "sc_swapped (cx_sched c) = sc_swapped s"
    "mset (sc_waiting (cx_sched c)) + pre_tracked (cx_out c) = mset (sc_waiting s)"
proof -
  have "rid (cx_sched c) = rid s \<and> sc_running (cx_sched c) = sc_running s \<and> sc_swapped (cx_sched c) = sc_swapped s \<and>
    mset (sc_waiting (cx_sched c)) + pre_tracked (cx_out c) = mset (sc_waiting s)"
  proof (cases go)
    case True
    then have g: "schedule_prefills B cfg ch clock b loras s = Inr c" using assms(1) by simp
    then have "rid (cx_sched c) = rid s" unfolding schedule_prefills_def by (auto simp: Let_def dest!: prefill_loop_rid split: if_splits)
    then show ?thesis using schedule_prefills_conserves [OF g] by simp
  qed (use assms(1) in \<open>auto simp: pre_tracked_def prefill_outputs_empty_def\<close>)
  then show "rid (cx_sched c) = rid s" "sc_running (cx_sched c) = sc_running s" "sc_swapped (cx_sched c) = sc_swapped s"
    "mset (sc_waiting (cx_sched c)) + pre_tracked (cx_out c) = mset (sc_waiting s)" by auto
qed

definition all_queued :: "'b scheduler \<Rightarrow> gid list" where
  "all_queued s = sc_waiting s @ sc_running s @ sc_swapped s"

lemma chunked_loops_budget:
  assumes "chunked_loops B cfg clock s = Inr (p, r, w, b, s')" "callback_ok cfg" "distinct (all_queued s)"
    "inj_on (rid s) (set (all_queued s))" "one_running cfg True s (sc_running s)"
  shows "run_cost r + swap_cost w + cost (po_seq_groups p) \<le> toks b"
proof -
  define b0 where "b0 = new_budget (int (cf_max_num_batched_tokens cfg)) (int (cf_max_num_seqs cfg))"
  obtain cr cs cp where cr: "schedule_running B cfg True b0 (Some {}) s = Inr cr"
    and cs: "(if length (ro_preempted (cx_out cr)) + length (ro_swapped_out (cx_out cr)) = 0
      then schedule_swapped B cfg False (cx_budget cr) (cx_loras cr) (cx_sched cr)
      else Inr \<lparr>cx_sched = cx_sched cr, cx_budget = cx_budget cr, cx_loras = cx_loras cr, cx_out = swapped_in_outputs_empty\<rparr>) = Inr cs"
    and cp: "schedule_prefills B cfg True clock (cx_budget cs) (cx_loras cs) (cx_sched cs) = Inr cp"
    and res: "p = cx_out cp" "r = cx_out cr" "w = cx_out cs" "b = cx_budget cp"
    using assms(1) unfolding chunked_loops_def b0_def by (auto simp: Let_def)
  let ?W = "set (sc_waiting s)" and ?R = "set (sc_running s)" and ?S = "set (sc_swapped s)"
  have q: "distinct (sc_waiting s)" "distinct (sc_running s)" "distinct (sc_swapped s)"
    "?W \<inter> ?R = {}" "?W \<inter> ?S = {}" "?R \<inter> ?S = {}"
    using assms(3) by (auto simp: all_queued_def)
  have inj: "inj_on (rid s) (?W \<union> ?R \<union> ?S)" using assms(4) by (simp add: all_queued_def Un_assoc)
  have "covers (cx_sched cr) ({} \<union> ?R) (0 + run_cost r) (cx_budget cr)"
    unfolding res by (rule running_budget_part [of True, simplified if_True, OF cr assms(2) q(2)])
      (use inj assms(5) in \<open>auto simp: covers_def b0_def new_budget_def in_budget_def intro: inj_on_subset\<close>)
  moreover note r = running_frame [of True, simplified if_True, OF cr assms(2)]
  ultimately have "covers (cx_sched cs) (?R \<union> ?S) (run_cost r + swap_cost w) (cx_budget cs)"
    using swapped_budget_part [OF cs, of ?R "run_cost r"] q inj unfolding res by (auto intro: inj_on_subset)
  moreover have "sc_waiting (cx_sched cs) = sc_waiting s" "rid (cx_sched cs) = rid s"
    using swapped_frame [OF cs] r by simp_all
  ultimately have "covers (cx_sched cp) (?R \<union> ?S \<union> ?W) (run_cost r + swap_cost w + cost (po_seq_groups p)) (cx_budget cp)"
    using prefills_budget_part [of True, simplified if_True, OF cp, of "?R \<union> ?S" "run_cost r + swap_cost w"] q inj unfolding res
    by (auto intro: inj_on_subset)
  then show ?thesis unfolding covers_def res by simp
qed

lemma default_budget_fresh: "counted (default_budget cfg s) = {} \<and> toks (default_budget cfg s) = 0"
proof -
  have "counted (fold (\<lambda>i. add_num_seqs (f i) (g i)) q b) = counted b \<and> toks (fold (\<lambda>i. add_num_seqs (f i) (g i)) q b) = toks b"
    for f g and q :: "gid list" and b
    by (induction q arbitrary: b) auto
  then show ?thesis by (simp add: default_budget_def new_budget_def)
qed

text \<open>When the loop over the waiting queue schedules nothing, it leaves the budget as it was.\<close>

lemma prefill_loop_nothing:
  "prefill_loop B cfg ch clock k q c l = Inr (q', c', l') \<Longrightarrow> length (po_seq_groups (cx_out c)) \<le> length (po_seq_groups (cx_out c')) \<and>
     (length (po_seq_groups (cx_out c)) = length (po_seq_groups (cx_out c')) \<longrightarrow> cx_budget c' = cx_budget c)"
proof (induction q arbitrary: k c l)
  case Nil
  then show ?case by (auto split: prod.splits)
next
  case (Cons i q)
  from Cons.prems show ?case
  proof (cases rule: prefill_loop_cases)
    case (ignore s)
    then show ?thesis using Cons.IH [OF ignore(3)] by simp
  next
    case (left s)
    then show ?thesis using Cons.IH [OF left(2)] by simp
  next
    case (go s n la c1)
    then show ?thesis using Cons.IH [OF go(7)] prefill_group_step(3) [OF go(6)] by simp
  qed simp
qed

lemma prefills_nothing:
  assumes "(if go then schedule_prefills B cfg ch clock b loras s
      else Inr \<lparr>cx_sched = s, cx_budget = b, cx_loras = loras, cx_out = prefill_outputs_empty\<rparr>) = Inr c"
    "length (po_seq_groups (cx_out c)) = 0"
  shows "cx_budget c = b"
proof (cases go)
  case True
  let ?c = "\<lparr>cx_sched = s, cx_budget = b, cx_loras = loras, cx_out = prefill_outputs_empty\<rparr>"
  obtain q c1 l where r: "prefill_loop B cfg ch clock 0 (sc_waiting s) ?c [] = Inr (q, c1, l)"
    "cx_budget c = cx_budget c1" "po_seq_groups (cx_out c) = po_seq_groups (cx_out c1)"
    using assms True unfolding schedule_prefills_def by (auto simp: Let_def)
  then show ?thesis using prefill_loop_nothing [OF r(1)] assms(2) by (simp add: prefill_outputs_empty_def)
qed (use assms(1) in auto)

text \<open>The preemption of the default policy with priorities: queues are permuted, nothing is counted.\<close>

lemma priority_part:
  assumes "(if go then schedule_priority_preemption B cfg b s else Inr (0, b, s)) = Inr (n1, b1, s1)" "counted b = {}"
  shows "toks b1 = toks b" "counted b1 = {}" "rid s1 = rid s"
    "mset (sc_waiting s1) + mset (sc_running s1) = mset (sc_waiting s) + mset (sc_running s)" "sc_swapped s1 = sc_swapped s"
proof -
  have "toks b1 = toks b \<and> counted b1 = {} \<and> rid s1 = rid s"
  proof (cases "go \<and> sc_waiting s \<noteq> []")
    case True
    then obtain i w where w: "sc_waiting s = i # w" by (cases "sc_waiting s") auto
    obtain n r1 w1 bl c1 s2 where p: "priority_loop B cfg i n (int (get_max_num_running_seqs (sc_groups s i)))
        (sort_key (get_priority (sc_groups s)) (sc_running s)) w [] b 0 s = Inr (r1, w1, b1, c1, s2)"
      "s1 = s2\<lparr>sc_waiting := sort_key (get_priority (sc_groups s2)) (i # w1), sc_running := r1\<rparr>"
      using assms(1) True w unfolding schedule_priority_preemption_def by (auto simp: Let_def)
    show ?thesis using priority_loop_budget [OF p(1) assms(2)] p(2) by simp
  next
    case False
    then show ?thesis using assms unfolding schedule_priority_preemption_def by (auto simp: Let_def split: if_splits)
  qed
  then show "toks b1 = toks b" "counted b1 = {}" "rid s1 = rid s" by auto
  show "mset (sc_waiting s1) + mset (sc_running s1) = mset (sc_waiting s) + mset (sc_running s)" "sc_swapped s1 = sc_swapped s"
    using assms(1) schedule_priority_conserves by (auto split: if_splits)
qed

lemma default_loops_budget:
  assumes "default_loops B cfg clock s = Inr (p, r, w, b, s')" "callback_ok cfg" "distinct (all_queued s)"
    "inj_on (rid s) (set (all_queued s))"
  shows "run_cost r + swap_cost w + cost (po_seq_groups p) \<le> toks b"
proof -
  define b0 l0 where "b0 = default_budget cfg s" and "l0 = default_loras cfg s"
  obtain cp where cp: "(if sc_swapped s = [] then schedule_prefills B cfg False clock b0 l0 s
      else Inr \<lparr>cx_sched = s, cx_budget = b0, cx_loras = l0, cx_out = prefill_outputs_empty\<rparr>) = Inr cp"
    using assms(1) unfolding default_loops_def b0_def l0_def by (auto simp: Let_def)
  define none where "none = (length (po_seq_groups (cx_out cp)) = 0)"
  obtain n1 b1 s1 where pr: "(if none \<and> cf_policy cfg = ''priority''
      then schedule_priority_preemption B cfg (cx_budget cp) (cx_sched cp) else Inr (0, cx_budget cp, cx_sched cp)) = Inr (n1, b1, s1)"
    using assms(1) cp unfolding default_loops_def b0_def l0_def none_def by (auto simp: Let_def)
  obtain cr where cr: "(if none then schedule_running B cfg False b1 (cx_loras cp) s1
      else Inr \<lparr>cx_sched = s1, cx_budget = b1, cx_loras = cx_loras cp, cx_out = running_outputs_empty\<rparr>) = Inr cr"
    using assms(1) cp pr unfolding default_loops_def b0_def l0_def none_def by (auto simp: Let_def)
  obtain cs where cs: "(if none \<and> length (ro_preempted (cx_out cr)) + length (ro_swapped_out (cx_out cr)) = 0
      then schedule_swapped B cfg False (cx_budget cr) (cx_loras cr) (cx_sched cr)
      else Inr \<lparr>cx_sched = cx_sched cr, cx_budget = cx_budget cr, cx_loras = cx_loras cr, cx_out = swapped_in_outputs_empty\<rparr>) = Inr cs"
    using assms(1) cp pr cr unfolding default_loops_def b0_def l0_def none_def by (auto simp: Let_def)
  have res: "p = cx_out cp" "r = cx_out cr" "w = cx_out cs" "b = cx_budget cs"
    using assms(1) cp pr cr cs unfolding default_loops_def b0_def l0_def none_def by (auto simp: Let_def)
  have b0: "covers s {} 0 b0" by (simp add: covers_def b0_def default_budget_fresh)
  have q: "distinct (sc_waiting s)" "inj_on (rid s) (set (sc_waiting s) \<union> set (sc_running s) \<union> set (sc_swapped s))"
    using assms(3,4) by (auto simp: all_queued_def Un_assoc)
  have P: "covers (cx_sched cp) (set (sc_waiting s)) (cost (po_seq_groups p)) (cx_budget cp)"
    using prefills_budget_part [OF cp q(1) _ _ b0] q(2) res(1) by (auto intro: inj_on_subset)
  note pf = prefills_frame [OF cp]
  show ?thesis
  proof (cases none)
    case True
    then have c0: "length (po_seq_groups (cx_out cp)) = 0" "cx_budget cp = b0"
      using prefills_nothing [OF cp] by (simp_all add: none_def)
    note f = default_budget_fresh [of cfg s, folded b0_def]
    have "counted (cx_budget cp) = {}" using c0 f by simp
    note pp = priority_part [OF pr this]
    have "one_each (mset (sc_waiting s1) + mset (sc_running s1) + mset (sc_swapped s1) + pre_tracked (cx_out cp))"
    proof -
      have "mset (sc_waiting s1) + mset (sc_running s1) + mset (sc_swapped s1) + pre_tracked (cx_out cp) = mset (all_queued s)"
        unfolding pp(4,5) pf(2,3) all_queued_def mset_append pf(4) [symmetric] by (simp only: ac_simps)
      then show ?thesis using assms(3) one_each_mset [of "all_queued s"] by simp
    qed
    then have "one_each (mset (sc_running s1 @ sc_swapped s1) + (mset (sc_waiting s1) + pre_tracked (cx_out cp)))"
      by (simp add: ac_simps)
    then have d: "distinct (sc_running s1 @ sc_swapped s1)" using one_each_left one_each_mset by blast
    have "set (sc_running s1) \<subseteq> set (sc_waiting (cx_sched cp)) \<union> set (sc_running s)"
      by (metis pp(4) pf(2) set_mset_mset set_mset_union sup_ge2)
    moreover have "set (sc_waiting (cx_sched cp)) \<subseteq> set (sc_waiting s)" by (metis pf(4) set_mset_mset set_mset_union sup_ge1)
    ultimately have sub: "set (sc_running s1) \<union> set (sc_swapped s1) \<subseteq> set (all_queued s)"
      using pp(5) pf(3) by (auto simp: all_queued_def)
    have inj: "inj_on (rid s1) (set (sc_running s1) \<union> set (sc_swapped s1))"
      using inj_on_subset [OF assms(4) sub] pp(3) pf(1) by simp
    note rf = running_frame [OF cr assms(2)]
    have "covers s1 {} 0 b1" using pp c0 f by (simp add: covers_def)
    then have R: "covers (cx_sched cr) (set (sc_running s1)) (run_cost r) (cx_budget cr)"
      using running_budget_part [OF cr assms(2), of "{}" 0] d inj res(2)
      by (auto simp: one_running_def in_budget_def intro: inj_on_subset)
    have "covers (cx_sched cs) (set (sc_running s1) \<union> set (sc_swapped s1)) (run_cost r + swap_cost w) (cx_budget cs)"
      using swapped_budget_part [OF cs _ _ _ R] d inj rf res(3) by auto
    then show ?thesis using c0(1) unfolding res covers_def by simp
  next
    case False
    then have "cr = \<lparr>cx_sched = s1, cx_budget = b1, cx_loras = cx_loras cp, cx_out = running_outputs_empty\<rparr>"
      "cs = \<lparr>cx_sched = cx_sched cr, cx_budget = cx_budget cr, cx_loras = cx_loras cr, cx_out = swapped_in_outputs_empty\<rparr>"
      "b1 = cx_budget cp"
      using cr cs pr by auto
    then show ?thesis using P unfolding res covers_def
      by (simp add: run_cost_def swap_cost_def running_outputs_empty_def swapped_in_outputs_empty_def)
  qed
qed

text \<open>
  C8. The token budget bounds the batch: under either policy, when the queued requests are distinct,
  the token chunks of the scheduled groups add up to at most the reported number of batched tokens, and
  that is at most \<open>max_num_batched_tokens\<close>. The queued groups have different request ids, and under
  chunked prefill (without multi-step) every running group has at most one running sequence;
  \<open>forked_samples_exceed_token_budget\<close> shows what happens otherwise. The asynchronous output processor may
  be on, if its callback keeps request ids and sequences and only finishes or extends the latter.
\<close>

theorem batch_within_token_budget:
  assumes "schedule_policy B cfg clock s = Inr (out, s')" "callback_ok cfg" "distinct (all_queued s)"
    "inj_on (rid s) (set (all_queued s))" "one_running cfg (cf_chunked_prefill_enabled cfg) s (sc_running s)"
  shows "cost (out_scheduled_seq_groups out) \<le> out_num_batched_tokens out \<and>
    out_num_batched_tokens out \<le> int (cf_max_num_batched_tokens cfg)"
proof -
  obtain p r w b s1 where l: "(if cf_chunked_prefill_enabled cfg then chunked_loops B cfg clock s else default_loops B cfg clock s)
      = Inr (p, r, w, b, s1)"
    and a: "toks b \<le> int (cf_max_num_batched_tokens cfg)" "out_num_batched_tokens out = toks b"
    and m: "mset (out_scheduled_seq_groups out) = mset (po_seq_groups p @ ro_prefill_seq_groups r @ so_prefill_seq_groups w @
       ro_decode_seq_groups r @ so_decode_seq_groups w)"
    by (rule schedule_policy_parts [OF assms(1)])
  have "run_cost r + swap_cost w + cost (po_seq_groups p) \<le> toks b"
    using l assms chunked_loops_budget default_loops_budget by (cases "cf_chunked_prefill_enabled cfg") auto
  then show ?thesis using cost_mset [OF m] a by (simp add: run_cost_def swap_cost_def)
qed

theorem batch_within_token_budget_witness:
  "(\<exists>out s'. schedule_policy embedding_ops ex_cfg (\<lambda>_. 1) ex_sched = Inr (out, s') \<and>
     cost (out_scheduled_seq_groups out) \<le> out_num_batched_tokens out \<and> out_num_batched_tokens out \<le> 8) \<and>
   (\<exists>out s'. schedule_policy counting_ops ex_async_cfg (\<lambda>_. 1) ex_async_sched = Inr (out, s') \<and>
     cost (out_scheduled_seq_groups out) \<le> out_num_batched_tokens out \<and> out_num_batched_tokens out \<le> 8)"
proof (rule conjI)
  obtain out s' where o: "schedule_policy embedding_ops ex_cfg (\<lambda>_. 1) ex_sched = Inr (out, s')"
    using ex_schedule by (cases "schedule_policy embedding_ops ex_cfg (\<lambda>_. 1) ex_sched") auto
  have "distinct (all_queued ex_sched)" "inj_on (rid ex_sched) (set (all_queued ex_sched))"
    "one_running ex_cfg (cf_chunked_prefill_enabled ex_cfg) ex_sched (sc_running ex_sched)" "callback_ok ex_cfg"
    by (simp_all add: all_queued_def ex_sched_def add_seq_group_def scheduler_init_def rid_def ex_groups_def seq_group_init_def
        one_running_def ex_cfg_def callback_ok_def)
  note k = batch_within_token_budget [OF o this(4,1,2,3)]
  then show "\<exists>out s'. schedule_policy embedding_ops ex_cfg (\<lambda>_. 1) ex_sched = Inr (out, s') \<and>
     cost (out_scheduled_seq_groups out) \<le> out_num_batched_tokens out \<and> out_num_batched_tokens out \<le> 8"
    using o by (auto simp: ex_cfg_def)
next
  obtain out s' where o: "schedule_policy counting_ops ex_async_cfg (\<lambda>_. 1) ex_async_sched = Inr (out, s')"
    using ex_async_schedule by (cases "schedule_policy counting_ops ex_async_cfg (\<lambda>_. 1) ex_async_sched") auto
  have "distinct (all_queued ex_async_sched)" "inj_on (rid ex_async_sched) (set (all_queued ex_async_sched))"
    "one_running ex_async_cfg (cf_chunked_prefill_enabled ex_async_cfg) ex_async_sched (sc_running ex_async_sched)"
    by (simp_all add: all_queued_def ex_async_sched_def scheduler_init_def rid_def seq_group_init_def
        one_running_def ex_async_cfg_def)
  note k = batch_within_token_budget [OF o ex_async_callback_ok this]
  then show "\<exists>out s'. schedule_policy counting_ops ex_async_cfg (\<lambda>_. 1) ex_async_sched = Inr (out, s') \<and>
     cost (out_scheduled_seq_groups out) \<le> out_num_batched_tokens out \<and> out_num_batched_tokens out \<le> 8"
    using o by (auto simp: ex_async_cfg_def)
qed

section \<open>A negative token grant\<close>

text \<open>
  Groups 0 and 1 have two running sequences each (forked samples), group 2 has one; all decode. The
  block manager has room for everything.
\<close>

definition fork_seq_data :: seq_data where
  "fork_seq_data = (sd_append_token_id 9 0 (from_seqs [5, 6] None))\<lparr>sd_num_computed_tokens := 2, sd_stage := DECODE\<rparr>"

definition fork_groups :: "gid \<Rightarrow> seq_group" where
  "fork_groups i = seq_group_init (if i = 0 then ''a'' else if i = 1 then ''b'' else ''c'')
     (map (\<lambda>k. (ex_seq k [5, 6])\<lparr>sq_data := fork_seq_data, sq_status := RUNNING\<rparr>) (if i < 2 then [2 * i, 2 * i + 1] else [4])) 0 None None None 0"

definition fork_sched :: "unit scheduler" where
  "fork_sched = (scheduler_init fork_groups ())\<lparr>sc_running := [0, 1, 2]\<rparr>"

definition roomy_ops :: "unit manager_ops" where
  "roomy_ops = embedding_ops\<lparr>bm_append_slots := \<lambda>_ _ b. Inr (Some [], b)\<rparr>"

definition fork_cfg :: "unit config" where
  "fork_cfg = ex_cfg\<lparr>cf_max_num_batched_tokens := 3, cf_max_num_seqs := 8, cf_max_model_len := 8, cf_chunked_prefill_enabled := True\<rparr>"

lemma fork_scheduled:
  "map_sum id (\<lambda>(out, s). (map sch_group (out_scheduled_seq_groups out), out_num_batched_tokens out,
       sum_list (map (\<lambda>x. length (sg_get_seqs (Some RUNNING) (sc_groups s (sch_group x)))) (out_scheduled_seq_groups out))))
     (schedule_policy roomy_ops fork_cfg (\<lambda>_. 1) fork_sched) = Inr ([0, 1, 2], 3, 5)"
  by code_simp

lemma negative_grant:
  "get_num_new_tokens fork_cfg (fork_groups 2) RUNNING True ((new_budget 3 8)\<lparr>bg_num_batched_tokens := 4\<rparr>) = Inr (- 1)"
  by code_simp

text \<open>
  A batch over the limit that the assertion does not see: a group with several running sequences is
  granted its tokens without a look at the budget, so the budget can be overdrawn; the next group with
  one sequence is then granted the remaining, negative, number, which is not zero, so that the loop goes
  on, schedules the group and takes the overdraft back. Here five decoding sequences are scheduled under
  a limit of three tokens, and three batched tokens are reported.
\<close>

lemma forked_samples_exceed_token_budget:
  "(\<exists>out s'. schedule_policy roomy_ops fork_cfg (\<lambda>_. 1) fork_sched = Inr (out, s') \<and>
      out_num_batched_tokens out = int (cf_max_num_batched_tokens fork_cfg) \<and>
      sum_list (map (\<lambda>x. length (sg_get_seqs (Some RUNNING) (sc_groups s' (sch_group x)))) (out_scheduled_seq_groups out)) >
        cf_max_num_batched_tokens fork_cfg) \<and>
   get_num_new_tokens fork_cfg (fork_groups 2) RUNNING True ((new_budget 3 8)\<lparr>bg_num_batched_tokens := 4\<rparr>) = Inr (- 1)"
proof -
  obtain out s' where "schedule_policy roomy_ops fork_cfg (\<lambda>_. 1) fork_sched = Inr (out, s')"
    "out_num_batched_tokens out = 3"
    "sum_list (map (\<lambda>x. length (sg_get_seqs (Some RUNNING) (sc_groups s' (sch_group x)))) (out_scheduled_seq_groups out)) = 5"
    using fork_scheduled by (cases "schedule_policy roomy_ops fork_cfg (\<lambda>_. 1) fork_sched") auto
  then show ?thesis using negative_grant by (auto simp: fork_cfg_def)
qed

end
