(* ===== verification/Scheduler_Abort.thy ===== *)
theory Scheduler_Abort
  imports Scheduler_Budget
begin

text \<open>
  Aborting requests (\<open>Scheduler.abort_seq_group\<close>), and the priority preemption of the default policy.
\<close>

section \<open>Aborting\<close>

definition aborted :: "seq_group \<Rightarrow> seq_group" where
  "aborted g = g\<lparr>sg_seqs := map (\<lambda>q. if sq_is_finished q then q else q\<lparr>sq_status := FINISHED_ABORTED\<rparr>) (sg_seqs g)\<rparr>"

lemma aborted_simps [simp]: "sg_request_id (aborted g) = sg_request_id g" "sg_is_finished (aborted g)"
  by (auto simp: aborted_def sg_is_finished_iff sq_is_finished_def status_is_finished_def)

lemma foldE_free_only_manager:
  "foldE (free_seq B) qs s = Inr s' \<Longrightarrow> \<exists>bm. s' = s\<lparr>sc_block_manager := bm\<rparr>"
proof (induction qs arbitrary: s)
  case Nil
  then show ?case by (intro exI [of _ "sc_block_manager s"]) simp
next
  case (Cons q qs)
  then obtain t where t: "free_seq B q s = Inr t" "foldE (free_seq B) qs t = Inr s'" by auto
  obtain bm bm' where "t = s\<lparr>sc_block_manager := bm\<rparr>" "s' = t\<lparr>sc_block_manager := bm'\<rparr>"
    using t(1) Cons.IH [OF t(2)] by (auto simp: free_seq_def)
  then show ?case by (intro exI [of _ bm']) simp
qed

lemma free_cross_only_manager:
  assumes "free_seq_group_cross_attn_blocks B i s = Inr s'"
  shows "\<exists>bm. s' = s\<lparr>sc_block_manager := bm\<rparr>"
proof (cases "is_encoder_decoder (sc_groups s i)")
  case True
  then show ?thesis using assms by (auto simp: free_seq_group_cross_attn_blocks_def)
next
  case False
  then show ?thesis using assms
    by (intro exI [of _ "sc_block_manager s"]) (simp add: free_seq_group_cross_attn_blocks_def)
qed

lemma abort_group_effect:
  assumes "abort_group B i s = Inr s'"
  shows "sc_groups s' = (sc_groups s)(i := aborted (sc_groups s i))" "get_queue k s' = get_queue k s"
    "sc_finished_requests_ids s' = sc_finished_requests_ids s @ [rid s i]"
proof -
  let ?g = "sc_groups s i"
  let ?s = "s\<lparr>sc_finished_requests_ids := sc_finished_requests_ids s @ [sg_request_id ?g]\<rparr>"
  obtain t where t: "foldE (free_seq B) (map (\<lambda>q. q\<lparr>sq_status := FINISHED_ABORTED\<rparr>) (filter (\<lambda>q. \<not> sq_is_finished q) (sg_seqs ?g))) ?s = Inr t"
    "free_seq_group_cross_attn_blocks B i (put_group i (aborted ?g) t) = Inr s'"
    using assms by (auto simp: abort_group_def Let_def aborted_def)
  obtain bm bm' where "t = ?s\<lparr>sc_block_manager := bm\<rparr>" "s' = (put_group i (aborted ?g) t)\<lparr>sc_block_manager := bm'\<rparr>"
    using foldE_free_only_manager [OF t(1)] free_cross_only_manager [OF t(2)] by blast
  then show "sc_groups s' = (sc_groups s)(i := aborted ?g)" "get_queue k s' = get_queue k s"
    "sc_finished_requests_ids s' = sc_finished_requests_ids s @ [rid s i]"
    by (cases k; simp add: put_group_def rid_def)+
qed

lemma queue_simps [simp]:
  "get_queue k (set_queue k q s) = q" "k \<noteq> k' \<Longrightarrow> get_queue k (set_queue k' q s) = get_queue k s"
  "sc_groups (set_queue k q s) = sc_groups s" "sc_finished_requests_ids (set_queue k q s) = sc_finished_requests_ids s"
  by (cases k; cases k'; simp)+

text \<open>The groups found in a queue and the ids still looked for, when ids are not repeated.\<close>

lemma abort_collect_filter:
  "distinct q \<Longrightarrow> inj_on (\<lambda>i. sg_request_id (gs i)) (set q) \<Longrightarrow>
     abort_collect gs ids q = (filter (\<lambda>i. sg_request_id (gs i) \<in> ids) q, ids - (\<lambda>i. sg_request_id (gs i)) ` set q)"
proof (induction q arbitrary: ids)
  case (Cons i q)
  have ih: "abort_collect gs ids' q = (filter (\<lambda>i. sg_request_id (gs i) \<in> ids') q, ids' - (\<lambda>i. sg_request_id (gs i)) ` set q)" for ids'
    using Cons by (simp add: inj_on_insert)
  have "filter (\<lambda>j. sg_request_id (gs j) \<in> ids - {sg_request_id (gs i)}) q = filter (\<lambda>j. sg_request_id (gs j) \<in> ids) q"
    using Cons.prems by (intro filter_cong) (auto simp: inj_on_insert image_iff)
  then show ?case using ih by auto
qed auto

lemma abort_list_effect:
  "foldE (\<lambda>i s. abort_group B i (set_queue k (remove1 i (get_queue k s)) s)) xs s = Inr s' \<Longrightarrow> distinct xs \<Longrightarrow>
     sc_groups s' = (\<lambda>j. if j \<in> set xs then aborted (sc_groups s j) else sc_groups s j) \<and>
     get_queue k s' = fold remove1 xs (get_queue k s) \<and> (\<forall>k'. k' \<noteq> k \<longrightarrow> get_queue k' s' = get_queue k' s) \<and>
     sc_finished_requests_ids s' = sc_finished_requests_ids s @ map (rid s) xs"
proof (induction xs arbitrary: s)
  case (Cons i xs)
  let ?s = "set_queue k (remove1 i (get_queue k s)) s"
  obtain t where t: "abort_group B i ?s = Inr t"
    "foldE (\<lambda>i s. abort_group B i (set_queue k (remove1 i (get_queue k s)) s)) xs t = Inr s'"
    using Cons.prems(1) by auto
  note a = abort_group_effect [OF t(1)]
  have r: "rid t = rid s" unfolding rid_def a(1) by auto
  have "rid ?s = rid s" by (simp add: rid_def fun_eq_iff)
  then show ?case using Cons.IH [OF t(2)] Cons.prems(2) a r by auto
qed auto

lemma fold_remove1: "distinct q \<Longrightarrow> fold remove1 xs q = filter (\<lambda>i. i \<notin> set xs) q"
proof (induction xs arbitrary: q)
  case (Cons x xs)
  then show ?case by (simp add: distinct_remove1_removeAll distinct_removeAll removeAll_filter_not_eq)
     (rule filter_cong, auto)
qed simp

lemma abort_queue_effect:
  assumes "abort_queue B k (ids, s) = Inr (ids', s')" "distinct (get_queue k s)" "inj_on (rid s) (set (get_queue k s))"
  shows "ids' = ids - rid s ` set (get_queue k s)" "rid s' = rid s"
    "sc_groups s' = (\<lambda>j. if j \<in> set (get_queue k s) \<and> rid s j \<in> ids then aborted (sc_groups s j) else sc_groups s j)"
    "get_queue k s' = filter (\<lambda>i. rid s i \<notin> ids) (get_queue k s)" "k' \<noteq> k \<Longrightarrow> get_queue k' s' = get_queue k' s"
    "sc_finished_requests_ids s' = sc_finished_requests_ids s @ map (rid s) (filter (\<lambda>i. rid s i \<in> ids) (get_queue k s))"
proof -
  let ?q = "get_queue k s" and ?xs = "filter (\<lambda>i. rid s i \<in> ids) (get_queue k s)"
  have c: "abort_collect (sc_groups s) ids ?q = (?xs, ids - rid s ` set ?q)"
    using abort_collect_filter [OF assms(2), of "sc_groups s" ids] assms(3) unfolding rid_def by simp
  then have f: "foldE (\<lambda>i s. abort_group B i (set_queue k (remove1 i (get_queue k s)) s)) ?xs s = Inr s'"
    and i: "ids' = ids - rid s ` set ?q" using assms(1) by (auto simp: abort_queue_def)
  note e = abort_list_effect [OF f distinct_filter [OF assms(2)]]
  show "ids' = ids - rid s ` set ?q" by (rule i)
  show g: "sc_groups s' = (\<lambda>j. if j \<in> set ?q \<and> rid s j \<in> ids then aborted (sc_groups s j) else sc_groups s j)"
    using e by simp
  show "rid s' = rid s" unfolding rid_def g by auto
  have "filter (\<lambda>i. i \<notin> set ?xs) ?q = filter (\<lambda>i. rid s i \<notin> ids) ?q" by (rule filter_cong) auto
  then show "get_queue k s' = filter (\<lambda>i. rid s i \<notin> ids) ?q" using e fold_remove1 [OF assms(2), of ?xs] by simp
  show "k' \<noteq> k \<Longrightarrow> get_queue k' s' = get_queue k' s"
    "sc_finished_requests_ids s' = sc_finished_requests_ids s @ map (rid s) ?xs" using e by blast+
qed

text \<open>
  C20. Aborting requests removes exactly their groups from the queues, keeping the order of the others,
  reports their ids (waiting, then running, then swapped) as finished, and marks their unfinished
  sequences as aborted; no other group changes.
\<close>

theorem abort_removes_exactly:
  assumes "abort_seq_group B ids s = Inr s'" "distinct (all_queued s)" "inj_on (rid s) (set (all_queued s))"
  shows "sc_waiting s' = filter (\<lambda>i. rid s i \<notin> ids) (sc_waiting s) \<and> sc_running s' = filter (\<lambda>i. rid s i \<notin> ids) (sc_running s) \<and>
    sc_swapped s' = filter (\<lambda>i. rid s i \<notin> ids) (sc_swapped s) \<and>
    sc_finished_requests_ids s' = sc_finished_requests_ids s @ map (rid s) (filter (\<lambda>i. rid s i \<in> ids) (all_queued s)) \<and>
    sc_groups s' = (\<lambda>j. if j \<in> set (all_queued s) \<and> rid s j \<in> ids then aborted (sc_groups s j) else sc_groups s j)"
proof -
  obtain i1 s1 i2 s2 i3 where a: "abort_queue B Waiting (ids, s) = Inr (i1, s1)" "abort_queue B Running (i1, s1) = Inr (i2, s2)"
    "abort_queue B Swapped (i2, s2) = Inr (i3, s')"
    using assms(1) unfolding abort_seq_group_def by auto
  let ?W = "sc_waiting s" and ?R = "sc_running s" and ?S = "sc_swapped s"
  have q: "distinct ?W" "distinct ?R" "distinct ?S" "set ?W \<inter> set ?R = {}" "set ?W \<inter> set ?S = {}" "set ?R \<inter> set ?S = {}"
    using assms(2) by (auto simp: all_queued_def)
  have inj: "inj_on (rid s) (set ?W)" "inj_on (rid s) (set ?R)" "inj_on (rid s) (set ?S)"
    using assms(3) by (auto simp: all_queued_def intro: inj_on_subset)
  have ne: "rid s i \<noteq> rid s j" if "i \<in> set (all_queued s)" "j \<in> set (all_queued s)" "i \<noteq> j" for i j
    using assms(3) that by (auto dest: inj_onD)
  note e1 = abort_queue_effect [OF a(1), simplified get_queue.simps, OF q(1) inj(1)]
  note k1 = e1(5) [of Running, simplified] e1(5) [of Swapped, simplified]
  note e2 = abort_queue_effect [OF a(2), simplified get_queue.simps k1 e1(2), OF q(2) inj(2)]
  note k2 = e2(5) [of Waiting, simplified] e2(5) [of Swapped, simplified]
  note e3 = abort_queue_effect [OF a(3), simplified get_queue.simps k1 k2 e1(2) e2(2), OF q(3) inj(3)]
  note k3 = e3(5) [of Waiting, simplified] e3(5) [of Running, simplified]
  have R: "rid s i \<in> i1 \<longleftrightarrow> rid s i \<in> ids" if "i \<in> set ?R" for i
    using that ne q(4) unfolding e1(1) all_queued_def by auto
  have S: "rid s i \<in> i2 \<longleftrightarrow> rid s i \<in> ids" if "i \<in> set ?S" for i
    using that ne q(5,6) unfolding e2(1) e1(1) all_queued_def by auto
  have fR: "filter (\<lambda>i. rid s i \<in> i1) ?R = filter (\<lambda>i. rid s i \<in> ids) ?R" "filter (\<lambda>i. rid s i \<notin> i1) ?R = filter (\<lambda>i. rid s i \<notin> ids) ?R"
    using R by (auto intro!: filter_cong)
  have fS: "filter (\<lambda>i. rid s i \<in> i2) ?S = filter (\<lambda>i. rid s i \<in> ids) ?S" "filter (\<lambda>i. rid s i \<notin> i2) ?S = filter (\<lambda>i. rid s i \<notin> ids) ?S"
    using S by (auto intro!: filter_cong)
  have "sc_groups s' = (\<lambda>j. if j \<in> set (all_queued s) \<and> rid s j \<in> ids then aborted (sc_groups s j) else sc_groups s j)"
    using R S q unfolding e3(3) e2(3) e1(3) all_queued_def by (auto simp: fun_eq_iff)
  then show ?thesis using e1(4,6) e2(4,6) e3(4,6) k1 k2 k3 fR fS by (simp add: all_queued_def)
qed

lemma ex_abort: "map_sum id (\<lambda>s. (sc_waiting s, sc_finished_requests_ids s)) (abort_seq_group embedding_ops {''a''} ex_sched) = Inr ([1], [''a''])"
  by code_simp

theorem abort_removes_exactly_witness:
  "\<exists>s'. abort_seq_group embedding_ops {''a''} ex_sched = Inr s' \<and> sc_waiting s' = [1] \<and> sg_is_finished (sc_groups s' 0)"
proof -
  obtain s' where s: "abort_seq_group embedding_ops {''a''} ex_sched = Inr s'" "sc_waiting s' = [1]"
    using ex_abort by (cases "abort_seq_group embedding_ops {''a''} ex_sched") auto
  have q: "all_queued ex_sched = [0, 1]" "rid ex_sched i = (if i = 0 then ''a'' else ''b'')" for i
    by (simp_all add: all_queued_def ex_sched_def add_seq_group_def scheduler_init_def rid_def ex_groups_def seq_group_init_def)
  have "distinct (all_queued ex_sched)" "inj_on (rid ex_sched) (set (all_queued ex_sched))" unfolding q by (simp_all add: q)
  from abort_removes_exactly [OF s(1) this] show ?thesis using s by (simp add: q)
qed

section \<open>Priority preemption of a group with several sequences\<close>

text \<open>
  Group 0 waits with the higher priority, group 1 runs two sequences (\<open>best_of = 2\<close>), and the limit is
  two sequences. Swapping group 1 out moves block 3 to block 7.
\<close>

definition prio_ops :: "unit manager_ops" where
  "prio_ops = roomy_ops\<lparr>bm_swap_out := \<lambda>_ b. Inr (Some [(3, 7)], b)\<rparr>"

definition prio_cfg :: "unit config" where
  "prio_cfg = ex_cfg\<lparr>cf_max_num_seqs := 2, cf_max_model_len := 8, cf_policy := ''priority''\<rparr>"

definition prio_groups :: "gid \<Rightarrow> seq_group" where
  "prio_groups i = (if i = 0 then (ex_groups 0)\<lparr>sg_priority := 0\<rparr> else (fork_groups 0)\<lparr>sg_priority := 1, sg_best_of := Some 2\<rparr>)"

definition prio_sched :: "unit scheduler" where
  "prio_sched = (scheduler_init prio_groups ())\<lparr>sc_waiting := [0], sc_running := [1]\<rparr>"

lemma prio_steps:
  "map_sum id (\<lambda>(out, s). (sc_waiting s, stat s 1, out_blocks_to_swap_out out,
       map_sum id (\<lambda>_. ()) (schedule_policy prio_ops prio_cfg (\<lambda>_. 2) s)))
     (schedule_policy prio_ops prio_cfg (\<lambda>_. 1) prio_sched) = Inr ([0, 1], [SWAPPED, SWAPPED], [], Inl AssertionError)"
  by code_simp

text \<open>
  Under the priority policy a running group with several sequences is preempted with the request to
  recompute it, but \<open>_preempt\<close> overrides the mode: the group is swapped out, put into the waiting queue
  with its sequences SWAPPED, the blocks to swap out are dropped from the outputs, and the next step
  fails with an assertion error when it meets the group in the waiting queue.
\<close>

lemma priority_preemption_breaks_scheduler:
  "\<exists>out s'. schedule_policy prio_ops prio_cfg (\<lambda>_. 1) prio_sched = Inr (out, s') \<and> sc_waiting s' = [0, 1] \<and>
     stat s' 1 = [SWAPPED, SWAPPED] \<and> out_blocks_to_swap_out out = [] \<and>
     schedule_policy prio_ops prio_cfg (\<lambda>_. 2) s' = Inl AssertionError"
proof -
  obtain out s' where o: "schedule_policy prio_ops prio_cfg (\<lambda>_. 1) prio_sched = Inr (out, s')"
    "sc_waiting s' = [0, 1]" "stat s' 1 = [SWAPPED, SWAPPED]" "out_blocks_to_swap_out out = []"
    "map_sum id (\<lambda>_. ()) (schedule_policy prio_ops prio_cfg (\<lambda>_. 2) s') = Inl AssertionError"
    using prio_steps by (cases "schedule_policy prio_ops prio_cfg (\<lambda>_. 1) prio_sched") auto
  then have "schedule_policy prio_ops prio_cfg (\<lambda>_. 2) s' = Inl AssertionError"
    by (cases "schedule_policy prio_ops prio_cfg (\<lambda>_. 2) s'") auto
  with o show ?thesis by blast
qed

end
