(* ===== verification/Sampling_Params.thy ===== *)
theory Sampling_Params
  imports Sequence
begin

text \<open>
  \<open>vllm/sampling_params.py\<close>: the parameters of a request, their validation and the derived fields.
  Guided decoding, logit biases and logits processors are passed on to the sampler and left out. A
  \<open>logprobs\<close> of \<open>True\<close> is the integer 1. The types rule out what the \<open>isinstance\<close> tests refuse.
\<close>

section \<open>Parameters\<close>

datatype output_kind = CUMULATIVE | DELTA | FINAL_ONLY

datatype sampling_type = GREEDY | RANDOM | RANDOM_SEED

datatype stop_arg = Stop_none | Stop_one py_text | Stop_many "py_text list"

record sampling_params =
  sp_n :: int
  sp_best_of :: "int option"
  sp_presence_penalty :: real
  sp_frequency_penalty :: real
  sp_repetition_penalty :: real
  sp_temperature :: real
  sp_top_p :: real
  sp_top_k :: int
  sp_min_p :: real
  sp_seed :: "int option"
  sp_stop :: stop_arg
  sp_stop_token_ids :: "token_id list option"
  sp_ignore_eos :: bool
  sp_max_tokens :: "int option"
  sp_min_tokens :: int
  sp_logprobs :: "int option"
  sp_prompt_logprobs :: "int option"
  sp_detokenize :: bool
  sp_skip_special_tokens :: bool
  sp_spaces_between_special_tokens :: bool
  sp_include_stop_str_in_output :: bool
  sp_truncate_prompt_tokens :: "int option"
  sp_output_kind :: output_kind
  sp_output_text_buffer_length :: nat
  sp_all_stop_token_ids :: "token_id set"

definition sampling_eps :: real where "sampling_eps = 1 / 100000"

definition max_temp :: real where "max_temp = 1 / 100"

text \<open>\<open>stop\<close> after \<open>__post_init__\<close>: a list.\<close>

fun stop_list :: "stop_arg \<Rightarrow> py_text list" where
  "stop_list Stop_none = []"
| "stop_list (Stop_one s) = [s]"
| "stop_list (Stop_many ss) = ss"

section \<open>Validation\<close>

definition verify_args :: "sampling_params \<Rightarrow> py_error + unit" where
  "verify_args p =
     bindE (raise_unless ValueError (sp_n p \<ge> 1)) (\<lambda>_.
     bindE (raise_unless ValueError (case sp_best_of p of None \<Rightarrow> False | Some b \<Rightarrow> sp_n p \<le> b)) (\<lambda>_.
     bindE (raise_unless ValueError (- 2 \<le> sp_presence_penalty p \<and> sp_presence_penalty p \<le> 2)) (\<lambda>_.
     bindE (raise_unless ValueError (- 2 \<le> sp_frequency_penalty p \<and> sp_frequency_penalty p \<le> 2)) (\<lambda>_.
     bindE (raise_unless ValueError (0 < sp_repetition_penalty p \<and> sp_repetition_penalty p \<le> 2)) (\<lambda>_.
     bindE (raise_unless ValueError (0 \<le> sp_temperature p)) (\<lambda>_.
     bindE (raise_unless ValueError (0 < sp_top_p p \<and> sp_top_p p \<le> 1)) (\<lambda>_.
     bindE (raise_unless ValueError (sp_top_k p \<ge> - 1 \<and> sp_top_k p \<noteq> 0)) (\<lambda>_.
     bindE (raise_unless ValueError (0 \<le> sp_min_p p \<and> sp_min_p p \<le> 1)) (\<lambda>_.
     bindE (raise_unless ValueError (pred_option (\<lambda>k. k \<ge> 1) (sp_max_tokens p))) (\<lambda>_.
     bindE (raise_unless ValueError (sp_min_tokens p \<ge> 0)) (\<lambda>_.
     bindE (raise_unless ValueError (pred_option (\<lambda>k. sp_min_tokens p \<le> k) (sp_max_tokens p))) (\<lambda>_.
     bindE (raise_unless ValueError (pred_option (\<lambda>k. k \<ge> 0) (sp_logprobs p))) (\<lambda>_.
     bindE (raise_unless ValueError (pred_option (\<lambda>k. k \<ge> 0) (sp_prompt_logprobs p))) (\<lambda>_.
     bindE (raise_unless ValueError (pred_option (\<lambda>k. k \<ge> 1) (sp_truncate_prompt_tokens p))) (\<lambda>_.
     bindE (raise_unless ValueError (list_all (\<lambda>s. s \<noteq> []) (stop_list (sp_stop p)))) (\<lambda>_.
     bindE (raise_unless ValueError (stop_list (sp_stop p) \<noteq> [] \<longrightarrow> sp_detokenize p)) (\<lambda>_.
     raise_unless ValueError (sp_best_of p \<noteq> Some (sp_n p) \<longrightarrow> sp_output_kind p \<noteq> DELTA))))))))))))))))))"

definition verify_greedy_sampling :: "sampling_params \<Rightarrow> py_error + unit" where
  "verify_greedy_sampling p =
     bindE (raise_unless ValueError (sp_n p \<le> 1)) (\<lambda>_.
     raise_unless ValueError (pred_option (\<lambda>b. b \<le> 1) (sp_best_of p)))"

text \<open>The fields that \<open>__post_init__\<close> sets before the first check.\<close>

definition normalize_params :: "sampling_params \<Rightarrow> sampling_params" where
  "normalize_params p =
     (let p = p\<lparr>sp_best_of := (case sp_best_of p of
                    None \<Rightarrow> Some (sp_n p) | Some b \<Rightarrow> if b = 0 then Some (sp_n p) else Some b),
                sp_temperature := (if 0 < sp_temperature p \<and> sp_temperature p < max_temp
                  then max (sp_temperature p) max_temp else sp_temperature p),
                sp_seed := (if sp_seed p = Some (- 1) then None else sp_seed p),
                sp_stop := Stop_many (stop_list (sp_stop p)),
                sp_stop_token_ids := Some (case sp_stop_token_ids p of None \<Rightarrow> [] | Some ts \<Rightarrow> ts)\<rparr>
      in if stop_list (sp_stop p) \<noteq> [] \<and> \<not> sp_include_stop_str_in_output p
         then p\<lparr>sp_output_text_buffer_length := Max (set (map length (stop_list (sp_stop p)))) - 1\<rparr> else p)"

definition post_init :: "sampling_params \<Rightarrow> py_error + sampling_params" where
  "post_init p0 =
     (let p = normalize_params p0 in
      bindE (verify_args p) (\<lambda>_.
      bindE (if sp_temperature p < sampling_eps
             then let p = p\<lparr>sp_top_p := 1, sp_top_k := - 1, sp_min_p := 0\<rparr>
                  in bindE (verify_greedy_sampling p) (\<lambda>_. Inr p)
             else Inr p) (\<lambda>p.
      Inr (p\<lparr>sp_all_stop_token_ids := set (the (sp_stop_token_ids p))\<rparr>))))"

text \<open>
  The engine adds the end-of-sequence tokens of the model. \<open>set_iter\<close> is the order in which a set is
  turned into a list.
\<close>

definition update_from_generation_config ::
  "(token_id set \<Rightarrow> token_id list) \<Rightarrow> token_id list option \<Rightarrow> token_id option \<Rightarrow> sampling_params \<Rightarrow> sampling_params" where
  "update_from_generation_config set_iter config_eos_ids model_eos_token_id p =
     (let p = (case model_eos_token_id of None \<Rightarrow> p
                | Some e \<Rightarrow> p\<lparr>sp_all_stop_token_ids := insert e (sp_all_stop_token_ids p)\<rparr>)
      in case config_eos_ids of
           None \<Rightarrow> p
         | Some ids \<Rightarrow>
             let eos_ids = (case model_eos_token_id of None \<Rightarrow> set ids | Some e \<Rightarrow> set ids - {e})
             in if eos_ids = {} then p
                else let p = p\<lparr>sp_all_stop_token_ids := sp_all_stop_token_ids p \<union> eos_ids\<rparr>
                     in if sp_ignore_eos p then p
                        else p\<lparr>sp_stop_token_ids := Some (set_iter (eos_ids \<union> set (the (sp_stop_token_ids p))))\<rparr>)"

definition get_sampling_type :: "sampling_params \<Rightarrow> sampling_type" where
  "get_sampling_type p =
     (if sp_temperature p < sampling_eps then GREEDY else if sp_seed p \<noteq> None then RANDOM_SEED else RANDOM)"

section \<open>Accepted parameters\<close>

text \<open>What the engine relies on for parameters that \<open>__post_init__\<close> accepted.\<close>

abbreviation stop_strings :: "sampling_params \<Rightarrow> py_text list" where
  "stop_strings p \<equiv> stop_list (sp_stop p)"

definition params_ok :: "sampling_params \<Rightarrow> bool" where
  "params_ok p \<longleftrightarrow>
     1 \<le> sp_n p \<and> (\<exists>b. sp_best_of p = Some b \<and> sp_n p \<le> b) \<and>
     0 \<le> sp_min_tokens p \<and> pred_option (\<lambda>k. 1 \<le> k \<and> sp_min_tokens p \<le> k) (sp_max_tokens p) \<and>
     [] \<notin> set (stop_strings p) \<and>
     (\<not> sp_include_stop_str_in_output p \<longrightarrow> (\<forall>s \<in> set (stop_strings p). length s \<le> sp_output_text_buffer_length p + 1))"

lemma verify_args_ok:
  assumes "verify_args p = Inr u"
  shows "1 \<le> sp_n p" "\<exists>b. sp_best_of p = Some b \<and> sp_n p \<le> b" "0 \<le> sp_min_tokens p"
    "pred_option (\<lambda>k. 1 \<le> k \<and> sp_min_tokens p \<le> k) (sp_max_tokens p)" "[] \<notin> set (stop_strings p)"
  using assms by (auto simp: verify_args_def list_all_iff pred_option_def split: option.splits)

lemma normalize_params_buffer:
  "\<not> sp_include_stop_str_in_output p \<Longrightarrow> s \<in> set (stop_strings (normalize_params p)) \<Longrightarrow>
     length s \<le> sp_output_text_buffer_length (normalize_params p) + 1"
proof -
  assume "\<not> sp_include_stop_str_in_output p" and s: "s \<in> set (stop_strings (normalize_params p))"
  moreover have "stop_strings (normalize_params p) = stop_strings p" by (simp add: normalize_params_def Let_def)
  ultimately have "sp_output_text_buffer_length (normalize_params p) = Max (set (map length (stop_strings p))) - 1"
    "length s \<le> Max (set (map length (stop_strings p)))"
    by (auto simp: normalize_params_def Let_def intro!: Max_ge)
  then show ?thesis by linarith
qed

lemma post_init_same:
  assumes "post_init p = Inr p'"
  shows "verify_args (normalize_params p) = Inr ()" "sp_n p' = sp_n (normalize_params p)"
    "sp_best_of p' = sp_best_of (normalize_params p)" "sp_min_tokens p' = sp_min_tokens (normalize_params p)"
    "sp_max_tokens p' = sp_max_tokens (normalize_params p)" "sp_stop p' = sp_stop (normalize_params p)"
    "sp_include_stop_str_in_output p' = sp_include_stop_str_in_output p"
    "sp_output_text_buffer_length p' = sp_output_text_buffer_length (normalize_params p)"
  using assms unfolding post_init_def Let_def
  by (auto split: if_splits simp: normalize_params_def [THEN arg_cong, of sp_include_stop_str_in_output] Let_def)

lemma post_init_ok: "post_init p = Inr p' \<Longrightarrow> params_ok p'"
  using verify_args_ok [OF post_init_same(1)] normalize_params_buffer [of p]
  by (auto simp: params_ok_def post_init_same)

section \<open>Accepted parameters are canonical\<close>

text \<open>The fields as \<open>__post_init__\<close> leaves them.\<close>

definition normal_params :: "sampling_params \<Rightarrow> bool" where
  "normal_params p \<longleftrightarrow>
     (\<exists>b. sp_best_of p = Some b \<and> b \<noteq> 0) \<and> (sp_temperature p \<le> 0 \<or> max_temp \<le> sp_temperature p) \<and>
     sp_seed p \<noteq> Some (- 1) \<and> (\<exists>ss. sp_stop p = Stop_many ss) \<and> sp_stop_token_ids p \<noteq> None \<and>
     (stop_strings p \<noteq> [] \<and> \<not> sp_include_stop_str_in_output p \<longrightarrow>
        sp_output_text_buffer_length p = Max (set (map length (stop_strings p))) - 1)"

lemma normalize_params_id: "normal_params p \<Longrightarrow> normalize_params p = p"
  by (cases p) (auto simp: normal_params_def normalize_params_def Let_def max_temp_def)

lemma normalize_params_normal:
  "sp_n p \<noteq> 0 \<Longrightarrow> normal_params (normalize_params p)"
  by (auto simp: normal_params_def normalize_params_def Let_def max_temp_def split: option.splits)

text \<open>
  C40. Parameters that \<open>__post_init__\<close> accepts are in range and in canonical form: the number of sequences and
  the limits are consistent, no stop string is empty and the text held back is long enough for each of them;
  the temperature is 0, with a single greedy sequence, or at least 1/100; and validating them again, as
  every copy of the parameters does, accepts and changes nothing.
\<close>

theorem accepted_parameters_are_canonical:
  assumes "post_init p = Inr p'"
  shows "params_ok p' \<and> post_init p' = Inr p' \<and>
    (sp_temperature p' = 0 \<and> sp_n p' = 1 \<and> sp_best_of p' = Some 1 \<and> sp_top_k p' = - 1 \<and> get_sampling_type p' = GREEDY \<or>
     1 / 100 \<le> sp_temperature p' \<and> get_sampling_type p' \<noteq> GREEDY)"
proof -
  define q where "q = normalize_params p"
  have v: "verify_args q = Inr ()" using post_init_same(1) [OF assms] by (simp add: q_def)
  note ok = verify_args_ok [OF v]
  have "sp_n q = sp_n p" by (simp add: q_def normalize_params_def Let_def)
  then have n: "normal_params q" using ok(1) normalize_params_normal [of p] by (simp add: q_def)
  define r where "r = (if sp_temperature q < sampling_eps then q\<lparr>sp_top_p := 1, sp_top_k := - 1, sp_min_p := 0\<rparr> else q)"
  have r: "p' = r\<lparr>sp_all_stop_token_ids := set (the (sp_stop_token_ids r))\<rparr>"
    and g: "sp_temperature q < sampling_eps \<Longrightarrow> verify_greedy_sampling r = Inr ()"
    using assms by (auto simp: post_init_def q_def [symmetric] r_def Let_def)
  have n': "normal_params p'" using n by (simp add: r r_def normal_params_def)
  have v': "verify_args p' = Inr ()"
    using v by (cases "sp_temperature q < sampling_eps") (simp_all add: r r_def verify_args_def split: option.splits)
  have t: "0 \<le> sp_temperature q" using v by (auto simp: verify_args_def)
  have small: "sp_temperature p' = sp_temperature q" by (simp add: r r_def)
  have again: "post_init p' = Inr p'"
  proof (cases "sp_temperature q < sampling_eps")
    case True
    then have "verify_greedy_sampling p' = Inr ()" using g by (simp add: r verify_greedy_sampling_def)
    moreover have "p'\<lparr>sp_top_p := 1, sp_top_k := - 1, sp_min_p := 0\<rparr> = p'" using True by (simp add: r r_def)
    ultimately show ?thesis using True v'
      by (simp add: post_init_def normalize_params_id [OF n'] Let_def small) (simp add: r r_def)
  next
    case False
    then show ?thesis using v' by (simp add: post_init_def normalize_params_id [OF n'] Let_def small) (simp add: r r_def)
  qed
  have "sp_temperature p' = 0 \<and> sp_n p' = 1 \<and> sp_best_of p' = Some 1 \<and> sp_top_k p' = - 1 \<and> get_sampling_type p' = GREEDY \<or>
     1 / 100 \<le> sp_temperature p' \<and> get_sampling_type p' \<noteq> GREEDY"
  proof (cases "sp_temperature q < sampling_eps")
    case True
    then have "sp_temperature q = 0" using n t by (auto simp: normal_params_def sampling_eps_def max_temp_def)
    moreover have "sp_n q \<le> 1" "\<And>b. sp_best_of q = Some b \<Longrightarrow> b \<le> 1"
      using g [OF True] True by (auto simp: verify_greedy_sampling_def r_def pred_option_def)
    ultimately show ?thesis using True ok(1,2) by (force simp: r r_def get_sampling_type_def)
  next
    case False
    then have "1 / 100 \<le> sp_temperature q" using n t by (auto simp: normal_params_def sampling_eps_def max_temp_def)
    then show ?thesis using False by (simp add: r r_def get_sampling_type_def)
  qed
  then show ?thesis using post_init_ok [OF assms] again by blast
qed

definition ex_greedy_args :: sampling_params where
  "ex_greedy_args = \<lparr>sp_n = 1, sp_best_of = None, sp_presence_penalty = 0,
     sp_frequency_penalty = 0, sp_repetition_penalty = 1, sp_temperature = 0, sp_top_p = 1 / 2, sp_top_k = 40, sp_min_p = 0,
     sp_seed = Some (- 1), sp_stop = Stop_one [120, 121], sp_stop_token_ids = None, sp_ignore_eos = False, sp_max_tokens = Some 4,
     sp_min_tokens = 0, sp_logprobs = None, sp_prompt_logprobs = None, sp_detokenize = True,
     sp_skip_special_tokens = True, sp_spaces_between_special_tokens = True, sp_include_stop_str_in_output = False,
     sp_truncate_prompt_tokens = None, sp_output_kind = DELTA, sp_output_text_buffer_length = 0, sp_all_stop_token_ids = {}\<rparr>"

theorem accepted_parameters_are_canonical_witness:
  "\<exists>p'. post_init ex_greedy_args = Inr p' \<and> params_ok p' \<and> post_init p' = Inr p' \<and> get_sampling_type p' = GREEDY"
proof -
  obtain p' where p': "post_init ex_greedy_args = Inr p'" "sp_temperature p' = 0"
    by (simp add: post_init_def normalize_params_def verify_args_def verify_greedy_sampling_def ex_greedy_args_def
        sampling_eps_def max_temp_def)
  then show ?thesis using accepted_parameters_are_canonical [OF p'(1)] by auto
qed

end
