(* ===== verification/Stop_Checker.thy ===== *)
theory Stop_Checker
  imports Sampling_Params
begin

text \<open>
  \<open>vllm/engine/output_processor/stop_checker.py\<close>: when a sequence stops, and how its text is cut then.
  A character count is a natural number; a Python index counts from the end when it is negative.
\<close>

section \<open>Searching text\<close>

text \<open>\<open>text.find(sub, start)\<close> of Python; \<open>None\<close> for the result -1.\<close>

fun find_from :: "nat \<Rightarrow> py_text \<Rightarrow> py_text \<Rightarrow> nat option" where
  "find_from i sub [] = (if sub = [] then Some i else None)"
| "find_from i sub (c # text) =
     (if take (length sub) (c # text) = sub then Some i else find_from (Suc i) sub text)"

definition str_find :: "py_text \<Rightarrow> py_text \<Rightarrow> int \<Rightarrow> nat option" where
  "str_find text sub start =
     (let k = nat (if start < 0 then max 0 (int (length text) + start) else start)
      in if k > length text then None else find_from k sub (drop k text))"

text \<open>\<open>text[:-n]\<close> for a positive \<open>n\<close>.\<close>

definition drop_last :: "nat \<Rightarrow> py_text \<Rightarrow> py_text" where
  "drop_last n text = take (length text - n) text"

section \<open>The checker\<close>

fun check_stop_strings :: "py_text list \<Rightarrow> nat \<Rightarrow> bool \<Rightarrow> sequence \<Rightarrow> py_text option \<times> sequence" where
  "check_stop_strings [] new_char_count include seq = (None, seq)"
| "check_stop_strings (stop_str # stops) new_char_count include seq =
     (let text = sq_output_text seq in
      case str_find text stop_str (- int new_char_count - int (length stop_str)) of
        None \<Rightarrow> check_stop_strings stops new_char_count include seq
      | Some stop_index \<Rightarrow>
          let stop_index = (if include then stop_index + length stop_str else stop_index)
          in if include \<and> stop_index \<ge> length text then (Some stop_str, seq)
             else (Some stop_str, seq\<lparr>sq_output_text := take stop_index text\<rparr>))"

definition check_stop :: "sampling_params \<Rightarrow> nat \<Rightarrow> sequence \<Rightarrow> py_text option \<times> sequence" where
  "check_stop p new_char_count seq =
     (if new_char_count = 0 then (None, seq)
      else check_stop_strings (stop_strings p) new_char_count (sp_include_stop_str_in_output p) seq)"

definition get_max_model_len :: "nat \<Rightarrow> lora_request option \<Rightarrow> nat" where
  "get_max_model_len max_model_len lora_req =
     (case lora_req of
        None \<Rightarrow> max_model_len
      | Some l \<Rightarrow> (case lr_long_lora_max_len l of None \<Rightarrow> max_model_len | Some n \<Rightarrow> if n = 0 then max_model_len else n))"

definition sq_get_output_len :: "sequence \<Rightarrow> nat" where
  "sq_get_output_len seq = sd_get_output_len (sq_data seq)"

text \<open>Remove the text of the last token unless it is to be shown.\<close>

definition remove_last_text :: "sampling_params \<Rightarrow> nat \<Rightarrow> sequence \<Rightarrow> sequence" where
  "remove_last_text p new_char_count seq =
     (if new_char_count \<noteq> 0 \<and> \<not> sp_include_stop_str_in_output p
      then seq\<lparr>sq_output_text := drop_last new_char_count (sq_output_text seq)\<rparr> else seq)"

definition maybe_stop_sequence ::
  "nat \<Rightarrow> nat \<Rightarrow> sampling_params \<Rightarrow> lora_request option \<Rightarrow> sequence \<Rightarrow> py_error + sequence" where
  "maybe_stop_sequence max_model_len new_char_count p lora_req seq =
     (if int (sq_get_output_len seq) < sp_min_tokens p then Inr seq
      else bindE (sd_get_last_token_id (sq_data seq)) (\<lambda>last_token_id.
        if \<not> sp_ignore_eos p \<and> Some last_token_id = sq_eos_token_id seq
        then Inr ((remove_last_text p new_char_count seq)\<lparr>sq_status := FINISHED_STOPPED\<rparr>)
        else if list_ex (\<lambda>t. t = last_token_id) (the (sp_stop_token_ids p))
        then Inr ((remove_last_text p new_char_count seq)\<lparr>sq_status := FINISHED_STOPPED,
                    sq_stop_reason := Some (Stop_token last_token_id)\<rparr>)
        else let (stop_str, seq) = check_stop p new_char_count seq in
          case stop_str of
            Some s \<Rightarrow> Inr (seq\<lparr>sq_status := FINISHED_STOPPED, sq_stop_reason := Some (Stop_string s)\<rparr>)
          | None \<Rightarrow>
              if sq_get_len seq > get_max_model_len max_model_len lora_req
              then Inr (seq\<lparr>sq_status := FINISHED_LENGTH_CAPPED\<rparr>)
              else if Some (int (sq_get_output_len seq)) = sp_max_tokens p
              then Inr (seq\<lparr>sq_status := FINISHED_LENGTH_CAPPED\<rparr>)
              else Inr seq))"

end
