(* ===== verification/Detokenizer.thy ===== *)
theory Detokenizer
  imports Sampling_Params
begin

text \<open>
  \<open>vllm/transformers_utils/detokenizer.py\<close>: the text of a sequence grows with each new token. The
  tokenizer is a library object: a parameter with the operations that the code calls.
\<close>

section \<open>Tokenizer\<close>

text \<open>
  \<open>tk_convert_ids_to_tokens\<close> takes \<open>skip_special_tokens\<close> first; an id without a token gives \<open>None\<close>.
  \<open>tk_added_vocab\<close> holds the keys of \<open>get_added_vocab()\<close>, \<open>tk_len\<close> is \<open>len(tokenizer)\<close>.
\<close>

record tokenizer =
  tk_convert_ids_to_tokens :: "bool \<Rightarrow> token_id list \<Rightarrow> py_text option list"
  tk_convert_tokens_to_string :: "py_text list \<Rightarrow> py_text"
  tk_len :: nat
  tk_is_fast :: bool
  tk_added_vocab :: "py_text list"
  tk_all_special_tokens :: "py_text list"
  tk_eos_token_id :: "token_id option"

definition invalid_token_id :: token_id where "invalid_token_id = - 1"

text \<open>The replacement character, which an unfinished byte sequence decodes to.\<close>

definition replacement_char :: int where "replacement_char = 65533"

definition ends_unfinished :: "py_text \<Rightarrow> bool" where
  "ends_unfinished text \<longleftrightarrow> text \<noteq> [] \<and> last text = replacement_char"

section \<open>Decoding tokens\<close>

text \<open>The loop over the tokens, with the texts so far and the tokens of the current part.\<close>

fun added_encoders_loop ::
  "tokenizer \<Rightarrow> bool \<Rightarrow> py_text list \<Rightarrow> py_text list \<Rightarrow> py_text list \<Rightarrow> py_text list" where
  "added_encoders_loop tk skip [] sub_texts current =
     (if current \<noteq> [] then sub_texts @ [tk_convert_tokens_to_string tk current] else sub_texts)"
| "added_encoders_loop tk skip (token # tokens) sub_texts current =
     (if skip \<and> list_ex (\<lambda>t. t = token) (tk_all_special_tokens tk)
      then added_encoders_loop tk skip tokens sub_texts current
      else if list_ex (\<lambda>t. t = token) (tk_added_vocab tk)
      then added_encoders_loop tk skip tokens
             ((if current \<noteq> [] then sub_texts @ [tk_convert_tokens_to_string tk current] else sub_texts) @ [token]) []
      else added_encoders_loop tk skip tokens sub_texts (current @ [token]))"

fun join_with :: "py_text \<Rightarrow> py_text list \<Rightarrow> py_text" where
  "join_with sep [] = []"
| "join_with sep [t] = t"
| "join_with sep (t # ts) = t @ sep @ join_with sep ts"

definition convert_tokens_to_string_with_added_encoders :: "tokenizer \<Rightarrow> py_text list \<Rightarrow> bool \<Rightarrow> bool \<Rightarrow> py_text" where
  "convert_tokens_to_string_with_added_encoders tk tokens skip spaces_between =
     join_with (if spaces_between then [32] else []) (added_encoders_loop tk skip tokens [] [])"

definition replace_none_with_empty :: "py_text option list \<Rightarrow> py_text list" where
  "replace_none_with_empty tokens = map (case_option [] id) tokens"

definition initial_offset :: nat where "initial_offset = 5"

definition convert_prompt_ids_to_tokens :: "tokenizer \<Rightarrow> token_id list \<Rightarrow> bool \<Rightarrow> py_text list \<times> nat \<times> nat" where
  "convert_prompt_ids_to_tokens tk prompt_ids skip =
     (let new_tokens = tk_convert_ids_to_tokens tk skip (drop (length prompt_ids - (initial_offset + 2)) prompt_ids);
          read_offset = length new_tokens;
          prefix_offset = read_offset - initial_offset
      in (replace_none_with_empty new_tokens, prefix_offset, read_offset))"

text \<open>The text of a list of tokens, by the method that fits the tokenizer.\<close>

definition tokens_text :: "tokenizer \<Rightarrow> bool \<Rightarrow> bool \<Rightarrow> py_text list \<Rightarrow> py_text" where
  "tokens_text tk skip spaces_between tokens =
     (if tk_is_fast tk \<or> tk_added_vocab tk = [] then tk_convert_tokens_to_string tk tokens
      else convert_tokens_to_string_with_added_encoders tk tokens skip spaces_between)"

definition new_token_strings :: "tokenizer \<Rightarrow> bool \<Rightarrow> token_id \<Rightarrow> py_error + py_text list" where
  "new_token_strings tk skip new_token_id =
     (if 0 \<le> new_token_id \<and> new_token_id < int (tk_len tk)
      then from_option TypeError (those (tk_convert_ids_to_tokens tk skip [new_token_id]))
      else Inr [[]])"

definition detokenize_incrementally ::
  "tokenizer \<Rightarrow> token_id list \<Rightarrow> py_text list option \<Rightarrow> nat \<Rightarrow> nat \<Rightarrow> bool \<Rightarrow> bool \<Rightarrow>
     py_error + (py_text list \<times> py_text \<times> nat \<times> nat)" where
  "detokenize_incrementally tk all_input_ids prev_tokens prefix_offset read_offset skip spaces_between =
     bindE (raise_unless IndexError (all_input_ids \<noteq> [])) (\<lambda>_.
     let is_first_iter = (prev_tokens = None);
         (prev, prefix_offset, read_offset) =
           (case prev_tokens of
              None \<Rightarrow> convert_prompt_ids_to_tokens tk (butlast all_input_ids) skip
            | Some prev \<Rightarrow> (prev, prefix_offset, read_offset))
     in bindE (new_token_strings tk skip (last all_input_ids)) (\<lambda>new_tokens.
        let output_tokens = prev @ new_tokens;
            new_tokens = (if is_first_iter then output_tokens else new_tokens);
            prefix_text = tokens_text tk skip spaces_between (drop prefix_offset (take read_offset output_tokens));
            new_text = tokens_text tk skip spaces_between (drop prefix_offset output_tokens)
        in if length new_text \<le> length prefix_text \<or> ends_unfinished new_text
           then Inr (new_tokens, [], prefix_offset, read_offset)
           else Inr (new_tokens, drop (length prefix_text) new_text, read_offset, length output_tokens)))"

section \<open>The detokenizer\<close>

text \<open>The texts of the candidates for the new token.\<close>

fun decode_logprobs ::
  "tokenizer \<Rightarrow> sampling_params \<Rightarrow> token_id list \<Rightarrow> token_id \<Rightarrow> py_text \<Rightarrow> sequence \<Rightarrow>
     (token_id \<times> logprob) list \<Rightarrow> py_error + (token_id \<times> logprob) list" where
  "decode_logprobs tk p previous generated new_text seq [] = Inr []"
| "decode_logprobs tk p previous generated new_text seq ((token_id, lp) # lps) =
     bindE (if token_id = generated then Inr (lp\<lparr>lp_decoded_token := Some new_text\<rparr>)
            else if lp_decoded_token lp = None \<and> token_id \<noteq> invalid_token_id
            then bindE (detokenize_incrementally tk (previous @ [token_id]) (sq_tokens seq) (sq_prefix_offset seq)
                          (sq_read_offset seq) (sp_skip_special_tokens p) (sp_spaces_between_special_tokens p))
                   (\<lambda>(_, text, _, _). Inr (lp\<lparr>lp_decoded_token := Some text\<rparr>))
            else Inr lp) (\<lambda>lp.
     bindE (decode_logprobs tk p previous generated new_text seq lps) (\<lambda>lps. Inr ((token_id, lp) # lps)))"

definition decode_sequence_inplace :: "tokenizer \<Rightarrow> sampling_params \<Rightarrow> sequence \<Rightarrow> py_error + (nat \<times> sequence)" where
  "decode_sequence_inplace tk p seq =
     (let all_input_ids = sd_get_token_ids (sq_data seq) in
      bindE (raise_unless IndexError (all_input_ids \<noteq> [])) (\<lambda>_.
      let seq = (if sq_tokens seq = None
                 then let (tokens, prefix_offset, read_offset) =
                            convert_prompt_ids_to_tokens tk (butlast all_input_ids) (sp_skip_special_tokens p)
                      in seq\<lparr>sq_tokens := Some tokens, sq_prefix_offset := prefix_offset, sq_read_offset := read_offset\<rparr>
                 else seq)
      in bindE (detokenize_incrementally tk all_input_ids (sq_tokens seq) (sq_prefix_offset seq) (sq_read_offset seq)
                  (sp_skip_special_tokens p) (sp_spaces_between_special_tokens p))
           (\<lambda>(new_tokens, new_text, prefix_offset, read_offset).
         bindE (raise_unless IndexError (sq_output_logprobs seq \<noteq> [])) (\<lambda>_.
         bindE (decode_logprobs tk p (butlast all_input_ids) (last all_input_ids) new_text seq
                  (last (sq_output_logprobs seq))) (\<lambda>logprobs.
         Inr (length new_text,
              seq\<lparr>sq_output_logprobs := butlast (sq_output_logprobs seq) @ [logprobs],
                  sq_tokens := map_option (\<lambda>ts. ts @ new_tokens) (sq_tokens seq),
                  sq_prefix_offset := prefix_offset, sq_read_offset := read_offset,
                  sq_output_text := sq_output_text seq @ new_text\<rparr>))))))"

text \<open>
  The log-probabilities of a prompt. \<open>pl_aliased\<close> says that \<open>next_iter_tokens\<close> and \<open>prev_tokens\<close> are the same
  list object: \<open>prev_tokens.extend(next_iter_tokens)\<close> then doubles both.
\<close>

record prompt_loop =
  pl_prefix_offset :: nat
  pl_read_offset :: nat
  pl_next_prefix_offset :: nat
  pl_next_read_offset :: nat
  pl_next_tokens :: "py_text list"
  pl_prev_tokens :: "py_text list option"
  pl_aliased :: bool

fun decode_prompt_position ::
  "tokenizer \<Rightarrow> sampling_params \<Rightarrow> token_id list \<Rightarrow> nat \<Rightarrow> (token_id \<times> logprob) list \<Rightarrow> prompt_loop \<Rightarrow>
     py_error + ((token_id \<times> logprob) list \<times> prompt_loop)" where
  "decode_prompt_position tk p all_ids pos [] st = Inr ([], st)"
| "decode_prompt_position tk p all_ids pos ((token_id, lp) # lps) st =
     bindE (if lp_decoded_token lp = None \<and> token_id \<noteq> invalid_token_id
            then bindE (detokenize_incrementally tk (take pos (butlast all_ids) @ [token_id]) (pl_prev_tokens st)
                          (pl_prefix_offset st) (pl_read_offset st) (sp_skip_special_tokens p)
                          (sp_spaces_between_special_tokens p)) (\<lambda>(new_tokens, new_text, new_prefix, new_read).
                 bindE (raise_unless IndexError (pos < length all_ids)) (\<lambda>_.
                 Inr (lp\<lparr>lp_decoded_token := Some new_text\<rparr>,
                      if token_id = all_ids ! pos
                      then st\<lparr>pl_next_prefix_offset := new_prefix, pl_next_read_offset := new_read,
                              pl_next_tokens := new_tokens, pl_aliased := False\<rparr> else st)))
            else Inr (lp, st)) (\<lambda>(lp, st).
     bindE (decode_prompt_position tk p all_ids pos lps st) (\<lambda>(lps, st). Inr ((token_id, lp) # lps, st)))"

definition advance_prompt_loop :: "prompt_loop \<Rightarrow> prompt_loop" where
  "advance_prompt_loop st =
     (let st = st\<lparr>pl_prefix_offset := pl_next_prefix_offset st, pl_read_offset := pl_next_read_offset st\<rparr> in
      case pl_prev_tokens st of
        None \<Rightarrow> st\<lparr>pl_prev_tokens := Some (pl_next_tokens st), pl_aliased := True\<rparr>
      | Some prev \<Rightarrow>
          let extended = prev @ pl_next_tokens st
          in if pl_aliased st then st\<lparr>pl_prev_tokens := Some extended, pl_next_tokens := extended\<rparr>
             else st\<lparr>pl_prev_tokens := Some extended\<rparr>)"

fun decode_prompt_positions ::
  "tokenizer \<Rightarrow> sampling_params \<Rightarrow> token_id list \<Rightarrow> nat \<Rightarrow> (token_id \<times> logprob) list option list \<Rightarrow> prompt_loop \<Rightarrow>
     py_error + (token_id \<times> logprob) list option list" where
  "decode_prompt_positions tk p all_ids pos [] st = Inr []"
| "decode_prompt_positions tk p all_ids pos (lps # rest) st =
     (case lps of
        None \<Rightarrow> bindE (decode_prompt_positions tk p all_ids (Suc pos) rest st) (\<lambda>rest. Inr (None # rest))
      | Some [] \<Rightarrow> bindE (decode_prompt_positions tk p all_ids (Suc pos) rest st) (\<lambda>rest. Inr (Some [] # rest))
      | Some lps \<Rightarrow>
          bindE (decode_prompt_position tk p all_ids pos lps st) (\<lambda>(lps, st).
          bindE (decode_prompt_positions tk p all_ids (Suc pos) rest (advance_prompt_loop st)) (\<lambda>rest.
          Inr (Some lps # rest))))"

definition decode_prompt_logprobs_inplace ::
  "tokenizer \<Rightarrow> sampling_params \<Rightarrow> seq_group \<Rightarrow> (token_id \<times> logprob) list option list \<Rightarrow> nat \<Rightarrow>
     py_error + (token_id \<times> logprob) list option list" where
  "decode_prompt_logprobs_inplace tk p g prompt_logprobs position_offset =
     (let seqs = sg_get_seqs None g in
      bindE (raise_unless IndexError (seqs \<noteq> [])) (\<lambda>_.
      decode_prompt_positions tk p (sd_get_token_ids (sq_data (hd seqs))) position_offset prompt_logprobs
        \<lparr>pl_prefix_offset = 0, pl_read_offset = 0, pl_next_prefix_offset = 0, pl_next_read_offset = 0,
         pl_next_tokens = [], pl_prev_tokens = None, pl_aliased = False\<rparr>))"

end
