(* ===== verification/Output_Processor.thy ===== *)
theory Output_Processor
  imports Stop_Checker Detokenizer Scheduler
begin

text \<open>
  \<open>vllm/engine/output_processor/single_step.py\<close> and \<open>multi_step.py\<close>: the tokens that the model returned
  are appended to the sequences of a group, turned into text and checked for stop conditions; sequences
  are forked and freed with the schedulers. A group is a value here: the caller holds it in its store.
\<close>

section \<open>Model output\<close>

record seq_output =
  so_parent_seq_id :: nat
  so_output_token :: token_id
  so_logprobs :: "(token_id \<times> logprob) list"

record group_output =
  go_samples :: "seq_output list"
  go_prompt_logprobs :: "(token_id \<times> logprob) list option list option"

text \<open>\<open>util.py\<close>: from [step][group] to [group][step].\<close>

definition create_output_by_sequence_group :: "group_output list list \<Rightarrow> nat \<Rightarrow> py_error + group_output list list" where
  "create_output_by_sequence_group outputs num_seq_groups =
     foldE (\<lambda>step acc. bindE (raise_unless IndexError (length step \<le> num_seq_groups)) (\<lambda>_.
              Inr (map2 (\<lambda>i outs. if i < length step then outs @ [step ! i] else outs) [0..<num_seq_groups] acc)))
       outputs (replicate num_seq_groups [])"

text \<open>
  What the processors hold: the tokenizer of a sequence (\<open>get_tokenizer_for_seq\<close>), whether there is a
  detokenizer, and the limit of the stop checker.
\<close>

record processor =
  pr_tokenizer :: "sequence \<Rightarrow> tokenizer"
  pr_has_detokenizer :: bool
  pr_max_model_len :: nat

text \<open>The group and the states that processing one group changes.\<close>

record 'b processing =
  ps_group :: seq_group
  ps_schedulers :: "'b scheduler list"
  ps_seq_counter :: nat

fun each_scheduler :: "('b scheduler \<Rightarrow> py_error + 'b scheduler) \<Rightarrow> 'b scheduler list \<Rightarrow> py_error + 'b scheduler list" where
  "each_scheduler f [] = Inr []"
| "each_scheduler f (s # ss) = bindE (f s) (\<lambda>s. bindE (each_scheduler f ss) (\<lambda>ss. Inr (s # ss)))"

definition free_in_schedulers :: "'b manager_ops \<Rightarrow> sequence \<Rightarrow> 'b processing \<Rightarrow> py_error + 'b processing" where
  "free_in_schedulers B seq st =
     bindE (each_scheduler (free_seq B seq) (ps_schedulers st)) (\<lambda>ss. Inr (st\<lparr>ps_schedulers := ss\<rparr>))"

definition fork_in_schedulers :: "'b manager_ops \<Rightarrow> sequence \<Rightarrow> sequence \<Rightarrow> 'b processing \<Rightarrow> py_error + 'b processing" where
  "fork_in_schedulers B parent child st =
     bindE (each_scheduler (fork_seq B parent child) (ps_schedulers st)) (\<lambda>ss. Inr (st\<lparr>ps_schedulers := ss\<rparr>))"

section \<open>Prompt log-probabilities\<close>

definition process_prompt_logprob ::
  "processor \<Rightarrow> sampling_params option \<Rightarrow> seq_group \<Rightarrow> group_output \<Rightarrow> py_error + seq_group" where
  "process_prompt_logprob P params g output =
     (case go_prompt_logprobs output of
        None \<Rightarrow> Inr g
      | Some lps \<Rightarrow>
          let fresh = (case sg_prompt_logprobs g of None \<Rightarrow> True | Some old \<Rightarrow> old = []);
              lps = (if fresh then None # lps else lps);
              old = (if fresh then [] else the (sg_prompt_logprobs g))
          in bindE (from_option AttributeError params) (\<lambda>p.
             bindE (if sp_detokenize p \<and> pr_has_detokenizer P
                    then bindE (raise_unless IndexError (sg_get_seqs None g \<noteq> [])) (\<lambda>_.
                         decode_prompt_logprobs_inplace (pr_tokenizer P (hd (sg_get_seqs None g))) p g lps (length old))
                    else Inr lps) (\<lambda>lps.
             Inr (g\<lparr>sg_prompt_logprobs := Some (old @ lps)\<rparr>))))"

definition process_prompt_logprob_single ::
  "processor \<Rightarrow> sampling_params option \<Rightarrow> group_output list \<Rightarrow> seq_group \<Rightarrow> py_error + seq_group" where
  "process_prompt_logprob_single P params outputs g =
     bindE (py_assert (length outputs = 1)) (\<lambda>_. process_prompt_logprob P params g (hd outputs))"

definition process_prompt_logprob_multi ::
  "processor \<Rightarrow> sampling_params option \<Rightarrow> group_output list \<Rightarrow> seq_group \<Rightarrow> py_error + seq_group" where
  "process_prompt_logprob_multi P params outputs g = foldE (\<lambda>output g. process_prompt_logprob P params g output) outputs g"

section \<open>One token for each sequence\<close>

definition decode_and_stop ::
  "processor \<Rightarrow> sampling_params \<Rightarrow> lora_request option \<Rightarrow> sequence \<Rightarrow> py_error + sequence" where
  "decode_and_stop P p lora_req seq =
     bindE (if sp_detokenize p \<and> pr_has_detokenizer P then decode_sequence_inplace (pr_tokenizer P seq) p seq
            else Inr (0, seq)) (\<lambda>(new_char_count, seq).
     maybe_stop_sequence (pr_max_model_len P) new_char_count p lora_req seq)"

definition append_sample :: "seq_output \<Rightarrow> sequence \<Rightarrow> py_error + sequence" where
  "append_sample sample seq = sq_append_token_id (so_output_token sample) (so_logprobs sample) seq"

definition put_seq :: "sequence \<Rightarrow> seq_group \<Rightarrow> seq_group" where
  "put_seq seq g = g\<lparr>sg_seqs := map (\<lambda>s. if sq_seq_id s = sq_seq_id seq then seq else s) (sg_seqs g)\<rparr>"

text \<open>The samples of one parent: the new sequences, the parent last, and the counter.\<close>

fun fork_samples :: "sequence \<Rightarrow> seq_output list \<Rightarrow> nat \<Rightarrow> py_error + (sequence list \<times> nat)" where
  "fork_samples parent [] counter = Inr ([], counter)"
| "fork_samples parent [sample] counter = bindE (append_sample sample parent) (\<lambda>s. Inr ([s], counter))"
| "fork_samples parent (sample # samples) counter =
     bindE (append_sample sample (sq_fork counter parent)) (\<lambda>child.
     bindE (fork_samples parent samples (Suc counter)) (\<lambda>(ss, counter). Inr (child # ss, counter)))"

text \<open>
  The loop over the running parents. It yields the list \<open>child_seqs\<close>, each sequence with the id of its
  parent. A parent without samples is aborted, removed and freed.
\<close>

fun process_parents ::
  "'b manager_ops \<Rightarrow> seq_output list \<Rightarrow> sequence list \<Rightarrow> 'b processing \<Rightarrow> py_error + ((sequence \<times> nat) list \<times> 'b processing)" where
  "process_parents B samples [] st = Inr ([], st)"
| "process_parents B samples (parent # parents) st =
     (let own = filter (\<lambda>s. so_parent_seq_id s = sq_seq_id parent) samples in
      if own = []
      then bindE (sg_remove (sq_seq_id parent) (ps_group st)) (\<lambda>g.
           bindE (free_in_schedulers B (parent\<lparr>sq_status := FINISHED_ABORTED\<rparr>) (st\<lparr>ps_group := g\<rparr>)) (\<lambda>st.
           process_parents B samples parents st))
      else bindE (fork_samples parent own (ps_seq_counter st)) (\<lambda>(ss, counter).
           let st = st\<lparr>ps_seq_counter := counter, ps_group := put_seq (last ss) (ps_group st)\<rparr> in
           bindE (process_parents B samples parents st) (\<lambda>(rest, st).
           Inr (map (\<lambda>s. (s, sq_seq_id parent)) ss @ rest, st))))"

fun decode_children ::
  "processor \<Rightarrow> sampling_params \<Rightarrow> lora_request option \<Rightarrow> (sequence \<times> nat) list \<Rightarrow> py_error + (sequence \<times> nat) list" where
  "decode_children P p lora_req [] = Inr []"
| "decode_children P p lora_req ((s, i) # cs) =
     bindE (decode_and_stop P p lora_req s) (\<lambda>s.
     bindE (decode_children P p lora_req cs) (\<lambda>cs. Inr ((s, i) # cs)))"

text \<open>A child is added to the group, and forked in the block manager unless it is finished.\<close>

definition add_child :: "'b manager_ops \<Rightarrow> (sequence \<times> nat) \<Rightarrow> 'b processing \<Rightarrow> py_error + 'b processing" where
  "add_child B c st =
     (case c of (s, parent_id) \<Rightarrow>
        if sq_seq_id s = parent_id then Inr st
        else bindE (sg_add s (ps_group st)) (\<lambda>g.
             if sq_is_finished s then Inr (st\<lparr>ps_group := g\<rparr>)
             else bindE (sg_find parent_id g) (\<lambda>parent. fork_in_schedulers B parent s (st\<lparr>ps_group := g\<rparr>))))"

definition free_finished_parent :: "'b manager_ops \<Rightarrow> (sequence \<times> nat) \<Rightarrow> 'b processing \<Rightarrow> py_error + 'b processing" where
  "free_finished_parent B c st =
     (case c of (s, parent_id) \<Rightarrow>
        if sq_seq_id s = parent_id \<and> sq_is_finished s then free_in_schedulers B s st else Inr st)"

definition process_sequence_group_outputs ::
  "'b manager_ops \<Rightarrow> processor \<Rightarrow> sampling_params option \<Rightarrow> group_output \<Rightarrow> bool \<Rightarrow> 'b processing \<Rightarrow> py_error + 'b processing" where
  "process_sequence_group_outputs B P params outputs is_async st =
     (let g = ps_group st in
      case params of
        None \<Rightarrow> bindE (raise_unless IndexError (sg_seqs g \<noteq> [])) (\<lambda>_. free_in_schedulers B (hd (sg_seqs g)) st)
      | Some p \<Rightarrow>
          if sp_best_of p = Some 1
          then bindE (raise_unless IndexError (go_samples outputs \<noteq> [] \<and> sg_seqs g \<noteq> [])) (\<lambda>_.
               bindE (if is_async then Inr (hd (sg_seqs g))
                      else append_sample (hd (go_samples outputs)) (hd (sg_seqs g))) (\<lambda>seq.
               bindE (decode_and_stop P p (sg_lora_request g) seq) (\<lambda>seq.
               let st = st\<lparr>ps_group := g\<lparr>sg_seqs := seq # tl (sg_seqs g)\<rparr>\<rparr> in
               if sq_is_finished seq then free_in_schedulers B seq st else Inr st)))
          else bindE (py_assert (\<not> is_async)) (\<lambda>_.
               bindE (process_parents B (go_samples outputs) (sg_get_seqs (Some RUNNING) g) st) (\<lambda>(children, st).
               bindE (decode_children P p (sg_lora_request g) children) (\<lambda>children.
               let st = st\<lparr>ps_group := fold (\<lambda>(s, i). if sq_seq_id s = i then put_seq s else id) children (ps_group st)\<rparr> in
               bindE (foldE (add_child B) children st) (\<lambda>st.
               foldE (free_finished_parent B) children st)))))"

definition process_outputs ::
  "'b manager_ops \<Rightarrow> processor \<Rightarrow> sampling_params option \<Rightarrow> group_output list \<Rightarrow> bool \<Rightarrow> 'b processing \<Rightarrow> py_error + 'b processing" where
  "process_outputs B P params outputs is_async st =
     bindE (py_assert (length outputs = 1)) (\<lambda>_. process_sequence_group_outputs B P params (hd outputs) is_async st)"

section \<open>Several tokens for one sequence\<close>

text \<open>The multi-step processor decodes whenever \<open>detokenize\<close> is set, and knows no LoRA.\<close>

definition process_decode_and_stop :: "processor \<Rightarrow> sampling_params \<Rightarrow> sequence \<Rightarrow> py_error + sequence" where
  "process_decode_and_stop P p seq =
     bindE (if sp_detokenize p then decode_sequence_inplace (pr_tokenizer P seq) p seq else Inr (0, seq))
       (\<lambda>(new_char_count, seq). maybe_stop_sequence (pr_max_model_len P) new_char_count p None seq)"

text \<open>\<open>max_tokens\<close> cuts the list with a negative index; then the list ends with its first end-of-sequence token.\<close>

definition truncate_max_tokens :: "int \<Rightarrow> nat \<Rightarrow> token_id list \<Rightarrow> token_id list" where
  "truncate_max_tokens max_tokens output_len ids =
     (let remaining_tokens = max_tokens - (int output_len + int (length ids))
      in if remaining_tokens < 0 then take (length ids - nat (- remaining_tokens)) ids else ids)"

fun truncate_after_eos :: "token_id option \<Rightarrow> token_id list \<Rightarrow> token_id list" where
  "truncate_after_eos eos [] = []"
| "truncate_after_eos eos (t # ts) = (if Some t = eos then [t] else t # truncate_after_eos eos ts)"

fun append_tokens ::
  "processor \<Rightarrow> sampling_params \<Rightarrow> (token_id \<times> (token_id \<times> logprob) list) list \<Rightarrow> bool \<Rightarrow> sequence \<Rightarrow> py_error + sequence" where
  "append_tokens P p [] is_prefill seq = Inr seq"
| "append_tokens P p ((t, lps) # rest) is_prefill seq =
     bindE (sq_append_token_id t lps seq) (\<lambda>seq.
     bindE (if is_prefill then Inr seq
            else bindE (sd_update_num_computed_tokens 1 (sq_data seq)) (\<lambda>d. Inr (seq\<lparr>sq_data := d\<rparr>))) (\<lambda>seq.
     bindE (process_decode_and_stop P p seq) (\<lambda>seq.
     if sq_is_finished seq then Inr seq else append_tokens P p rest False seq)))"

definition process_seq_outputs :: "processor \<Rightarrow> sampling_params \<Rightarrow> seq_output list \<Rightarrow> sequence \<Rightarrow> py_error + sequence" where
  "process_seq_outputs P p valid_samples seq =
     (let ids = map so_output_token valid_samples;
          logprobs = map so_logprobs valid_samples in
      bindE (from_option TypeError (sp_max_tokens p)) (\<lambda>max_tokens.
      let ids = truncate_max_tokens max_tokens (sq_get_output_len seq) ids;
          ids = (if sp_ignore_eos p then ids else truncate_after_eos (tk_eos_token_id (pr_tokenizer P seq)) ids)
      in append_tokens P p (zip ids logprobs) (sd_get_num_uncomputed_tokens (sq_data seq) = 0) seq))"

definition process_outputs_multi ::
  "processor \<Rightarrow> sampling_params \<Rightarrow> group_output list \<Rightarrow> bool \<Rightarrow> seq_group \<Rightarrow> py_error + seq_group" where
  "process_outputs_multi P p outputs is_async g =
     (let seqs = sg_get_seqs (Some RUNNING) g in
      bindE (py_assert (seqs \<noteq> [])) (\<lambda>_.
      bindE (py_assert (length seqs = 1)) (\<lambda>_.
      let seq = hd seqs in
      bindE (raise_unless IndexError (list_all (\<lambda>out. go_samples out \<noteq> []) outputs)) (\<lambda>_.
      bindE (py_assert (list_all (\<lambda>out. sq_seq_id seq = so_parent_seq_id (hd (go_samples out))) outputs)) (\<lambda>_.
      bindE (if is_async then process_decode_and_stop P p seq
             else let valid_samples = filter (\<lambda>s. so_output_token s \<noteq> invalid_token_id)
                                        (map (\<lambda>out. hd (go_samples out)) outputs) in
                  bindE (py_assert (valid_samples \<noteq> [])) (\<lambda>_. process_seq_outputs P p valid_samples seq)) (\<lambda>seq.
      Inr (put_seq seq g)))))))"

end
