(* ===== verification/Streaming.thy ===== *)
theory Streaming
  imports Output_Processor "HOL-Library.Sublist"
begin

text \<open>
  The text that a client sees while a sequence is generated: what the stop checker finds, what it cuts,
  and why no text that was sent is taken back.
\<close>

section \<open>Searching\<close>

definition occurs_at :: "py_text \<Rightarrow> py_text \<Rightarrow> nat \<Rightarrow> bool" where
  "occurs_at sub t k \<longleftrightarrow> k \<le> length t \<and> take (length sub) (drop k t) = sub"

lemma occurs_at_bound: "occurs_at sub t k \<Longrightarrow> k + length sub \<le> length t"
  by (auto simp: occurs_at_def dest!: arg_cong [of _ _ length])

lemma sublist_occurs: "sublist sub t \<longleftrightarrow> (\<exists>k. occurs_at sub t k)"
proof
  assume "sublist sub t"
  then obtain ps ss where "t = ps @ sub @ ss" by (auto simp: sublist_def)
  then show "\<exists>k. occurs_at sub t k" by (intro exI [of _ "length ps"]) (simp add: occurs_at_def)
next
  assume "\<exists>k. occurs_at sub t k"
  then obtain k where "take (length sub) (drop k t) = sub" by (auto simp: occurs_at_def)
  then have "t = take k t @ sub @ drop (length sub) (drop k t)"
    by (metis append_take_drop_id)
  then show "sublist sub t" by (metis sublist_appendI)
qed

lemma occurs_at_append: "k + length sub \<le> length t \<Longrightarrow> occurs_at sub (t @ new) k \<longleftrightarrow> occurs_at sub t k"
  by (auto simp: occurs_at_def)

lemma find_from_Some: "find_from i sub t = Some k \<Longrightarrow> i \<le> k \<and> occurs_at sub t (k - i)"
proof (induction i sub t rule: find_from.induct)
  case (2 i sub c t)
  show ?case
  proof (cases "take (length sub) (c # t) = sub")
    case False
    then have "Suc i \<le> k \<and> occurs_at sub t (k - Suc i)" using 2 by simp
    moreover from this have "k - i = Suc (k - Suc i)" by linarith
    ultimately show ?thesis by (simp add: occurs_at_def)
  qed (use 2 in \<open>auto simp: occurs_at_def\<close>)
qed (auto simp: occurs_at_def split: if_splits)

lemma find_from_None: "find_from i sub t = None \<Longrightarrow> \<not> occurs_at sub t j"
proof (induction i sub t arbitrary: j rule: find_from.induct)
  case (2 i sub c t)
  then have "take (length sub) (c # t) \<noteq> sub" "\<not> occurs_at sub t (j - 1)" by (auto split: if_splits)
  then show ?case by (cases j) (auto simp: occurs_at_def)
qed (auto simp: occurs_at_def split: if_splits)

text \<open>The window of the stop checker: the new characters and as many characters before them as the stop string has.\<close>

lemma str_find_window:
  "sub \<noteq> [] \<Longrightarrow> str_find (t @ new) sub (- int (length new) - int (length sub)) =
     find_from (length t - length sub) sub (drop (length t - length sub) (t @ new))"
proof -
  assume "sub \<noteq> []"
  then have less: "- int (length new) - int (length sub) < 0" by (cases sub) auto
  have "nat (max 0 (int (length (t @ new)) + (- int (length new) - int (length sub)))) = length t - length sub"
    by simp
  moreover have "length t - length sub \<le> length (t @ new)" by simp
  ultimately show ?thesis unfolding str_find_def Let_def if_P [OF less] by (simp del: length_append)
qed

lemma str_find_window_Some:
  assumes "sub \<noteq> []" "str_find (t @ new) sub (- int (length new) - int (length sub)) = Some k"
  shows "occurs_at sub (t @ new) k \<and> length t - length sub \<le> k"
  using find_from_Some [OF assms(2) [unfolded str_find_window [OF assms(1)]]]
  by (auto simp: occurs_at_def add.commute)

lemma str_find_window_None:
  assumes "sub \<noteq> []" "str_find (t @ new) sub (- int (length new) - int (length sub)) = None" "\<not> sublist sub t"
  shows "\<not> sublist sub (t @ new)"
proof
  assume "sublist sub (t @ new)"
  then obtain k where k: "occurs_at sub (t @ new) k" by (auto simp: sublist_occurs)
  show False
  proof (cases "k < length t - length sub")
    case True
    then have "occurs_at sub t k" using k occurs_at_append [of k sub t new] by simp
    then show False using assms(3) sublist_occurs by blast
  next
    case False
    then have "occurs_at sub (drop (length t - length sub) (t @ new)) (k - (length t - length sub))"
      using k by (auto simp: occurs_at_def)
    then show False using find_from_None [OF assms(2) [unfolded str_find_window [OF assms(1)]]] by blast
  qed
qed

section \<open>Stopping\<close>

lemma check_stop_strings_None:
  assumes "check_stop_strings stops (length new) include seq = (None, seq')" "[] \<notin> set stops"
    "sq_output_text seq = t @ new" "\<forall>s \<in> set stops. \<not> sublist s t"
  shows "seq' = seq \<and> (\<forall>s \<in> set stops. \<not> sublist s (t @ new))"
  using assms by (induction stops) (auto simp: Let_def str_find_window_None split: option.splits if_splits)

lemma same_text: "sq_output_text seq = u \<Longrightarrow> seq\<lparr>sq_output_text := u\<rparr> = seq"
  by (cases seq) simp

text \<open>A cut never reaches text that was already there, apart from the held-back end.\<close>

lemma check_stop_strings_Some:
  assumes "check_stop_strings stops (length new) include seq = (Some s, seq')" "[] \<notin> set stops"
    "sq_output_text seq = t @ new" "\<forall>s \<in> set stops. \<not> sublist s t"
  shows "\<exists>k. seq' = seq\<lparr>sq_output_text := take k (t @ new)\<rparr> \<and> s \<in> set stops \<and>
    (if include then length t < k else length t < k + length s)"
  using assms
proof (induction stops)
  case (Cons stop stops)
  have ne: "stop \<noteq> []" using Cons.prems(2) by auto
  show ?case
  proof (cases "str_find (t @ new) stop (- int (length new) - int (length stop))")
    case None
    then show ?thesis using Cons by (auto simp: Let_def)
  next
    case (Some k)
    then have occ: "occurs_at stop (t @ new) k" using str_find_window_Some [OF ne] by blast
    have "length t < k + length stop"
    proof (rule ccontr)
      assume "\<not> length t < k + length stop"
      then have "occurs_at stop t k" using occ occurs_at_append [of k stop t new] by simp
      then show False using Cons.prems(4) sublist_occurs by auto
    qed
    with Some Cons.prems(1,3) occurs_at_bound [OF occ] show ?thesis
      by (cases "include")
        (auto simp: Let_def same_text split: if_splits intro!: exI [of _ "if include then k + length stop else k"])
  qed
qed simp

text \<open>What \<open>maybe_stop_sequence\<close> does to a sequence whose text has just grown by \<open>new\<close>.\<close>

definition unstopped :: "sampling_params \<Rightarrow> py_text \<Rightarrow> bool" where
  "unstopped p t \<longleftrightarrow> (\<forall>s \<in> set (stop_strings p). \<not> sublist s t)"

definition same_tracking :: "sequence \<Rightarrow> sequence \<Rightarrow> bool" where
  "same_tracking s s' \<longleftrightarrow> sq_data s' = sq_data s \<and> sq_last_output_text_offset s' = sq_last_output_text_offset s \<and>
     sq_seq_id s' = sq_seq_id s \<and> sq_eos_token_id s' = sq_eos_token_id s"

text \<open>\<open>cut_ok\<close>: a text that a stop condition may leave of \<open>t @ new\<close>.\<close>

definition cut_ok :: "sampling_params \<Rightarrow> py_text \<Rightarrow> py_text \<Rightarrow> py_text \<Rightarrow> bool" where
  "cut_ok p t new t' \<longleftrightarrow> prefix t' (t @ new) \<and>
     (if sp_include_stop_str_in_output p then length t \<le> length t'
      else length t \<le> length t' + sp_output_text_buffer_length p)"

lemma cut_ok_remove_last:
  "sq_output_text seq = t @ new \<Longrightarrow> cut_ok p t new (sq_output_text (remove_last_text p (length new) seq))"
  by (auto simp: cut_ok_def remove_last_text_def drop_last_def)

lemma cut_ok_all: "cut_ok p t new (t @ new)"
  by (simp add: cut_ok_def)

lemma check_stop_None:
  assumes "check_stop p (length new) seq = (None, seq')" "params_ok p" "sq_output_text seq = t @ new" "unstopped p t"
  shows "seq' = seq" "unstopped p (t @ new)"
proof -
  have ne: "[] \<notin> set (stop_strings p)" using assms(2) by (simp add: params_ok_def)
  show "seq' = seq" "unstopped p (t @ new)"
    using assms check_stop_strings_None [of "stop_strings p" new, OF _ ne assms(3)]
    by (auto simp: check_stop_def unstopped_def split: if_splits)
qed

lemma check_stop_Some:
  assumes "check_stop p (length new) seq = (Some s, seq')" "params_ok p" "sq_output_text seq = t @ new" "unstopped p t"
  shows "\<exists>u. seq' = seq\<lparr>sq_output_text := u\<rparr> \<and> cut_ok p t new u"
proof -
  have ne: "[] \<notin> set (stop_strings p)" using assms(2) by (simp add: params_ok_def)
  have run: "check_stop_strings (stop_strings p) (length new) (sp_include_stop_str_in_output p) seq = (Some s, seq')"
    using assms(1) by (simp add: check_stop_def split: if_splits)
  from check_stop_strings_Some [OF run ne assms(3)] assms(4) obtain k where
    k: "seq' = seq\<lparr>sq_output_text := take k (t @ new)\<rparr>" "s \<in> set (stop_strings p)"
      "if sp_include_stop_str_in_output p then length t < k else length t < k + length s"
    by (auto simp: unstopped_def)
  have "\<not> sp_include_stop_str_in_output p \<Longrightarrow> length s \<le> sp_output_text_buffer_length p + 1"
    using assms(2) k(2) by (simp add: params_ok_def)
  then have "cut_ok p t new (take k (t @ new))" using k(3)
    by (auto simp: cut_ok_def take_is_prefix simp del: take_append split: if_splits)
  then show ?thesis using k(1) by blast
qed

lemma maybe_stop_effect:
  assumes run: "maybe_stop_sequence max_len (length new) p lora seq = Inr seq'"
    and t: "sq_output_text seq = t @ new" "unstopped p t" and p: "params_ok p"
    and long: "sp_min_tokens p \<le> int (sq_get_output_len seq)" and fresh: "\<not> sq_is_finished seq"
  shows "same_tracking seq seq' \<and>
    (if sq_is_finished seq' then cut_ok p t new (sq_output_text seq')
     else sq_output_text seq' = t @ new \<and> unstopped p (t @ new) \<and> Some (int (sq_get_output_len seq)) \<noteq> sp_max_tokens p)"
proof -
  obtain last_id where last_id: "sd_get_last_token_id (sq_data seq) = Inr last_id"
    using run long by (auto simp: maybe_stop_sequence_def)
  have fin: "status_is_finished FINISHED_STOPPED" "status_is_finished FINISHED_LENGTH_CAPPED"
    by (simp_all add: status_is_finished_def)
  have rem: "same_tracking seq (remove_last_text p (length new) seq)" by (simp add: remove_last_text_def same_tracking_def)
  obtain so seq1 where c: "check_stop p (length new) seq = (so, seq1)" by (cases "check_stop p (length new) seq")
  consider (token) "\<not> sp_ignore_eos p \<and> Some last_id = sq_eos_token_id seq \<or> list_ex (\<lambda>t. t = last_id) (the (sp_stop_token_ids p))"
    | (str) s where "so = Some s"
        "\<not> (\<not> sp_ignore_eos p \<and> Some last_id = sq_eos_token_id seq \<or> list_ex (\<lambda>t. t = last_id) (the (sp_stop_token_ids p)))"
    | (rest) "so = None"
        "\<not> (\<not> sp_ignore_eos p \<and> Some last_id = sq_eos_token_id seq \<or> list_ex (\<lambda>t. t = last_id) (the (sp_stop_token_ids p)))"
    by blast
  then show ?thesis
  proof cases
    case token
    then have "seq' = (remove_last_text p (length new) seq)\<lparr>sq_status := FINISHED_STOPPED\<rparr> \<or>
      seq' = (remove_last_text p (length new) seq)\<lparr>sq_status := FINISHED_STOPPED, sq_stop_reason := Some (Stop_token last_id)\<rparr>"
      using run long last_id unfolding maybe_stop_sequence_def by (simp split: if_splits)
    then show ?thesis using cut_ok_remove_last [OF t(1), of p] rem fin
      by (elim disjE) (simp_all add: sq_is_finished_def same_tracking_def)
  next
    case str
    then obtain u where "seq1 = seq\<lparr>sq_output_text := u\<rparr>" "cut_ok p t new u" using check_stop_Some c p t by blast
    moreover have "seq' = seq1\<lparr>sq_status := FINISHED_STOPPED, sq_stop_reason := Some (Stop_string s)\<rparr>"
      using run long last_id c str unfolding maybe_stop_sequence_def by (simp split: if_splits)
    ultimately show ?thesis using fin by (simp add: sq_is_finished_def same_tracking_def)
  next
    case rest
    then have "seq1 = seq" "unstopped p (t @ new)" using check_stop_None [OF _ p t] c by auto
    moreover have "seq' = seq1\<lparr>sq_status := FINISHED_LENGTH_CAPPED\<rparr> \<or>
      seq' = seq1 \<and> Some (int (sq_get_output_len seq1)) \<noteq> sp_max_tokens p"
      using run long last_id c rest unfolding maybe_stop_sequence_def by (simp add: Let_def split: if_splits)
    ultimately show ?thesis using fin fresh cut_ok_all [of p t new] t(1)
      by (elim disjE) (simp_all add: sq_is_finished_def same_tracking_def)
  qed
qed

lemma check_stop_strings_data: "sq_data (snd (check_stop_strings stops n inc seq)) = sq_data seq"
  by (induction stops) (auto simp: Let_def split: option.splits)

lemma maybe_stop_length:
  assumes "maybe_stop_sequence max_len n p lora seq = Inr seq'" "params_ok p"
  shows "sq_data seq' = sq_data seq \<and> (sq_is_finished seq' \<or> Some (int (sq_get_output_len seq)) \<noteq> sp_max_tokens p)"
proof -
  have fin: "status_is_finished FINISHED_STOPPED" "status_is_finished FINISHED_LENGTH_CAPPED"
    by (simp_all add: status_is_finished_def)
  have short: "Some (int (sq_get_output_len seq)) \<noteq> sp_max_tokens p" if "int (sq_get_output_len seq) < sp_min_tokens p"
    using assms(2) that by (cases "sp_max_tokens p") (auto simp: params_ok_def)
  obtain so seq1 where c: "check_stop p n seq = (so, seq1)" by (cases "check_stop p n seq")
  have d: "sq_data seq1 = sq_data seq" "sq_data (remove_last_text p n seq) = sq_data seq"
    using c check_stop_strings_data [of "stop_strings p" n _ seq]
    by (auto simp: check_stop_def remove_last_text_def split: if_splits dest!: arg_cong [of _ _ snd])
  show ?thesis using assms(1) c d fin short
    by (auto simp: maybe_stop_sequence_def sq_is_finished_def sq_get_output_len_def split: if_splits option.splits)
qed

section \<open>Decoding\<close>

lemma decode_effect:
  assumes "decode_sequence_inplace tk p seq = Inr (n, seq')"
  shows "\<exists>new. n = length new \<and> sq_output_text seq' = sq_output_text seq @ new \<and> same_tracking seq seq' \<and>
    sq_status seq' = sq_status seq"
  using assms by (auto simp: decode_sequence_inplace_def Let_def same_tracking_def split: if_splits prod.splits)

lemma decode_and_stop_decodes:
  assumes "decode_and_stop P p lora seq = Inr seq'"
  obtains new seq1 where "sq_output_text seq1 = sq_output_text seq @ new" "same_tracking seq seq1" "sq_status seq1 = sq_status seq"
    "maybe_stop_sequence (pr_max_model_len P) (length new) p lora seq1 = Inr seq'"
proof -
  obtain n seq1 where d: "(if sp_detokenize p \<and> pr_has_detokenizer P then decode_sequence_inplace (pr_tokenizer P seq) p seq
      else Inr (0, seq)) = Inr (n, seq1)" and m: "maybe_stop_sequence (pr_max_model_len P) n p lora seq1 = Inr seq'"
    using assms by (auto simp: decode_and_stop_def)
  show ?thesis
  proof (cases "sp_detokenize p \<and> pr_has_detokenizer P")
    case True
    then obtain new where "n = length new" "sq_output_text seq1 = sq_output_text seq @ new" "same_tracking seq seq1"
      "sq_status seq1 = sq_status seq"
      using decode_effect [of "pr_tokenizer P seq" p seq n seq1] d by auto
    then show ?thesis using that m by blast
  next
    case False
    then show ?thesis using that [of seq1 "[]"] d m by (auto simp: same_tracking_def)
  qed
qed

lemma append_sample_effect:
  assumes "append_sample sample seq = Inr seq'"
  shows "sd_output_token_ids (sq_data seq') = sd_output_token_ids (sq_data seq) @ [so_output_token sample] \<and>
    sq_output_text seq' = sq_output_text seq \<and> sq_status seq' = sq_status seq \<and>
    sq_last_output_text_offset seq' = sq_last_output_text_offset seq"
  using assms by (auto simp: append_sample_def sq_append_token_id_def sd_append_token_id_def)

section \<open>Generation\<close>

text \<open>
  The life of a sequence with the text sent to a client who asks for deltas at any time: the model appends
  tokens until the sequence is finished, and the scheduler and the engine change its status and the
  count of computed tokens in between.
\<close>

inductive generation :: "processor \<Rightarrow> sampling_params \<Rightarrow> lora_request option \<Rightarrow> py_text \<Rightarrow> sequence \<Rightarrow> bool"
  for P p lora where
  start: "sequence_init seq_id inputs block_size eos lora' from_decoder = Inr seq \<Longrightarrow> generation P p lora [] seq"
| schedule: "generation P p lora sent seq \<Longrightarrow> \<not> sq_is_finished seq \<Longrightarrow> \<not> status_is_finished st \<Longrightarrow>
    sd_output_token_ids d = sd_output_token_ids (sq_data seq) \<Longrightarrow>
    generation P p lora sent (seq\<lparr>sq_status := st, sq_data := d\<rparr>)"
| token: "generation P p lora sent seq \<Longrightarrow> \<not> sq_is_finished seq \<Longrightarrow> append_sample sample seq = Inr seq1 \<Longrightarrow>
    decode_and_stop P p lora seq1 = Inr seq2 \<Longrightarrow> generation P p lora sent seq2"
| send: "generation P p lora sent seq \<Longrightarrow>
    get_output_text_to_return (sp_output_text_buffer_length p) True seq = (delta, seq') \<Longrightarrow>
    generation P p lora (sent @ delta) seq'"

definition sent_ok :: "sampling_params \<Rightarrow> py_text \<Rightarrow> sequence \<Rightarrow> bool" where
  "sent_ok p sent seq \<longleftrightarrow>
     (let t = sq_output_text seq; k = sq_last_output_text_offset seq in
      k \<le> length t \<and> sent = take k t \<and>
      (sq_is_finished seq \<or> unstopped p t \<and> (k = 0 \<or> k + sp_output_text_buffer_length p \<le> length t)))"

lemma send_ok:
  assumes "sent_ok p sent seq"
  shows "sent @ fst (get_output_text_to_return (sp_output_text_buffer_length p) True seq) =
      (if sq_is_finished seq then sq_output_text seq
       else take (length (sq_output_text seq) - sp_output_text_buffer_length p) (sq_output_text seq))"
    "sent_ok p (sent @ fst (get_output_text_to_return (sp_output_text_buffer_length p) True seq))
      (snd (get_output_text_to_return (sp_output_text_buffer_length p) True seq))"
proof -
  define t k b where tk: "t = sq_output_text seq" "k = sq_last_output_text_offset seq" "b = sp_output_text_buffer_length p"
  define n where n: "n = length t - (if sq_is_finished seq then 0 else b)"
  have ok: "k \<le> n" "sent = take k t" using assms by (auto simp: sent_ok_def Let_def tk n)
  have join: "take k t @ drop k (take n t) = take n t" using ok(1) by (metis append_take_drop_id min.absorb1 take_take)
  have len: "nat (int (length t) - (if b \<noteq> 0 \<and> \<not> sq_is_finished seq then int b else 0)) = n"
    "int k < int (length t) - (if b \<noteq> 0 \<and> \<not> sq_is_finished seq then int b else 0) \<longleftrightarrow> k < n"
    by (auto simp: n)
  have e: "get_output_text_to_return b True seq =
    (if k < n then (drop k (take n t), seq\<lparr>sq_last_output_text_offset := n\<rparr>) else ([], seq))"
    unfolding get_output_text_to_return_def Let_def tk(1,2) [symmetric] len by simp
  have sent: "sent @ fst (get_output_text_to_return b True seq) = take n t" using ok join by (auto simp: e)
  then show "sent @ fst (get_output_text_to_return (sp_output_text_buffer_length p) True seq) =
      (if sq_is_finished seq then sq_output_text seq
       else take (length (sq_output_text seq) - sp_output_text_buffer_length p) (sq_output_text seq))"
    by (simp add: n tk)
  have off: "sq_last_output_text_offset (snd (get_output_text_to_return b True seq)) = n"
    "sq_output_text (snd (get_output_text_to_return b True seq)) = t"
    "sq_is_finished (snd (get_output_text_to_return b True seq)) = sq_is_finished seq"
    unfolding e using ok(1) by (auto simp: tk sq_is_finished_def)
  have "sq_is_finished seq \<or> unstopped p t" using assms by (auto simp: sent_ok_def Let_def tk)
  then have "sent_ok p (take n t) (snd (get_output_text_to_return b True seq))"
    unfolding sent_ok_def Let_def off by (auto simp: n tk(3) [symmetric])
  then show "sent_ok p (sent @ fst (get_output_text_to_return (sp_output_text_buffer_length p) True seq))
      (snd (get_output_text_to_return (sp_output_text_buffer_length p) True seq))"
    using sent by (simp add: tk)
qed

lemma cut_sent_ok:
  assumes "cut_ok p t new t'" "k \<le> length t" "k = 0 \<or> k + sp_output_text_buffer_length p \<le> length t"
  shows "k \<le> length t' \<and> take k t' = take k t"
proof -
  have "k \<le> length t'" using assms by (auto simp: cut_ok_def split: if_splits)
  moreover obtain r where "t @ new = t' @ r" using assms(1) by (auto simp: cut_ok_def prefix_def)
  ultimately show ?thesis using assms(2) by (metis append_eq_append_conv_if take_append append_Nil2 diff_is_0_eq take0)
qed

text \<open>
  C4. Nothing that was sent is taken back: however the client's requests for deltas interleave with the
  generation, the deltas sent so far and the next one make up the output text, apart from the end that is
  held back while the sequence is unfinished; when it is finished they are the whole text. The text of an
  unfinished sequence contains no stop string. Stop strings are checked from the first token on.
\<close>

theorem nothing_sent_is_retracted:
  assumes "generation P p lora sent seq" "post_init args = Inr p" "sp_min_tokens p \<le> 1"
  shows "sent @ fst (get_output_text_to_return (sp_output_text_buffer_length p) True seq) =
      (if sq_is_finished seq then sq_output_text seq
       else take (length (sq_output_text seq) - sp_output_text_buffer_length p) (sq_output_text seq)) \<and>
    (\<not> sq_is_finished seq \<longrightarrow> (\<forall>s \<in> set (stop_strings p). \<not> sublist s (sq_output_text seq)))"
proof -
  have p: "params_ok p" using post_init_ok assms(2) .
  then have "[] \<notin> set (stop_strings p)" by (simp add: params_ok_def)
  then have u: "unstopped p []" by (auto simp: unstopped_def)
  have "sent_ok p sent seq" using assms(1)
  proof (induction rule: generation.induct)
    case (start seq_id inputs block_size eos lora' from_decoder seq)
    then have "sq_output_text seq = []" "sq_last_output_text_offset seq = 0" by (auto simp: sequence_init_def Let_def)
    then show ?case using u by (simp add: sent_ok_def)
  next
    case (schedule sent seq st d)
    then show ?case by (simp add: sent_ok_def sq_is_finished_def Let_def)
  next
    case (token sent seq sample seq1 seq2)
    note a = append_sample_effect [OF token.hyps(3)]
    obtain new seq3 where d: "sq_output_text seq3 = sq_output_text seq1 @ new" "same_tracking seq1 seq3" "sq_status seq3 = sq_status seq1"
      "maybe_stop_sequence (pr_max_model_len P) (length new) p lora seq3 = Inr seq2"
      using decode_and_stop_decodes [OF token.hyps(4)] .
    have ok: "unstopped p (sq_output_text seq)" "sent = take (sq_last_output_text_offset seq) (sq_output_text seq)"
      "sq_last_output_text_offset seq \<le> length (sq_output_text seq)"
      "sq_last_output_text_offset seq = 0 \<or>
        sq_last_output_text_offset seq + sp_output_text_buffer_length p \<le> length (sq_output_text seq)"
      using token.IH token.hyps(2) by (simp_all add: sent_ok_def Let_def)
    have "1 \<le> sq_get_output_len seq3" using a d(2) by (simp add: sq_get_output_len_def sd_get_output_len_def same_tracking_def)
    then have long: "sp_min_tokens p \<le> int (sq_get_output_len seq3)" using assms(3) by simp
    have m: "same_tracking seq3 seq2" "if sq_is_finished seq2 then cut_ok p (sq_output_text seq) new (sq_output_text seq2)
      else sq_output_text seq2 = sq_output_text seq @ new \<and> unstopped p (sq_output_text seq @ new)"
      using maybe_stop_effect [OF d(4) _ ok(1) p long] d(1,3) a token.hyps(2) by (auto simp: sq_is_finished_def)
    have off: "sq_last_output_text_offset seq2 = sq_last_output_text_offset seq"
      using m(1) d(2) a by (simp add: same_tracking_def)
    show ?case
    proof (cases "sq_is_finished seq2")
      case True
      then show ?thesis using cut_sent_ok [of p _ new _ _] m(2) ok(2-4) by (simp add: sent_ok_def Let_def off)
    next
      case False
      then show ?thesis using m(2) ok(2-4) by (auto simp: sent_ok_def Let_def off)
    qed
  next
    case (send sent seq delta seq')
    then show ?case using send_ok(2) [of p sent seq] by simp
  qed
  then show ?thesis using send_ok(1) by (auto simp: sent_ok_def Let_def unstopped_def)
qed

text \<open>A tokenizer with one character for each id, and the parameters of a request with the stop string \<open>xy\<close>.\<close>

definition ex_tokenizer :: tokenizer where
  "ex_tokenizer = \<lparr>tk_convert_ids_to_tokens = (\<lambda>skip ids. map (\<lambda>i. Some [i]) ids), tk_convert_tokens_to_string = concat,
     tk_len = 1000, tk_is_fast = True, tk_added_vocab = [], tk_all_special_tokens = [], tk_eos_token_id = Some 2\<rparr>"

definition ex_processor :: processor where
  "ex_processor = \<lparr>pr_tokenizer = (\<lambda>_. ex_tokenizer), pr_has_detokenizer = True, pr_max_model_len = 100\<rparr>"

definition ex_params :: "py_text list \<Rightarrow> int \<Rightarrow> int option \<Rightarrow> token_id list option \<Rightarrow> nat \<Rightarrow> sampling_params" where
  "ex_params stops min_tokens best_of stop_ids buffer = \<lparr>sp_n = 1, sp_best_of = best_of, sp_presence_penalty = 0,
     sp_frequency_penalty = 0, sp_repetition_penalty = 1, sp_temperature = 1, sp_top_p = 1, sp_top_k = - 1, sp_min_p = 0,
     sp_seed = None, sp_stop = Stop_many stops, sp_stop_token_ids = stop_ids, sp_ignore_eos = False, sp_max_tokens = Some 4,
     sp_min_tokens = min_tokens, sp_logprobs = None, sp_prompt_logprobs = None, sp_detokenize = True,
     sp_skip_special_tokens = True, sp_spaces_between_special_tokens = True, sp_include_stop_str_in_output = False,
     sp_truncate_prompt_tokens = None, sp_output_kind = DELTA, sp_output_text_buffer_length = buffer,
     sp_all_stop_token_ids = {}\<rparr>"

abbreviation ex_args :: "py_text list \<Rightarrow> int \<Rightarrow> sampling_params" where
  "ex_args stops min_tokens \<equiv> ex_params stops min_tokens None None 0"

abbreviation ex_accepted :: "py_text list \<Rightarrow> int \<Rightarrow> nat \<Rightarrow> sampling_params" where
  "ex_accepted stops min_tokens buffer \<equiv> ex_params stops min_tokens (Some 1) (Some []) buffer"

lemma ex_args_accepted:
  "post_init (ex_args [[120, 121]] 0) = Inr (ex_accepted [[120, 121]] 0 1)"
  "post_init (ex_args [[120, 121]] 3) = Inr (ex_accepted [[120, 121]] 3 1)"
  "post_init (ex_args [[98], [97]] 0) = Inr (ex_accepted [[98], [97]] 0 0)"
  by (simp_all add: post_init_def normalize_params_def verify_args_def ex_params_def sampling_eps_def max_temp_def)

definition ex_sample :: "nat \<Rightarrow> token_id \<Rightarrow> seq_output" where
  "ex_sample i t = \<lparr>so_parent_seq_id = i, so_output_token = t,
     so_logprobs = [(t, \<lparr>lp_logprob = 0, lp_rank = None, lp_decoded_token = None\<rparr>)]\<rparr>"

definition ex_start :: "py_error + sequence" where
  "ex_start = sequence_init 0 \<lparr>li_prompt_token_ids = [5, 6], li_encoder_prompt_token_ids = None\<rparr> 4 (Some 2) None True"

text \<open>Append one token and ask for a delta.\<close>

definition ex_token :: "sampling_params \<Rightarrow> token_id \<Rightarrow> py_text \<times> sequence \<Rightarrow> py_error + (py_text \<times> sequence)" where
  "ex_token p t = (\<lambda>(sent, seq).
     bindE (append_sample (ex_sample 0 t) seq) (\<lambda>seq.
     bindE (decode_and_stop ex_processor p None seq) (\<lambda>seq.
     let (delta, seq) = get_output_text_to_return (sp_output_text_buffer_length p) True seq in Inr (sent @ delta, seq))))"

definition ex_generation :: "sampling_params \<Rightarrow> token_id list \<Rightarrow> py_error + (py_text \<times> sequence)" where
  "ex_generation p ts = bindE ex_start (\<lambda>seq. foldE (ex_token p) ts ([], seq))"

lemma ex_token_generation:
  assumes "generation ex_processor p None sent seq" "\<not> sq_is_finished seq" "ex_token p t (sent, seq) = Inr (sent', seq')"
  shows "generation ex_processor p None sent' seq'"
proof -
  obtain s1 s2 where s: "append_sample (ex_sample 0 t) seq = Inr s1" "decode_and_stop ex_processor p None s1 = Inr s2"
    "sent' = sent @ fst (get_output_text_to_return (sp_output_text_buffer_length p) True s2)"
    "seq' = snd (get_output_text_to_return (sp_output_text_buffer_length p) True s2)"
    using assms(3) by (auto simp: ex_token_def Let_def case_prod_beta)
  show ?thesis unfolding s(3,4) by (rule generation.send [OF generation.token [OF assms(1,2) s(1,2)]]) simp
qed

definition ex_view :: "py_error + (py_text \<times> sequence) \<Rightarrow> py_error + (py_text \<times> py_text \<times> bool)" where
  "ex_view r = bindE r (\<lambda>(sent, seq). Inr (sent, sq_output_text seq, sq_is_finished seq))"

lemma ex_generation_runs:
  "ex_view (ex_generation (ex_accepted [[120, 121]] 0 1) [97, 120]) = Inr ([97], [97, 120], False)"
  "ex_view (ex_generation (ex_accepted [[120, 121]] 0 1) [97, 120, 121]) = Inr ([97], [97], True)"
  by code_simp+

lemma ex_generation_start: "ex_generation p [] = Inr (sent, seq) \<Longrightarrow> generation ex_processor p None sent seq"
  unfolding ex_generation_def ex_start_def by (auto intro: generation.start)

lemma ex_generation_snoc:
  "ex_generation p (ts @ [t]) = bindE (ex_generation p ts) (ex_token p t)"
proof (cases "ex_start")
  case (Inr seq)
  have "foldE (ex_token p) [t] x = ex_token p t x" for x by (cases "ex_token p t x") simp_all
  then have "foldE (ex_token p) [t] = ex_token p t" by (rule ext)
  then show ?thesis by (simp add: ex_generation_def Inr foldE_append del: foldE.simps)
next
  case (Inl e)
  show ?thesis unfolding ex_generation_def Inl by simp
qed

lemma ex_generation_generation:
  assumes "ex_generation p ts = Inr (sent, seq)" "\<And>us u v. us @ u # v = ts \<Longrightarrow> \<not> sq_is_finished (snd (projr (ex_generation p us)))"
  shows "generation ex_processor p None sent seq"
  using assms
proof (induction ts arbitrary: sent seq rule: rev_induct)
  case Nil
  then show ?case using ex_generation_start by blast
next
  case (snoc t ts)
  obtain sent1 seq1 where e: "ex_generation p ts = Inr (sent1, seq1)" "ex_token p t (sent1, seq1) = Inr (sent, seq)"
    using snoc.prems(1) by (auto simp: ex_generation_snoc)
  have "generation ex_processor p None sent1 seq1" by (rule snoc.IH [OF e(1)]) (use snoc.prems(2) in auto)
  moreover have "\<not> sq_is_finished seq1" using snoc.prems(2) [of ts t "[]"] e(1) by simp
  ultimately show ?case using ex_token_generation e(2) by blast
qed

lemma ex_generation_stopped:
  "list_all (\<lambda>k. \<not> sq_is_finished (snd (projr (ex_generation (ex_accepted [[120, 121]] 0 1) (take k [97, 120, 121]))))) [0, 1, 2]"
  by code_simp

lemma ex_stop_generation:
  "\<exists>sent seq. ex_generation (ex_accepted [[120, 121]] 0 1) [97, 120, 121] = Inr (sent, seq) \<and> sq_is_finished seq \<and>
     sq_output_text seq = [97] \<and> generation ex_processor (ex_accepted [[120, 121]] 0 1) None sent seq"
proof -
  obtain sent seq where e: "ex_generation (ex_accepted [[120, 121]] 0 1) [97, 120, 121] = Inr (sent, seq)" "sq_is_finished seq"
    "sq_output_text seq = [97]"
    using ex_generation_runs(2) by (auto simp: ex_view_def)
  have "us = take (length us) [97, 120, 121] \<and> length us \<in> {0, 1, 2}" if "us @ u # v = [97, 120, 121]" for us v and u :: token_id
  proof -
    have "length us + Suc (length v) = 3" using that by (auto dest: arg_cong [of _ _ length])
    then have "length us = 0 \<or> length us = 1 \<or> length us = 2" by linarith
    then have "length us \<in> {0, 1, 2}" by blast
    then show ?thesis using that by (metis append_eq_conv_conj)
  qed
  note us = this
  have "generation ex_processor (ex_accepted [[120, 121]] 0 1) None sent seq"
  proof (rule ex_generation_generation [OF e(1)])
    fix us v and u :: token_id
    assume eq: "us @ u # v = [97, 120, 121]"
    note stopped = bspec [OF ex_generation_stopped [unfolded list_all_iff list.set] us [OF eq, THEN conjunct2]]
    show "\<not> sq_is_finished (snd (projr (ex_generation (ex_accepted [[120, 121]] 0 1) us)))"
      by (subst us [OF eq, THEN conjunct1]) (rule stopped)
  qed
  then show ?thesis by (intro exI [of _ sent] exI [of _ seq] conjI) (assumption | rule e)+
qed

theorem nothing_sent_is_retracted_witness:
  "\<exists>sent seq. ex_generation (ex_accepted [[120, 121]] 0 1) [97, 120, 121] = Inr (sent, seq) \<and>
     sent @ fst (get_output_text_to_return 1 True seq) = sq_output_text seq \<and> sq_output_text seq = [97]"
proof -
  obtain sent seq where e: "ex_generation (ex_accepted [[120, 121]] 0 1) [97, 120, 121] = Inr (sent, seq)" "sq_is_finished seq"
    "sq_output_text seq = [97]" "generation ex_processor (ex_accepted [[120, 121]] 0 1) None sent seq"
    using ex_stop_generation by blast
  from nothing_sent_is_retracted [OF e(4) ex_args_accepted(1)] e(1-3) show ?thesis by (simp add: ex_params_def)
qed

text \<open>
  C17. Generation is bounded: an unfinished sequence has fewer output tokens than \<open>max_tokens\<close>, so each
  sequence is finished when it has that many, whatever the model returns and however long the stop
  conditions are put off by \<open>min_tokens\<close>.
\<close>

theorem generation_within_max_tokens:
  assumes "generation P p lora sent seq" "post_init args = Inr p" "sp_max_tokens p = Some k"
  shows "int (sq_get_output_len seq) \<le> k \<and> (int (sq_get_output_len seq) = k \<longrightarrow> sq_is_finished seq)"
proof -
  have p: "params_ok p" using post_init_ok assms(2) .
  have k: "1 \<le> k" using p assms(3) by (simp add: params_ok_def)
  show ?thesis using assms(1)
  proof (induction rule: generation.induct)
    case (start seq_id inputs block_size eos lora' from_decoder seq)
    then have "sq_get_output_len seq = 0"
      by (auto simp: sequence_init_def Let_def sq_get_output_len_def sd_get_output_len_def from_seqs_def seq_data_init_def
          update_cached_all_tokens_def)
    then show ?case using k by simp
  next
    case (schedule sent seq st d)
    then show ?case by (auto simp: sq_get_output_len_def sd_get_output_len_def)
  next
    case (token sent seq sample seq1 seq2)
    note a = append_sample_effect [OF token.hyps(3)]
    obtain new seq3 where "sq_output_text seq3 = sq_output_text seq1 @ new" and d: "same_tracking seq1 seq3"
      and "sq_status seq3 = sq_status seq1"
      and d2: "maybe_stop_sequence (pr_max_model_len P) (length new) p lora seq3 = Inr seq2"
      using decode_and_stop_decodes [OF token.hyps(4)] .
    have "sq_get_output_len seq2 = Suc (sq_get_output_len seq)"
      using maybe_stop_length [OF d2 p] d a by (simp add: sq_get_output_len_def sd_get_output_len_def same_tracking_def)
    moreover have "sq_is_finished seq2 \<or> int (sq_get_output_len seq2) \<noteq> k"
      using maybe_stop_length [OF d2 p] assms(3) by (auto simp: sq_get_output_len_def)
    ultimately show ?case using token.IH token.hyps(2) by auto
  next
    case (send sent seq delta seq')
    then have "sq_data seq' = sq_data seq" "sq_status seq' = sq_status seq"
      by (auto simp: get_output_text_to_return_def Let_def split: if_splits)
    then show ?case using send.IH by (simp add: sq_get_output_len_def sq_is_finished_def)
  qed
qed

theorem generation_within_max_tokens_witness:
  "\<exists>sent seq. ex_generation (ex_accepted [[120, 121]] 0 1) [97, 120, 121] = Inr (sent, seq) \<and> int (sq_get_output_len seq) \<le> 4"
proof -
  obtain sent seq where e: "ex_generation (ex_accepted [[120, 121]] 0 1) [97, 120, 121] = Inr (sent, seq)"
    "generation ex_processor (ex_accepted [[120, 121]] 0 1) None sent seq" using ex_stop_generation by blast
  from generation_within_max_tokens [OF e(2) ex_args_accepted(1), of 4] e(1) show ?thesis by (simp add: ex_params_def)
qed

text \<open>
  With three tokens as the minimum, the search looks at a stop string that ends right before the new
  characters and was passed over: \<open>x\<close> was sent and is cut. The window should be one character smaller.
\<close>

lemma min_tokens_retracts:
  "ex_view (ex_generation (ex_accepted [[120, 121]] 3 1) [120, 121]) = Inr ([120], [120, 121], False)"
  "ex_view (ex_generation (ex_accepted [[120, 121]] 3 1) [120, 121, 122]) = Inr ([120], [], True)"
  by code_simp+

text \<open>The stop strings are tried in the order of the list: the text that remains can contain another one.\<close>

lemma other_stop_string_remains:
  "check_stop (ex_accepted [[98], [97]] 0 0) 2 ((ex_seq 0 [5])\<lparr>sq_output_text := [97, 98]\<rparr>) =
    (Some [98], (ex_seq 0 [5])\<lparr>sq_output_text := [97]\<rparr>)"
  by (simp add: check_stop_def ex_params_def str_find_def)

end
