(* ===== verification/Incremental_Text.thy ===== *)
theory Incremental_Text
  imports Detokenizer "HOL-Library.Sublist"
begin

text \<open>
  Incremental detokenization against decoding all generated tokens at once.
\<close>

section \<open>Tokenizers that decode in context\<close>

text \<open>
  What the code relies on, and why it decodes each piece together with the piece before it: the text of a
  token list is not put together from the texts of its parts (a leading space may be dropped, spaces may
  be added or not depending on the tokens around), but what the tokens \<open>c\<close> add depends only on the piece \<open>b\<close>
  just before them, not on what stands before \<open>b\<close>. The pieces are those that added text and did not stop
  inside a character (\<open>settled\<close>).
\<close>

definition settled :: "(py_text list \<Rightarrow> py_text) \<Rightarrow> py_text list \<Rightarrow> bool" where
  "settled T b \<longleftrightarrow> (\<exists>a. \<not> ends_unfinished (T a) \<and> \<not> ends_unfinished (T (a @ b)) \<and> length (T a) < length (T (a @ b)))"

definition decodes_in_context :: "(py_text list \<Rightarrow> py_text) \<Rightarrow> bool" where
  "decodes_in_context T \<longleftrightarrow> T [] = [] \<and>
     (\<forall>b c. settled T b \<longrightarrow> (\<exists>t. \<forall>a. \<not> ends_unfinished (T a) \<longrightarrow> T (a @ b @ c) = T (a @ b) @ t))"

definition generated_tokens :: "tokenizer \<Rightarrow> bool \<Rightarrow> token_id list \<Rightarrow> py_text list" where
  "generated_tokens tk skip ids =
     concat (map (\<lambda>t. case new_token_strings tk skip t of Inl _ \<Rightarrow> [] | Inr ss \<Rightarrow> ss) ids)"

text \<open>Append a token and decode, as the output processor does.\<close>

definition decode_step ::
  "tokenizer \<Rightarrow> sampling_params \<Rightarrow> token_id \<times> (token_id \<times> logprob) list \<Rightarrow> sequence \<Rightarrow> py_error + sequence" where
  "decode_step tk p = (\<lambda>(t, lps) seq.
     bindE (sq_append_token_id t lps seq) (\<lambda>seq.
     bindE (decode_sequence_inplace tk p seq) (\<lambda>(_, seq). Inr seq)))"

section \<open>The invariant\<close>

text \<open>The tokens and offsets of a sequence; those of the prompt before the first decoding.\<close>

definition detok_view :: "tokenizer \<Rightarrow> bool \<Rightarrow> sequence \<Rightarrow> py_text list \<times> nat \<times> nat" where
  "detok_view tk skip seq =
     (case sq_tokens seq of
        None \<Rightarrow> convert_prompt_ids_to_tokens tk (sd_get_token_ids (sq_data seq)) skip
      | Some ts \<Rightarrow> (ts, sq_prefix_offset seq, sq_read_offset seq))"

lemma append_token_ids: "sq_append_token_id t lps seq = Inr seq' \<Longrightarrow>
    sd_get_token_ids (sq_data seq') = sd_get_token_ids (sq_data seq) @ [t] \<and> sq_tokens seq' = sq_tokens seq \<and>
    sq_prefix_offset seq' = sq_prefix_offset seq \<and> sq_read_offset seq' = sq_read_offset seq \<and>
    sq_output_text seq' = sq_output_text seq"
  by (auto simp: sq_append_token_id_def sd_append_token_id_def sd_get_token_ids_def)

lemma decode_sequence_view:
  assumes "decode_sequence_inplace tk p seq = Inr (n, seq')" "sd_get_token_ids (sq_data seq) = ids @ [t]"
    "(case sq_tokens seq of None \<Rightarrow> convert_prompt_ids_to_tokens tk ids (sp_skip_special_tokens p)
      | Some ts \<Rightarrow> (ts, sq_prefix_offset seq, sq_read_offset seq)) = (ts, pre, rd)"
  shows "\<exists>new new_text pre' rd'.
    detokenize_incrementally tk (ids @ [t]) (Some ts) pre rd (sp_skip_special_tokens p) (sp_spaces_between_special_tokens p)
      = Inr (new, new_text, pre', rd') \<and>
    sq_tokens seq' = Some (ts @ new) \<and> sq_prefix_offset seq' = pre' \<and> sq_read_offset seq' = rd' \<and>
    sq_output_text seq' = sq_output_text seq @ new_text"
  using assms by (cases "sq_tokens seq") (auto simp: decode_sequence_inplace_def Let_def split: prod.splits)

lemma detok_incr_Some:
  assumes "detokenize_incrementally tk (ids @ [t]) (Some ts) pre rd skip spaces = Inr (new, new_text, pre', rd')"
  shows "new_token_strings tk skip t = Inr new"
    "let T = tokens_text tk skip spaces; a = T (drop pre (take rd (ts @ new))); b = T (drop pre (ts @ new))
     in if length b \<le> length a \<or> ends_unfinished b then new_text = [] \<and> pre' = pre \<and> rd' = rd
        else new_text = drop (length a) b \<and> pre' = rd \<and> rd' = length (ts @ new)"
proof -
  obtain ss where ss: "new_token_strings tk skip t = Inr ss" using assms by (auto simp: detokenize_incrementally_def)
  have r: "(let T = tokens_text tk skip spaces; a = T (drop pre (take rd (ts @ ss))); b = T (drop pre (ts @ ss))
     in if length b \<le> length a \<or> ends_unfinished b then (ss, [], pre, rd)
        else (ss, drop (length a) b, rd, length (ts @ ss))) = (new, new_text, pre', rd')"
    using assms ss unfolding detokenize_incrementally_def Let_def by (auto split: if_splits simp del: drop_append take_append length_append)
  then have "ss = new" by (simp add: Let_def split: if_splits)
  with ss r show "new_token_strings tk skip t = Inr new"
    "let T = tokens_text tk skip spaces; a = T (drop pre (take rd (ts @ new))); b = T (drop pre (ts @ new))
     in if length b \<le> length a \<or> ends_unfinished b then new_text = [] \<and> pre' = pre \<and> rd' = rd
        else new_text = drop (length a) b \<and> pre' = rd \<and> rd' = length (ts @ new)"
    unfolding Let_def by (auto simp del: drop_append take_append length_append split: if_splits)
qed

lemma decode_step_view:
  assumes run: "decode_step tk p (t, lps) seq = Inr seq'" and v: "detok_view tk (sp_skip_special_tokens p) seq = (ts, pre, rd)"
  shows "\<exists>new new_text pre' rd'.
    new_token_strings tk (sp_skip_special_tokens p) t = Inr new \<and>
    (let T = tokens_text tk (sp_skip_special_tokens p) (sp_spaces_between_special_tokens p);
         a = T (drop pre (take rd (ts @ new))); b = T (drop pre (ts @ new))
     in if length b \<le> length a \<or> ends_unfinished b then new_text = [] \<and> pre' = pre \<and> rd' = rd
        else new_text = drop (length a) b \<and> pre' = rd \<and> rd' = length (ts @ new)) \<and>
    detok_view tk (sp_skip_special_tokens p) seq' = (ts @ new, pre', rd') \<and>
    sq_output_text seq' = sq_output_text seq @ new_text"
proof -
  obtain seq1 n where s: "sq_append_token_id t lps seq = Inr seq1" "decode_sequence_inplace tk p seq1 = Inr (n, seq')"
    using run by (auto simp: decode_step_def)
  note a = append_token_ids [OF s(1)]
  have "(case sq_tokens seq1 of None \<Rightarrow> convert_prompt_ids_to_tokens tk (sd_get_token_ids (sq_data seq)) (sp_skip_special_tokens p)
      | Some ts \<Rightarrow> (ts, sq_prefix_offset seq1, sq_read_offset seq1)) = (ts, pre, rd)"
    using v a by (cases "sq_tokens seq") (simp_all add: detok_view_def)
  from decode_sequence_view [OF s(2) _ this, of t] a obtain new new_text pre' rd' where
    d: "detokenize_incrementally tk (sd_get_token_ids (sq_data seq) @ [t]) (Some ts) pre rd (sp_skip_special_tokens p)
        (sp_spaces_between_special_tokens p) = Inr (new, new_text, pre', rd')"
      "sq_tokens seq' = Some (ts @ new)" "sq_prefix_offset seq' = pre'" "sq_read_offset seq' = rd'"
      "sq_output_text seq' = sq_output_text seq @ new_text" by auto
  note e = detok_incr_Some [OF d(1)]
  have v': "detok_view tk (sp_skip_special_tokens p) seq' = (ts @ new, pre', rd')"
    using d(2-4) by (simp add: detok_view_def)
  show ?thesis by (intro exI conjI) (rule e(1), rule e(2), rule v', rule d(5))
qed

text \<open>
  The window from the prefix offset to the read offset is settled, the text so far is what the tokens up to
  the read offset add to the end of the prompt (which starts at \<open>p0\<close>), and the tokens after it add nothing yet
  or stop inside a character.
\<close>

definition detok_inv :: "(py_text list \<Rightarrow> py_text) \<Rightarrow> nat \<Rightarrow> py_text \<Rightarrow> py_text list \<times> nat \<times> nat \<Rightarrow> py_text \<Rightarrow> bool" where
  "detok_inv T p0 prompt = (\<lambda>(ts, pre, rd) txt.
     p0 \<le> pre \<and> pre \<le> rd \<and> rd \<le> length ts \<and> settled T (drop pre (take rd ts)) \<and>
     \<not> ends_unfinished (T (drop p0 (take pre ts))) \<and> \<not> ends_unfinished (T (drop p0 (take rd ts))) \<and>
     T (drop p0 (take rd ts)) = prompt @ txt \<and>
     (\<exists>t. T (drop p0 ts) = T (drop p0 (take rd ts)) @ t \<and> (t = [] \<or> ends_unfinished t)))"

lemma ends_unfinished_append: "t \<noteq> [] \<Longrightarrow> ends_unfinished (s @ t) = ends_unfinished t"
  by (simp add: ends_unfinished_def)

lemma detok_inv_step:
  fixes T :: "py_text list \<Rightarrow> py_text"
  assumes inv: "detok_inv T p0 prompt (ts, pre, rd) txt"
    and ctx: "decodes_in_context T"
    and step: "let a = T (drop pre (take rd (ts @ new))); b = T (drop pre (ts @ new))
     in if length b \<le> length a \<or> ends_unfinished b then new_text = [] \<and> pre' = pre \<and> rd' = rd
        else new_text = drop (length a) b \<and> pre' = rd \<and> rd' = length (ts @ new)"
  shows "detok_inv T p0 prompt (ts @ new, pre', rd') (txt @ new_text)"
proof -
  define a b pend where "a = drop p0 (take pre ts)" and "b = drop pre (take rd ts)" and "pend = drop rd ts @ new"
  have i: "p0 \<le> pre" "pre \<le> rd" "rd \<le> length ts" "settled T b" "\<not> ends_unfinished (T a)"
    "\<not> ends_unfinished (T (drop p0 (take rd ts)))" "T (drop p0 (take rd ts)) = prompt @ txt"
    using inv by (auto simp: detok_inv_def a_def b_def)
  have cut: "take rd (ts @ new) = take rd ts" "take pre (ts @ new) = take pre ts" using i(2,3) by simp_all
  have cat: "drop pre (ts @ new) = b @ pend" "drop p0 (take rd ts) = a @ b" "drop p0 (ts @ new) = a @ b @ pend"
  proof -
    show 1: "drop pre (ts @ new) = b @ pend" unfolding b_def pend_def using i(2,3)
      by (metis append.assoc append_take_drop_id diff_is_0_eq drop0 drop_append length_take min.absorb2)
    have "take rd ts = take pre ts @ b" unfolding b_def using i(2) by (metis append_take_drop_id min.absorb1 take_take)
    then show 2: "drop p0 (take rd ts) = a @ b" unfolding a_def using i(1-3) by simp
    have "ts @ new = take rd ts @ pend" by (simp add: pend_def)
    moreover have "p0 \<le> length (take rd ts)" using i(1-3) by simp
    ultimately have "drop p0 (ts @ new) = drop p0 (take rd ts) @ pend" by (simp del: length_take append_take_drop_id)
    then show "drop p0 (ts @ new) = a @ b @ pend" using 2 by simp
  qed
  obtain t where t: "\<And>x. \<not> ends_unfinished (T x) \<Longrightarrow> T (x @ b @ pend) = T (x @ b) @ t"
    using ctx i(4) unfolding decodes_in_context_def by blast
  have e: "T [] = []" using ctx by (simp add: decodes_in_context_def)
  then have w: "T (b @ pend) = T b @ t" using t [of "[]"] by (simp add: ends_unfinished_def)
  have all: "T (a @ b @ pend) = T (a @ b) @ t" by (rule t) (rule i(5))
  have c: "length (T b @ t) \<le> length (T b) \<or> ends_unfinished (T b @ t) \<longleftrightarrow> t = [] \<or> ends_unfinished t"
    using ends_unfinished_append by auto
  note step' = step [unfolded Let_def cut cat(1) b_def [symmetric] w c]
  show ?thesis
  proof (cases "t = [] \<or> ends_unfinished t")
    case True
    then have n: "new_text = []" "pre' = pre" "rd' = rd" using step' by simp_all
    have "\<exists>t. T (drop p0 (ts @ new)) = T (drop p0 (take rd ts)) @ t \<and> (t = [] \<or> ends_unfinished t)"
      unfolding cat using all True by blast
    then show ?thesis using i unfolding n detok_inv_def prod.case cut a_def [symmetric] b_def [symmetric]
      by (simp del: drop_append take_append)
  next
    case False
    then have n: "new_text = t" "pre' = rd" "rd' = length (ts @ new)" using step' by simp_all
    have ab: "T (a @ b) = prompt @ txt" "\<not> ends_unfinished (T (a @ b))" using i(6,7) cat(2) by simp_all
    have fin: "\<not> ends_unfinished (T (a @ b @ pend))" unfolding all using False ends_unfinished_append by simp
    have "settled T pend" unfolding settled_def
      using ab(2) fin all False by (intro exI [of _ "a @ b"]) simp
    moreover have "drop rd (take (length (ts @ new)) (ts @ new)) = pend" using i(3) by (simp add: pend_def)
    moreover have "T (a @ b @ pend) = prompt @ txt @ t" using all ab(1) by simp
    ultimately show ?thesis using i(1-3) ab fin cat unfolding n detok_inv_def prod.case cut
      by (simp del: drop_append take_append)
  qed
qed

lemma decode_steps_inv:
  fixes tk :: tokenizer and p :: sampling_params
  defines "T \<equiv> tokens_text tk (sp_skip_special_tokens p) (sp_spaces_between_special_tokens p)"
  assumes "foldE (decode_step tk p) samples seq = Inr seq'" "detok_view tk (sp_skip_special_tokens p) seq = (ts, pre, rd)"
    "detok_inv T p0 prompt (ts, pre, rd) (sq_output_text seq)" "decodes_in_context T"
  shows "\<exists>pre' rd'. detok_view tk (sp_skip_special_tokens p) seq' =
      (ts @ generated_tokens tk (sp_skip_special_tokens p) (map fst samples), pre', rd') \<and>
    detok_inv T p0 prompt
      (ts @ generated_tokens tk (sp_skip_special_tokens p) (map fst samples), pre', rd') (sq_output_text seq')"
  using assms(2-5)
proof (induction samples arbitrary: seq ts pre rd)
  case Nil
  then show ?case by (auto simp: generated_tokens_def)
next
  case (Cons x samples)
  obtain t lps where x: "x = (t, lps)" by fastforce
  obtain seq1 where s: "decode_step tk p (t, lps) seq = Inr seq1" "foldE (decode_step tk p) samples seq1 = Inr seq'"
    using Cons.prems(1) x by auto
  obtain new new_text pre1 rd1 where v: "new_token_strings tk (sp_skip_special_tokens p) t = Inr new"
    "let a = T (drop pre (take rd (ts @ new))); b = T (drop pre (ts @ new))
     in if length b \<le> length a \<or> ends_unfinished b then new_text = [] \<and> pre1 = pre \<and> rd1 = rd
        else new_text = drop (length a) b \<and> pre1 = rd \<and> rd1 = length (ts @ new)"
    "detok_view tk (sp_skip_special_tokens p) seq1 = (ts @ new, pre1, rd1)" "sq_output_text seq1 = sq_output_text seq @ new_text"
    using decode_step_view [OF s(1) Cons.prems(2)] unfolding Let_def T_def by blast
  note inv1 = detok_inv_step [OF Cons.prems(3,4) v(2), folded v(4)]
  have g: "generated_tokens tk (sp_skip_special_tokens p) (map fst (x # samples)) =
      new @ generated_tokens tk (sp_skip_special_tokens p) (map fst samples)"
    using v(1) x by (simp add: generated_tokens_def)
  from Cons.IH [OF s(2) v(3) inv1 Cons.prems(4)] show ?case unfolding g by simp
qed


text \<open>
  A tokenizer over bytes: 200 starts a character of two bytes, which 201 completes; a space (32) at the
  start of the text is dropped, as SentencePiece tokenizers do. The sequence gets a space, the first byte
  (its text waits), and then the second one.
\<close>

fun ex_decode :: "py_text \<Rightarrow> py_text" where
  "ex_decode [] = []"
| "ex_decode [c] = [if c = 200 then replacement_char else c]"
| "ex_decode (c # d # cs) =
     (if c = 200 \<and> d = 201 then 500 # ex_decode cs
      else (if c = 200 then replacement_char else c) # ex_decode (d # cs))"

lemma ex_decode_append: "\<not> ends_unfinished (ex_decode xs) \<Longrightarrow> ex_decode (xs @ ys) = ex_decode xs @ ex_decode ys"
proof (induction xs rule: ex_decode.induct)
  case (2 c)
  then show ?case by (cases ys) (auto simp: ends_unfinished_def split: if_splits)
next
  case (3 c d cs)
  have "\<not> ends_unfinished (ex_decode cs)" if "c = 200 \<and> d = 201"
    using 3(3) that by (auto simp: ends_unfinished_def split: if_splits)
  moreover have "\<not> ends_unfinished (ex_decode (d # cs))" if "\<not> (c = 200 \<and> d = 201)"
    using 3(3) that by (auto simp: ends_unfinished_def split: if_splits)
  ultimately show ?case using 3(1,2) by auto
qed simp

fun strip_space :: "py_text \<Rightarrow> py_text" where
  "strip_space [] = []"
| "strip_space (c # cs) = (if c = 32 then cs else c # cs)"

lemma strip_space_append: "xs \<noteq> [] \<Longrightarrow> strip_space (xs @ ys) = strip_space xs @ ys"
  by (cases xs) auto

lemma ends_unfinished_strip: "ends_unfinished (strip_space xs) = ends_unfinished xs"
  by (cases xs) (auto simp: ends_unfinished_def replacement_char_def)

lemma ex_decodes_in_context: "decodes_in_context (\<lambda>ts. strip_space (ex_decode (concat ts)))"
  unfolding decodes_in_context_def
proof (intro conjI allI impI)
  let ?D = "\<lambda>ts. ex_decode (concat ts)" and ?T = "\<lambda>ts. strip_space (ex_decode (concat ts))"
  fix b c assume "settled ?T b"
  then obtain a where a: "\<not> ends_unfinished (?D a)" "\<not> ends_unfinished (?D (a @ b))" "length (?T a) < length (?T (a @ b))"
    by (auto simp: settled_def ends_unfinished_strip)
  have d: "?D (a @ b) = ?D a @ ?D b" using ex_decode_append [OF a(1)] by simp
  then have b: "?D b \<noteq> []" using a(3) by (cases "?D b") auto
  then have f: "\<not> ends_unfinished (?D b)" using a(2) d ends_unfinished_append by metis
  have "?T (x @ b @ c) = ?T (x @ b) @ ?D c" if "\<not> ends_unfinished (?T x)" for x
  proof -
    have "\<not> ends_unfinished (?D x)" using that by (simp add: ends_unfinished_strip)
    then have "?D (x @ b @ c) = (?D x @ ?D b) @ ?D c" "?D (x @ b) = ?D x @ ?D b"
      using ex_decode_append [of "concat x"] ex_decode_append [OF f] by simp_all
    then show ?thesis using strip_space_append [of "?D x @ ?D b" "?D c"] b by simp
  qed
  then show "\<exists>t. \<forall>x. \<not> ends_unfinished (?T x) \<longrightarrow> ?T (x @ b @ c) = ?T (x @ b) @ t" by blast
qed simp

definition ex_byte_tokenizer :: tokenizer where
  "ex_byte_tokenizer = \<lparr>tk_convert_ids_to_tokens = (\<lambda>skip ids. map (\<lambda>i. Some [i]) ids),
     tk_convert_tokens_to_string = (\<lambda>ts. strip_space (ex_decode (concat ts))), tk_len = 1000, tk_is_fast = True, tk_added_vocab = [],
     tk_all_special_tokens = [], tk_eos_token_id = Some 2\<rparr>"

definition ex_lps :: "token_id \<Rightarrow> token_id \<times> (token_id \<times> logprob) list" where
  "ex_lps t = (t, [(t, \<lparr>lp_logprob = 0, lp_rank = None, lp_decoded_token = None\<rparr>)])"

definition ex_detok_params :: sampling_params where
  "ex_detok_params = \<lparr>sp_n = 1, sp_best_of = Some 1, sp_presence_penalty = 0,
     sp_frequency_penalty = 0, sp_repetition_penalty = 1, sp_temperature = 1, sp_top_p = 1, sp_top_k = - 1, sp_min_p = 0,
     sp_seed = None, sp_stop = Stop_many [], sp_stop_token_ids = Some [], sp_ignore_eos = False, sp_max_tokens = Some 4,
     sp_min_tokens = 0, sp_logprobs = None, sp_prompt_logprobs = None, sp_detokenize = True,
     sp_skip_special_tokens = True, sp_spaces_between_special_tokens = True, sp_include_stop_str_in_output = False,
     sp_truncate_prompt_tokens = None, sp_output_kind = DELTA, sp_output_text_buffer_length = 0,
     sp_all_stop_token_ids = {}\<rparr>"

definition ex_detok :: "token_id list \<Rightarrow> py_error + sequence" where
  "ex_detok ts = foldE (decode_step ex_byte_tokenizer ex_detok_params) (map ex_lps ts) (ex_seq 0 [5, 6])"

lemma ex_detok_runs:
  "map_sum id sq_output_text (ex_detok [32, 200]) = Inr [32]" "map_sum id sq_output_text (ex_detok [32, 200, 201]) = Inr [32, 500]"
  by code_simp+


end
