(* ===== verification/Multi_Step.thy ===== *)
theory Multi_Step
  imports Streaming
begin

text \<open>
  The multi-step output processor cuts a burst of tokens before it appends them one by one. The cuts
  change nothing: the loop would have stopped there.
\<close>

section \<open>The loop\<close>

lemma append_token_effect:
  assumes "sq_append_token_id t lps seq = Inr seq'"
  shows "sq_get_output_len seq' = Suc (sq_get_output_len seq)" "sq_status seq' = sq_status seq"
    "sq_eos_token_id seq' = sq_eos_token_id seq" "sd_output_token_ids (sq_data seq') = sd_output_token_ids (sq_data seq) @ [t]"
  using assms by (auto simp: sq_append_token_id_def sd_append_token_id_def sq_get_output_len_def sd_get_output_len_def)

lemma process_decode_and_stop_decodes:
  assumes "process_decode_and_stop P p seq = Inr seq'"
  obtains n seq1 where "same_tracking seq seq1" "sq_status seq1 = sq_status seq"
    "maybe_stop_sequence (pr_max_model_len P) n p None seq1 = Inr seq'"
proof -
  obtain n seq1 where d: "(if sp_detokenize p then decode_sequence_inplace (pr_tokenizer P seq) p seq else Inr (0, seq)) = Inr (n, seq1)"
    and m: "maybe_stop_sequence (pr_max_model_len P) n p None seq1 = Inr seq'"
    using assms by (auto simp: process_decode_and_stop_def)
  have "same_tracking seq seq1 \<and> sq_status seq1 = sq_status seq"
    using d decode_effect [of "pr_tokenizer P seq" p seq n seq1] by (auto simp: same_tracking_def split: if_splits)
  with that m show ?thesis by blast
qed

lemma update_computed_output: "sd_update_num_computed_tokens n d = Inr d' \<Longrightarrow> sd_output_token_ids d' = sd_output_token_ids d"
  by (auto simp: sd_update_num_computed_tokens_def Let_def split: if_splits)

lemma check_stop_strings_eos: "sq_eos_token_id (snd (check_stop_strings stops n inc seq)) = sq_eos_token_id seq"
  by (induction stops) (auto simp: Let_def split: option.splits)

lemma maybe_stop_eos:
  assumes "maybe_stop_sequence max_len n p lora seq = Inr seq'"
  shows "sq_eos_token_id seq' = sq_eos_token_id seq"
    "sp_min_tokens p \<le> int (sq_get_output_len seq) \<Longrightarrow> \<not> sp_ignore_eos p \<Longrightarrow> sd_output_token_ids (sq_data seq) \<noteq> [] \<Longrightarrow>
      Some (last (sd_output_token_ids (sq_data seq))) = sq_eos_token_id seq \<Longrightarrow> sq_is_finished seq'"
proof -
  obtain so seq1 where c: "check_stop p n seq = (so, seq1)" by (cases "check_stop p n seq")
  have "sq_eos_token_id seq1 = sq_eos_token_id seq" "sq_eos_token_id (remove_last_text p n seq) = sq_eos_token_id seq"
    using c check_stop_strings_eos [of "stop_strings p" n _ seq]
    by (auto simp: check_stop_def remove_last_text_def split: if_splits dest!: arg_cong [of _ _ snd])
  then show "sq_eos_token_id seq' = sq_eos_token_id seq" using assms c
    by (auto simp: maybe_stop_sequence_def split: if_splits option.splits)
  assume "sp_min_tokens p \<le> int (sq_get_output_len seq)" "\<not> sp_ignore_eos p" "sd_output_token_ids (sq_data seq) \<noteq> []"
    "Some (last (sd_output_token_ids (sq_data seq))) = sq_eos_token_id seq"
  then have "sq_status seq' = FINISHED_STOPPED" using assms
    by (auto simp: maybe_stop_sequence_def sd_get_last_token_id_def)
  then show "sq_is_finished seq'" by (simp add: sq_is_finished_def status_is_finished_def)
qed

text \<open>One round of the loop: the state after it, and the rest.\<close>

lemma append_tokens_Cons:
  assumes "append_tokens P p ((t, lps) # rest) pre seq = Inr seq'" "params_ok p"
  obtains seq1 where "sq_get_output_len seq1 = Suc (sq_get_output_len seq)" "sq_eos_token_id seq1 = sq_eos_token_id seq"
    "sq_is_finished seq1 \<or> Some (int (sq_get_output_len seq1)) \<noteq> sp_max_tokens p"
    "sp_min_tokens p \<le> 1 \<Longrightarrow> \<not> sp_ignore_eos p \<Longrightarrow> Some t = sq_eos_token_id seq \<Longrightarrow> sq_is_finished seq1"
    "(if sq_is_finished seq1 then seq' = seq1 else append_tokens P p rest False seq1 = Inr seq')"
proof -
  obtain sa sb sc where s: "sq_append_token_id t lps seq = Inr sa"
    "(if pre then Inr sa else bindE (sd_update_num_computed_tokens 1 (sq_data sa)) (\<lambda>d. Inr (sa\<lparr>sq_data := d\<rparr>))) = Inr sb"
    "process_decode_and_stop P p sb = Inr sc" "(if sq_is_finished sc then Inr sc else append_tokens P p rest False sc) = Inr seq'"
    using assms(1) by auto
  note a = append_token_effect [OF s(1)]
  have b: "sd_output_token_ids (sq_data sb) = sd_output_token_ids (sq_data seq) @ [t]" "sq_eos_token_id sb = sq_eos_token_id seq"
    using s(2) a update_computed_output by (auto split: if_splits)
  obtain n sd where d: "same_tracking sb sd" "sq_status sd = sq_status sb"
    "maybe_stop_sequence (pr_max_model_len P) n p None sd = Inr sc"
    using process_decode_and_stop_decodes [OF s(3)] .
  have e: "sd_output_token_ids (sq_data sd) = sd_output_token_ids (sq_data seq) @ [t]" "sq_eos_token_id sd = sq_eos_token_id seq"
    using b d(1) by (simp_all add: same_tracking_def)
  note m = maybe_stop_length [OF d(3) assms(2)]
  have len: "sq_get_output_len sd = Suc (sq_get_output_len seq)" "sq_get_output_len sc = Suc (sq_get_output_len seq)"
    using e(1) m by (simp_all add: sq_get_output_len_def sd_get_output_len_def)
  show ?thesis
  proof (rule that [of sc])
    show "sq_eos_token_id sc = sq_eos_token_id seq" using maybe_stop_eos(1) [OF d(3)] e(2) by simp
    show "sq_is_finished sc" if "sp_min_tokens p \<le> 1" "\<not> sp_ignore_eos p" "Some t = sq_eos_token_id seq"
      using maybe_stop_eos(2) [OF d(3)] that e len(1) by simp
  qed (use m len s(4) in \<open>auto split: if_splits\<close>)
qed

lemma append_tokens_stops:
  assumes "\<not> sq_is_finished seq" "\<And>seq'. append_tokens P p xs pre seq = Inr seq' \<Longrightarrow> sq_is_finished seq'"
  shows "append_tokens P p (xs @ ys) pre seq = append_tokens P p xs pre seq"
  using assms
proof (induction xs arbitrary: pre seq)
  case (Cons x xs)
  obtain t lps where x: "x = (t, lps)" by fastforce
  show ?case unfolding x append_Cons append_tokens.simps
  proof (intro bindE_cong refl if_cong)
    fix sa sb sc
    assume s: "sq_append_token_id t lps seq = Inr sa"
      "(if pre then Inr sa else bindE (sd_update_num_computed_tokens 1 (sq_data sa)) (\<lambda>d. Inr (sa\<lparr>sq_data := d\<rparr>))) = Inr sb"
      "process_decode_and_stop P p sb = Inr sc" "\<not> sq_is_finished sc"
    show "append_tokens P p (xs @ ys) False sc = append_tokens P p xs False sc"
    proof (rule Cons.IH [OF s(4)])
      fix seq' assume "append_tokens P p xs False sc = Inr seq'"
      then have "append_tokens P p (x # xs) pre seq = Inr seq'" using s by (simp add: x)
      then show "sq_is_finished seq'" by (rule Cons.prems(2))
    qed
  qed
qed simp

lemma append_tokens_max:
  assumes "append_tokens P p xs pre seq = Inr seq'" "params_ok p" "sp_max_tokens p = Some k"
    "int (sq_get_output_len seq) < k" "int (sq_get_output_len seq) + int (length xs) = k"
  shows "sq_is_finished seq'"
  using assms
proof (induction xs arbitrary: pre seq)
  case (Cons x xs)
  obtain t lps where x: "x = (t, lps)" by fastforce
  obtain seq1 where s: "sq_get_output_len seq1 = Suc (sq_get_output_len seq)"
    "sq_is_finished seq1 \<or> Some (int (sq_get_output_len seq1)) \<noteq> sp_max_tokens p"
    "if sq_is_finished seq1 then seq' = seq1 else append_tokens P p xs False seq1 = Inr seq'"
    using append_tokens_Cons [OF Cons.prems(1) [unfolded x] Cons.prems(2)] by metis
  show ?case
  proof (cases "sq_is_finished seq1")
    case False
    then have "int (sq_get_output_len seq1) < k" using s Cons.prems(3-5) by auto
    then show ?thesis using Cons.IH [OF _ Cons.prems(2,3)] False s Cons.prems(5) by simp
  qed (use s in simp)
qed simp

lemma append_tokens_eos:
  assumes "append_tokens P p (xs @ [(t, lps)]) pre seq = Inr seq'" "params_ok p" "sp_min_tokens p \<le> 1" "\<not> sp_ignore_eos p"
    "Some t = sq_eos_token_id seq"
  shows "sq_is_finished seq'"
  using assms
proof (induction xs arbitrary: pre seq)
  case Nil
  then show ?case using append_tokens_Cons [of P p t lps "[]" pre seq seq'] by (metis append_Nil)
next
  case (Cons x xs)
  obtain u l where x: "x = (u, l)" by fastforce
  obtain seq1 where s: "sq_eos_token_id seq1 = sq_eos_token_id seq"
    "if sq_is_finished seq1 then seq' = seq1 else append_tokens P p (xs @ [(t, lps)]) False seq1 = Inr seq'"
    using append_tokens_Cons [OF Cons.prems(1) [unfolded x append_Cons] Cons.prems(2)] by metis
  then show ?case using Cons.IH [of False seq1] Cons.prems(2-5) by (auto split: if_splits)
qed

section \<open>The cuts\<close>

lemma truncate_max_tokens_take:
  assumes "int len < k"
  shows "truncate_max_tokens k len ids = take (nat (k - int len)) ids"
  using assms by (auto simp: truncate_max_tokens_def Let_def intro: arg_cong)

lemma truncate_after_eos_cases:
  "truncate_after_eos eos ids = ids \<or>
    (\<exists>n t. n < length ids \<and> truncate_after_eos eos ids = take (Suc n) ids \<and> ids ! n = t \<and> Some t = eos)"
proof (induction ids)
  case (Cons i ids)
  then show ?case by (cases "Some i = eos") (auto intro: exI [of _ 0] exI [of _ "Suc _"])
qed simp


text \<open>Three tokens, the second one ends the sequence.\<close>

definition ex_burst :: "seq_output list" where
  "ex_burst = [ex_sample 0 97, ex_sample 0 2, ex_sample 0 98]"

lemma ex_burst_runs:
  "map_sum id (\<lambda>s. (sd_output_token_ids (sq_data s), sq_output_text s))
     (process_seq_outputs ex_processor (ex_accepted [] 0 0) ex_burst (ex_seq 0 [5, 6])) = Inr ([97, 2], [97])"
  by code_simp


text \<open>
  The fallback for a sequence aborted in the meantime is never taken, because \<open>get_seqs\<close> returns an
  empty list and not \<open>None\<close>: the assertion fails.
\<close>

lemma aborted_sequence_fails_assertion:
  "sg_seqs g = [s] \<Longrightarrow> sq_status s = FINISHED_ABORTED \<Longrightarrow> process_outputs_multi P p outputs is_async g = Inl AssertionError"
  by (simp add: process_outputs_multi_def sg_get_seqs_filter py_assert_def)

end
