(* ===== verification/Request_Output.thy ===== *)
theory Request_Output
  imports Output_Processor
begin

text \<open>
  \<open>vllm/outputs.py\<close>: the answer for a group. Taking the output moves the offsets of the delta output in
  the sequences, so the group is returned as well. Prompt texts are passed through and left out.
\<close>

record completion_output =
  co_index :: nat
  co_text :: py_text
  co_token_ids :: "token_id list"
  co_cumulative_logprob :: "real option"
  co_logprobs :: "(token_id \<times> logprob) list list option"
  co_finish_reason :: "string option"
  co_stop_reason :: "stop_reason option"

definition co_finished :: "completion_output \<Rightarrow> bool" where
  "co_finished c \<longleftrightarrow> co_finish_reason c \<noteq> None"

record request_output =
  rq_request_id :: string
  rq_prompt_token_ids :: "token_id list option"
  rq_prompt_logprobs :: "(token_id \<times> logprob) list option list option"
  rq_outputs :: "completion_output list"
  rq_finished :: bool
  rq_metrics :: request_metrics
  rq_lora_request :: "lora_request option"
  rq_encoder_prompt_token_ids :: "token_id list option"

text \<open>The best \<open>n\<close> sequences by cumulative log-probability, with their places in the group.\<close>

definition top_n_seqs :: "sampling_params \<Rightarrow> seq_group \<Rightarrow> (nat \<times> sequence) list" where
  "top_n_seqs p g =
     (let seqs = enumerate 0 (sg_get_seqs None g) in
      if length seqs = 1 then seqs
      else take (nat (sp_n p)) (sort_key (\<lambda>(_, s). - sd_cumulative_logprob (sq_data s)) seqs))"

definition completion_of ::
  "sampling_params \<Rightarrow> nat \<Rightarrow> sequence \<Rightarrow> bool \<Rightarrow> py_error + (completion_output \<times> sequence \<times> bool)" where
  "completion_of p index seq include_prompt =
     (let delta = (sp_output_kind p = DELTA); include_logprobs = (sp_logprobs p \<noteq> None);
          (output_text, seq) = get_output_text_to_return (sp_output_text_buffer_length p) delta seq in
      bindE (get_output_token_ids_to_return delta seq) (\<lambda>(output_token_ids, seq).
      let num_output_tokens = length output_token_ids;
          logprobs = (if include_logprobs then Some (sq_output_logprobs seq) else None);
          logprobs = (if delta then map_option (last_slice (int num_output_tokens)) logprobs else logprobs);
          include_prompt = (if delta \<and> include_prompt \<and> sq_get_output_len seq > num_output_tokens then False else include_prompt)
      in Inr (\<lparr>co_index = index, co_text = output_text, co_token_ids = output_token_ids,
               co_cumulative_logprob = (if include_logprobs then Some (sd_cumulative_logprob (sq_data seq)) else None),
               co_logprobs = logprobs, co_finish_reason = get_finished_reason (sq_status seq),
               co_stop_reason = sq_stop_reason seq\<rparr>, seq, include_prompt)))"

text \<open>
  The loop over the chosen sequences. With the cache of output objects the index of an output is its place
  in the answer, without it the place of the sequence in the group.
\<close>

fun collect_outputs ::
  "sampling_params \<Rightarrow> bool \<Rightarrow> nat \<Rightarrow> (nat \<times> sequence) list \<Rightarrow> bool \<Rightarrow> seq_group \<Rightarrow>
     py_error + (completion_output list \<times> bool \<times> seq_group)" where
  "collect_outputs p use_cache i [] include_prompt g = Inr ([], include_prompt, g)"
| "collect_outputs p use_cache i ((k, seq) # seqs) include_prompt g =
     bindE (completion_of p (if use_cache then i else k) seq include_prompt) (\<lambda>(c, seq, include_prompt).
     bindE (collect_outputs p use_cache (Suc i) seqs include_prompt (g\<lparr>sg_seqs := (sg_seqs g)[k := seq]\<rparr>))
       (\<lambda>(cs, include_prompt, g). Inr (c # cs, include_prompt, g)))"

definition request_output_from_seq_group ::
  "sampling_params option \<Rightarrow> bool \<Rightarrow> real \<Rightarrow> seq_group \<Rightarrow> py_error + (request_output option \<times> seq_group)" where
  "request_output_from_seq_group params use_cache now g =
     bindE (from_option ValueError params) (\<lambda>p.
     let finished = sg_is_finished g in
     if sp_output_kind p = FINAL_ONLY \<and> \<not> finished then Inr (None, g)
     else bindE (collect_outputs p use_cache 0 (top_n_seqs p g) True g) (\<lambda>(outputs, include_prompt, g).
          bindE (raise_unless IndexError (include_prompt \<longrightarrow> sg_seqs g \<noteq> [])) (\<lambda>_.
          let g = set_finished_time (if finished then Some now else None) g in
          Inr (Some \<lparr>rq_request_id = sg_request_id g,
                 rq_prompt_token_ids = (if include_prompt then Some (sd_prompt_token_ids (sq_data (hd (sg_seqs g)))) else None),
                 rq_prompt_logprobs = (if include_prompt then sg_prompt_logprobs g else None),
                 rq_outputs = outputs, rq_finished = finished, rq_metrics = sg_metrics g,
                 rq_lora_request = sg_lora_request g,
                 rq_encoder_prompt_token_ids = (if include_prompt
                   then map_option (\<lambda>s. sd_prompt_token_ids (sq_data s)) (sg_encoder_seq g) else None)\<rparr>, g))))"

end
