(* ===== verification/Engine.thy ===== *)
theory Engine
  imports Request_Output
begin

text \<open>
  \<open>vllm/engine/llm_engine.py\<close>: what the engine does with the output of the model. The engine has one
  scheduler for each pipeline stage (virtual engine); the groups of a batch live in the store of its
  scheduler. Embedding models, statistics and tracing are left out.
\<close>

section \<open>State\<close>

text \<open>A batch that was executed; \<open>oi_outputs\<close> holds the model output as [step][group].\<close>

record output_data =
  od_outputs :: "group_output list list"
  od_metadata :: "metadata list"
  od_scheduled :: "scheduled list"
  od_ignored :: "gid list"
  od_is_async :: bool
  od_is_last_step :: bool
  od_is_first_step_output :: "bool option"
  od_skip :: "nat list"

record engine_config =
  ec_is_multi_step :: bool
  ec_chunked_prefill_enabled :: bool
  ec_speculative :: bool
  ec_use_cached_outputs :: bool
  ec_has_callback :: bool
  ec_multi_step_stream_outputs :: bool
  ec_pipeline_parallel :: bool

text \<open>
  The engine with the context of the virtual engine \<open>en_ve\<close>. \<open>en_params\<close> are the sampling parameters of
  the groups, \<open>None\<close> for pooling. \<open>en_delivered\<close> holds what \<open>process_request_outputs_callback\<close> was called
  with, \<open>en_cached\<close> the batch of which steps remain (multi-step scheduling).
\<close>

record 'b engine =
  en_schedulers :: "'b scheduler list"
  en_ve :: nat
  en_seq_counter :: nat
  en_params :: "gid \<Rightarrow> sampling_params option"
  en_output_queue :: "output_data list"
  en_request_outputs :: "request_output list"
  en_delivered :: "request_output list list"
  en_cached :: "(metadata list \<times> scheduler_outputs \<times> bool) option"

definition en_scheduler :: "'b engine \<Rightarrow> 'b scheduler" where
  "en_scheduler st = en_schedulers st ! en_ve st"

definition en_group :: "gid \<Rightarrow> 'b engine \<Rightarrow> seq_group" where
  "en_group i st = sc_groups (en_scheduler st) i"

definition en_put_group :: "gid \<Rightarrow> seq_group \<Rightarrow> 'b engine \<Rightarrow> 'b engine" where
  "en_put_group i g st = st\<lparr>en_schedulers := (en_schedulers st)[en_ve st := put_group i g (en_scheduler st)]\<rparr>"

section \<open>Computed tokens\<close>

definition update_num_computed_tokens_for_multi_step_prefill ::
  "engine_config \<Rightarrow> metadata \<Rightarrow> bool option \<Rightarrow> seq_group \<Rightarrow> py_error + seq_group" where
  "update_num_computed_tokens_for_multi_step_prefill cfg md is_first_step_output g =
     bindE (py_assert (ec_is_multi_step cfg)) (\<lambda>_.
     if \<not> md_is_prompt md then Inr g
     else bindE (if ec_chunked_prefill_enabled cfg then Inr (is_first_step_output = None \<or> is_first_step_output = Some True)
                 else bindE (py_assert (gs_num_steps (sg_state g) = 1)) (\<lambda>_. Inr True)) (\<lambda>do_update.
          if do_update then sg_update_num_computed_tokens (md_token_chunk_size md) g else Inr g))"

definition update_computed :: "engine_config \<Rightarrow> metadata \<Rightarrow> bool option \<Rightarrow> seq_group \<Rightarrow> py_error + seq_group" where
  "update_computed cfg md is_first_step_output g =
     (if ec_is_multi_step cfg then update_num_computed_tokens_for_multi_step_prefill cfg md is_first_step_output g
      else sg_update_num_computed_tokens (md_token_chunk_size md) g)"

section \<open>Processing the output of one group\<close>

text \<open>The output processor that \<open>create_output_processor\<close> chose: \<open>multi\<close> for multi-step or speculative decoding.\<close>

definition run_output_processor ::
  "'b manager_ops \<Rightarrow> processor \<Rightarrow> bool \<Rightarrow> gid \<Rightarrow> group_output list \<Rightarrow> bool \<Rightarrow> bool \<Rightarrow> 'b engine \<Rightarrow> py_error + 'b engine" where
  "run_output_processor B P multi i outputs do_sample is_async st =
     (let g = en_group i st; params = en_params st i in
      bindE (if multi then process_prompt_logprob_multi P params outputs g
             else process_prompt_logprob_single P params outputs g) (\<lambda>g.
      if \<not> do_sample then Inr (en_put_group i g st)
      else if multi
      then bindE (from_option AttributeError params) (\<lambda>p.
           bindE (process_outputs_multi P p outputs is_async g) (\<lambda>g. Inr (en_put_group i g st)))
      else bindE (process_outputs B P params outputs is_async
                    \<lparr>ps_group = g, ps_schedulers = en_schedulers st, ps_seq_counter = en_seq_counter st\<rparr>) (\<lambda>ps.
           Inr (en_put_group i (ps_group ps)
                  (st\<lparr>en_schedulers := ps_schedulers ps, en_seq_counter := ps_seq_counter ps\<rparr>)))))"

definition process_group ::
  "'b manager_ops \<Rightarrow> engine_config \<Rightarrow> processor \<Rightarrow> bool \<Rightarrow> bool \<Rightarrow> bool option \<Rightarrow> metadata \<Rightarrow> gid \<Rightarrow> group_output list \<Rightarrow>
     'b engine \<Rightarrow> py_error + 'b engine" where
  "process_group B cfg P multi is_async is_first_step_output md i outputs st =
     bindE (if is_async then Inr st
            else bindE (update_computed cfg md is_first_step_output (en_group i st)) (\<lambda>g. Inr (en_put_group i g st))) (\<lambda>st.
     bindE (raise_unless IndexError (outputs \<noteq> [])) (\<lambda>_.
     run_output_processor B P multi i outputs (md_do_sample md) is_async st))"

text \<open>The loop over the groups of the batch: the places that were finished before, and that finish now.\<close>

fun process_groups ::
  "'b manager_ops \<Rightarrow> engine_config \<Rightarrow> processor \<Rightarrow> bool \<Rightarrow> output_data \<Rightarrow> group_output list list \<Rightarrow> bool option \<Rightarrow> nat list \<Rightarrow>
     'b engine \<Rightarrow> py_error + (nat list \<times> nat list \<times> 'b engine)" where
  "process_groups B cfg P multi od by_group first [] st = Inr ([], [], st)"
| "process_groups B cfg P multi od by_group first (k # ks) st =
     (if list_ex (\<lambda>j. j = k) (od_skip od) then process_groups B cfg P multi od by_group first ks st
      else let i = sch_group (od_scheduled od ! k) in
           if sg_is_finished (en_group i st)
           then bindE (process_groups B cfg P multi od by_group first ks st) (\<lambda>(before, finished_now, st).
                Inr (k # before, finished_now, st))
           else bindE (raise_unless IndexError (k < length by_group)) (\<lambda>_.
                bindE (process_group B cfg P multi (od_is_async od) first (od_metadata od ! k) i (by_group ! k) st) (\<lambda>st.
                let fin = sg_is_finished (en_group i st) in
                bindE (process_groups B cfg P multi od by_group first ks st) (\<lambda>(before, finished_now, st).
                Inr (before, if fin then k # finished_now else finished_now, st)))))"

section \<open>Answers\<close>

definition create_output :: "engine_config \<Rightarrow> real \<Rightarrow> gid \<Rightarrow> 'b engine \<Rightarrow> py_error + 'b engine" where
  "create_output cfg now i st =
     (let g = en_group i st in
      bindE (request_output_from_seq_group (en_params st i) (ec_use_cached_outputs cfg) now g) (\<lambda>(out, g).
      let st = en_put_group i g st in
      Inr (case out of None \<Rightarrow> st | Some r \<Rightarrow> st\<lparr>en_request_outputs := en_request_outputs st @ [r]\<rparr>)))"

definition answer_group :: "engine_config \<Rightarrow> real \<Rightarrow> output_data \<Rightarrow> nat \<Rightarrow> 'b engine \<Rightarrow> py_error + 'b engine" where
  "answer_group cfg now od k st =
     (let i = sch_group (od_scheduled od ! k) in
      bindE (maybe_set_first_token_time now (en_group i st)) (\<lambda>g. create_output cfg now i (en_put_group i g st)))"

definition answer_ignored :: "engine_config \<Rightarrow> real \<Rightarrow> gid \<Rightarrow> 'b engine \<Rightarrow> py_error + 'b engine" where
  "answer_ignored cfg now i st =
     (let g = en_group i st in
      case en_params st i of
        Some p \<Rightarrow> if sp_output_kind p = DELTA \<and> \<not> sg_is_finished g then Inr st else create_output cfg now i st
      | None \<Rightarrow> create_output cfg now i st)"

definition deliver :: "'b engine \<Rightarrow> 'b engine" where
  "deliver st = st\<lparr>en_delivered := en_delivered st @ [en_request_outputs st], en_request_outputs := []\<rparr>"

definition deliver_if :: "engine_config \<Rightarrow> bool \<Rightarrow> 'b engine \<Rightarrow> 'b engine" where
  "deliver_if cfg c st = (if c \<and> ec_has_callback cfg then deliver st else st)"

section \<open>Processing the output of a batch\<close>

text \<open>The places of the batch to work on: all of them, or that of one request.\<close>

definition indices_of :: "output_data \<Rightarrow> string option \<Rightarrow> py_error + nat list" where
  "indices_of od request_id =
     (case request_id of
        None \<Rightarrow> Inr [0..<length (od_metadata od)]
      | Some r \<Rightarrow>
          (case find (\<lambda>k. md_request_id (od_metadata od ! k) = r) [0..<length (od_metadata od)] of
             None \<Rightarrow> Inr []
           | Some k \<Rightarrow> bindE (py_assert (\<not> list_ex (\<lambda>j. j = k) (od_skip od))) (\<lambda>_. Inr [k])))"

definition outputs_by_group :: "engine_config \<Rightarrow> output_data \<Rightarrow> py_error + group_output list list" where
  "outputs_by_group cfg od =
     (if length (od_outputs od) > 1
      then bindE (py_assert (ec_is_multi_step cfg \<or> ec_speculative cfg)) (\<lambda>_.
           create_output_by_sequence_group (od_outputs od) (length (od_metadata od)))
      else Inr (case od_outputs od of [] \<Rightarrow> [] | out # _ \<Rightarrow> map (\<lambda>g. [g]) out))"

definition each_free_finished :: "'b manager_ops \<Rightarrow> 'b engine \<Rightarrow> py_error + 'b engine" where
  "each_free_finished B st =
     bindE (each_scheduler (free_finished_seq_groups B) (en_schedulers st)) (\<lambda>ss. Inr (st\<lparr>en_schedulers := ss\<rparr>))"

definition process_model_outputs ::
  "'b manager_ops \<Rightarrow> engine_config \<Rightarrow> processor \<Rightarrow> bool \<Rightarrow> real \<Rightarrow> string option \<Rightarrow> 'b engine \<Rightarrow> py_error + 'b engine" where
  "process_model_outputs B cfg P multi now request_id st =
     (case en_output_queue st of
        [] \<Rightarrow> Inr st
      | od # queue \<Rightarrow>
          let st = (if request_id = None then st\<lparr>en_output_queue := queue\<rparr> else st) in
          bindE (py_assert (length (od_metadata od) = length (od_scheduled od))) (\<lambda>_.
          bindE (outputs_by_group cfg od) (\<lambda>by_group.
          let first = (if length (od_outputs od) > 1 then None else od_is_first_step_output od) in
          bindE (indices_of od request_id) (\<lambda>ks.
          if request_id \<noteq> None \<and> ks = [] then Inr st
          else bindE (process_groups B cfg P multi od by_group first ks st) (\<lambda>(before, finished_now, st).
          bindE (foldE (answer_group cfg now od) finished_now st) (\<lambda>st.
          if request_id \<noteq> None
          then Inr (deliver_if cfg (finished_now \<noteq> [])
                 (st\<lparr>en_output_queue := od\<lparr>od_skip := od_skip od @ [hd ks]\<rparr> # queue\<rparr>))
          else bindE (if finished_now \<noteq> [] then each_free_finished B st else Inr st) (\<lambda>st.
          if \<not> od_is_last_step od \<and> \<not> ec_multi_step_stream_outputs cfg then Inr (deliver_if cfg (finished_now \<noteq> []) st)
          else bindE (foldE (answer_group cfg now od)
                        (filter (\<lambda>k. \<not> list_ex (\<lambda>j. j = k) (od_skip od @ before @ finished_now)) ks) st) (\<lambda>st.
          if \<not> od_is_last_step od then Inr (deliver_if cfg True st)
          else bindE (foldE (answer_ignored cfg now) (od_ignored od) st) (\<lambda>st.
          Inr (deliver_if cfg (en_request_outputs st \<noteq> []) st))))))))))"

section \<open>One step of the engine\<close>

text \<open>The tokens of a batch are appended right away when its output is processed later.\<close>

definition advance_group :: "engine_config \<Rightarrow> metadata \<Rightarrow> group_output \<Rightarrow> seq_group \<Rightarrow> py_error + seq_group" where
  "advance_group cfg md output g =
     (if sg_is_finished g then Inr g
      else bindE (update_computed cfg md (Some (gs_num_steps (sg_state g) = 1)) g) (\<lambda>g.
           if \<not> md_do_sample md then Inr g
           else bindE (py_assert (length (go_samples output) = 1)) (\<lambda>_.
                bindE (py_assert (length (sg_seqs g) = 1)) (\<lambda>_.
                let seq = hd (sg_seqs g); is_prefill_append = (sd_get_num_uncomputed_tokens (sq_data seq) = 0) in
                bindE (append_sample (hd (go_samples output)) seq) (\<lambda>seq.
                let g = g\<lparr>sg_seqs := [seq]\<rparr> in
                if ec_is_multi_step cfg \<and> \<not> is_prefill_append then sg_update_num_computed_tokens 1 g else Inr g)))))"

definition advance_to_next_step ::
  "engine_config \<Rightarrow> group_output list \<Rightarrow> metadata list \<Rightarrow> scheduled list \<Rightarrow> 'b engine \<Rightarrow> py_error + 'b engine" where
  "advance_to_next_step cfg output mds scheduled st =
     foldE (\<lambda>(md, out, x) st.
         bindE (advance_group cfg md out (en_group (sch_group x) st)) (\<lambda>g. Inr (en_put_group (sch_group x) g st)))
       (zip mds (zip output scheduled)) st"

definition put_scheduler :: "'b scheduler \<Rightarrow> 'b engine \<Rightarrow> 'b engine" where
  "put_scheduler s st = st\<lparr>en_schedulers := (en_schedulers st)[en_ve st := s]\<rparr>"

definition has_unfinished_requests :: "'b engine \<Rightarrow> bool" where
  "has_unfinished_requests st \<longleftrightarrow> list_ex has_unfinished_seqs (en_schedulers st)"

text \<open>
  The state that the metadata of a scheduled group refers to: that of the group, or for delta data a fresh
  one. The metadata of a batch stand in the order of its groups.
\<close>

definition md_state :: "metadata \<Rightarrow> scheduled \<Rightarrow> 'b engine \<Rightarrow> group_state" where
  "md_state md x st =
     (case md_payload md of
        FullData _ \<Rightarrow> sg_state (en_group (sch_group x) st)
      | DeltaData _ \<Rightarrow> \<lparr>gs_num_steps = 1, gs_current_step = 0\<rparr>)"

definition has_remaining_steps ::
  "engine_config \<Rightarrow> metadata list \<Rightarrow> scheduler_outputs \<Rightarrow> 'b engine \<Rightarrow> py_error + bool" where
  "has_remaining_steps cfg mds out st =
     (if \<not> ec_is_multi_step cfg \<or> mds = [] then Inr False
      else let remaining = map2 (\<lambda>md x. remaining_steps (md_state md x st)) mds (out_scheduled_seq_groups out) in
           bindE (py_assert (list_all (\<lambda>r. r = hd remaining) (tl remaining))) (\<lambda>_. Inr (hd remaining > 0)))"

definition finish_step :: "metadata \<times> scheduled \<Rightarrow> 'b engine \<Rightarrow> py_error + 'b engine" where
  "finish_step = (\<lambda>(md, x) st.
     case md_payload md of
       DeltaData _ \<Rightarrow> Inl AttributeError
     | FullData _ \<Rightarrow>
         let g = en_group (sch_group x) st; state = sg_state g in
         bindE (py_assert (gs_current_step state < gs_num_steps state)) (\<lambda>_.
         Inr (en_put_group (sch_group x) (g\<lparr>sg_state := state\<lparr>gs_current_step := gs_current_step state + 1\<rparr>\<rparr>) st)))"

text \<open>The batch of the step: the cached one while steps of it remain, else a new one.\<close>

definition step_schedule ::
  "'b manager_ops \<Rightarrow> 'b config \<Rightarrow> engine_config \<Rightarrow> ('b engine \<Rightarrow> py_error + 'b engine) \<Rightarrow> (nat \<Rightarrow> real) \<Rightarrow> real \<Rightarrow> real \<Rightarrow>
     'b engine \<Rightarrow> py_error + ((metadata list \<times> scheduler_outputs \<times> bool) \<times> 'b engine)" where
  "step_schedule B scfg cfg process clock now elapsed st =
     bindE (case en_cached st of None \<Rightarrow> Inr False | Some (mds, out, _) \<Rightarrow> has_remaining_steps cfg mds out st) (\<lambda>remaining.
     if remaining then Inr (the (en_cached st), st)
     else bindE (schedule B scfg clock now elapsed (en_scheduler st)) (\<lambda>((mds, out, is_async), s).
          let st = put_scheduler s st in
          bindE (if \<not> is_async \<and> en_output_queue st \<noteq> [] then process st else Inr st) (\<lambda>st.
          Inr ((mds, out, is_async),
            if ec_is_multi_step cfg \<and> out_num_lookahead_slots out > 0
            then st\<lparr>en_cached := Some (mds, out, is_async)\<rparr> else st))))"

text \<open>
  The execution of the batch. \<open>model\<close> gives the output of the executor; with asynchronous processing the
  model runner calls the callback, the processing of the previous batch, once before it returns.
\<close>

definition step_execute ::
  "('b engine \<Rightarrow> py_error + 'b engine) \<Rightarrow> (metadata list \<Rightarrow> scheduler_outputs \<Rightarrow> string list \<Rightarrow> group_output list list) \<Rightarrow>
     metadata list \<times> scheduler_outputs \<times> bool \<Rightarrow> 'b engine \<Rightarrow> py_error + (group_output list list \<times> 'b engine)" where
  "step_execute process model batch st =
     (case batch of (mds, out, is_async) \<Rightarrow>
        if out_is_empty out
        then bindE (if en_output_queue st \<noteq> [] then process st else Inr st) (\<lambda>st. Inr ([], st))
        else let (finished_requests_ids, s) = get_and_reset_finished_requests_ids (en_scheduler st); st = put_scheduler s st in
             bindE (if is_async then process st else Inr st) (\<lambda>st. Inr (model mds out finished_requests_ids, st)))"

text \<open>The end of the last step of a batch.\<close>

definition step_finish ::
  "engine_config \<Rightarrow> ('b engine \<Rightarrow> py_error + 'b engine) \<Rightarrow> metadata list \<times> scheduler_outputs \<times> bool \<Rightarrow>
     group_output list list \<Rightarrow> 'b engine \<Rightarrow> py_error + 'b engine" where
  "step_finish cfg process batch outputs st =
     (case batch of (mds, out, is_async) \<Rightarrow>
        let scheduled = out_scheduled_seq_groups out;
            first = (mds \<noteq> [] \<and> gs_num_steps (md_state (hd mds) (hd scheduled) st) = 1);
            st = st\<lparr>en_cached := if ec_is_multi_step cfg then None else en_cached st,
                    en_output_queue := en_output_queue st @
                   [\<lparr>od_outputs = outputs, od_metadata = mds, od_scheduled = scheduled,
                     od_ignored = out_ignored_seq_groups out, od_is_async = is_async, od_is_last_step = True,
                     od_is_first_step_output = Some first, od_skip = []\<rparr>]\<rparr> in
        bindE (if outputs \<noteq> [] \<and> is_async
               then bindE (py_assert (length outputs = 1)) (\<lambda>_. advance_to_next_step cfg (hd outputs) mds scheduled st)
               else Inr st) (\<lambda>st.
        bindE (if is_async then Inr st else process st) (\<lambda>st.
        if has_unfinished_requests st then Inr st
        else bindE (if en_output_queue st \<noteq> [] then process st else Inr st) (\<lambda>st.
             bindE (py_assert (en_output_queue st = [])) (\<lambda>_. Inr st)))))"

definition step ::
  "'b manager_ops \<Rightarrow> 'b config \<Rightarrow> engine_config \<Rightarrow> processor \<Rightarrow> bool \<Rightarrow> (nat \<Rightarrow> real) \<Rightarrow> real \<Rightarrow> real \<Rightarrow>
     (metadata list \<Rightarrow> scheduler_outputs \<Rightarrow> string list \<Rightarrow> group_output list list) \<Rightarrow> 'b engine \<Rightarrow> py_error + 'b engine" where
  "step B scfg cfg P multi clock now elapsed model st =
     (let process = process_model_outputs B cfg P multi now None in
      bindE (raise_unless NotImplementedError (\<not> ec_pipeline_parallel cfg)) (\<lambda>_.
      bindE (step_schedule B scfg cfg process clock now elapsed (st\<lparr>en_request_outputs := []\<rparr>)) (\<lambda>((mds, out, is_async), st).
      bindE (step_execute process model (mds, out, is_async) st) (\<lambda>(outputs, st).
      bindE (if ec_is_multi_step cfg then foldE finish_step (zip mds (out_scheduled_seq_groups out)) st else Inr st) (\<lambda>st.
      bindE (has_remaining_steps cfg mds out st) (\<lambda>remaining.
      if remaining then Inr st else step_finish cfg process (mds, out, is_async) outputs st))))))"

end
