(* ===== verification/Engine_Answers.thy ===== *)
theory Engine_Answers
  imports Engine Streaming Scheduler_Queues
begin

text \<open>
  The engine answers every request of a batch exactly once.
\<close>

section \<open>What processing leaves alone\<close>

lemma each_scheduler_groups:
  assumes "each_scheduler f ss = Inr ss'" "\<And>s s'. f s = Inr s' \<Longrightarrow> sc_groups s' = sc_groups s"
  shows "map sc_groups ss' = map sc_groups ss"
  using assms(1) by (induction ss arbitrary: ss') (auto dest: assms(2))

lemma fork_seq_groups: "fork_seq B p c s = Inr s' \<Longrightarrow> sc_groups s' = sc_groups s"
  by (auto simp: fork_seq_def)

lemma stopped_group_groups:
  assumes "bindE (free_seq_group_cross_attn_blocks B i s) (\<lambda>s. free_finished_seqs B i
    (s\<lparr>sc_finished_requests_ids := sc_finished_requests_ids s @ [sg_request_id (sc_groups s i)]\<rparr>)) = Inr s'"
  shows "sc_groups s' = sc_groups s"
proof -
  obtain t where t: "free_seq_group_cross_attn_blocks B i s = Inr t"
    "free_finished_seqs B i (t\<lparr>sc_finished_requests_ids := sc_finished_requests_ids t @ [sg_request_id (sc_groups t i)]\<rparr>) = Inr s'"
    using assms by auto
  show ?thesis using free_finished_seqs_groups [OF t(2)] free_cross_groups [OF t(1)] by simp
qed

lemma free_finished_seq_groups_groups:
  assumes "free_finished_seq_groups B s = Inr s'"
  shows "sc_groups s' = sc_groups s"
proof -
  obtain s1 s2 where s: "foldE (free_finished_seq_group B) (sc_running s) s = Inr s1"
    "foldE (\<lambda>i s. bindE (free_seq_group_cross_attn_blocks B i s) (\<lambda>s. free_finished_seqs B i
        (s\<lparr>sc_finished_requests_ids := sc_finished_requests_ids s @ [sg_request_id (sc_groups s i)]\<rparr>)))
      (sc_async_stopped s1) (s1\<lparr>sc_running := filter (\<lambda>i. \<not> sg_is_finished (sc_groups s1 i)) (sc_running s1)\<rparr>) = Inr s2"
    "s' = s2\<lparr>sc_async_stopped := []\<rparr>"
    using assms by (auto simp: free_finished_seq_groups_def Let_def)
  have "sc_groups s1 = sc_groups s" by (rule foldE_groups [OF s(1)]) (rule free_finished_seq_group_groups)
  moreover have "sc_groups s2 = sc_groups (s1\<lparr>sc_running := filter (\<lambda>i. \<not> sg_is_finished (sc_groups s1 i)) (sc_running s1)\<rparr>)"
    by (rule foldE_groups [OF s(2)]) (rule stopped_group_groups)
  ultimately show ?thesis using s(3) by simp
qed

section \<open>The output processors keep the request\<close>

definition ps_keeps :: "'b processing \<Rightarrow> 'b processing \<Rightarrow> bool" where
  "ps_keeps st st' \<longleftrightarrow> sg_request_id (ps_group st') = sg_request_id (ps_group st) \<and>
     map sc_groups (ps_schedulers st') = map sc_groups (ps_schedulers st)"

lemma ps_keeps_refl [simp]: "ps_keeps st st"
  by (simp add: ps_keeps_def)

lemma ps_keeps_trans: "ps_keeps st st1 \<Longrightarrow> ps_keeps st1 st2 \<Longrightarrow> ps_keeps st st2"
  by (simp add: ps_keeps_def)

lemma put_seq_rid [simp]: "sg_request_id (put_seq s g) = sg_request_id g"
  by (simp add: put_seq_def)

lemma free_in_schedulers_keeps: "free_in_schedulers B seq st = Inr st' \<Longrightarrow> ps_keeps st st' \<and> ps_group st' = ps_group st"
  by (auto simp: free_in_schedulers_def ps_keeps_def dest: each_scheduler_groups [OF _ free_seq_groups])

lemma fork_in_schedulers_keeps: "fork_in_schedulers B p c st = Inr st' \<Longrightarrow> ps_keeps st st'"
  by (auto simp: fork_in_schedulers_def ps_keeps_def dest: each_scheduler_groups [OF _ fork_seq_groups])

lemma process_parents_keeps: "process_parents B samples parents st = Inr (cs, st') \<Longrightarrow> ps_keeps st st'"
proof (induction parents arbitrary: st cs)
  case (Cons parent parents)
  show ?case
  proof (cases "filter (\<lambda>s. so_parent_seq_id s = sq_seq_id parent) samples = []")
    case True
    then obtain g st1 where s: "sg_remove (sq_seq_id parent) (ps_group st) = Inr g"
      "free_in_schedulers B (parent\<lparr>sq_status := FINISHED_ABORTED\<rparr>) (st\<lparr>ps_group := g\<rparr>) = Inr st1"
      "process_parents B samples parents st1 = Inr (cs, st')" using Cons.prems by (auto simp: Let_def)
    have "ps_keeps st (st\<lparr>ps_group := g\<rparr>)" using s(1) by (auto simp: ps_keeps_def sg_remove_def)
    with free_in_schedulers_keeps [OF s(2)] Cons.IH [OF s(3)] show ?thesis by (blast intro: ps_keeps_trans)
  next
    case False
    then obtain ss counter rest where s: "process_parents B samples parents
        (st\<lparr>ps_seq_counter := counter, ps_group := put_seq (last ss) (ps_group st)\<rparr>) = Inr (rest, st')"
      using Cons.prems by (auto simp: Let_def)
    show ?thesis using Cons.IH [OF s] by (simp add: ps_keeps_def)
  qed
qed simp

lemma foldE_keeps:
  assumes "foldE f xs st = Inr st'" "\<And>x st st'. f x st = Inr st' \<Longrightarrow> ps_keeps st st'"
  shows "ps_keeps st st'"
  by (rule foldE_inv [OF assms(1)]) (auto intro: ps_keeps_trans assms(2))

lemma add_child_keeps:
  assumes "add_child B c st = Inr st'"
  shows "ps_keeps st st'"
proof (cases c)
  case (Pair s i)
  show ?thesis
  proof (cases "sq_seq_id s = i")
    case False
    then obtain g where g: "sg_add s (ps_group st) = Inr g"
      "(if sq_is_finished s then Inr (st\<lparr>ps_group := g\<rparr>)
        else bindE (sg_find i g) (\<lambda>parent. fork_in_schedulers B parent s (st\<lparr>ps_group := g\<rparr>))) = Inr st'"
      using assms Pair by (auto simp: add_child_def)
    have "ps_keeps st (st\<lparr>ps_group := g\<rparr>)" using g(1) by (auto simp: ps_keeps_def sg_add_def)
    with g(2) fork_in_schedulers_keeps [of B _ s "st\<lparr>ps_group := g\<rparr>"] show ?thesis
      by (cases "sq_is_finished s") (auto intro: ps_keeps_trans)
  qed (use assms Pair in \<open>simp add: add_child_def\<close>)
qed

lemma free_finished_parent_keeps: "free_finished_parent B c st = Inr st' \<Longrightarrow> ps_keeps st st'"
  by (cases c) (auto simp: free_finished_parent_def dest: free_in_schedulers_keeps split: if_splits)

lemma process_outputs_keeps:
  assumes "process_outputs B P params outputs is_async st = Inr st'"
  shows "ps_keeps st st'"
proof -
  have run: "process_sequence_group_outputs B P params (hd outputs) is_async st = Inr st'"
    using assms by (auto simp: process_outputs_def)
  show ?thesis
  proof (cases params)
    case None
    then show ?thesis using run by (auto simp: process_sequence_group_outputs_def Let_def dest: free_in_schedulers_keeps)
  next
    case (Some p)
    show ?thesis
    proof (cases "sp_best_of p = Some 1")
      case True
      define with_seq where "with_seq = (\<lambda>seq. st\<lparr>ps_group := (ps_group st)\<lparr>sg_seqs := seq # tl (sg_seqs (ps_group st))\<rparr>\<rparr>)"
      obtain seq where "(let st = st\<lparr>ps_group := (ps_group st)\<lparr>sg_seqs := seq # tl (sg_seqs (ps_group st))\<rparr>\<rparr> in
          if sq_is_finished seq then free_in_schedulers B seq st else Inr st) = Inr st'"
        using True run Some by (auto simp: process_sequence_group_outputs_def Let_def)
      then have e: "(if sq_is_finished seq then free_in_schedulers B seq (with_seq seq) else Inr (with_seq seq)) = Inr st'"
        by (simp add: with_seq_def Let_def cong: if_cong)
      have w: "ps_keeps st (with_seq seq)" by (simp add: ps_keeps_def with_seq_def)
      show ?thesis using e w ps_keeps_trans [OF w, of st'] by (cases "sq_is_finished seq") (auto dest: free_in_schedulers_keeps)
    next
      case False
      define upd where "upd = (\<lambda>children st. st\<lparr>ps_group := fold (\<lambda>(s, i). if sq_seq_id s = i then put_seq s else id) children
        (ps_group st)\<rparr> :: 'a processing)"
      obtain children st1 children' st2 where s: "process_parents B (go_samples (hd outputs)) (sg_get_seqs (Some RUNNING) (ps_group st)) st
          = Inr (children, st1)" "foldE (add_child B) children' (upd children' st1) = Inr st2"
        "foldE (free_finished_parent B) children' st2 = Inr st'"
        using run Some False by (auto simp: process_sequence_group_outputs_def Let_def upd_def)
      have "sg_request_id (fold (\<lambda>(s, i). if sq_seq_id s = i then put_seq s else id) cs g) = sg_request_id g" for cs and g
        by (induction cs arbitrary: g) auto
      then have u: "ps_keeps st1 (upd children' st1)" by (simp add: ps_keeps_def upd_def)
      show ?thesis
        by (rule ps_keeps_trans [OF process_parents_keeps [OF s(1)] ps_keeps_trans [OF u
              ps_keeps_trans [OF foldE_keeps [OF s(2) add_child_keeps] foldE_keeps [OF s(3) free_finished_parent_keeps]]]])
    qed
  qed
qed

section \<open>Groups in the store of the engine\<close>

lemma en_put_group_simps [simp]:
  "en_ve (en_put_group i g st) = en_ve st"
  "en_params (en_put_group i g st) = en_params st"
  "en_cached (en_put_group i g st) = en_cached st"
  "en_output_queue (en_put_group i g st) = en_output_queue st"
  "en_request_outputs (en_put_group i g st) = en_request_outputs st"
  "en_delivered (en_put_group i g st) = en_delivered st"
  "length (en_schedulers (en_put_group i g st)) = length (en_schedulers st)"
  by (simp_all add: en_put_group_def)

lemma en_group_put [simp]:
  "en_ve st < length (en_schedulers st) \<Longrightarrow> en_group j (en_put_group i g st) = (if j = i then g else en_group j st)"
  by (simp add: en_group_def en_scheduler_def en_put_group_def put_group_def)

text \<open>What stays of the engine: everything but the groups, the counter and the block managers; each group keeps its request.\<close>

definition same_requests :: "'b engine \<Rightarrow> 'b engine \<Rightarrow> bool" where
  "same_requests st st' \<longleftrightarrow> en_ve st' = en_ve st \<and> length (en_schedulers st') = length (en_schedulers st) \<and>
     en_params st' = en_params st \<and> en_output_queue st' = en_output_queue st \<and> en_delivered st' = en_delivered st \<and>
     (\<forall>j. sg_request_id (en_group j st') = sg_request_id (en_group j st))"

definition changes_only :: "gid \<Rightarrow> 'b engine \<Rightarrow> 'b engine \<Rightarrow> bool" where
  "changes_only i st st' \<longleftrightarrow> same_requests st st' \<and> en_request_outputs st' = en_request_outputs st \<and>
     (\<forall>j. j \<noteq> i \<longrightarrow> en_group j st' = en_group j st)"

lemma same_requests_refl [simp]: "same_requests st st"
  by (simp add: same_requests_def)

lemma same_requests_trans: "same_requests st st1 \<Longrightarrow> same_requests st1 st2 \<Longrightarrow> same_requests st st2"
  by (simp add: same_requests_def)

lemma same_requests_ve: "same_requests st st' \<Longrightarrow> en_ve st < length (en_schedulers st) \<Longrightarrow> en_ve st' < length (en_schedulers st')"
  by (simp add: same_requests_def)

lemma changes_only_refl [simp]: "changes_only i st st"
  by (simp add: changes_only_def)

lemma changes_only_trans: "changes_only i st st1 \<Longrightarrow> changes_only i st1 st2 \<Longrightarrow> changes_only i st st2"
  by (simp add: changes_only_def same_requests_def)

lemma same_requests_put:
  "en_ve st < length (en_schedulers st) \<Longrightarrow> sg_request_id g = sg_request_id (en_group i st) \<Longrightarrow>
     same_requests st (en_put_group i g st)"
  by (simp add: same_requests_def)

lemma changes_only_put:
  "en_ve st < length (en_schedulers st) \<Longrightarrow> sg_request_id g = sg_request_id (en_group i st) \<Longrightarrow>
     changes_only i st (en_put_group i g st)"
  by (simp add: changes_only_def same_requests_put)

section \<open>Processing one group\<close>

lemma sg_update_num_computed_tokens_rid:
  "sg_update_num_computed_tokens n g = Inr g' \<Longrightarrow> sg_request_id g' = sg_request_id g"
  by (auto simp: sg_update_num_computed_tokens_def)

lemma update_computed_rid: "update_computed cfg md first g = Inr g' \<Longrightarrow> sg_request_id g' = sg_request_id g"
  by (auto simp: update_computed_def update_num_computed_tokens_for_multi_step_prefill_def
      dest: sg_update_num_computed_tokens_rid split: if_splits)

lemma process_prompt_logprob_rid: "process_prompt_logprob P params g out = Inr g' \<Longrightarrow> sg_request_id g' = sg_request_id g"
  by (auto simp: process_prompt_logprob_def Let_def split: option.splits)

lemma process_prompt_logprob_single_rid:
  "process_prompt_logprob_single P params outs g = Inr g' \<Longrightarrow> sg_request_id g' = sg_request_id g"
  by (auto simp: process_prompt_logprob_single_def dest: process_prompt_logprob_rid)

lemma process_prompt_logprob_multi_rid:
  assumes "process_prompt_logprob_multi P params outs g = Inr g'"
  shows "sg_request_id g' = sg_request_id g"
  using assms unfolding process_prompt_logprob_multi_def
  by (rule foldE_inv [of _ _ _ _ "\<lambda>t. sg_request_id t = sg_request_id g"]) (auto dest: process_prompt_logprob_rid)

lemma process_outputs_multi_rid:
  "process_outputs_multi P p outs is_async g = Inr g' \<Longrightarrow> sg_request_id g' = sg_request_id g"
  by (auto simp: process_outputs_multi_def Let_def)

lemma en_group_of_groups:
  assumes "map sc_groups (en_schedulers st') = map sc_groups (en_schedulers st)" "en_ve st' = en_ve st"
    "en_ve st < length (en_schedulers st)"
  shows "en_group j st' = en_group j st" "length (en_schedulers st') = length (en_schedulers st)"
proof -
  show l: "length (en_schedulers st') = length (en_schedulers st)" using assms(1) by (metis length_map)
  have "sc_groups (en_schedulers st' ! en_ve st) = sc_groups (en_schedulers st ! en_ve st)"
    using assms(1,3) l by (metis nth_map)
  then show "en_group j st' = en_group j st" by (simp add: en_group_def en_scheduler_def assms(2))
qed

lemma run_output_processor_changes:
  assumes "run_output_processor B P multi i outs do_sample is_async st = Inr st'" "en_ve st < length (en_schedulers st)"
  shows "changes_only i st st'"
proof -
  obtain g where g: "(if multi then process_prompt_logprob_multi P (en_params st i) outs (en_group i st)
      else process_prompt_logprob_single P (en_params st i) outs (en_group i st)) = Inr g"
    and rest: "(if \<not> do_sample then Inr (en_put_group i g st)
      else if multi
      then bindE (from_option AttributeError (en_params st i)) (\<lambda>p.
           bindE (process_outputs_multi P p outs is_async g) (\<lambda>g. Inr (en_put_group i g st)))
      else bindE (process_outputs B P (en_params st i) outs is_async
                    \<lparr>ps_group = g, ps_schedulers = en_schedulers st, ps_seq_counter = en_seq_counter st\<rparr>) (\<lambda>ps.
           Inr (en_put_group i (ps_group ps)
                  (st\<lparr>en_schedulers := ps_schedulers ps, en_seq_counter := ps_seq_counter ps\<rparr>)))) = Inr st'"
    using assms(1) unfolding run_output_processor_def Let_def bindE_eq_Inr by (elim exE conjE)
  have rid: "sg_request_id g = sg_request_id (en_group i st)"
    using g by (auto split: if_splits dest: process_prompt_logprob_multi_rid process_prompt_logprob_single_rid)
  consider "\<not> do_sample" | "do_sample" "multi" | "do_sample" "\<not> multi" by blast
  then show ?thesis
  proof cases
    case 1
    then show ?thesis using rest rid assms(2) by (auto intro: changes_only_put)
  next
    case 2
    then obtain p g' where g': "process_outputs_multi P p outs is_async g = Inr g'" "st' = en_put_group i g' st"
      using rest by auto
    then show ?thesis using rid assms(2) by (auto intro!: changes_only_put dest: process_outputs_multi_rid)
  next
    case 3
    then obtain ps where ps: "process_outputs B P (en_params st i) outs is_async
        \<lparr>ps_group = g, ps_schedulers = en_schedulers st, ps_seq_counter = en_seq_counter st\<rparr> = Inr ps"
      "st' = en_put_group i (ps_group ps) (st\<lparr>en_schedulers := ps_schedulers ps, en_seq_counter := ps_seq_counter ps\<rparr>)"
      using rest by auto
    define st1 where "st1 = st\<lparr>en_schedulers := ps_schedulers ps, en_seq_counter := ps_seq_counter ps\<rparr>"
    have k: "sg_request_id (ps_group ps) = sg_request_id g" "map sc_groups (en_schedulers st1) = map sc_groups (en_schedulers st)"
      using process_outputs_keeps [OF ps(1)] by (simp_all add: ps_keeps_def st1_def)
    have ve: "en_ve st1 = en_ve st" by (simp add: st1_def)
    have "changes_only i st st1"
      using en_group_of_groups [OF k(2) ve assms(2)] by (simp add: changes_only_def same_requests_def) (simp add: st1_def)
    moreover have "changes_only i st1 st'"
      unfolding ps(2) st1_def [symmetric]
      using en_group_of_groups [OF k(2) ve assms(2)] k(1) rid ve assms(2) by (intro changes_only_put) auto
    ultimately show ?thesis by (rule changes_only_trans)
  qed
qed

lemma process_group_changes:
  assumes "process_group B cfg P multi is_async first md i outs st = Inr st'" "en_ve st < length (en_schedulers st)"
  shows "changes_only i st st'"
proof -
  obtain st1 where s: "(if is_async then Inr st
      else bindE (update_computed cfg md first (en_group i st)) (\<lambda>g. Inr (en_put_group i g st))) = Inr st1"
    "run_output_processor B P multi i outs (md_do_sample md) is_async st1 = Inr st'"
    using assms(1) by (auto simp: process_group_def)
  have c: "changes_only i st st1"
    using s(1) assms(2) by (auto split: if_splits intro!: changes_only_put dest: update_computed_rid)
  then have "en_ve st1 < length (en_schedulers st1)" using assms(2) by (simp add: changes_only_def same_requests_def)
  from changes_only_trans [OF c run_output_processor_changes [OF s(2) this]] show ?thesis .
qed

section \<open>Processing the groups of a batch\<close>

definition place_group :: "output_data \<Rightarrow> nat \<Rightarrow> gid" where
  "place_group od k = sch_group (od_scheduled od ! k)"

definition finished_at :: "output_data \<Rightarrow> 'b engine \<Rightarrow> nat \<Rightarrow> bool" where
  "finished_at od st k \<longleftrightarrow> sg_is_finished (en_group (place_group od k) st)"

lemma process_groups_run:
  assumes "process_groups B cfg P multi od by_group first ks st = Inr (before, now, st')"
    "en_ve st < length (en_schedulers st)" "distinct (map (place_group od) ks)"
  shows "same_requests st st' \<and> en_request_outputs st' = en_request_outputs st \<and>
     (\<forall>j. j \<notin> place_group od ` set ks \<longrightarrow> en_group j st' = en_group j st) \<and>
     before = filter (\<lambda>k. k \<notin> set (od_skip od) \<and> finished_at od st k) ks \<and>
     now = filter (\<lambda>k. k \<notin> set (od_skip od) \<and> \<not> finished_at od st k \<and> finished_at od st' k) ks"
  using assms
proof (induction ks arbitrary: st before now)
  case (Cons k ks)
  have other: "place_group od k \<notin> place_group od ` set ks" using Cons.prems(3) by simp
  consider (skip) "k \<in> set (od_skip od)" | (fin) "k \<notin> set (od_skip od)" "finished_at od st k"
    | (run) "k \<notin> set (od_skip od)" "\<not> finished_at od st k" by blast
  then show ?case
  proof cases
    case skip
    then have s: "process_groups B cfg P multi od by_group first ks st = Inr (before, now, st')"
      using Cons.prems(1) by (auto simp: list_ex_iff)
    show ?thesis using Cons.IH [OF s] Cons.prems skip by auto
  next
    case fin
    then obtain before' where s: "process_groups B cfg P multi od by_group first ks st = Inr (before', now, st')" "before = k # before'"
      using Cons.prems(1) by (auto simp: finished_at_def place_group_def Let_def list_ex_iff)
    show ?thesis using Cons.IH [OF s(1)] Cons.prems s(2) fin by auto
  next
    case run
    then obtain st1 now' where s:
      "process_group B cfg P multi (od_is_async od) first (od_metadata od ! k) (place_group od k) (by_group ! k) st = Inr st1"
      "process_groups B cfg P multi od by_group first ks st1 = Inr (before, now', st')"
      "now = (if finished_at od st1 k then k # now' else now')"
      using Cons.prems(1) by (auto simp: finished_at_def place_group_def Let_def list_ex_iff)
    have c: "changes_only (place_group od k) st st1" by (rule process_group_changes [OF s(1) Cons.prems(2)])
    have ve: "en_ve st1 < length (en_schedulers st1)" using c Cons.prems(2) by (simp add: changes_only_def same_requests_def)
    note ih = Cons.IH [OF s(2) ve]
    have rest: "finished_at od st1 j = finished_at od st j" if "j \<in> set ks" for j
    proof -
      have "place_group od j \<noteq> place_group od k" using other that by (metis imageI)
      then show ?thesis using c by (simp add: changes_only_def finished_at_def)
    qed
    have k: "finished_at od st' k = finished_at od st1 k" using ih Cons.prems(3) other by (auto simp: finished_at_def)
    have "filter (\<lambda>k. k \<notin> set (od_skip od) \<and> finished_at od st1 k) ks = filter (\<lambda>k. k \<notin> set (od_skip od) \<and> finished_at od st k) ks"
      "filter (\<lambda>k. k \<notin> set (od_skip od) \<and> \<not> finished_at od st1 k \<and> finished_at od st' k) ks =
       filter (\<lambda>k. k \<notin> set (od_skip od) \<and> \<not> finished_at od st k \<and> finished_at od st' k) ks"
      using rest by (auto intro!: filter_cong)
    then show ?thesis using ih Cons.prems(3) c k s(3) run
      by (auto simp: changes_only_def intro: same_requests_trans)
  qed
qed simp

section \<open>Answers\<close>

lemma collect_outputs_rid:
  "collect_outputs p use_cache i seqs incl g = Inr (outs, incl', g') \<Longrightarrow> sg_request_id g' = sg_request_id g"
  by (induction seqs arbitrary: i incl g outs) fastforce+

lemma set_finished_time_rid [simp]: "sg_request_id (set_finished_time t g) = sg_request_id g"
  by (simp add: set_finished_time_def)

lemma maybe_set_first_token_time_rid: "maybe_set_first_token_time now g = Inr g' \<Longrightarrow> sg_request_id g' = sg_request_id g"
  by (auto simp: maybe_set_first_token_time_def split: if_splits)

text \<open>Taking an answer moves offsets in the sequences; their statuses stay.\<close>

lemma completion_of_status: "completion_of p i s incl = Inr (c, s', incl') \<Longrightarrow> sq_status s' = sq_status s"
  by (auto simp: completion_of_def get_output_text_to_return_def get_output_token_ids_to_return_def Let_def split: if_splits)

lemma collect_outputs_status:
  "collect_outputs p use_cache i seqs incl g = Inr (outs, incl', g') \<Longrightarrow>
     \<forall>(k, s)\<in>set seqs. k < length (sg_seqs g) \<longrightarrow> sq_status (sg_seqs g ! k) = sq_status s \<Longrightarrow>
     map sq_status (sg_seqs g') = map sq_status (sg_seqs g)"
proof (induction seqs arbitrary: i incl g outs incl')
  case (Cons a seqs)
  obtain k s where a: "a = (k, s)" by fastforce
  obtain c s1 incl1 cs incl2 where r: "completion_of p (if use_cache then i else k) s incl = Inr (c, s1, incl1)"
    "collect_outputs p use_cache (Suc i) seqs incl1 (g\<lparr>sg_seqs := (sg_seqs g)[k := s1]\<rparr>) = Inr (cs, incl2, g')"
    using Cons.prems(1) a by auto
  have st: "map sq_status ((sg_seqs g)[k := s1]) = map sq_status (sg_seqs g)"
    using completion_of_status [OF r(1)] Cons.prems(2) a
    by (cases "k < length (sg_seqs g)") (auto simp: map_update list_update_same_conv list_update_beyond)
  have pre: "\<forall>(j, t)\<in>set seqs. j < length (sg_seqs (g\<lparr>sg_seqs := (sg_seqs g)[k := s1]\<rparr>)) \<longrightarrow>
      sq_status (sg_seqs (g\<lparr>sg_seqs := (sg_seqs g)[k := s1]\<rparr>) ! j) = sq_status t"
  proof (intro ballI, clarify)
    fix j t assume j: "(j, t) \<in> set seqs" "j < length (sg_seqs (g\<lparr>sg_seqs := (sg_seqs g)[k := s1]\<rparr>))"
    then have "map sq_status ((sg_seqs g)[k := s1]) ! j = map sq_status (sg_seqs g) ! j" using st by simp
    then show "sq_status (sg_seqs (g\<lparr>sg_seqs := (sg_seqs g)[k := s1]\<rparr>) ! j) = sq_status t"
      using j Cons.prems(2) a by auto
  qed
  show ?case using Cons.IH [OF r(2) pre] st by simp
qed simp

lemma finished_by_status: "map sq_status (sg_seqs g') = map sq_status (sg_seqs g) \<Longrightarrow> sg_is_finished g' = sg_is_finished g"
proof -
  assume "map sq_status (sg_seqs g') = map sq_status (sg_seqs g)"
  then have "list_all status_is_finished (map sq_status (sg_seqs g')) = list_all status_is_finished (map sq_status (sg_seqs g))"
    by (rule arg_cong)
  then show ?thesis by (simp add: sg_is_finished_iff list_all_iff sq_is_finished_def)
qed

lemma top_n_seqs_places: "(k, s) \<in> set (top_n_seqs p g) \<Longrightarrow> k < length (sg_seqs g) \<and> sg_seqs g ! k = s"
proof -
  assume "(k, s) \<in> set (top_n_seqs p g)"
  then have "(k, s) \<in> set (enumerate 0 (sg_seqs g))"
    by (auto simp: top_n_seqs_def Let_def sg_get_seqs_def split: if_splits dest!: in_set_takeD)
  then show ?thesis by (auto simp: in_set_enumerate_eq)
qed

text \<open>No answer for a request that only asks for the final output, as long as it has not finished.\<close>

lemma request_output_rid:
  assumes "request_output_from_seq_group params use_cache now g = Inr (out, g')"
  shows "sg_request_id g' = sg_request_id g \<and> sg_is_finished g' = sg_is_finished g \<and> (\<exists>p. params = Some p \<and>
     (if sp_output_kind p = FINAL_ONLY \<and> \<not> sg_is_finished g then out = None
      else \<exists>r. out = Some r \<and> rq_request_id r = sg_request_id g \<and> rq_finished r = sg_is_finished g))"
proof -
  obtain p where p: "params = Some p" using assms by (cases params) (auto simp: request_output_from_seq_group_def)
  show ?thesis
  proof (cases "sp_output_kind p = FINAL_ONLY \<and> \<not> sg_is_finished g")
    case True
    then show ?thesis using assms p by (auto simp: request_output_from_seq_group_def Let_def)
  next
    case False
    then obtain outs incl g1 where o: "collect_outputs p use_cache 0 (top_n_seqs p g) True g = Inr (outs, incl, g1)"
      "g' = set_finished_time (if sg_is_finished g then Some now else None) g1"
      "\<exists>r. out = Some r \<and> rq_request_id r = sg_request_id g' \<and> rq_finished r = sg_is_finished g"
      using assms p by (auto simp: request_output_from_seq_group_def Let_def)
    have "map sq_status (sg_seqs g1) = map sq_status (sg_seqs g)"
      by (rule collect_outputs_status [OF o(1)]) (auto dest: top_n_seqs_places)
    then have "sg_is_finished g' = sg_is_finished g"
      using o(2) by (intro finished_by_status) (simp add: set_finished_time_def)
    then show ?thesis using collect_outputs_rid [OF o(1)] o(2,3) p False by auto
  qed
qed

definition keeps_finished :: "'b engine \<Rightarrow> 'b engine \<Rightarrow> bool" where
  "keeps_finished st st' \<longleftrightarrow> (\<forall>j. sg_is_finished (en_group j st') = sg_is_finished (en_group j st))"

lemma keeps_finished_trans: "keeps_finished st st1 \<Longrightarrow> keeps_finished st1 st2 \<Longrightarrow> keeps_finished st st2"
  by (simp add: keeps_finished_def)

text \<open>
  \<open>withheld K\<close>: the request has not finished and its output is of a kind in \<open>K\<close>. An answer is named by the
  request id and whether it is the last.
\<close>

definition withheld :: "output_kind set \<Rightarrow> 'b engine \<Rightarrow> gid \<Rightarrow> bool" where
  "withheld K st i \<longleftrightarrow> \<not> sg_is_finished (en_group i st) \<and> (case en_params st i of None \<Rightarrow> False | Some p \<Rightarrow> sp_output_kind p \<in> K)"

definition answer_of :: "'b engine \<Rightarrow> gid \<Rightarrow> string \<times> bool" where
  "answer_of st i = (sg_request_id (en_group i st), sg_is_finished (en_group i st))"

definition answer_name :: "request_output \<Rightarrow> string \<times> bool" where
  "answer_name r = (rq_request_id r, rq_finished r)"

text \<open>The groups \<open>is\<close> are answered in this order, and nothing else is.\<close>

definition answers_all :: "gid list \<Rightarrow> 'b engine \<Rightarrow> 'b engine \<Rightarrow> bool" where
  "answers_all is st st' \<longleftrightarrow> same_requests st st' \<and> keeps_finished st st' \<and>
     (\<exists>new. en_request_outputs st' = en_request_outputs st @ new \<and> map answer_name new = map (answer_of st) is)"

lemma same_answer_of: "same_requests st st' \<Longrightarrow> keeps_finished st st' \<Longrightarrow> answer_of st' = answer_of st"
  by (simp add: answer_of_def same_requests_def keeps_finished_def fun_eq_iff)

lemma same_withheld: "same_requests st st' \<Longrightarrow> keeps_finished st st' \<Longrightarrow> withheld K st' = withheld K st"
  by (simp add: withheld_def same_requests_def keeps_finished_def fun_eq_iff)

lemma answers_all_Nil: "same_requests st st' \<Longrightarrow> keeps_finished st st' \<Longrightarrow>
    en_request_outputs st' = en_request_outputs st \<Longrightarrow> answers_all [] st st'"
  by (simp add: answers_all_def)

lemma answers_all_trans:
  assumes "answers_all is st st1" "answers_all js st1 st2"
  shows "answers_all (is @ js) st st2"
proof -
  obtain xs ys where x: "en_request_outputs st1 = en_request_outputs st @ xs" "map answer_name xs = map (answer_of st) is"
    and y: "en_request_outputs st2 = en_request_outputs st1 @ ys" "map answer_name ys = map (answer_of st1) js"
    using assms unfolding answers_all_def by blast
  have "map answer_name (xs @ ys) = map (answer_of st) (is @ js)"
    using x(2) y(2) assms same_answer_of [of st st1] unfolding answers_all_def by simp
  then show ?thesis using assms x(1) y(1) same_requests_trans keeps_finished_trans unfolding answers_all_def
    by (metis append.assoc)
qed

lemma answers_all_refl: "answers_all [] st st"
  by (simp add: answers_all_def keeps_finished_def)

lemma answers_all_keeps: "answers_all is st st' \<Longrightarrow> same_requests st st'" "answers_all is st st' \<Longrightarrow> keeps_finished st st'"
  by (simp_all add: answers_all_def)

lemma answers_all_ve: "answers_all is st st' \<Longrightarrow> en_ve st < length (en_schedulers st) \<Longrightarrow> en_ve st' < length (en_schedulers st')"
  using same_requests_ve by (auto simp: answers_all_def)

lemma create_output_answers:
  assumes "create_output cfg now i st = Inr st'" "en_ve st < length (en_schedulers st)"
  shows "answers_all (if withheld {FINAL_ONLY} st i then [] else [i]) st st'"
proof -
  obtain out g where s: "request_output_from_seq_group (en_params st i)
      (ec_use_cached_outputs cfg) now (en_group i st) = Inr (out, g)"
    "st' = (case out of None \<Rightarrow> en_put_group i g st
       | Some r \<Rightarrow> en_put_group i g st\<lparr>en_request_outputs := en_request_outputs (en_put_group i g st) @ [r]\<rparr>)"
    using assms(1) by (auto simp: create_output_def Let_def)
  note r = request_output_rid [OF s(1)]
  have "same_requests st (en_put_group i g st)" "keeps_finished st (en_put_group i g st)"
    using same_requests_put [OF assms(2)] r assms(2) by (auto simp: keeps_finished_def)
  then have k: "same_requests st st'" "keeps_finished st st'" unfolding s(2)
    by (cases out; simp add: same_requests_def keeps_finished_def en_group_def en_scheduler_def)+
  show ?thesis
  proof (cases "withheld {FINAL_ONLY} st i")
    case True
    then have "out = None" using r by (auto simp: withheld_def)
    then show ?thesis using True k s(2) by (simp add: answers_all_def)
  next
    case False
    then obtain a where "out = Some a" "rq_request_id a = sg_request_id (en_group i st)" "rq_finished a = sg_is_finished (en_group i st)"
      using r by (auto simp: withheld_def split: if_splits)
    then show ?thesis using False k s(2) by (simp add: answers_all_def answer_name_def answer_of_def)
  qed
qed

lemma maybe_set_first_token_time_seqs: "maybe_set_first_token_time now g = Inr g' \<Longrightarrow> sg_seqs g' = sg_seqs g"
  by (auto simp: maybe_set_first_token_time_def split: if_splits)

lemma answer_group_answers:
  assumes "answer_group cfg now od k st = Inr st'" "en_ve st < length (en_schedulers st)"
  shows "answers_all (if withheld {FINAL_ONLY} st (place_group od k) then [] else [place_group od k]) st st'"
proof -
  let ?i = "place_group od k"
  obtain g where g: "maybe_set_first_token_time now (en_group ?i st) = Inr g"
    "create_output cfg now ?i (en_put_group ?i g st) = Inr st'"
    using assms(1) by (auto simp: answer_group_def place_group_def Let_def)
  have c: "same_requests st (en_put_group ?i g st)" "keeps_finished st (en_put_group ?i g st)"
    using same_requests_put [OF assms(2) maybe_set_first_token_time_rid [OF g(1)]] assms(2)
      finished_by_status [of g "en_group ?i st"] maybe_set_first_token_time_seqs [OF g(1)] by (auto simp: keeps_finished_def)
  have "answers_all (if withheld {FINAL_ONLY} (en_put_group ?i g st) ?i then [] else [?i]) (en_put_group ?i g st) st'"
    by (rule create_output_answers [OF g(2)]) (use assms(2) in simp)
  from answers_all_trans [OF answers_all_Nil [OF c] this] show ?thesis
    unfolding same_withheld [OF c] by simp
qed

lemma answer_ignored_answers:
  assumes "answer_ignored cfg now i st = Inr st'" "en_ve st < length (en_schedulers st)"
  shows "answers_all (if withheld {FINAL_ONLY, DELTA} st i then [] else [i]) st st'"
proof (cases "\<exists>p. en_params st i = Some p \<and> sp_output_kind p = DELTA \<and> \<not> sg_is_finished (en_group i st)")
  case True
  then have "st' = st" using assms(1) by (auto simp: answer_ignored_def Let_def)
  then show ?thesis using True by (auto simp: withheld_def answers_all_def keeps_finished_def)
next
  case False
  then have "create_output cfg now i st = Inr st'"
    using assms(1) by (auto simp: answer_ignored_def Let_def split: option.splits if_splits)
  moreover have "withheld {FINAL_ONLY, DELTA} st i = withheld {FINAL_ONLY} st i" using False
    by (auto simp: withheld_def split: option.splits)
  ultimately show ?thesis using create_output_answers assms(2) by metis
qed

lemma foldE_answers:
  assumes "foldE f xs st = Inr st'" "en_ve st < length (en_schedulers st)"
    "\<And>x s s'. f x s = Inr s' \<Longrightarrow> en_ve s < length (en_schedulers s) \<Longrightarrow> answers_all (if withheld K s (gr x) then [] else [gr x]) s s'"
  shows "answers_all (filter (\<lambda>i. \<not> withheld K st i) (map gr xs)) st st'"
  using assms
proof (induction xs arbitrary: st)
  case (Cons x xs)
  then obtain s where s: "f x st = Inr s" "foldE f xs s = Inr st'" by auto
  have x: "answers_all (if withheld K st (gr x) then [] else [gr x]) st s" by (rule Cons.prems(3) [OF s(1) Cons.prems(2)])
  then have k: "same_requests st s" "keeps_finished st s" by (simp_all add: answers_all_def)
  have "answers_all (filter (\<lambda>i. \<not> withheld K s i) (map gr xs)) s st'"
    by (rule Cons.IH [OF s(2) same_requests_ve [OF k(1) Cons.prems(2)] Cons.prems(3)])
  from answers_all_trans [OF x this] show ?case unfolding same_withheld [OF k] by (simp split: if_splits)
qed (simp add: answers_all_def keeps_finished_def)

section \<open>Processing a batch\<close>

lemma each_free_finished_same:
  assumes "each_free_finished B st = Inr st'" "en_ve st < length (en_schedulers st)"
  shows "answers_all [] st st'"
proof -
  obtain ss where ss: "each_scheduler (free_finished_seq_groups B) (en_schedulers st) = Inr ss" "st' = st\<lparr>en_schedulers := ss\<rparr>"
    using assms(1) by (auto simp: each_free_finished_def)
  have g: "map sc_groups (en_schedulers st') = map sc_groups (en_schedulers st)"
    using each_scheduler_groups [OF ss(1) free_finished_seq_groups_groups] ss(2) by simp
  show ?thesis using en_group_of_groups [OF g _ assms(2)] ss(2)
    by (simp add: answers_all_def same_requests_def keeps_finished_def)
qed

text \<open>All answers that the engine gave: those delivered to the callback and those waiting.\<close>

definition answers :: "'b engine \<Rightarrow> request_output list" where
  "answers st = concat (en_delivered st) @ en_request_outputs st"

lemma deliver_if_simps [simp]: "answers (deliver_if cfg c st) = answers st"
  "en_output_queue (deliver_if cfg c st) = en_output_queue st"
  by (simp_all add: deliver_if_def deliver_def answers_def)

text \<open>
  The groups to answer: of the places of the batch that were not dealt with before, those whose group had
  not finished; then the ignored groups. Requests that only ask for the final output are left out as long
  as they have not finished after the step (\<open>st'\<close>), and so are unfinished ignored ones that ask for deltas.
\<close>

definition to_answer :: "output_data \<Rightarrow> 'b engine \<Rightarrow> 'b engine \<Rightarrow> gid list" where
  "to_answer od st st' =
     filter (\<lambda>i. \<not> withheld {FINAL_ONLY} st' i)
       (map (place_group od) (filter (\<lambda>k. k \<notin> set (od_skip od) \<and> \<not> finished_at od st k) [0..<length (od_scheduled od)])) @
     filter (\<lambda>i. \<not> withheld {FINAL_ONLY, DELTA} st' i) (od_ignored od)"

lemma mset_split_filter:
  "mset (filter (\<lambda>k. \<not> P k \<and> Q k) ks) + mset (filter (\<lambda>k. k \<notin> set (filter P ks) \<and> k \<notin> set (filter (\<lambda>k. \<not> P k \<and> Q k) ks)) ks) =
     mset (filter (\<lambda>k. \<not> P k) ks)"
proof -
  have "filter (\<lambda>k. k \<notin> set (filter P ks) \<and> k \<notin> set (filter (\<lambda>k. \<not> P k \<and> Q k) ks)) ks = filter (\<lambda>k. \<not> P k \<and> \<not> Q k) ks"
    by (rule filter_cong) auto
  moreover have "mset (filter (\<lambda>k. \<not> P k \<and> Q k) xs) + mset (filter (\<lambda>k. \<not> P k \<and> \<not> Q k) xs) = mset (filter (\<lambda>k. \<not> P k) xs)" for xs
    by (induction xs) auto
  ultimately show ?thesis by simp
qed

lemma process_last_step:
  assumes "process_model_outputs B cfg P multi now None st = Inr st'" "en_output_queue st = od # queue"
    "od_is_last_step od"
  obtains by_group first before fin s1 s2 s3 s4 s5 where "length (od_metadata od) = length (od_scheduled od)"
    "process_groups B cfg P multi od by_group first [0..<length (od_metadata od)] (st\<lparr>en_output_queue := queue\<rparr>) = Inr (before, fin, s1)"
    "foldE (answer_group cfg now od) fin s1 = Inr s2"
    "(if fin \<noteq> [] then each_free_finished B s2 else Inr s2) = Inr s3"
    "foldE (answer_group cfg now od) (filter (\<lambda>k. k \<notin> set (od_skip od) \<and> k \<notin> set before \<and> k \<notin> set fin) [0..<length (od_metadata od)]) s3 = Inr s4"
    "foldE (answer_ignored cfg now) (od_ignored od) s4 = Inr s5"
    "st' = deliver_if cfg (en_request_outputs s5 \<noteq> []) s5"
proof -
  have l: "length (od_metadata od) = length (od_scheduled od)"
    using assms(1,2) by (auto simp: process_model_outputs_def Let_def)
  obtain by_group first where "(bindE (process_groups B cfg P multi od by_group first [0..<length (od_metadata od)]
      (st\<lparr>en_output_queue := queue\<rparr>)) (\<lambda>(before, finished_now, st).
          bindE (foldE (answer_group cfg now od) finished_now st) (\<lambda>st.
          bindE (if finished_now \<noteq> [] then each_free_finished B st else Inr st) (\<lambda>st.
          bindE (foldE (answer_group cfg now od)
                        (filter (\<lambda>k. \<not> list_ex (\<lambda>j. j = k) (od_skip od @ before @ finished_now)) [0..<length (od_metadata od)]) st) (\<lambda>st.
          bindE (foldE (answer_ignored cfg now) (od_ignored od) st) (\<lambda>st.
          Inr (deliver_if cfg (en_request_outputs st \<noteq> []) st))))))) = Inr st'"
    using assms l unfolding process_model_outputs_def indices_of_def Let_def
    by (auto simp del: bindE_eq_Inr simp: bindE_eq_Inr [of "outputs_by_group cfg od"] bindE_eq_Inr [of "py_assert x" for x])
  then obtain before fin s1 s2 s3 s4 s5 where s:
    "process_groups B cfg P multi od by_group first [0..<length (od_metadata od)] (st\<lparr>en_output_queue := queue\<rparr>) = Inr (before, fin, s1)"
    "foldE (answer_group cfg now od) fin s1 = Inr s2"
    "(if fin \<noteq> [] then each_free_finished B s2 else Inr s2) = Inr s3"
    "foldE (answer_group cfg now od) (filter (\<lambda>k. \<not> list_ex (\<lambda>j. j = k) (od_skip od @ before @ fin)) [0..<length (od_metadata od)]) s3 = Inr s4"
    "foldE (answer_ignored cfg now) (od_ignored od) s4 = Inr s5"
    "st' = deliver_if cfg (en_request_outputs s5 \<noteq> []) s5"
    unfolding bindE_eq_Inr split_paired_Ex prod.case by (elim exE conjE) (rule that, assumption+, simp)
  have f: "(\<lambda>k. \<not> list_ex (\<lambda>j. j = k) (od_skip od @ before @ fin)) = (\<lambda>k. k \<notin> set (od_skip od) \<and> k \<notin> set before \<and> k \<notin> set fin)"
    by (auto simp: list_ex_iff fun_eq_iff)
  show thesis by (rule that [OF l s(1-3) s(4) [unfolded f] s(5,6)])
qed

text \<open>
  C9. When the engine processes the output of the last step of a batch, every group of the batch that was
  neither finished before nor dealt with in advance (\<open>od_skip\<close>) is answered, and so is every ignored group.
  The exceptions are those the output kinds make: a request that only asks for the final output is answered
  exactly when it has finished by the end of the step, and an ignored one that asks for deltas only if it has
  finished (as the groups that the scheduler ignores have). The answers that are added, delivered or waiting,
  are for exactly these requests, each as often as its group occurs and marked as the last one exactly when
  the request has finished: none is answered twice and none is left out; and the batch leaves the output queue.
\<close>

theorem each_request_answered_once:
  assumes "process_model_outputs B cfg P multi now None st = Inr st'" "en_output_queue st = od # queue"
    "od_is_last_step od" "en_ve st < length (en_schedulers st)" "distinct (map sch_group (od_scheduled od))"
  shows "(\<exists>new. answers st' = answers st @ new \<and>
      mset (map (\<lambda>r. (rq_request_id r, rq_finished r)) new) =
      mset (map (\<lambda>i. (sg_request_id (en_group i st), sg_is_finished (en_group i st'))) (to_answer od st st'))) \<and>
    en_output_queue st' = queue"
proof -
  obtain by_group first before fin s1 s2 s3 s4 s5 where r: "length (od_metadata od) = length (od_scheduled od)"
    "process_groups B cfg P multi od by_group first [0..<length (od_metadata od)] (st\<lparr>en_output_queue := queue\<rparr>) = Inr (before, fin, s1)"
    "foldE (answer_group cfg now od) fin s1 = Inr s2"
    "(if fin \<noteq> [] then each_free_finished B s2 else Inr s2) = Inr s3"
    "foldE (answer_group cfg now od) (filter (\<lambda>k. k \<notin> set (od_skip od) \<and> k \<notin> set before \<and> k \<notin> set fin) [0..<length (od_metadata od)]) s3 = Inr s4"
    "foldE (answer_ignored cfg now) (od_ignored od) s4 = Inr s5"
    "st' = deliver_if cfg (en_request_outputs s5 \<noteq> []) s5"
    using process_last_step [OF assms(1-3)] by blast
  define ks where "ks = [0..<length (od_scheduled od)]"
  define s0 where "s0 = st\<lparr>en_output_queue := queue\<rparr>"
  define later where "later = filter (\<lambda>k. k \<notin> set (od_skip od) \<and> k \<notin> set before \<and> k \<notin> set fin) ks"
  note r = r [folded s0_def, unfolded r(1), folded ks_def, folded later_def]
  have groups: "en_group i s0 = en_group i st" for i by (simp add: s0_def en_group_def en_scheduler_def)
  have ids: "map (place_group od) ks = map sch_group (od_scheduled od)"
    unfolding ks_def place_group_def by (rule nth_equalityI) auto
  have ve0: "en_ve s0 < length (en_schedulers s0)" using assms(4) by (simp add: s0_def)
  have p: "same_requests s0 s1" "en_request_outputs s1 = en_request_outputs s0"
    "before = filter (\<lambda>k. k \<notin> set (od_skip od) \<and> finished_at od s0 k) ks"
    "fin = filter (\<lambda>k. k \<notin> set (od_skip od) \<and> \<not> finished_at od s0 k \<and> finished_at od s1 k) ks"
    using process_groups_run [OF r(2) ve0] assms(5) ids by auto
  note ve1 = same_requests_ve [OF p(1) ve0]
  let ?W = "\<lambda>i. \<not> withheld {FINAL_ONLY} s1 i" and ?V = "\<lambda>i. \<not> withheld {FINAL_ONLY, DELTA} s1 i"
  have a1: "answers_all (filter ?W (map (place_group od) fin)) s1 s2"
    by (rule foldE_answers [OF r(3) ve1]) (rule answer_group_answers)
  note k2 = answers_all_keeps [OF a1] and ve2 = answers_all_ve [OF a1 ve1]
  have a2: "answers_all [] s2 s3"
    using r(4) each_free_finished_same [OF _ ve2] answers_all_refl by (auto split: if_splits)
  note a12 = answers_all_trans [OF a1 a2]
  note k3 = answers_all_keeps [OF a12] and ve3 = answers_all_ve [OF a12 ve1]
  have a3: "answers_all (filter ?W (map (place_group od) later)) s3 s4"
    unfolding same_withheld [OF k3, symmetric] by (rule foldE_answers [OF r(5) ve3]) (rule answer_group_answers)
  note a13 = answers_all_trans [OF a12 a3]
  note k4 = answers_all_keeps [OF a13] and ve4 = answers_all_ve [OF a13 ve1]
  have "answers_all (filter ?V (map (\<lambda>i. i) (od_ignored od))) s4 s5"
    unfolding same_withheld [OF k4, symmetric] by (rule foldE_answers [OF r(6) ve4]) (rule answer_ignored_answers)
  note a = answers_all_trans [OF a13 this, simplified]
  note k5 = answers_all_keeps [OF a]
  have st': "en_params st' = en_params s5" "en_group i st' = en_group i s5" for i
    by (simp_all add: r(7) deliver_if_def deliver_def en_group_def en_scheduler_def)
  have w: "withheld K st' = withheld K s1" "sg_is_finished (en_group i st') = sg_is_finished (en_group i s1)" for K i
    using k5 st' same_withheld [OF k5] by (simp_all add: withheld_def keeps_finished_def fun_eq_iff)
  obtain new where n: "en_request_outputs s5 = en_request_outputs s0 @ new" "map answer_name new = map (answer_of s1)
      (filter ?W (map (place_group od) fin) @ filter ?W (map (place_group od) later) @ filter ?V (od_ignored od))"
    using a p(2) unfolding answers_all_def by auto
  have "mset fin + mset later = mset (filter (\<lambda>k. \<not> (k \<in> set (od_skip od) \<or> finished_at od s0 k)) ks)"
  proof -
    have "later = filter (\<lambda>k. k \<notin> set (filter (\<lambda>k. k \<in> set (od_skip od) \<or> finished_at od s0 k) ks) \<and>
        k \<notin> set (filter (\<lambda>k. \<not> (k \<in> set (od_skip od) \<or> finished_at od s0 k) \<and> finished_at od s1 k) ks)) ks"
      unfolding later_def p(3,4) by (rule filter_cong) auto
    moreover have "fin = filter (\<lambda>k. \<not> (k \<in> set (od_skip od) \<or> finished_at od s0 k) \<and> finished_at od s1 k) ks"
      unfolding p(4) by (rule filter_cong) auto
    ultimately show ?thesis using mset_split_filter [of "\<lambda>k. k \<in> set (od_skip od) \<or> finished_at od s0 k" "finished_at od s1" ks]
      by argo
  qed
  then have "mset (filter ?W (map (place_group od) fin)) + mset (filter ?W (map (place_group od) later)) =
      mset (filter ?W (map (place_group od) (filter (\<lambda>k. k \<notin> set (od_skip od) \<and> \<not> finished_at od st k) ks)))"
    by (simp add: mset_filter finished_at_def groups flip: filter_union_mset image_mset_union)
  then have "mset (map answer_name new) = mset (map (answer_of s1) (to_answer od st st'))"
    unfolding n(2) to_answer_def w ks_def [symmetric] mset_map mset_append image_mset_union
    by (metis (no_types, lifting) add.assoc image_mset_union)
  moreover have "answer_of s1 = (\<lambda>i. (sg_request_id (en_group i st), sg_is_finished (en_group i st')))"
    using p(1) groups w by (simp add: answer_of_def same_requests_def fun_eq_iff)
  moreover have "answers s5 = answers st @ new" "en_output_queue s5 = queue"
    using n(1) p(1) k5(1) by (simp_all add: answers_def same_requests_def) (simp_all add: s0_def)
  then have "answers st' = answers st @ new" "en_output_queue st' = queue" by (simp_all add: r(7))
  ultimately show ?thesis unfolding answer_name_def by metis
qed

text \<open>
  A batch with a running request, one that only asks for the final output and goes on, one that was dealt
  with in advance, and one that the scheduler ignored.
\<close>

definition ex_engine_params :: "gid \<Rightarrow> sampling_params" where
  "ex_engine_params i = (ex_params [] 0 (Some 1) (Some []) 0)\<lparr>sp_output_kind := (if i = 2 then FINAL_ONLY else CUMULATIVE)\<rparr>"

definition ex_engine_groups :: "gid \<Rightarrow> seq_group" where
  "ex_engine_groups i = change_status WAITING (if i = 1 then FINISHED_IGNORED else RUNNING)
     (seq_group_init [''abcd'' ! i] [ex_seq i [5, 6]] 0 None None None 0)"

definition ex_engine_config :: engine_config where
  "ex_engine_config = \<lparr>ec_is_multi_step = False, ec_chunked_prefill_enabled = False, ec_speculative = False,
     ec_use_cached_outputs = False, ec_has_callback = True, ec_multi_step_stream_outputs = False,
     ec_pipeline_parallel = False\<rparr>"

definition ex_md :: "string \<Rightarrow> metadata" where
  "ex_md r = \<lparr>md_request_id = r, md_is_prompt = True, md_do_sample = True, md_token_chunk_size = 2,
       md_payload = FullData [], md_block_tables = [], md_computed_block_nums = [], md_encoder_seq_data = None,
       md_cross_block_table = None\<rparr>"

definition ex_batch :: output_data where
  "ex_batch = \<lparr>od_outputs = [map (\<lambda>i. \<lparr>go_samples = [ex_sample i 97], go_prompt_logprobs = None\<rparr>) [0, 2, 3]],
     od_metadata = map ex_md [''a'', ''c'', ''d''],
     od_scheduled = map (\<lambda>i. \<lparr>sch_group = i, sch_token_chunk_size = 2\<rparr>) [0, 2, 3], od_ignored = [1], od_is_async = False,
     od_is_last_step = True, od_is_first_step_output = None, od_skip = [2]\<rparr>"

definition ex_engine :: "unit engine" where
  "ex_engine = \<lparr>en_schedulers = [scheduler_init ex_engine_groups ()], en_ve = 0, en_seq_counter = 4,
     en_params = (\<lambda>i. Some (ex_engine_params i)), en_output_queue = [ex_batch], en_request_outputs = [], en_delivered = [],
     en_cached = None\<rparr>"

lemma ex_engine_runs:
  "map_sum id (\<lambda>st. (map (map (\<lambda>r. (rq_request_id r, rq_finished r))) (en_delivered st),
       map (\<lambda>i. (sg_request_id (en_group i ex_engine), sg_is_finished (en_group i st))) (to_answer ex_batch ex_engine st)))
     (process_model_outputs embedding_ops ex_engine_config ex_processor False 1 None ex_engine) =
   Inr ([[(''a'', False), (''b'', True)]], [(''a'', False), (''b'', True)])"
  by code_simp

theorem each_request_answered_once_witness:
  "\<exists>st'. process_model_outputs embedding_ops ex_engine_config ex_processor False 1 None ex_engine = Inr st' \<and>
     mset (map (\<lambda>r. (rq_request_id r, rq_finished r)) (answers st')) = {#(''a'', False), (''b'', True)#} \<and> en_output_queue st' = []"
proof -
  obtain st' where r: "process_model_outputs embedding_ops ex_engine_config ex_processor False 1 None ex_engine = Inr st'"
    using ex_engine_runs by (cases "process_model_outputs embedding_ops ex_engine_config ex_processor False 1 None ex_engine") auto
  have g: "map (\<lambda>i. (sg_request_id (en_group i ex_engine), sg_is_finished (en_group i st'))) (to_answer ex_batch ex_engine st') =
      [(''a'', False), (''b'', True)]" using ex_engine_runs r by simp
  have e: "answers ex_engine = []" by (simp add: answers_def ex_engine_def)
  have q: "en_output_queue ex_engine = ex_batch # []" by (simp add: ex_engine_def)
  have "(\<exists>new. answers st' = answers ex_engine @ new \<and> mset (map (\<lambda>r. (rq_request_id r, rq_finished r)) new) =
      mset (map (\<lambda>i. (sg_request_id (en_group i ex_engine), sg_is_finished (en_group i st'))) (to_answer ex_batch ex_engine st'))) \<and>
    en_output_queue st' = []"
    by (rule each_request_answered_once [OF r q]) (auto simp: ex_batch_def ex_engine_def)
  then show ?thesis using r unfolding g e by auto
qed

end
