(* ===== verification/Engine_Requests.thy ===== *)
theory Engine_Requests
  imports Engine
begin

text \<open>
  \<open>vllm/engine/llm_engine.py\<close>: how requests enter and leave the engine. The preprocessing of a prompt (the
  tokenizer, multi-modal data) is a parameter. Guided decoding and logit biases only build processors for
  the sampler and are left out, as are traces. The engine shares one dictionary of groups between its
  schedulers here: the group of a request is named by the id of its first sequence, which is new.
\<close>

section \<open>Adding a request\<close>

record request_config =
  rc_is_multimodal :: bool
  rc_is_encoder_decoder :: bool
  rc_max_model_len :: nat
  rc_max_logprobs :: int
  rc_block_size :: nat
  rc_lora_enabled :: bool
  rc_policy :: string
  rc_generation_eos :: "token_id list option"
  rc_eos_token_id :: "lora_request option \<Rightarrow> token_id option"

definition validate_model_inputs :: "request_config \<Rightarrow> llm_inputs \<Rightarrow> py_error + unit" where
  "validate_model_inputs rc inputs =
     (let prompt_ids = (if rc_is_multimodal rc then Some (li_prompt_token_ids inputs)
            else if rc_is_encoder_decoder rc then li_encoder_prompt_token_ids inputs
            else Some (li_prompt_token_ids inputs)) in
      bindE (raise_unless ValueError (prompt_ids \<noteq> None \<and> prompt_ids \<noteq> Some [])) (\<lambda>_.
      raise_unless ValueError (rc_is_multimodal rc \<longrightarrow> length (the prompt_ids) \<le> rc_max_model_len rc)))"

definition too_many_logprobs :: "int \<Rightarrow> int option \<Rightarrow> bool" where
  "too_many_logprobs max_logprobs n = (case n of None \<Rightarrow> False | Some n \<Rightarrow> n \<noteq> 0 \<and> n > max_logprobs)"

definition create_sequence_group_with_sampling ::
  "request_config \<Rightarrow> (token_id set \<Rightarrow> token_id list) \<Rightarrow> string \<Rightarrow> sequence \<Rightarrow> sampling_params \<Rightarrow> real \<Rightarrow>
     lora_request option \<Rightarrow> sequence option \<Rightarrow> int \<Rightarrow> py_error + (seq_group \<times> sampling_params)" where
  "create_sequence_group_with_sampling rc set_iter request_id seq p arrival_time lora_req encoder_seq priority =
     bindE (raise_unless ValueError (\<not> (too_many_logprobs (rc_max_logprobs rc) (sp_logprobs p) \<or>
              too_many_logprobs (rc_max_logprobs rc) (sp_prompt_logprobs p)))) (\<lambda>_.
     let p = update_from_generation_config set_iter (rc_generation_eos rc) (sq_eos_token_id seq) p in
     Inr (seq_group_init request_id [seq] arrival_time (map_option nat (sp_best_of p)) lora_req encoder_seq priority, p))"

definition create_sequence_group_with_pooling ::
  "string \<Rightarrow> sequence \<Rightarrow> real \<Rightarrow> lora_request option \<Rightarrow> sequence option \<Rightarrow> int \<Rightarrow> seq_group" where
  "create_sequence_group_with_pooling request_id seq arrival_time lora_req encoder_seq priority =
     seq_group_init request_id [seq] arrival_time None lora_req encoder_seq priority"

text \<open>\<open>costs.index(min(costs))\<close>\<close>

fun index_of_min :: "nat list \<Rightarrow> nat" where
  "index_of_min [] = 0"
| "index_of_min [c] = 0"
| "index_of_min (c # cs) = (if list_all (\<lambda>d. c \<le> d) cs then 0 else Suc (index_of_min cs))"

definition costs :: "'b engine \<Rightarrow> nat list" where
  "costs st = map get_num_unfinished_seq_groups (en_schedulers st)"

text \<open>\<open>params = None\<close> stands for pooling parameters.\<close>

definition add_processed_request ::
  "request_config \<Rightarrow> (token_id set \<Rightarrow> token_id list) \<Rightarrow> string \<Rightarrow> llm_inputs \<Rightarrow> sampling_params option \<Rightarrow> real \<Rightarrow>
     lora_request option \<Rightarrow> int \<Rightarrow> 'b engine \<Rightarrow> py_error + 'b engine" where
  "add_processed_request rc set_iter request_id inputs params arrival_time lora_req priority st =
     bindE (validate_model_inputs rc inputs) (\<lambda>_.
     let seq_id = en_seq_counter st; st = st\<lparr>en_seq_counter := Suc seq_id\<rparr>; eos = rc_eos_token_id rc lora_req in
     bindE (sequence_init seq_id inputs (rc_block_size rc) eos lora_req True) (\<lambda>seq.
     bindE (if li_encoder_prompt_token_ids inputs \<noteq> None
            then bindE (sequence_init seq_id inputs (rc_block_size rc) eos lora_req False) (\<lambda>s. Inr (Some s))
            else Inr None) (\<lambda>encoder_seq.
     bindE (case params of
              Some p \<Rightarrow> bindE (create_sequence_group_with_sampling rc set_iter request_id seq p arrival_time lora_req encoder_seq
                               priority) (\<lambda>(g, p). Inr (g, Some p))
            | None \<Rightarrow> Inr (create_sequence_group_with_pooling request_id seq arrival_time lora_req encoder_seq priority, None))
       (\<lambda>(g, params).
     bindE (raise_unless ValueError (en_schedulers st \<noteq> [])) (\<lambda>_.
     let k = index_of_min (costs st) in
     Inr (st\<lparr>en_schedulers := (en_schedulers st)[k := add_seq_group seq_id (put_group seq_id g (en_schedulers st ! k))],
            en_params := (en_params st)(seq_id := params)\<rparr>))))))"

definition add_request ::
  "request_config \<Rightarrow> ('p \<Rightarrow> py_error + llm_inputs) \<Rightarrow> (token_id set \<Rightarrow> token_id list) \<Rightarrow> string \<Rightarrow> 'p \<Rightarrow>
     sampling_params option \<Rightarrow> real \<Rightarrow> lora_request option \<Rightarrow> int \<Rightarrow> 'b engine \<Rightarrow> py_error + 'b engine" where
  "add_request rc preprocess set_iter request_id prompt params arrival_time lora_req priority st =
     bindE (raise_unless ValueError (lora_req \<noteq> None \<longrightarrow> rc_lora_enabled rc)) (\<lambda>_.
     bindE (raise_unless ValueError (priority \<noteq> 0 \<longrightarrow> rc_policy rc = ''priority'')) (\<lambda>_.
     bindE (preprocess prompt) (\<lambda>inputs.
     add_processed_request rc set_iter request_id inputs params arrival_time lora_req priority st)))"

section \<open>Aborting and counting\<close>

definition abort_request :: "'b manager_ops \<Rightarrow> string set \<Rightarrow> 'b engine \<Rightarrow> py_error + 'b engine" where
  "abort_request B request_ids st =
     bindE (each_scheduler (abort_seq_group B request_ids) (en_schedulers st)) (\<lambda>ss. Inr (st\<lparr>en_schedulers := ss\<rparr>))"

definition get_num_unfinished_requests :: "'b engine \<Rightarrow> nat" where
  "get_num_unfinished_requests st = sum_list (costs st)"

section \<open>Requests are spread evenly\<close>

lemma index_of_min_less: "cs \<noteq> [] \<Longrightarrow> index_of_min cs < length cs"
  by (induction cs rule: index_of_min.induct) auto

lemma index_of_min_le: "c \<in> set cs \<Longrightarrow> cs ! index_of_min cs \<le> c"
proof (induction cs arbitrary: c rule: index_of_min.induct)
  case (3 b d ds)
  show ?case
  proof (cases "list_all (\<lambda>e. b \<le> e) (d # ds)")
    case True
    then show ?thesis using 3(2) by (auto simp: list_all_iff)
  next
    case False
    then obtain e where e: "e \<in> set (d # ds)" "e < b" unfolding list_all_iff by (metis not_le)
    have idx: "(b # d # ds) ! index_of_min (b # d # ds) = (d # ds) ! index_of_min (d # ds)"
      unfolding index_of_min.simps if_not_P [OF False] by simp
    show ?thesis
    proof (cases "c = b")
      case True
      then show ?thesis using 3(1) [OF False e(1)] e(2) idx by linarith
    next
      case neq: False
      then show ?thesis using 3(1) [OF False, of c] 3(2) idx by simp
    qed
  qed
qed simp_all

definition balanced :: "nat list \<Rightarrow> bool" where
  "balanced cs \<longleftrightarrow> (\<forall>c \<in> set cs. \<forall>d \<in> set cs. c \<le> Suc d)"

lemma balanced_add:
  assumes "balanced cs" "cs \<noteq> []"
  shows "balanced (cs[index_of_min cs := Suc (cs ! index_of_min cs)])"
proof -
  let ?k = "index_of_min cs"
  have k: "cs ! ?k \<in> set cs" using index_of_min_less [OF assms(2)] by simp
  have "set (cs[?k := Suc (cs ! ?k)]) \<subseteq> insert (Suc (cs ! ?k)) (set cs)" by (rule set_update_subset_insert)
  moreover have "Suc (cs ! ?k) \<le> Suc d \<and> d \<le> Suc (Suc (cs ! ?k))" if "d \<in> set cs" for d
    using index_of_min_le [OF that] assms(1) k that by (auto simp: balanced_def intro: le_SucI)
  moreover have "c \<le> Suc d" if "c \<in> set cs" "d \<in> set cs" for c d using assms(1) that by (simp add: balanced_def)
  ultimately show ?thesis unfolding balanced_def by (metis Suc_le_mono insertE le_refl le_SucI subsetD)
qed

lemma sum_list_update_Suc: "k < length cs \<Longrightarrow> sum_list (cs[k := Suc (cs ! k)]) = Suc (sum_list cs)"
  by (induction cs arbitrary: k) (auto split: nat.split)

text \<open>What a request that was accepted changes.\<close>

lemma add_request_effect:
  assumes "add_request rc preprocess set_iter request_id prompt params arrival_time lora_req priority st = Inr st'"
  obtains g inputs p where "preprocess prompt = Inr inputs" "sg_request_id g = request_id" "sg_priority g = priority"
    "map sq_seq_id (sg_seqs g) = [en_seq_counter st]" "map sq_status (sg_seqs g) = [WAITING]"
    "map (\<lambda>s. sd_prompt_token_ids (sq_data s)) (sg_seqs g) = [li_prompt_token_ids inputs]"
    "en_schedulers st \<noteq> []"
    "st' = st\<lparr>en_seq_counter := Suc (en_seq_counter st), en_schedulers := (en_schedulers st)[index_of_min (costs st) :=
       add_seq_group (en_seq_counter st) (put_group (en_seq_counter st) g (en_schedulers st ! index_of_min (costs st)))],
       en_params := (en_params st)(en_seq_counter st := p)\<rparr>"
proof -
  obtain inputs where i: "preprocess prompt = Inr inputs"
    "add_processed_request rc set_iter request_id inputs params arrival_time lora_req priority st = Inr st'"
    using assms by (auto simp: add_request_def)
  obtain seq enc g p where s: "sequence_init (en_seq_counter st) inputs (rc_block_size rc) (rc_eos_token_id rc lora_req) lora_req True = Inr seq"
    and g: "(case params of
              Some p \<Rightarrow> bindE (create_sequence_group_with_sampling rc set_iter request_id seq p arrival_time lora_req enc
                               priority) (\<lambda>(g, p). Inr (g, Some p))
            | None \<Rightarrow> Inr (create_sequence_group_with_pooling request_id seq arrival_time lora_req enc priority, None)) = Inr (g, p)"
    and n: "en_schedulers st \<noteq> []"
    and st': "st' = st\<lparr>en_seq_counter := Suc (en_seq_counter st), en_schedulers := (en_schedulers st)[index_of_min (costs st) :=
       add_seq_group (en_seq_counter st) (put_group (en_seq_counter st) g (en_schedulers st ! index_of_min (costs st)))],
       en_params := (en_params st)(en_seq_counter st := p)\<rparr>"
    using i(2) by (auto simp: add_processed_request_def Let_def costs_def)
  have "\<exists>b. g = seq_group_init request_id [seq] arrival_time b lora_req enc priority"
    using g by (auto simp: create_sequence_group_with_sampling_def create_sequence_group_with_pooling_def Let_def split: option.splits)
  then show thesis
    using s by (intro that [OF i(1) _ _ _ _ _ n st'])
      (auto simp: seq_group_init_def sequence_init_def Let_def from_seqs_def seq_data_init_def update_cached_all_tokens_def)
qed

text \<open>The ids of the requests that wait, over all schedulers; and that all of them have groups older than the counter.\<close>

definition waiting_requests :: "'b engine \<Rightarrow> string list" where
  "waiting_requests st =
     concat (map (\<lambda>s. map (\<lambda>i. sg_request_id (sc_groups s i)) (sc_waiting s)) (en_schedulers st))"

definition fresh_counter :: "'b engine \<Rightarrow> bool" where
  "fresh_counter st \<longleftrightarrow> list_all (\<lambda>s. list_all (\<lambda>i. i < en_seq_counter st) (sc_waiting s)) (en_schedulers st)"

lemma mset_concat_update:
  assumes "k < length xs" "mset (f y) = add_mset a (mset (f (xs ! k)))"
  shows "mset (concat (map f (xs[k := y]))) = add_mset a (mset (concat (map f xs)))"
  using assms by (induction xs arbitrary: k) (auto split: nat.split)

lemma add_request_step:
  assumes "add_request rc preprocess set_iter request_id prompt params arrival_time lora_req priority st = Inr st'"
    "balanced (costs st)" "fresh_counter st"
  shows "balanced (costs st') \<and> fresh_counter st' \<and>
    get_num_unfinished_requests st' = Suc (get_num_unfinished_requests st) \<and>
    mset (waiting_requests st') = add_mset request_id (mset (waiting_requests st))"
proof -
  obtain g p where g: "sg_request_id g = request_id" "en_schedulers st \<noteq> []"
    "st' = st\<lparr>en_seq_counter := Suc (en_seq_counter st), en_schedulers := (en_schedulers st)[index_of_min (costs st) :=
       add_seq_group (en_seq_counter st) (put_group (en_seq_counter st) g (en_schedulers st ! index_of_min (costs st)))],
       en_params := (en_params st)(en_seq_counter st := p)\<rparr>"
    using add_request_effect [OF assms(1)] by metis
  define n k where "n = en_seq_counter st" and "k = index_of_min (costs st)"
  define s where "s = en_schedulers st ! k"
  define s' where "s' = add_seq_group n (put_group n g s)"
  have st': "en_schedulers st' = (en_schedulers st)[k := s']" "en_seq_counter st' = Suc n"
    by (simp_all add: g(3) n_def k_def s_def s'_def)
  have ne: "costs st \<noteq> []" using g(2) by (simp add: costs_def)
  have k: "k < length (en_schedulers st)" using index_of_min_less [OF ne] by (simp add: k_def costs_def)
  have old: "\<forall>i \<in> set (sc_waiting s). i < n"
    using assms(3) nth_mem [OF k] by (simp add: fresh_counter_def list_all_iff s_def n_def)
  have "get_num_unfinished_seq_groups s' = Suc (get_num_unfinished_seq_groups s)"
    by (simp add: s'_def get_num_unfinished_seq_groups_def add_seq_group_def put_group_def)
  then have costs: "costs st' = (costs st)[k := Suc (costs st ! k)]"
    using k by (simp add: costs_def st' map_update s_def)
  have "balanced (costs st')" using balanced_add [OF assms(2) ne] by (simp add: costs k_def)
  moreover have "get_num_unfinished_requests st' = Suc (get_num_unfinished_requests st)"
    unfolding get_num_unfinished_requests_def costs by (rule sum_list_update_Suc) (simp add: k costs_def)
  moreover have "fresh_counter st'"
    using assms(3) old k set_update_subset_insert [of "en_schedulers st" k s']
    by (fastforce simp: fresh_counter_def list_all_iff st' s'_def add_seq_group_def put_group_def n_def)
  moreover have "mset (waiting_requests st') = add_mset request_id (mset (waiting_requests st))"
  proof -
    have "map (\<lambda>i. sg_request_id (sc_groups s' i)) (sc_waiting s') = map (\<lambda>i. sg_request_id (sc_groups s i)) (sc_waiting s) @ [request_id]"
      using old by (auto simp: s'_def add_seq_group_def put_group_def g(1))
    then show ?thesis using k unfolding waiting_requests_def st' s_def by (intro mset_concat_update) auto
  qed
  ultimately show ?thesis by blast
qed

text \<open>A request as it arrives.\<close>

type_synonym 'p arrival = "string \<times> 'p \<times> sampling_params option \<times> real \<times> lora_request option \<times> int"

definition add_arrival ::
  "request_config \<Rightarrow> ('p \<Rightarrow> py_error + llm_inputs) \<Rightarrow> (token_id set \<Rightarrow> token_id list) \<Rightarrow> 'p arrival \<Rightarrow> 'b engine \<Rightarrow>
     py_error + 'b engine" where
  "add_arrival rc preprocess set_iter = (\<lambda>(request_id, prompt, params, arrival_time, lora_req, priority).
     add_request rc preprocess set_iter request_id prompt params arrival_time lora_req priority)"

text \<open>
  C16. However many requests the engine accepts, every one of them waits in a queue of exactly one scheduler
  under its own id, next to those that waited before, the number of unfinished requests grows by one for each,
  and the schedulers stay evenly loaded: if their numbers of unfinished requests differed by at most one
  before, they do so after.
\<close>

theorem requests_spread_evenly:
  assumes "foldE (add_arrival rc preprocess set_iter) arrivals st = Inr st'"
    "balanced (costs st)" "fresh_counter st"
  shows "balanced (costs st') \<and> mset (waiting_requests st') = mset (waiting_requests st) + mset (map fst arrivals) \<and>
    get_num_unfinished_requests st' = get_num_unfinished_requests st + length arrivals"
  using assms
proof (induction arrivals arbitrary: st)
  case (Cons a as)
  obtain request_id prompt params arrival_time lora_req priority where
    a: "a = (request_id, prompt, params, arrival_time, lora_req, priority)" by (cases a)
  obtain s where s: "add_request rc preprocess set_iter request_id prompt params arrival_time lora_req priority st = Inr s"
    "foldE (add_arrival rc preprocess set_iter) as s = Inr st'" using Cons.prems(1) by (auto simp: a add_arrival_def)
  note step = add_request_step [OF s(1) Cons.prems(2,3)]
  show ?case using Cons.IH [OF s(2)] step by (simp add: a)
qed simp

definition ex_request_config :: request_config where
  "ex_request_config = \<lparr>rc_is_multimodal = False, rc_is_encoder_decoder = False, rc_max_model_len = 8, rc_max_logprobs = 5,
     rc_block_size = 4, rc_lora_enabled = False, rc_policy = ''fcfs'', rc_generation_eos = None, rc_eos_token_id = (\<lambda>_. Some 2)\<rparr>"

definition ex_two_schedulers :: "unit engine" where
  "ex_two_schedulers = \<lparr>en_schedulers = [scheduler_init (\<lambda>_. undefined) (), scheduler_init (\<lambda>_. undefined) ()], en_ve = 0,
     en_seq_counter = 0, en_params = (\<lambda>_. None), en_output_queue = [], en_request_outputs = [], en_delivered = [],
     en_cached = None\<rparr>"

definition ex_arrivals :: "token_id list arrival list" where
  "ex_arrivals = map (\<lambda>r. (r, [5, 6], None, 0, None, 0)) [''a'', ''b'', ''c'']"

definition ex_preprocess :: "token_id list \<Rightarrow> py_error + llm_inputs" where
  "ex_preprocess ids = Inr \<lparr>li_prompt_token_ids = ids, li_encoder_prompt_token_ids = None\<rparr>"

theorem requests_spread_evenly_witness:
  "\<exists>st'. foldE (add_arrival ex_request_config ex_preprocess (\<lambda>_. [])) ex_arrivals ex_two_schedulers = Inr st' \<and>
     costs st' = [2, 1] \<and> mset (waiting_requests st') = {#''a'', ''b'', ''c''#}"
proof -
  have r: "map_sum id costs (foldE (add_arrival ex_request_config ex_preprocess (\<lambda>_. [])) ex_arrivals ex_two_schedulers) = Inr [2, 1]"
    by code_simp
  then obtain st' where st': "foldE (add_arrival ex_request_config ex_preprocess (\<lambda>_. [])) ex_arrivals ex_two_schedulers = Inr st'"
    "costs st' = [2, 1]"
    by (cases "foldE (add_arrival ex_request_config ex_preprocess (\<lambda>_. [])) ex_arrivals ex_two_schedulers") auto
  have "balanced (costs ex_two_schedulers)" "fresh_counter ex_two_schedulers" "waiting_requests ex_two_schedulers = []"
    by code_simp+
  with requests_spread_evenly [OF st'(1) this(1,2)] have "mset (waiting_requests st') = {#''a'', ''b'', ''c''#}"
    by (simp add: ex_arrivals_def)
  with st' show ?thesis by blast
qed

end
