(* ===== verification/Block_Allocator_V1.thy ===== *)
theory Block_Allocator_V1
  imports Block_Interfaces
begin

text \<open>
  \<open>vllm/block.py\<close>, \<open>vllm/core/evictor_v1.py\<close> and the allocators of \<open>vllm/core/block_manager_v1.py\<close>.
  A block object is created once for each device and number and then shared and mutated, so a block is
  the pair of both, and its state stands in a store. A hash is an integer of Python.
\<close>

section \<open>Blocks\<close>

type_synonym block_ref = "device \<times> nat"

record phys_block =
  pb_block_hash :: int
  pb_num_hashed_tokens :: nat
  pb_ref_count :: nat
  pb_last_accessed :: real
  pb_computed :: bool

type_synonym block_store = "block_ref \<Rightarrow> phys_block"

definition phys_block_init :: "int \<Rightarrow> nat \<Rightarrow> phys_block" where
  "phys_block_init block_hash num_hashed_tokens =
     \<lparr>pb_block_hash = block_hash, pb_num_hashed_tokens = num_hashed_tokens, pb_ref_count = 0, pb_last_accessed = - 1,
      pb_computed = False\<rparr>"

definition set_ref_count :: "nat \<Rightarrow> block_ref \<Rightarrow> block_store \<Rightarrow> block_store" where
  "set_ref_count n b st = st(b := (st b)\<lparr>pb_ref_count := n\<rparr>)"

definition incr_ref_count :: "block_ref \<Rightarrow> block_store \<Rightarrow> block_store" where
  "incr_ref_count b st = set_ref_count (Suc (pb_ref_count (st b))) b st"

section \<open>The evictor\<close>

text \<open>The ordered dictionary from hashes to blocks.\<close>

type_synonym evictor_v1 = "(int \<times> block_ref) list"

definition ev1_contains :: "int \<Rightarrow> evictor_v1 \<Rightarrow> bool" where
  "ev1_contains k t = list_ex (\<lambda>(j, _). j = k) t"

fun ev1_scan :: "block_store \<Rightarrow> block_ref \<Rightarrow> block_ref list \<Rightarrow> block_ref" where
  "ev1_scan st evicted [] = evicted"
| "ev1_scan st evicted (b # bs) =
     (if pb_last_accessed (st evicted) < pb_last_accessed (st b) then evicted
      else ev1_scan st (if pb_num_hashed_tokens (st evicted) < pb_num_hashed_tokens (st b) then b else evicted) bs)"

definition ev1_evict :: "evictor_v1 \<Rightarrow> block_store \<Rightarrow> py_error + (block_ref \<times> evictor_v1 \<times> block_store)" where
  "ev1_evict t st =
     bindE (raise_unless ValueError (t \<noteq> [])) (\<lambda>_.
     let blocks = map snd t; b = ev1_scan st (hd blocks) blocks; k = pb_block_hash (st b) in
     bindE (raise_unless KeyError (ev1_contains k t)) (\<lambda>_.
     Inr (b, dict_del k t, st(b := (st b)\<lparr>pb_computed := False\<rparr>))))"

definition ev1_add :: "block_store \<Rightarrow> block_ref \<Rightarrow> evictor_v1 \<Rightarrow> evictor_v1" where
  "ev1_add st b t = dict_set (pb_block_hash (st b)) b t"

definition ev1_remove :: "int \<Rightarrow> evictor_v1 \<Rightarrow> py_error + (block_ref \<times> evictor_v1)" where
  "ev1_remove k t = bindE (from_option ValueError (map_of t k)) (\<lambda>b. Inr (b, dict_del k t))"

section \<open>The allocator with prefix caching\<close>

record cached_allocator =
  ca_device :: device
  ca_num_blocks :: nat
  ca_current_num_blocks :: nat
  ca_cached_blocks :: "int \<rightharpoonup> block_ref"
  ca_evictor :: evictor_v1
  ca_default_hash_ctr :: nat
  ca_metric :: cache_metric

definition cached_init :: "device \<Rightarrow> nat \<Rightarrow> cached_allocator" where
  "cached_init dev num_blocks =
     \<lparr>ca_device = dev, ca_num_blocks = num_blocks, ca_current_num_blocks = 0, ca_cached_blocks = (\<lambda>_. None),
      ca_evictor = [], ca_default_hash_ctr = 0, ca_metric = cache_metric_init 1000\<rparr>"

definition cached_allocate_block ::
  "int \<Rightarrow> nat \<Rightarrow> cached_allocator \<Rightarrow> block_store \<Rightarrow> py_error + (block_ref \<times> cached_allocator \<times> block_store)" where
  "cached_allocate_block block_hash num_hashed_tokens a st =
     (if ca_current_num_blocks a = ca_num_blocks a
      then bindE (ev1_evict (ca_evictor a) st) (\<lambda>(b, t, st).
           Inr (b, a\<lparr>ca_evictor := t\<rparr>, st(b := (st b)
             \<lparr>pb_block_hash := block_hash, pb_num_hashed_tokens := num_hashed_tokens\<rparr>)))
      else let b = (ca_device a, ca_current_num_blocks a) in
           Inr (b, a\<lparr>ca_current_num_blocks := ca_current_num_blocks a + 1\<rparr>, st(b := phys_block_init block_hash num_hashed_tokens)))"

definition cached_allocate ::
  "int option \<Rightarrow> nat \<Rightarrow> cached_allocator \<Rightarrow> block_store \<Rightarrow> py_error + (block_ref \<times> cached_allocator \<times> block_store)" where
  "cached_allocate block_hash num_hashed_tokens a st =
     (let (k, a) = (case block_hash of
            Some k \<Rightarrow> (k, a)
          | None \<Rightarrow> (int (ca_default_hash_ctr a), a\<lparr>ca_default_hash_ctr := ca_default_hash_ctr a + 1\<rparr>)) in
      bindE (if ev1_contains k (ca_evictor a)
             then bindE (py_assert (ca_cached_blocks a k = None)) (\<lambda>_.
                  bindE (ev1_remove k (ca_evictor a)) (\<lambda>(b, t).
                  bindE (py_assert (pb_ref_count (st b) = 0)) (\<lambda>_.
                  Inr (a\<lparr>ca_evictor := t, ca_cached_blocks := (ca_cached_blocks a)(k \<mapsto> b)\<rparr>))))
             else Inr a) (\<lambda>a.
      bindE (if ca_cached_blocks a k \<noteq> None then Inr (a\<lparr>ca_metric := cm_query True (ca_metric a)\<rparr>, st)
             else bindE (cached_allocate_block k num_hashed_tokens (a\<lparr>ca_metric := cm_query False (ca_metric a)\<rparr>) st) (\<lambda>(b, a, st).
                  Inr (a\<lparr>ca_cached_blocks := (ca_cached_blocks a)(k \<mapsto> b)\<rparr>, st))) (\<lambda>(a, st).
      let b = the (ca_cached_blocks a k) in
      bindE (py_assert (pb_block_hash (st b) = k)) (\<lambda>_.
      Inr (b, a, incr_ref_count b st)))))"

definition cached_free :: "block_ref \<Rightarrow> cached_allocator \<Rightarrow> block_store \<Rightarrow> py_error + (cached_allocator \<times> block_store)" where
  "cached_free b a st =
     bindE (raise_unless ValueError (pb_ref_count (st b) \<noteq> 0)) (\<lambda>_.
      let st = set_ref_count (pb_ref_count (st b) - 1) b st; k = pb_block_hash (st b) in
      if pb_ref_count (st b) = 0
      then bindE (py_assert (\<not> ev1_contains k (ca_evictor a))) (\<lambda>_.
           bindE (raise_unless KeyError (ca_cached_blocks a k \<noteq> None)) (\<lambda>_.
           Inr (a\<lparr>ca_evictor := ev1_add st b (ca_evictor a), ca_cached_blocks := (ca_cached_blocks a)(k := None)\<rparr>, st)))
      else Inr (a, st))"

definition cached_get_num_free_blocks :: "cached_allocator \<Rightarrow> int" where
  "cached_get_num_free_blocks a =
     int (ca_num_blocks a) - int (ca_current_num_blocks a) + int (length (ca_evictor a))"

definition cached_contains_block :: "int \<Rightarrow> cached_allocator \<Rightarrow> bool" where
  "cached_contains_block k a \<longleftrightarrow> ca_cached_blocks a k \<noteq> None \<or> ev1_contains k (ca_evictor a)"

definition cached_update_hash :: "int \<Rightarrow> block_ref \<Rightarrow> cached_allocator \<Rightarrow> block_store \<Rightarrow> py_error + (cached_allocator \<times> block_store)" where
  "cached_update_hash k b a st =
     bindE (py_assert (\<not> cached_contains_block k a)) (\<lambda>_.
      let old_hash = pb_block_hash (st b); st = st(b := (st b)\<lparr>pb_block_hash := k\<rparr>) in
      bindE (raise_unless KeyError (ca_cached_blocks a old_hash \<noteq> None)) (\<lambda>_.
      Inr (a\<lparr>ca_cached_blocks := (ca_cached_blocks a)(old_hash := None, k \<mapsto> b)\<rparr>, st)))"

section \<open>The allocator without caching\<close>

text \<open>The free list is a stack: blocks are taken from its end.\<close>

record uncached_allocator =
  ua_device :: device
  ua_num_blocks :: nat
  ua_free_blocks :: "block_ref list"

definition uncached_init :: "device \<Rightarrow> nat \<Rightarrow> block_store \<Rightarrow> uncached_allocator \<times> block_store" where
  "uncached_init dev num_blocks st =
     (\<lparr>ua_device = dev, ua_num_blocks = num_blocks, ua_free_blocks = map (Pair dev) [0..<num_blocks]\<rparr>,
      \<lambda>r. if fst r = dev \<and> snd r < num_blocks then phys_block_init (- 1) 0 else st r)"

definition uncached_allocate ::
  "uncached_allocator \<Rightarrow> block_store \<Rightarrow> py_error + (block_ref \<times> uncached_allocator \<times> block_store)" where
  "uncached_allocate a st =
     bindE (raise_unless ValueError (ua_free_blocks a \<noteq> [])) (\<lambda>_.
     let b = last (ua_free_blocks a) in
     Inr (b, a\<lparr>ua_free_blocks := butlast (ua_free_blocks a)\<rparr>, set_ref_count 1 b st))"

definition uncached_free :: "block_ref \<Rightarrow> uncached_allocator \<Rightarrow> block_store \<Rightarrow> py_error + (uncached_allocator \<times> block_store)" where
  "uncached_free b a st =
     bindE (raise_unless ValueError (pb_ref_count (st b) \<noteq> 0)) (\<lambda>_.
      let st = set_ref_count (pb_ref_count (st b) - 1) b st in
      if pb_ref_count (st b) = 0 then Inr (a\<lparr>ua_free_blocks := ua_free_blocks a @ [b]\<rparr>, st) else Inr (a, st))"

section \<open>Either allocator\<close>

datatype allocator_v1 = Cached cached_allocator | Uncached uncached_allocator

fun a1_allocate ::
  "int option \<Rightarrow> nat \<Rightarrow> allocator_v1 \<Rightarrow> block_store \<Rightarrow> py_error + (block_ref \<times> allocator_v1 \<times> block_store)" where
  "a1_allocate block_hash num_hashed_tokens (Cached a) st =
     bindE (cached_allocate block_hash num_hashed_tokens a st) (\<lambda>(b, a, st). Inr (b, Cached a, st))"
| "a1_allocate block_hash num_hashed_tokens (Uncached a) st =
     bindE (uncached_allocate a st) (\<lambda>(b, a, st). Inr (b, Uncached a, st))"

fun a1_free :: "block_ref \<Rightarrow> allocator_v1 \<Rightarrow> block_store \<Rightarrow> py_error + (allocator_v1 \<times> block_store)" where
  "a1_free b (Cached a) st = bindE (cached_free b a st) (\<lambda>(a, st). Inr (Cached a, st))"
| "a1_free b (Uncached a) st = bindE (uncached_free b a st) (\<lambda>(a, st). Inr (Uncached a, st))"

fun a1_get_num_free_blocks :: "allocator_v1 \<Rightarrow> int" where
  "a1_get_num_free_blocks (Cached a) = cached_get_num_free_blocks a"
| "a1_get_num_free_blocks (Uncached a) = int (length (ua_free_blocks a))"

fun a1_get_num_total_blocks :: "allocator_v1 \<Rightarrow> nat" where
  "a1_get_num_total_blocks (Cached a) = ca_num_blocks a"
| "a1_get_num_total_blocks (Uncached a) = ua_num_blocks a"

fun a1_contains_block :: "int \<Rightarrow> allocator_v1 \<Rightarrow> py_error + bool" where
  "a1_contains_block k (Cached a) = Inr (cached_contains_block k a)"
| "a1_contains_block k (Uncached a) = Inl NotImplementedError"

fun a1_update_hash :: "int \<Rightarrow> block_ref \<Rightarrow> allocator_v1 \<Rightarrow> block_store \<Rightarrow> py_error + (allocator_v1 \<times> block_store)" where
  "a1_update_hash k b (Cached a) st = bindE (cached_update_hash k b a st) (\<lambda>(a, st). Inr (Cached a, st))"
| "a1_update_hash k b (Uncached a) st = Inl NotImplementedError"

fun a1_get_prefix_cache_hit_rate :: "allocator_v1 \<Rightarrow> real" where
  "a1_get_prefix_cache_hit_rate (Cached a) = get_hit_rate (ca_metric a)"
| "a1_get_prefix_cache_hit_rate (Uncached a) = - 1"

end
