(* ===== verification/Block_Manager_V1.thy ===== *)
theory Block_Manager_V1
  imports Block_Allocator_V1 Manager_Interface
begin

text \<open>
  \<open>vllm/core/block_manager_v1.py\<close>: \<open>BlockSpaceManagerV1\<close>. A block table is the list of its blocks; it is
  copied wherever two sequences get the same. The hash of a prefix and the order in which Python iterates
  over a set of blocks are parameters: \<open>H\<close>, and \<open>it\<close>, which rearranges a list without repetitions.
\<close>

section \<open>State\<close>

record manager_v1 =
  m1_block_size :: nat
  m1_num_total_gpu_blocks :: nat
  m1_num_total_cpu_blocks :: nat
  m1_block_sliding_window :: "nat option"
  m1_enable_caching :: bool
  m1_watermark_blocks :: nat
  m1_gpu :: allocator_v1
  m1_cpu :: allocator_v1
  m1_store :: block_store
  m1_block_tables :: "(nat \<times> block_ref list) list"
  m1_cross_block_tables :: "(string \<times> block_ref list) list"

definition manager_v1_init :: "nat \<Rightarrow> nat \<Rightarrow> nat \<Rightarrow> real \<Rightarrow> nat option \<Rightarrow> bool \<Rightarrow> block_store \<Rightarrow> py_error + manager_v1" where
  "manager_v1_init block_size num_gpu_blocks num_cpu_blocks watermark sliding_window enable_caching st =
     bindE (raise_unless NotImplementedError (\<not> (enable_caching \<and> sliding_window \<noteq> None))) (\<lambda>_.
     bindE (raise_unless ZeroDivisionError (sliding_window \<noteq> None \<longrightarrow> block_size \<noteq> 0)) (\<lambda>_.
     bindE (py_assert (watermark \<ge> 0)) (\<lambda>_.
     let (gpu, cpu, st) =
           (if enable_caching then (Cached (cached_init GPU num_gpu_blocks), Cached (cached_init CPU num_cpu_blocks), st)
            else let (gpu, st) = uncached_init GPU num_gpu_blocks st; (cpu, st) = uncached_init CPU num_cpu_blocks st
                 in (Uncached gpu, Uncached cpu, st))
     in Inr \<lparr>m1_block_size = block_size, m1_num_total_gpu_blocks = num_gpu_blocks, m1_num_total_cpu_blocks = num_cpu_blocks,
             m1_block_sliding_window = map_option (\<lambda>w. (w + block_size - 1) div block_size) sliding_window,
             m1_enable_caching = enable_caching, m1_watermark_blocks = nat \<lfloor>watermark * real num_gpu_blocks\<rfloor>,
             m1_gpu = gpu, m1_cpu = cpu, m1_store = st, m1_block_tables = [], m1_cross_block_tables = []\<rparr>)))"

text \<open>\<open>Sequence.hash_of_block\<close>\<close>

type_synonym prefix_hash = "(token_id list \<times> token_id list option) \<times> nat \<Rightarrow> int"

definition hash_of_block :: "prefix_hash \<Rightarrow> nat \<Rightarrow> sequence \<Rightarrow> int" where
  "hash_of_block H logical_idx seq =
     H (get_prefix_token_ids (num_hashed_tokens_of_block logical_idx seq) (sq_data seq), sq_lora_int_id seq)"

definition get_table1 :: "nat \<Rightarrow> manager_v1 \<Rightarrow> py_error + block_ref list" where
  "get_table1 i m = from_option KeyError (map_of (m1_block_tables m) i)"

definition put_table1 :: "nat \<Rightarrow> block_ref list \<Rightarrow> manager_v1 \<Rightarrow> manager_v1" where
  "put_table1 i t m = m\<lparr>m1_block_tables := dict_set i t (m1_block_tables m)\<rparr>"

definition gpu_allocate :: "int option \<Rightarrow> nat \<Rightarrow> manager_v1 \<Rightarrow> py_error + (block_ref \<times> manager_v1)" where
  "gpu_allocate block_hash num_hashed_tokens m =
     bindE (a1_allocate block_hash num_hashed_tokens (m1_gpu m) (m1_store m)) (\<lambda>(b, a, st).
     Inr (b, m\<lparr>m1_gpu := a, m1_store := st\<rparr>))"

definition device_allocator1 :: "device \<Rightarrow> manager_v1 \<Rightarrow> allocator_v1" where
  "device_allocator1 dev m = (case dev of GPU \<Rightarrow> m1_gpu m | CPU \<Rightarrow> m1_cpu m)"

definition set_device_allocator :: "device \<Rightarrow> allocator_v1 \<Rightarrow> block_store \<Rightarrow> manager_v1 \<Rightarrow> manager_v1" where
  "set_device_allocator dev a st m =
     (case dev of GPU \<Rightarrow> m\<lparr>m1_gpu := a, m1_store := st\<rparr> | CPU \<Rightarrow> m\<lparr>m1_cpu := a, m1_store := st\<rparr>)"

definition free_in :: "device \<Rightarrow> block_ref \<Rightarrow> manager_v1 \<Rightarrow> py_error + manager_v1" where
  "free_in dev b m =
     bindE (a1_free b (device_allocator1 dev m) (m1_store m)) (\<lambda>(a, st). Inr (set_device_allocator dev a st m))"

section \<open>Allocation\<close>

definition get_seq_num_required_blocks :: "sequence option \<Rightarrow> py_error + nat" where
  "get_seq_num_required_blocks seq = (case seq of None \<Rightarrow> Inr 0 | Some s \<Rightarrow> n_blocks s)"

definition check_no_caching_or_swa1 :: "manager_v1 \<Rightarrow> seq_group \<Rightarrow> py_error + unit" where
  "check_no_caching_or_swa1 m g =
     raise_unless NotImplementedError
       (is_encoder_decoder g \<longrightarrow> m1_block_sliding_window m = None \<and> \<not> m1_enable_caching m)"

definition can_allocate1 :: "seq_group \<Rightarrow> nat \<Rightarrow> manager_v1 \<Rightarrow> py_error + alloc_status" where
  "can_allocate1 g num_lookahead_slots m =
     bindE (py_assert (num_lookahead_slots = 0)) (\<lambda>_.
     bindE (check_no_caching_or_swa1 m g) (\<lambda>_.
     let seqs = sg_get_seqs (Some WAITING) g in
     bindE (raise_unless IndexError (seqs \<noteq> [])) (\<lambda>_.
     bindE (get_seq_num_required_blocks (Some (hd seqs))) (\<lambda>self_num.
     bindE (get_seq_num_required_blocks (sg_encoder_seq g)) (\<lambda>cross_num.
     let required = (case m1_block_sliding_window m of
            None \<Rightarrow> self_num + cross_num | Some w \<Rightarrow> min (self_num + cross_num) w);
         num_free = a1_get_num_free_blocks (m1_gpu m)
     in Inr (if int (m1_num_total_gpu_blocks m) - int required < int (m1_watermark_blocks m) then NEVER
             else if num_free - int required \<ge> int (m1_watermark_blocks m) then OK else LATER))))))"

definition allocate_block1 ::
  "prefix_hash \<Rightarrow> sequence \<Rightarrow> nat \<Rightarrow> bool \<Rightarrow> nat \<Rightarrow> block_ref list \<times> manager_v1 \<Rightarrow> py_error + (block_ref list \<times> manager_v1)" where
  "allocate_block1 H seq ref_count encdec logical_idx = (\<lambda>(t, m).
     let set_ref = (\<lambda>b m. m\<lparr>m1_store := set_ref_count ref_count b (m1_store m)\<rparr>) in
     if (case m1_block_sliding_window m of Some w \<Rightarrow> logical_idx \<ge> w | None \<Rightarrow> False)
     then let w = the (m1_block_sliding_window m) in
          bindE (raise_unless ZeroDivisionError (w \<noteq> 0)) (\<lambda>_.
          let b = t ! (logical_idx mod w) in Inr (t @ [b], set_ref b m))
     else if \<not> encdec \<and> m1_enable_caching m
     then bindE (gpu_allocate (Some (hash_of_block H logical_idx seq)) (num_hashed_tokens_of_block logical_idx seq) m)
            (\<lambda>(b, m). Inr (t @ [b], m))
     else bindE (gpu_allocate None 0 m) (\<lambda>(b, m). Inr (t @ [b], set_ref b m)))"

definition allocate_sequence1 ::
  "prefix_hash \<Rightarrow> sequence option \<Rightarrow> nat \<Rightarrow> bool \<Rightarrow> manager_v1 \<Rightarrow> py_error + (block_ref list \<times> manager_v1)" where
  "allocate_sequence1 H seq ref_count encdec m =
     bindE (get_seq_num_required_blocks seq) (\<lambda>num_prompt_blocks.
     bindE (from_option AssertionError seq) (\<lambda>seq.
     foldE (allocate_block1 H seq ref_count encdec) [0..<num_prompt_blocks] ([], m)))"

definition allocate1 :: "prefix_hash \<Rightarrow> seq_group \<Rightarrow> manager_v1 \<Rightarrow> py_error + manager_v1" where
  "allocate1 H g m =
     (let encdec = is_encoder_decoder g in
      bindE (check_no_caching_or_swa1 m g) (\<lambda>_.
      let wait_seqs = sg_get_seqs (Some WAITING) g in
      bindE (raise_unless IndexError (wait_seqs \<noteq> [])) (\<lambda>_.
      bindE (allocate_sequence1 H (Some (hd wait_seqs)) (num_seqs None g) encdec m) (\<lambda>(t, m).
      let m = fold (\<lambda>seq. put_table1 (sq_seq_id seq) t) wait_seqs m in
      if encdec
      then bindE (allocate_sequence1 H (sg_encoder_seq g) 1 encdec m) (\<lambda>(t, m).
           Inr (m\<lparr>m1_cross_block_tables := dict_set (sg_request_id g) t (m1_cross_block_tables m)\<rparr>))
      else Inr m))))"

section \<open>Appending\<close>

definition can_append_slots1 :: "seq_group \<Rightarrow> nat \<Rightarrow> manager_v1 \<Rightarrow> py_error + bool" where
  "can_append_slots1 g num_lookahead_slots m =
     bindE (py_assert (num_lookahead_slots = 0)) (\<lambda>_.
     Inr (int (num_seqs (Some RUNNING) g) \<le> a1_get_num_free_blocks (m1_gpu m)))"

definition promote_last_block :: "prefix_hash \<Rightarrow> sequence \<Rightarrow> block_ref \<Rightarrow> manager_v1 \<Rightarrow> py_error + (block_ref \<times> manager_v1)" where
  "promote_last_block H seq last_block m =
     bindE (py_assert (m1_enable_caching m)) (\<lambda>_.
     bindE (n_blocks seq) (\<lambda>n.
     let new_hash = hash_of_block H (n - 1) seq in
     bindE (a1_contains_block new_hash (m1_gpu m)) (\<lambda>contained.
     if contained
     then bindE (a1_free last_block (m1_gpu m) (m1_store m)) (\<lambda>(a, st).
          gpu_allocate (Some new_hash) 0 (m\<lparr>m1_gpu := a, m1_store := st\<rparr>))
     else bindE (a1_update_hash new_hash last_block (m1_gpu m) (m1_store m)) (\<lambda>(a, st).
          Inr (last_block, m\<lparr>m1_gpu := a, m1_store := st\<rparr>)))))"

definition is_last_block_full :: "sequence \<Rightarrow> py_error + bool" where
  "is_last_block_full seq =
     (let token_ids_len = sd_get_len (sq_data seq) in
      if token_ids_len > 0
      then bindE (raise_unless ZeroDivisionError (sq_block_size seq \<noteq> 0)) (\<lambda>_. Inr (token_ids_len mod sq_block_size seq = 0))
      else Inr False)"

definition maybe_promote_last_block :: "prefix_hash \<Rightarrow> sequence \<Rightarrow> block_ref \<Rightarrow> manager_v1 \<Rightarrow> py_error + (block_ref \<times> manager_v1)" where
  "maybe_promote_last_block H seq last_block m =
     bindE (is_last_block_full seq) (\<lambda>full. if full then promote_last_block H seq last_block m else Inr (last_block, m))"

definition allocate_last_physical_block :: "prefix_hash \<Rightarrow> sequence \<Rightarrow> manager_v1 \<Rightarrow> py_error + (block_ref \<times> manager_v1)" where
  "allocate_last_physical_block H seq m =
     (if \<not> m1_enable_caching m then gpu_allocate None 0 m
      else bindE (n_blocks seq) (\<lambda>n.
           bindE (is_last_block_full seq) (\<lambda>full.
           let block_hash = (if full then Some (hash_of_block H (n - 1) seq) else None) in
           bindE (gpu_allocate block_hash (num_hashed_tokens_of_block (n - 1) seq) m) (\<lambda>(b, m).
           bindE (py_assert (block_hash = None \<longrightarrow> pb_ref_count (m1_store m b) = 1)) (\<lambda>_. Inr (b, m))))))"

text \<open>The token goes to the last block of the table \<open>t\<close>.\<close>

definition append_to_last_block ::
  "prefix_hash \<Rightarrow> sequence \<Rightarrow> block_ref list \<Rightarrow> manager_v1 \<Rightarrow> py_error + (block_pairs \<times> manager_v1)" where
  "append_to_last_block H seq t m =
     bindE (raise_unless IndexError (t \<noteq> [])) (\<lambda>_.
     let last_block = last t in
     bindE (py_assert (fst last_block = GPU)) (\<lambda>_.
     if pb_ref_count (m1_store m last_block) = 1
     then bindE (if m1_enable_caching m then maybe_promote_last_block H seq last_block m else Inr (last_block, m)) (\<lambda>(b, m).
          Inr ([], put_table1 (sq_seq_id seq) (butlast t @ [b]) m))
     else bindE (allocate_last_physical_block H seq m) (\<lambda>(b, m).
          bindE (free_in GPU last_block (put_table1 (sq_seq_id seq) (butlast t @ [b]) m)) (\<lambda>m.
          Inr ([(snd last_block, snd b)], m)))))"

definition append_slots1 :: "prefix_hash \<Rightarrow> sequence \<Rightarrow> nat \<Rightarrow> manager_v1 \<Rightarrow> py_error + (block_pairs \<times> manager_v1)" where
  "append_slots1 H seq num_lookahead_slots m =
     bindE (n_blocks seq) (\<lambda>n.
     bindE (get_table1 (sq_seq_id seq) m) (\<lambda>t.
     if length t < n
     then bindE (py_assert (length t = n - 1)) (\<lambda>_.
          case m1_block_sliding_window m of
            Some w \<Rightarrow>
              if w \<noteq> 0 \<and> length t \<ge> w then append_to_last_block H seq (t @ [t ! (length t mod w)]) m
              else bindE (allocate_last_physical_block H seq m) (\<lambda>(b, m). Inr ([], put_table1 (sq_seq_id seq) (t @ [b]) m))
          | None \<Rightarrow> bindE (allocate_last_physical_block H seq m) (\<lambda>(b, m). Inr ([], put_table1 (sq_seq_id seq) (t @ [b]) m)))
     else append_to_last_block H seq t m))"

section \<open>Forking\<close>

definition fork1 :: "sequence \<Rightarrow> sequence \<Rightarrow> manager_v1 \<Rightarrow> py_error + manager_v1" where
  "fork1 parent_seq child_seq m =
     (case map_of (m1_block_tables m) (sq_seq_id parent_seq) of
        None \<Rightarrow> Inr m
      | Some t \<Rightarrow>
          let m = put_table1 (sq_seq_id child_seq) t m
          in Inr (m\<lparr>m1_store := fold incr_ref_count (remdups t) (m1_store m)\<rparr>))"

section \<open>Swapping\<close>

definition get_physical_blocks :: "seq_group \<Rightarrow> manager_v1 \<Rightarrow> py_error + block_ref list" where
  "get_physical_blocks g m =
     bindE (foldE (\<lambda>seq bs. bindE (get_table1 (sq_seq_id seq) m) (\<lambda>t. Inr (bs @ t)))
              (filter (\<lambda>s. \<not> sq_is_finished s) (sg_get_seqs None g)) []) (\<lambda>bs.
     bindE (if is_encoder_decoder g then from_option KeyError (map_of (m1_cross_block_tables m) (sg_request_id g)) else Inr [])
       (\<lambda>cross. Inr (remdups (bs @ cross))))"

definition can_swap_in1 :: "seq_group \<Rightarrow> nat \<Rightarrow> manager_v1 \<Rightarrow> py_error + alloc_status" where
  "can_swap_in1 g num_lookahead_slots m =
     bindE (py_assert (num_lookahead_slots = 0)) (\<lambda>_.
     bindE (get_physical_blocks g m) (\<lambda>blocks.
     let num_swapped = num_seqs (Some SWAPPED) g + (if is_encoder_decoder g then 1 else 0);
         num_free = a1_get_num_free_blocks (m1_gpu m);
         required = length blocks + num_swapped
     in Inr (if a1_get_num_total_blocks (m1_gpu m) < required then NEVER
             else if num_free - int required \<ge> int (m1_watermark_blocks m) then OK else LATER)))"

text \<open>One block of the table that is swapped: \<open>mapping\<close> gives the new block of one that was seen before.\<close>

definition swap_block ::
  "device \<Rightarrow> device \<Rightarrow> block_ref \<Rightarrow> block_ref list \<times> (block_ref \<times> block_ref) list \<times> manager_v1 \<Rightarrow>
     py_error + (block_ref list \<times> (block_ref \<times> block_ref) list \<times> manager_v1)" where
  "swap_block src dst from_block = (\<lambda>(new, mapping, m).
     bindE (case map_of mapping from_block of
              Some b \<Rightarrow> Inr (b, mapping, m\<lparr>m1_store := incr_ref_count b (m1_store m)\<rparr>)
            | None \<Rightarrow>
                let x = m1_store m from_block in
                bindE (a1_allocate (Some (pb_block_hash x)) (pb_num_hashed_tokens x)
                         (device_allocator1 dst m) (m1_store m)) (\<lambda>(b, a, st).
                Inr (b, mapping @ [(from_block, b)], set_device_allocator dst a st m))) (\<lambda>(b, mapping, m).
     bindE (free_in src from_block m) (\<lambda>m. Inr (new @ [b], mapping, m))))"

definition swap_block_table ::
  "device \<Rightarrow> device \<Rightarrow> block_ref list \<Rightarrow> (block_ref \<times> block_ref) list \<Rightarrow> manager_v1 \<Rightarrow>
     py_error + (block_ref list \<times> (block_ref \<times> block_ref) list \<times> manager_v1)" where
  "swap_block_table src dst t mapping m = foldE (swap_block src dst) t ([], mapping, m)"

definition swap_seqs ::
  "device \<Rightarrow> device \<Rightarrow> seq_status \<Rightarrow> seq_group \<Rightarrow> manager_v1 \<Rightarrow> py_error + (block_pairs \<times> manager_v1)" where
  "swap_seqs src dst status g m =
     bindE (foldE (\<lambda>seq (mapping, m).
              bindE (get_table1 (sq_seq_id seq) m) (\<lambda>t.
              bindE (swap_block_table src dst t mapping m) (\<lambda>(t, mapping, m).
              Inr (mapping, put_table1 (sq_seq_id seq) t m)))) (sg_get_seqs (Some status) g) ([], m)) (\<lambda>(mapping, m).
     bindE (if is_encoder_decoder g
            then bindE (from_option KeyError (map_of (m1_cross_block_tables m) (sg_request_id g))) (\<lambda>t.
                 bindE (swap_block_table src dst t mapping m) (\<lambda>(t, mapping, m).
                 Inr (mapping, m\<lparr>m1_cross_block_tables := dict_set (sg_request_id g) t (m1_cross_block_tables m)\<rparr>)))
            else Inr (mapping, m)) (\<lambda>(mapping, m).
     Inr (map (\<lambda>(x, y). (snd x, snd y)) mapping, m)))"

definition swap_in1 :: "seq_group \<Rightarrow> manager_v1 \<Rightarrow> py_error + (block_pairs \<times> manager_v1)" where
  "swap_in1 g m = swap_seqs CPU GPU SWAPPED g m"

definition can_swap_out1 :: "seq_group \<Rightarrow> manager_v1 \<Rightarrow> py_error + bool" where
  "can_swap_out1 g m =
     bindE (get_physical_blocks g m) (\<lambda>blocks. Inr (int (length blocks) \<le> a1_get_num_free_blocks (m1_cpu m)))"

definition swap_out1 :: "seq_group \<Rightarrow> manager_v1 \<Rightarrow> py_error + (block_pairs \<times> manager_v1)" where
  "swap_out1 g m = swap_seqs GPU CPU RUNNING g m"

section \<open>Freeing\<close>

text \<open>\<open>block_table[-w:]\<close>; for 0 that is the whole table.\<close>

definition blocks_to_free :: "nat option \<Rightarrow> block_ref list \<Rightarrow> block_ref list" where
  "blocks_to_free window t = (case window of None \<Rightarrow> t | Some w \<Rightarrow> if w = 0 then t else drop (length t - w) t)"

definition free_block_table :: "(block_ref list \<Rightarrow> block_ref list) \<Rightarrow> block_ref list \<Rightarrow> manager_v1 \<Rightarrow> py_error + manager_v1" where
  "free_block_table it t m = foldE (\<lambda>b. free_in (fst b) b) (it (remdups (blocks_to_free (m1_block_sliding_window m) t))) m"

definition free1 :: "(block_ref list \<Rightarrow> block_ref list) \<Rightarrow> sequence \<Rightarrow> manager_v1 \<Rightarrow> py_error + manager_v1" where
  "free1 it seq m =
     (case map_of (m1_block_tables m) (sq_seq_id seq) of
        None \<Rightarrow> Inr m
      | Some t \<Rightarrow> bindE (free_block_table it t m) (\<lambda>m.
                   Inr (m\<lparr>m1_block_tables := dict_del (sq_seq_id seq) (m1_block_tables m)\<rparr>)))"

definition free_cross1 :: "(block_ref list \<Rightarrow> block_ref list) \<Rightarrow> seq_group \<Rightarrow> manager_v1 \<Rightarrow> py_error + manager_v1" where
  "free_cross1 it g m =
     (case map_of (m1_cross_block_tables m) (sg_request_id g) of
        None \<Rightarrow> Inr m
      | Some t \<Rightarrow> bindE (free_block_table it t m) (\<lambda>m.
                   Inr (m\<lparr>m1_cross_block_tables := dict_del (sg_request_id g) (m1_cross_block_tables m)\<rparr>)))"

definition reset1 :: "(block_ref list \<Rightarrow> block_ref list) \<Rightarrow> manager_v1 \<Rightarrow> py_error + manager_v1" where
  "reset1 it m =
     bindE (foldE (free_block_table it) (map snd (m1_block_tables m)) m) (\<lambda>m.
     let m = m\<lparr>m1_block_tables := []\<rparr> in
     bindE (foldE (free_block_table it) (map snd (m1_cross_block_tables m)) m) (\<lambda>m.
     Inr (m\<lparr>m1_cross_block_tables := []\<rparr>)))"

section \<open>Reading the tables\<close>

definition get_block_table1 :: "sequence \<Rightarrow> manager_v1 \<Rightarrow> py_error + block_id list" where
  "get_block_table1 seq m = bindE (get_table1 (sq_seq_id seq) m) (\<lambda>t. Inr (map snd t))"

definition get_cross_block_table1 :: "seq_group \<Rightarrow> manager_v1 \<Rightarrow> py_error + block_id list" where
  "get_cross_block_table1 g m =
     bindE (from_option KeyError (map_of (m1_cross_block_tables m) (sg_request_id g))) (\<lambda>t. Inr (map snd t))"

definition access_all_blocks_in_seq1 :: "sequence \<Rightarrow> real \<Rightarrow> manager_v1 \<Rightarrow> py_error + manager_v1" where
  "access_all_blocks_in_seq1 seq access_time m =
     (if m1_enable_caching m
      then bindE (get_table1 (sq_seq_id seq) m) (\<lambda>t.
           Inr (m\<lparr>m1_store := fold (\<lambda>b st. st(b := (st b)\<lparr>pb_last_accessed := access_time\<rparr>)) t (m1_store m)\<rparr>))
      else Inr m)"

text \<open>Blocks are marked from the last computed one backwards, until one is marked already.\<close>

fun mark_until_computed :: "block_ref list \<Rightarrow> block_store \<Rightarrow> block_store" where
  "mark_until_computed [] st = st"
| "mark_until_computed (b # bs) st =
     (if pb_computed (st b) then st else mark_until_computed bs (st(b := (st b)\<lparr>pb_computed := True\<rparr>)))"

definition compute_full_blocks_in_seq :: "nat \<Rightarrow> sequence \<Rightarrow> manager_v1 \<Rightarrow> py_error + manager_v1" where
  "compute_full_blocks_in_seq token_chunk_size seq m =
     (case map_of (m1_block_tables m) (sq_seq_id seq) of
        None \<Rightarrow> Inr m
      | Some t \<Rightarrow>
          bindE (raise_unless ZeroDivisionError (m1_block_size m \<noteq> 0)) (\<lambda>_.
          let full = nat ((sd_num_computed_tokens (sq_data seq) + int token_chunk_size) div int (m1_block_size m)) in
          bindE (raise_unless IndexError (full \<le> length t)) (\<lambda>_.
          Inr (m\<lparr>m1_store := mark_until_computed (rev (take full t)) (m1_store m)\<rparr>))))"

definition get_all_computed_blocks :: "sequence \<Rightarrow> manager_v1 \<Rightarrow> block_id list" where
  "get_all_computed_blocks seq m =
     (case map_of (m1_block_tables m) (sq_seq_id seq) of
        None \<Rightarrow> []
      | Some t \<Rightarrow> map snd (takeWhile (\<lambda>b. pb_computed (m1_store m b)) (butlast t)))"

definition get_common_computed_block_ids1 :: "sequence list \<Rightarrow> manager_v1 \<Rightarrow> block_id list" where
  "get_common_computed_block_ids1 seqs m =
     (if \<not> m1_enable_caching m then []
      else common_prefixes (filter (\<lambda>ids. ids \<noteq> []) (map (\<lambda>seq. get_all_computed_blocks seq m) seqs)))"

definition mark_blocks_as_computed1 :: "seq_group \<Rightarrow> nat \<Rightarrow> manager_v1 \<Rightarrow> py_error + manager_v1" where
  "mark_blocks_as_computed1 g token_chunk_size m =
     (if m1_enable_caching m then foldE (compute_full_blocks_in_seq token_chunk_size) (sg_get_seqs None g) m else Inr m)"

definition get_prefix_cache_hit_rate1 :: "device \<Rightarrow> manager_v1 \<Rightarrow> real" where
  "get_prefix_cache_hit_rate1 dev m =
     (case dev of GPU \<Rightarrow> a1_get_prefix_cache_hit_rate (m1_gpu m) | CPU \<Rightarrow> a1_get_prefix_cache_hit_rate (m1_cpu m))"

text \<open>The manager as seen by the scheduler.\<close>

definition manager_v1_ops :: "prefix_hash \<Rightarrow> (block_ref list \<Rightarrow> block_ref list) \<Rightarrow> manager_v1 manager_ops" where
  "manager_v1_ops H it =
     \<lparr>bm_can_allocate = can_allocate1, bm_allocate = allocate1 H, bm_can_append_slots = can_append_slots1,
      bm_append_slots = (\<lambda>seq n m. bindE (append_slots1 H seq n m) (\<lambda>(cows, m). Inr (Some cows, m))),
      bm_fork = fork1, bm_can_swap_in = can_swap_in1,
      bm_swap_in = (\<lambda>g m. bindE (swap_in1 g m) (\<lambda>(ps, m). Inr (Some ps, m))),
      bm_can_swap_out = can_swap_out1,
      bm_swap_out = (\<lambda>g m. bindE (swap_out1 g m) (\<lambda>(ps, m). Inr (Some ps, m))),
      bm_free = free1 it, bm_free_cross = free_cross1 it,
      bm_get_block_table = (\<lambda>seq m. bindE (get_block_table1 seq m) (\<lambda>ids. Inr (Some ids))),
      bm_get_cross_block_table = (\<lambda>g m. bindE (get_cross_block_table1 g m) (\<lambda>ids. Inr (Some ids))),
      bm_get_num_free_gpu_blocks = (\<lambda>m. nat (a1_get_num_free_blocks (m1_gpu m))),
      bm_get_num_free_cpu_blocks = (\<lambda>m. nat (a1_get_num_free_blocks (m1_cpu m))),
      bm_access_all_blocks_in_seq = access_all_blocks_in_seq1,
      bm_get_common_computed_block_ids = (\<lambda>seqs m. Inr (get_common_computed_block_ids1 seqs m, m)),
      bm_mark_blocks_as_computed = mark_blocks_as_computed1\<rparr>"

end
