(* ===== verification/Manager_V1_Blocks.thy ===== *)
theory Manager_V1_Blocks
  imports Block_Manager_V1 "HOL-Library.Multiset"
begin

text \<open>
  Without prefix caching and sliding windows, \<open>BlockSpaceManagerV1\<close> keeps exact account of its blocks. The
  invariant is stated for a multiset of tables, so that it also holds in the middle of an operation.
\<close>

declare split_paired_All [simp del] split_paired_Ex [simp del]

section \<open>The invariant\<close>

definition uses :: "block_ref \<Rightarrow> block_ref list multiset \<Rightarrow> nat" where
  "uses b M = size (filter_mset (\<lambda>t. b \<in> set t) M)"

lemma uses_empty [simp]: "uses b {#} = 0"
  unfolding uses_def filter_empty_mset by (rule size_empty)

definition pool_ok :: "device \<Rightarrow> uncached_allocator \<Rightarrow> block_store \<Rightarrow> bool" where
  "pool_ok dev a st \<longleftrightarrow> ua_device a = dev \<and> distinct (ua_free_blocks a) \<and>
     (\<forall>b. b \<in> set (ua_free_blocks a) \<longleftrightarrow> fst b = dev \<and> snd b < ua_num_blocks a \<and> pb_ref_count (st b) = 0)"

definition valid_block :: "manager_v1 \<Rightarrow> block_ref \<Rightarrow> bool" where
  "valid_block m b \<longleftrightarrow> snd b < a1_get_num_total_blocks (device_allocator1 (fst b) m)"

definition blocks_ok :: "manager_v1 \<Rightarrow> block_ref list multiset \<Rightarrow> bool" where
  "blocks_ok m M \<longleftrightarrow> \<not> m1_enable_caching m \<and> m1_block_sliding_window m = None \<and>
     (\<forall>dev. \<exists>a. device_allocator1 dev m = Uncached a \<and> pool_ok dev a (m1_store m)) \<and>
     (\<forall>b. valid_block m b \<longrightarrow> pb_ref_count (m1_store m b) = uses b M) \<and>
     (\<forall>t \<in># M. distinct t \<and> (\<forall>b \<in> set t. valid_block m b))"

text \<open>What the block operations leave alone.\<close>

definition same_tables :: "manager_v1 \<Rightarrow> manager_v1 \<Rightarrow> bool" where
  "same_tables m m' \<longleftrightarrow> m1_block_tables m' = m1_block_tables m \<and> m1_cross_block_tables m' = m1_cross_block_tables m \<and>
     m1_block_size m' = m1_block_size m \<and> m1_watermark_blocks m' = m1_watermark_blocks m \<and>
     m1_num_total_gpu_blocks m' = m1_num_total_gpu_blocks m \<and>
     (\<forall>dev. a1_get_num_total_blocks (device_allocator1 dev m') = a1_get_num_total_blocks (device_allocator1 dev m))"

abbreviation num_free :: "device \<Rightarrow> manager_v1 \<Rightarrow> int" where
  "num_free dev m \<equiv> a1_get_num_free_blocks (device_allocator1 dev m)"

lemma same_tables_refl [simp]: "same_tables m m"
  by (simp add: same_tables_def)

lemma same_tables_trans: "same_tables m m1 \<Longrightarrow> same_tables m1 m2 \<Longrightarrow> same_tables m m2"
  by (simp add: same_tables_def)

lemma same_tables_valid: "same_tables m m' \<Longrightarrow> valid_block m' b = valid_block m b"
  by (simp add: same_tables_def valid_block_def)

lemma device_allocator_set [simp]:
  "device_allocator1 dev (set_device_allocator dev' a st m) = (if dev = dev' then a else device_allocator1 dev m)"
  "m1_store (set_device_allocator dev' a st m) = st"
  "m1_block_tables (set_device_allocator dev' a st m) = m1_block_tables m"
  "m1_cross_block_tables (set_device_allocator dev' a st m) = m1_cross_block_tables m"
  "m1_enable_caching (set_device_allocator dev' a st m) = m1_enable_caching m"
  "m1_block_sliding_window (set_device_allocator dev' a st m) = m1_block_sliding_window m"
  "m1_block_size (set_device_allocator dev' a st m) = m1_block_size m"
  "m1_watermark_blocks (set_device_allocator dev' a st m) = m1_watermark_blocks m"
  "m1_num_total_gpu_blocks (set_device_allocator dev' a st m) = m1_num_total_gpu_blocks m"
  by (auto simp: device_allocator1_def set_device_allocator_def split: device.splits)

lemma device_allocator_store [simp]:
  "device_allocator1 dev (m\<lparr>m1_store := st\<rparr>) = device_allocator1 dev m"
  "device_allocator1 dev (m\<lparr>m1_block_tables := ts\<rparr>) = device_allocator1 dev m"
  "device_allocator1 dev (m\<lparr>m1_cross_block_tables := cs\<rparr>) = device_allocator1 dev m"
  by (auto simp: device_allocator1_def split: device.splits)

lemma set_device_allocator_store [simp]:
  "set_device_allocator dev a st m\<lparr>m1_store := st'\<rparr> = set_device_allocator dev a st' m"
  by (auto simp: set_device_allocator_def split: device.splits)

lemma set_ref_count_simps [simp]:
  "pb_ref_count (set_ref_count n b st c) = (if c = b then n else pb_ref_count (st c))"
  "pb_ref_count (incr_ref_count b st c) = (if c = b then Suc (pb_ref_count (st b)) else pb_ref_count (st c))"
  by (simp_all add: set_ref_count_def incr_ref_count_def)

lemma uses_add [simp]: "uses b (add_mset t M) = (if b \<in> set t then Suc (uses b M) else uses b M)"
  by (simp add: uses_def)

lemma uses_union [simp]: "uses b (M + N) = uses b M + uses b N"
  by (simp add: uses_def)

lemma uses_replicate [simp]: "uses b (replicate_mset k t) = (if b \<in> set t then k else 0)"
  by (induction k) auto

lemma uses_pos_iff: "uses b M = 0 \<longleftrightarrow> (\<forall>t \<in># M. b \<notin> set t)"
  by (induction M) auto

lemma blocks_ok_pool: "blocks_ok m M \<Longrightarrow> \<exists>u. device_allocator1 dev m = Uncached u \<and> pool_ok dev u (m1_store m)"
  unfolding blocks_ok_def by blast

lemma blocks_ok_cong:
  assumes "blocks_ok m M" "m1_store m' = m1_store m" "m1_gpu m' = m1_gpu m" "m1_cpu m' = m1_cpu m"
    "m1_enable_caching m' = m1_enable_caching m" "m1_block_sliding_window m' = m1_block_sliding_window m"
  shows "blocks_ok m' M"
proof -
  have d: "device_allocator1 dev m' = device_allocator1 dev m" for dev using assms(3,4) by (cases dev) (simp_all add: device_allocator1_def)
  then have v: "valid_block m' b = valid_block m b" for b by (simp add: valid_block_def)
  show ?thesis using assms(1) unfolding blocks_ok_def d v assms(2,5,6) .
qed

lemma blocks_ok_perm:
  assumes "blocks_ok m (add_mset t M)" "mset t' = mset t"
  shows "blocks_ok m (add_mset t' M)"
proof -
  have s: "set t' = set t" and d: "distinct t' = distinct t"
    using assms(2) by (auto dest: mset_eq_setD mset_eq_imp_distinct_iff)
  then have u: "uses b (add_mset t' M) = uses b (add_mset t M)" for b by simp
  show ?thesis using assms(1) unfolding blocks_ok_def u by (simp add: s d)
qed

section \<open>Taking, sharing and returning a block\<close>

lemma allocate_take:
  assumes "blocks_ok m (M + replicate_mset k t)" "0 < k"
    "a1_allocate h n (device_allocator1 dev m) (m1_store m) = Inr (b, a, st)"
  shows "blocks_ok (set_device_allocator dev a (set_ref_count k b st) m) (M + replicate_mset k (t @ [b]))"
    "same_tables m (set_device_allocator dev a (set_ref_count k b st) m)" "fst b = dev"
    "a1_get_num_free_blocks a = num_free dev m - 1" "uses b (M + replicate_mset k t) = 0"
    "set_ref_count 1 b st = st"
proof -
  obtain u where u: "device_allocator1 dev m = Uncached u" "pool_ok dev u (m1_store m)"
    using blocks_ok_pool [OF assms(1)] by blast
  have ne: "ua_free_blocks u \<noteq> []" and b: "b = last (ua_free_blocks u)"
    and a: "a = Uncached (u\<lparr>ua_free_blocks := butlast (ua_free_blocks u)\<rparr>)" and st: "st = set_ref_count 1 b (m1_store m)"
    using assms(3) by (auto simp: u(1) uncached_allocate_def Let_def)
  have fr: "ua_free_blocks u = butlast (ua_free_blocks u) @ [b]" using ne b by simp
  have bin: "b \<in> set (ua_free_blocks u)" using ne b by simp
  then have bv: "fst b = dev" "snd b < ua_num_blocks u" "pb_ref_count (m1_store m b) = 0"
    using u(2) by (auto simp: pool_ok_def)
  have dist: "distinct (butlast (ua_free_blocks u))" "b \<notin> set (butlast (ua_free_blocks u))"
    using u(2) fr by (metis distinct_append distinct_butlast not_distinct_conv_prefix pool_ok_def append_Nil2)+
  have bset: "c \<in> set (butlast (ua_free_blocks u)) \<longleftrightarrow> c \<in> set (ua_free_blocks u) \<and> c \<noteq> b" for c
    using dist(2) fr by (metis Un_iff append_Nil2 list.set_intros(1) set_ConsD set_append in_set_butlastD)
  show "fst b = dev" by (rule bv(1))
  have valid: "valid_block m b" using bv u(1) by (simp add: valid_block_def)
  then show un: "uses b (M + replicate_mset k t) = 0" using assms(1) bv(3) by (simp add: blocks_ok_def)
  show "same_tables m (set_device_allocator dev a (set_ref_count k b st) m)"
    by (simp add: same_tables_def a u(1))
  then have v: "valid_block (set_device_allocator dev a (set_ref_count k b st) m) c = valid_block m c" for c
    by (rule same_tables_valid)
  show "a1_get_num_free_blocks a = num_free dev m - 1"
    using ne by (simp add: a u(1)) (metis Suc_pred length_greater_0_conv of_nat_Suc add_diff_cancel_left' of_nat_1 plus_1_eq_Suc of_nat_add)
  show "set_ref_count 1 b st = st" by (simp add: st set_ref_count_def)
  have pools: "\<exists>a'. device_allocator1 d (set_device_allocator dev a (set_ref_count k b st) m) = Uncached a' \<and>
      pool_ok d a' (set_ref_count k b st)" for d
  proof (cases "d = dev")
    case True
    have "pool_ok dev (u\<lparr>ua_free_blocks := butlast (ua_free_blocks u)\<rparr>) (set_ref_count k b st)"
      using u(2) dist bset bv assms(2) by (auto simp: pool_ok_def st)
    then show ?thesis using True by (simp add: a)
  next
    case False
    then obtain a' where "device_allocator1 d m = Uncached a'" "pool_ok d a' (m1_store m)"
      using blocks_ok_pool [OF assms(1)] by blast
    then show ?thesis using False bv(1) by (auto simp: pool_ok_def st)
  qed
  have nt: "b \<notin> set t" using un assms(2) by (simp split: if_splits)
  have "pb_ref_count (set_ref_count k b st c) = uses c (M + replicate_mset k (t @ [b]))" if "valid_block m c" for c
    using assms(1) that un nt by (auto simp: blocks_ok_def st split: if_splits)
  moreover have "distinct s \<and> (\<forall>c \<in> set s. valid_block m c)" if "s \<in># M + replicate_mset k (t @ [b])" for s
    using assms(1,2) that nt valid by (auto simp: blocks_ok_def in_replicate_mset split: if_splits)
  ultimately show "blocks_ok (set_device_allocator dev a (set_ref_count k b st) m) (M + replicate_mset k (t @ [b]))"
    using assms(1) pools unfolding blocks_ok_def v by simp
qed

lemma allocate_succeeds:
  assumes "blocks_ok m M" "0 < num_free dev m"
  shows "\<exists>b a st. a1_allocate h n (device_allocator1 dev m) (m1_store m) = Inr (b, a, st)"
  using blocks_ok_pool [OF assms(1), of dev] assms(2) by (auto simp: uncached_allocate_def Let_def)

lemma share_block:
  assumes "blocks_ok m (add_mset t M)" "valid_block m b" "b \<notin> set t" "0 < uses b (add_mset t M)"
  shows "blocks_ok (m\<lparr>m1_store := incr_ref_count b (m1_store m)\<rparr>) (add_mset (t @ [b]) M)"
    "same_tables m (m\<lparr>m1_store := incr_ref_count b (m1_store m)\<rparr>)"
proof -
  have r: "0 < pb_ref_count (m1_store m b)" using assms(1,2,4) by (simp add: blocks_ok_def)
  have "\<exists>a. device_allocator1 dev m = Uncached a \<and> pool_ok dev a (incr_ref_count b (m1_store m))" for dev
    using assms(1) r unfolding blocks_ok_def pool_ok_def by (metis set_ref_count_simps(2) less_not_refl nat.simps(3))
  then show "blocks_ok (m\<lparr>m1_store := incr_ref_count b (m1_store m)\<rparr>) (add_mset (t @ [b]) M)"
    using assms by (auto simp: blocks_ok_def valid_block_def)
  show "same_tables m (m\<lparr>m1_store := incr_ref_count b (m1_store m)\<rparr>)" by (simp add: same_tables_def)
qed

lemma free_block:
  assumes "blocks_ok m (add_mset t M)" "b \<in> set t"
  obtains m' where "free_in (fst b) b m = Inr m'" "blocks_ok m' (add_mset (remove1 b t) M)" "same_tables m m'"
    "\<And>dev. num_free dev m \<le> num_free dev m'"
proof -
  obtain u where u: "device_allocator1 (fst b) m = Uncached u" "pool_ok (fst b) u (m1_store m)"
    using blocks_ok_pool [OF assms(1)] by blast
  have valid: "valid_block m b" and d: "distinct t" using assms by (auto simp: blocks_ok_def)
  have ref: "pb_ref_count (m1_store m b) = Suc (uses b M)" using assms valid by (simp add: blocks_ok_def)
  define st where "st = set_ref_count (uses b M) b (m1_store m)"
  define u' where "u' = (if uses b M = 0 then u\<lparr>ua_free_blocks := ua_free_blocks u @ [b]\<rparr> else u)"
  have e: "free_in (fst b) b m = Inr (set_device_allocator (fst b) (Uncached u') st m)"
    by (simp add: free_in_def u(1) uncached_free_def Let_def ref st_def u'_def)
  have nb: "b \<notin> set (ua_free_blocks u)" using u(2) ref by (auto simp: pool_ok_def)
  have pools: "\<exists>a'. device_allocator1 dev (set_device_allocator (fst b) (Uncached u') st m) = Uncached a' \<and> pool_ok dev a' st" for dev
  proof (cases "dev = fst b")
    case True
    have "pool_ok (fst b) u' st" using u valid nb by (auto simp: pool_ok_def u'_def st_def valid_block_def)
    then show ?thesis using True by simp
  next
    case False
    then obtain a' where "device_allocator1 dev m = Uncached a'" "pool_ok dev a' (m1_store m)"
      using blocks_ok_pool [OF assms(1)] by blast
    then show ?thesis using False by (auto simp: pool_ok_def st_def)
  qed
  have same: "same_tables m (set_device_allocator (fst b) (Uncached u') st m)" by (simp add: same_tables_def u(1) u'_def)
  note v = same_tables_valid [OF same]
  have "pb_ref_count (st c) = uses c (add_mset (remove1 b t) M)" if "valid_block m c" for c
    using assms that d by (auto simp: blocks_ok_def st_def)
  then have "blocks_ok (set_device_allocator (fst b) (Uncached u') st m) (add_mset (remove1 b t) M)"
    using assms(1) pools d unfolding blocks_ok_def v by (auto dest: in_set_remove1 notin_set_remove1)
  moreover have "num_free dev m \<le> num_free dev (set_device_allocator (fst b) (Uncached u') st m)" for dev
    by (auto simp: u(1) u'_def)
  ultimately show thesis using that e same by blast
qed

section \<open>Several blocks\<close>

lemma blocks_ok_empty_tables: "blocks_ok m (M + replicate_mset k []) = blocks_ok m M"
proof -
  have u: "uses b (M + replicate_mset k []) = uses b M" for b by simp
  show ?thesis unfolding blocks_ok_def u by (auto simp: in_replicate_mset)
qed

lemmas blocks_ok_empty_table = blocks_ok_empty_tables [where k = 1, simplified]

lemma allocate_block1_plain:
  "\<not> m1_enable_caching m \<Longrightarrow> m1_block_sliding_window m = None \<Longrightarrow> allocate_block1 H seq k encdec i (t, m) =
     bindE (a1_allocate None 0 (device_allocator1 GPU m) (m1_store m)) (\<lambda>r.
     Inr (t @ [fst r], set_device_allocator GPU (fst (snd r)) (set_ref_count k (fst r) (snd (snd r))) m))"
  by (cases "a1_allocate None 0 (m1_gpu m) (m1_store m)")
    (simp_all add: allocate_block1_def gpu_allocate_def Let_def device_allocator1_def set_device_allocator_def case_prod_beta)

lemma allocate_blocks:
  assumes "blocks_ok m (M + replicate_mset k t)" "0 < k" "\<And>b. b \<in> set t \<Longrightarrow> fst b = GPU"
    "foldE (allocate_block1 H seq k encdec) is (t, m) = Inr (t', m')"
  shows "blocks_ok m' (M + replicate_mset k t') \<and> same_tables m m' \<and> length t' = length t + length is \<and>
    (\<forall>b \<in> set t'. fst b = GPU)"
  using assms
proof (induction "is" arbitrary: t m)
  case (Cons i "is")
  have nc: "\<not> m1_enable_caching m" "m1_block_sliding_window m = None" using Cons.prems(1) by (auto simp: blocks_ok_def)
  obtain r where r: "a1_allocate None 0 (device_allocator1 GPU m) (m1_store m) = Inr r"
    "foldE (allocate_block1 H seq k encdec) is
       (t @ [fst r], set_device_allocator GPU (fst (snd r)) (set_ref_count k (fst r) (snd (snd r))) m) = Inr (t', m')"
    using Cons.prems(4) by (auto simp: allocate_block1_plain [OF nc])
  obtain b a st where b: "a1_allocate None 0 (device_allocator1 GPU m) (m1_store m) = Inr (b, a, st)" and rb: "r = (b, a, st)"
    using r(1) by (cases r) auto
  have rest: "foldE (allocate_block1 H seq k encdec) is (t @ [b], set_device_allocator GPU a (set_ref_count k b st) m) = Inr (t', m')"
    using r(2) by (simp add: rb)
  note take = allocate_take [OF Cons.prems(1,2) b]
  have "blocks_ok m' (M + replicate_mset k t') \<and> same_tables (set_device_allocator GPU a (set_ref_count k b st) m) m' \<and>
      length t' = length (t @ [b]) + length is \<and> (\<forall>b \<in> set t'. fst b = GPU)"
    by (rule Cons.IH [OF take(1) Cons.prems(2) _ rest]) (use Cons.prems(3) take(3) in auto)
  then show ?case using same_tables_trans [OF take(2)] by simp
qed simp

lemma allocate_blocks_succeed:
  assumes "blocks_ok m (M + replicate_mset k t)" "0 < k" "int (length is) \<le> num_free GPU m"
  shows "\<exists>r. foldE (allocate_block1 H seq k encdec) is (t, m) = Inr r"
  using assms
proof (induction "is" arbitrary: t m)
  case (Cons i "is")
  have nc: "\<not> m1_enable_caching m" "m1_block_sliding_window m = None" using Cons.prems(1) by (auto simp: blocks_ok_def)
  obtain b a st where b: "a1_allocate None 0 (device_allocator1 GPU m) (m1_store m) = Inr (b, a, st)"
    using allocate_succeeds [OF Cons.prems(1), of GPU None 0] Cons.prems(3) by auto
  note take = allocate_take [OF Cons.prems(1,2) b]
  have "\<exists>r. foldE (allocate_block1 H seq k encdec) is (t @ [b], set_device_allocator GPU a (set_ref_count k b st) m) = Inr r"
    by (rule Cons.IH [OF take(1) Cons.prems(2)]) (use Cons.prems(3) take(4) in simp)
  then show ?case by (simp add: allocate_block1_plain [OF nc] b)
qed simp

lemma share_blocks:
  assumes "blocks_ok m (add_mset s M)" "t \<in># M" "set xs \<subseteq> set t" "distinct (s @ xs)"
  shows "blocks_ok (m\<lparr>m1_store := fold incr_ref_count xs (m1_store m)\<rparr>) (add_mset (s @ xs) M)"
  using assms
proof (induction xs arbitrary: s m)
  case (Cons x xs)
  have "valid_block m x" using Cons.prems(1-3) by (auto simp: blocks_ok_def)
  moreover have "0 < uses x (add_mset s M)" using Cons.prems(2,3) uses_pos_iff [of x M] by auto
  ultimately have "blocks_ok (m\<lparr>m1_store := incr_ref_count x (m1_store m)\<rparr>) (add_mset (s @ [x]) M)"
    using share_block(1) [OF Cons.prems(1)] Cons.prems(4) by simp
  from Cons.IH [OF this Cons.prems(2)] Cons.prems(3,4) show ?case by simp
qed simp

lemma free_blocks:
  assumes "blocks_ok m (add_mset t M)" "mset xs \<subseteq># mset t"
  obtains m' s where "foldE (\<lambda>b. free_in (fst b) b) xs m = Inr m'" "blocks_ok m' (add_mset s M)"
    "mset s = mset t - mset xs" "same_tables m m'" "\<And>dev. num_free dev m \<le> num_free dev m'"
  using assms
proof (induction xs arbitrary: t m thesis)
  case Nil
  show ?case by (rule Nil.prems(1) [of m t]) (use Nil.prems(2) in simp_all)
next
  case (Cons x xs)
  have x: "x \<in> set t" using Cons.prems(3) by (metis mset_subset_eqD set_mset_mset union_single_eq_member mset.simps(2) insert_subset set_mset_mono set_mset_add_mset_insert)
  obtain m1 where m1: "free_in (fst x) x m = Inr m1" "blocks_ok m1 (add_mset (remove1 x t) M)" "same_tables m m1"
    "\<And>dev. num_free dev m \<le> num_free dev m1" using free_block [OF Cons.prems(2) x] by blast
  have "mset xs \<subseteq># mset (remove1 x t)" using Cons.prems(3) by (simp add: insert_subset_eq_iff)
  then obtain m' s where s: "foldE (\<lambda>b. free_in (fst b) b) xs m1 = Inr m'" "blocks_ok m' (add_mset s M)"
    "mset s = mset (remove1 x t) - mset xs" "same_tables m1 m'" "\<And>dev. num_free dev m1 \<le> num_free dev m'"
    using Cons.IH [OF _ m1(2)] by blast
  show ?case
    by (rule Cons.prems(1) [OF _ s(2)]) (use m1 s in \<open>auto intro: same_tables_trans order_trans\<close>)
qed

lemma free_table:
  assumes "blocks_ok m (add_mset t M)" "\<And>xs. mset (it xs) = mset xs"
  obtains m' where "free_block_table it t m = Inr m'" "blocks_ok m' M" "same_tables m m'"
    "\<And>dev. num_free dev m \<le> num_free dev m'"
proof -
  have w: "m1_block_sliding_window m = None" and d: "distinct t" using assms(1) by (auto simp: blocks_ok_def)
  have p: "mset (it (remdups t)) = mset t" using assms(2) d by (simp add: distinct_remdups_id)
  obtain m' s where s: "foldE (\<lambda>b. free_in (fst b) b) (it (remdups t)) m = Inr m'" "blocks_ok m' (add_mset s M)"
    "mset s = mset t - mset (it (remdups t))" "same_tables m m'" "\<And>dev. num_free dev m \<le> num_free dev m'"
    using free_blocks [OF assms(1), of "it (remdups t)"] p by auto
  have "s = []" using s(3) by (simp add: p)
  then have "blocks_ok m' M" using s(2) by (simp add: blocks_ok_empty_table)
  then show thesis using that s by (simp add: free_block_table_def blocks_to_free_def w)
qed

section \<open>The tables of the sequences\<close>

definition tables :: "manager_v1 \<Rightarrow> block_ref list multiset" where
  "tables m = mset (map snd (m1_block_tables m))"

definition v1_ok :: "manager_v1 \<Rightarrow> bool" where
  "v1_ok m \<longleftrightarrow> blocks_ok m (tables m) \<and> distinct (map fst (m1_block_tables m))"

lemma dict_set_same: "map_of d k = Some v \<Longrightarrow> dict_set k v d = d"
  by (induction k v d rule: dict_set.induct) (auto split: if_splits)

lemma mset_dict_values:
  assumes "map_of d k = Some v" "distinct (map fst d)"
  obtains M where "mset (map snd d) = add_mset v M" "\<And>v'. mset (map snd (dict_set k v' d)) = add_mset v' M"
    "mset (map snd (dict_del k d)) = M"
proof -
  define M where "M = mset (map snd (dict_del k d))"
  have "mset (map snd d) = add_mset v (mset (map snd (dict_del k d))) \<and>
      mset (map snd (dict_set k v' d)) = add_mset v' (mset (map snd (dict_del k d)))" for v'
    using assms
  proof (induction d)
    case (Cons x d)
    obtain k' w where x: "x = (k', w)" by (cases x)
    show ?case
    proof (cases "k' = k")
      case True
      then have "k \<notin> fst ` set d" using Cons.prems x by auto
      then have "dict_del k d = d" by (force simp: dict_del_def intro!: filter_True)
      then show ?thesis using Cons.prems True x by (simp add: dict_del_def)
    next
      case False
      then show ?thesis using Cons x by (auto simp: dict_del_def)
    qed
  qed simp
  then show thesis using that M_def by blast
qed

lemma get_table1_iff [simp]: "get_table1 i m = Inr t \<longleftrightarrow> map_of (m1_block_tables m) i = Some t"
  by (simp add: get_table1_def)

lemma put_table1_simps [simp]:
  "m1_block_tables (put_table1 i t m) = dict_set i t (m1_block_tables m)"
  "m1_cross_block_tables (put_table1 i t m) = m1_cross_block_tables m"
  "blocks_ok (put_table1 i t m) M = blocks_ok m M"
  "device_allocator1 dev (put_table1 i t m) = device_allocator1 dev m"
  by (auto simp: put_table1_def device_allocator1_def intro: blocks_ok_cong split: device.splits)

lemma put_table1_ok:
  assumes "map_of (m1_block_tables m) i = Some t" "distinct (map fst (m1_block_tables m))"
    "\<And>M. tables m = add_mset t M \<Longrightarrow> blocks_ok m' (add_mset t' M)" "m1_block_tables m' = m1_block_tables m"
  shows "v1_ok (put_table1 i t' m')"
proof -
  obtain M where "tables m = add_mset t M" "mset (map snd (dict_set i t' (m1_block_tables m))) = add_mset t' M"
    using mset_dict_values [OF assms(1,2)] unfolding tables_def by metis
  then show ?thesis using assms(2,3,4) by (simp add: v1_ok_def tables_def)
qed

end
