(* ===== verification/Manager_V1_Runs.thy ===== *)
theory Manager_V1_Runs
  imports Manager_V1_Blocks
begin

text \<open>
  The operations of \<open>BlockSpaceManagerV1\<close>, without prefix caching and sliding windows, for models without an
  encoder: each keeps the account of the blocks, and what the manager promises the scheduler holds.
\<close>

section \<open>Allocation\<close>

definition fresh_waiting :: "seq_group \<Rightarrow> manager_v1 \<Rightarrow> bool" where
  "fresh_waiting g m \<longleftrightarrow> \<not> is_encoder_decoder g \<and> num_seqs None g = length (sg_get_seqs (Some WAITING) g) \<and>
     distinct (map sq_seq_id (sg_get_seqs (Some WAITING) g)) \<and>
     sq_seq_id ` set (sg_get_seqs (Some WAITING) g) \<inter> fst ` set (m1_block_tables m) = {}"

lemma fold_put_fresh:
  assumes "distinct (map sq_seq_id seqs)" "sq_seq_id ` set seqs \<inter> fst ` set (m1_block_tables m) = {}"
  shows "fold (\<lambda>seq. put_table1 (sq_seq_id seq) t) seqs m =
    m\<lparr>m1_block_tables := m1_block_tables m @ map (\<lambda>seq. (sq_seq_id seq, t)) seqs\<rparr>"
  using assms
proof (induction seqs arbitrary: m)
  case (Cons s seqs)
  have "put_table1 (sq_seq_id s) t m = m\<lparr>m1_block_tables := m1_block_tables m @ [(sq_seq_id s, t)]\<rparr>"
    using Cons.prems(2) by (simp add: put_table1_def dict_set_fresh)
  moreover have "sq_seq_id ` set seqs \<inter> fst ` set (m1_block_tables m @ [(sq_seq_id s, t)]) = {}"
    using Cons.prems by auto
  ultimately show ?case using Cons.IH [of "m\<lparr>m1_block_tables := m1_block_tables m @ [(sq_seq_id s, t)]\<rparr>"] Cons.prems(1) by simp
qed simp

lemma allocate1_run:
  assumes "v1_ok m" "fresh_waiting g m" "allocate1 H g m = Inr m'"
  shows "v1_ok m'" "m1_cross_block_tables m' = m1_cross_block_tables m"
proof -
  let ?seqs = "sg_get_seqs (Some WAITING) g"
  have k: "num_seqs None g = length ?seqs" "\<not> is_encoder_decoder g" using assms(2) by (auto simp: fresh_waiting_def)
  obtain n t m1 where r: "?seqs \<noteq> []" "n_blocks (hd ?seqs) = Inr n"
    "foldE (allocate_block1 H (hd ?seqs) (length ?seqs) False) [0..<n] ([], m) = Inr (t, m1)"
    "m' = fold (\<lambda>seq. put_table1 (sq_seq_id seq) t) ?seqs m1"
    using assms(3) k by (auto simp: allocate1_def allocate_sequence1_def get_seq_num_required_blocks_def Let_def)
  have start: "blocks_ok m (tables m + replicate_mset (length ?seqs) [])"
    using assms(1) by (simp add: v1_ok_def blocks_ok_empty_tables)
  have e: "blocks_ok m1 (tables m + replicate_mset (length ?seqs) t)" "same_tables m m1"
    using allocate_blocks [OF start _ _ r(3)] r(1) by auto
  have m': "m' = m1\<lparr>m1_block_tables := m1_block_tables m1 @ map (\<lambda>seq. (sq_seq_id seq, t)) ?seqs\<rparr>"
    unfolding r(4) using assms(2) e(2) by (intro fold_put_fresh) (auto simp: fresh_waiting_def same_tables_def)
  have "mset (map snd (map (\<lambda>seq. (sq_seq_id seq, t)) ?seqs)) = replicate_mset (length ?seqs) t"
    by (simp add: comp_def image_mset_const_eq)
  then have "tables m' = tables m + replicate_mset (length ?seqs) t"
    using e(2) by (simp add: tables_def m' same_tables_def comp_def image_mset_const_eq)
  moreover have "distinct (map fst (m1_block_tables m'))"
    using assms(1,2) e(2) by (auto simp: v1_ok_def m' same_tables_def fresh_waiting_def comp_def)
  moreover have "blocks_ok m' M = blocks_ok m1 M" for M unfolding m' by (auto intro: blocks_ok_cong)
  ultimately show "v1_ok m'" using e(1) by (simp add: v1_ok_def)
  show "m1_cross_block_tables m' = m1_cross_block_tables m" using e(2) by (simp add: m' same_tables_def)
qed

lemma allocate1_succeeds:
  assumes "v1_ok m" "fresh_waiting g m" "can_allocate1 g 0 m = Inr OK"
  shows "\<exists>m'. allocate1 H g m = Inr m'"
proof -
  let ?seqs = "sg_get_seqs (Some WAITING) g"
  have k: "num_seqs None g = length ?seqs" "\<not> is_encoder_decoder g" "sg_encoder_seq g = None"
    using assms(2) by (auto simp: fresh_waiting_def is_encoder_decoder_def)
  have w: "m1_block_sliding_window m = None" using assms(1) by (simp add: v1_ok_def blocks_ok_def)
  obtain n where r: "?seqs \<noteq> []" "n_blocks (hd ?seqs) = Inr n" "int n \<le> num_free GPU m"
    using assms(3) k(3) w
    by (auto simp: can_allocate1_def get_seq_num_required_blocks_def Let_def device_allocator1_def split: if_splits)
  have "blocks_ok m (tables m + replicate_mset (length ?seqs) [])"
    using assms(1) by (simp add: v1_ok_def blocks_ok_empty_tables)
  then obtain x where x: "foldE (allocate_block1 H (hd ?seqs) (length ?seqs) False) [0..<n] ([], m) = Inr x"
    using allocate_blocks_succeed [of m "tables m" "length ?seqs" "[]" "[0..<n]" H "hd ?seqs" False] r by fastforce
  then show ?thesis using r k
    by (cases x) (simp add: allocate1_def allocate_sequence1_def get_seq_num_required_blocks_def Let_def check_no_caching_or_swa1_def)
qed

section \<open>Forking and freeing\<close>

lemma fork1_run:
  assumes "v1_ok m" "sq_seq_id child \<notin> fst ` set (m1_block_tables m)"
  shows "\<exists>m'. fork1 parent child m = Inr m' \<and> v1_ok m' \<and> m1_cross_block_tables m' = m1_cross_block_tables m"
proof (cases "map_of (m1_block_tables m) (sq_seq_id parent)")
  case None
  then show ?thesis using assms(1) by (simp add: fork1_def)
next
  case (Some t)
  define m' where "m' = (put_table1 (sq_seq_id child) t m)\<lparr>m1_store := fold incr_ref_count (remdups t) (m1_store m)\<rparr>"
  have e: "fork1 parent child m = Inr m'" by (simp add: fork1_def Some m'_def Let_def put_table1_def)
  have t: "t \<in># tables m" using map_of_SomeD [OF Some] by (force simp: tables_def)
  then have d: "distinct t" using assms(1) by (simp add: v1_ok_def blocks_ok_def)
  have "blocks_ok m (add_mset [] (tables m))" using assms(1) by (simp add: v1_ok_def blocks_ok_empty_table)
  from share_blocks [OF this t, of t] d
  have "blocks_ok (m\<lparr>m1_store := fold incr_ref_count t (m1_store m)\<rparr>) (add_mset t (tables m))" by simp
  then have "blocks_ok m' (add_mset t (tables m))"
    by (rule blocks_ok_cong) (simp_all add: m'_def d put_table1_def distinct_remdups_id)
  moreover have "tables m' = add_mset t (tables m)" "distinct (map fst (m1_block_tables m'))"
    using assms by (simp_all add: tables_def m'_def put_table1_def dict_set_fresh v1_ok_def)
  ultimately show ?thesis using e by (auto simp: v1_ok_def m'_def put_table1_def)
qed

lemma free1_run:
  assumes "v1_ok m" "\<And>xs. mset (it xs) = mset xs"
  shows "\<exists>m'. free1 it seq m = Inr m' \<and> v1_ok m' \<and> m1_cross_block_tables m' = m1_cross_block_tables m \<and>
    m1_block_tables m' = dict_del (sq_seq_id seq) (m1_block_tables m)"
proof (cases "map_of (m1_block_tables m) (sq_seq_id seq)")
  case None
  then have "sq_seq_id seq \<notin> fst ` set (m1_block_tables m)" by (simp add: map_of_eq_None_iff)
  then have "dict_del (sq_seq_id seq) (m1_block_tables m) = m1_block_tables m"
    by (force simp: dict_del_def intro!: filter_True)
  then show ?thesis using assms(1) None by (simp add: free1_def)
next
  case (Some t)
  have ok: "blocks_ok m (tables m)" "distinct (map fst (m1_block_tables m))" using assms(1) by (simp_all add: v1_ok_def)
  obtain M where M: "tables m = add_mset t M" "mset (map snd (dict_del (sq_seq_id seq) (m1_block_tables m))) = M"
    using mset_dict_values [OF Some ok(2)] unfolding tables_def by metis
  obtain m1 where m1: "free_block_table it t m = Inr m1" "blocks_ok m1 M" "same_tables m m1"
    using free_table [OF ok(1) [unfolded M(1)] assms(2)] by blast
  define m' where "m' = m1\<lparr>m1_block_tables := dict_del (sq_seq_id seq) (m1_block_tables m1)\<rparr>"
  have "free1 it seq m = Inr m'" using m1(1) by (simp add: free1_def Some m'_def)
  moreover have "blocks_ok m' M" using m1(2) by (rule blocks_ok_cong) (simp_all add: m'_def)
  ultimately show ?thesis using m1(3) M(2) ok(2) by (auto simp: v1_ok_def tables_def m'_def same_tables_def)
qed

section \<open>Appending\<close>

text \<open>The sequence holds as many blocks as it needs or one less, on the GPU.\<close>

definition can_grow :: "sequence \<Rightarrow> manager_v1 \<Rightarrow> bool" where
  "can_grow seq m \<longleftrightarrow> (\<exists>n t. n_blocks seq = Inr n \<and> map_of (m1_block_tables m) (sq_seq_id seq) = Some t \<and>
     n \<le> Suc (length t) \<and> (\<forall>b \<in> set t. fst b = GPU) \<and> (t = [] \<longrightarrow> n = 1))"

lemma gpu_allocate_eq:
  "gpu_allocate h n m = bindE (a1_allocate h n (device_allocator1 GPU m) (m1_store m))
     (\<lambda>r. Inr (fst r, set_device_allocator GPU (fst (snd r)) (snd (snd r)) m))"
  by (cases "a1_allocate h n (m1_gpu m) (m1_store m)")
    (simp_all add: gpu_allocate_def device_allocator1_def set_device_allocator_def case_prod_beta)

lemma gpu_allocate_take:
  assumes "blocks_ok m (add_mset t M)" "gpu_allocate None 0 m = Inr (b, m')"
  shows "blocks_ok m' (add_mset (t @ [b]) M)" "same_tables m m'" "fst b = GPU" "num_free GPU m' = num_free GPU m - 1"
    "uses b (add_mset t M) = 0"
proof -
  obtain a st where r: "a1_allocate None 0 (device_allocator1 GPU m) (m1_store m) = Inr (b, a, st)"
    "m' = set_device_allocator GPU a st m"
    using assms(2) by (auto simp: gpu_allocate_eq)
  have ok: "blocks_ok m (M + replicate_mset 1 t)" using assms(1) by simp
  note take = allocate_take [OF ok _ r(1)]
  show "blocks_ok m' (add_mset (t @ [b]) M)" "same_tables m m'" "fst b = GPU" "num_free GPU m' = num_free GPU m - 1"
    "uses b (add_mset t M) = 0"
    using take by (simp_all add: r(2))
qed

lemma append_to_last_block_run:
  assumes "v1_ok m" "map_of (m1_block_tables m) (sq_seq_id seq) = Some t" "append_to_last_block H seq t m = Inr (cows, m')"
  shows "v1_ok m' \<and> m1_cross_block_tables m' = m1_cross_block_tables m \<and> num_free GPU m - 1 \<le> num_free GPU m' \<and>
    (\<exists>t'. m1_block_tables m' = dict_set (sq_seq_id seq) t' (m1_block_tables m) \<and> length t' = length t \<and>
       ((\<forall>b \<in> set t. fst b = GPU) \<longrightarrow> (\<forall>b \<in> set t'. fst b = GPU)))"
proof -
  have nc: "\<not> m1_enable_caching m" and ok: "blocks_ok m (tables m)" "distinct (map fst (m1_block_tables m))"
    using assms(1) by (simp_all add: v1_ok_def blocks_ok_def)
  have ne: "t \<noteq> []" "fst (last t) = GPU" using assms(3) by (auto simp: append_to_last_block_def Let_def)
  show ?thesis
  proof (cases "pb_ref_count (m1_store m (last t)) = 1")
    case True
    then have "m' = put_table1 (sq_seq_id seq) t m" using assms(3) nc ne
      by (auto simp: append_to_last_block_def Let_def)
    then have "m' = m" using assms(2) by (simp add: put_table1_def dict_set_same)
    then show ?thesis using assms(1,2) by (intro conjI exI [of _ t]) (simp_all add: dict_set_same)
  next
    case False
    obtain M where M: "tables m = add_mset t M"
      "\<And>t'. mset (map snd (dict_set (sq_seq_id seq) t' (m1_block_tables m))) = add_mset t' M"
      using mset_dict_values [OF assms(2) ok(2)] unfolding tables_def by metis
    obtain b m1 where b: "gpu_allocate None 0 m = Inr (b, m1)"
      "free_in GPU (last t) (put_table1 (sq_seq_id seq) (butlast t @ [b]) m1) = Inr m'"
      using assms(3) False nc ne by (auto simp: append_to_last_block_def allocate_last_physical_block_def Let_def)
    note take = gpu_allocate_take [OF ok(1) [unfolded M(1)] b(1)]
    define m2 where "m2 = put_table1 (sq_seq_id seq) (butlast t @ [b]) m1"
    have "blocks_ok m2 (add_mset (t @ [b]) M)" using take(1) by (simp add: m2_def)
    from free_block [OF this, of "last t"] ne obtain m3 where
      m3: "free_in (fst (last t)) (last t) m2 = Inr m3" "blocks_ok m3 (add_mset (remove1 (last t) (t @ [b])) M)"
      "same_tables m2 m3" "\<And>dev. num_free dev m2 \<le> num_free dev m3" by auto
    have m': "m' = m3" using m3(1) b(2) ne(2) by (simp add: m2_def)
    have tb: "m1_block_tables m' = dict_set (sq_seq_id seq) (butlast t @ [b]) (m1_block_tables m)"
      using m3(3) take(2) by (simp add: m' m2_def same_tables_def)
    have "mset (butlast t @ [b]) = mset (remove1 (last t) (t @ [b]))"
      using ne(1) by (cases t rule: rev_cases) auto
    from blocks_ok_perm [OF m3(2) this] have "v1_ok m'" using M(2) ok(2) tb by (simp add: v1_ok_def tables_def m')
    moreover have "num_free GPU m - 1 \<le> num_free GPU m'" using m3(4) [of GPU] take(4) by (simp add: m' m2_def)
    moreover have "m1_cross_block_tables m' = m1_cross_block_tables m" using m3(3) take(2) by (simp add: m' m2_def same_tables_def)
    moreover have "(\<forall>b \<in> set t. fst b = GPU) \<longrightarrow> (\<forall>b \<in> set (butlast t @ [b]). fst b = GPU)"
      using take(3) by (auto dest: in_set_butlastD)
    moreover have "length (butlast t @ [b]) = length t" using ne(1) by simp
    ultimately show ?thesis using tb by metis
  qed
qed

text \<open>One more token: the last block is the sequence's own, is copied, or a new one is taken.\<close>

lemma append_slots1_run:
  assumes "v1_ok m" "append_slots1 H seq k m = Inr (cows, m')"
  shows "v1_ok m' \<and> m1_cross_block_tables m' = m1_cross_block_tables m \<and> num_free GPU m - 1 \<le> num_free GPU m' \<and>
    (\<exists>t t' n. map_of (m1_block_tables m) (sq_seq_id seq) = Some t \<and> n_blocks seq = Inr n \<and>
       m1_block_tables m' = dict_set (sq_seq_id seq) t' (m1_block_tables m) \<and> n \<le> length t' \<and> t' \<noteq> [] \<and>
       ((\<forall>b \<in> set t. fst b = GPU) \<longrightarrow> (\<forall>b \<in> set t'. fst b = GPU)))"
proof -
  have nc: "\<not> m1_enable_caching m" "m1_block_sliding_window m = None"
    and ok: "blocks_ok m (tables m)" "distinct (map fst (m1_block_tables m))"
    using assms(1) by (simp_all add: v1_ok_def blocks_ok_def)
  obtain n t where n: "n_blocks seq = Inr n" and t: "map_of (m1_block_tables m) (sq_seq_id seq) = Some t"
    using assms(2) by (auto simp: append_slots1_def)
  show ?thesis
  proof (cases "length t < n")
    case True
    then obtain b m1 where b: "gpu_allocate None 0 m = Inr (b, m1)" "m' = put_table1 (sq_seq_id seq) (t @ [b]) m1"
      "n = Suc (length t)"
      using assms(2) nc n t by (auto simp: append_slots1_def allocate_last_physical_block_def)
    obtain M where M: "tables m = add_mset t M"
      "\<And>t'. mset (map snd (dict_set (sq_seq_id seq) t' (m1_block_tables m))) = add_mset t' M"
      using mset_dict_values [OF t ok(2)] unfolding tables_def by metis
    note take = gpu_allocate_take [OF ok(1) [unfolded M(1)] b(1)]
    have tb: "m1_block_tables m' = dict_set (sq_seq_id seq) (t @ [b]) (m1_block_tables m)"
      using take(2) by (simp add: b(2) same_tables_def)
    have "blocks_ok m' (add_mset (t @ [b]) M)" using take(1) by (simp add: b(2))
    then have "v1_ok m'" using M(2) [of "t @ [b]"] ok(2) tb by (simp add: v1_ok_def tables_def)
    moreover have "num_free GPU m - 1 \<le> num_free GPU m'" "m1_cross_block_tables m' = m1_cross_block_tables m"
      using take(2,4) by (simp_all add: b(2) same_tables_def)
    moreover have "(\<forall>b \<in> set t. fst b = GPU) \<longrightarrow> (\<forall>b \<in> set (t @ [b]). fst b = GPU)" using take(3) by auto
    ultimately show ?thesis using tb t n b(3)
      by (intro conjI exI [of _ t] exI [of _ "t @ [b]"] exI [of _ n]) simp_all
  next
    case False
    then have a: "append_to_last_block H seq t m = Inr (cows, m')" using assms(2) nc n t by (simp add: append_slots1_def)
    then have "t \<noteq> []" by (auto simp: append_to_last_block_def)
    then show ?thesis using append_to_last_block_run [OF assms(1) t a] n t False
      by (metis length_0_conv not_less)
  qed
qed

lemma append_slots1_succeeds:
  assumes "v1_ok m" "can_grow seq m" "0 < num_free GPU m"
  shows "\<exists>r. append_slots1 H seq k m = Inr r"
proof -
  have nc: "\<not> m1_enable_caching m" "m1_block_sliding_window m = None" and ok: "blocks_ok m (tables m)"
    "distinct (map fst (m1_block_tables m))"
    using assms(1) by (simp_all add: v1_ok_def blocks_ok_def)
  obtain n t where t: "n_blocks seq = Inr n" "map_of (m1_block_tables m) (sq_seq_id seq) = Some t" "n \<le> Suc (length t)"
    "\<forall>b \<in> set t. fst b = GPU" "t = [] \<longrightarrow> n = 1"
    using assms(2) by (auto simp: can_grow_def)
  obtain b a st where b: "a1_allocate None 0 (device_allocator1 GPU m) (m1_store m) = Inr (b, a, st)"
    using allocate_succeeds [OF ok(1) assms(3)] by blast
  define m1 where "m1 = set_device_allocator GPU a st m"
  have g: "gpu_allocate None 0 m = Inr (b, m1)" by (simp add: gpu_allocate_eq b m1_def)
  show ?thesis
  proof (cases "length t < n")
    case True
    then show ?thesis using t nc g by (auto simp: append_slots1_def allocate_last_physical_block_def)
  next
    case False
    then have ne: "t \<noteq> []" using t(5) by auto
    obtain M where M: "tables m = add_mset t M" using mset_dict_values [OF t(2) ok(2)] unfolding tables_def by metis
    have "blocks_ok (put_table1 (sq_seq_id seq) (butlast t @ [b]) m1) (add_mset (t @ [b]) M)"
      using gpu_allocate_take(1) [OF ok(1) [unfolded M] g] by simp
    from free_block [OF this, of "last t"] ne t(4) obtain m2 where
      "free_in GPU (last t) (put_table1 (sq_seq_id seq) (butlast t @ [b]) m1) = Inr m2" by simp metis
    then show ?thesis using False t ne nc g
      by (auto simp: append_slots1_def append_to_last_block_def allocate_last_physical_block_def Let_def)
  qed
qed

end
