(* ===== verification/Manager_V1_Swaps.thy ===== *)
theory Manager_V1_Swaps
  imports Manager_V1_Runs
begin

text \<open>
  Swapping with \<open>BlockSpaceManagerV1\<close>. In the middle of it a table holds the new blocks of the part that was
  swapped and the old ones of the rest.
\<close>

section \<open>One block\<close>

definition map_ok :: "device \<Rightarrow> (block_ref \<rightharpoonup> block_ref) \<Rightarrow> manager_v1 \<Rightarrow> block_ref list multiset \<Rightarrow> bool" where
  "map_ok dst f m N \<longleftrightarrow> (\<forall>x y. f x = Some y \<longrightarrow> fst y = dst \<and> valid_block m y \<and> 0 < uses y N) \<and> inj_on f (dom f)"

lemma map_ok_inj: "map_ok dst f m N \<Longrightarrow> f x = Some y \<Longrightarrow> f z = Some y \<Longrightarrow> x = z"
  unfolding map_ok_def inj_on_def dom_def by auto

lemma map_ok_upd:
  assumes "map_ok dst f m N" "same_tables m m'" "\<And>y. fst y = dst \<Longrightarrow> uses y N \<le> uses y N'"
    "f x = None \<longrightarrow> uses b N = 0" "f x = None \<or> f x = Some b" "fst b = dst" "valid_block m' b" "0 < uses b N'"
  shows "map_ok dst (f(x \<mapsto> b)) m' N'"
proof -
  have "f z \<noteq> Some b" if "z \<noteq> x" for z
  proof
    assume z: "f z = Some b"
    then have "0 < uses b N" using assms(1) by (auto simp: map_ok_def)
    then have "f x = Some b" using assms(4,5) by auto
    then show False using map_ok_inj [OF assms(1) z] that by simp
  qed
  then have "inj_on (f(x \<mapsto> b)) (dom (f(x \<mapsto> b)))" using assms(1) by (auto simp: map_ok_def inj_on_def)
  moreover have "fst y = dst \<and> valid_block m' y \<and> 0 < uses y N'" if "(f(x \<mapsto> b)) z = Some y" for y z
    using that assms(1,6-8) assms(3) [of y] same_tables_valid [OF assms(2), of y]
    by (fastforce simp: map_ok_def split: if_splits)
  ultimately show ?thesis by (simp add: map_ok_def)
qed

lemma swap_block_run:
  assumes "blocks_ok m (add_mset (new @ x # rest) M)" "src \<noteq> dst" "fst x = src" "\<forall>b \<in> set rest. fst b = src"
    "map_ok dst (map_of mapping) m (add_mset (new @ x # rest) M)" "\<And>y. map_of mapping x = Some y \<Longrightarrow> y \<notin> set new"
    "map_of mapping x = None \<longrightarrow> 0 < num_free dst m"
  obtains b mapping' m' where "swap_block src dst x (new, mapping, m) = Inr (new @ [b], mapping', m')"
    "blocks_ok m' (add_mset ((new @ [b]) @ rest) M)" "same_tables m m'" "fst b = dst"
    "map_of mapping' = (map_of mapping)(x \<mapsto> b)" "map_of mapping x = None \<or> map_of mapping x = Some b" "map_ok dst (map_of mapping') m' (add_mset ((new @ [b]) @ rest) M)"
    "num_free dst m - (if map_of mapping x = None then 1 else 0) \<le> num_free dst m'"
proof -
  let ?t = "new @ x # rest" and ?N = "add_mset (new @ x # rest) M"
  have "\<exists>b mapping' m1. (case map_of mapping x of
              Some b \<Rightarrow> Inr (b, mapping, m\<lparr>m1_store := incr_ref_count b (m1_store m)\<rparr>)
            | None \<Rightarrow>
                let y = m1_store m x in
                bindE (a1_allocate (Some (pb_block_hash y)) (pb_num_hashed_tokens y)
                         (device_allocator1 dst m) (m1_store m)) (\<lambda>(b, a, st).
                Inr (b, mapping @ [(x, b)], set_device_allocator dst a st m))) = Inr (b, mapping', m1) \<and>
      blocks_ok m1 (add_mset (?t @ [b]) M) \<and> same_tables m m1 \<and> fst b = dst \<and> map_of mapping' = (map_of mapping)(x \<mapsto> b) \<and>
      (map_of mapping x = None \<longrightarrow> uses b ?N = 0) \<and> (map_of mapping x = None \<or> map_of mapping x = Some b) \<and>
      num_free dst m - (if map_of mapping x = None then 1 else 0) \<le> num_free dst m1"
  proof (cases "map_of mapping x")
    case None
    obtain b a st where b: "a1_allocate (Some (pb_block_hash (m1_store m x))) (pb_num_hashed_tokens (m1_store m x))
        (device_allocator1 dst m) (m1_store m) = Inr (b, a, st)"
      using allocate_succeeds [OF assms(1), of dst] assms(7) None by metis
    have ok: "blocks_ok m (M + replicate_mset 1 ?t)" using assms(1) by simp
    note take = allocate_take [OF ok zero_less_one b]
    have "map_of (mapping @ [(x, b)]) = (map_of mapping)(x \<mapsto> b)"
      using None by (auto simp: map_add_def fun_eq_iff split: option.splits)
    then show ?thesis using None b take
      by (intro exI [of _ b] exI [of _ "mapping @ [(x, b)]"] exI [of _ "set_device_allocator dst a st m"]) simp
  next
    case (Some b)
    then have b: "fst b = dst" "valid_block m b" "0 < uses b ?N" using assms(5) by (auto simp: map_ok_def)
    moreover have "b \<notin> set ?t" using assms(2,3,4) assms(6) [OF Some] b(1) by auto
    ultimately show ?thesis using Some share_block [OF assms(1) b(2)] by (simp add: fun_upd_idem)
  qed
  then obtain b mapping' m1 where s: "swap_block src dst x (new, mapping, m) =
      bindE (free_in src x m1) (\<lambda>m. Inr (new @ [b], mapping', m))"
    "blocks_ok m1 (add_mset (?t @ [b]) M)" "same_tables m m1" "fst b = dst" "map_of mapping' = (map_of mapping)(x \<mapsto> b)"
    "map_of mapping x = None \<longrightarrow> uses b ?N = 0" "map_of mapping x = None \<or> map_of mapping x = Some b"
    "num_free dst m - (if map_of mapping x = None then 1 else 0) \<le> num_free dst m1"
    unfolding swap_block_def by force
  obtain m2 where m2: "free_in src x m1 = Inr m2" "blocks_ok m2 (add_mset (remove1 x (?t @ [b])) M)" "same_tables m1 m2"
    "num_free dst m1 \<le> num_free dst m2"
    by (rule free_block [OF s(2), of x, unfolded assms(3)]) (simp, blast)
  have "mset ((new @ [b]) @ rest) = mset (remove1 x (?t @ [b]))" by simp
  from blocks_ok_perm [OF m2(2) this] have ok: "blocks_ok m2 (add_mset ((new @ [b]) @ rest) M)" .
  have same: "same_tables m m2" using s(3) m2(3) by (rule same_tables_trans)
  have "map_ok dst ((map_of mapping)(x \<mapsto> b)) m2 (add_mset ((new @ [b]) @ rest) M)"
  proof (rule map_ok_upd [OF assms(5) same])
    show "uses y (add_mset (new @ x # rest) M) \<le> uses y (add_mset ((new @ [b]) @ rest) M)" if "fst y = dst" for y
      using that assms(2,3) by auto
    show "valid_block m2 b" using ok unfolding blocks_ok_def by simp
    show "0 < uses b (add_mset ((new @ [b]) @ rest) M)" by simp
  qed (use s(4,6,7) in simp_all)
  then have mo: "map_ok dst (map_of mapping') m2 (add_mset ((new @ [b]) @ rest) M)" unfolding s(5) .
  have e: "swap_block src dst x (new, mapping, m) = Inr (new @ [b], mapping', m2)" unfolding s(1) m2(1) by simp
  show thesis by (rule that [OF e ok same s(4,5,7) mo order_trans [OF s(8) m2(4)]])
qed

section \<open>A table\<close>

lemma swap_blocks_run:
  assumes "blocks_ok m (add_mset (new @ rest) M)" "src \<noteq> dst" "\<forall>b \<in> set rest. fst b = src" "\<forall>b \<in> set new. fst b = dst"
    "map_ok dst (map_of mapping) m (add_mset (new @ rest) M)"
    "\<And>b. b \<in> set new \<Longrightarrow> \<exists>d. d \<notin> set rest \<and> map_of mapping d = Some b"
    "int (card (set rest - dom (map_of mapping))) \<le> num_free dst m"
  shows "\<exists>new' mapping' m'. foldE (swap_block src dst) rest (new, mapping, m) = Inr (new', mapping', m') \<and>
    blocks_ok m' (add_mset new' M) \<and> same_tables m m' \<and> (\<forall>b \<in> set new'. fst b = dst) \<and>
    map_ok dst (map_of mapping') m' (add_mset new' M) \<and> map_of mapping \<subseteq>\<^sub>m map_of mapping' \<and>
    dom (map_of mapping') = dom (map_of mapping) \<union> set rest \<and>
    map Some new' = map Some new @ map (map_of mapping') rest \<and>
    num_free dst m - int (card (set rest - dom (map_of mapping))) \<le> num_free dst m'"
  using assms
proof (induction rest arbitrary: new mapping m)
  case Nil
  then show ?case by (intro exI [of _ new] exI [of _ mapping] exI [of _ m]) simp
next
  case (Cons x rest)
  have dist: "distinct (new @ x # rest)" using Cons.prems(1) by (simp add: blocks_ok_def)
  have c: "int (card (set (x # rest) - dom (map_of mapping))) =
      (if map_of mapping x = None then 1 else 0) + int (card (set rest - dom ((map_of mapping)(x \<mapsto> b))))" for b
  proof (cases "map_of mapping x")
    case None
    then have "set (x # rest) - dom (map_of mapping) = insert x (set rest - dom ((map_of mapping)(x \<mapsto> b)))" by auto
    then show ?thesis using None by simp
  next
    case (Some y)
    then have "set (x # rest) - dom (map_of mapping) = set rest - dom ((map_of mapping)(x \<mapsto> b))" using dist by auto
    then show ?thesis using Some by simp
  qed
  have fresh: "y \<notin> set new" if "map_of mapping x = Some y" for y
  proof
    assume "y \<in> set new"
    from Cons.prems(6) [OF this] obtain d where d: "d \<noteq> x" "map_of mapping d = Some y" by auto
    from map_ok_inj [OF Cons.prems(5) d(2) that] d(1) show False by simp
  qed
  have fx: "fst x = src" "\<forall>b \<in> set rest. fst b = src" using Cons.prems(3) by auto
  have room: "map_of mapping x = None \<longrightarrow> 0 < num_free dst m" using Cons.prems(7) c [of x] by auto
  obtain b mapping1 m1 where s: "swap_block src dst x (new, mapping, m) = Inr (new @ [b], mapping1, m1)"
    "blocks_ok m1 (add_mset ((new @ [b]) @ rest) M)" "same_tables m m1" "fst b = dst"
    "map_of mapping1 = (map_of mapping)(x \<mapsto> b)" "map_of mapping x = None \<or> map_of mapping x = Some b"
    "map_ok dst (map_of mapping1) m1 (add_mset ((new @ [b]) @ rest) M)"
    "num_free dst m - (if map_of mapping x = None then 1 else 0) \<le> num_free dst m1"
    by (rule swap_block_run [OF Cons.prems(1,2) fx Cons.prems(5) fresh room])
  have new: "\<forall>b \<in> set (new @ [b]). fst b = dst" using Cons.prems(4) s(4) by simp
  have src: "\<exists>d. d \<notin> set rest \<and> map_of mapping1 d = Some b'" if "b' \<in> set (new @ [b])" for b'
  proof (cases "b' = b")
    case True
    then show ?thesis using dist s(5) by (intro exI [of _ x]) simp
  next
    case False
    then have "b' \<in> set new" using that by simp
    from Cons.prems(6) [OF this] obtain d where "d \<notin> set (x # rest)" "map_of mapping d = Some b'" by blast
    then show ?thesis using s(5) by (intro exI [of _ d]) simp
  qed
  have room1: "int (card (set rest - dom (map_of mapping1))) \<le> num_free dst m1"
    using Cons.prems(7) c [of b] s(8) unfolding s(5) by linarith
  obtain new' mapping' m' where r: "foldE (swap_block src dst) rest (new @ [b], mapping1, m1) = Inr (new', mapping', m')"
    "blocks_ok m' (add_mset new' M)" "same_tables m1 m'" "\<forall>b \<in> set new'. fst b = dst"
    "map_ok dst (map_of mapping') m' (add_mset new' M)" "map_of mapping1 \<subseteq>\<^sub>m map_of mapping'"
    "dom (map_of mapping') = dom (map_of mapping1) \<union> set rest"
    "map Some new' = map Some (new @ [b]) @ map (map_of mapping') rest"
    "num_free dst m1 - int (card (set rest - dom (map_of mapping1))) \<le> num_free dst m'"
    using Cons.IH [OF s(2) Cons.prems(2) fx(2) new s(7) src room1] by blast
  have le: "map_of mapping \<subseteq>\<^sub>m map_of mapping1" using s(6) unfolding s(5) by (auto simp: map_le_def)
  have mx: "map_of mapping' x = Some b" using r(6) s(5) by (auto simp: map_le_def)
  show ?case
  proof (intro exI conjI)
    show "foldE (swap_block src dst) (x # rest) (new, mapping, m) = Inr (new', mapping', m')" using s(1) r(1) by simp
    show "same_tables m m'" using s(3) r(3) by (rule same_tables_trans)
    show "map_of mapping \<subseteq>\<^sub>m map_of mapping'" using le r(6) by (rule map_le_trans)
    show "dom (map_of mapping') = dom (map_of mapping) \<union> set (x # rest)" unfolding r(7) s(5) by auto
    show "map Some new' = map Some new @ map (map_of mapping') (x # rest)" using r(8) mx by simp
    show "num_free dst m - int (card (set (x # rest) - dom (map_of mapping))) \<le> num_free dst m'"
      using r(9) c [of b] s(8) unfolding s(5) by linarith
  qed (use r in auto)
qed

section \<open>The group\<close>

definition on_device :: "device \<Rightarrow> seq_status \<Rightarrow> seq_group \<Rightarrow> manager_v1 \<Rightarrow> bool" where
  "on_device dev status g m \<longleftrightarrow> \<not> is_encoder_decoder g \<and> distinct (map sq_seq_id (sg_get_seqs (Some status) g)) \<and>
     (\<forall>s \<in> set (sg_get_seqs (Some status) g). \<exists>t. map_of (m1_block_tables m) (sq_seq_id s) = Some t \<and> (\<forall>b \<in> set t. fst b = dev))"

lemma map_ok_same: "map_ok dst f m N \<Longrightarrow> (\<And>b. valid_block m' b = valid_block m b) \<Longrightarrow> map_ok dst f m' N"
  by (simp add: map_ok_def)

definition seq_blocks :: "sequence list \<Rightarrow> manager_v1 \<Rightarrow> block_ref set" where
  "seq_blocks seqs m = (\<Union>s \<in> set seqs. case map_of (m1_block_tables m) (sq_seq_id s) of Some t \<Rightarrow> set t | None \<Rightarrow> {})"

lemma finite_seq_blocks [simp]: "finite (seq_blocks seqs m)"
  by (auto simp: seq_blocks_def split: option.splits)

lemma swap_seqs_run:
  assumes "v1_ok m" "src \<noteq> dst" "distinct (map sq_seq_id seqs)"
    "\<forall>s \<in> set seqs. \<exists>t. map_of (m1_block_tables m) (sq_seq_id s) = Some t \<and> (\<forall>b \<in> set t. fst b = src)"
    "map_ok dst (map_of mapping) m (tables m)"
    "int (card (seq_blocks seqs m - dom (map_of mapping))) \<le> num_free dst m"
  shows "\<exists>mapping' m'. foldE (\<lambda>seq (mapping, m).
              bindE (get_table1 (sq_seq_id seq) m) (\<lambda>t.
              bindE (swap_block_table src dst t mapping m) (\<lambda>(t, mapping, m).
              Inr (mapping, put_table1 (sq_seq_id seq) t m)))) seqs (mapping, m) = Inr (mapping', m') \<and>
    v1_ok m' \<and> m1_cross_block_tables m' = m1_cross_block_tables m \<and> map_of mapping \<subseteq>\<^sub>m map_of mapping' \<and>
    inj_on (map_of mapping') (dom (map_of mapping')) \<and>
    dom (map_of mapping') = dom (map_of mapping) \<union> seq_blocks seqs m \<and>
    (\<forall>i. i \<notin> sq_seq_id ` set seqs \<longrightarrow> map_of (m1_block_tables m') i = map_of (m1_block_tables m) i) \<and>
    (\<forall>s \<in> set seqs. \<exists>t'. map_of (m1_block_tables m') (sq_seq_id s) = Some t' \<and> (\<forall>b \<in> set t'. fst b = dst) \<and>
       map Some t' = map (map_of mapping') (the (map_of (m1_block_tables m) (sq_seq_id s))))"
  using assms
proof (induction seqs arbitrary: mapping m)
  case Nil
  then show ?case by (intro exI [of _ mapping] exI [of _ m]) (simp add: seq_blocks_def map_ok_def)
next
  case (Cons s seqs)
  let ?i = "sq_seq_id s"
  have ok: "blocks_ok m (tables m)" "distinct (map fst (m1_block_tables m))" using Cons.prems(1) by (simp_all add: v1_ok_def)
  obtain t where t: "map_of (m1_block_tables m) ?i = Some t" "\<forall>b \<in> set t. fst b = src" using Cons.prems(4) by auto
  obtain M where M: "tables m = add_mset t M" "\<And>t'. mset (map snd (dict_set ?i t' (m1_block_tables m))) = add_mset t' M"
    using mset_dict_values [OF t(1) ok(2)] unfolding tables_def by metis
  have sb: "seq_blocks (s # seqs) m = set t \<union> seq_blocks seqs m" by (simp add: seq_blocks_def t(1))
  have fin: "finite (seq_blocks (s # seqs) m - dom (map_of mapping))" by simp
  have room: "int (card (set t - dom (map_of mapping))) \<le> num_free dst m"
    using Cons.prems(6) card_mono [OF fin, of "set t - dom (map_of mapping)"] unfolding sb by fastforce
  have okt: "blocks_ok m (add_mset ([] @ t) M)" and mok: "map_ok dst (map_of mapping) m (add_mset ([] @ t) M)"
    using ok(1) Cons.prems(5) by (simp_all add: M(1))
  obtain t' mapping1 m1 where r: "foldE (swap_block src dst) t ([], mapping, m) = Inr (t', mapping1, m1)"
    "blocks_ok m1 (add_mset t' M)" "same_tables m m1" "\<forall>b \<in> set t'. fst b = dst"
    "map_ok dst (map_of mapping1) m1 (add_mset t' M)" "map_of mapping \<subseteq>\<^sub>m map_of mapping1"
    "dom (map_of mapping1) = dom (map_of mapping) \<union> set t" "map Some t' = map (map_of mapping1) t"
    "num_free dst m - int (card (set t - dom (map_of mapping))) \<le> num_free dst m1"
    using swap_blocks_run [OF okt Cons.prems(2) t(2) _ mok _ room] by auto
  define m2 where "m2 = put_table1 ?i t' m1"
  have tb: "m1_block_tables m2 = dict_set ?i t' (m1_block_tables m)" using r(3) by (simp add: m2_def same_tables_def)
  have tm: "tables m2 = add_mset t' M" using M(2) [of t'] by (simp add: tables_def tb)
  have look: "map_of (m1_block_tables m2) j = (if j = ?i then Some t' else map_of (m1_block_tables m) j)" for j
    unfolding tb by (simp add: map_of_dict_set)
  have "blocks_ok m2 (add_mset t' M)" using r(2) by (simp add: m2_def)
  then have v2: "v1_ok m2" using ok(2) tb by (simp add: v1_ok_def tm)
  have mok2: "map_ok dst (map_of mapping1) m2 (tables m2)" unfolding tm using r(5)
    by (rule map_ok_same) (simp add: m2_def valid_block_def)
  have ids: "sq_seq_id z \<noteq> ?i" if "z \<in> set seqs" for z using Cons.prems(3) that by (metis distinct.simps(2) image_eqI list.simps(9) set_map)
  have dev2: "\<forall>z \<in> set seqs. \<exists>t. map_of (m1_block_tables m2) (sq_seq_id z) = Some t \<and> (\<forall>b \<in> set t. fst b = src)"
    using Cons.prems(4) ids by (auto simp: look)
  have sb2: "seq_blocks seqs m2 = seq_blocks seqs m" using ids by (auto simp: seq_blocks_def look intro!: SUP_cong)
  have "seq_blocks (s # seqs) m - dom (map_of mapping) =
      (set t - dom (map_of mapping)) \<union> (seq_blocks seqs m2 - dom (map_of mapping1))" by (auto simp: sb sb2 r(7))
  moreover have "(set t - dom (map_of mapping)) \<inter> (seq_blocks seqs m2 - dom (map_of mapping1)) = {}" by (auto simp: r(7))
  ultimately have "card (seq_blocks (s # seqs) m - dom (map_of mapping)) =
      card (set t - dom (map_of mapping)) + card (seq_blocks seqs m2 - dom (map_of mapping1))"
    by (simp add: card_Un_disjoint)
  then have room2: "int (card (seq_blocks seqs m2 - dom (map_of mapping1))) \<le> num_free dst m2"
    using Cons.prems(6) r(9) by (simp add: m2_def)
  have d2: "distinct (map sq_seq_id seqs)" using Cons.prems(3) by simp
  obtain mapping' m' where e: "foldE (\<lambda>seq (mapping, m).
              bindE (get_table1 (sq_seq_id seq) m) (\<lambda>t.
              bindE (swap_block_table src dst t mapping m) (\<lambda>(t, mapping, m).
              Inr (mapping, put_table1 (sq_seq_id seq) t m)))) seqs (mapping1, m2) = Inr (mapping', m')"
    "v1_ok m'" "m1_cross_block_tables m' = m1_cross_block_tables m2" "map_of mapping1 \<subseteq>\<^sub>m map_of mapping'"
    "inj_on (map_of mapping') (dom (map_of mapping'))" "dom (map_of mapping') = dom (map_of mapping1) \<union> seq_blocks seqs m2"
    "\<forall>i. i \<notin> sq_seq_id ` set seqs \<longrightarrow> map_of (m1_block_tables m') i = map_of (m1_block_tables m2) i"
    "\<forall>s \<in> set seqs. \<exists>t'. map_of (m1_block_tables m') (sq_seq_id s) = Some t' \<and> (\<forall>b \<in> set t'. fst b = dst) \<and>
       map Some t' = map (map_of mapping') (the (map_of (m1_block_tables m2) (sq_seq_id s)))"
    using Cons.IH [OF v2 Cons.prems(2) d2 dev2 mok2 room2] by blast
  have ext: "map_of mapping' x = map_of mapping1 x" if "x \<in> set t" for x
    using e(4) r(7) that unfolding map_le_def by (metis UnI2)
  have own: "map_of (m1_block_tables m') ?i = Some t'" using e(7) ids by (metis (no_types, lifting) imageE look)
  have mine: "map Some t' = map (map_of mapping') t" unfolding r(8) using ext by simp
  have rest: "\<exists>t'. map_of (m1_block_tables m') (sq_seq_id z) = Some t' \<and> (\<forall>b \<in> set t'. fst b = dst) \<and>
       map Some t' = map (map_of mapping') (the (map_of (m1_block_tables m) (sq_seq_id z)))" if "z \<in> set seqs" for z
    using e(8) that ids [OF that] by (metis look)
  show ?case
  proof (intro exI conjI)
    show "foldE (\<lambda>seq (mapping, m).
              bindE (get_table1 (sq_seq_id seq) m) (\<lambda>t.
              bindE (swap_block_table src dst t mapping m) (\<lambda>(t, mapping, m).
              Inr (mapping, put_table1 (sq_seq_id seq) t m)))) (s # seqs) (mapping, m) = Inr (mapping', m')"
      using t(1) r(1) e(1) by (simp add: swap_block_table_def m2_def)
    show "m1_cross_block_tables m' = m1_cross_block_tables m" using e(3) r(3) by (simp add: m2_def same_tables_def)
    show "map_of mapping \<subseteq>\<^sub>m map_of mapping'" using r(6) e(4) by (rule map_le_trans)
    show "dom (map_of mapping') = dom (map_of mapping) \<union> seq_blocks (s # seqs) m" unfolding e(6) r(7) sb sb2 by (simp add: Un_assoc)
    show "\<forall>i. i \<notin> sq_seq_id ` set (s # seqs) \<longrightarrow> map_of (m1_block_tables m') i = map_of (m1_block_tables m) i"
      using e(7) by (simp add: look)
    show "\<forall>s \<in> set (s # seqs). \<exists>t'. map_of (m1_block_tables m') (sq_seq_id s) = Some t' \<and> (\<forall>b \<in> set t'. fst b = dst) \<and>
       map Some t' = map (map_of mapping') (the (map_of (m1_block_tables m) (sq_seq_id s)))"
      using rest own mine r(4) t(1) by simp
  qed (rule e)+
qed

text \<open>The counters of the manager are about the sequences that are not finished.\<close>

lemma get_physical_blocks_eq:
  assumes "\<not> is_encoder_decoder g" "get_physical_blocks g m = Inr bs"
  shows "set bs = seq_blocks (filter (\<lambda>s. \<not> sq_is_finished s) (sg_get_seqs None g)) m" "distinct bs"
proof -
  have "set bs = set xs \<union> seq_blocks seqs m"
    if "foldE (\<lambda>seq bs. bindE (get_table1 (sq_seq_id seq) m) (\<lambda>t. Inr (bs @ t))) seqs xs = Inr bs" for seqs xs bs
    using that by (induction seqs arbitrary: xs) (auto simp: seq_blocks_def)
  then show "set bs = seq_blocks (filter (\<lambda>s. \<not> sq_is_finished s) (sg_get_seqs None g)) m" "distinct bs"
    using assms by (auto simp: get_physical_blocks_def)
qed

lemma swap_run:
  assumes "v1_ok m" "on_device src status g m" "src \<noteq> dst" "\<not> status_is_finished status" "get_physical_blocks g m = Inr bs"
    "int (length bs) \<le> num_free dst m"
  shows "\<exists>mapping m'. swap_seqs src dst status g m = Inr (map (\<lambda>(x, y). (snd x, snd y)) mapping, m') \<and> v1_ok m' \<and>
    m1_cross_block_tables m' = m1_cross_block_tables m \<and> inj_on (map_of mapping) (dom (map_of mapping)) \<and>
    (\<forall>i. i \<notin> sq_seq_id ` set (sg_get_seqs (Some status) g) \<longrightarrow> map_of (m1_block_tables m') i = map_of (m1_block_tables m) i) \<and>
    (\<forall>s \<in> set (sg_get_seqs (Some status) g). \<exists>t'. map_of (m1_block_tables m') (sq_seq_id s) = Some t' \<and>
       (\<forall>b \<in> set t'. fst b = dst) \<and> map Some t' = map (map_of mapping) (the (map_of (m1_block_tables m) (sq_seq_id s))))"
proof -
  let ?seqs = "sg_get_seqs (Some status) g"
  have ne: "\<not> is_encoder_decoder g" using assms(2) by (simp add: on_device_def)
  have d: "distinct (map sq_seq_id ?seqs)"
    and dev: "\<forall>s \<in> set ?seqs. \<exists>t. map_of (m1_block_tables m) (sq_seq_id s) = Some t \<and> (\<forall>b \<in> set t. fst b = src)"
    using assms(2) by (auto simp: on_device_def)
  have sub: "seq_blocks ?seqs m \<subseteq> set bs"
    unfolding get_physical_blocks_eq(1) [OF ne assms(5)] sg_get_seqs_filter using assms(4)
    by (auto simp: seq_blocks_def sg_get_seqs_def sq_is_finished_def)
  have "card (seq_blocks ?seqs m) \<le> length bs" using card_mono [OF _ sub] card_length [of bs] by (metis List.finite_set le_trans)
  then have room: "int (card (seq_blocks ?seqs m - dom (map_of []))) \<le> num_free dst m" using assms(6) by simp
  have "map_ok dst (map_of []) m (tables m)" by (simp add: map_ok_def)
  from swap_seqs_run [OF assms(1,3) d dev this room] ne show ?thesis
    by (fastforce simp: swap_seqs_def)
qed

end
