(* ===== verification/Manager_V1_Facts.thy ===== *)
theory Manager_V1_Facts
  imports Manager_V1_Swaps Scheduler
begin

text \<open>
  What \<open>BlockSpaceManagerV1\<close> promises the scheduler, in every state it can reach with sequences that have no
  encoder, without prefix caching and sliding windows; and two behaviours outside of these promises.
\<close>

section \<open>The states it reaches\<close>

text \<open>
  The scheduler allocates a group once, while all its sequences wait, forks to new ids, and swaps a group whose
  sequences are on one device after it has asked the manager for room.
\<close>

inductive v1_reach :: "prefix_hash \<Rightarrow> (block_ref list \<Rightarrow> block_ref list) \<Rightarrow> manager_v1 \<Rightarrow> bool"
  for H :: prefix_hash and it :: "block_ref list \<Rightarrow> block_ref list" where
  init: "manager_v1_init block_size num_gpu num_cpu watermark None False st = Inr m \<Longrightarrow> v1_reach H it m"
| allocate: "v1_reach H it m \<Longrightarrow> fresh_waiting g m \<Longrightarrow> allocate1 H g m = Inr m' \<Longrightarrow> v1_reach H it m'"
| append: "v1_reach H it m \<Longrightarrow> append_slots1 H seq k m = Inr (cows, m') \<Longrightarrow> v1_reach H it m'"
| fork: "v1_reach H it m \<Longrightarrow> sq_seq_id child \<notin> fst ` set (m1_block_tables m) \<Longrightarrow> fork1 parent child m = Inr m' \<Longrightarrow>
    v1_reach H it m'"
| swap_in: "v1_reach H it m \<Longrightarrow> on_device CPU SWAPPED g m \<Longrightarrow> can_swap_in1 g 0 m = Inr OK \<Longrightarrow>
    swap_in1 g m = Inr (pairs, m') \<Longrightarrow> v1_reach H it m'"
| swap_out: "v1_reach H it m \<Longrightarrow> on_device GPU RUNNING g m \<Longrightarrow> can_swap_out1 g m = Inr True \<Longrightarrow>
    swap_out1 g m = Inr (pairs, m') \<Longrightarrow> v1_reach H it m'"
| free: "v1_reach H it m \<Longrightarrow> free1 it seq m = Inr m' \<Longrightarrow> v1_reach H it m'"
| reset: "v1_reach H it m \<Longrightarrow> reset1 it m = Inr m' \<Longrightarrow> v1_reach H it m'"

lemma manager_v1_init_ok:
  assumes "manager_v1_init block_size num_gpu num_cpu watermark None False st = Inr m"
  shows "v1_ok m" "m1_cross_block_tables m = []"
proof -
  have m: "m1_enable_caching m = False" "m1_block_sliding_window m = None" "m1_block_tables m = []" "m1_cross_block_tables m = []"
    "m1_gpu m = Uncached (fst (uncached_init GPU num_gpu st))"
    "m1_cpu m = Uncached (fst (uncached_init CPU num_cpu (snd (uncached_init GPU num_gpu st))))"
    "m1_store m = snd (uncached_init CPU num_cpu (snd (uncached_init GPU num_gpu st)))"
    using assms by (auto simp: manager_v1_init_def case_prod_beta Let_def)
  have "\<exists>a. device_allocator1 dev m = Uncached a \<and> pool_ok dev a (m1_store m)" for dev
    by (cases dev) (auto simp: device_allocator1_def m pool_ok_def uncached_init_def phys_block_init_def distinct_map inj_on_def
        split_paired_all)
  moreover have "pb_ref_count (m1_store m b) = 0" if "valid_block m b" for b
    using that by (cases b; cases "fst b")
      (auto simp: valid_block_def device_allocator1_def m uncached_init_def phys_block_init_def)
  ultimately show "v1_ok m" by (simp add: v1_ok_def blocks_ok_def tables_def m)
  show "m1_cross_block_tables m = []" by (rule m(4))
qed

lemma reset1_run:
  assumes "v1_ok m" "m1_cross_block_tables m = []" "\<And>xs. mset (it xs) = mset xs"
  obtains m' where "reset1 it m = Inr m'" "v1_ok m'" "m1_block_tables m' = []" "m1_cross_block_tables m' = []"
    "\<And>dev. a1_get_num_total_blocks (device_allocator1 dev m') = a1_get_num_total_blocks (device_allocator1 dev m)"
proof -
  have "\<exists>m'. foldE (free_block_table it) ts m = Inr m' \<and> blocks_ok m' {#} \<and> same_tables m m'" if "blocks_ok m (mset ts)" for ts m
    using that
  proof (induction ts arbitrary: m)
    case (Cons t ts)
    have "blocks_ok m (add_mset t (mset ts))" using Cons.prems by simp
    from free_table [OF this assms(3)] obtain m1 where m1: "free_block_table it t m = Inr m1" "blocks_ok m1 (mset ts)"
      "same_tables m m1" by blast
    then show ?case using Cons.IH [OF m1(2)] by (auto intro: same_tables_trans)
  qed simp
  moreover have "blocks_ok m (mset (map snd (m1_block_tables m)))" using assms(1) by (simp add: v1_ok_def tables_def)
  ultimately obtain m1 where m1: "foldE (free_block_table it) (map snd (m1_block_tables m)) m = Inr m1" "blocks_ok m1 {#}"
    "same_tables m m1" by blast
  define m' where "m' = m1\<lparr>m1_block_tables := [], m1_cross_block_tables := []\<rparr>"
  have "blocks_ok m' {#}" using m1(2) by (rule blocks_ok_cong) (simp_all add: m'_def)
  then have "v1_ok m'" by (simp add: v1_ok_def tables_def m'_def)
  moreover have "reset1 it m = Inr m'" using m1 assms(2) by (simp add: reset1_def m'_def Let_def same_tables_def)
  moreover have "a1_get_num_total_blocks (device_allocator1 dev m') = a1_get_num_total_blocks (device_allocator1 dev m)" for dev
    using m1(3) by (simp add: m'_def same_tables_def)
  ultimately show thesis using that by (simp add: m'_def)
qed

text \<open>What the answers to the scheduler leave room for.\<close>

lemma can_swap_in1_room:
  assumes "can_swap_in1 g 0 m = Inr OK"
  obtains bs where "get_physical_blocks g m = Inr bs" "int (length bs) \<le> num_free GPU m"
  using assms by (fastforce simp: can_swap_in1_def device_allocator1_def Let_def split: if_splits)

lemma can_swap_out1_room:
  assumes "can_swap_out1 g m = Inr True"
  obtains bs where "get_physical_blocks g m = Inr bs" "int (length bs) \<le> num_free CPU m"
  using assms by (auto simp: can_swap_out1_def device_allocator1_def)

lemma v1_reach_ok:
  assumes "v1_reach H it m" "\<And>xs. mset (it xs) = mset xs"
  shows "v1_ok m \<and> m1_cross_block_tables m = []"
  using assms(1)
proof (induction rule: v1_reach.induct)
  case (init block_size num_gpu num_cpu watermark st m)
  then show ?case using manager_v1_init_ok by blast
next
  case (allocate m g m')
  then show ?case using allocate1_run by metis
next
  case (append m seq k cows m')
  then show ?case using append_slots1_run by metis
next
  case (fork m child parent m')
  then show ?case using fork1_run [of m child parent] by auto
next
  case (swap_in m g pairs m')
  then obtain bs where "get_physical_blocks g m = Inr bs" "int (length bs) \<le> num_free GPU m" by (blast elim: can_swap_in1_room)
  from swap_run [OF _ swap_in.hyps(2) _ _ this] swap_in show ?case by (auto simp: swap_in1_def status_is_finished_def)
next
  case (swap_out m g pairs m')
  then obtain bs where "get_physical_blocks g m = Inr bs" "int (length bs) \<le> num_free CPU m" by (blast elim: can_swap_out1_room)
  from swap_run [OF _ swap_out.hyps(2) _ _ this] swap_out show ?case by (auto simp: swap_out1_def status_is_finished_def)
next
  case (free m seq m')
  then show ?case using free1_run [of m it seq] assms(2) by auto
next
  case (reset m m')
  then have ok: "v1_ok m" "m1_cross_block_tables m = []" by simp_all
  obtain m1 where "reset1 it m = Inr m1" "v1_ok m1" "m1_cross_block_tables m1 = []" by (rule reset1_run [OF ok assms(2)])
  then show ?case using reset.hyps by simp
qed

section \<open>The account of the blocks\<close>

lemma uses_tables: "uses b (tables m) = length (filter (\<lambda>(i, t). b \<in> set t) (m1_block_tables m))"
proof -
  have "uses b (mset (map snd d)) = length (filter (\<lambda>(i, t). b \<in> set t) d)" for d :: "(nat \<times> block_ref list) list"
    by (induction d) auto
  then show ?thesis by (simp add: tables_def)
qed

lemma free_list_of_pool:
  assumes "blocks_ok m (tables m)"
  obtains a where "device_allocator1 dev m = Uncached a" "distinct (ua_free_blocks a)"
    "set (ua_free_blocks a) = {(dev, i) | i. i < ua_num_blocks a \<and> (\<forall>t \<in> snd ` set (m1_block_tables m). (dev, i) \<notin> set t)}"
proof -
  obtain a where a: "device_allocator1 dev m = Uncached a" "pool_ok dev a (m1_store m)" using blocks_ok_pool [OF assms] by blast
  have "pb_ref_count (m1_store m (dev, i)) = 0 \<longleftrightarrow> (\<forall>t \<in> snd ` set (m1_block_tables m). (dev, i) \<notin> set t)"
    if "i < ua_num_blocks a" for i
    using assms that a(1) uses_pos_iff [of "(dev, i)" "tables m"] by (simp add: blocks_ok_def valid_block_def tables_def)
  then have "set (ua_free_blocks a) = {(dev, i) | i. i < ua_num_blocks a \<and> (\<forall>t \<in> snd ` set (m1_block_tables m). (dev, i) \<notin> set t)}"
    using a(2) unfolding pool_ok_def by force
  then show thesis using that a by (simp add: pool_ok_def)
qed

lemma v1_account:
  assumes "v1_reach H it m" "\<And>xs. mset (it xs) = mset xs"
  shows "\<forall>dev. \<exists>a. device_allocator1 dev m = Uncached a \<and> distinct (ua_free_blocks a) \<and>
      set (ua_free_blocks a) = {(dev, i) | i. i < ua_num_blocks a \<and> (\<forall>t \<in> snd ` set (m1_block_tables m). (dev, i) \<notin> set t)} \<and>
      (\<forall>i < ua_num_blocks a. pb_ref_count (m1_store m (dev, i)) =
         length (filter (\<lambda>(j, t). (dev, i) \<in> set t) (m1_block_tables m)))"
    and "\<exists>m'. free1 it seq m = Inr m'"
    and "\<exists>m'. reset1 it m = Inr m' \<and> (\<forall>dev. a1_get_num_free_blocks (device_allocator1 dev m') =
      int (a1_get_num_total_blocks (device_allocator1 dev m)))"
proof -
  have ok: "v1_ok m" and cross: "m1_cross_block_tables m = []" using v1_reach_ok [OF assms] by auto
  have bo: "blocks_ok m (tables m)" using ok by (simp add: v1_ok_def)
  show "\<forall>dev. \<exists>a. device_allocator1 dev m = Uncached a \<and> distinct (ua_free_blocks a) \<and>
      set (ua_free_blocks a) = {(dev, i) | i. i < ua_num_blocks a \<and> (\<forall>t \<in> snd ` set (m1_block_tables m). (dev, i) \<notin> set t)} \<and>
      (\<forall>i < ua_num_blocks a. pb_ref_count (m1_store m (dev, i)) =
         length (filter (\<lambda>(j, t). (dev, i) \<in> set t) (m1_block_tables m)))"
  proof
    fix dev
    obtain a where a: "device_allocator1 dev m = Uncached a" "distinct (ua_free_blocks a)"
      "set (ua_free_blocks a) = {(dev, i) | i. i < ua_num_blocks a \<and> (\<forall>t \<in> snd ` set (m1_block_tables m). (dev, i) \<notin> set t)}"
      by (rule free_list_of_pool [OF bo])
    have "pb_ref_count (m1_store m (dev, i)) = length (filter (\<lambda>(j, t). (dev, i) \<in> set t) (m1_block_tables m))"
      if "i < ua_num_blocks a" for i
      using bo that a(1) unfolding uses_tables [symmetric] by (simp add: blocks_ok_def valid_block_def)
    with a show "\<exists>a. device_allocator1 dev m = Uncached a \<and> distinct (ua_free_blocks a) \<and>
      set (ua_free_blocks a) = {(dev, i) | i. i < ua_num_blocks a \<and> (\<forall>t \<in> snd ` set (m1_block_tables m). (dev, i) \<notin> set t)} \<and>
      (\<forall>i < ua_num_blocks a. pb_ref_count (m1_store m (dev, i)) =
         length (filter (\<lambda>(j, t). (dev, i) \<in> set t) (m1_block_tables m)))" by blast
  qed
  show "\<exists>m'. free1 it seq m = Inr m'" using free1_run [OF ok assms(2)] by blast
  obtain m' where m': "reset1 it m = Inr m'" "v1_ok m'" "m1_block_tables m' = []"
    "\<And>dev. a1_get_num_total_blocks (device_allocator1 dev m') = a1_get_num_total_blocks (device_allocator1 dev m)"
    by (rule reset1_run [OF ok cross assms(2)]) blast
  have "num_free dev m' = int (a1_get_num_total_blocks (device_allocator1 dev m))" for dev
  proof -
    have "blocks_ok m' (tables m')" using m'(2) by (simp add: v1_ok_def)
    from free_list_of_pool [OF this, of dev] obtain a where a: "device_allocator1 dev m' = Uncached a" "distinct (ua_free_blocks a)"
      "set (ua_free_blocks a) = {(dev, i) | i. i < ua_num_blocks a}" unfolding m'(3) by auto
    then have "set (ua_free_blocks a) = Pair dev ` {..<ua_num_blocks a}" by auto
    then have "length (ua_free_blocks a) = ua_num_blocks a"
      unfolding distinct_card [OF a(2), symmetric] by (simp add: card_image inj_on_def)
    then show ?thesis using a(1) m'(4) [of dev] by simp
  qed
  then show "\<exists>m'. reset1 it m = Inr m' \<and> (\<forall>dev. num_free dev m' = int (a1_get_num_total_blocks (device_allocator1 dev m)))"
    using m'(1) by blast
qed

section \<open>An example\<close>

text \<open>Two samples of a prompt of five tokens on five GPU and three CPU blocks; the first gets the token 9.\<close>

definition ex_v1_seq :: "nat \<Rightarrow> seq_status \<Rightarrow> sequence" where
  "ex_v1_seq i status = (ex_seq i [5, 6, 7, 8, 5])\<lparr>sq_status := status\<rparr>"

definition ex_v1_group :: "seq_status \<Rightarrow> seq_status \<Rightarrow> seq_group" where
  "ex_v1_group status status' = seq_group_init ''a'' [ex_v1_seq 0 status, ex_v1_seq 1 status'] 0 None None None 0"

definition ex_v1 :: "py_error + manager_v1" where
  "ex_v1 = manager_v1_init 4 5 3 0 None False (\<lambda>_. phys_block_init 0 0)"

definition ex_v1_steps :: "py_error + (manager_v1 \<times> manager_v1 \<times> manager_v1 \<times> manager_v1)" where
  "ex_v1_steps = bindE ex_v1 (\<lambda>m0. bindE (allocate1 (\<lambda>_. 0) (ex_v1_group WAITING WAITING) m0) (\<lambda>m1.
     bindE (append_slots1 (\<lambda>_. 0) (ex_v1_seq 0 RUNNING) 0 m1) (\<lambda>(_, m2).
     bindE (swap_out1 (ex_v1_group RUNNING RUNNING) m2) (\<lambda>(_, m3).
     Inr (m0, m1, m2, m3)))))"

definition v1_view :: "manager_v1 \<Rightarrow> (nat \<times> block_ref list) list \<times> int \<times> int" where
  "v1_view m = (m1_block_tables m, num_free GPU m, num_free CPU m)"

lemma ex_v1_runs: "map_sum id (\<lambda>(m0, m1, m2, m3). (map v1_view [m0, m1, m2, m3])) ex_v1_steps = Inr
  [([], 5, 3), ([(0, [(GPU, 4), (GPU, 3)]), (1, [(GPU, 4), (GPU, 3)])], 3, 3),
   ([(0, [(GPU, 4), (GPU, 2)]), (1, [(GPU, 4), (GPU, 3)])], 2, 3),
   ([(0, [(CPU, 2), (CPU, 1)]), (1, [(CPU, 2), (CPU, 0)])], 5, 0)]"
  by code_simp

lemma ex_v1_reached:
  obtains m0 m1 m2 m3 where "ex_v1_steps = Inr (m0, m1, m2, m3)"
    "v1_reach (\<lambda>_. 0) id m0" "fresh_waiting (ex_v1_group WAITING WAITING) m0" "allocate1 (\<lambda>_. 0) (ex_v1_group WAITING WAITING) m0 = Inr m1"
    "v1_reach (\<lambda>_. 0) id m1" "v1_reach (\<lambda>_. 0) id m2" "v1_reach (\<lambda>_. 0) id m3"
    "m1_block_tables m1 = [(0, [(GPU, 4), (GPU, 3)]), (1, [(GPU, 4), (GPU, 3)])]"
    "m1_block_tables m2 = [(0, [(GPU, 4), (GPU, 2)]), (1, [(GPU, 4), (GPU, 3)])]"
    "m1_block_tables m3 = [(0, [(CPU, 2), (CPU, 1)]), (1, [(CPU, 2), (CPU, 0)])]"
proof -
  have "\<not> isl ex_v1_steps" by code_simp
  then obtain m0 m1 m2 m3 where s: "ex_v1_steps = Inr (m0, m1, m2, m3)" by (metis not_isl surj_pair)
  have v: "m1_block_tables m0 = []" "m1_block_tables m1 = [(0, [(GPU, 4), (GPU, 3)]), (1, [(GPU, 4), (GPU, 3)])]"
    "m1_block_tables m2 = [(0, [(GPU, 4), (GPU, 2)]), (1, [(GPU, 4), (GPU, 3)])]"
    "m1_block_tables m3 = [(0, [(CPU, 2), (CPU, 1)]), (1, [(CPU, 2), (CPU, 0)])]"
    using ex_v1_runs by (simp_all add: s v1_view_def)
  obtain cows pairs where e: "ex_v1 = Inr m0" "allocate1 (\<lambda>_. 0) (ex_v1_group WAITING WAITING) m0 = Inr m1"
    "append_slots1 (\<lambda>_. 0) (ex_v1_seq 0 RUNNING) 0 m1 = Inr (cows, m2)" "swap_out1 (ex_v1_group RUNNING RUNNING) m2 = Inr (pairs, m3)"
    using s by (auto simp: ex_v1_steps_def)
  have w: "sg_get_seqs (Some WAITING) (ex_v1_group WAITING WAITING) = [ex_v1_seq 0 WAITING, ex_v1_seq 1 WAITING]"
    "num_seqs None (ex_v1_group WAITING WAITING) = 2" "\<not> is_encoder_decoder (ex_v1_group WAITING WAITING)"
    "sg_get_seqs (Some RUNNING) (ex_v1_group RUNNING RUNNING) = [ex_v1_seq 0 RUNNING, ex_v1_seq 1 RUNNING]"
    "\<not> is_encoder_decoder (ex_v1_group RUNNING RUNNING)" by code_simp+
  have i: "sq_seq_id (ex_v1_seq k st) = k" for k st by (simp add: ex_v1_seq_def ex_seq_def)
  have r0: "v1_reach (\<lambda>_. 0) id m0" by (rule v1_reach.init [OF e(1) [unfolded ex_v1_def]])
  have f: "fresh_waiting (ex_v1_group WAITING WAITING) m0" by (simp add: fresh_waiting_def w i v(1))
  note r1 = v1_reach.allocate [OF r0 f e(2)]
  note r2 = v1_reach.append [OF r1 e(3)]
  have d: "on_device GPU RUNNING (ex_v1_group RUNNING RUNNING) m2" by (simp add: on_device_def w i v(3))
  have "map_sum id (\<lambda>(m0, m1, m2, m3). can_swap_out1 (ex_v1_group RUNNING RUNNING) m2) ex_v1_steps = Inr (Inr True)" by code_simp
  then have c: "can_swap_out1 (ex_v1_group RUNNING RUNNING) m2 = Inr True" by (simp add: s)
  note r3 = v1_reach.swap_out [OF r2 d c e(4)]
  show thesis by (rule that [OF s r0 f e(2) r1 r2 r3 v(2-4)])
qed

section \<open>The theorems\<close>



section \<open>What the scheduler is promised\<close>

lemma append_slots_loop_succeeds:
  assumes "v1_ok m" "distinct (map sq_seq_id seqs)" "\<forall>s \<in> set seqs. can_grow s m" "int (length seqs) \<le> num_free GPU m"
  shows "\<exists>r. append_slots_loop (manager_v1_ops H it) 0 seqs cows m = Inr r"
  using assms
proof (induction seqs arbitrary: cows m)
  case (Cons s seqs)
  have s: "can_grow s m" "0 < num_free GPU m" using Cons.prems(3,4) by auto
  obtain c m1 where a: "append_slots1 H s 0 m = Inr (c, m1)" using append_slots1_succeeds [OF Cons.prems(1) s] by force
  from append_slots1_run [OF Cons.prems(1) a] obtain t' where r: "v1_ok m1" "num_free GPU m - 1 \<le> num_free GPU m1"
    "m1_block_tables m1 = dict_set (sq_seq_id s) t' (m1_block_tables m)" by blast
  have "\<forall>z \<in> set seqs. can_grow z m1"
    using Cons.prems(2,3) by (auto simp: can_grow_def r(3) image_iff)
  moreover have "int (length seqs) \<le> num_free GPU m1" using Cons.prems(4) r(2) by simp
  ultimately have "\<exists>r. append_slots_loop (manager_v1_ops H it) 0 seqs (cows @ c) m1 = Inr r"
    using Cons.IH [OF r(1)] Cons.prems(2) by simp
  then show ?case by (simp add: manager_v1_ops_def a)
qed simp

lemma num_seqs_length: "num_seqs status g = length (sg_get_seqs status g)"
  by (auto simp: num_seqs_def sg_get_seqs_def split: option.splits dest: single_seq)



text \<open>
  How a swap changes the tables: the blocks of the tables of the sequences \<open>seqs\<close> are renamed by one injective
  map onto blocks of \<open>dst\<close>, all other tables stay, and \<open>pairs\<close>, the pairs handed to the worker, are the map.
\<close>

definition renames_tables ::
  "device \<Rightarrow> sequence list \<Rightarrow> manager_v1 \<Rightarrow> (nat \<times> nat) list \<Rightarrow> manager_v1 \<Rightarrow> bool" where
  "renames_tables dst seqs m pairs m' \<longleftrightarrow> (\<exists>mapping. pairs = map (\<lambda>(x, y). (snd x, snd y)) mapping \<and>
     inj_on (map_of mapping) (dom (map_of mapping)) \<and>
     (\<forall>i. i \<notin> sq_seq_id ` set seqs \<longrightarrow> map_of (m1_block_tables m') i = map_of (m1_block_tables m) i) \<and>
     (\<forall>s \<in> set seqs. \<exists>t'. map_of (m1_block_tables m') (sq_seq_id s) = Some t' \<and>
        (\<forall>b \<in> set t'. fst b = dst) \<and> map Some t' = map (map_of mapping) (the (map_of (m1_block_tables m) (sq_seq_id s)))))"

text \<open>
  C22. Swapping keeps what the sequences of a group share, in either direction: the blocks of their tables are
  renamed by one injective map onto blocks of the other device, the tables of all other sequences stay, and the
  pairs handed to the worker are the map. The manager has said that the group can be swapped, its tables lie on
  the one device, and the state is one of \<open>v1_reach\<close>.
\<close>

theorem v1_swap_keeps_sharing:
  assumes "v1_reach H it m" "\<And>xs. mset (it xs) = mset xs"
  shows "(on_device CPU SWAPPED g m \<and> can_swap_in1 g 0 m = Inr OK \<longrightarrow>
      (\<exists>pairs m'. swap_in1 g m = Inr (pairs, m') \<and> renames_tables GPU (sg_get_seqs (Some SWAPPED) g) m pairs m')) \<and>
    (on_device GPU RUNNING g m \<and> can_swap_out1 g m = Inr True \<longrightarrow>
      (\<exists>pairs m'. swap_out1 g m = Inr (pairs, m') \<and> renames_tables CPU (sg_get_seqs (Some RUNNING) g) m pairs m'))"
proof (intro conjI impI)
  have ok: "v1_ok m" using v1_reach_ok [OF assms(1,2)] by blast
  show "\<exists>pairs m'. swap_in1 g m = Inr (pairs, m') \<and> renames_tables GPU (sg_get_seqs (Some SWAPPED) g) m pairs m'"
    if a: "on_device CPU SWAPPED g m \<and> can_swap_in1 g 0 m = Inr OK"
  proof -
    from a obtain bs where "get_physical_blocks g m = Inr bs" "int (length bs) \<le> num_free GPU m"
      by (metis can_swap_in1_room)
    from swap_run [OF ok conjunct1 [OF a] _ _ this] show ?thesis
      unfolding swap_in1_def status_is_finished_def renames_tables_def by simp blast
  qed
  show "\<exists>pairs m'. swap_out1 g m = Inr (pairs, m') \<and> renames_tables CPU (sg_get_seqs (Some RUNNING) g) m pairs m'"
    if a: "on_device GPU RUNNING g m \<and> can_swap_out1 g m = Inr True"
  proof -
    from a obtain bs where "get_physical_blocks g m = Inr bs" "int (length bs) \<le> num_free CPU m"
      by (metis can_swap_out1_room)
    from swap_run [OF ok conjunct1 [OF a] _ _ this] show ?thesis
      unfolding swap_out1_def status_is_finished_def renames_tables_def by simp blast
  qed
qed

theorem v1_swap_keeps_sharing_witness:
  "\<exists>m0 m1 m2 m3. ex_v1_steps = Inr (m0, m1, m2, m3) \<and>
     (\<exists>ps m' t t'. swap_in1 (ex_v1_group SWAPPED SWAPPED) m3 = Inr (ps, m') \<and>
       map_of (m1_block_tables m') 0 = Some t \<and> map_of (m1_block_tables m') 1 = Some t' \<and> hd t = hd t' \<and> t ! 1 \<noteq> t' ! 1) \<and>
     (\<exists>ps m'. swap_out1 (ex_v1_group RUNNING RUNNING) m2 = Inr (ps, m') \<and>
       renames_tables CPU [ex_v1_seq 0 RUNNING, ex_v1_seq 1 RUNNING] m2 ps m')"
proof -
  obtain m0 m1 m2 m3 where s: "ex_v1_steps = Inr (m0, m1, m2, m3)" "v1_reach (\<lambda>_. 0) id m2" "v1_reach (\<lambda>_. 0) id m3"
    "m1_block_tables m2 = [(0, [(GPU, 4), (GPU, 2)]), (1, [(GPU, 4), (GPU, 3)])]"
    "m1_block_tables m3 = [(0, [(CPU, 2), (CPU, 1)]), (1, [(CPU, 2), (CPU, 0)])]" by (rule ex_v1_reached) blast
  let ?g = "ex_v1_group SWAPPED SWAPPED" and ?r = "ex_v1_group RUNNING RUNNING"
  have p: "mset (id xs) = mset xs" for xs :: "block_ref list" by simp
  have w: "sg_get_seqs (Some SWAPPED) ?g = [ex_v1_seq 0 SWAPPED, ex_v1_seq 1 SWAPPED]" "\<not> is_encoder_decoder ?g"
    "sg_get_seqs (Some RUNNING) ?r = [ex_v1_seq 0 RUNNING, ex_v1_seq 1 RUNNING]" "\<not> is_encoder_decoder ?r" by code_simp+
  have i: "sq_seq_id (ex_v1_seq k st) = k" for k st by (simp add: ex_v1_seq_def ex_seq_def)
  have d: "on_device CPU SWAPPED ?g m3" "on_device GPU RUNNING ?r m2" by (simp_all add: on_device_def w i s(4,5))
  have "map_sum id (\<lambda>(m0, m1, m2, m3). (can_swap_in1 (ex_v1_group SWAPPED SWAPPED) 0 m3, can_swap_out1 (ex_v1_group RUNNING RUNNING) m2))
      ex_v1_steps = Inr (Inr OK, Inr True)" by code_simp
  then have c: "can_swap_in1 ?g 0 m3 = Inr OK" "can_swap_out1 ?r m2 = Inr True" by (simp_all add: s(1))
  obtain ps' m'' where out: "swap_out1 ?r m2 = Inr (ps', m'')"
    "renames_tables CPU [ex_v1_seq 0 RUNNING, ex_v1_seq 1 RUNNING] m2 ps' m''"
    using conjunct2 [OF v1_swap_keeps_sharing [OF s(2) p, of ?r]] d(2) c(2) unfolding w(3) by blast
  obtain ps m' where r0: "swap_in1 ?g m3 = Inr (ps, m')" "renames_tables GPU [ex_v1_seq 0 SWAPPED, ex_v1_seq 1 SWAPPED] m3 ps m'"
    using conjunct1 [OF v1_swap_keeps_sharing [OF s(3) p, of ?g]] d(1) c(1) unfolding w(1) by blast
  then obtain f where r: "inj_on f (dom f)" "\<forall>q \<in> {ex_v1_seq 0 SWAPPED, ex_v1_seq 1 SWAPPED}.
      \<exists>t'. map_of (m1_block_tables m') (sq_seq_id q) = Some t' \<and>
       (\<forall>b \<in> set t'. fst b = GPU) \<and> map Some t' = map f (the (map_of (m1_block_tables m3) (sq_seq_id q)))"
    unfolding renames_tables_def by auto
  obtain t t' where t: "map_of (m1_block_tables m') 0 = Some t" "map Some t = [f (CPU, 2), f (CPU, 1)]"
    "map_of (m1_block_tables m') 1 = Some t'" "map Some t' = [f (CPU, 2), f (CPU, 0)]"
    using r(2) by (auto simp: i s(5))
  obtain x x' y z where xyz: "t = [x, y]" "t' = [x', z]" "Some x = f (CPU, 2)" "Some x' = f (CPU, 2)"
    "Some y = f (CPU, 1)" "Some z = f (CPU, 0)"
    using t(2,4) unfolding map_eq_Cons_conv by auto
  have "y \<noteq> z" using r(1) xyz(5,6) by (metis Pair_inject domIff inj_on_eq_iff option.distinct(1) zero_neq_one)
  moreover have "x = x'" using xyz(3,4) by (metis option.inject)
  ultimately have "hd t = hd t'" "t ! 1 \<noteq> t' ! 1" by (simp_all add: xyz(1,2))
  then show ?thesis using s(1) r0(1) t(1,3) out by blast
qed

section \<open>Outside of these promises\<close>

text \<open>
  A group of which one sequence has finished, preempted by recomputation: \<open>allocate\<close> gives the new blocks a
  reference for it too, so freeing the waiting sequence leaves them taken.
\<close>

lemma allocate_counts_finished_sequences:
  "map_sum id v1_view (bindE ex_v1 (\<lambda>m. bindE (allocate1 (\<lambda>_. 0) (ex_v1_group FINISHED_STOPPED WAITING) m) (\<lambda>m.
     free1 id (ex_v1_seq 1 RUNNING) m))) = Inr ([], 3, 3)"
  by code_simp

text \<open>
  With a sliding window of one block the second block of a table is the first again; swapping it out frees the
  block twice.
\<close>

lemma swap_with_window_frees_twice:
  "map_sum id (\<lambda>_. ()) (bindE (manager_v1_init 4 4 3 0 (Some 4) False (\<lambda>_. phys_block_init 0 0)) (\<lambda>m.
     bindE (allocate1 (\<lambda>_. 0) (seq_group_init ''a'' [ex_v1_seq 0 WAITING] 0 None None None 0) m)
       (swap_out1 (seq_group_init ''a'' [ex_v1_seq 0 RUNNING] 0 None None None 0)))) = Inl ValueError"
  by code_simp

end
