(* ===== verification/Prefix_Caching.thy ===== *)
theory Prefix_Caching
  imports Naive_Block Evictor
begin

text \<open>
  \<open>vllm/core/block/prefix_caching_block.py\<close>: \<open>PrefixCachingBlock\<close> and \<open>PrefixCachingBlockAllocator\<close>. A
  block is a \<open>NaiveBlock\<close> with more fields. The pool and the reference counter, which the allocator shares
  with its \<open>NaiveBlockAllocator\<close>, stand in the latter. \<open>HB\<close> is Python's \<open>hash\<close> of the tuple that
  \<open>hash_block_tokens\<close> builds; \<open>depth\<close> bounds the recursion over the chain of blocks.
\<close>

section \<open>PrefixCachingBlock\<close>

record pc_block = nblock +
  xb_cached_content_hash :: "int option"
  xb_num_tokens_total :: nat
  xb_last_accessed :: real
  xb_computed :: bool

type_synonym block_hash = "bool \<Rightarrow> int option \<Rightarrow> token_id list \<Rightarrow> int"

definition default_last_accessed :: real where
  "default_last_accessed = - 1"

definition update_num_tokens_total :: "pc_block store \<Rightarrow> pc_block \<Rightarrow> pc_block" where
  "update_num_tokens_total h b =
     b\<lparr>xb_num_tokens_total :=
         (case nb_prev_block b of None \<Rightarrow> 0 | Some p \<Rightarrow> xb_num_tokens_total (h p)) + length (nb_token_ids b)\<rparr>"

definition pc_block_init :: "pc_block factory" where
  "pc_block_init h prev_block token_ids block_size block_id =
     bindE (append_token_ids_no_cow
       \<lparr>nb_token_ids = [], nb_block_size = block_size, nb_prev_block = prev_block, nb_block_id = block_id, nb_pool_id = 0,
        xb_cached_content_hash = None, xb_num_tokens_total = 0, xb_last_accessed = default_last_accessed,
        xb_computed = False\<rparr> token_ids) (\<lambda>b.
     Inr (update_num_tokens_total h b))"

text \<open>The property stores the hash in the block, and in the blocks before it.\<close>

fun content_hash :: "block_hash \<Rightarrow> nat \<Rightarrow> pc_block store \<Rightarrow> bref \<Rightarrow> py_error + (int option \<times> pc_block store)" where
  "content_hash HB 0 h block = Inl RecursionError"
| "content_hash HB (Suc depth) h block =
     (case xb_cached_content_hash (h block) of
        Some k \<Rightarrow> Inr (Some k, h)
      | None \<Rightarrow>
          if \<not> is_full (h block) then Inr (None, h)
          else let is_first_block = nb_prev_block (h block) = None in
            bindE (case nb_prev_block (h block) of None \<Rightarrow> Inr (None, h) | Some p \<Rightarrow> content_hash HB depth h p)
              (\<lambda>(prev_block_hash, h).
            if prev_block_hash = None \<and> \<not> is_first_block then Inr (None, h)
            else let k = HB is_first_block prev_block_hash (nb_token_ids (h block))
                 in Inr (Some k, h(block := (h block)\<lparr>xb_cached_content_hash := Some k\<rparr>))))"

section \<open>PrefixCachingBlockAllocator\<close>

record block_tracker =
  tr_active :: bool
  tr_last_accessed :: real
  tr_computed :: bool

record pc_allocator =
  pa_block_size :: nat
  pa_cached_blocks :: "int \<rightharpoonup> block_id"
  pa_touched_blocks :: "block_id set"
  pa_block_tracker :: "block_id \<rightharpoonup> block_tracker"
  pa_hashless_allocator :: naive_allocator
  pa_evictor :: evictor
  pa_cow_tracker :: cow_tracker
  pa_metric_data :: cache_metric

definition pc_allocator_init ::
  "nat \<Rightarrow> nat \<Rightarrow> nat \<Rightarrow> block_id list \<Rightarrow> pc_block store \<Rightarrow> py_error + (pc_block store \<times> pc_allocator)" where
  "pc_allocator_init tag num_blocks block_size block_ids h =
     bindE (block_pool_init pc_block_init tag block_size (num_blocks * 4) h) (\<lambda>(h, p).
     bindE (naive_allocator_init pc_block_init tag num_blocks block_size block_ids (Some p) h) (\<lambda>(h, n).
     Inr (h, \<lparr>pa_block_size = block_size, pa_cached_blocks = (\<lambda>_. None), pa_touched_blocks = {},
              pa_block_tracker = (\<lambda>b. if b \<in> set block_ids
                then Some \<lparr>tr_active = False, tr_last_accessed = default_last_accessed, tr_computed = False\<rparr> else None),
              pa_hashless_allocator = n, pa_evictor = [], pa_cow_tracker = \<lparr>copy_on_writes = []\<rparr>,
              pa_metric_data = cache_metric_init 1000\<rparr>)))"

abbreviation pa_pool :: "pc_allocator \<Rightarrow> block_pool" where
  "pa_pool a \<equiv> na_block_pool (pa_hashless_allocator a)"

abbreviation pa_refcounter :: "pc_allocator \<Rightarrow> ref_counter" where
  "pa_refcounter a \<equiv> refcounter (pa_hashless_allocator a)"

definition put_pool :: "block_pool \<Rightarrow> pc_allocator \<Rightarrow> pc_allocator" where
  "put_pool p a = a\<lparr>pa_hashless_allocator := (pa_hashless_allocator a)\<lparr>na_block_pool := p\<rparr>\<rparr>"

definition put_refcounter :: "ref_counter \<Rightarrow> pc_allocator \<Rightarrow> pc_allocator" where
  "put_refcounter rc a = a\<lparr>pa_hashless_allocator := (pa_hashless_allocator a)\<lparr>refcounter := rc\<rparr>\<rparr>"

text \<open>\<open>_track_block_id\<close> and \<open>_untrack_block_id\<close>, with \<open>BlockTracker.enable\<close> and \<open>disable\<close>.\<close>

definition track_block_id :: "block_id \<Rightarrow> bool \<Rightarrow> pc_allocator \<Rightarrow> py_error + pc_allocator" where
  "track_block_id b computed a =
     bindE (from_option KeyError (pa_block_tracker a b)) (\<lambda>t.
     bindE (py_assert (\<not> tr_active t)) (\<lambda>_.
     Inr (a\<lparr>pa_block_tracker := (pa_block_tracker a)
              (b \<mapsto> \<lparr>tr_active = True, tr_last_accessed = default_last_accessed, tr_computed = computed\<rparr>)\<rparr>)))"

definition untrack_block_id :: "block_id \<Rightarrow> pc_allocator \<Rightarrow> py_error + pc_allocator" where
  "untrack_block_id b a =
     bindE (from_option KeyError (pa_block_tracker a b)) (\<lambda>t.
     bindE (py_assert (tr_active t)) (\<lambda>_.
     Inr (a\<lparr>pa_block_tracker := (pa_block_tracker a)
              (b \<mapsto> \<lparr>tr_active = False, tr_last_accessed = default_last_accessed, tr_computed = False\<rparr>)\<rparr>)))"

subsection \<open>Physical blocks\<close>

definition maybe_allocate_hashless_block_id ::
  "pc_block store \<Rightarrow> pc_allocator \<Rightarrow> py_error + (block_id option \<times> pc_block store \<times> pc_allocator)" where
  "maybe_allocate_hashless_block_id h a =
     (case naive_allocate_mutable_block pc_block_init h (pa_hashless_allocator a) None of
        Inl e \<Rightarrow> if e = NoFreeBlocksError then Inr (None, h, a) else Inl e
      | Inr (block, h, n) \<Rightarrow>
          bindE (from_option AssertionError (nb_block_id (h block))) (\<lambda>b.
          bindE (track_block_id b False
                   (put_pool (pool_free_block (na_block_pool n) (h block)) (a\<lparr>pa_hashless_allocator := n\<rparr>))) (\<lambda>a.
          Inr (Some b, h, a))))"

definition maybe_allocate_evicted_block_id :: "pc_allocator \<Rightarrow> py_error + (block_id option \<times> pc_allocator)" where
  "maybe_allocate_evicted_block_id a =
     (if ev_num_blocks (pa_evictor a) = 0 then Inr (None, a)
      else bindE (evict (pa_evictor a)) (\<lambda>(b, content_hash_to_evict, ev).
           bindE (from_option AssertionError (pa_cached_blocks a content_hash_to_evict)) (\<lambda>b'.
           bindE (rc_get (pa_refcounter a) b') (\<lambda>n.
           bindE (py_assert (n = 0)) (\<lambda>_.
           bindE (py_assert (b' = b)) (\<lambda>_.
           bindE (rc_incr (pa_refcounter a) b) (\<lambda>(_, rc).
           bindE (track_block_id b False (put_refcounter rc
                    (a\<lparr>pa_evictor := ev, pa_cached_blocks := (pa_cached_blocks a)(content_hash_to_evict := None)\<rparr>))) (\<lambda>a.
           Inr (Some b, a)))))))))"

definition pc_allocate_block_id :: "pc_block store \<Rightarrow> pc_allocator \<Rightarrow> py_error + (block_id \<times> pc_block store \<times> pc_allocator)" where
  "pc_allocate_block_id h a =
     bindE (maybe_allocate_hashless_block_id h a) (\<lambda>(hashless, h, a).
     case hashless of
       Some b \<Rightarrow> Inr (b, h, a)
     | None \<Rightarrow> bindE (maybe_allocate_evicted_block_id a) (\<lambda>(evicted, a).
               case evicted of Some b \<Rightarrow> Inr (b, h, a) | None \<Rightarrow> Inl NoFreeBlocksError))"

definition incr_refcount_cached_block ::
  "pc_block store \<Rightarrow> pc_allocator \<Rightarrow> bref \<Rightarrow> py_error + (pc_block store \<times> pc_allocator)" where
  "incr_refcount_cached_block h a block =
     (let h = h(block := (h block)\<lparr>xb_computed := True\<rparr>) in
      bindE (from_option AssertionError (nb_block_id (h block))) (\<lambda>b.
      bindE (rc_incr (pa_refcounter a) b) (\<lambda>(refcount, rc).
      let a = put_refcounter rc a in
      bindE (if refcount = 1
             then bindE (if ev_contains (pa_evictor a) b
                         then bindE (ev_remove b (pa_evictor a)) (\<lambda>ev. Inr (a\<lparr>pa_evictor := ev\<rparr>)) else Inr a) (\<lambda>a.
                  track_block_id b True a)
             else Inr a) (\<lambda>a. Inr (h, a)))))"

text \<open>\<open>k\<close> is the content hash of the block, which the caller has just read.\<close>

definition decr_refcount_cached_block ::
  "int \<Rightarrow> pc_block store \<Rightarrow> pc_allocator \<Rightarrow> bref \<Rightarrow> py_error + (pc_block store \<times> pc_allocator)" where
  "decr_refcount_cached_block k h a block =
     bindE (from_option AssertionError (nb_block_id (h block))) (\<lambda>b.
     bindE (rc_decr (pa_refcounter a) b) (\<lambda>(refcount, rc).
     let a = put_refcounter rc a in
     if refcount > 0 then Inr (set_block_id h block None, a)
     else bindE (py_assert (refcount = 0)) (\<lambda>_.
          bindE (py_assert (pa_cached_blocks a k \<noteq> None)) (\<lambda>_.
          bindE (from_option KeyError (pa_block_tracker a b)) (\<lambda>t.
          bindE (untrack_block_id b
                   (a\<lparr>pa_evictor := ev_add b k (xb_num_tokens_total (h block)) (tr_last_accessed t) (pa_evictor a)\<rparr>)) (\<lambda>a.
          Inr (set_block_id h block None, a)))))))"

definition decr_refcount_hashless_block ::
  "pc_block store \<Rightarrow> pc_allocator \<Rightarrow> bref \<Rightarrow> py_error + (pc_block store \<times> pc_allocator)" where
  "decr_refcount_hashless_block h a block =
     bindE (from_option AssertionError (nb_block_id (h block))) (\<lambda>b.
     bindE (rc_get (pa_refcounter a) b) (\<lambda>refcount.
     bindE (if refcount = 1 then untrack_block_id b a else Inr a) (\<lambda>a.
     bindE (naive_free h (pa_hashless_allocator a) block True) (\<lambda>(h, n).
     Inr (h, a\<lparr>pa_hashless_allocator := n\<rparr>)))))"

definition pc_free_block_id ::
  "block_hash \<Rightarrow> nat \<Rightarrow> pc_block store \<Rightarrow> pc_allocator \<Rightarrow> bref \<Rightarrow> py_error + (pc_block store \<times> pc_allocator)" where
  "pc_free_block_id HB depth h a block =
     bindE (py_assert (nb_block_id (h block) \<noteq> None)) (\<lambda>_.
     bindE (content_hash HB depth h block) (\<lambda>(k, h).
     bindE (case k of Some k \<Rightarrow> decr_refcount_cached_block k h a block
                    | None \<Rightarrow> decr_refcount_hashless_block h a block) (\<lambda>(h, a).
     bindE (py_assert (nb_block_id (h block) = None)) (\<lambda>_. Inr (h, a)))))"

definition pc_free ::
  "block_hash \<Rightarrow> nat \<Rightarrow> pc_block store \<Rightarrow> pc_allocator \<Rightarrow> bref \<Rightarrow> bool \<Rightarrow> py_error + (pc_block store \<times> pc_allocator)" where
  "pc_free HB depth h a block keep_block_object =
     bindE (pc_free_block_id HB depth h a block) (\<lambda>(h, a).
     Inr (h, if keep_block_object then a else put_pool (pool_free_block (pa_pool a) (h block)) a))"

subsection \<open>Allocation\<close>

definition pc_allocate_mutable_block ::
  "block_hash \<Rightarrow> nat \<Rightarrow> pc_block store \<Rightarrow> pc_allocator \<Rightarrow> bref option \<Rightarrow>
     py_error + (bref \<times> pc_block store \<times> pc_allocator)" where
  "pc_allocate_mutable_block HB depth h a prev_block =
     bindE (pc_allocate_block_id h a) (\<lambda>(b, h, a).
     bindE (init_block pc_block_init h (pa_pool a) prev_block [] (pa_block_size a) (Some b)) (\<lambda>(block, h, p).
     bindE (py_assert (\<not> xb_computed (h block))) (\<lambda>_.
     bindE (content_hash HB depth h block) (\<lambda>(k, h).
     bindE (py_assert (k = None)) (\<lambda>_.
     Inr (block, h, put_pool p a))))))"

text \<open>The argument is the \<open>NaiveBlock\<close> inside of \<open>block\<close>, whose content hash is \<open>None\<close>.\<close>

definition pc_cow_block_if_not_appendable ::
  "pc_block store \<Rightarrow> pc_allocator \<Rightarrow> bref \<Rightarrow> py_error + (block_id \<times> pc_block store \<times> pc_allocator)" where
  "pc_cow_block_if_not_appendable h a block =
     bindE (from_option AssertionError (nb_block_id (h block))) (\<lambda>src.
     bindE (is_appendable (pa_refcounter a) (h block)) (\<lambda>ok.
     if ok then Inr (src, h, a)
     else bindE (decr_refcount_hashless_block h a block) (\<lambda>(h, a).
          bindE (pc_allocate_block_id h a) (\<lambda>(trg, h, a).
          bindE (record_cow (pa_cow_tracker a) (Some src) (Some trg)) (\<lambda>t.
          Inr (trg, h, a\<lparr>pa_cow_tracker := t\<rparr>))))))"

definition promote_to_immutable_block ::
  "block_hash \<Rightarrow> nat \<Rightarrow> pc_block store \<Rightarrow> pc_allocator \<Rightarrow> bref \<Rightarrow>
     py_error + (block_id \<times> pc_block store \<times> pc_allocator)" where
  "promote_to_immutable_block HB depth h a block =
     bindE (content_hash HB depth h block) (\<lambda>(k, h).
     bindE (from_option AssertionError k) (\<lambda>k.
     bindE (from_option AssertionError (nb_block_id (h block))) (\<lambda>b.
     bindE (rc_get (pa_refcounter a) b) (\<lambda>n.
     bindE (py_assert (n > 0)) (\<lambda>_.
     case pa_cached_blocks a k of
       None \<Rightarrow> Inr (b, h, a\<lparr>pa_cached_blocks := (pa_cached_blocks a)(k \<mapsto> b),
                            pa_touched_blocks := insert b (pa_touched_blocks a)\<rparr>)
     | Some c \<Rightarrow>
         bindE (decr_refcount_hashless_block h a block) (\<lambda>(h, a).
         bindE (incr_refcount_cached_block (set_block_id h block (Some c)) a block) (\<lambda>(h, a).
         Inr (c, h, a))))))))"

definition pc_append_token_ids ::
  "block_hash \<Rightarrow> nat \<Rightarrow> pc_block store \<Rightarrow> pc_allocator \<Rightarrow> bref \<Rightarrow> token_id list \<Rightarrow>
     py_error + (pc_block store \<times> pc_allocator)" where
  "pc_append_token_ids HB depth h a block token_ids =
     bindE (content_hash HB depth h block) (\<lambda>(k, h).
     bindE (py_assert (k = None)) (\<lambda>_.
     bindE (py_assert (\<not> xb_computed (h block))) (\<lambda>_.
     if token_ids = [] then Inr (h, a)
     else bindE (append_token_ids_no_cow (h block) token_ids) (\<lambda>b.
          let h = h(block := b) in
          bindE (if nb_block_id (h block) = None then Inr (h, a)
                 else bindE (pc_cow_block_if_not_appendable h a block) (\<lambda>(i, h, a).
                      Inr (set_block_id h block (Some i), a))) (\<lambda>(h, a).
          let h = h(block := update_num_tokens_total h (h block)) in
          bindE (content_hash HB depth h block) (\<lambda>(k, h).
          if k = None then Inr (h, a)
          else bindE (promote_to_immutable_block HB depth h a block) (\<lambda>(i, h, a).
               Inr (set_block_id h block (Some i), a))))))))"

definition pc_allocate_immutable_block ::
  "block_hash \<Rightarrow> nat \<Rightarrow> pc_block store \<Rightarrow> pc_allocator \<Rightarrow> bref option \<Rightarrow> token_id list \<Rightarrow>
     py_error + (bref \<times> pc_block store \<times> pc_allocator)" where
  "pc_allocate_immutable_block HB depth h a prev_block token_ids =
     bindE (init_block pc_block_init h (pa_pool a) prev_block token_ids (pa_block_size a) None) (\<lambda>(block, h, p).
     let a = put_pool p a in
     bindE (content_hash HB depth h block) (\<lambda>(k, h).
     bindE (from_option AssertionError k) (\<lambda>k.
     case pa_cached_blocks a k of
       Some b \<Rightarrow>
         bindE (incr_refcount_cached_block (set_block_id h block (Some b))
                  (a\<lparr>pa_metric_data := cm_query True (pa_metric_data a)\<rparr>) block) (\<lambda>(h, a).
         Inr (block, h, a))
     | None \<Rightarrow>
         let a = put_pool (pool_free_block (pa_pool a) (h block)) (a\<lparr>pa_metric_data := cm_query False (pa_metric_data a)\<rparr>) in
         bindE (pc_allocate_mutable_block HB depth h a prev_block) (\<lambda>(block, h, a).
         bindE (pc_append_token_ids HB depth h a block token_ids) (\<lambda>(h, a).
         Inr (block, h, a))))))"

fun pc_allocate_immutable_blocks ::
  "block_hash \<Rightarrow> nat \<Rightarrow> pc_block store \<Rightarrow> pc_allocator \<Rightarrow> bref option \<Rightarrow> token_id list list \<Rightarrow>
     py_error + (bref list \<times> pc_block store \<times> pc_allocator)" where
  "pc_allocate_immutable_blocks HB depth h a prev_block [] = Inr ([], h, a)"
| "pc_allocate_immutable_blocks HB depth h a prev_block (token_ids # rest) =
     bindE (pc_allocate_immutable_block HB depth h a prev_block token_ids) (\<lambda>(block, h, a).
     bindE (pc_allocate_immutable_blocks HB depth h a (Some block) rest) (\<lambda>(blocks, h, a).
     Inr (block # blocks, h, a)))"

fun pc_fork_blocks ::
  "pc_block store \<Rightarrow> pc_allocator \<Rightarrow> bref option \<Rightarrow> bref list \<Rightarrow> py_error + (bref list \<times> pc_block store \<times> pc_allocator)" where
  "pc_fork_blocks h a prev_block [] = Inr ([], h, a)"
| "pc_fork_blocks h a prev_block (block # blocks) =
     bindE (from_option AssertionError (nb_block_id (h block))) (\<lambda>b.
     bindE (rc_incr (pa_refcounter a) b) (\<lambda>(refcount, rc).
     bindE (py_assert (refcount \<noteq> 1)) (\<lambda>_.
     bindE (init_block pc_block_init h (pa_pool a) prev_block (nb_token_ids (h block)) (pa_block_size a) (Some b))
       (\<lambda>(r, h, p).
     bindE (pc_fork_blocks h (put_pool p (put_refcounter rc a)) (Some r) blocks) (\<lambda>(rs, h, a).
     Inr (r # rs, h, a))))))"

definition pc_fork ::
  "nat \<Rightarrow> pc_block store \<Rightarrow> pc_allocator \<Rightarrow> bref \<Rightarrow> py_error + (bref list \<times> pc_block store \<times> pc_allocator)" where
  "pc_fork depth h a last_block =
     bindE (get_all_blocks_recursively depth h last_block) (\<lambda>source_blocks. pc_fork_blocks h a None source_blocks)"

subsection \<open>Swapping\<close>

definition pc_swap_out ::
  "block_hash \<Rightarrow> nat \<Rightarrow> pc_block store \<Rightarrow> pc_allocator \<Rightarrow> bref list \<Rightarrow> py_error + (pc_block store \<times> pc_allocator)" where
  "pc_swap_out HB depth h a blocks = foldE (\<lambda>r (h, a). pc_free_block_id HB depth h a r) blocks (h, a)"

definition pc_swap_in_block ::
  "block_hash \<Rightarrow> nat \<Rightarrow> bref \<Rightarrow> pc_block store \<times> pc_allocator \<Rightarrow> py_error + (pc_block store \<times> pc_allocator)" where
  "pc_swap_in_block HB depth block = (\<lambda>(h, a).
     bindE (if is_full (h block)
            then pc_allocate_immutable_block HB depth h a (nb_prev_block (h block)) (nb_token_ids (h block))
            else bindE (pc_allocate_mutable_block HB depth h a (nb_prev_block (h block))) (\<lambda>(tmp_block, h, a).
                 bindE (pc_append_token_ids HB depth h a tmp_block (nb_token_ids (h block))) (\<lambda>(h, a).
                 Inr (tmp_block, h, a)))) (\<lambda>(tmp_block, h, a).
     Inr (set_block_id h block (nb_block_id (h tmp_block)), put_pool (pool_free_block (pa_pool a) (h tmp_block)) a)))"

definition pc_swap_in ::
  "block_hash \<Rightarrow> nat \<Rightarrow> pc_block store \<Rightarrow> pc_allocator \<Rightarrow> bref list \<Rightarrow> py_error + (pc_block store \<times> pc_allocator)" where
  "pc_swap_in HB depth h a blocks = foldE (pc_swap_in_block HB depth) blocks (h, a)"

definition is_block_cached ::
  "block_hash \<Rightarrow> nat \<Rightarrow> pc_block store \<Rightarrow> pc_allocator \<Rightarrow> bref \<Rightarrow> py_error + (bool \<times> pc_block store)" where
  "is_block_cached HB depth h a block =
     bindE (content_hash HB depth h block) (\<lambda>(k, h).
     bindE (from_option AssertionError k) (\<lambda>k. Inr (pa_cached_blocks a k \<noteq> None, h)))"

text \<open>A full block counts unless its content is cached in a block that is referenced.\<close>

definition pc_get_num_full_blocks_touched ::
  "block_hash \<Rightarrow> nat \<Rightarrow> pc_block store \<Rightarrow> pc_allocator \<Rightarrow> bref list \<Rightarrow> py_error + (nat \<times> pc_block store)" where
  "pc_get_num_full_blocks_touched HB depth h a blocks =
     foldE (\<lambda>block (num_touched_blocks, h).
       if is_full (h block)
       then bindE (is_block_cached HB depth h a block) (\<lambda>(cached, h).
            bindE (content_hash HB depth h block) (\<lambda>(k, h).
            let touched = \<not> cached \<or> (case k of None \<Rightarrow> False
                  | Some k \<Rightarrow> ev_contains (pa_evictor a) (the (pa_cached_blocks a k)))
            in Inr (if touched then num_touched_blocks + 1 else num_touched_blocks, h)))
       else Inr (num_touched_blocks, h)) blocks (0, h)"

subsection \<open>Bookkeeping\<close>

definition pc_get_num_free_blocks :: "pc_allocator \<Rightarrow> nat" where
  "pc_get_num_free_blocks a = naive_get_num_free_blocks (pa_hashless_allocator a) + ev_num_blocks (pa_evictor a)"

definition pc_get_num_total_blocks :: "pc_allocator \<Rightarrow> nat" where
  "pc_get_num_total_blocks a = naive_get_num_total_blocks (pa_hashless_allocator a)"

definition pc_all_block_ids :: "pc_allocator \<Rightarrow> block_id set" where
  "pc_all_block_ids a = all_block_indices (pa_hashless_allocator a)"

definition pc_get_physical_block_id :: "pc_allocator \<Rightarrow> nat \<Rightarrow> py_error + nat" where
  "pc_get_physical_block_id a absolute_id = list_index (sorted_list_of_set (pc_all_block_ids a)) absolute_id"

definition pc_get_prefix_cache_hit_rate :: "pc_allocator \<Rightarrow> real" where
  "pc_get_prefix_cache_hit_rate a = get_hit_rate (pa_metric_data a)"

definition pc_clear_copy_on_writes :: "pc_allocator \<Rightarrow> (block_id \<times> block_id) list \<times> pc_allocator" where
  "pc_clear_copy_on_writes a = (let (cows, t) = clear_cows (pa_cow_tracker a) in (cows, a\<lparr>pa_cow_tracker := t\<rparr>))"

definition mark_block_as_accessed :: "real \<Rightarrow> block_id \<Rightarrow> pc_allocator \<Rightarrow> py_error + pc_allocator" where
  "mark_block_as_accessed now b a =
     bindE (from_option KeyError (pa_block_tracker a b)) (\<lambda>t.
     if tr_active t then Inr (a\<lparr>pa_block_tracker := (pa_block_tracker a)(b \<mapsto> t\<lparr>tr_last_accessed := now\<rparr>)\<rparr>)
     else if ev_contains (pa_evictor a) b
     then bindE (ev_update b now (pa_evictor a)) (\<lambda>ev. Inr (a\<lparr>pa_evictor := ev\<rparr>))
     else Inl ValueError)"

definition pc_mark_blocks_as_accessed :: "block_id list \<Rightarrow> real \<Rightarrow> pc_allocator \<Rightarrow> py_error + pc_allocator" where
  "pc_mark_blocks_as_accessed block_ids now a = foldE (mark_block_as_accessed now) block_ids a"

text \<open>All touched blocks are marked, whatever the argument. They all have a tracker.\<close>

definition pc_mark_blocks_as_computed :: "block_id list \<Rightarrow> pc_allocator \<Rightarrow> py_error + pc_allocator" where
  "pc_mark_blocks_as_computed block_ids a =
     bindE (raise_unless KeyError (\<forall>b \<in> pa_touched_blocks a. pa_block_tracker a b \<noteq> None)) (\<lambda>_.
     Inr (a\<lparr>pa_block_tracker := (\<lambda>b. if b \<in> pa_touched_blocks a
              then map_option (\<lambda>t. t\<lparr>tr_computed := True\<rparr>) (pa_block_tracker a b) else pa_block_tracker a b),
            pa_touched_blocks := {}\<rparr>))"

definition block_is_computed :: "pc_allocator \<Rightarrow> block_id \<Rightarrow> py_error + bool" where
  "block_is_computed a b =
     bindE (from_option KeyError (pa_block_tracker a b)) (\<lambda>t.
     Inr (if tr_active t then tr_computed t else ev_contains (pa_evictor a) b))"

definition pc_get_computed_block_ids ::
  "pc_allocator \<Rightarrow> block_id list \<Rightarrow> block_id list \<Rightarrow> bool \<Rightarrow> py_error + block_id list" where
  "pc_get_computed_block_ids a prev_computed_block_ids block_ids skip_last_block_id =
     (let prev_prefix_size = length prev_computed_block_ids;
          cur_size = int (length block_ids) - (if skip_last_block_id then 1 else 0) in
      bindE (py_assert (cur_size \<ge> 0)) (\<lambda>_.
      bindE (py_assert (int prev_prefix_size \<le> cur_size)) (\<lambda>_.
      foldE (\<lambda>b ret. bindE (block_is_computed a b) (\<lambda>computed. Inr (if computed then ret @ [b] else ret)))
        (drop prev_prefix_size (take (nat cur_size) block_ids)) prev_computed_block_ids)))"

definition pc_get_common_computed_block_ids :: "block_id list list \<Rightarrow> block_id list" where
  "pc_get_common_computed_block_ids computed_seq_block_ids =
     (if length computed_seq_block_ids = 1 then hd computed_seq_block_ids
      else common_prefixes (filter (\<lambda>ids. ids \<noteq> []) computed_seq_block_ids))"

end
