(* ===== verification/Prefix_Books.thy ===== *)
theory Prefix_Books
  imports Prefix_Caching
begin

text \<open>
  The books of the prefix caching allocator: each physical block is free, evictable or in use, and every
  cached hash names a block that is not free. \<open>u b\<close> is the number of references to the block \<open>b\<close>.
\<close>

definition books :: "pc_allocator \<Rightarrow> (block_id \<Rightarrow> nat) \<Rightarrow> bool" where
  "books a u \<longleftrightarrow>
     (let ids = pc_all_block_ids a; free = free_block_indices (pa_hashless_allocator a); ev = pa_evictor a in
      finite ids \<and> dom (refcounts (pa_refcounter a)) = ids \<and> dom (pa_block_tracker a) = ids \<and>
      (\<forall>b \<in> ids. refcounts (pa_refcounter a) b = Some (int (u b))) \<and>
      (\<forall>b t. pa_block_tracker a b = Some t \<longrightarrow> tr_active t = (0 < u b)) \<and>
      distinct free \<and> distinct (map fst ev) \<and> set free \<inter> fst ` set ev = {} \<and>
      (\<forall>b. b \<in> set free \<union> fst ` set ev \<longleftrightarrow> b \<in> ids \<and> u b = 0) \<and>
      (\<forall>k b. pa_cached_blocks a k = Some b \<longrightarrow> b \<in> ids \<and> b \<notin> set free) \<and>
      inj_on (pa_cached_blocks a) (dom (pa_cached_blocks a)) \<and>
      (\<forall>b m. (b, m) \<in> set ev \<longrightarrow> pa_cached_blocks a (md_content_hash m) = Some b))"

lemma booksI:
  assumes "finite (pc_all_block_ids a)" "dom (refcounts (pa_refcounter a)) = pc_all_block_ids a"
    "dom (pa_block_tracker a) = pc_all_block_ids a"
    "\<And>b. b \<in> pc_all_block_ids a \<Longrightarrow> refcounts (pa_refcounter a) b = Some (int (u b))"
    "\<And>b t. pa_block_tracker a b = Some t \<Longrightarrow> tr_active t = (0 < u b)"
    "distinct (free_block_indices (pa_hashless_allocator a))" "distinct (map fst (pa_evictor a))"
    "set (free_block_indices (pa_hashless_allocator a)) \<inter> fst ` set (pa_evictor a) = {}"
    "\<And>b. b \<in> set (free_block_indices (pa_hashless_allocator a)) \<union> fst ` set (pa_evictor a) \<longleftrightarrow>
       b \<in> pc_all_block_ids a \<and> u b = 0"
    "\<And>k b. pa_cached_blocks a k = Some b \<Longrightarrow> b \<in> pc_all_block_ids a \<and> b \<notin> set (free_block_indices (pa_hashless_allocator a))"
    "inj_on (pa_cached_blocks a) (dom (pa_cached_blocks a))"
    "\<And>b m. (b, m) \<in> set (pa_evictor a) \<Longrightarrow> pa_cached_blocks a (md_content_hash m) = Some b"
  shows "books a u"
  unfolding books_def Let_def using assms by (intro conjI) (blast | assumption)+

lemma booksD:
  assumes "books a u"
  shows "finite (pc_all_block_ids a)" "dom (refcounts (pa_refcounter a)) = pc_all_block_ids a"
    "dom (pa_block_tracker a) = pc_all_block_ids a"
    "\<And>b. b \<in> pc_all_block_ids a \<Longrightarrow> refcounts (pa_refcounter a) b = Some (int (u b))"
    "\<And>b t. pa_block_tracker a b = Some t \<Longrightarrow> tr_active t = (0 < u b)"
    "distinct (free_block_indices (pa_hashless_allocator a))" "distinct (map fst (pa_evictor a))"
    "set (free_block_indices (pa_hashless_allocator a)) \<inter> fst ` set (pa_evictor a) = {}"
    "\<And>b. b \<in> set (free_block_indices (pa_hashless_allocator a)) \<union> fst ` set (pa_evictor a) \<longleftrightarrow>
       b \<in> pc_all_block_ids a \<and> u b = 0"
    "\<And>k b. pa_cached_blocks a k = Some b \<Longrightarrow> b \<in> pc_all_block_ids a \<and> b \<notin> set (free_block_indices (pa_hashless_allocator a))"
    "inj_on (pa_cached_blocks a) (dom (pa_cached_blocks a))"
    "\<And>b m. (b, m) \<in> set (pa_evictor a) \<Longrightarrow> pa_cached_blocks a (md_content_hash m) = Some b"
  by (insert assms, unfold books_def Let_def, (elim conjE, (assumption | meson))+)

text \<open>The count of a block outside of the allocator does not matter, nor do the pool, the copies and the metric.\<close>

lemma books_cong:
  assumes "books a u" "\<And>b. b \<in> pc_all_block_ids a \<Longrightarrow> u' b = u b"
    "free_block_indices (pa_hashless_allocator a') = free_block_indices (pa_hashless_allocator a)"
    "pc_all_block_ids a' = pc_all_block_ids a" "pa_refcounter a' = pa_refcounter a"
    "pa_block_tracker a' = pa_block_tracker a" "pa_evictor a' = pa_evictor a" "pa_cached_blocks a' = pa_cached_blocks a"
  shows "books a' u'"
proof -
  note D = booksD [OF assms(1)]
  have "b \<in> pc_all_block_ids a" if "pa_block_tracker a b = Some t" for b t using D(3) that by blast
  then have tr: "tr_active t = (0 < u' b)" if "pa_block_tracker a b = Some t" for b t
    using D(5) [OF that] assms(2) that by simp
  have fr: "b \<in> set (free_block_indices (pa_hashless_allocator a)) \<union> fst ` set (pa_evictor a) \<longleftrightarrow>
       b \<in> pc_all_block_ids a \<and> u' b = 0" for b using D(9) [of b] assms(2) by auto
  show ?thesis by (rule booksI; unfold assms(3-8)) (use D assms(2) tr fr in auto)
qed

lemma cached_inj: "books a u \<Longrightarrow> pa_cached_blocks a k = Some b \<Longrightarrow> pa_cached_blocks a k' = Some b \<Longrightarrow> k = k'"
  using booksD(11) unfolding inj_on_def dom_def by fastforce

lemma books_count: "books a u \<Longrightarrow> refcounts (pa_refcounter a) b = Some n \<Longrightarrow> b \<in> pc_all_block_ids a \<and> n = int (u b)"
  using booksD(2,4) by fastforce

section \<open>The objects\<close>

interpretation pc: block_factory pc_block_init
proof
  fix h :: "pc_block store" and prev toks bs pid b
  show "pc_block_init h prev toks bs pid = Inr b \<Longrightarrow>
      nb_token_ids b = toks \<and> nb_block_size b = bs \<and> nb_prev_block b = prev \<and> nb_block_id b = pid"
    by (auto simp: pc_block_init_def append_token_ids_no_cow_Inr update_num_tokens_total_def)
  show "length toks \<le> bs \<Longrightarrow> \<exists>b. pc_block_init h prev toks bs pid = Inr b"
    by (simp add: pc_block_init_def append_token_ids_no_cow_def num_empty_slots_def)
qed

lemma pc_block_init_new:
  "pc_block_init h prev toks bs pid = Inr b \<Longrightarrow> xb_cached_content_hash b = None \<and> \<not> xb_computed b"
  by (auto simp: pc_block_init_def append_token_ids_no_cow_Inr update_num_tokens_total_def)

abbreviation pc_live :: "pc_allocator \<Rightarrow> bref set" where
  "pc_live a \<equiv> pool_live (pa_pool a)"

definition objs :: "pc_block store \<Rightarrow> pc_allocator \<Rightarrow> bool" where
  "objs h a \<longleftrightarrow> pool_inv (pa_pool a) \<and> (pc_all_block_ids a \<noteq> {} \<longrightarrow> 0 < pool_size (pa_pool a)) \<and>
     (\<forall>r \<in> pc_live a. nb_pool_id (h r) = ref_idx r)"

text \<open>What every step leaves alone.\<close>

definition same_ids :: "pc_allocator \<Rightarrow> pc_allocator \<Rightarrow> bool" where
  "same_ids a a' \<longleftrightarrow> pc_all_block_ids a' = pc_all_block_ids a \<and> pa_block_size a' = pa_block_size a \<and>
     na_block_size (pa_hashless_allocator a') = na_block_size (pa_hashless_allocator a) \<and>
     pool_tag (pa_pool a') = pool_tag (pa_pool a) \<and> pool_size (pa_pool a) \<le> pool_size (pa_pool a')"

lemma same_ids_refl [simp]: "same_ids a a"
  by (simp add: same_ids_def)

lemma same_ids_trans: "same_ids a b \<Longrightarrow> same_ids b c \<Longrightarrow> same_ids a c"
  by (simp add: same_ids_def)

lemma put_simps [simp]:
  "pa_hashless_allocator (put_pool p a) = (pa_hashless_allocator a)\<lparr>na_block_pool := p\<rparr>"
  "pa_hashless_allocator (put_refcounter rc a) = (pa_hashless_allocator a)\<lparr>refcounter := rc\<rparr>"
  "pa_cached_blocks (put_pool p a) = pa_cached_blocks a" "pa_cached_blocks (put_refcounter rc a) = pa_cached_blocks a"
  "pa_block_tracker (put_pool p a) = pa_block_tracker a" "pa_block_tracker (put_refcounter rc a) = pa_block_tracker a"
  "pa_evictor (put_pool p a) = pa_evictor a" "pa_evictor (put_refcounter rc a) = pa_evictor a"
  "pa_block_size (put_pool p a) = pa_block_size a" "pa_block_size (put_refcounter rc a) = pa_block_size a"
  "pa_cow_tracker (put_pool p a) = pa_cow_tracker a" "pa_cow_tracker (put_refcounter rc a) = pa_cow_tracker a"
  "pa_touched_blocks (put_pool p a) = pa_touched_blocks a" "pa_touched_blocks (put_refcounter rc a) = pa_touched_blocks a"
  by (simp_all add: put_pool_def put_refcounter_def)

lemma objs_cong:
  assumes "objs h a" "pa_pool a' = pa_pool a" "pc_all_block_ids a' = pc_all_block_ids a"
    "\<And>x. x \<in> pc_live a \<Longrightarrow> nb_pool_id (h' x) = nb_pool_id (h x)"
  shows "objs h' a'"
  using assms unfolding objs_def by simp

lemma init_block_objs:
  assumes "objs h a" "init_block pc_block_init h (pa_pool a) prev toks bs pid = Inr (r, h', p)"
  shows "objs h' (put_pool p a)" "same_ids a (put_pool p a)" "r \<notin> pc_live a" "pool_live p = insert r (pc_live a)"
    "\<And>x. x \<in> pc_live a \<Longrightarrow> h' x = h x" "nb_token_ids (h' r) = toks" "nb_block_size (h' r) = bs"
    "nb_prev_block (h' r) = prev" "nb_block_id (h' r) = pid" "xb_cached_content_hash (h' r) = None" "\<not> xb_computed (h' r)"
proof -
  have inv: "pool_inv (pa_pool a)" using assms(1) by (simp add: objs_def)
  note I = init_block_spec [OF inv assms(2)] and F = pc.init_block_fields [OF inv assms(2)]
  show "r \<notin> pc_live a" "pool_live p = insert r (pc_live a)" "\<And>x. x \<in> pc_live a \<Longrightarrow> h' x = h x"
    using I(2,3,6) by blast+
  show "nb_token_ids (h' r) = toks" "nb_block_size (h' r) = bs" "nb_prev_block (h' r) = prev" "nb_block_id (h' r) = pid"
    using F by blast+
  show "objs h' (put_pool p a)" using assms(1) I F(5) by (auto simp: objs_def pc_all_block_ids_def)
  show "same_ids a (put_pool p a)" using I by (simp add: same_ids_def pc_all_block_ids_def)
  obtain h0 blk where b: "pc_block_init h0 prev toks bs pid = Inr blk" "h' r = blk\<lparr>nb_pool_id := ref_idx r\<rparr>"
    using I(7) by blast
  from pc_block_init_new [OF b(1)] show "xb_cached_content_hash (h' r) = None" "\<not> xb_computed (h' r)"
    by (simp_all add: b(2))
qed

lemma free_object_objs:
  assumes "objs h a" "r \<in> pc_live a" "b = h r"
  shows "objs h (put_pool (pool_free_block (pa_pool a) b) a)" "same_ids a (put_pool (pool_free_block (pa_pool a) b) a)"
    "pc_live (put_pool (pool_free_block (pa_pool a) b) a) = pc_live a - {r}"
proof -
  have inv: "pool_inv (pa_pool a)" "nb_pool_id b = ref_idx r" using assms by (simp_all add: objs_def)
  note P = pool_free_block_spec [OF inv(1) assms(2) inv(2)]
  show "pc_live (put_pool (pool_free_block (pa_pool a) b) a) = pc_live a - {r}" using P(2) by simp
  have s: "pool_size (pool_free_block (pa_pool a) b) = pool_size (pa_pool a)" by (simp add: pool_free_block_def)
  show "objs h (put_pool (pool_free_block (pa_pool a) b) a)"
    using assms(1) P s by (auto simp: objs_def pc_all_block_ids_def)
  show "same_ids a (put_pool (pool_free_block (pa_pool a) b) a)"
    using P(3) s by (simp add: same_ids_def pc_all_block_ids_def)
qed

section \<open>Taking a physical block\<close>

lemma track_block_id_Inr:
  "track_block_id b c a = Inr a' \<longleftrightarrow> (\<exists>t. pa_block_tracker a b = Some t \<and> \<not> tr_active t \<and>
     a' = a\<lparr>pa_block_tracker := (pa_block_tracker a)
              (b \<mapsto> \<lparr>tr_active = True, tr_last_accessed = default_last_accessed, tr_computed = c\<rparr>)\<rparr>)"
  by (auto simp: track_block_id_def)

lemma untrack_block_id_Inr:
  "untrack_block_id b a = Inr a' \<longleftrightarrow> (\<exists>t. pa_block_tracker a b = Some t \<and> tr_active t \<and>
     a' = a\<lparr>pa_block_tracker := (pa_block_tracker a)
              (b \<mapsto> \<lparr>tr_active = False, tr_last_accessed = default_last_accessed, tr_computed = False\<rparr>)\<rparr>)"
  by (auto simp: untrack_block_id_def)

text \<open>The two ways to come by a block that nobody refers to.\<close>

definition took :: "pc_block store \<Rightarrow> pc_allocator \<Rightarrow> (block_id \<Rightarrow> nat) \<Rightarrow> block_id \<Rightarrow> pc_block store \<Rightarrow> pc_allocator \<Rightarrow> bool" where
  "took h a u b h' a' \<longleftrightarrow> books a' (u(b := 1)) \<and> u b = 0 \<and> b \<in> pc_all_block_ids a \<and> b \<notin> ran (pa_cached_blocks a') \<and>
     (\<forall>k c. c \<noteq> b \<longrightarrow> pa_cached_blocks a' k = Some c \<longleftrightarrow> pa_cached_blocks a k = Some c) \<and>
     same_ids a a' \<and> pc_live a' = pc_live a \<and> objs h' a' \<and> (\<forall>x \<in> pc_live a. h' x = h x) \<and>
     pa_cow_tracker a' = pa_cow_tracker a \<and> pc_get_num_free_blocks a = Suc (pc_get_num_free_blocks a')"

lemma hashless_taken:
  assumes "books a u" "objs h a" "maybe_allocate_hashless_block_id h a = Inr (Some b, h', a')"
  shows "took h a u b h' a'"
proof -
  note D = booksD [OF assms(1)]
  let ?n = "pa_hashless_allocator a"
  obtain r n2 where mu: "naive_allocate_mutable_block pc_block_init h ?n None = Inr (r, h', n2)" "nb_block_id (h' r) = Some b"
    and tr: "track_block_id b False (put_pool (pool_free_block (na_block_pool n2) (h' r)) (a\<lparr>pa_hashless_allocator := n2\<rparr>)) = Inr a'"
    using assms(3) by (auto simp: maybe_allocate_hashless_block_id_def split: sum.splits if_splits)
  obtain c n1 p where al: "allocate_block_id ?n = Inr (c, n1)"
    and ib: "init_block pc_block_init h (na_block_pool n1) None [] (na_block_size n1) (Some c) = Inr (r, h', p)"
    and n2: "n2 = n1\<lparr>na_block_pool := p\<rparr>"
    using mu(1) by (auto simp: naive_allocate_mutable_block_def)
  obtain bs m where fr: "free_block_indices ?n = c # bs" "refcounts (refcounter ?n) c = Some m"
    and n1: "n1 = ?n\<lparr>free_block_indices := bs, refcounter := (refcounter ?n)\<lparr>refcounts := (refcounts (refcounter ?n))(c \<mapsto> m + 1)\<rparr>\<rparr>"
    using al by (auto simp: allocate_block_id_Inr)
  have c: "c \<in> pc_all_block_ids a" "u c = 0" using D(9) [of c] fr(1) by auto
  then have m: "m = 0" using D(4) fr(2) by simp
  have ib': "init_block pc_block_init h (pa_pool a) None [] (na_block_size ?n) (Some c) = Inr (r, h', p)"
    using ib by (simp add: n1)
  note I = init_block_objs [OF assms(2) ib']
  have bc: "b = c" using mu(2) I(9) by simp
  define a1 where "a1 = put_pool p a"
  have live1: "r \<in> pc_live a1" using I(4) by (simp add: a1_def)
  note F = free_object_objs [OF I(1) [folded a1_def] live1 refl]
  define a2 where "a2 = put_pool (pool_free_block (pa_pool a1) (h' r)) a1"
  have a': "a' = a2\<lparr>pa_hashless_allocator := (pa_hashless_allocator a2)\<lparr>free_block_indices := bs,
      refcounter := (refcounter ?n)\<lparr>refcounts := (refcounts (refcounter ?n))(b \<mapsto> 1)\<rparr>\<rparr>,
      pa_block_tracker := (pa_block_tracker a)(b \<mapsto> \<lparr>tr_active = True, tr_last_accessed = default_last_accessed, tr_computed = False\<rparr>)\<rparr>"
    using tr by (auto simp: track_block_id_Inr n2 n1 a2_def a1_def put_pool_def m bc)
  have f: "free_block_indices (pa_hashless_allocator a') = bs" "pc_all_block_ids a' = pc_all_block_ids a"
    "refcounts (pa_refcounter a') = (refcounts (pa_refcounter a))(b \<mapsto> 1)" "pa_evictor a' = pa_evictor a"
    "pa_block_tracker a' = (pa_block_tracker a)(b \<mapsto> \<lparr>tr_active = True, tr_last_accessed = default_last_accessed, tr_computed = False\<rparr>)"
    "pa_cached_blocks a' = pa_cached_blocks a" "pa_pool a' = pa_pool a2"
    by (simp_all add: a' a2_def a1_def pc_all_block_ids_def)
  have ids2: "pc_all_block_ids a2 = pc_all_block_ids a" by (simp add: a2_def a1_def pc_all_block_ids_def)
  have nb: "b \<notin> ran (pa_cached_blocks a)" using D(10) fr(1) unfolding bc ran_def by fastforce
  have "books a' (u(b := 1))"
  proof (rule booksI; unfold f)
    show "dom ((refcounts (pa_refcounter a))(b \<mapsto> 1)) = pc_all_block_ids a"
      "dom ((pa_block_tracker a)(b \<mapsto> \<lparr>tr_active = True, tr_last_accessed = default_last_accessed, tr_computed = False\<rparr>)) =
        pc_all_block_ids a" using D(2,3) c bc by auto
    show "x \<in> set bs \<union> fst ` set (pa_evictor a) \<longleftrightarrow> x \<in> pc_all_block_ids a \<and> (u(b := 1)) x = 0" for x
      using D(9) [of x] D(6,8) fr(1) bc by (cases "x = b") auto
    show "x \<in> pc_all_block_ids a \<and> x \<notin> set bs" if "pa_cached_blocks a k = Some x" for k x
      using D(10) [OF that] fr(1) by simp
  qed (use D fr(1) in \<open>auto split: if_splits\<close>)
  moreover have "pc_live a' = pc_live a" using F(3) I(3,4) by (simp add: f(7) a2_def a1_def)
  moreover have "objs h' a'" by (rule objs_cong [OF F(1) [folded a2_def]]) (simp_all add: f ids2)
  moreover have "same_ids a a'"
    using same_ids_trans [OF I(2) [folded a1_def] F(2) [folded a2_def]] by (simp add: same_ids_def a' a2_def a1_def pc_all_block_ids_def)
  moreover have "pc_get_num_free_blocks a = Suc (pc_get_num_free_blocks a')"
    by (simp add: pc_get_num_free_blocks_def naive_get_num_free_blocks_def f fr(1))
  ultimately show ?thesis unfolding took_def using c bc nb I(5) f(6) by (simp add: a' a2_def a1_def)
qed

text \<open>The scan of the evictor returns one of its entries.\<close>

lemma evict_scan_mem: "evict_scan x t \<in> set (x # t)"
proof (induction x t rule: evict_scan.induct)
  case (2 i b j c t)
  then show ?case by (auto simp: Let_def)
qed simp

lemma evict_Inr: "evict t = Inr (i, k, t') \<Longrightarrow> \<exists>m. (i, m) \<in> set t \<and> md_content_hash m = k \<and> t' = dict_del i t"
proof (cases t)
  case (Cons x s)
  assume e: "evict t = Inr (i, k, t')"
  obtain j m where s: "evict_scan x s = (j, m)" by fastforce
  then have "(j, m) \<in> set t" using evict_scan_mem [of x s] Cons by simp
  then show ?thesis using e s Cons by auto
qed simp

lemma mem_dict_del [simp]: "(i, m) \<in> set (dict_del j t) \<longleftrightarrow> (i, m) \<in> set t \<and> i \<noteq> j"
  by (auto simp: dict_del_def)

lemma length_dict_del: "k \<in> fst ` set d \<Longrightarrow> distinct (map fst d) \<Longrightarrow> length d = Suc (length (dict_del k d))"
proof (induction d)
  case (Cons x d)
  show ?case
  proof (cases "fst x = k")
    case True
    then have "k \<notin> fst ` set d" using Cons.prems(2) by auto
    then have "filter (\<lambda>(k', _). k' \<noteq> k) d = d" by (force intro!: filter_True)
    then show ?thesis using True by (simp add: dict_del_def case_prod_beta)
  next
    case False
    then show ?thesis using Cons by (auto simp: dict_del_def case_prod_beta)
  qed
qed simp

lemma evicted_taken:
  assumes "books a u" "objs h a" "maybe_allocate_evicted_block_id a = Inr (Some b, a')"
  shows "took h a u b h a'"
proof -
  note D = booksD [OF assms(1)]
  obtain k ev rc n where e: "evict (pa_evictor a) = Inr (b, k, ev)" and k: "pa_cached_blocks a k = Some b"
    and rc: "rc_incr (pa_refcounter a) b = Inr (n, rc)"
    and tr: "track_block_id b False (put_refcounter rc
                    (a\<lparr>pa_evictor := ev, pa_cached_blocks := (pa_cached_blocks a)(k := None)\<rparr>)) = Inr a'"
    using assms(3) by (auto simp: maybe_allocate_evicted_block_id_def split: if_splits)
  obtain m where m: "(b, m) \<in> set (pa_evictor a)" "md_content_hash m = k" "ev = dict_del b (pa_evictor a)"
    using evict_Inr [OF e] by blast
  then have ev: "b \<in> fst ` set (pa_evictor a)" by force
  then have b: "b \<in> pc_all_block_ids a" "u b = 0" using D(9) [of b] by auto
  have nf: "b \<notin> set (free_block_indices (pa_hashless_allocator a))" using D(8) ev by auto
  have "rc = (pa_refcounter a)\<lparr>refcounts := (refcounts (pa_refcounter a))(b \<mapsto> 1)\<rparr>" using rc D(4) [OF b(1)] b(2) by auto
  then have f: "pa_evictor a' = dict_del b (pa_evictor a)" "pc_all_block_ids a' = pc_all_block_ids a"
    "pa_cached_blocks a' = (pa_cached_blocks a)(k := None)" "pa_pool a' = pa_pool a"
    "free_block_indices (pa_hashless_allocator a') = free_block_indices (pa_hashless_allocator a)"
    "refcounts (pa_refcounter a') = (refcounts (pa_refcounter a))(b \<mapsto> 1)"
    "pa_block_tracker a' = (pa_block_tracker a)(b \<mapsto> \<lparr>tr_active = True, tr_last_accessed = default_last_accessed, tr_computed = False\<rparr>)"
    "pa_cow_tracker a' = pa_cow_tracker a" "pa_block_size a' = pa_block_size a"
    "na_block_size (pa_hashless_allocator a') = na_block_size (pa_hashless_allocator a)"
    using tr by (auto simp: track_block_id_Inr m(3) put_refcounter_def pc_all_block_ids_def)
  have only: "x = k" if "pa_cached_blocks a x = Some b" for x using cached_inj [OF assms(1) that k] .
  have "books a' (u(b := 1))"
  proof (rule booksI; unfold f)
    show "dom ((refcounts (pa_refcounter a))(b \<mapsto> 1)) = pc_all_block_ids a"
      "dom ((pa_block_tracker a)(b \<mapsto> \<lparr>tr_active = True, tr_last_accessed = default_last_accessed, tr_computed = False\<rparr>)) =
        pc_all_block_ids a" using D(2,3) b by auto
    show "x \<in> set (free_block_indices (pa_hashless_allocator a)) \<union> fst ` set (dict_del b (pa_evictor a)) \<longleftrightarrow>
        x \<in> pc_all_block_ids a \<and> (u(b := 1)) x = 0" for x
      using D(9) [of x] nf by (cases "x = b") auto
    show "inj_on ((pa_cached_blocks a)(k := None)) (dom ((pa_cached_blocks a)(k := None)))"
      using D(11) by (auto simp: inj_on_def)
    show "((pa_cached_blocks a)(k := None)) (md_content_hash m') = Some x" if "(x, m') \<in> set (dict_del b (pa_evictor a))" for x m'
      using that D(12) [of x m'] k by auto
    show "distinct (map fst (dict_del b (pa_evictor a)))" using D(7) by simp
    show "set (free_block_indices (pa_hashless_allocator a)) \<inter> fst ` set (dict_del b (pa_evictor a)) = {}"
      using D(8) by auto
  qed (use D in \<open>auto split: if_splits\<close>)
  moreover have "b \<notin> ran (pa_cached_blocks a')" using only by (auto simp: f ran_def)
  moreover have "pa_cached_blocks a' x = Some c \<longleftrightarrow> pa_cached_blocks a x = Some c" if "c \<noteq> b" for x c
    using that k by (simp add: f)
  moreover have "objs h a'" by (rule objs_cong [OF assms(2)]) (simp_all add: f)
  moreover have "pc_get_num_free_blocks a = Suc (pc_get_num_free_blocks a')"
  proof -
    have "length (pa_evictor a) = Suc (length (dict_del b (pa_evictor a)))" using ev D(7) by (rule length_dict_del)
    then show ?thesis by (simp add: pc_get_num_free_blocks_def naive_get_num_free_blocks_def ev_num_blocks_def f)
  qed
  ultimately show ?thesis unfolding took_def using b f by (simp add: same_ids_def)
qed

lemma pc_allocate_block_id_took:
  assumes "books a u" "objs h a" "pc_allocate_block_id h a = Inr (b, h', a')"
  shows "took h a u b h' a'"
proof -
  obtain ob h1 a1 where ob: "maybe_allocate_hashless_block_id h a = Inr (ob, h1, a1)"
    and rest: "(case ob of Some b \<Rightarrow> Inr (b, h1, a1)
       | None \<Rightarrow> bindE (maybe_allocate_evicted_block_id a1) (\<lambda>(evicted, a).
           case evicted of Some b \<Rightarrow> Inr (b, h1, a) | None \<Rightarrow> Inl NoFreeBlocksError)) = Inr (b, h', a')"
    using assms(3) unfolding pc_allocate_block_id_def bindE_eq_Inr by auto
  show ?thesis
  proof (cases ob)
    case (Some c)
    then show ?thesis using hashless_taken [OF assms(1,2)] ob rest by simp
  next
    case None
    then have "h1 = h" "a1 = a" using ob by (auto simp: maybe_allocate_hashless_block_id_def split: sum.splits if_splits)
    then have "maybe_allocate_evicted_block_id a = Inr (Some b, a')" "h' = h" using rest None by (auto split: option.splits)
    then show ?thesis using evicted_taken [OF assms(1,2)] by simp
  qed
qed

text \<open>With a free or an evictable block there is one to take; otherwise the allocator says so.\<close>

lemma pc_allocate_block_id_ok:
  assumes "books a u" "objs h a"
  shows "if pc_get_num_free_blocks a = 0 then pc_allocate_block_id h a = Inl NoFreeBlocksError
    else \<exists>r. pc_allocate_block_id h a = Inr r"
proof -
  note D = booksD [OF assms(1)]
  let ?n = "pa_hashless_allocator a"
  show ?thesis
  proof (cases "free_block_indices ?n")
    case Nil
    then have hl: "maybe_allocate_hashless_block_id h a = Inr (None, h, a)"
      by (simp add: maybe_allocate_hashless_block_id_def naive_allocate_mutable_block_def allocate_block_id_def)
    show ?thesis
    proof (cases "pa_evictor a")
      case Nil': Nil
      then have "maybe_allocate_evicted_block_id a = Inr (None, a)" by (simp add: maybe_allocate_evicted_block_id_def ev_num_blocks_def)
      then show ?thesis using Nil Nil' hl
        by (simp add: pc_allocate_block_id_def pc_get_num_free_blocks_def naive_get_num_free_blocks_def ev_num_blocks_def)
    next
      case (Cons x t)
      obtain i m where s: "evict_scan x t = (i, m)" by fastforce
      then have im: "(i, m) \<in> set (pa_evictor a)" using evict_scan_mem [of x t] Cons by simp
      have e: "evict (pa_evictor a) = Inr (i, md_content_hash m, dict_del i (pa_evictor a))" using s by (simp add: Cons)
      have i: "i \<in> pc_all_block_ids a" "u i = 0" using D(9) [of i] im by force+
      obtain tr where tr: "pa_block_tracker a i = Some tr" "\<not> tr_active tr" using D(3,5) i by (metis domD less_irrefl)
      have k: "pa_cached_blocks a (md_content_hash m) = Some i" using D(12) [OF im] .
      have "\<exists>r. maybe_allocate_evicted_block_id a = Inr (Some i, r)"
        using e k D(4) [OF i(1)] i(2) tr Cons
        by (simp add: maybe_allocate_evicted_block_id_def ev_num_blocks_def rc_get_def rc_incr_def track_block_id_def del: evict.simps)
      then show ?thesis using Cons hl by (auto simp: pc_allocate_block_id_def pc_get_num_free_blocks_def ev_num_blocks_def)
    qed
  next
    case (Cons b bs)
    then have b: "b \<in> pc_all_block_ids a" "u b = 0" using D(9) [of b] by auto
    obtain tr where tr: "pa_block_tracker a b = Some tr" "\<not> tr_active tr" using D(3,5) b by (metis domD less_irrefl)
    have rc: "refcounts (refcounter ?n) b = Some 0" using D(4) [OF b(1)] b(2) by simp
    define n1 where "n1 = ?n\<lparr>free_block_indices := bs, refcounter := (refcounter ?n)\<lparr>refcounts := (refcounts (refcounter ?n))(b \<mapsto> 1)\<rparr>\<rparr>"
    have al: "allocate_block_id ?n = Inr (b, n1)" by (simp add: allocate_block_id_Inr Cons rc n1_def)
    have p: "pool_inv (pa_pool a)" "0 < pool_size (pa_pool a)" using assms(2) b(1) by (auto simp: objs_def)
    obtain r h1 p1 where ib: "init_block pc_block_init h (pa_pool a) None [] (na_block_size ?n) (Some b) = Inr (r, h1, p1)"
      using init_block_ok [OF p] pc.create_block_total by (metis le0 list.size(3))
    have "nb_block_id (h1 r) = Some b" using init_block_objs(9) [OF assms(2) ib] .
    then have "\<exists>r. maybe_allocate_hashless_block_id h a = Inr (Some b, r)"
      using al ib tr by (simp add: maybe_allocate_hashless_block_id_def naive_allocate_mutable_block_def n1_def track_block_id_def)
    then show ?thesis using Cons
      by (auto simp: pc_allocate_block_id_def pc_get_num_free_blocks_def naive_get_num_free_blocks_def)
  qed
qed

section \<open>Counting references\<close>

text \<open>One reference more to a cached block, which may come back from the evictor.\<close>

lemma incr_cached_books:
  assumes "books a u" "nb_block_id (h r) = Some b" "pa_cached_blocks a k = Some b"
  obtains a' where "incr_refcount_cached_block h a r = Inr (h(r := (h r)\<lparr>xb_computed := True\<rparr>), a')"
    "books a' (u(b := Suc (u b)))" "pa_cached_blocks a' = pa_cached_blocks a" "same_ids a a'" "pa_pool a' = pa_pool a"
    "pa_cow_tracker a' = pa_cow_tracker a"
proof -
  note D = booksD [OF assms(1)]
  have b: "b \<in> pc_all_block_ids a" "b \<notin> set (free_block_indices (pa_hashless_allocator a))" using D(10) [OF assms(3)] by auto
  define rc where "rc = (pa_refcounter a)\<lparr>refcounts := (refcounts (pa_refcounter a))(b \<mapsto> int (u b) + 1)\<rparr>"
  define ev where "ev = (if u b = 0 then dict_del b (pa_evictor a) else pa_evictor a)"
  define tr where "tr = (if u b = 0 then (pa_block_tracker a)(b \<mapsto> \<lparr>tr_active = True, tr_last_accessed = default_last_accessed,
     tr_computed = True\<rparr>) else pa_block_tracker a)"
  define a' where "a' = put_refcounter rc a\<lparr>pa_evictor := ev, pa_block_tracker := tr\<rparr>"
  have e: "b \<in> fst ` set (pa_evictor a) \<longleftrightarrow> u b = 0" using D(9) [of b] b by auto
  obtain t where t: "pa_block_tracker a b = Some t" using D(3) b(1) by blast
  have r: "rc_incr (pa_refcounter a) b = Inr (int (u b) + 1, rc)" using D(4) [OF b(1)] by (simp add: rc_def)
  have "incr_refcount_cached_block h a r = Inr (h(r := (h r)\<lparr>xb_computed := True\<rparr>), a')"
    using assms(2) r e t D(5) [OF t]
    by (auto simp: incr_refcount_cached_block_def Let_def ev_remove_def track_block_id_def a'_def ev_def tr_def put_refcounter_def)
  moreover have f: "pa_evictor a' = ev" "pa_block_tracker a' = tr" "pa_cached_blocks a' = pa_cached_blocks a"
    "refcounts (pa_refcounter a') = (refcounts (pa_refcounter a))(b \<mapsto> int (u b) + 1)" "pa_pool a' = pa_pool a"
    "pc_all_block_ids a' = pc_all_block_ids a" "pa_cow_tracker a' = pa_cow_tracker a"
    "free_block_indices (pa_hashless_allocator a') = free_block_indices (pa_hashless_allocator a)" "same_ids a a'"
    by (simp_all add: a'_def rc_def pc_all_block_ids_def same_ids_def)
  moreover have "books a' (u(b := Suc (u b)))"
  proof (rule booksI; unfold f)
    show "dom ((refcounts (pa_refcounter a))(b \<mapsto> int (u b) + 1)) = pc_all_block_ids a" "dom tr = pc_all_block_ids a"
      using D(2,3) b(1) by (auto simp: tr_def)
    show "tr_active t' = (0 < (u(b := Suc (u b))) c)" if "tr c = Some t'" for c t'
      using that D(5) [of c t'] by (auto simp: tr_def split: if_splits)
    show "distinct (map fst ev)" "set (free_block_indices (pa_hashless_allocator a)) \<inter> fst ` set ev = {}"
      using D(7,8) by (auto simp: ev_def)
    show "c \<in> set (free_block_indices (pa_hashless_allocator a)) \<union> fst ` set ev \<longleftrightarrow>
        c \<in> pc_all_block_ids a \<and> (u(b := Suc (u b))) c = 0" for c
      using D(9) [of c] b(2) e by (cases "c = b") (auto simp: ev_def)
    show "pa_cached_blocks a (md_content_hash m) = Some c" if "(c, m) \<in> set ev" for c m
      using D(12) [of c m] that by (auto simp: ev_def split: if_splits)
  qed (use D in auto)
  ultimately show thesis using that by blast
qed

text \<open>One reference less: to a cached block, which stays in the evictor, or to another, which becomes free.\<close>

definition dropped :: "pc_allocator \<Rightarrow> (block_id \<Rightarrow> nat) \<Rightarrow> block_id \<Rightarrow> pc_allocator \<Rightarrow> bool" where
  "dropped a u b a' \<longleftrightarrow> books a' (u(b := u b - 1)) \<and> pa_cached_blocks a' = pa_cached_blocks a \<and> same_ids a a' \<and>
     pa_pool a' = pa_pool a \<and> pa_cow_tracker a' = pa_cow_tracker a"

lemma decr_cached_books:
  assumes "books a u" "nb_block_id (h r) = Some b" "pa_cached_blocks a k = Some b" "0 < u b"
  obtains a' where "decr_refcount_cached_block k h a r = Inr (set_block_id h r None, a')" "dropped a u b a'"
proof -
  note D = booksD [OF assms(1)]
  have b: "b \<in> pc_all_block_ids a" "b \<notin> set (free_block_indices (pa_hashless_allocator a))" using D(10) [OF assms(3)] by auto
  obtain t where t: "pa_block_tracker a b = Some t" using D(3) b(1) by blast
  define rc where "rc = (pa_refcounter a)\<lparr>refcounts := (refcounts (pa_refcounter a))(b \<mapsto> int (u b) - 1)\<rparr>"
  define m where "m = \<lparr>md_content_hash = k, md_num_hashed_tokens = xb_num_tokens_total (h r), md_last_accessed = tr_last_accessed t\<rparr>"
  define ev where "ev = (if u b = 1 then dict_set b m (pa_evictor a) else pa_evictor a)"
  define tr where "tr = (if u b = 1 then (pa_block_tracker a)(b \<mapsto> \<lparr>tr_active = False, tr_last_accessed = default_last_accessed,
     tr_computed = False\<rparr>) else pa_block_tracker a)"
  define a' where "a' = put_refcounter rc a\<lparr>pa_evictor := ev, pa_block_tracker := tr\<rparr>"
  have e: "b \<notin> fst ` set (pa_evictor a)" using D(9) [of b] b assms(4) by auto
  have r: "rc_decr (pa_refcounter a) b = Inr (int (u b) - 1, rc)" using D(4) [OF b(1)] assms(4) by (simp add: rc_def)
  have "decr_refcount_cached_block k h a r = Inr (set_block_id h r None, a')"
    using assms(2-4) r t D(5) [OF t]
    by (auto simp: decr_refcount_cached_block_def Let_def untrack_block_id_def a'_def ev_def tr_def put_refcounter_def ev_add_def m_def)
  moreover have f: "pa_evictor a' = ev" "pa_block_tracker a' = tr" "pa_cached_blocks a' = pa_cached_blocks a"
    "refcounts (pa_refcounter a') = (refcounts (pa_refcounter a))(b \<mapsto> int (u b) - 1)" "pa_pool a' = pa_pool a"
    "pc_all_block_ids a' = pc_all_block_ids a" "pa_cow_tracker a' = pa_cow_tracker a"
    "free_block_indices (pa_hashless_allocator a') = free_block_indices (pa_hashless_allocator a)" "same_ids a a'"
    by (simp_all add: a'_def rc_def pc_all_block_ids_def same_ids_def)
  moreover have "books a' (u(b := u b - 1))"
  proof (rule booksI; unfold f)
    show "dom ((refcounts (pa_refcounter a))(b \<mapsto> int (u b) - 1)) = pc_all_block_ids a" "dom tr = pc_all_block_ids a"
      using D(2,3) b(1) by (auto simp: tr_def)
    show "tr_active t' = (0 < (u(b := u b - 1)) c)" if "tr c = Some t'" for c t'
      using that D(5) [of c t'] assms(4) by (auto simp: tr_def split: if_splits)
    show "distinct (map fst ev)" "set (free_block_indices (pa_hashless_allocator a)) \<inter> fst ` set ev = {}"
      using D(7,8) b(2) by (auto simp: ev_def)
    show "c \<in> set (free_block_indices (pa_hashless_allocator a)) \<union> fst ` set ev \<longleftrightarrow>
        c \<in> pc_all_block_ids a \<and> (u(b := u b - 1)) c = 0" for c
      using D(9) [of c] b e assms(4) by (cases "c = b") (auto simp: ev_def)
    show "pa_cached_blocks a (md_content_hash m') = Some c" if "(c, m') \<in> set ev" for c m'
      using D(12) [of c m'] that assms(3) e by (auto simp: ev_def m_def dict_set_fresh split: if_splits)
    show "((refcounts (pa_refcounter a))(b \<mapsto> int (u b) - 1)) c = Some (int ((u(b := u b - 1)) c))"
      if "c \<in> pc_all_block_ids a" for c using D(4) [OF that] assms(4) by (auto simp: of_nat_diff)
  qed (use D in auto)
  ultimately show thesis using that unfolding dropped_def by blast
qed

lemma decr_hashless_books:
  assumes "books a u" "nb_block_id (h r) = Some b" "b \<in> pc_all_block_ids a" "b \<notin> ran (pa_cached_blocks a)" "0 < u b"
  obtains a' where "decr_refcount_hashless_block h a r = Inr (set_block_id h r None, a')" "dropped a u b a'"
    "pc_get_num_free_blocks a' = pc_get_num_free_blocks a + (if u b = 1 then 1 else 0)"
proof -
  note D = booksD [OF assms(1)]
  let ?n = "pa_hashless_allocator a"
  obtain t where t: "pa_block_tracker a b = Some t" using D(3) assms(3) by blast
  define rc where "rc = (pa_refcounter a)\<lparr>refcounts := (refcounts (pa_refcounter a))(b \<mapsto> int (u b) - 1)\<rparr>"
  define tr where "tr = (if u b = 1 then (pa_block_tracker a)(b \<mapsto> \<lparr>tr_active = False, tr_last_accessed = default_last_accessed,
     tr_computed = False\<rparr>) else pa_block_tracker a)"
  define fr where "fr = (if u b = 1 then b # free_block_indices ?n else free_block_indices ?n)"
  define a' where "a' = a\<lparr>pa_hashless_allocator := ?n\<lparr>refcounter := rc, free_block_indices := fr\<rparr>, pa_block_tracker := tr\<rparr>"
  have e: "b \<notin> set (free_block_indices ?n)" "b \<notin> fst ` set (pa_evictor a)" using D(9) [of b] assms(5) by auto
  have rf: "refcounts (refcounter ?n) b = Some (int (u b))" using D(4) [OF assms(3)] .
  have "naive_free h ?n r True = Inr (set_block_id h r None, ?n\<lparr>refcounter := rc, free_block_indices := fr\<rparr>)"
    using assms(2,5) rf by (auto simp: naive_free_def free_block_id_Inr rc_def fr_def)
  then have "decr_refcount_hashless_block h a r = Inr (set_block_id h r None, a')"
    using assms(2,5) rf t D(5) [OF t]
    by (auto simp: decr_refcount_hashless_block_def rc_get_def untrack_block_id_def a'_def tr_def)
  moreover have f: "pa_evictor a' = pa_evictor a" "pa_block_tracker a' = tr" "pa_cached_blocks a' = pa_cached_blocks a"
    "refcounts (pa_refcounter a') = (refcounts (pa_refcounter a))(b \<mapsto> int (u b) - 1)" "pa_pool a' = pa_pool a"
    "pc_all_block_ids a' = pc_all_block_ids a" "pa_cow_tracker a' = pa_cow_tracker a"
    "free_block_indices (pa_hashless_allocator a') = fr" "same_ids a a'"
    by (simp_all add: a'_def rc_def pc_all_block_ids_def same_ids_def)
  moreover have "books a' (u(b := u b - 1))"
  proof (rule booksI; unfold f)
    show "dom ((refcounts (pa_refcounter a))(b \<mapsto> int (u b) - 1)) = pc_all_block_ids a" "dom tr = pc_all_block_ids a"
      using D(2,3) assms(3) by (auto simp: tr_def)
    show "tr_active t' = (0 < (u(b := u b - 1)) c)" if "tr c = Some t'" for c t'
      using that D(5) [of c t'] assms(5) by (auto simp: tr_def split: if_splits)
    show "distinct fr" "set fr \<inter> fst ` set (pa_evictor a) = {}" using D(6,8) e by (auto simp: fr_def)
    show "c \<in> set fr \<union> fst ` set (pa_evictor a) \<longleftrightarrow> c \<in> pc_all_block_ids a \<and> (u(b := u b - 1)) c = 0" for c
      using D(9) [of c] assms(3,5) e by (cases "c = b") (auto simp: fr_def)
    show "c \<in> pc_all_block_ids a \<and> c \<notin> set fr" if "pa_cached_blocks a k = Some c" for k c
      using D(10) [OF that] assms(4) that by (auto simp: fr_def ran_def)
    show "((refcounts (pa_refcounter a))(b \<mapsto> int (u b) - 1)) c = Some (int ((u(b := u b - 1)) c))"
      if "c \<in> pc_all_block_ids a" for c using D(4) [OF that] assms(5) by (auto simp: of_nat_diff)
  qed (use D in auto)
  moreover have "pc_get_num_free_blocks a' = pc_get_num_free_blocks a + (if u b = 1 then 1 else 0)"
    by (simp add: pc_get_num_free_blocks_def naive_get_num_free_blocks_def f fr_def)
  ultimately show thesis using that unfolding dropped_def by blast
qed

text \<open>A block that one object alone refers to becomes known under a hash.\<close>

lemma cached_books:
  assumes "books a u" "pa_cached_blocks a k = None" "b \<notin> ran (pa_cached_blocks a)" "b \<in> pc_all_block_ids a" "0 < u b"
    "a' = a\<lparr>pa_cached_blocks := (pa_cached_blocks a)(k \<mapsto> b), pa_touched_blocks := T\<rparr>"
  shows "books a' u"
proof -
  note D = booksD [OF assms(1)]
  have f: "pa_cached_blocks a' = (pa_cached_blocks a)(k \<mapsto> b)" "pa_hashless_allocator a' = pa_hashless_allocator a"
    "pa_evictor a' = pa_evictor a" "pa_block_tracker a' = pa_block_tracker a" "pc_all_block_ids a' = pc_all_block_ids a"
    by (simp_all add: assms(6) pc_all_block_ids_def)
  have "b \<notin> set (free_block_indices (pa_hashless_allocator a))" using D(9) [of b] assms(5) by auto
  moreover have "inj_on ((pa_cached_blocks a)(k \<mapsto> b)) (dom ((pa_cached_blocks a)(k \<mapsto> b)))"
    using D(11) assms(3) unfolding inj_on_def ran_def by auto
  moreover have "((pa_cached_blocks a)(k \<mapsto> b)) (md_content_hash m) = Some c" if "(c, m) \<in> set (pa_evictor a)" for c m
    using D(12) [OF that] assms(2) by auto
  ultimately show ?thesis by (intro booksI; unfold f) (use D assms(4) in \<open>auto split: if_splits\<close>)
qed

end
