(* ===== verification/Prefix_Content.thy ===== *)
theory Prefix_Content
  imports Prefix_Books
begin

text \<open>
  What the cached hashes mean. A block object is named by the chain of objects that leads to it; the key of a
  chain whose blocks are all full is the hash that \<open>content_hash\<close> computes for its last block.
\<close>

section \<open>Chains and their keys\<close>

definition hash_of_chain :: "block_hash \<Rightarrow> token_id list list \<Rightarrow> int option" where
  "hash_of_chain HB xs = foldl (\<lambda>k x. Some (HB (k = None) k x)) None xs"

lemma hash_of_chain_simps [simp]:
  "hash_of_chain HB [] = None"
  "hash_of_chain HB (xs @ [x]) = Some (HB (xs = []) (hash_of_chain HB xs) x)"
proof -
  have "hash_of_chain HB xs = None \<longleftrightarrow> xs = []" by (cases xs rule: rev_cases) (simp_all add: hash_of_chain_def)
  then show "hash_of_chain HB (xs @ [x]) = Some (HB (xs = []) (hash_of_chain HB xs) x)" by (simp add: hash_of_chain_def)
qed (simp add: hash_of_chain_def)

lemma hash_of_chain_None [simp]: "hash_of_chain HB xs = None \<longleftrightarrow> xs = []"
  by (cases xs rule: rev_cases) simp_all

definition toks :: "pc_block store \<Rightarrow> bref list \<Rightarrow> token_id list list" where
  "toks h p = map (\<lambda>r. nb_token_ids (h r)) p"

definition chain_key :: "block_hash \<Rightarrow> pc_block store \<Rightarrow> bref list \<Rightarrow> int option" where
  "chain_key HB h p = (if list_all (\<lambda>r. is_full (h r)) p then hash_of_chain HB (toks h p) else None)"

lemma chain_key_snoc:
  "chain_key HB h (p @ [r]) = (if is_full (h r) \<and> (p = [] \<or> chain_key HB h p \<noteq> None)
     then Some (HB (p = []) (chain_key HB h p) (nb_token_ids (h r))) else None)"
  by (auto simp: chain_key_def toks_def)

lemma chain_key_cong:
  "(\<And>r. r \<in> set p \<Longrightarrow> nb_token_ids (h' r) = nb_token_ids (h r) \<and> nb_block_size (h' r) = nb_block_size (h r)) \<Longrightarrow>
     chain_key HB h' p = chain_key HB h p"
proof -
  assume a: "\<And>r. r \<in> set p \<Longrightarrow> nb_token_ids (h' r) = nb_token_ids (h r) \<and> nb_block_size (h' r) = nb_block_size (h r)"
  then have "list_all (\<lambda>r. is_full (h' r)) p = list_all (\<lambda>r. is_full (h r)) p"
    by (auto simp: list_all_iff is_full_def num_empty_slots_def)
  moreover have "toks h' p = toks h p" using a by (auto simp: toks_def)
  ultimately show ?thesis by (simp add: chain_key_def)
qed

text \<open>Two stores that agree but for the stored hashes.\<close>

definition upto_hash :: "pc_block store \<Rightarrow> pc_block store \<Rightarrow> bool" where
  "upto_hash h h' \<longleftrightarrow> (\<forall>x. h' x = (h x)\<lparr>xb_cached_content_hash := xb_cached_content_hash (h' x)\<rparr>)"

lemma upto_hashD:
  assumes "upto_hash h h'"
  shows "nb_token_ids (h' x) = nb_token_ids (h x)" "nb_block_size (h' x) = nb_block_size (h x)"
    "nb_prev_block (h' x) = nb_prev_block (h x)" "nb_block_id (h' x) = nb_block_id (h x)" "nb_pool_id (h' x) = nb_pool_id (h x)"
    "xb_num_tokens_total (h' x) = xb_num_tokens_total (h x)" "xb_computed (h' x) = xb_computed (h x)"
proof -
  have e: "h' x = (h x)\<lparr>xb_cached_content_hash := xb_cached_content_hash (h' x)\<rparr>" using assms by (simp add: upto_hash_def)
  show "nb_token_ids (h' x) = nb_token_ids (h x)" "nb_block_size (h' x) = nb_block_size (h x)"
    "nb_prev_block (h' x) = nb_prev_block (h x)" "nb_block_id (h' x) = nb_block_id (h x)" "nb_pool_id (h' x) = nb_pool_id (h x)"
    "xb_num_tokens_total (h' x) = xb_num_tokens_total (h x)" "xb_computed (h' x) = xb_computed (h x)"
    by (subst e, simp)+
qed

lemma upto_hash_refl [simp]: "upto_hash h h"
  by (simp add: upto_hash_def)

lemma upto_hash_trans: "upto_hash h h1 \<Longrightarrow> upto_hash h1 h2 \<Longrightarrow> upto_hash h h2"
  unfolding upto_hash_def by (metis pc_block.update_convs(1) pc_block.surjective)

lemma upto_hash_key: "upto_hash h h' \<Longrightarrow> chain_key HB h' p = chain_key HB h p"
  by (rule chain_key_cong) (simp add: upto_hashD)

lemma upto_hash_toks: "upto_hash h h' \<Longrightarrow> toks h' p = toks h p"
  by (simp add: toks_def upto_hashD)

text \<open>A set of chains that contains the chains before each, with one chain for each object.\<close>

definition chains :: "nat \<Rightarrow> pc_block store \<Rightarrow> bref list set \<Rightarrow> bool" where
  "chains bs h P \<longleftrightarrow> inj_on last P \<and>
     (\<forall>p \<in> P. p \<noteq> [] \<and> distinct p \<and> chained h None p \<and> (\<forall>r \<in> set p. nb_block_size (h r) = bs)) \<and>
     (\<forall>p r. p @ [r] \<in> P \<longrightarrow> p \<noteq> [] \<longrightarrow> p \<in> P)"

lemma chainsD:
  assumes "chains bs h P" "p \<in> P"
  shows "p \<noteq> []" "distinct p" "chained h None p" "\<And>r. r \<in> set p \<Longrightarrow> nb_block_size (h r) = bs"
    "\<And>q r. p = q @ [r] \<Longrightarrow> q \<noteq> [] \<Longrightarrow> q \<in> P" "\<And>q. q \<in> P \<Longrightarrow> last q = last p \<Longrightarrow> q = p"
  using assms by (auto simp: chains_def inj_on_def)

definition hash_ok :: "block_hash \<Rightarrow> pc_block store \<Rightarrow> bref list set \<Rightarrow> bool" where
  "hash_ok HB h P \<longleftrightarrow> (\<forall>p \<in> P. (\<forall>k. xb_cached_content_hash (h (last p)) = Some k \<longrightarrow> chain_key HB h p = Some k) \<and>
     (xb_computed (h (last p)) \<longrightarrow> chain_key HB h p \<noteq> None))"

lemma content_hash_run:
  assumes "chains bs h P" "hash_ok HB h P" "p \<in> P" "content_hash HB depth h (last p) = Inr (k, h')"
  shows "k = chain_key HB h p \<and> upto_hash h h' \<and> hash_ok HB h' P \<and> (\<forall>x. x \<notin> set p \<longrightarrow> h' x = h x)"
  using assms(3,4)
proof (induction p arbitrary: depth k h' rule: rev_induct)
  case Nil
  then show ?case using chainsD(1) [OF assms(1)] by blast
next
  case (snoc r p)
  note C = chainsD [OF assms(1) snoc.prems(1)]
  obtain d where d: "depth = Suc d" using snoc.prems(2) by (cases depth) auto
  show ?case
  proof (cases "xb_cached_content_hash (h r)")
    case (Some c)
    then have "chain_key HB h (p @ [r]) = Some c" using assms(2) snoc.prems(1) by (force simp: hash_ok_def)
    then show ?thesis using snoc.prems(2) d Some assms(2) by simp
  next
    case None
    show ?thesis
    proof (cases "is_full (h r)")
      case False
      then show ?thesis using snoc.prems(2) d None assms(2) by (simp add: chain_key_snoc)
    next
      case full: True
      have prev: "nb_prev_block (h r) = (if p = [] then None else Some (last p))" using C(3) by (auto simp: chained_append)
      obtain kp h1 where run: "(case nb_prev_block (h r) of None \<Rightarrow> Inr (None, h) | Some p \<Rightarrow> content_hash HB d h p) = Inr (kp, h1)"
        and rest: "(if kp = None \<and> nb_prev_block (h r) \<noteq> None then Inr (None, h1)
            else let k = HB (nb_prev_block (h r) = None) kp (nb_token_ids (h1 r))
                 in Inr (Some k, h1(r := (h1 r)\<lparr>xb_cached_content_hash := Some k\<rparr>))) = (Inr (k, h') :: py_error + _)"
        using snoc.prems(2) None full d by (auto simp: Let_def)
      have p: "kp = chain_key HB h p \<and> upto_hash h h1 \<and> hash_ok HB h1 P \<and> (\<forall>x. x \<notin> set p \<longrightarrow> h1 x = h x)"
      proof (cases "p = []")
        case True
        then show ?thesis using run prev assms(2) by (auto simp: chain_key_def toks_def)
      next
        case False
        then have "p \<in> P" using C(5) by blast
        from snoc.IH [OF this] run False prev show ?thesis by simp
      qed
      show ?thesis
      proof (cases "kp = None \<and> p \<noteq> []")
        case True
        then show ?thesis using rest p prev by (auto simp: chain_key_snoc)
      next
        case False
        define k1 where "k1 = HB (p = []) kp (nb_token_ids (h r))"
        have tk: "nb_token_ids (h1 r) = nb_token_ids (h r)" using p upto_hashD(1) by blast
        have kk: "k = Some k1" and h': "h' = h1(r := (h1 r)\<lparr>xb_cached_content_hash := Some k1\<rparr>)"
          using rest False prev by (auto simp: Let_def k1_def tk split: if_splits)
        have key: "chain_key HB h (p @ [r]) = Some k1" using p full False by (auto simp: chain_key_snoc k1_def)
        have u1: "upto_hash h1 h'" by (simp add: upto_hash_def h')
        have u: "upto_hash h h'" using upto_hash_trans p u1 by blast
        have "hash_ok HB h' P"
          unfolding hash_ok_def upto_hash_key [OF u1]
        proof (intro ballI conjI allI impI)
          fix q c assume q: "q \<in> P" "xb_cached_content_hash (h' (last q)) = Some c"
          show "chain_key HB h1 q = Some c"
          proof (cases "last q = r")
            case True
            then have "q = p @ [r]" using C(6) [OF q(1)] by simp
            then show ?thesis using q(2) key p upto_hash_key by (auto simp: h')
          next
            case False
            then show ?thesis using q p by (auto simp: h' hash_ok_def)
          qed
        next
          fix q assume "q \<in> P" "xb_computed (h' (last q))"
          then show "chain_key HB h1 q \<noteq> None" using p by (auto simp: hash_ok_def h' split: if_splits)
        qed
        moreover have "\<forall>x. x \<notin> set (p @ [r]) \<longrightarrow> h' x = h x" using p by (simp add: h')
        ultimately show ?thesis using kk key u by simp
      qed
    qed
  qed
qed

section \<open>Blocks and hashes\<close>

text \<open>
  The block of a chain with a key is the cached one; a block of another chain is not cached, and whoever else
  has it holds the same tokens.
\<close>

definition content :: "block_hash \<Rightarrow> pc_block store \<Rightarrow> pc_allocator \<Rightarrow> bref list set \<Rightarrow> bool" where
  "content HB h a Q \<longleftrightarrow>
     (\<forall>q \<in> Q. \<exists>b \<in> pc_all_block_ids a. nb_block_id (h (last q)) = Some b \<and>
        (case chain_key HB h q of Some k \<Rightarrow> pa_cached_blocks a k = Some b | None \<Rightarrow> b \<notin> ran (pa_cached_blocks a))) \<and>
     (\<forall>q \<in> Q. \<forall>q' \<in> Q. chain_key HB h q = None \<longrightarrow> nb_block_id (h (last q')) = nb_block_id (h (last q)) \<longrightarrow>
        nb_token_ids (h (last q')) = nb_token_ids (h (last q)) \<and>
        (nb_token_ids (h (last q)) \<noteq> [] \<longrightarrow> toks h q' = toks h q))"

lemma contentD:
  assumes "content HB h a Q" "q \<in> Q"
  obtains b where "b \<in> pc_all_block_ids a" "nb_block_id (h (last q)) = Some b"
    "case chain_key HB h q of Some k \<Rightarrow> pa_cached_blocks a k = Some b | None \<Rightarrow> b \<notin> ran (pa_cached_blocks a)"
  using assms unfolding content_def by blast

lemma content_shared:
  assumes "content HB h a Q" "q \<in> Q" "q' \<in> Q" "chain_key HB h q = None" "nb_block_id (h (last q')) = nb_block_id (h (last q))"
  shows "nb_token_ids (h (last q')) = nb_token_ids (h (last q))" "nb_token_ids (h (last q)) \<noteq> [] \<Longrightarrow> toks h q' = toks h q"
  using assms unfolding content_def by blast+

lemma content_mono: "content HB h a Q \<Longrightarrow> Q' \<subseteq> Q \<Longrightarrow> content HB h a Q'"
  unfolding content_def by (meson subsetD)

text \<open>Changes that it does not see.\<close>

lemma content_keys:
  assumes "content HB h a Q" "pc_all_block_ids a' = pc_all_block_ids a"
    "\<And>q. q \<in> Q \<Longrightarrow> chain_key HB h' q = chain_key HB h q"
    "\<And>q. q \<in> Q \<Longrightarrow> nb_token_ids (h' (last q)) = nb_token_ids (h (last q))"
    "\<And>q. q \<in> Q \<Longrightarrow> nb_token_ids (h (last q)) \<noteq> [] \<Longrightarrow> toks h' q = toks h q"
    "\<And>q. q \<in> Q \<Longrightarrow> nb_block_id (h' (last q)) = nb_block_id (h (last q))"
    "\<And>q b k. q \<in> Q \<Longrightarrow> nb_block_id (h (last q)) = Some b \<Longrightarrow> pa_cached_blocks a' k = Some b \<longleftrightarrow> pa_cached_blocks a k = Some b"
  shows "content HB h' a' Q"
proof -
  have r: "b \<in> ran (pa_cached_blocks a') \<longleftrightarrow> b \<in> ran (pa_cached_blocks a)"
    if "q \<in> Q" "nb_block_id (h (last q)) = Some b" for q b using assms(7) [OF that] by (auto simp: ran_def)
  show ?thesis
    unfolding content_def
  proof (intro conjI ballI impI)
    fix q assume q: "q \<in> Q"
    obtain b where b: "b \<in> pc_all_block_ids a" "nb_block_id (h (last q)) = Some b"
      "case chain_key HB h q of Some k \<Rightarrow> pa_cached_blocks a k = Some b | None \<Rightarrow> b \<notin> ran (pa_cached_blocks a)"
      by (rule contentD [OF assms(1) q])
    then show "\<exists>b \<in> pc_all_block_ids a'. nb_block_id (h' (last q)) = Some b \<and>
        (case chain_key HB h' q of Some k \<Rightarrow> pa_cached_blocks a' k = Some b | None \<Rightarrow> b \<notin> ran (pa_cached_blocks a'))"
      using assms(6) [OF q] r [OF q b(2)] assms(7) [OF q b(2)] unfolding assms(3) [OF q] assms(2)
      by (intro bexI [of _ b]) (auto split: option.splits)
  next
    fix q q' assume q: "q \<in> Q" "q' \<in> Q" "chain_key HB h' q = None" "nb_block_id (h' (last q')) = nb_block_id (h' (last q))"
    then have q0: "chain_key HB h q = None" "nb_block_id (h (last q')) = nb_block_id (h (last q))"
      using assms(3,6) by auto
    note S = content_shared [OF assms(1) q(1,2) q0]
    show "nb_token_ids (h' (last q')) = nb_token_ids (h' (last q))" using S(1) assms(4) q by simp
    show "toks h' q' = toks h' q" if "nb_token_ids (h' (last q)) \<noteq> []" using S assms(4,5) that q by metis
  qed
qed

lemma content_cong:
  assumes "content HB h a Q" "pc_all_block_ids a' = pc_all_block_ids a"
    "\<And>q r. q \<in> Q \<Longrightarrow> r \<in> set q \<Longrightarrow> nb_token_ids (h' r) = nb_token_ids (h r) \<and> nb_block_size (h' r) = nb_block_size (h r)"
    "\<And>q. q \<in> Q \<Longrightarrow> nb_block_id (h' (last q)) = nb_block_id (h (last q)) \<and> q \<noteq> []"
    "\<And>q b k. q \<in> Q \<Longrightarrow> nb_block_id (h (last q)) = Some b \<Longrightarrow> pa_cached_blocks a' k = Some b \<longleftrightarrow> pa_cached_blocks a k = Some b"
  shows "content HB h' a' Q"
proof (rule content_keys [OF assms(1,2)])
  fix q assume q: "q \<in> Q"
  show "chain_key HB h' q = chain_key HB h q" using assms(3) [OF q] by (rule chain_key_cong)
  show "nb_token_ids (h' (last q)) = nb_token_ids (h (last q))" using assms(3) [OF q, of "last q"] assms(4) [OF q] by simp
  show "toks h' q = toks h q" using assms(3) [OF q] by (simp add: toks_def)
  show "nb_block_id (h' (last q)) = nb_block_id (h (last q))" using assms(4) [OF q] by simp
qed (rule assms(5))

lemma content_upto:
  assumes "content HB h a Q" "upto_hash h h'" "[] \<notin> Q"
  shows "content HB h' a Q"
  by (rule content_cong [OF assms(1)]) (use assms in \<open>auto simp: upto_hashD\<close>)

text \<open>One chain more.\<close>

lemma content_insert:
  assumes "content HB h a Q" "b \<in> pc_all_block_ids a" "nb_block_id (h (last p)) = Some b"
    "case chain_key HB h p of Some k \<Rightarrow> pa_cached_blocks a k = Some b | None \<Rightarrow> b \<notin> ran (pa_cached_blocks a)"
    "\<And>q. q \<in> Q \<Longrightarrow> chain_key HB h p = None \<Longrightarrow> nb_block_id (h (last q)) = Some b \<Longrightarrow>
       nb_token_ids (h (last q)) = nb_token_ids (h (last p)) \<and> (nb_token_ids (h (last p)) \<noteq> [] \<longrightarrow> toks h q = toks h p)"
  shows "content HB h a (insert p Q)"
proof -
  have none: "chain_key HB h p = None" if "q \<in> Q" "chain_key HB h q = None" "nb_block_id (h (last q)) = Some b" for q
  proof (rule ccontr)
    note q = that
    assume "chain_key HB h p \<noteq> None"
    then have "b \<in> ran (pa_cached_blocks a)" using assms(4) by (auto simp: ran_def)
    moreover obtain b' where "b' \<in> pc_all_block_ids a" "nb_block_id (h (last q)) = Some b'"
      "case chain_key HB h q of Some k \<Rightarrow> pa_cached_blocks a k = Some b' | None \<Rightarrow> b' \<notin> ran (pa_cached_blocks a)"
      by (rule contentD [OF assms(1) q(1)])
    then have "b \<notin> ran (pa_cached_blocks a)" using q(2,3) by simp
    ultimately show False by simp
  qed
  show ?thesis
    unfolding content_def
  proof (intro conjI ballI impI)
    fix q assume "q \<in> insert p Q"
    then show "\<exists>b \<in> pc_all_block_ids a. nb_block_id (h (last q)) = Some b \<and>
        (case chain_key HB h q of Some k \<Rightarrow> pa_cached_blocks a k = Some b | None \<Rightarrow> b \<notin> ran (pa_cached_blocks a))"
    proof
      assume "q = p"
      then show ?thesis using assms(2-4) by blast
    next
      assume "q \<in> Q"
      from contentD [OF assms(1) this] show ?thesis by blast
    qed
  next
    fix q q' assume q: "q \<in> insert p Q" "q' \<in> insert p Q" "chain_key HB h q = None" "nb_block_id (h (last q')) = nb_block_id (h (last q))"
    have both: "nb_token_ids (h (last q')) = nb_token_ids (h (last q)) \<and> (nb_token_ids (h (last q)) \<noteq> [] \<longrightarrow> toks h q' = toks h q)"
    proof (cases "q = p")
      case qp: True
      then show ?thesis using q assms(3) assms(5) [of q'] by (cases "q' = p") auto
    next
      case qQ: False
      show ?thesis
      proof (cases "q' = p")
        case True
        have "q \<in> Q" "nb_block_id (h (last q)) = Some b" using q qQ True assms(3) by auto
        with assms(5) [OF this(1)] none [of q] q(3) show ?thesis using True by fastforce
      next
        case False
        then show ?thesis using content_shared [OF assms(1), of q q'] q qQ by blast
      qed
    qed
    show "nb_token_ids (h (last q')) = nb_token_ids (h (last q))" using both by blast
    show "toks h q' = toks h q" if "nb_token_ids (h (last q)) \<noteq> []" using both that by blast
  qed
qed

section \<open>The invariant\<close>

text \<open>
  \<open>P\<close> are the chains whose objects are intact, \<open>Q\<close> those of which the last object is in use; \<open>X\<close> are
  objects in use of which nothing is said yet.
\<close>

abbreviation refs :: "pc_block store \<Rightarrow> pc_allocator \<Rightarrow> block_id \<Rightarrow> nat" where
  "refs h a \<equiv> naive_refs h (pa_hashless_allocator a)"

definition pc_shape :: "block_hash \<Rightarrow> pc_block store \<Rightarrow> pc_allocator \<Rightarrow> bref list set \<Rightarrow> bref list set \<Rightarrow> bref set \<Rightarrow> bool" where
  "pc_shape HB h a P Q X \<longleftrightarrow> objs h a \<and> 0 < pa_block_size a \<and> chains (pa_block_size a) h P \<and> Q \<subseteq> P \<and>
     pc_live a = last ` Q \<union> X \<and> last ` Q \<inter> X = {} \<and> hash_ok HB h P \<and> content HB h a Q"

definition pc_ok :: "block_hash \<Rightarrow> pc_block store \<Rightarrow> pc_allocator \<Rightarrow> bref list set \<Rightarrow> bref list set \<Rightarrow> bref set \<Rightarrow> bool" where
  "pc_ok HB h a P Q X \<longleftrightarrow> pc_shape HB h a P Q X \<and> books a (refs h a)"

lemma pc_shapeD:
  assumes "pc_shape HB h a P Q X"
  shows "objs h a" "0 < pa_block_size a" "chains (pa_block_size a) h P" "Q \<subseteq> P"
    "pc_live a = last ` Q \<union> X" "last ` Q \<inter> X = {}" "hash_ok HB h P" "content HB h a Q"
  using assms by (simp_all add: pc_shape_def)

lemma pc_okD:
  assumes "pc_ok HB h a P Q X"
  shows "objs h a" "books a (refs h a)" "0 < pa_block_size a" "chains (pa_block_size a) h P" "Q \<subseteq> P"
    "pc_live a = last ` Q \<union> X" "last ` Q \<inter> X = {}" "hash_ok HB h P" "content HB h a Q"
  using assms by (simp_all add: pc_ok_def pc_shape_def)

lemma pc_ok_shape: "pc_ok HB h a P Q X \<Longrightarrow> pc_shape HB h a P Q X"
  by (simp add: pc_ok_def)

lemma pc_shape_ne: "pc_shape HB h a P Q X \<Longrightarrow> [] \<notin> Q"
  using pc_shapeD(3,4) chainsD(1) by (metis subsetD)

lemma pc_ok_ne: "pc_ok HB h a P Q X \<Longrightarrow> [] \<notin> Q"
  using pc_okD(4,5) chainsD(1) by (metis subsetD)

lemma refs_cong: "pc_live a' = pc_live a \<Longrightarrow> (\<And>x. x \<in> pc_live a \<Longrightarrow> nb_block_id (h' x) = nb_block_id (h x)) \<Longrightarrow> refs h' a' = refs h a"
  by (rule ext, rule naive_refs_cong) auto

lemma chains_cong:
  assumes "chains bs h P" "\<And>p r. p \<in> P \<Longrightarrow> r \<in> set p \<Longrightarrow> nb_prev_block (h' r) = nb_prev_block (h r) \<and> nb_block_size (h' r) = nb_block_size (h r)"
  shows "chains bs h' P"
  using assms chained_cong [of _ h' h None] unfolding chains_def by (metis (no_types, lifting))

lemma pc_ok_upto_hash:
  assumes "pc_ok HB h a P Q X" "upto_hash h h'" "hash_ok HB h' P"
  shows "pc_ok HB h' a P Q X"
proof -
  note D = pc_okD [OF assms(1)] and U = upto_hashD [OF assms(2)]
  have "objs h' a" by (rule objs_cong [OF D(1)]) (simp_all add: U)
  moreover have "refs h' a = refs h a" by (rule refs_cong) (simp_all add: U)
  moreover have "chains (pa_block_size a) h' P" by (rule chains_cong [OF D(4)]) (simp add: U)
  moreover have "content HB h' a Q" by (rule content_upto [OF D(9) assms(2)]) (use D(5) chainsD(1) [OF D(4)] in blast)
  ultimately show ?thesis using D assms(3) by (simp add: pc_ok_def pc_shape_def)
qed

lemma pc_content_hash:
  assumes "pc_ok HB h a P Q X" "p \<in> P" "content_hash HB depth h (last p) = Inr (k, h')"
  shows "k = chain_key HB h p" "pc_ok HB h' a P Q X" "upto_hash h h'" "\<And>x. x \<notin> set p \<Longrightarrow> h' x = h x"
proof -
  note D = pc_okD [OF assms(1)]
  note R = content_hash_run [OF D(4,8) assms(2,3)]
  show "k = chain_key HB h p" "upto_hash h h'" "\<And>x. x \<notin> set p \<Longrightarrow> h' x = h x" using R by blast+
  show "pc_ok HB h' a P Q X" using pc_ok_upto_hash [OF assms(1)] R by blast
qed

text \<open>A block taken for an object that is not told yet.\<close>

lemma took_content:
  assumes "pc_ok HB h a P Q X" "took h a (refs h a) b h' a'"
  shows "content HB h a' Q" "\<And>r. r \<in> pc_live a \<Longrightarrow> nb_block_id (h r) \<noteq> Some b"
proof -
  note D = pc_okD [OF assms(1)]
  have b: "refs h a b = 0" "pc_all_block_ids a' = pc_all_block_ids a"
    using assms(2) by (auto simp: took_def same_ids_def)
  show n: "\<And>r. r \<in> pc_live a \<Longrightarrow> nb_block_id (h r) \<noteq> Some b"
    using naive_refs_pos b(1) by (metis less_irrefl)
  show "content HB h a' Q"
  proof (rule content_cong [OF D(9) b(2)])
    fix q c k assume q: "q \<in> Q" "nb_block_id (h (last q)) = Some c"
    have "last q \<in> pc_live a" using D(6) q(1) by blast
    then have "c \<noteq> b" using n q(2) by auto
    then show "pa_cached_blocks a' k = Some c \<longleftrightarrow> pa_cached_blocks a k = Some c" using assms(2) by (simp add: took_def)
  qed (use D(4,5) chainsD(1) in blast)+
qed

section \<open>Objects that are not told yet\<close>

lemma chain_set: "chains bs h P \<Longrightarrow> p \<in> P \<Longrightarrow> set p \<subseteq> last ` P"
proof (induction p rule: rev_induct)
  case (snoc r p)
  have "last (p @ [r]) \<in> last ` P" using snoc.prems(2) by (rule imageI)
  then have "r \<in> last ` P" by simp
  moreover have "set p \<subseteq> last ` P"
    using snoc chainsD(5) [OF snoc.prems(1,2)] by (cases "p = []") auto
  ultimately show ?case by simp
qed simp

lemma chains_insert:
  assumes "chains bs h P" "if p = [] then prev = None else p \<in> P \<and> prev = Some (last p)" "r \<notin> last ` P"
    "nb_prev_block (h r) = prev" "nb_block_size (h r) = bs"
  shows "chains bs h (insert (p @ [r]) P)"
proof -
  have s: "set p \<subseteq> last ` P" using chain_set [OF assms(1)] assms(2) by (cases "p = []") auto
  have p: "distinct p" "chained h None p" "\<forall>x \<in> set p. nb_block_size (h x) = bs"
  proof -
    have "p = [] \<or> p \<in> P" using assms(2) by (cases "p = []") auto
    then show "distinct p" "chained h None p" "\<forall>x \<in> set p. nb_block_size (h x) = bs"
      using chainsD(2-4) [OF assms(1), of p] by auto
  qed
  have "distinct (p @ [r])" using p(1) s assms(3) by auto
  moreover have "chained h None (p @ [r])" using p(2) assms(2,4) by (auto simp: chained_append split: if_splits)
  moreover have "inj_on last (insert (p @ [r]) P)"
    using assms(1,3) by (auto simp: chains_def)
  moreover have "q \<in> insert (p @ [r]) P" if "q @ [x] \<in> insert (p @ [r]) P" "q \<noteq> []" for q x
  proof (cases "q @ [x] = p @ [r]")
    case True
    then show ?thesis using assms(2) that(2) by auto
  next
    case False
    then show ?thesis using that assms(1) unfolding chains_def by blast
  qed
  ultimately show ?thesis using assms(1,5) p(3) unfolding chains_def by auto
qed

text \<open>An object that is not told yet changes its block.\<close>

lemma pc_shape_untold:
  assumes "pc_shape HB h a P Q X" "r \<in> X" "\<And>x. x \<noteq> r \<Longrightarrow> h' x = h x" "nb_token_ids (h' r) = nb_token_ids (h r)"
    "nb_block_size (h' r) = nb_block_size (h r)" "nb_prev_block (h' r) = nb_prev_block (h r)" "nb_pool_id (h' r) = nb_pool_id (h r)"
    "xb_cached_content_hash (h' r) = xb_cached_content_hash (h r)"
    "\<And>p. p \<in> P \<Longrightarrow> last p = r \<Longrightarrow> xb_computed (h' r) \<Longrightarrow> xb_computed (h r) \<or> chain_key HB h p \<noteq> None"
    "same_ids a a'" "pa_pool a' = pa_pool a"
    "\<And>q b k. q \<in> Q \<Longrightarrow> nb_block_id (h (last q)) = Some b \<Longrightarrow> pa_cached_blocks a' k = Some b \<longleftrightarrow> pa_cached_blocks a k = Some b"
  shows "pc_shape HB h' a' P Q X"
proof -
  note D = pc_shapeD [OF assms(1)]
  have f: "nb_token_ids (h' x) = nb_token_ids (h x)" "nb_block_size (h' x) = nb_block_size (h x)"
    "nb_prev_block (h' x) = nb_prev_block (h x)" "nb_pool_id (h' x) = nb_pool_id (h x)"
    "xb_cached_content_hash (h' x) = xb_cached_content_hash (h x)" for x
    using assms(3-8) by (cases "x = r"; simp)+
  have i: "nb_block_id (h' (last q)) = nb_block_id (h (last q))" if "q \<in> Q" for q
    using that assms(2,3) D(6) by (cases "last q = r") auto
  have k: "chain_key HB h' p = chain_key HB h p" for p by (rule chain_key_cong) (simp add: f)
  have ids: "pc_all_block_ids a' = pc_all_block_ids a" "pa_block_size a' = pa_block_size a" using assms(10) by (simp_all add: same_ids_def)
  have "objs h' a'" by (rule objs_cong [OF D(1) assms(11) ids(1)]) (simp add: f)
  moreover have "chains (pa_block_size a) h' P" by (rule chains_cong [OF D(3)]) (simp add: f)
  moreover have "hash_ok HB h' P"
  proof -
    have "chain_key HB h p \<noteq> None" if "p \<in> P" "xb_computed (h' (last p))" for p
      using that assms(3,9) D(7) by (cases "last p = r") (auto simp: hash_ok_def)
    then show ?thesis using D(7) by (simp add: hash_ok_def k f)
  qed
  moreover have "content HB h' a' Q"
    by (rule content_cong [OF D(8) ids(1)]) (use i pc_shape_ne [OF assms(1)] assms(12) in \<open>auto simp: f\<close>)
  ultimately show ?thesis using D assms(11) ids(2) by (simp add: pc_shape_def)
qed

text \<open>It is told.\<close>

lemma pc_shape_tell:
  assumes "pc_shape HB h a P Q X" "p \<in> P" "last p \<in> X" "b \<in> pc_all_block_ids a" "nb_block_id (h (last p)) = Some b"
    "case chain_key HB h p of Some k \<Rightarrow> pa_cached_blocks a k = Some b | None \<Rightarrow> b \<notin> ran (pa_cached_blocks a)"
    "\<And>q. q \<in> Q \<Longrightarrow> chain_key HB h p = None \<Longrightarrow> nb_block_id (h (last q)) = Some b \<Longrightarrow>
       nb_token_ids (h (last q)) = nb_token_ids (h (last p)) \<and> (nb_token_ids (h (last p)) \<noteq> [] \<longrightarrow> toks h q = toks h p)"
  shows "pc_shape HB h a P (insert p Q) (X - {last p})"
proof -
  note D = pc_shapeD [OF assms(1)]
  have "content HB h a (insert p Q)" by (rule content_insert [OF D(8) assms(4-7)])
  moreover have "pc_live a = last ` insert p Q \<union> (X - {last p})" "last ` insert p Q \<inter> (X - {last p}) = {}"
    using D(5,6) assms(3) by auto
  ultimately show ?thesis unfolding pc_shape_def using D(1,2,3,4,7) assms(2) by (intro conjI) (assumption | simp)+
qed

text \<open>A new object, linked behind a chain.\<close>

lemma pc_shape_new:
  assumes "pc_shape HB h a P Q X" "last ` P \<subseteq> pc_live a" "if p = [] then prev = None else p \<in> P \<and> prev = Some (last p)"
    "init_block pc_block_init h (pa_pool a) prev ts (pa_block_size a) pid = Inr (r, h', pl)"
  shows "pc_shape HB h' (put_pool pl a) (insert (p @ [r]) P) Q (insert r X)"
proof -
  note D = pc_shapeD [OF assms(1)] and I = init_block_objs [OF pc_shapeD(1) [OF assms(1)] assms(4)]
  have in_live: "x \<in> pc_live a" if "q \<in> P" "x \<in> set q" for q x using chain_set [OF D(3) that(1)] that(2) assms(2) by blast
  have same: "h' x = h x" if "q \<in> P" "x \<in> set q" for q x using I(5) in_live that by blast
  have c0: "chains (pa_block_size a) h' P" by (rule chains_cong [OF D(3)]) (simp add: same)
  have rl: "r \<notin> last ` P" using assms(2) I(3) by blast
  have chains: "chains (pa_block_size a) h' (insert (p @ [r]) P)" by (rule chains_insert [OF c0 assms(3) rl I(8,7)])
  have k: "chain_key HB h' q = chain_key HB h q" if "q \<in> P" for q by (rule chain_key_cong) (use same that in simp)
  have l: "h' (last q) = h (last q)" if "q \<in> P" for q using same [OF that] chainsD(1) [OF D(3) that] by simp
  have "hash_ok HB h' (insert (p @ [r]) P)" using D(7) I(10,11) by (auto simp: hash_ok_def k l)
  moreover have "content HB h' (put_pool pl a) Q"
  proof (rule content_cong [OF D(8)])
    show "pc_all_block_ids (put_pool pl a) = pc_all_block_ids a" using I(2) by (simp add: same_ids_def)
  qed (use D(4) pc_shape_ne [OF assms(1)] same l in auto)
  moreover have "pc_live (put_pool pl a) = last ` Q \<union> insert r X" "last ` Q \<inter> insert r X = {}"
    using I(3,4) D(5,6) by auto
  ultimately show ?thesis using D(2,4) I(1) chains by (auto simp: pc_shape_def)
qed

lemma refs_new:
  assumes "pc_live a' = insert r (pc_live a)" "r \<notin> pc_live a" "\<And>x. x \<in> pc_live a \<Longrightarrow> nb_block_id (h' x) = nb_block_id (h x)"
  shows "refs h' a' = (case nb_block_id (h' r) of None \<Rightarrow> refs h a | Some b \<Rightarrow> (refs h a)(b := Suc (refs h a b)))"
proof
  fix c
  have "{x \<in> pc_live a'. nb_block_id (h' x) = Some c} = (if nb_block_id (h' r) = Some c
      then insert r {x \<in> pc_live a. nb_block_id (h x) = Some c} else {x \<in> pc_live a. nb_block_id (h x) = Some c})"
    using assms by auto
  then show "refs h' a' c = (case nb_block_id (h' r) of None \<Rightarrow> refs h a | Some b \<Rightarrow> (refs h a)(b := Suc (refs h a b))) c"
    using assms(2) by (auto simp: naive_refs_def split: option.splits)
qed

lemma refs_upd:
  assumes "r \<in> pc_live a" "pc_live a' = pc_live a" "\<And>x. x \<noteq> r \<Longrightarrow> nb_block_id (h' x) = nb_block_id (h x)"
  shows "refs h' a' c + (if nb_block_id (h r) = Some c then 1 else 0) = refs h a c + (if nb_block_id (h' r) = Some c then 1 else 0)"
proof -
  have "refs h' a' c = refs h' a c" using assms(2) by (simp add: naive_refs_def)
  then show ?thesis using naive_refs_upd [OF assms(1), of h' h c] assms(3) by simp
qed

end
