(* ===== verification/Prefix_Steps.thy ===== *)
theory Prefix_Steps
  imports Prefix_Content
begin

text \<open>Each operation of the prefix caching allocator keeps the invariant.\<close>

abbreviation prev_of :: "bref list set \<Rightarrow> bref list \<Rightarrow> bref option \<Rightarrow> bool" where
  "prev_of P p prev \<equiv> if p = [] then prev = None else p \<in> P \<and> prev = Some (last p)"

lemma books_pool: "books a u \<Longrightarrow> books (put_pool p a) u"
  by (erule books_cong) (simp_all add: pc_all_block_ids_def)

lemma same_ids_pool: "same_ids a a' \<Longrightarrow> pc_all_block_ids a' = pc_all_block_ids a" "same_ids a a' \<Longrightarrow> pa_block_size a' = pa_block_size a"
  by (simp_all add: same_ids_def)

lemma pc_all_block_ids_put [simp]:
  "pc_all_block_ids (put_pool p a) = pc_all_block_ids a" "pc_all_block_ids (put_refcounter rc a) = pc_all_block_ids a"
  by (simp_all add: pc_all_block_ids_def)

section \<open>Allocating a mutable block\<close>

lemma pc_shape_took:
  assumes "pc_ok HB h a P Q X" "took h a (refs h a) b h' a'" "last ` P \<subseteq> pc_live a"
  shows "pc_shape HB h' a' P Q X" "refs h' a' = refs h a" "pc_live a' = pc_live a" "same_ids a a'" "\<And>x. x \<in> pc_live a \<Longrightarrow> h' x = h x"
    "\<And>q. q \<in> Q \<Longrightarrow> nb_block_id (h' (last q)) \<noteq> Some b" "b \<in> pc_all_block_ids a'" "b \<notin> ran (pa_cached_blocks a')"
    "refs h a b = 0" "books a' ((refs h a)(b := 1))"
    "\<And>p. p \<in> P \<Longrightarrow> chain_key HB h' p = chain_key HB h p" "\<And>p. p \<in> P \<Longrightarrow> toks h' p = toks h p"
proof -
  note D = pc_okD [OF assms(1)]
  have T: "same_ids a a'" "pc_live a' = pc_live a" "objs h' a'" "\<And>x. x \<in> pc_live a \<Longrightarrow> h' x = h x"
    using assms(2) by (auto simp: took_def)
  have same: "h' x = h x" if "q \<in> P" "x \<in> set q" for q x using T(4) chain_set [OF D(4) that(1)] that(2) assms(3) by blast
  have l: "h' (last q) = h (last q)" if "q \<in> P" for q using same [OF that] chainsD(1) [OF D(4) that] by simp
  have ids: "pc_all_block_ids a' = pc_all_block_ids a" "pa_block_size a' = pa_block_size a" using T(1) by (simp_all add: same_ids_def)
  show "pc_live a' = pc_live a" "same_ids a a'" "\<And>x. x \<in> pc_live a \<Longrightarrow> h' x = h x" by (fact T)+
  show "b \<in> pc_all_block_ids a'" "b \<notin> ran (pa_cached_blocks a')" "refs h a b = 0" "books a' ((refs h a)(b := 1))"
    using assms(2) ids by (auto simp: took_def)
  show k: "chain_key HB h' p = chain_key HB h p" if "p \<in> P" for p by (rule chain_key_cong) (use same that in simp)
  show "toks h' p = toks h p" if "p \<in> P" for p using same [OF that] by (simp add: toks_def)
  show "refs h' a' = refs h a" by (rule refs_cong [OF T(2)]) (simp add: T(4))
  show "nb_block_id (h' (last q)) \<noteq> Some b" if "q \<in> Q" for q
    using took_content(2) [OF assms(1,2), of "last q"] l [of q] D(5,6) that by auto
  have "chains (pa_block_size a) h' P" by (rule chains_cong [OF D(4)]) (simp add: same)
  moreover have "hash_ok HB h' P" using D(8) by (simp add: hash_ok_def k l)
  moreover have "content HB h' a' Q"
    by (rule content_cong [OF took_content(1) [OF assms(1,2)]]) (use D(5) pc_ok_ne [OF assms(1)] same l in auto)
  ultimately show "pc_shape HB h' a' P Q X" using D T ids by (simp add: pc_shape_def)
qed

lemma mutable_run:
  assumes "pc_ok HB h a P Q X" "last ` P \<subseteq> pc_live a" "prev_of P p prev"
    "pc_allocate_mutable_block HB depth h a prev = Inr (r, h', a')"
  shows "pc_ok HB h' a' (insert (p @ [r]) P) (insert (p @ [r]) Q) X" "r \<notin> pc_live a" "pc_live a' = insert r (pc_live a)"
    "nb_token_ids (h' r) = []" "\<And>x. x \<in> pc_live a \<Longrightarrow> h' x = h x" "same_ids a a'"
proof -
  note D = pc_okD [OF assms(1)]
  obtain b h1 a1 h2 pl k where al: "pc_allocate_block_id h a = Inr (b, h1, a1)"
    and ib: "init_block pc_block_init h1 (pa_pool a1) prev [] (pa_block_size a1) (Some b) = Inr (r, h2, pl)"
    and ch: "content_hash HB depth h2 r = Inr (None, h')" and a': "a' = put_pool pl a1"
    using assms(4) by (auto simp: pc_allocate_mutable_block_def)
  note T = pc_shape_took [OF assms(1) pc_allocate_block_id_took [OF D(2,1) al] assms(2)]
  note I = init_block_objs [OF pc_shapeD(1) [OF T(1)] ib]
  have nf: "\<not> is_full (h2 r)" using I(6,7) pc_shapeD(2) [OF T(1)] by (simp add: is_full_def num_empty_slots_def)
  then have h': "h' = h2" using ch I(10) by (cases depth) simp_all
  have refs: "refs h2 a' = (refs h a)(b := 1)"
    using refs_new [of a' r a1 h2 h1] I(3,4,5,9) T(2,9) by (simp add: a')
  have l1: "last ` P \<subseteq> pc_live a1" using assms(2) T(3) by simp
  have S: "pc_shape HB h2 a' (insert (p @ [r]) P) Q (insert r X)"
    using pc_shape_new [OF T(1) l1 assms(3) ib] by (simp add: a')
  have rX: "r \<notin> X" using I(3) pc_shapeD(5) [OF T(1)] by simp
  have id: "nb_block_id (h2 (last q)) \<noteq> Some b" if "q \<in> Q" for q
    using T(6) [OF that] I(5) pc_shapeD(5) [OF T(1)] that by auto
  have "pc_shape HB h2 a' (insert (p @ [r]) P) (insert (p @ [r]) Q) (insert r X - {last (p @ [r])})"
    by (rule pc_shape_tell [OF S]) (use T(7,8) I(9) nf id in \<open>auto simp: a' chain_key_snoc\<close>)
  moreover have "books a' (refs h2 a')" unfolding refs unfolding a' by (rule books_pool [OF T(10)])
  ultimately show "pc_ok HB h' a' (insert (p @ [r]) P) (insert (p @ [r]) Q) X" using rX by (simp add: pc_ok_def h')
  show "r \<notin> pc_live a" "pc_live a' = insert r (pc_live a)" using I(3,4) T(3) by (simp_all add: a')
  show "nb_token_ids (h' r) = []" using I(6) by (simp add: h')
  show "h' x = h x" if "x \<in> pc_live a" for x using I(5) T(3,5) that by (simp add: h')
  show "same_ids a a'" using same_ids_trans [OF T(4) I(2)] by (simp add: a')
qed

section \<open>Appending tokens\<close>

lemma chain_key_not_full: "p \<noteq> [] \<Longrightarrow> \<not> is_full (h (last p)) \<Longrightarrow> chain_key HB h p = None"
  by (auto simp: chain_key_def list_all_iff)

text \<open>The last block that is not empty gets more tokens: its chain is not told any more.\<close>

lemma shape_append:
  assumes "pc_shape HB h a P Q {}" "p \<in> Q" "r = last p" "chain_key HB h p = None"
    "\<And>q. q \<in> P \<Longrightarrow> r \<in> set q \<Longrightarrow> q \<noteq> p \<Longrightarrow> nb_token_ids (h (last q)) = []"
    "h' = h(r := (h r)\<lparr>nb_token_ids := ts\<rparr>)"
  shows "pc_shape HB h' a P (Q - {p}) {r}"
proof -
  note D = pc_shapeD [OF assms(1)]
  have pP: "p \<in> P" using D(4) assms(2) by blast
  have f: "nb_block_size (h' x) = nb_block_size (h x)" "nb_prev_block (h' x) = nb_prev_block (h x)"
    "nb_block_id (h' x) = nb_block_id (h x)" "nb_pool_id (h' x) = nb_pool_id (h x)"
    "xb_cached_content_hash (h' x) = xb_cached_content_hash (h x)" "xb_computed (h' x) = xb_computed (h x)" for x
    by (simp_all add: assms(6))
  have t: "nb_token_ids (h' x) = nb_token_ids (h x)" if "x \<noteq> r" for x using that by (simp add: assms(6))
  have lst: "last q \<noteq> r" if "q \<in> P" "q \<noteq> p" for q using chainsD(6) [OF D(3) pP that(1)] that(2) assms(3) by blast
  have nf: "\<not> is_full (h (last q))" "\<not> is_full (h' (last q))" if "q \<in> P" "q \<noteq> p" "r \<in> set q" for q
  proof -
    have "last q \<in> set q" using chainsD(1) [OF D(3) that(1)] by simp
    then have "nb_block_size (h (last q)) = pa_block_size a" using chainsD(4) [OF D(3) that(1)] by blast
    then show "\<not> is_full (h (last q))" "\<not> is_full (h' (last q))"
      using assms(5) [OF that(1,3,2)] t [OF lst [OF that(1,2)]] D(2) by (simp_all add: is_full_def num_empty_slots_def f)
  qed
  have k: "chain_key HB h' q = chain_key HB h q" if "q \<in> P" "q \<noteq> p" for q
  proof (cases "r \<in> set q")
    case True
    have "q \<noteq> []" using chainsD(1) [OF D(3) that(1)] .
    then show ?thesis using chain_key_not_full nf [OF that True] by metis
  next
    case False
    show ?thesis by (rule chain_key_cong) (use False t f in metis)
  qed
  have "objs h' a" by (rule objs_cong [OF D(1)]) (simp_all add: f)
  moreover have "chains (pa_block_size a) h' P" by (rule chains_cong [OF D(3)]) (simp add: f)
  moreover have "hash_ok HB h' P" unfolding hash_ok_def
  proof (intro ballI)
    fix q assume q: "q \<in> P"
    show "(\<forall>k. xb_cached_content_hash (h' (last q)) = Some k \<longrightarrow> chain_key HB h' q = Some k) \<and>
        (xb_computed (h' (last q)) \<longrightarrow> chain_key HB h' q \<noteq> None)"
      using D(7) q k [OF q] assms(4) unfolding hash_ok_def f by (cases "q = p") auto
  qed
  moreover have "content HB h' a (Q - {p})"
  proof (rule content_keys [OF content_mono [OF D(8)]])
    fix q assume q: "q \<in> Q - {p}"
    then have qP: "q \<in> P" "q \<noteq> p" using D(4) by auto
    show "chain_key HB h' q = chain_key HB h q" by (rule k [OF qP])
    show "nb_token_ids (h' (last q)) = nb_token_ids (h (last q))" by (rule t [OF lst [OF qP]])
    show "nb_block_id (h' (last q)) = nb_block_id (h (last q))" by (rule f)
    assume "nb_token_ids (h (last q)) \<noteq> []"
    then have "r \<notin> set q" using assms(5) qP by blast
    then have "\<forall>x \<in> set q. nb_token_ids (h' x) = nb_token_ids (h x)" using t by metis
    then show "toks h' q = toks h q" by (simp add: toks_def)
  qed auto
  moreover have "pc_live a = last ` (Q - {p}) \<union> {r}"
  proof -
    have "last ` Q = insert r (last ` (Q - {p}))" using assms(2,3) by (metis image_insert insert_Diff)
    then show ?thesis using D(5) by auto
  qed
  moreover have "last ` (Q - {p}) \<inter> {r} = {}" using lst D(4) by auto
  ultimately show ?thesis using D(2,4) by (auto simp: pc_shape_def)
qed

text \<open>Copy on write: afterwards the object alone refers to its block.\<close>

definition alone :: "pc_block store \<Rightarrow> pc_allocator \<Rightarrow> bref \<Rightarrow> block_id \<Rightarrow> bool" where
  "alone h a r i \<longleftrightarrow> nb_block_id (h r) = Some i \<and> i \<in> pc_all_block_ids a \<and> i \<notin> ran (pa_cached_blocks a) \<and>
     (\<forall>x \<in> pc_live a. nb_block_id (h x) = Some i \<longrightarrow> x = r)"

lemma refs_alone: "alone h a r i \<Longrightarrow> r \<in> pc_live a \<Longrightarrow> refs h a i = 1"
proof -
  assume "alone h a r i" "r \<in> pc_live a"
  then have "{x \<in> pc_live a. nb_block_id (h x) = Some i} = {r}" unfolding alone_def by blast
  then show ?thesis by (simp add: naive_refs_def)
qed

lemma alone_refs:
  assumes "refs h a i = 1" "r \<in> pc_live a" "nb_block_id (h r) = Some i" "i \<in> pc_all_block_ids a" "i \<notin> ran (pa_cached_blocks a)"
  shows "alone h a r i"
proof -
  obtain y where "{x \<in> pc_live a. nb_block_id (h x) = Some i} = {y}" using assms(1) by (auto simp: naive_refs_def card_1_singleton_iff)
  then have "x = y" if "x \<in> pc_live a" "nb_block_id (h x) = Some i" for x using that by blast
  then show ?thesis using assms(2-5) unfolding alone_def by metis
qed

lemma set_block_id_again [simp]: "set_block_id (set_block_id h r b) r c = set_block_id h r c"
  by (simp add: set_block_id_def)

lemma set_block_id_same: "nb_block_id (h r) = b \<Longrightarrow> set_block_id h r b = h"
  by (auto simp: set_block_id_def)

lemma set_block_id_more [simp]:
  "xb_cached_content_hash (set_block_id h r b x) = xb_cached_content_hash (h x)"
  "xb_computed (set_block_id h r b x) = xb_computed (h x)" "xb_num_tokens_total (set_block_id h r b x) = xb_num_tokens_total (h x)"
  by (simp_all add: set_block_id_def)

lemma shape_set_block_id:
  assumes "pc_shape HB h a P Q X" "r \<in> X" "same_ids a a'" "pa_pool a' = pa_pool a"
    "\<And>q b k. q \<in> Q \<Longrightarrow> nb_block_id (h (last q)) = Some b \<Longrightarrow> pa_cached_blocks a' k = Some b \<longleftrightarrow> pa_cached_blocks a k = Some b"
  shows "pc_shape HB (set_block_id h r b) a' P Q X"
  by (rule pc_shape_untold [OF assms(1,2)]) (use assms(3-5) in \<open>auto simp: set_block_id_def\<close>)

lemma cow_run:
  assumes "pc_ok HB h a P Q {r}" "nb_block_id (h r) = Some src" "src \<in> pc_all_block_ids a" "src \<notin> ran (pa_cached_blocks a)"
    "last ` P \<subseteq> pc_live a" "pc_cow_block_if_not_appendable h a r = Inr (i, h1, a')" "h' = set_block_id h1 r (Some i)"
  shows "pc_ok HB h' a' P Q {r}" "alone h' a' r i" "h' r = (h r)\<lparr>nb_block_id := Some i\<rparr>" "pc_live a' = pc_live a"
    "\<And>x. x \<in> pc_live a \<Longrightarrow> x \<noteq> r \<Longrightarrow> h' x = h x" "same_ids a a'"
proof -
  note D = pc_okD [OF assms(1)]
  have live: "r \<in> pc_live a" using D(6) by simp
  have pos: "0 < refs h a src" using naive_refs_pos live assms(2) by blast
  have rc: "refcounts (pa_refcounter a) src = Some (int (refs h a src))" using booksD(4) [OF D(2) assms(3)] .
  have "pc_ok HB h' a' P Q {r} \<and> alone h' a' r i \<and> h' r = (h r)\<lparr>nb_block_id := Some i\<rparr> \<and> pc_live a' = pc_live a \<and>
    (\<forall>x \<in> pc_live a. x \<noteq> r \<longrightarrow> h' x = h x) \<and> same_ids a a'"
  proof (cases "refs h a src \<le> 1")
    case True
    then have e: "i = src" "h1 = h" "a' = a" using assms(2,6) rc
      by (auto simp: pc_cow_block_if_not_appendable_def is_appendable_Some)
    then have h': "h' = h" using assms(2,7) by (simp add: set_block_id_same)
    have "alone h a r src" by (rule alone_refs) (use True pos live assms(2-4) in auto)
    then show ?thesis using assms(1,2) by (simp add: e h')
  next
    case False
    obtain h2 a2 a3 t where dr: "decr_refcount_hashless_block h a r = Inr (h2, a2)"
      and al: "pc_allocate_block_id h2 a2 = Inr (i, h1, a3)" and a': "a' = a3\<lparr>pa_cow_tracker := t\<rparr>"
      using assms(2,6) rc False by (auto simp: pc_cow_block_if_not_appendable_def is_appendable_Some)
    obtain a20 where "decr_refcount_hashless_block h a r = Inr (set_block_id h r None, a20)" "dropped a (refs h a) src a20"
      using decr_hashless_books [OF D(2), of h r src] assms(2-4) pos by blast
    then have h2: "h2 = set_block_id h r None" and dp: "dropped a (refs h a) src a2" using dr by simp_all
    have d: "books a2 ((refs h a)(src := refs h a src - 1))" "pa_cached_blocks a2 = pa_cached_blocks a" "same_ids a a2"
      "pa_pool a2 = pa_pool a" using dp by (simp_all add: dropped_def)
    have refs2: "refs h2 a2 = (refs h a)(src := refs h a src - 1)"
    proof
      fix c show "refs h2 a2 c = ((refs h a)(src := refs h a src - 1)) c"
        using refs_upd [OF live, of a2 h2 h c] assms(2) by (auto simp: d(4) h2 split: if_splits)
    qed
    have S2: "pc_ok HB h2 a2 P Q {r}"
      using shape_set_block_id [OF pc_ok_shape [OF assms(1)] _ d(3,4), of r None] d(1,2) refs2 by (simp add: pc_ok_def h2)
    have l2: "last ` P \<subseteq> pc_live a2" using assms(5) d(4) by simp
    note T = pc_shape_took [OF S2 pc_allocate_block_id_took [OF pc_okD(2,1) [OF S2] al] l2]
    have l3: "pc_live a3 = pc_live a" using T(3) d(4) by simp
    have s3: "same_ids a3 a'" "pa_pool a' = pa_pool a3" by (simp_all add: a' same_ids_def pc_all_block_ids_def)
    have S3: "pc_shape HB h' a' P Q {r}" unfolding assms(7)
      by (rule shape_set_block_id [OF T(1) _ s3]) (simp_all add: a')
    have id3: "nb_block_id (h1 x) \<noteq> Some i" if "x \<in> pc_live a" for x
      using T(2,9) naive_refs_pos [of x "pa_hashless_allocator a3" h1 i] that l3 by auto
    have "refs h' a' = (refs h2 a2)(i := 1)"
    proof
      fix c
      have "refs h' a' c + (if nb_block_id (h1 r) = Some c then 1 else 0) = refs h1 a3 c + (if nb_block_id (h' r) = Some c then 1 else 0)"
        by (rule refs_upd) (use live l3 s3 in \<open>simp_all add: assms(7)\<close>)
      moreover have "nb_block_id (h1 r) = None" using T(5) [of r] live d(4) by (simp add: h2)
      ultimately show "refs h' a' c = ((refs h2 a2)(i := 1)) c" using T(2,9) by (auto simp: assms(7))
    qed
    moreover have "books a' ((refs h2 a2)(i := 1))" by (rule books_cong [OF T(10)]) (simp_all add: a' pc_all_block_ids_def)
    ultimately have "pc_ok HB h' a' P Q {r}" using S3 by (simp add: pc_ok_def)
    moreover have "alone h' a' r i"
      using T(7,8) id3 s3(2) l3 by (auto simp: alone_def assms(7) a' pc_all_block_ids_def)
    moreover have "h' r = (h r)\<lparr>nb_block_id := Some i\<rparr>" using T(5) [of r] live d(4) by (simp add: assms(7) h2 set_block_id_def)
    moreover have "h' x = h x" if "x \<in> pc_live a" "x \<noteq> r" for x using T(5) [of x] that d(4) by (simp add: assms(7) h2 set_block_id_def)
    moreover have "same_ids a a'" using same_ids_trans [OF d(3) same_ids_trans [OF T(4) s3(1)]] .
    ultimately show ?thesis using l3 s3 by simp
  qed
  then show "pc_ok HB h' a' P Q {r}" "alone h' a' r i" "h' r = (h r)\<lparr>nb_block_id := Some i\<rparr>" "pc_live a' = pc_live a"
    "\<And>x. x \<in> pc_live a \<Longrightarrow> x \<noteq> r \<Longrightarrow> h' x = h x" "same_ids a a'" by blast+
qed

text \<open>The block becomes known under its hash, or is given up for the one that is.\<close>

lemma alone_ids: "alone h a r i \<Longrightarrow> pc_ok HB h a P Q {r} \<Longrightarrow> q \<in> Q \<Longrightarrow> nb_block_id (h (last q)) \<noteq> Some i"
  using pc_okD(6,7) unfolding alone_def by fast

lemma alone_upto_hash: "alone h a r i \<Longrightarrow> upto_hash h h' \<Longrightarrow> alone h' a r i"
  by (simp add: alone_def upto_hashD)

lemma promote_run:
  assumes "pc_ok HB h a P Q {r}" "alone h a r i" "p \<in> P" "last p = r"
    "promote_to_immutable_block HB depth h a r = Inr (c, h1, a')" "h' = set_block_id h1 r (Some c)"
  shows "pc_ok HB h' a' P (insert p Q) {}" "pc_live a' = pc_live a" "same_ids a a'"
    "\<And>x. nb_token_ids (h' x) = nb_token_ids (h x)" "\<And>x. x \<noteq> r \<Longrightarrow> nb_block_id (h' x) = nb_block_id (h x)"
proof -
  obtain k h0 where ch: "content_hash HB depth h (last p) = Inr (Some k, h0)"
    using assms(4,5) by (auto simp: promote_to_immutable_block_def bindE_eq_Inr split: option.splits)
  have up: "nb_block_id (h0 r) = Some i"
  proof -
    have "upto_hash h h0" using content_hash_run [OF pc_okD(4,8) [OF assms(1)] assms(3) ch] by blast
    then show ?thesis using assms(2) by (simp add: alone_def upto_hashD(4))
  qed
  have rest: "(case pa_cached_blocks a k of
       None \<Rightarrow> Inr (i, h0, a\<lparr>pa_cached_blocks := (pa_cached_blocks a)(k \<mapsto> i), pa_touched_blocks := insert i (pa_touched_blocks a)\<rparr>)
     | Some c \<Rightarrow>
         bindE (decr_refcount_hashless_block h0 a r) (\<lambda>(h, a).
         bindE (incr_refcount_cached_block (set_block_id h r (Some c)) a r) (\<lambda>(h, a).
         Inr (c, h, a)))) = Inr (c, h1, a')"
    using assms(5) ch up by (auto simp: promote_to_immutable_block_def assms(4))
  note C = pc_content_hash [OF assms(1,3) ch]
  note D = pc_okD [OF C(2)]
  note al = alone_upto_hash [OF assms(2) C(3)]
  have i: "nb_block_id (h0 r) = Some i" "i \<in> pc_all_block_ids a" "i \<notin> ran (pa_cached_blocks a)" using al by (auto simp: alone_def)
  have live: "r \<in> pc_live a" using D(6) by simp
  have one: "refs h0 a i = 1" by (rule refs_alone [OF al live])
  have key: "chain_key HB h0 p = Some k" using C(1) upto_hash_key [OF C(3)] by metis
  note fr = upto_hashD [OF C(3)]
  have ids: "nb_block_id (h0 (last q)) \<noteq> Some i" if "q \<in> Q" for q using alone_ids [OF al C(2) that] .
  have r: "last p \<in> {r}" "{r} - {last p} = {}" using assms(4) by simp_all
  have "pc_ok HB h' a' P (insert p Q) {} \<and> pc_live a' = pc_live a \<and> same_ids a a' \<and>
    (\<forall>x. nb_token_ids (h' x) = nb_token_ids (h0 x)) \<and> (\<forall>x. x \<noteq> r \<longrightarrow> nb_block_id (h' x) = nb_block_id (h0 x))"
  proof (cases "pa_cached_blocks a k")
    case None
    then have e: "c = i" "h1 = h0" "a' = a\<lparr>pa_cached_blocks := (pa_cached_blocks a)(k \<mapsto> i), pa_touched_blocks := insert i (pa_touched_blocks a)\<rparr>"
      using rest by auto
    have h': "h' = h0" using i(1) by (simp add: assms(6) e set_block_id_same)
    have s: "same_ids a a'" "pa_pool a' = pa_pool a" "refs h0 a' = refs h0 a" by (simp_all add: e same_ids_def pc_all_block_ids_def)
    have bk: "books a' (refs h0 a)" by (rule cached_books [OF D(2) None i(3,2) _ e(3)]) (simp add: one)
    have "pc_shape HB h0 a' P Q {r}"
      by (rule pc_shape_untold [OF pc_ok_shape [OF C(2)], of r]) (use s ids None in \<open>auto simp: e\<close>)
    from pc_shape_tell [OF this assms(3) r(1), of i] have "pc_shape HB h0 a' P (insert p Q) ({r} - {last p})"
      using i key assms(4) by (simp add: e pc_all_block_ids_def)
    then show ?thesis using bk s by (simp add: pc_ok_def h' r(2))
  next
    case (Some c')
    obtain h2 a2 where dr: "decr_refcount_hashless_block h0 a r = Inr (h2, a2)"
      and inc: "incr_refcount_cached_block (set_block_id h2 r (Some c')) a2 r = Inr (h1, a')" and c: "c = c'"
      using rest Some by auto
    have "0 < refs h0 a i" using one by simp
    then obtain a20 where "decr_refcount_hashless_block h0 a r = Inr (set_block_id h0 r None, a20)" "dropped a (refs h0 a) i a20"
      using decr_hashless_books [OF D(2), of h0 r i] i by blast
    then have h2: "h2 = set_block_id h0 r None" and dp: "dropped a (refs h0 a) i a2" using dr by simp_all
    have d: "books a2 ((refs h0 a)(i := 0))" "pa_cached_blocks a2 = pa_cached_blocks a" "same_ids a a2" "pa_pool a2 = pa_pool a"
      using dp one by (simp_all add: dropped_def)
    define h3 where "h3 = set_block_id h0 r (Some c)"
    have e3: "set_block_id h2 r (Some c') = h3" by (simp add: h2 h3_def c)
    have idc: "nb_block_id (h3 r) = Some c" by (simp add: h3_def)
    obtain a30 where "incr_refcount_cached_block h3 a2 r = Inr (h3(r := (h3 r)\<lparr>xb_computed := True\<rparr>), a30)"
      "books a30 (((refs h0 a)(i := 0))(c := Suc (((refs h0 a)(i := 0)) c)))" "pa_cached_blocks a30 = pa_cached_blocks a2"
      "same_ids a2 a30" "pa_pool a30 = pa_pool a2"
      using incr_cached_books [of a2 "(refs h0 a)(i := 0)" h3 r c k] d(1) idc Some by (metis c d(2))
    then have h1: "h1 = h3(r := (h3 r)\<lparr>xb_computed := True\<rparr>)" and a': "books a' (((refs h0 a)(i := 0))(c := Suc (((refs h0 a)(i := 0)) c)))"
      "pa_cached_blocks a' = pa_cached_blocks a" "same_ids a a'" "pa_pool a' = pa_pool a"
      using inc d same_ids_trans by (auto simp: e3)
    have h': "h' = h1" by (simp add: assms(6) h1 idc set_block_id_same)
    have ne: "c \<noteq> i" using Some i(3) by (auto simp: ran_def c)
    have refs: "refs h1 a' = ((refs h0 a)(i := 0))(c := Suc (((refs h0 a)(i := 0)) c))"
    proof
      fix x
      have "refs h1 a' x + (if nb_block_id (h0 r) = Some x then 1 else 0) = refs h0 a x + (if nb_block_id (h1 r) = Some x then 1 else 0)"
        by (rule refs_upd [OF live]) (simp_all add: a' h1 h3_def)
      then show "refs h1 a' x = (((refs h0 a)(i := 0))(c := Suc (((refs h0 a)(i := 0)) c))) x"
        using i(1) ne one by (auto simp: h1 h3_def split: if_splits)
    qed
    have "pc_shape HB h1 a' P Q {r}"
    proof (rule pc_shape_untold [OF pc_ok_shape [OF C(2)], of r])
      fix q assume "q \<in> P" "last q = r"
      then have "q = p" using chainsD(6) [OF D(4) assms(3)] assms(4) by simp
      then show "xb_computed (h0 r) \<or> chain_key HB h0 q \<noteq> None" using key by simp
    qed (simp_all add: h1 h3_def a' set_block_id_def)
    moreover have "c \<in> pc_all_block_ids a'" using booksD(10) [OF D(2)] Some a'(3) by (simp add: c same_ids_def)
    moreover have "chain_key HB h1 p = Some k" using key chain_key_cong [of p h1 h0 HB] by (simp add: h1 h3_def)
    ultimately have "pc_shape HB h1 a' P (insert p Q) ({r} - {last p})"
      using pc_shape_tell [OF _ assms(3) r(1), of HB h1 a' Q c] Some a'(2) assms(4) by (simp add: h1 h3_def c)
    then show ?thesis using a' refs by (simp add: pc_ok_def r(2) h') (simp add: h1 h3_def)
  qed
  then show "pc_ok HB h' a' P (insert p Q) {}" "pc_live a' = pc_live a" "same_ids a a'"
    "\<And>x. nb_token_ids (h' x) = nb_token_ids (h x)" "\<And>x. x \<noteq> r \<Longrightarrow> nb_block_id (h' x) = nb_block_id (h x)"
    using fr by auto
qed

text \<open>The number of tokens, and the hashes, can be stored at any time.\<close>

lemma pc_ok_count:
  assumes "pc_ok HB h a P Q {r}" "alone h a r i" "h' = h(r := update_num_tokens_total h (h r))"
  shows "pc_ok HB h' a P Q {r}" "alone h' a r i" "nb_token_ids (h' x) = nb_token_ids (h x)" "nb_block_id (h' x) = nb_block_id (h x)"
proof -
  have f: "nb_token_ids (h' x) = nb_token_ids (h x)" "nb_block_id (h' x) = nb_block_id (h x)" for x
    by (simp_all add: assms(3) update_num_tokens_total_def)
  show "nb_token_ids (h' x) = nb_token_ids (h x)" "nb_block_id (h' x) = nb_block_id (h x)" by (fact f)+
  have "pc_shape HB h' a P Q {r}"
    by (rule pc_shape_untold [OF pc_ok_shape [OF assms(1)], of r]) (simp_all add: assms(3) update_num_tokens_total_def)
  moreover have "refs h' a = refs h a" by (rule refs_cong) (simp_all add: f)
  ultimately show "pc_ok HB h' a P Q {r}" using pc_okD(2) [OF assms(1)] by (simp add: pc_ok_def)
  show "alone h' a r i" using assms(2) by (simp add: alone_def f)
qed

lemma append_run:
  assumes "pc_ok HB h a P Q {}" "p \<in> Q" "last p = r" "last ` P \<subseteq> pc_live a"
    "\<And>q. q \<in> P \<Longrightarrow> r \<in> set q \<Longrightarrow> q \<noteq> p \<Longrightarrow> nb_token_ids (h (last q)) = []"
    "pc_append_token_ids HB depth h a r ts = Inr (h', a')"
  shows "pc_ok HB h' a' P Q {}" "pc_live a' = pc_live a" "same_ids a a'"
    "\<And>x. x \<in> pc_live a \<Longrightarrow> nb_token_ids (h' x) = nb_token_ids (h x) @ (if x = r then ts else [])"
    "\<And>x. x \<in> pc_live a \<Longrightarrow> x \<noteq> r \<Longrightarrow> nb_block_id (h' x) = nb_block_id (h x)"
proof -
  have pP: "p \<in> P" using assms(2) pc_okD(5) [OF assms(1)] by blast
  obtain h1 where ch: "content_hash HB depth h (last p) = Inr (None, h1)"
    using assms(3,6) by (auto simp: pc_append_token_ids_def)
  note C = pc_content_hash [OF assms(1) pP ch]
  note D = pc_okD [OF C(2)] and fr = upto_hashD [OF C(3)]
  have live: "r \<in> pc_live a" using D(6) assms(2,3) by auto
  have key: "chain_key HB h1 p = None" using C(1) upto_hash_key [OF C(3)] by simp
  have "pc_ok HB h' a' P Q {} \<and> pc_live a' = pc_live a \<and> same_ids a a' \<and>
    (\<forall>x \<in> pc_live a. nb_token_ids (h' x) = nb_token_ids (h1 x) @ (if x = r then ts else [])) \<and>
    (\<forall>x \<in> pc_live a. x \<noteq> r \<longrightarrow> nb_block_id (h' x) = nb_block_id (h1 x))"
  proof (cases "ts = []")
    case True
    then have "h' = h1" "a' = a" using assms(3,6) ch by (auto simp: pc_append_token_ids_def)
    then show ?thesis using C(2) True by simp
  next
    case False
    define h2 where "h2 = h1(r := (h1 r)\<lparr>nb_token_ids := nb_token_ids (h1 r) @ ts\<rparr>)"
    obtain src where src: "src \<in> pc_all_block_ids a" "nb_block_id (h1 r) = Some src" "src \<notin> ran (pa_cached_blocks a)"
      using contentD [OF D(9) assms(2)] key assms(3) by auto
    obtain i h3 a3 h4 k h5 where cow: "pc_cow_block_if_not_appendable h2 a r = Inr (i, h3, a3)"
      and h4: "h4 = (set_block_id h3 r (Some i))(r := update_num_tokens_total (set_block_id h3 r (Some i)) (set_block_id h3 r (Some i) r))"
      and ch4: "content_hash HB depth h4 (last p) = Inr (k, h5)"
      and rest: "(if k = None then Inr (h5, a3) else bindE (promote_to_immutable_block HB depth h5 a3 r) (\<lambda>(i, h, a).
               Inr (set_block_id h r (Some i), a))) = Inr (h', a')"
      using assms(3,6) ch False src(2)
      by (auto simp: pc_append_token_ids_def append_token_ids_no_cow_Inr h2_def Let_def simp del: if_split)
    have S: "pc_shape HB h2 a P (Q - {p}) {r}"
      by (rule shape_append [OF pc_ok_shape [OF C(2)] assms(2) assms(3) [symmetric] key _ h2_def]) (use assms(5) in \<open>simp add: fr\<close>)
    have "refs h2 a = refs h1 a" by (rule refs_cong) (simp_all add: h2_def)
    then have ok2: "pc_ok HB h2 a P (Q - {p}) {r}" using S D(2) by (simp add: pc_ok_def)
    define h3' where "h3' = set_block_id h3 r (Some i)"
    have id2: "nb_block_id (h2 r) = Some src" using src by (simp add: h2_def)
    note W = cow_run [OF ok2 id2 src(1,3) assms(4) cow h3'_def]
    note N = pc_ok_count [OF W(1,2) h4 [folded h3'_def]]
    have tk: "nb_token_ids (h4 x) = nb_token_ids (h1 x) @ (if x = r then ts else [])" if "x \<in> pc_live a" for x
      using N(3) W(3) W(5) [OF that] by (cases "x = r") (simp_all add: h2_def)
    have bi: "nb_block_id (h4 x) = nb_block_id (h1 x)" if "x \<in> pc_live a" "x \<noteq> r" for x
      using N(4) W(5) [OF that] that(2) by (simp add: h2_def)
    note C4 = pc_content_hash [OF N(1) pP ch4]
    note al = alone_upto_hash [OF N(2) C4(3)] and f4 = upto_hashD [OF C4(3)]
    have Q: "insert p (Q - {p}) = Q" "insert p Q = Q" using assms(2) by auto
    show ?thesis
    proof (cases k)
      case None
      then have e: "h' = h5" "a' = a3" using rest by auto
      have "chain_key HB h5 p = None" using None C4(1) upto_hash_key [OF C4(3)] by simp
      then have "pc_shape HB h5 a3 P (insert p (Q - {p})) ({r} - {last p})"
        using pc_shape_tell [OF pc_ok_shape [OF C4(2)] pP, of i] al assms(3) alone_ids [OF al C4(2)] by (simp add: alone_def)
      then have "pc_ok HB h' a' P Q {}" using pc_okD(2) [OF C4(2)] assms(3) by (simp add: pc_ok_def Q e)
      then show ?thesis using W(4,6) tk bi by (simp add: e f4)
    next
      case (Some k')
      then obtain c h6 where pr: "promote_to_immutable_block HB depth h5 a3 r = Inr (c, h6, a')" "h' = set_block_id h6 r (Some c)"
        using rest by auto
      note M = promote_run [OF C4(2) al pP assms(3) pr]
      have "same_ids a a'" using same_ids_trans [OF W(6) M(3)] .
      then show ?thesis using M W(4) tk bi by (simp add: Q f4)
    qed
  qed
  then show "pc_ok HB h' a' P Q {}" "pc_live a' = pc_live a" "same_ids a a'"
    "\<And>x. x \<in> pc_live a \<Longrightarrow> nb_token_ids (h' x) = nb_token_ids (h x) @ (if x = r then ts else [])"
    "\<And>x. x \<in> pc_live a \<Longrightarrow> x \<noteq> r \<Longrightarrow> nb_block_id (h' x) = nb_block_id (h x)"
    by (simp_all add: fr)
qed

end
