(* ===== verification/Prefix_Tables.thy ===== *)
theory Prefix_Tables
  imports Prefix_Steps
begin

text \<open>Whole chains of blocks: allocating a full block behind one, forking one, freeing one.\<close>

lemma content_alloc:
  "pc_all_block_ids a' = pc_all_block_ids a \<Longrightarrow> pa_cached_blocks a' = pa_cached_blocks a \<Longrightarrow> content HB h a' Q = content HB h a Q"
  by (simp only: content_def)

lemma pc_ok_tracked:
  assumes "pc_ok HB h a P Q X" "pa_hashless_allocator a' = pa_hashless_allocator a" "pa_cached_blocks a' = pa_cached_blocks a"
    "pa_block_size a' = pa_block_size a" "books a' (refs h a)"
  shows "pc_ok HB h a' P Q X"
proof -
  note D = pc_okD [OF assms(1)]
  have ids: "pc_all_block_ids a' = pc_all_block_ids a" using assms(2) by (simp add: pc_all_block_ids_def)
  have "content HB h a' Q" using D(9) content_alloc [OF ids assms(3)] by simp
  moreover have "objs h a'" using D(1) ids assms(2) by (simp add: objs_def)
  ultimately show ?thesis using D assms(2,4,5) by (simp add: pc_ok_def pc_shape_def)
qed

lemma pc_ok_metric: "pc_ok HB h a P Q X \<Longrightarrow> pc_ok HB h (a\<lparr>pa_metric_data := m\<rparr>) P Q X"
  by (rule pc_ok_tracked, assumption) (auto intro!: books_cong [OF pc_okD(2)] simp: pc_all_block_ids_def)

lemma pc_ok_all_live: "pc_ok HB h a P P {} \<Longrightarrow> last ` P = pc_live a"
  using pc_okD(6) by blast

section \<open>Allocating a full block\<close>

text \<open>The object made to look the content up.\<close>

lemma probe_run:
  assumes "pc_ok HB h a P P {}" "prev_of P p prev"
    "init_block pc_block_init h (pa_pool a) prev ts (pa_block_size a) None = Inr (r, h1, pl)"
  shows "pc_ok HB h1 (put_pool pl a) (insert (p @ [r]) P) P {r}"
proof -
  note I = init_block_objs [OF pc_okD(1) [OF assms(1)] assms(3)]
  have "pc_shape HB h1 (put_pool pl a) (insert (p @ [r]) P) P (insert r {})"
    by (rule pc_shape_new [OF pc_ok_shape [OF assms(1)] _ assms(2,3)]) (use pc_ok_all_live [OF assms(1)] in simp)
  moreover have "refs h1 (put_pool pl a) = refs h a" using refs_new [of "put_pool pl a" r a h1 h] I(3,4,5,9) by simp
  moreover have "books (put_pool pl a) (refs h a)" by (rule books_pool [OF pc_okD(2) [OF assms(1)]])
  ultimately show ?thesis by (simp add: pc_ok_def)
qed

lemma probe_dropped:
  assumes "pc_ok HB h a (insert (p @ [r]) P) P {r}" "nb_block_id (h r) = None" "chains (pa_block_size a) h P"
    "a' = put_pool (pool_free_block (pa_pool a) (h r)) a"
  shows "pc_ok HB h a' P P {}" "pc_live a' = pc_live a - {r}" "same_ids a a'"
proof -
  note D = pc_okD [OF assms(1)]
  have live: "r \<in> pc_live a" using D(6) by simp
  note F = free_object_objs [OF D(1) live refl, folded assms(4)]
  show l: "pc_live a' = pc_live a - {r}" and "same_ids a a'" by (fact F)+
  have rf: "refs h a' = refs h a"
  proof
    fix c
    have "{x \<in> pc_live a'. nb_block_id (h x) = Some c} = {x \<in> pc_live a. nb_block_id (h x) = Some c}"
      unfolding l using assms(2) by auto
    then show "refs h a' c = refs h a c" by (simp only: naive_refs_def)
  qed
  have "books a' (refs h a)" unfolding assms(4) by (rule books_pool [OF D(2)])
  moreover have "hash_ok HB h P" using D(8) by (simp add: hash_ok_def)
  moreover have "content HB h a' P" 
    by (rule content_alloc [THEN iffD2, OF _ _ D(9)]) (use F(2) in \<open>simp_all add: same_ids_def assms(4)\<close>)
  moreover have "pc_live a' = last ` P" using l D(6,7) by auto
  ultimately show "pc_ok HB h a' P P {}" using D(3) F(1) assms(3) unfolding rf [symmetric]
    unfolding pc_ok_def pc_shape_def by (simp add: assms(4))
qed

lemma hit_run:
  assumes "pc_ok HB h a P Q {r}" "p \<in> P" "last p = r" "nb_block_id (h r) = None" "chain_key HB h p = Some k"
    "pa_cached_blocks a k = Some b" "incr_refcount_cached_block (set_block_id h r (Some b)) a r = Inr (h', a')"
  shows "pc_ok HB h' a' P (insert p Q) {}" "pc_live a' = pc_live a" "same_ids a a'"
    "\<And>x. x \<noteq> r \<Longrightarrow> h' x = h x" "nb_token_ids (h' r) = nb_token_ids (h r)" "nb_block_id (h' r) = Some b"
proof -
  note D = pc_okD [OF assms(1)]
  define h1 where "h1 = set_block_id h r (Some b)"
  have id: "nb_block_id (h1 r) = Some b" by (simp add: h1_def)
  obtain a0 where "incr_refcount_cached_block h1 a r = Inr (h1(r := (h1 r)\<lparr>xb_computed := True\<rparr>), a0)"
    "books a0 ((refs h a)(b := Suc (refs h a b)))" "pa_cached_blocks a0 = pa_cached_blocks a" "same_ids a a0" "pa_pool a0 = pa_pool a"
    using incr_cached_books [of a "refs h a" h1 r b k] D(2) id assms(6) by metis
  then have h': "h' = h1(r := (h1 r)\<lparr>xb_computed := True\<rparr>)" and a': "books a' ((refs h a)(b := Suc (refs h a b)))"
    "pa_cached_blocks a' = pa_cached_blocks a" "same_ids a a'" "pa_pool a' = pa_pool a"
    using assms(7) by (auto simp: h1_def)
  have live: "r \<in> pc_live a" using D(6) by simp
  show "pc_live a' = pc_live a" "same_ids a a'" using a' by simp_all
  show s: "h' x = h x" if "x \<noteq> r" for x using that by (simp add: h' h1_def set_block_id_def)
  show t: "nb_token_ids (h' r) = nb_token_ids (h r)" "nb_block_id (h' r) = Some b" by (simp_all add: h' h1_def)
  have refs: "refs h' a' = (refs h a)(b := Suc (refs h a b))"
  proof
    fix x
    have "refs h' a' x + (if nb_block_id (h r) = Some x then 1 else 0) = refs h a x + (if nb_block_id (h' r) = Some x then 1 else 0)"
      by (rule refs_upd [OF live]) (simp_all add: a' s)
    then show "refs h' a' x = ((refs h a)(b := Suc (refs h a b))) x" using assms(4) t(2) by (auto split: if_splits)
  qed
  have "pc_shape HB h' a' P Q {r}"
  proof (rule pc_shape_untold [OF pc_ok_shape [OF assms(1)], of r])
    fix q assume "q \<in> P" "last q = r"
    then have "q = p" using chainsD(6) [OF D(4) assms(2)] assms(3) by simp
    then show "xb_computed (h r) \<or> chain_key HB h q \<noteq> None" using assms(5) by simp
  qed (simp_all add: h' h1_def set_block_id_def a')
  moreover have "chain_key HB h' p = chain_key HB h p"
    by (rule chain_key_cong) (simp add: h' h1_def)
  moreover have "b \<in> pc_all_block_ids a'" using booksD(10) [OF D(2) assms(6)] a'(3) by (simp add: same_ids_def)
  ultimately have "pc_shape HB h' a' P (insert p Q) ({r} - {last p})"
    using pc_shape_tell [OF _ assms(2), of HB h' a' Q "{r}" b] t(2) a'(2) assms(3,5,6) by simp
  then show "pc_ok HB h' a' P (insert p Q) {}" using a' refs assms(3) by (simp add: pc_ok_def)
qed

definition grown :: "block_hash \<Rightarrow> pc_block store \<Rightarrow> pc_allocator \<Rightarrow> bref list set \<Rightarrow> bref list \<Rightarrow> bref \<Rightarrow>
    token_id list \<Rightarrow> pc_block store \<Rightarrow> pc_allocator \<Rightarrow> bool" where
  "grown HB h a P p r ts h' a' \<longleftrightarrow> pc_ok HB h' a' (insert (p @ [r]) P) (insert (p @ [r]) P) {} \<and> r \<notin> pc_live a \<and>
     pc_live a' = insert r (pc_live a) \<and> same_ids a a' \<and> nb_token_ids (h' r) = ts \<and>
     (\<forall>x \<in> pc_live a. nb_token_ids (h' x) = nb_token_ids (h x) \<and> nb_block_id (h' x) = nb_block_id (h x))"

lemma mutable_grown:
  assumes "pc_ok HB h a P P {}" "prev_of P p prev" "pc_allocate_mutable_block HB depth h a prev = Inr (r, h', a')"
  shows "grown HB h a P p r [] h' a'"
proof -
  have "last ` P \<subseteq> pc_live a" using pc_ok_all_live [OF assms(1)] by simp
  note M = mutable_run [OF assms(1) this assms(2,3)]
  show ?thesis unfolding grown_def by (intro conjI ballI M) (simp_all add: M)
qed

lemma in_chain_live: "pc_ok HB h a P P {} \<Longrightarrow> q \<in> P \<Longrightarrow> x \<in> set q \<Longrightarrow> x \<in> pc_live a"
  using chain_set [OF pc_okD(4)] pc_ok_all_live by blast

lemma put_metric: "pa_metric_data (put_pool p a) = pa_metric_data a"
  by (simp add: put_pool_def)

text \<open>A mutable block is taken and filled.\<close>

lemma filled_grown:
  assumes "grown HB h a P p r [] h1 a1" "pc_ok HB h a P P {}" "pc_append_token_ids HB depth h1 a1 r ts = Inr (h', a')"
  shows "grown HB h a P p r ts h' a'"
proof -
  have g: "pc_ok HB h1 a1 (insert (p @ [r]) P) (insert (p @ [r]) P) {}" "r \<notin> pc_live a" "pc_live a1 = insert r (pc_live a)"
    "same_ids a a1" "nb_token_ids (h1 r) = []"
    "\<And>x. x \<in> pc_live a \<Longrightarrow> nb_token_ids (h1 x) = nb_token_ids (h x) \<and> nb_block_id (h1 x) = nb_block_id (h x)"
    using assms(1) by (simp_all add: grown_def)
  have "r \<notin> set q" if "q \<in> P" for q using in_chain_live [OF assms(2) that] g(2) by blast
  then have later: "nb_token_ids (h1 (last q)) = []" if "q \<in> insert (p @ [r]) P" "r \<in> set q" "q \<noteq> p @ [r]" for q
    using that by blast
  have sub: "last ` insert (p @ [r]) P \<subseteq> pc_live a1" using pc_ok_all_live [OF g(1)] by simp
  note A = append_run [OF g(1) insertI1 last_snoc sub later assms(3)]
  show ?thesis unfolding grown_def
  proof (intro conjI ballI)
    show "same_ids a a'" using same_ids_trans [OF g(4) A(3)] .
    show "nb_token_ids (h' x) = nb_token_ids (h x)" "nb_block_id (h' x) = nb_block_id (h x)" if x: "x \<in> pc_live a" for x
    proof -
      have "x \<noteq> r" using x g(2) by blast
      then show "nb_token_ids (h' x) = nb_token_ids (h x)" "nb_block_id (h' x) = nb_block_id (h x)"
        using A(4,5) [of x] g(3) g(6) [OF x] x by simp_all
    qed
  qed (use A g in simp_all)
qed

lemma immutable_grown:
  assumes "pc_ok HB h a P P {}" "prev_of P p prev" "pc_allocate_immutable_block HB depth h a prev ts = Inr (r, h', a')"
  shows "grown HB h a P p r ts h' a'"
proof -
  obtain r0 h1 pl k h2 where ib: "init_block pc_block_init h (pa_pool a) prev ts (pa_block_size a) None = Inr (r0, h1, pl)"
    and ch: "content_hash HB depth h1 (last (p @ [r0])) = Inr (Some k, h2)"
    and rest: "(case pa_cached_blocks a k of
       Some b \<Rightarrow>
         bindE (incr_refcount_cached_block (set_block_id h2 r0 (Some b))
                  (put_pool pl a\<lparr>pa_metric_data := cm_query True (pa_metric_data a)\<rparr>) r0) (\<lambda>(h, a).
         Inr (r0, h, a))
     | None \<Rightarrow>
         bindE (pc_allocate_mutable_block HB depth h2 (put_pool (pool_free_block pl (h2 r0)) (put_pool pl a\<lparr>pa_metric_data := cm_query False (pa_metric_data a)\<rparr>)) prev) (\<lambda>(block, h, a).
         bindE (pc_append_token_ids HB depth h a block ts) (\<lambda>(h, a).
         Inr (block, h, a)))) = Inr (r, h', a')"
    using assms(3) by (auto simp: pc_allocate_immutable_block_def Let_def put_metric cong: option.case_cong)
  note I = init_block_objs [OF pc_okD(1) [OF assms(1)] ib]
  define a1 where "a1 = put_pool pl a"
  note C = pc_content_hash [OF probe_run [OF assms(1,2) ib, folded a1_def] insertI1 ch]
  note u = upto_hashD [OF C(3)]
  have key: "chain_key HB h2 (p @ [r0]) = Some k" using C(1) upto_hash_key [OF C(3)] by simp
  have a1: "pc_live a1 = insert r0 (pc_live a)" "same_ids a a1" using I(2,4) by (simp_all add: a1_def)
  have keep: "nb_token_ids (h2 x) = nb_token_ids (h x)" "nb_block_id (h2 x) = nb_block_id (h x)" if "x \<in> pc_live a" for x
    using I(5) [OF that] by (simp_all add: u)
  show ?thesis
  proof (cases "pa_cached_blocks a k")
    case (Some b)
    define a2 where "a2 = a1\<lparr>pa_metric_data := cm_query True (pa_metric_data a)\<rparr>"
    have ok: "pc_ok HB h2 a2 (insert (p @ [r0]) P) P {r0}" unfolding a2_def by (rule pc_ok_metric [OF C(2)])
    have r: "r = r0" and inc: "incr_refcount_cached_block (set_block_id h2 r (Some b)) a2 r = Inr (h', a')"
      using rest Some by (auto simp: a2_def a1_def)
    have f: "nb_block_id (h2 r) = None" "pa_cached_blocks a2 k = Some b" "same_ids a1 a2" "pc_live a2 = pc_live a1"
      using I(9) Some by (simp_all add: u r a2_def a1_def same_ids_def pc_all_block_ids_def)
    note H = hit_run [OF ok [folded r] insertI1 _ f(1) key [folded r] f(2) inc, simplified]
    show ?thesis unfolding grown_def
    proof (intro conjI ballI)
      show "same_ids a a'" using same_ids_trans [OF a1(2) same_ids_trans [OF f(3) H(3)]] .
      show "nb_token_ids (h' r) = ts" using H(5) I(6) by (simp add: u r)
      show "nb_token_ids (h' x) = nb_token_ids (h x)" "nb_block_id (h' x) = nb_block_id (h x)" if "x \<in> pc_live a" for x
        using H(4) [of x] keep [OF that] I(3) that by (cases "x = r"; simp add: r)+
    qed (use H I(3) f(4) a1(1) in \<open>simp_all add: r\<close>)
  next
    case None
    define a2 where "a2 = put_pool (pool_free_block (pa_pool a1) (h2 r0)) a1"
    define a3 where "a3 = a2\<lparr>pa_metric_data := cm_query False (pa_metric_data a)\<rparr>"
    have a3: "a3 = put_pool (pool_free_block pl (h2 r0)) (put_pool pl a\<lparr>pa_metric_data := cm_query False (pa_metric_data a)\<rparr>)"
      by (simp add: a3_def a2_def a1_def put_pool_def)
    obtain h4 a4 where mu: "pc_allocate_mutable_block HB depth h2 a3 prev = Inr (r, h4, a4)"
      and ap: "pc_append_token_ids HB depth h4 a4 r ts = Inr (h', a')"
      using rest None by (auto simp: a3)
    have id: "nb_block_id (h2 r0) = None" using I(9) by (simp add: u)
    have "chains (pa_block_size a) h2 P"
      by (rule chains_cong [OF pc_okD(4) [OF assms(1)]]) (use I(5) in_chain_live [OF assms(1)] in \<open>simp add: u\<close>)
    then have "chains (pa_block_size a1) h2 P" by (simp add: a1_def)
    note R = probe_dropped [OF C(2) id this a2_def]
    have ok: "pc_ok HB h2 a3 P P {}" unfolding a3_def by (rule pc_ok_metric [OF R(1)])
    have l3: "pc_live a3 = pc_live a" using R(2) a1(1) I(3) by (simp add: a3_def)
    have "same_ids a2 a3" by (simp add: a3_def same_ids_def pc_all_block_ids_def)
    then have s3: "same_ids a a3" using same_ids_trans [OF a1(2) same_ids_trans [OF R(3)]] by blast
    have G: "grown HB h2 a3 P p r ts h' a'"
      by (rule filled_grown [OF mutable_grown [OF ok assms(2) mu] ok ap])
    then show ?thesis using same_ids_trans [OF s3, of a'] keep by (auto simp: grown_def l3)
  qed
qed

section \<open>Forking a chain\<close>

lemma incr_books:
  assumes "books a u" "b \<in> pc_all_block_ids a" "0 < u b" "rc_incr (pa_refcounter a) b = Inr (n, rc)"
  shows "books (put_refcounter rc a) (u(b := Suc (u b)))"
proof -
  note D = booksD [OF assms(1)]
  have rc: "rc = (pa_refcounter a)\<lparr>refcounts := (refcounts (pa_refcounter a))(b \<mapsto> int (u b) + 1)\<rparr>"
    using assms(4) D(4) [OF assms(2)] by auto
  have f: "pc_all_block_ids (put_refcounter rc a) = pc_all_block_ids a"
    "refcounts (pa_refcounter (put_refcounter rc a)) = (refcounts (pa_refcounter a))(b \<mapsto> int (u b) + 1)"
    "free_block_indices (pa_hashless_allocator (put_refcounter rc a)) = free_block_indices (pa_hashless_allocator a)"
    by (simp_all add: rc)
  have tr: "tr_active t = (0 < (u(b := Suc (u b))) c)" if "pa_block_tracker a c = Some t" for c t
    using D(5) [OF that] assms(3) by simp
  have fr: "c \<in> set (free_block_indices (pa_hashless_allocator a)) \<union> fst ` set (pa_evictor a) \<longleftrightarrow>
      c \<in> pc_all_block_ids a \<and> (u(b := Suc (u b))) c = 0" for c using D(9) [of c] assms(3) by auto
  show ?thesis by (rule booksI; unfold f put_simps(4,6,8)) (use D assms(2) tr fr in auto)
qed

lemma chain_key_toks:
  assumes "chains bs h P" "p \<in> P" "q \<in> P" "toks h p = toks h q"
  shows "chain_key HB h p = chain_key HB h q"
proof -
  have "list_all (\<lambda>r. is_full (h r)) w = list_all (\<lambda>t. length t = bs) (toks h w)" if "w \<in> P" for w
    using chainsD(4) [OF assms(1) that] by (auto simp: list_all_iff toks_def is_full_def num_empty_slots_def)
  then show ?thesis using assms(2-4) by (simp add: chain_key_def)
qed

lemma chains_prefix: "chains bs h P \<Longrightarrow> p @ u \<in> P \<Longrightarrow> p \<noteq> [] \<Longrightarrow> p \<in> P"
proof (induction u rule: rev_induct)
  case (snoc x u)
  then show ?case using chainsD(5) [OF snoc.prems(1,2), of "p @ u" x] by simp
qed simp

lemma pc_shape_alloc:
  assumes "pc_shape HB h a P Q X" "pa_pool a' = pa_pool a" "pc_all_block_ids a' = pc_all_block_ids a"
    "pa_cached_blocks a' = pa_cached_blocks a" "pa_block_size a' = pa_block_size a"
  shows "pc_shape HB h a' P Q X"
proof -
  note D = pc_shapeD [OF assms(1)]
  have "objs h a'" by (rule objs_cong [OF D(1) assms(2,3)]) simp
  then show ?thesis using D assms(2,5) content_alloc [OF assms(3,4)] by (simp add: pc_shape_def)
qed

lemma copy_grown:
  assumes "pc_ok HB h a P P {}" "prev_of P p prev" "d @ [x] \<in> P" "toks h p = toks h d" "nb_block_id (h x) = Some b"
    "rc_incr (pa_refcounter a) b = Inr (n, rc)"
    "init_block pc_block_init h (pa_pool a) prev (nb_token_ids (h x)) (pa_block_size a) (Some b) = Inr (r, h', pl)"
  shows "grown HB h a P p r (nb_token_ids (h x)) h' (put_pool pl (put_refcounter rc a))" "nb_block_id (h' r) = Some b"
proof -
  note D = pc_okD [OF assms(1)]
  define a1 where "a1 = put_refcounter rc a"
  have a1: "pa_pool a1 = pa_pool a" "pc_all_block_ids a1 = pc_all_block_ids a" "pa_cached_blocks a1 = pa_cached_blocks a"
    "pa_block_size a1 = pa_block_size a" "same_ids a a1" by (simp_all add: a1_def same_ids_def)
  have ib: "init_block pc_block_init h (pa_pool a1) prev (nb_token_ids (h x)) (pa_block_size a1) (Some b) = Inr (r, h', pl)"
    using assms(7) by (simp add: a1)
  have S1: "pc_shape HB h a1 P P {}" by (rule pc_shape_alloc [OF pc_ok_shape [OF assms(1)] a1(1-4)])
  note I = init_block_objs [OF pc_shapeD(1) [OF S1] ib]
  have live: "x \<in> pc_live a" using in_chain_live [OF assms(1,3)] by simp
  have b: "b \<in> pc_all_block_ids a" using contentD [OF D(9) assms(3)] assms(5) by auto
  have "0 < refs h a b" using naive_refs_pos live assms(5) by blast
  note B = incr_books [OF D(2) b this assms(6)]
  define a2 where "a2 = put_pool pl a1"
  have l: "pc_live a2 = insert r (pc_live a)" "r \<notin> pc_live a" using I(3,4) a1(1) by (simp_all add: a2_def)
  have same: "h' y = h y" if "y \<in> pc_live a" for y using I(5) that a1(1) by simp
  have S2: "pc_shape HB h' a2 (insert (p @ [r]) P) P {r}"
    unfolding a2_def by (rule pc_shape_new [OF S1 _ assms(2) ib]) (use pc_ok_all_live [OF assms(1)] a1(1) in simp)
  have rf: "refs h' a2 = (refs h a)(b := Suc (refs h a b))"
    using refs_new [of a2 r a h' h] l same I(9) by simp
  have bk: "books a2 (refs h' a2)" unfolding rf by (simp only: a2_def) (rule books_pool [OF B [folded a1_def]])
  have tp: "toks h' q = toks h q" if "q \<in> P" for q using in_chain_live [OF assms(1) that] same by (simp add: toks_def)
  have tp': "toks h' p = toks h d"
  proof (cases "p = []")
    case True
    then show ?thesis using assms(4) by (simp add: toks_def)
  next
    case False
    then show ?thesis using tp [of p] assms(2,4) by simp
  qed
  have td: "toks h' (d @ [x]) = toks h d @ [nb_token_ids (h x)]" using tp [OF assms(3)] by (simp add: toks_def)
  have tr: "toks h' (p @ [r]) = toks h' (d @ [x])" using tp' I(6) unfolding td by (simp add: toks_def)
  note C2 = pc_shapeD [OF S2]
  have key: "chain_key HB h' (p @ [r]) = chain_key HB h' (d @ [x])"
    by (rule chain_key_toks [OF C2(3) _ _ tr]) (use assms(3) in auto)
  have idx: "nb_block_id (h' (last (d @ [x]))) = Some b" using same [OF live] assms(5) by simp
  have ctx: "case chain_key HB h' (d @ [x]) of Some k \<Rightarrow> pa_cached_blocks a2 k = Some b | None \<Rightarrow> b \<notin> ran (pa_cached_blocks a2)"
  proof (rule contentD [OF C2(8) assms(3)])
    fix b' assume b': "nb_block_id (h' (last (d @ [x]))) = Some b'"
      "case chain_key HB h' (d @ [x]) of Some k \<Rightarrow> pa_cached_blocks a2 k = Some b' | None \<Rightarrow> b' \<notin> ran (pa_cached_blocks a2)"
    have "b' = b" using b'(1) idx by simp
    then show ?thesis using b'(2) by fast
  qed
  have sh: "nb_token_ids (h' (last q)) = nb_token_ids (h' r) \<and> (nb_token_ids (h' r) \<noteq> [] \<longrightarrow> toks h' q = toks h' (p @ [r]))"
    if "q \<in> P" "chain_key HB h' (p @ [r]) = None" "nb_block_id (h' (last q)) = Some b" for q
  proof -
    have "nb_block_id (h' (last q)) = nb_block_id (h' (last (d @ [x])))" "chain_key HB h' (d @ [x]) = None"
      using that idx key by simp_all
    note Z = content_shared [OF C2(8) assms(3) that(1) this(2,1)]
    have "nb_token_ids (h' (last (d @ [x]))) = nb_token_ids (h' r)" using same [OF live] I(6) by simp
    then show ?thesis using Z tr by simp
  qed
  have "pc_shape HB h' a2 (insert (p @ [r]) P) (insert (p @ [r]) P) ({r} - {last (p @ [r])})"
    by (rule pc_shape_tell [OF S2, of _ b]) (use b a1(2) I(9) ctx key sh in \<open>auto simp: a2_def\<close>)
  then have "pc_ok HB h' a2 (insert (p @ [r]) P) (insert (p @ [r]) P) {}" using bk by (simp add: pc_ok_def)
  moreover have "same_ids a a2" using same_ids_trans [OF a1(5) I(2)] by (simp add: a2_def)
  ultimately show "grown HB h a P p r (nb_token_ids (h x)) h' (put_pool pl (put_refcounter rc a))"
    using l same I(6) by (simp add: grown_def a2_def a1_def)
  show "nb_block_id (h' r) = Some b" by (rule I(9))
qed

lemma toks_snoc: "toks h (p @ [r]) = toks h p @ [nb_token_ids (h r)]"
  by (simp add: toks_def)

text \<open>The chains that begin with \<open>p\<close> and end in \<open>t\<close>.\<close>

definition beyond :: "bref list \<Rightarrow> bref list \<Rightarrow> bref list set" where
  "beyond p t = {q. strict_prefix p q \<and> prefix q t}"

lemma beyond_self [simp]: "beyond p p = {}"
  by (auto simp: beyond_def)

lemma beyond_Cons: "beyond p (p @ r # rs) = insert (p @ [r]) (beyond (p @ [r]) (p @ r # rs))"
proof (rule set_eqI)
  fix q
  show "q \<in> beyond p (p @ r # rs) \<longleftrightarrow> q \<in> insert (p @ [r]) (beyond (p @ [r]) (p @ r # rs))"
    by (auto simp: beyond_def strict_prefix_def prefix_def append_eq_append_conv2 Cons_eq_append_conv)
qed

lemma beyond_snoc: "beyond [] (p @ [r]) = insert (p @ [r]) (beyond [] p)"
  by (auto simp: beyond_def strict_prefix_def prefix_snoc)

lemma beyond_Nil: "q \<in> beyond [] t \<longleftrightarrow> q \<noteq> [] \<and> prefix q t"
  by (auto simp: beyond_def strict_prefix_def)

lemma fork_blocks_run:
  assumes "pc_ok HB h a P P {}" "prev_of P p prev" "s = [] \<or> d @ s \<in> P" "toks h p = toks h d"
    "pc_fork_blocks h a prev s = Inr (rs, h', a')"
  shows "pc_ok HB h' a' (P \<union> beyond p (p @ rs)) (P \<union> beyond p (p @ rs)) {} \<and> same_ids a a' \<and> pc_live a \<subseteq> pc_live a' \<and>
    set rs \<inter> pc_live a = {} \<and> toks h' rs = toks h s \<and> map (\<lambda>r. nb_block_id (h' r)) rs = map (\<lambda>r. nb_block_id (h r)) s \<and>
    (\<forall>x \<in> pc_live a. nb_token_ids (h' x) = nb_token_ids (h x) \<and> nb_block_id (h' x) = nb_block_id (h x))"
  using assms
proof (induction s arbitrary: h a P p prev d rs)
  case Nil
  then show ?case by (simp add: toks_def)
next
  case (Cons x s)
  obtain b n rc r h1 pl rs1 where b: "nb_block_id (h x) = Some b" and inc: "rc_incr (pa_refcounter a) b = Inr (n, rc)"
    and ib: "init_block pc_block_init h (pa_pool a) prev (nb_token_ids (h x)) (pa_block_size a) (Some b) = Inr (r, h1, pl)"
    and fk: "pc_fork_blocks h1 (put_pool pl (put_refcounter rc a)) (Some r) s = Inr (rs1, h', a')" and rs: "rs = r # rs1"
    using Cons.prems(5) by (auto simp del: rc_incr_Inr)
  define a1 where "a1 = put_pool pl (put_refcounter rc a)"
  define P1 where "P1 = insert (p @ [r]) P"
  have dx: "d @ x # s \<in> P" using Cons.prems(3) by simp
  have dP: "d @ [x] \<in> P" using chains_prefix [OF pc_okD(4) [OF Cons.prems(1)], of "d @ [x]" s] dx by simp
  note G = copy_grown [OF Cons.prems(1,2) dP Cons.prems(4) b inc ib, folded a1_def]
  have g: "pc_ok HB h1 a1 P1 P1 {}" "r \<notin> pc_live a" "pc_live a1 = insert r (pc_live a)" "same_ids a a1"
    "nb_token_ids (h1 r) = nb_token_ids (h x)"
    "\<And>y. y \<in> pc_live a \<Longrightarrow> nb_token_ids (h1 y) = nb_token_ids (h y) \<and> nb_block_id (h1 y) = nb_block_id (h y)"
    using G(1) by (simp_all add: grown_def P1_def)
  have live: "y \<in> pc_live a" if "q \<in> P" "y \<in> set q" for q y using in_chain_live [OF Cons.prems(1) that] .
  have pl: "y \<in> pc_live a" if "y \<in> set p" for y using that Cons.prems(2) live by (cases "p = []") auto
  have prev1: "prev_of P1 (p @ [r]) (Some r)" by (simp add: P1_def)
  have s1: "s = [] \<or> (d @ [x]) @ s \<in> P1" using dx by (simp add: P1_def)
  have "toks h1 p = toks h p" using pl g(6) by (simp add: toks_def)
  moreover have "toks h1 d = toks h d" using live [OF dP] g(6) by (simp add: toks_def)
  moreover have "nb_token_ids (h1 x) = nb_token_ids (h x)" using live [OF dP] g(6) by simp
  ultimately have "toks h1 (p @ [r]) = toks h1 (d @ [x])" using Cons.prems(4) g(5) by (simp only: toks_snoc)
  note IH = Cons.IH [OF g(1) prev1 s1 this fk [folded a1_def]]
  have P: "P1 \<union> beyond (p @ [r]) ((p @ [r]) @ rs1) = P \<union> beyond p (p @ rs)" using beyond_Cons [of p r rs1] by (auto simp: P1_def rs)
  have keep: "nb_token_ids (h' y) = nb_token_ids (h y)" "nb_block_id (h' y) = nb_block_id (h y)" if "y \<in> pc_live a" for y
    using IH g(3) g(6) [OF that] that by simp_all
  have "toks h' rs = toks h (x # s)" "map (\<lambda>r. nb_block_id (h' r)) rs = map (\<lambda>r. nb_block_id (h r)) (x # s)"
    using IH g(3,5) G(2) b live [OF dx] g(6) by (simp_all add: rs toks_def)
  moreover have "same_ids a a'" using same_ids_trans [OF g(4)] IH by blast
  ultimately show ?case using IH g(2,3) keep unfolding P by (auto simp: rs)
qed

lemma fork_run:
  assumes "pc_ok HB h a P P {}" "p \<in> P" "pc_fork depth h a (last p) = Inr (rs, h', a')"
  shows "pc_ok HB h' a' (P \<union> beyond [] rs) (P \<union> beyond [] rs) {}" "same_ids a a'" "set rs \<inter> pc_live a = {}"
    "toks h' rs = toks h p" "map (\<lambda>r. nb_block_id (h' r)) rs = map (\<lambda>r. nb_block_id (h r)) p" "pc_live a \<subseteq> pc_live a'"
    "\<And>x. x \<in> pc_live a \<Longrightarrow> nb_token_ids (h' x) = nb_token_ids (h x) \<and> nb_block_id (h' x) = nb_block_id (h x)"
proof -
  note C = chainsD [OF pc_okD(4) [OF assms(1)] assms(2)]
  obtain bs where "get_all_blocks_recursively depth h (last p) = Inr bs" "pc_fork_blocks h a None bs = Inr (rs, h', a')"
    using assms(3) by (auto simp: pc_fork_def)
  then have "pc_fork_blocks h a None p = Inr (rs, h', a')" using get_all_blocks_chained [OF C(3,1)] by blast
  then have "pc_ok HB h' a' (P \<union> beyond [] ([] @ rs)) (P \<union> beyond [] ([] @ rs)) {} \<and> same_ids a a' \<and> pc_live a \<subseteq> pc_live a' \<and>
    set rs \<inter> pc_live a = {} \<and> toks h' rs = toks h p \<and> map (\<lambda>r. nb_block_id (h' r)) rs = map (\<lambda>r. nb_block_id (h r)) p \<and>
    (\<forall>x \<in> pc_live a. nb_token_ids (h' x) = nb_token_ids (h x) \<and> nb_block_id (h' x) = nb_block_id (h x))"
    by (intro fork_blocks_run [OF assms(1), where d = "[]"]) (use assms(2) in simp_all)
  then show "pc_ok HB h' a' (P \<union> beyond [] rs) (P \<union> beyond [] rs) {}" "same_ids a a'" "set rs \<inter> pc_live a = {}"
    "toks h' rs = toks h p" "map (\<lambda>r. nb_block_id (h' r)) rs = map (\<lambda>r. nb_block_id (h r)) p" "pc_live a \<subseteq> pc_live a'"
    "\<And>x. x \<in> pc_live a \<Longrightarrow> nb_token_ids (h' x) = nb_token_ids (h x) \<and> nb_block_id (h' x) = nb_block_id (h x)"
    by auto
qed

section \<open>Freeing a chain\<close>

lemma pc_ok_dropped:
  assumes "pc_ok HB h a P Q {}" "p \<in> Q" "last p = r" "nb_block_id (h r) = Some b" "dropped a (refs h a) b a1"
    "h' = set_block_id h r None" "a' = put_pool (pool_free_block (pa_pool a1) (h' r)) a1"
  shows "pc_ok HB h' a' P (Q - {p}) {}" "pc_live a' = pc_live a - {r}" "same_ids a a'"
proof -
  note D = pc_okD [OF assms(1)]
  have d: "books a1 ((refs h a)(b := refs h a b - 1))" "pa_cached_blocks a1 = pa_cached_blocks a" "same_ids a a1" "pa_pool a1 = pa_pool a"
    using assms(5) by (simp_all add: dropped_def)
  have pP: "p \<in> P" using D(5) assms(2) by blast
  have live: "r \<in> pc_live a" using D(6) assms(2,3) by auto
  have f: "nb_token_ids (h' x) = nb_token_ids (h x)" "nb_block_size (h' x) = nb_block_size (h x)"
    "nb_prev_block (h' x) = nb_prev_block (h x)" "nb_pool_id (h' x) = nb_pool_id (h x)"
    "xb_cached_content_hash (h' x) = xb_cached_content_hash (h x)" "xb_computed (h' x) = xb_computed (h x)" for x
    by (simp_all add: assms(6))
  have other: "last q \<noteq> r" if "q \<in> Q - {p}" for q
    using chainsD(6) [OF D(4) pP, of q] that D(5) assms(3) by auto
  have ids1: "pc_all_block_ids a1 = pc_all_block_ids a" "pa_block_size a1 = pa_block_size a" using d(3) by (simp_all add: same_ids_def)
  have o1: "objs h' a1" by (rule objs_cong [OF D(1) d(4) ids1(1)]) (simp add: f)
  have live1: "r \<in> pc_live a1" using live d(4) by simp
  note F = free_object_objs [OF o1 live1 refl, folded assms(7)]
  show l: "pc_live a' = pc_live a - {r}" using F(3) d(4) by simp
  show s: "same_ids a a'" using same_ids_trans [OF d(3) F(2)] .
  have rf: "refs h' a' = (refs h a)(b := refs h a b - 1)"
  proof
    fix c
    have "refs h' a1 c + (if nb_block_id (h r) = Some c then 1 else 0) = refs h a c + (if nb_block_id (h' r) = Some c then 1 else 0)"
      by (rule refs_upd [OF live]) (simp_all add: d(4) assms(6))
    moreover have "{x \<in> pc_live a'. nb_block_id (h' x) = Some c} = {x \<in> pc_live a1. nb_block_id (h' x) = Some c}"
      using l d(4) by (auto simp: assms(6))
    then have "refs h' a' c = refs h' a1 c" by (simp only: naive_refs_def)
    ultimately show "refs h' a' c = ((refs h a)(b := refs h a b - 1)) c" using assms(4) by (auto simp: assms(6) split: if_splits)
  qed
  have bk: "books a' (refs h' a')" unfolding rf by (simp only: assms(7)) (rule books_pool [OF d(1)])
  have ids: "pc_all_block_ids a' = pc_all_block_ids a" "pa_block_size a' = pa_block_size a" using s by (simp_all add: same_ids_def)
  have "chains (pa_block_size a) h' P" by (rule chains_cong [OF D(4)]) (simp add: f)
  moreover have "hash_ok HB h' P"
  proof -
    have "chain_key HB h' q = chain_key HB h q" for q by (rule chain_key_cong) (simp add: f)
    then show ?thesis using D(8) by (simp add: hash_ok_def f)
  qed
  moreover have "content HB h' a' (Q - {p})"
  proof (rule content_cong [OF content_mono [OF D(9)] ids(1)])
    fix q assume q: "q \<in> Q - {p}"
    show "nb_block_id (h' (last q)) = nb_block_id (h (last q)) \<and> q \<noteq> []"
      using other [OF q] pc_ok_ne [OF assms(1)] q by (auto simp: assms(6))
  qed (simp_all add: f assms(7) d(2))
  moreover have "pc_live a' = last ` (Q - {p})"
  proof -
    have "last ` Q = insert r (last ` (Q - {p}))" using assms(2,3) by (metis image_insert insert_Diff)
    then show ?thesis using D(6) l other by auto
  qed
  ultimately show "pc_ok HB h' a' P (Q - {p}) {}" using D(3,5) F(1) bk by (auto simp: pc_ok_def pc_shape_def ids(2))
qed

lemma free_run:
  assumes "pc_ok HB h a P Q {}" "p \<in> Q" "last p = r" "pc_free HB depth h a r False = Inr (h', a')"
  shows "pc_ok HB h' a' P (Q - {p}) {}" "same_ids a a'" "\<And>x. nb_token_ids (h' x) = nb_token_ids (h x)"
    "\<And>x. x \<noteq> r \<Longrightarrow> nb_block_id (h' x) = nb_block_id (h x)"
proof -
  have pP: "p \<in> P" using pc_okD(5) [OF assms(1)] assms(2) by blast
  obtain k h1 h2 a2 where ch: "content_hash HB depth h (last p) = Inr (k, h1)"
    and dec: "(case k of Some k \<Rightarrow> decr_refcount_cached_block k h1 a r | None \<Rightarrow> decr_refcount_hashless_block h1 a r) = Inr (h2, a2)"
    and e: "h' = h2" "a' = put_pool (pool_free_block (pa_pool a2) (h2 r)) a2"
    using assms(3,4) by (auto simp: pc_free_def pc_free_block_id_def simp del: put_simps)
  note C = pc_content_hash [OF assms(1) pP ch]
  note D = pc_okD [OF C(2)] and u = upto_hashD [OF C(3)]
  have key: "chain_key HB h1 p = k" using C(1) upto_hash_key [OF C(3)] by simp
  obtain b where b: "b \<in> pc_all_block_ids a" "nb_block_id (h1 r) = Some b"
    "case k of Some k \<Rightarrow> pa_cached_blocks a k = Some b | None \<Rightarrow> b \<notin> ran (pa_cached_blocks a)"
    using contentD [OF D(9) assms(2)] unfolding key assms(3) by blast
  have "r \<in> pc_live a" using D(6) assms(2,3) by auto
  then have pos: "0 < refs h1 a b" using naive_refs_pos b(2) by blast
  have dr: "h2 = set_block_id h1 r None \<and> dropped a (refs h1 a) b a2"
  proof (cases k)
    case None
    have "b \<notin> ran (pa_cached_blocks a)" using b(3) None by simp
    from decr_hashless_books [of a "refs h1 a" h1 r b] this D(2) b(1,2) pos obtain a0 where
      "decr_refcount_hashless_block h1 a r = Inr (set_block_id h1 r None, a0)" "dropped a (refs h1 a) b a0" by metis
    then show ?thesis using dec None by simp
  next
    case (Some k')
    have "pa_cached_blocks a k' = Some b" using b(3) Some by simp
    from decr_cached_books [of a "refs h1 a" h1 r b k'] this D(2) b(2) pos obtain a0 where
      "decr_refcount_cached_block k' h1 a r = Inr (set_block_id h1 r None, a0)" "dropped a (refs h1 a) b a0" by metis
    then show ?thesis using dec Some by simp
  qed
  have h2: "h2 = set_block_id h1 r None" and dp: "dropped a (refs h1 a) b a2" using dr by blast+
  note R = pc_ok_dropped [OF C(2) assms(2,3) b(2) dp h2 e(2)]
  show "pc_ok HB h' a' P (Q - {p}) {}" "same_ids a a'" unfolding e(1) by (fact R)+
  show "nb_token_ids (h' x) = nb_token_ids (h x)" for x by (simp add: e(1) h2 u)
  show "nb_block_id (h' x) = nb_block_id (h x)" if "x \<noteq> r" for x using that by (simp add: e(1) h2 u)
qed

definition pc_free_table :: "block_hash \<Rightarrow> nat \<Rightarrow> pc_block store \<Rightarrow> pc_allocator \<Rightarrow> bref list \<Rightarrow> py_error + (pc_block store \<times> pc_allocator)" where
  "pc_free_table HB depth h a blocks = foldE (\<lambda>r (h, a). pc_free HB depth h a r False) blocks (h, a)"

lemma free_blocks_run:
  assumes "pc_ok HB h a P (P - beyond [] d) {}" "s = [] \<or> d @ s \<in> P" "pc_free_table HB depth h a s = Inr (h', a')"
  shows "pc_ok HB h' a' P (P - beyond [] (d @ s)) {} \<and> same_ids a a' \<and> (\<forall>x. nb_token_ids (h' x) = nb_token_ids (h x)) \<and>
    (\<forall>x. x \<notin> set s \<longrightarrow> nb_block_id (h' x) = nb_block_id (h x))"
  using assms
proof (induction s arbitrary: h a d)
  case Nil
  then show ?case by (simp add: pc_free_table_def)
next
  case (Cons x s)
  obtain h1 a1 where f: "pc_free HB depth h a x False = Inr (h1, a1)" and rest: "pc_free_table HB depth h1 a1 s = Inr (h', a')"
    using Cons.prems(3) by (auto simp: pc_free_table_def)
  have "(d @ [x]) @ s \<in> P" using Cons.prems(2) by simp
  then have dP: "d @ [x] \<in> P" "s = [] \<or> (d @ [x]) @ s \<in> P"
    using chains_prefix [OF pc_okD(4) [OF Cons.prems(1)], of "d @ [x]" s] by auto
  have dQ: "d @ [x] \<in> P - beyond [] d" using dP(1) by (auto simp: beyond_Nil prefix_def)
  note R = free_run [OF Cons.prems(1) dQ last_snoc f]
  have "P - beyond [] d - {d @ [x]} = P - beyond [] (d @ [x])" by (auto simp: beyond_snoc)
  then have "pc_ok HB h1 a1 P (P - beyond [] (d @ [x])) {}" using R(1) by simp
  from Cons.IH [OF this dP(2) rest] show ?case using R(3,4) same_ids_trans [OF R(2)] by auto
qed

text \<open>The objects of other chains are not those of the freed one.\<close>

lemma free_table_run:
  assumes "pc_ok HB h a P P {}" "t \<in> P" "\<And>q. q \<in> P \<Longrightarrow> hd q = hd t \<Longrightarrow> prefix q t" "pc_free_table HB depth h a t = Inr (h', a')"
  shows "pc_ok HB h' a' (P - beyond [] t) (P - beyond [] t) {}" "same_ids a a'" "\<And>x. nb_token_ids (h' x) = nb_token_ids (h x)"
    "\<And>x. x \<notin> set t \<Longrightarrow> nb_block_id (h' x) = nb_block_id (h x)"
proof -
  have P0: "pc_ok HB h a P (P - beyond [] []) {}" using assms(1) by simp
  have R: "pc_ok HB h' a' P (P - beyond [] t) {} \<and> same_ids a a' \<and> (\<forall>x. nb_token_ids (h' x) = nb_token_ids (h x)) \<and>
    (\<forall>x. x \<notin> set t \<longrightarrow> nb_block_id (h' x) = nb_block_id (h x))"
    using free_blocks_run [OF P0 _ assms(4)] assms(2) by simp
  then show "same_ids a a'" "\<And>x. nb_token_ids (h' x) = nb_token_ids (h x)"
    "\<And>x. x \<notin> set t \<Longrightarrow> nb_block_id (h' x) = nb_block_id (h x)" by blast+
  have ok: "pc_ok HB h' a' P (P - beyond [] t) {}" using R by blast
  note D = pc_okD [OF ok]
  have "chains (pa_block_size a') h' (P - beyond [] t)"
    unfolding chains_def
  proof (intro conjI ballI allI impI)
    show "inj_on last (P - beyond [] t)" using D(4) by (auto simp: chains_def inj_on_def)
    fix q r assume q: "q @ [r] \<in> P - beyond [] t" "q \<noteq> []"
    have qP: "q \<in> P" using chainsD(5) [OF D(4), of "q @ [r]"] q by blast
    have "q \<notin> beyond [] t"
    proof
      assume "q \<in> beyond [] t"
      then have "hd (q @ [r]) = hd t" using q(2) by (auto simp: beyond_Nil prefix_def)
      then have "prefix (q @ [r]) t" using assms(3) q(1) by blast
      then show False using q(1) by (simp add: beyond_Nil)
    qed
    then show "q \<in> P - beyond [] t" using qP by blast
  qed (use D(4) in \<open>auto simp: chains_def\<close>)
  moreover have "hash_ok HB h' (P - beyond [] t)" using D(8) by (simp add: hash_ok_def)
  ultimately show "pc_ok HB h' a' (P - beyond [] t) (P - beyond [] t) {}"
    using D(1,2,3,6,7,9) by (simp add: pc_ok_def pc_shape_def)
qed

end
