(* ===== verification/Prefix_Reach.thy ===== *)
theory Prefix_Reach
  imports Prefix_Tables
begin

text \<open>
  Executions of the prefix caching allocator: a chain of blocks is what a block table holds, and \<open>P\<close> is the set
  of the chains in use with the chains they begin with. What holds in all states that its clients can reach.
\<close>

inductive pc_step ::
  "block_hash \<Rightarrow> nat \<Rightarrow> pc_block store \<times> pc_allocator \<times> bref list set \<Rightarrow> pc_block store \<times> pc_allocator \<times> bref list set \<Rightarrow> bool"
  for HB depth where
  alloc_mutable: "prev_of P p prev \<Longrightarrow> pc_allocate_mutable_block HB depth h a prev = Inr (r, h', a') \<Longrightarrow>
     pc_step HB depth (h, a, P) (h', a', insert (p @ [r]) P)"
| alloc_immutable: "prev_of P p prev \<Longrightarrow> pc_allocate_immutable_block HB depth h a prev ts = Inr (r, h', a') \<Longrightarrow>
     pc_step HB depth (h, a, P) (h', a', insert (p @ [r]) P)"
| append: "p \<in> P \<Longrightarrow> \<forall>q \<in> P. last p \<in> set q \<longrightarrow> q \<noteq> p \<longrightarrow> nb_token_ids (h (last q)) = [] \<Longrightarrow>
     pc_append_token_ids HB depth h a (last p) ts = Inr (h', a') \<Longrightarrow> pc_step HB depth (h, a, P) (h', a', P)"
| fork: "p \<in> P \<Longrightarrow> pc_fork depth h a (last p) = Inr (rs, h', a') \<Longrightarrow> pc_step HB depth (h, a, P) (h', a', P \<union> beyond [] rs)"
| free: "t \<in> P \<Longrightarrow> \<forall>q \<in> P. hd q = hd t \<longrightarrow> prefix q t \<Longrightarrow> pc_free_table HB depth h a t = Inr (h', a') \<Longrightarrow>
     pc_step HB depth (h, a, P) (h', a', P - beyond [] t)"
| accessed: "pc_mark_blocks_as_accessed ids now a = Inr a' \<Longrightarrow> pc_step HB depth (h, a, P) (h, a', P)"
| computed: "pc_mark_blocks_as_computed ids a = Inr a' \<Longrightarrow> pc_step HB depth (h, a, P) (h, a', P)"
| clear_cows: "pc_clear_copy_on_writes a = (cows, a') \<Longrightarrow> pc_step HB depth (h, a, P) (h, a', P)"

inductive pc_reach :: "block_hash \<Rightarrow> nat \<Rightarrow> pc_block store \<times> pc_allocator \<times> bref list set \<Rightarrow> bool" for HB depth where
  init: "distinct ids \<Longrightarrow> 0 < bs \<Longrightarrow> pc_allocator_init tag n bs ids h0 = Inr (h, a) \<Longrightarrow> pc_reach HB depth (h, a, {})"
| step: "pc_reach HB depth s \<Longrightarrow> pc_step HB depth s s' \<Longrightarrow> pc_reach HB depth s'"

section \<open>The invariant\<close>

lemma pc_init_ok:
  assumes "distinct ids" "0 < bs" "pc_allocator_init tag n bs ids h0 = Inr (h, a)"
  shows "pc_ok HB h a {} {} {}"
proof -
  define p where "p = \<lparr>pool_tag = tag, pool_block_size = bs, pool_size = n * 4, free_ids = [0..<n * 4]\<rparr>"
  obtain a0 where card: "card (set ids) = n" and a0: "a0 = \<lparr>free_block_indices = ids, all_block_indices = set ids,
      refcounter = ref_counter_init ids, na_block_size = bs, na_cow_tracker = \<lparr>copy_on_writes = []\<rparr>, na_block_pool = p\<rparr>"
    and a: "a = \<lparr>pa_block_size = bs, pa_cached_blocks = (\<lambda>_. None), pa_touched_blocks = {},
              pa_block_tracker = (\<lambda>b. if b \<in> set ids
                then Some \<lparr>tr_active = False, tr_last_accessed = default_last_accessed, tr_computed = False\<rparr> else None),
              pa_hashless_allocator = a0, pa_evictor = [], pa_cow_tracker = \<lparr>copy_on_writes = []\<rparr>,
              pa_metric_data = cache_metric_init 1000\<rparr>"
    using assms(3) by (auto simp: pc_allocator_init_def naive_allocator_init_def block_pool_init_def p_def)
  have live: "pc_live a = {}" by (auto simp: a a0 p_def pool_live_def)
  have u: "refs h a = (\<lambda>_. 0)" using live by (simp add: naive_refs_def fun_eq_iff)
  have "books a (refs h a)" unfolding u
  proof (rule booksI)
    show "dom (refcounts (pa_refcounter a)) = pc_all_block_ids a" "dom (pa_block_tracker a) = pc_all_block_ids a"
      by (auto simp: a a0 pc_all_block_ids_def ref_counter_init_def dom_def split: if_splits)
  qed (use assms(1) in \<open>auto simp: a a0 pc_all_block_ids_def ref_counter_init_def split: if_splits\<close>)
  moreover have "objs h a" using live card by (auto simp: objs_def a a0 pc_all_block_ids_def p_def pool_inv_def card_gt_0_iff)
  ultimately show ?thesis using live assms(2)
    by (auto simp: pc_ok_def pc_shape_def chains_def hash_ok_def content_def a)
qed

lemma mem_dict_set: "distinct (map fst d) \<Longrightarrow> x \<in> set (dict_set k v d) \<longleftrightarrow> x = (k, v) \<or> x \<in> set d \<and> fst x \<noteq> k"
proof (induction k v d rule: dict_set.induct)
  case (2 k v k' v' d)
  then show ?case by (cases x) (auto simp: rev_image_eqI)
qed auto

lemma books_tracked:
  assumes "books a u" "pa_hashless_allocator a' = pa_hashless_allocator a" "pa_cached_blocks a' = pa_cached_blocks a"
    "dom (pa_block_tracker a') = dom (pa_block_tracker a)" "\<And>b t. pa_block_tracker a' b = Some t \<Longrightarrow> tr_active t = (0 < u b)"
    "distinct (map fst (pa_evictor a'))" "fst ` set (pa_evictor a') = fst ` set (pa_evictor a)"
    "\<And>b m. (b, m) \<in> set (pa_evictor a') \<Longrightarrow> pa_cached_blocks a (md_content_hash m) = Some b"
  shows "books a' u"
proof -
  note D = booksD [OF assms(1)]
  have i: "pc_all_block_ids a' = pc_all_block_ids a" using assms(2) by (simp add: pc_all_block_ids_def)
  have t: "dom (pa_block_tracker a') = pc_all_block_ids a'" unfolding i assms(4) by (rule D(3))
  show ?thesis
    by (rule booksI; (fact t assms(5,6,8) | unfold i assms(2,3,7))?) (fact D assms(8))+
qed

lemma accessed_books:
  assumes "mark_block_as_accessed now b a = Inr a'" "books a u"
  shows "books a' u \<and> pa_hashless_allocator a' = pa_hashless_allocator a \<and> pa_cached_blocks a' = pa_cached_blocks a \<and>
    pa_block_size a' = pa_block_size a"
proof -
  note D = booksD [OF assms(2)]
  obtain t where t: "pa_block_tracker a b = Some t" using assms(1) by (auto simp: mark_block_as_accessed_def)
  show ?thesis
  proof (cases "tr_active t")
    case True
    then have a': "a' = a\<lparr>pa_block_tracker := (pa_block_tracker a)(b \<mapsto> t\<lparr>tr_last_accessed := now\<rparr>)\<rparr>"
      using assms(1) t by (simp add: mark_block_as_accessed_def)
    have "dom (pa_block_tracker a') = dom (pa_block_tracker a)" using t by (auto simp: a')
    moreover have "tr_active t' = (0 < u c)" if "pa_block_tracker a' c = Some t'" for c t'
      using that D(5) [of c] t by (auto simp: a' split: if_splits)
    ultimately have "books a' u" using D(7,12) by (intro books_tracked [OF assms(2)]) (simp_all add: a')
    then show ?thesis by (simp add: a')
  next
    case False
    then obtain m where m: "map_of (pa_evictor a) b = Some m"
      and a': "a' = a\<lparr>pa_evictor := dict_set b (m\<lparr>md_last_accessed := now\<rparr>) (pa_evictor a)\<rparr>"
      using assms(1) t by (auto simp: mark_block_as_accessed_def ev_update_def split: if_splits)
    have im: "(b, m) \<in> set (pa_evictor a)" using map_of_SomeD [OF m] .
    then have k: "fst ` set (pa_evictor a') = fst ` set (pa_evictor a)" by (force simp: a')
    have h: "pa_cached_blocks a (md_content_hash m') = Some c" if "(c, m') \<in> set (pa_evictor a')" for c m'
      using that D(12) im mem_dict_set [OF D(7)] by (auto simp: a')
    have "distinct (map fst (pa_evictor a'))" using D(7) by (simp add: a')
    then have "books a' u" using D(5) by (intro books_tracked [OF assms(2) _ _ _ _ _ k h]) (simp_all add: a')
    then show ?thesis by (simp add: a')
  qed
qed

lemma accessed_run:
  assumes "pc_mark_blocks_as_accessed ids now a = Inr a'" "pc_ok HB h a P Q X"
  shows "pc_ok HB h a' P Q X"
  using assms unfolding pc_mark_blocks_as_accessed_def
proof (induction ids arbitrary: a)
  case (Cons b ids)
  then obtain a1 where m: "mark_block_as_accessed now b a = Inr a1" and rest: "foldE (mark_block_as_accessed now) ids a1 = Inr a'"
    by auto
  have "pc_ok HB h a1 P Q X"
    using pc_ok_tracked [OF Cons.prems(2)] accessed_books [OF m pc_okD(2) [OF Cons.prems(2)]] by blast
  then show ?case using Cons.IH rest by blast
qed simp

lemma computed_run:
  assumes "pc_mark_blocks_as_computed ids a = Inr a'" "pc_ok HB h a P Q X"
  shows "pc_ok HB h a' P Q X"
proof -
  note B = pc_okD(2) [OF assms(2)]
  note D = booksD [OF B]
  have a': "a' = a\<lparr>pa_block_tracker := (\<lambda>b. if b \<in> pa_touched_blocks a
              then map_option (\<lambda>t. t\<lparr>tr_computed := True\<rparr>) (pa_block_tracker a b) else pa_block_tracker a b), pa_touched_blocks := {}\<rparr>"
    using assms(1) by (simp add: pc_mark_blocks_as_computed_def)
  have "dom (pa_block_tracker a') = dom (pa_block_tracker a)" by (auto simp: a' dom_def split: if_splits)
  moreover have "tr_active t = (0 < refs h a b)" if "pa_block_tracker a' b = Some t" for b t
    using that D(5) [of b] by (auto simp: a' split: if_splits)
  ultimately have "books a' (refs h a)" using D(7,12) by (intro books_tracked [OF B]) (simp_all add: a')
  then show ?thesis using pc_ok_tracked [OF assms(2)] by (simp add: a')
qed

lemma pc_step_ok:
  assumes "pc_step HB depth (h, a, P) (h', a', P')" "pc_ok HB h a P P {}"
  shows "pc_ok HB h' a' P' P' {}"
  using assms(1)
proof cases
  case (alloc_mutable p prev r)
  then show ?thesis using mutable_grown [OF assms(2)] unfolding grown_def by blast
next
  case (alloc_immutable p prev ts r)
  then show ?thesis using immutable_grown [OF assms(2)] unfolding grown_def by blast
next
  case (append p ts)
  have "last ` P \<subseteq> pc_live a" using pc_ok_all_live [OF assms(2)] by simp
  note A = append_run [OF assms(2) append(2) refl this _ append(4)]
  have "pc_ok HB h' a' P P {}" by (rule A(1)) (use append(3) in blast)
  then show ?thesis using append(1) by simp
next
  case (fork p rs)
  then show ?thesis using fork_run(1) [OF assms(2)] by blast
next
  case (free t)
  then show ?thesis using free_table_run(1) [OF assms(2)] by blast
next
  case (accessed ids now)
  then show ?thesis using accessed_run [OF _ assms(2)] by blast
next
  case (computed ids)
  then show ?thesis using computed_run [OF _ assms(2)] by blast
next
  case (clear_cows cows)
  have a': "a' = a\<lparr>pa_cow_tracker := pa_cow_tracker a'\<rparr>" using clear_cows by (auto simp: pc_clear_copy_on_writes_def Let_def split: prod.splits)
  have e: "pa_hashless_allocator a' = pa_hashless_allocator a" "pa_cached_blocks a' = pa_cached_blocks a" "pa_block_size a' = pa_block_size a"
    "pa_block_tracker a' = pa_block_tracker a" "pa_evictor a' = pa_evictor a" by (subst a', simp)+
  have "books a' (refs h a)" by (rule books_cong [OF pc_okD(2) [OF assms(2)]]) (simp_all add: e pc_all_block_ids_def)
  from pc_ok_tracked [OF assms(2) e(1-3) this] show ?thesis using clear_cows by simp
qed

lemma pc_reach_ok: "pc_reach HB depth (h, a, P) \<Longrightarrow> pc_ok HB h a P P {}"
proof (induction "(h, a, P)" arbitrary: h a P rule: pc_reach.induct)
  case (init ids bs tag n h0 h a)
  then show ?case using pc_init_ok by blast
next
  case (step s h a P)
  obtain h0 a0 P0 where s: "s = (h0, a0, P0)" by (cases s)
  show ?case using pc_step_ok step.hyps(2) [OF s] step.hyps(3) unfolding s by blast
qed

end
