(* ===== verification/Prefix_Facts.thy ===== *)
theory Prefix_Facts
  imports Prefix_Reach
begin

text \<open>What the prefix caching allocator promises.\<close>

section \<open>Consequences of the invariant\<close>

lemma refs_chains:
  assumes "pc_ok HB h a P P {}"
  shows "refs h a b = card {p \<in> P. nb_block_id (h (last p)) = Some b}"
proof -
  have "{x \<in> pc_live a. nb_block_id (h x) = Some b} = last ` {p \<in> P. nb_block_id (h (last p)) = Some b}"
    using pc_ok_all_live [OF assms] by auto
  moreover have "inj_on last {p \<in> P. nb_block_id (h (last p)) = Some b}"
    using pc_okD(4) [OF assms] by (auto simp: chains_def inj_on_def)
  ultimately show ?thesis by (simp add: naive_refs_def card_image)
qed

lemma refs_zero:
  assumes "pc_ok HB h a P P {}"
  shows "refs h a b = 0 \<longleftrightarrow> (\<forall>p \<in> P. nb_block_id (h (last p)) \<noteq> Some b)"
proof
  assume z: "refs h a b = 0"
  show "\<forall>p \<in> P. nb_block_id (h (last p)) \<noteq> Some b"
  proof (intro ballI notI)
    fix p assume "p \<in> P" "nb_block_id (h (last p)) = Some b"
    then have "0 < refs h a b" using naive_refs_pos pc_ok_all_live [OF assms] by blast
    then show False using z by simp
  qed
next
  assume "\<forall>p \<in> P. nb_block_id (h (last p)) \<noteq> Some b"
  then show "refs h a b = 0" using refs_chains [OF assms, of b] by (metis (mono_tags, lifting) Collect_empty_eq card.empty)
qed

lemma books_free_count:
  assumes "books a u"
  shows "pc_get_num_free_blocks a = card {b \<in> pc_all_block_ids a. u b = 0}"
proof -
  note D = booksD [OF assms]
  have "{b \<in> pc_all_block_ids a. u b = 0} = set (free_block_indices (pa_hashless_allocator a)) \<union> set (map fst (pa_evictor a))"
    using D(9) by auto
  moreover have "card \<dots> = card (set (free_block_indices (pa_hashless_allocator a))) + card (set (map fst (pa_evictor a)))"
    by (rule card_Un_disjoint) (use D(8) in simp_all)
  ultimately show ?thesis using distinct_card [OF D(6)] distinct_card [OF D(7)]
    by (simp add: pc_get_num_free_blocks_def naive_get_num_free_blocks_def ev_num_blocks_def)
qed

lemma content_hash_total:
  assumes "chains bs h P" "p \<in> P" "length p \<le> depth"
  shows "\<exists>k h'. content_hash HB depth h (last p) = Inr (k, h')"
  using assms(2,3)
proof (induction p arbitrary: depth rule: rev_induct)
  case Nil
  then show ?case using chainsD(1) [OF assms(1)] by blast
next
  case (snoc r p)
  note C = chainsD [OF assms(1) snoc.prems(1)]
  obtain d where d: "depth = Suc d" "length p \<le> d" using snoc.prems(2) by (cases depth) auto
  have prev: "nb_prev_block (h r) = (if p = [] then None else Some (last p))" using C(3) by (auto simp: chained_append)
  have "\<exists>k h'. content_hash HB d h (last p) = Inr (k, h')" if "p \<noteq> []" using snoc.IH [OF _ d(2)] C(5) that by blast
  then obtain k h' where IH: "p \<noteq> [] \<longrightarrow> content_hash HB d h (last p) = Inr (k, h')" by blast
  show ?case using d(1) prev IH by (cases "p = []"; cases k) (simp_all add: Let_def split: option.splits)
qed

text \<open>The memo of hashes is transparent: it is the hash of the tokens of the whole chain.\<close>

lemma content_hash_chain:
  assumes "pc_ok HB h a P Q X" "p \<in> P" "length p \<le> depth"
  shows "\<exists>h'. content_hash HB depth h (last p) = Inr (chain_key HB h p, h')"
  using content_hash_total [OF pc_okD(4) [OF assms(1)] assms(2,3)] pc_content_hash(1) [OF assms(1,2)] by blast

lemma pc_pool_grows:
  assumes "pc_ok HB h a P Q X" "pc_all_block_ids a \<noteq> {}" "length ts \<le> bs"
  shows "\<exists>r h' pl. init_block pc_block_init h (pa_pool a) prev ts bs pid = Inr (r, h', pl)"
proof -
  have p: "pool_inv (pa_pool a)" "0 < pool_size (pa_pool a)" using pc_okD(1) [OF assms(1)] assms(2) by (auto simp: objs_def)
  show ?thesis by (rule init_block_ok [OF p]) (auto intro: pc.create_block_total assms(3))
qed

text \<open>A content that is cached is found, in the block that holds it, whether that block is in use or in the evictor.\<close>

lemma toks_init: "prev_of P q prev \<Longrightarrow> pc_ok HB h a P P {} \<Longrightarrow> (\<And>x. x \<in> pc_live a \<Longrightarrow> nb_token_ids (h1 x) = nb_token_ids (h x)) \<Longrightarrow>
    toks h1 q = toks h q"
  using in_chain_live [of HB h a P q] by (cases "q = []") (auto simp: toks_def)

lemma full_chain: "chains bs h P \<Longrightarrow> q \<in> P \<Longrightarrow> list_all (\<lambda>t. length t = bs) (toks h q) \<longleftrightarrow> list_all (\<lambda>r. is_full (h r)) q"
  using chainsD(4) [of bs h P q] by (auto simp: list_all_iff toks_def is_full_def num_empty_slots_def)

lemma immutable_hit:
  assumes "pc_ok HB h a P P {}" "prev_of P q prev" "list_all (\<lambda>r. is_full (h r)) q" "length ts = pa_block_size a"
    "hash_of_chain HB (toks h q @ [ts]) = Some k" "pa_cached_blocks a k = Some b" "length q < depth"
  obtains r h' a' where "pc_allocate_immutable_block HB depth h a prev ts = Inr (r, h', a')" "nb_block_id (h' r) = Some b"
proof -
  note D = pc_okD [OF assms(1)]
  have ids: "pc_all_block_ids a \<noteq> {}" using booksD(10) [OF D(2) assms(6)] by blast
  have len: "length ts \<le> pa_block_size a" using assms(4) by simp
  obtain r h1 pl where ib: "init_block pc_block_init h (pa_pool a) prev ts (pa_block_size a) None = Inr (r, h1, pl)"
    using pc_pool_grows [OF assms(1) ids len] by blast
  note I = init_block_objs [OF D(1) ib]
  define a1 where "a1 = put_pool pl a"
  note PR = probe_run [OF assms(1,2) ib, folded a1_def]
  obtain h2 where ch: "content_hash HB depth h1 (last (q @ [r])) = Inr (chain_key HB h1 (q @ [r]), h2)"
    using content_hash_chain [OF PR insertI1] assms(7) by fastforce
  have tq: "toks h1 q = toks h q" by (rule toks_init [OF assms(2,1)]) (use I(5) in simp)
  have tk: "toks h1 (q @ [r]) = toks h q @ [ts]" using tq I(6) by (simp add: toks_snoc)
  have fq: "list_all (\<lambda>t. length t = pa_block_size a) (toks h q)"
    using full_chain [OF D(4)] assms(2,3) by (cases "q = []") (simp_all add: toks_def)
  have "list_all (\<lambda>t. length t = pa_block_size a1) (toks h1 (q @ [r]))" using fq tk assms(4) by (simp add: a1_def)
  then have "list_all (\<lambda>x. is_full (h1 x)) (q @ [r])" using full_chain [OF pc_okD(4) [OF PR] insertI1] by blast
  then have "chain_key HB h1 (q @ [r]) = Some k" unfolding chain_key_def tk assms(5) by presburger
  then have ck: "content_hash HB depth h1 r = Inr (Some k, h2)" using ch by simp
  note CO = pc_content_hash [OF PR insertI1 ch]
  define a2 where "a2 = a1\<lparr>pa_metric_data := cm_query True (pa_metric_data a)\<rparr>"
  have ok: "pc_ok HB h2 a2 (insert (q @ [r]) P) P {r}" unfolding a2_def by (rule pc_ok_metric [OF CO(2)])
  have b2: "pa_cached_blocks a2 k = Some b" using assms(6) by (simp add: a2_def a1_def)
  have id: "nb_block_id (set_block_id h2 r (Some b) r) = Some b" by simp
  define h3 where "h3 = (set_block_id h2 r (Some b))(r := (set_block_id h2 r (Some b) r)\<lparr>xb_computed := True\<rparr>)"
  obtain a3 where "incr_refcount_cached_block (set_block_id h2 r (Some b)) a2 r = Inr (h3, a3)"
    unfolding h3_def by (rule incr_cached_books [of a2 "refs h2 a2" "set_block_id h2 r (Some b)" r b k, OF pc_okD(2) [OF ok] id b2])
  then have "pc_allocate_immutable_block HB depth h a prev ts = Inr (r, h3, a3)"
    using ib ck assms(6) by (simp add: pc_allocate_immutable_block_def Let_def put_metric a2_def a1_def)
  moreover have "nb_block_id (h3 r) = Some b" by (simp add: h3_def)
  ultimately show thesis by (rule that)
qed

text \<open>It counts as one available block less when nobody used it before.\<close>

lemma hit_free_blocks:
  assumes "pc_ok HB h a P P {}" "prev_of P q prev" "pc_allocate_immutable_block HB depth h a prev ts = Inr (r, h', a')"
    "nb_block_id (h' r) = Some b" "pa_cached_blocks a k = Some b"
  shows "pc_get_num_free_blocks a = pc_get_num_free_blocks a' + (if ev_contains (pa_evictor a) b then 1 else 0)"
proof -
  have g: "pc_ok HB h' a' (insert (q @ [r]) P) (insert (q @ [r]) P) {}" "r \<notin> pc_live a" "pc_live a' = insert r (pc_live a)"
    "same_ids a a'" "\<And>y. y \<in> pc_live a \<Longrightarrow> nb_block_id (h' y) = nb_block_id (h y)"
    using immutable_grown [OF assms(1-3)] by (simp_all add: grown_def)
  note B = pc_okD(2) [OF assms(1)]
  have i: "pc_all_block_ids a' = pc_all_block_ids a" using g(4) by (simp add: same_ids_def)
  have b: "b \<in> pc_all_block_ids a" "b \<notin> set (free_block_indices (pa_hashless_allocator a))" using booksD(10) [OF B assms(5)] by auto
  then have ev: "ev_contains (pa_evictor a) b \<longleftrightarrow> refs h a b = 0" using booksD(9) [OF B, of b] by auto
  have rf: "refs h' a' = (refs h a)(b := Suc (refs h a b))" using refs_new [OF g(3,2,5)] assms(4) by simp
  have z: "{c \<in> pc_all_block_ids a'. refs h' a' c = 0} = {c \<in> pc_all_block_ids a. refs h a c = 0} - {b}" using i rf by auto
  have f: "finite {c \<in> pc_all_block_ids a. refs h a c = 0}" using booksD(1) [OF B] by simp
  have "card Z = card (Z - {b}) + (if b \<in> Z then 1 else 0)" if "finite Z" for Z :: "block_id set"
    using card_Suc_Diff1 [OF that] by (cases "b \<in> Z") simp_all
  from this [OF f] show ?thesis unfolding books_free_count [OF pc_okD(2) [OF g(1)]] books_free_count [OF B] z ev
    using b(1) by simp
qed

text \<open>Freeing forgets no content: a block that nobody uses any more waits in the evictor.\<close>

lemma decr_keeps_cached:
  assumes "decr_refcount_cached_block k h a r = Inr (h', a')"
  shows "pa_cached_blocks a' = pa_cached_blocks a"
proof -
  obtain b n rc where d: "nb_block_id (h r) = Some b" "rc_decr (pa_refcounter a) b = Inr (n, rc)"
    using assms by (auto simp: decr_refcount_cached_block_def simp del: split_paired_Ex)
  show ?thesis
  proof (cases "n > 0")
    case True
    then show ?thesis using assms d by (auto simp: decr_refcount_cached_block_def Let_def)
  next
    case False
    then show ?thesis using assms d by (auto simp: decr_refcount_cached_block_def Let_def untrack_block_id_Inr)
  qed
qed

lemma decr_hashless_keeps_cached:
  assumes "decr_refcount_hashless_block h a r = Inr (h', a')"
  shows "pa_cached_blocks a' = pa_cached_blocks a"
proof -
  have "\<exists>n b a1 m. (if n = (1 :: int) then untrack_block_id b a else Inr a) = Inr a1 \<and> a' = a1\<lparr>pa_hashless_allocator := m\<rparr>"
    using assms unfolding decr_refcount_hashless_block_def bindE_eq_Inr split_paired_Ex prod.case by blast
  then show ?thesis by (auto simp: untrack_block_id_Inr split: if_splits)
qed

lemma pc_free_keeps_cached:
  assumes "pc_free HB depth h a r keep = Inr (h', a')"
  shows "pa_cached_blocks a' = pa_cached_blocks a"
proof -
  obtain h1 a1 where f: "pc_free_block_id HB depth h a r = Inr (h1, a1)" and a': "pa_cached_blocks a' = pa_cached_blocks a1"
    using assms by (auto simp: pc_free_def split: if_splits)
  obtain k h2 where "(case k of Some k \<Rightarrow> decr_refcount_cached_block k h2 a r | None \<Rightarrow> decr_refcount_hashless_block h2 a r) = Inr (h1, a1)"
    using f by (auto simp: pc_free_block_id_def)
  then show ?thesis using a' decr_keeps_cached decr_hashless_keeps_cached by (cases k) auto
qed

lemma free_table_keeps_cached:
  "pc_free_table HB depth h a t = Inr (h', a') \<Longrightarrow> pa_cached_blocks a' = pa_cached_blocks a"
proof (induction t arbitrary: h a)
  case (Cons r t)
  then obtain h1 a1 where "pc_free HB depth h a r False = Inr (h1, a1)" "pc_free_table HB depth h1 a1 t = Inr (h', a')"
    by (auto simp: pc_free_table_def)
  then show ?case using Cons.IH pc_free_keeps_cached by metis
qed (simp add: pc_free_table_def)

section \<open>An execution\<close>

text \<open>Two sequences with the same first block, on one block of two tokens.\<close>

definition ex_hash :: block_hash where
  "ex_hash first prev ts = foldl (\<lambda>k t. k * 10 + t + 1) (case prev of None \<Rightarrow> 0 | Some k \<Rightarrow> k) ts"

definition ex_pc_store :: "pc_block store" where
  "ex_pc_store = (\<lambda>_. \<lparr>nb_token_ids = [], nb_block_size = 2, nb_prev_block = None, nb_block_id = None, nb_pool_id = 0,
     xb_cached_content_hash = None, xb_num_tokens_total = 0, xb_last_accessed = default_last_accessed, xb_computed = False\<rparr>)"

definition ex_share :: "py_error + (pc_block store \<times> pc_allocator \<times> bref \<times> bref)" where
  "ex_share =
     bindE (pc_allocator_init 0 1 2 [0] ex_pc_store) (\<lambda>(h, a).
     bindE (pc_allocate_immutable_block ex_hash 2 h a None [1, 2]) (\<lambda>(r, h, a).
     bindE (pc_allocate_immutable_block ex_hash 2 h a None [1, 2]) (\<lambda>(s, h, a).
     Inr (h, a, r, s))))"

lemma ex_share_run:
  "case ex_share of Inr (h, a, r, s) \<Rightarrow> nb_block_id (h r) = Some 0 \<and> nb_block_id (h s) = Some 0 \<and> nb_token_ids (h r) = [1, 2] \<and>
     is_full (h r) \<and> pc_get_num_free_blocks a = 0 | Inl _ \<Rightarrow> False"
  by code_simp

lemma ex_share_reach:
  obtains h a r s where "ex_share = Inr (h, a, r, s)" "pc_reach ex_hash 2 (h, a, {[s], [r]})" "nb_block_id (h r) = Some 0"
    "nb_block_id (h s) = Some 0" "nb_token_ids (h r) = [1, 2]" "is_full (h r)" "pc_get_num_free_blocks a = 0"
proof -
  obtain h a r s where e: "ex_share = Inr (h, a, r, s)" "nb_block_id (h r) = Some 0" "nb_block_id (h s) = Some 0"
    "nb_token_ids (h r) = [1, 2]" "is_full (h r)" "pc_get_num_free_blocks a = 0"
    using ex_share_run by (auto split: sum.splits)
  then obtain h0 a0 h1 a1 where i: "pc_allocator_init 0 1 2 [0] ex_pc_store = Inr (h0, a0)"
    and m: "pc_allocate_immutable_block ex_hash 2 h0 a0 None [1, 2] = Inr (r, h1, a1)"
      "pc_allocate_immutable_block ex_hash 2 h1 a1 None [1, 2] = Inr (s, h, a)" by (auto simp: ex_share_def)
  have "pc_reach ex_hash 2 (h0, a0, {})" by (rule pc_reach.init [OF _ _ i]) simp_all
  from pc_reach.step [OF this pc_step.alloc_immutable [OF _ m(1), of "[]"]] have "pc_reach ex_hash 2 (h1, a1, {[r]})" by simp
  from pc_reach.step [OF this pc_step.alloc_immutable [OF _ m(2), of "[]"]] have "pc_reach ex_hash 2 (h, a, {[s], [r]})" by simp
  then show thesis using that e by blast
qed

text \<open>The block is given back by its only sequence.\<close>

definition ex_evictable :: "py_error + (pc_block store \<times> pc_allocator)" where
  "ex_evictable =
     bindE (pc_allocator_init 0 1 2 [0] ex_pc_store) (\<lambda>(h, a).
     bindE (pc_allocate_immutable_block ex_hash 2 h a None [1, 2]) (\<lambda>(r, h, a).
     pc_free_table ex_hash 2 h a [r]))"

lemma ex_evictable_run:
  "case ex_evictable of Inr (h, a) \<Rightarrow> pa_cached_blocks a 23 = Some 0 \<and> pa_block_size a = 2 \<and> ev_contains (pa_evictor a) 0 \<and>
     pc_get_num_free_blocks a = 1 \<and> free_block_indices (pa_hashless_allocator a) = [] | Inl _ \<Rightarrow> False"
  by code_simp

lemma ex_evictable_reach:
  obtains h a where "ex_evictable = Inr (h, a)" "pc_reach ex_hash 2 (h, a, {})" "pa_cached_blocks a 23 = Some 0"
    "pa_block_size a = 2" "ev_contains (pa_evictor a) 0" "pc_get_num_free_blocks a = 1"
proof -
  obtain h a where e: "ex_evictable = Inr (h, a)" "pa_cached_blocks a 23 = Some 0" "pa_block_size a = 2"
    "ev_contains (pa_evictor a) 0" "pc_get_num_free_blocks a = 1"
    using ex_evictable_run by (auto split: sum.splits)
  then obtain h0 a0 r h1 a1 where i: "pc_allocator_init 0 1 2 [0] ex_pc_store = Inr (h0, a0)"
    and m: "pc_allocate_immutable_block ex_hash 2 h0 a0 None [1, 2] = Inr (r, h1, a1)"
    and f: "pc_free_table ex_hash 2 h1 a1 [r] = Inr (h, a)" by (auto simp: ex_evictable_def)
  have "pc_reach ex_hash 2 (h0, a0, {})" by (rule pc_reach.init [OF _ _ i]) simp_all
  from pc_reach.step [OF this pc_step.alloc_immutable [OF _ m, of "[]"]] have R: "pc_reach ex_hash 2 (h1, a1, {[r]})" by simp
  have "pc_reach ex_hash 2 (h, a, {[r]} - beyond [] [r])" by (rule pc_reach.step [OF R pc_step.free [OF _ _ f]]) simp_all
  moreover have "{[r]} - beyond [] [r] = {}" by (simp add: beyond_def)
  ultimately show thesis using that e by simp
qed

section \<open>Properties\<close>

text \<open>
  C7. Whenever two chains of blocks end in the same physical block that holds tokens, the two sequences agree on
  all tokens up to there, unless both consist of full blocks whose chained hashes collide. A cached block
  is never handed to a sequence with another prefix.
\<close>

theorem prefix_cache_shares_content:
  assumes "pc_reach HB depth (h, a, P)" "p \<in> P" "q \<in> P" "nb_block_id (h (last p)) = nb_block_id (h (last q))"
    "nb_token_ids (h (last p)) \<noteq> []"
  shows "toks h p = toks h q \<or> (list_all (\<lambda>r. is_full (h r)) (p @ q) \<and> hash_of_chain HB (toks h p) = hash_of_chain HB (toks h q))"
proof -
  have ok: "pc_ok HB h a P P {}" using pc_reach_ok [OF assms(1)] .
  note D = pc_okD [OF ok]
  show ?thesis
  proof (cases "chain_key HB h p")
    case None
    then show ?thesis using content_shared(2) [OF D(9) assms(2,3) None assms(4) [symmetric] assms(5)] by simp
  next
    case (Some k)
    show ?thesis
    proof (cases "chain_key HB h q")
      case None
      note S = content_shared [OF D(9) assms(3,2) None assms(4)]
      then show ?thesis using assms(5) by simp
    next
      case (Some k')
      obtain b where b: "nb_block_id (h (last p)) = Some b" "pa_cached_blocks a k = Some b"
        using contentD [OF D(9) assms(2)] \<open>chain_key HB h p = Some k\<close> by auto
      then have "pa_cached_blocks a k' = Some b" using contentD [OF D(9) assms(3)] Some assms(4) by auto
      then have "chain_key HB h p = chain_key HB h q" using cached_inj [OF D(2) b(2)] Some \<open>chain_key HB h p = Some k\<close> by simp
      then show ?thesis using Some by (auto simp: chain_key_def split: if_splits)
    qed
  qed
qed

theorem prefix_cache_shares_content_witness:
  "\<exists>h a r s. ex_share = Inr (h, a, r, s) \<and> nb_block_id (h r) = nb_block_id (h s) \<and>
     (toks h [r] = toks h [s] \<or> (list_all (\<lambda>r. is_full (h r)) ([r] @ [s]) \<and> hash_of_chain ex_hash (toks h [r]) = hash_of_chain ex_hash (toks h [s])))"
proof -
  obtain h a r s where e: "ex_share = Inr (h, a, r, s)" "pc_reach ex_hash 2 (h, a, {[s], [r]})" "nb_block_id (h r) = Some 0"
    "nb_block_id (h s) = Some 0" "nb_token_ids (h r) = [1, 2]" by (rule ex_share_reach)
  from prefix_cache_shares_content [OF e(2), of "[r]" "[s]"] e show ?thesis by (intro exI [of _ h] exI [of _ a] exI [of _ r] exI [of _ s]) simp
qed

text \<open>
  C12. In every reachable state the reference count of a physical block is the number of chains that end in it;
  the block is free, or in the evictor where a cached content can be found again, exactly when there is none;
  and the free blocks, the evictable ones and those in use are all blocks.
\<close>

theorem prefix_cache_accounts:
  assumes "pc_reach HB depth (h, a, P)"
  shows "(\<forall>b \<in> pc_all_block_ids a.
      refcounts (pa_refcounter a) b = Some (int (card {p \<in> P. nb_block_id (h (last p)) = Some b})) \<and>
      (b \<in> set (free_block_indices (pa_hashless_allocator a)) \<or> ev_contains (pa_evictor a) b \<longleftrightarrow>
         (\<forall>p \<in> P. nb_block_id (h (last p)) \<noteq> Some b)) \<and>
      (b \<in> set (free_block_indices (pa_hashless_allocator a)) \<longrightarrow> b \<notin> ran (pa_cached_blocks a))) \<and>
    pc_get_num_free_blocks a + card {b. \<exists>p \<in> P. nb_block_id (h (last p)) = Some b} = pc_get_num_total_blocks a"
proof (intro conjI ballI)
  have ok: "pc_ok HB h a P P {}" using pc_reach_ok [OF assms] .
  note D = pc_okD [OF ok]
  note B = booksD [OF D(2)]
  fix b assume b: "b \<in> pc_all_block_ids a"
  show "refcounts (pa_refcounter a) b = Some (int (card {p \<in> P. nb_block_id (h (last p)) = Some b}))"
    using B(4) [OF b] refs_chains [OF ok] by simp
  show "b \<in> set (free_block_indices (pa_hashless_allocator a)) \<or> ev_contains (pa_evictor a) b \<longleftrightarrow>
      (\<forall>p \<in> P. nb_block_id (h (last p)) \<noteq> Some b)" using B(9) [of b] b refs_zero [OF ok, of b] by simp
  show "b \<in> set (free_block_indices (pa_hashless_allocator a)) \<longrightarrow> b \<notin> ran (pa_cached_blocks a)" using B(10) by (auto simp: ran_def)
next
  have ok: "pc_ok HB h a P P {}" using pc_reach_ok [OF assms] .
  note D = pc_okD [OF ok]
  have used: "{b. \<exists>p \<in> P. nb_block_id (h (last p)) = Some b} = {b \<in> pc_all_block_ids a. refs h a b \<noteq> 0}"
  proof (rule set_eqI)
    fix b
    have "b \<in> pc_all_block_ids a" if "p \<in> P" "nb_block_id (h (last p)) = Some b" for p
      using contentD [OF D(9) that(1)] that(2) by auto
    then show "b \<in> {b. \<exists>p \<in> P. nb_block_id (h (last p)) = Some b} \<longleftrightarrow> b \<in> {b \<in> pc_all_block_ids a. refs h a b \<noteq> 0}"
      using refs_zero [OF ok, of b] by auto
  qed
  have "pc_get_num_total_blocks a = card (pc_all_block_ids a)"
    by (simp add: pc_get_num_total_blocks_def naive_get_num_total_blocks_def pc_all_block_ids_def)
  moreover have "pc_all_block_ids a = {b \<in> pc_all_block_ids a. refs h a b = 0} \<union> {b \<in> pc_all_block_ids a. refs h a b \<noteq> 0}" by blast
  then have "card (pc_all_block_ids a) = card {b \<in> pc_all_block_ids a. refs h a b = 0} + card {b \<in> pc_all_block_ids a. refs h a b \<noteq> 0}"
    using card_Un_disjoint [of "{b \<in> pc_all_block_ids a. refs h a b = 0}" "{b \<in> pc_all_block_ids a. refs h a b \<noteq> 0}"] booksD(1) [OF D(2)]
    by (metis (no_types, lifting) disjoint_iff finite_Un mem_Collect_eq)
  ultimately show "pc_get_num_free_blocks a + card {b. \<exists>p \<in> P. nb_block_id (h (last p)) = Some b} = pc_get_num_total_blocks a"
    unfolding used using books_free_count [OF D(2)] by simp
qed

theorem prefix_cache_accounts_witness:
  "\<exists>h a r s. ex_share = Inr (h, a, r, s) \<and> pc_get_num_free_blocks a + card {b. b = 0} = pc_get_num_total_blocks a"
proof -
  obtain h a r s where e: "ex_share = Inr (h, a, r, s)" "pc_reach ex_hash 2 (h, a, {[s], [r]})" "nb_block_id (h r) = Some 0"
    "nb_block_id (h s) = Some 0" by (rule ex_share_reach)
  have "{b. \<exists>p \<in> {[s], [r]}. nb_block_id (h (last p)) = Some b} = {b. b = 0}" using e(3,4) by auto
  with prefix_cache_accounts [OF e(2)] e(1) show ?thesis by (intro exI [of _ h] exI [of _ a] exI [of _ r] exI [of _ s]) simp
qed

text \<open>
  C13. A prefix that is cached is found. The content of every full prefix in use is cached, in its physical block; giving sequences
  back forgets no cached content; and when the tokens of a full block are allocated behind full blocks and the chained hash is
  cached, in a block in use or in one that waits in the evictor with no reference left, the call succeeds, even with no
  block free, and hands out that very block. Only when the block came out of the evictor is there one available block less.
\<close>

theorem prefix_cache_reuses:
  assumes "pc_reach HB depth (h, a, P)"
  shows "(\<forall>p \<in> P. list_all (\<lambda>r. is_full (h r)) p \<longrightarrow>
      (\<exists>k b. hash_of_chain HB (toks h p) = Some k \<and> nb_block_id (h (last p)) = Some b \<and> pa_cached_blocks a k = Some b)) \<and>
    (\<forall>t h1 a1. pc_free_table HB depth h a t = Inr (h1, a1) \<longrightarrow> pa_cached_blocks a1 = pa_cached_blocks a) \<and>
    (\<forall>q prev ts k b. (if q = [] then prev = None else q \<in> P \<and> prev = Some (last q)) \<and> list_all (\<lambda>r. is_full (h r)) q \<and>
        length q < depth \<and> length ts = pa_block_size a \<and> hash_of_chain HB (toks h q @ [ts]) = Some k \<and>
        pa_cached_blocks a k = Some b \<longrightarrow>
      (\<exists>r h' a'. pc_allocate_immutable_block HB depth h a prev ts = Inr (r, h', a') \<and> nb_block_id (h' r) = Some b \<and>
         pc_get_num_free_blocks a = pc_get_num_free_blocks a' + (if ev_contains (pa_evictor a) b then 1 else 0)))"
proof (intro conjI ballI allI impI)
  have ok: "pc_ok HB h a P P {}" using pc_reach_ok [OF assms] .
  note D = pc_okD [OF ok]
  fix p assume p: "p \<in> P" "list_all (\<lambda>r. is_full (h r)) p"
  have "p \<noteq> []" using chainsD(1) [OF D(4) p(1)] by blast
  then obtain k where "hash_of_chain HB (toks h p) = Some k" by (cases "hash_of_chain HB (toks h p)") (auto simp: toks_def)
  moreover from this have "chain_key HB h p = Some k" using p(2) by (simp add: chain_key_def)
  ultimately show "\<exists>k b. hash_of_chain HB (toks h p) = Some k \<and> nb_block_id (h (last p)) = Some b \<and> pa_cached_blocks a k = Some b"
    by (intro exI [of _ k]) (rule contentD [OF D(9) p(1)], simp)
next
  show "pa_cached_blocks a1 = pa_cached_blocks a" if "pc_free_table HB depth h a t = Inr (h1, a1)" for t h1 a1
    using free_table_keeps_cached [OF that] .
next
  have ok: "pc_ok HB h a P P {}" using pc_reach_ok [OF assms] .
  fix q prev ts k b
  assume H: "(if q = [] then prev = None else q \<in> P \<and> prev = Some (last q)) \<and> list_all (\<lambda>r. is_full (h r)) q \<and>
      length q < depth \<and> length ts = pa_block_size a \<and> hash_of_chain HB (toks h q @ [ts]) = Some k \<and> pa_cached_blocks a k = Some b"
  then have pv: "prev_of P q prev" and fq: "list_all (\<lambda>r. is_full (h r)) q" and d: "length q < depth" and l: "length ts = pa_block_size a"
    and hk: "hash_of_chain HB (toks h q @ [ts]) = Some k" and c: "pa_cached_blocks a k = Some b" by blast+
  obtain r h' a' where run: "pc_allocate_immutable_block HB depth h a prev ts = Inr (r, h', a')" "nb_block_id (h' r) = Some b"
    by (rule immutable_hit [OF ok pv fq l hk c d])
  then show "\<exists>r h' a'. pc_allocate_immutable_block HB depth h a prev ts = Inr (r, h', a') \<and> nb_block_id (h' r) = Some b \<and>
      pc_get_num_free_blocks a = pc_get_num_free_blocks a' + (if ev_contains (pa_evictor a) b then 1 else 0)"
    using hit_free_blocks [OF ok pv run c] by blast
qed

theorem prefix_cache_reuses_witness:
  "\<exists>h a t h' a'. ex_evictable = Inr (h, a) \<and> ev_contains (pa_evictor a) 0 \<and> pc_get_num_free_blocks a = 1 \<and>
     pc_allocate_immutable_block ex_hash 2 h a None [1, 2] = Inr (t, h', a') \<and> nb_block_id (h' t) = Some 0 \<and>
     pc_get_num_free_blocks a' = 0"
proof -
  obtain h a where e: "ex_evictable = Inr (h, a)" "pc_reach ex_hash 2 (h, a, {})" "pa_cached_blocks a 23 = Some 0"
    "pa_block_size a = 2" "ev_contains (pa_evictor a) 0" "pc_get_num_free_blocks a = 1" by (rule ex_evictable_reach)
  have "hash_of_chain ex_hash (toks h [] @ [[1, 2]]) = Some 23" by (simp add: hash_of_chain_def toks_def ex_hash_def)
  then have "\<exists>t h' a'. pc_allocate_immutable_block ex_hash 2 h a None [1, 2] = Inr (t, h', a') \<and> nb_block_id (h' t) = Some 0 \<and>
      pc_get_num_free_blocks a = pc_get_num_free_blocks a' + (if ev_contains (pa_evictor a) 0 then 1 else 0)"
    by (intro prefix_cache_reuses [OF e(2), THEN conjunct2, THEN conjunct2, rule_format, of "[]" None "[1, 2]" 23 0])
      (use e(3,4) in simp)
  then obtain t h' a' where "pc_allocate_immutable_block ex_hash 2 h a None [1, 2] = Inr (t, h', a')" "nb_block_id (h' t) = Some 0"
    "pc_get_num_free_blocks a' = 0" using e(5,6) by (auto simp del: ev_contains_iff)
  then show ?thesis using e(1,5,6) by blast
qed

text \<open>
  C24. A block for new tokens is refused exactly when no block is free and none can be evicted: then the error is
  \<open>NoFreeBlocksError\<close>, and otherwise the call succeeds and the number of available blocks falls by one.
\<close>

theorem prefix_cache_allocates:
  assumes "pc_reach HB depth (h, a, P)" "if p = [] then prev = None else p \<in> P \<and> prev = Some (last p)" "0 < depth"
  shows "if pc_get_num_free_blocks a = 0 then pc_allocate_mutable_block HB depth h a prev = Inl NoFreeBlocksError
    else \<exists>r h' a'. pc_allocate_mutable_block HB depth h a prev = Inr (r, h', a') \<and>
      pc_get_num_free_blocks a = Suc (pc_get_num_free_blocks a')"
proof -
  have ok: "pc_ok HB h a P P {}" using pc_reach_ok [OF assms(1)] .
  note D = pc_okD [OF ok]
  note A = pc_allocate_block_id_ok [OF D(2,1)]
  show ?thesis
  proof (cases "pc_get_num_free_blocks a = 0")
    case True
    then show ?thesis using A by (simp add: pc_allocate_mutable_block_def)
  next
    case False
    then obtain b h1 a1 where al: "pc_allocate_block_id h a = Inr (b, h1, a1)" using A by (auto simp: split_paired_Ex)
    have tk: "took h a (refs h a) b h1 a1" by (rule pc_allocate_block_id_took [OF D(2,1) al])
    then have t: "objs h1 a1" "b \<in> pc_all_block_ids a1" "pa_block_size a1 = pa_block_size a"
      "pc_get_num_free_blocks a = Suc (pc_get_num_free_blocks a1)" by (auto simp: took_def same_ids_def)
    have p: "pool_inv (pa_pool a1)" "0 < pool_size (pa_pool a1)" using t(1,2) by (auto simp: objs_def)
    obtain r h2 pl where ib: "init_block pc_block_init h1 (pa_pool a1) prev [] (pa_block_size a1) (Some b) = Inr (r, h2, pl)"
      using init_block_ok [OF p] pc.create_block_total by (metis le0 list.size(3))
    note I = init_block_objs [OF t(1) ib]
    have nf: "\<not> is_full (h2 r)" using I(6,7) D(3) t(3) by (simp add: is_full_def num_empty_slots_def)
    have "content_hash HB depth h2 r = Inr (None, h2)" using assms(3) nf I(10) by (cases depth) simp_all
    then have "pc_allocate_mutable_block HB depth h a prev = Inr (r, h2, put_pool pl a1)"
      using al ib I(11) by (simp add: pc_allocate_mutable_block_def)
    moreover have "pc_get_num_free_blocks (put_pool pl a1) = pc_get_num_free_blocks a1"
      by (simp add: pc_get_num_free_blocks_def naive_get_num_free_blocks_def)
    ultimately show ?thesis using False t(4) by simp
  qed
qed

theorem prefix_cache_allocates_witness:
  "\<exists>h a r s. ex_share = Inr (h, a, r, s) \<and> pc_allocate_mutable_block ex_hash 2 h a (Some r) = Inl NoFreeBlocksError"
proof -
  obtain h a r s where e: "ex_share = Inr (h, a, r, s)" "pc_reach ex_hash 2 (h, a, {[s], [r]})" "pc_get_num_free_blocks a = 0"
    by (rule ex_share_reach)
  from prefix_cache_allocates [OF e(2), of "[r]" "Some r"] e show ?thesis by (intro exI [of _ h] exI [of _ a] exI [of _ r] exI [of _ s]) simp
qed

text \<open>
  C25. The stored hashes are never stale: in every reachable state the content hash of the last block of a chain is
  the hash of the tokens of all its blocks, chained from the first, and there is none when a block is not full.
\<close>

theorem content_hash_is_prefix_hash:
  assumes "pc_reach HB depth (h, a, P)" "p \<in> P" "length p \<le> d"
  shows "\<exists>h'. content_hash HB d h (last p) =
      Inr (if list_all (\<lambda>r. is_full (h r)) p then hash_of_chain HB (toks h p) else None, h')"
  using content_hash_chain [OF pc_reach_ok [OF assms(1)] assms(2,3)] by (simp add: chain_key_def)

theorem content_hash_is_prefix_hash_witness:
  "\<exists>h a r s h'. ex_share = Inr (h, a, r, s) \<and> content_hash ex_hash 1 h r = Inr (Some 23, h')"
proof -
  obtain h a r s where e: "ex_share = Inr (h, a, r, s)" "pc_reach ex_hash 2 (h, a, {[s], [r]})" "nb_token_ids (h r) = [1, 2]" "is_full (h r)"
    by (rule ex_share_reach)
  have k: "hash_of_chain ex_hash (toks h [r]) = Some 23" using e(3) by (simp add: toks_def hash_of_chain_def ex_hash_def)
  obtain h' where "content_hash ex_hash 1 h (last [r]) =
      Inr (if list_all (\<lambda>r. is_full (h r)) [r] then hash_of_chain ex_hash (toks h [r]) else None, h')"
    using content_hash_is_prefix_hash [OF e(2), of "[r]" 1] by auto
  then have "content_hash ex_hash 1 h r = Inr (Some 23, h')" using e(4) k by (simp only: list.pred_inject last.simps if_True simp_thms)
  then show ?thesis using e(1) by blast
qed

end
