(* ===== verification/Work_Queue.thy ===== *)
theory Work_Queue
  imports Prelude
begin

text \<open>
  The inference work queue between the API server and the generator workers:
  \<open>api/work_queue/inference_work_queue.py\<close>, the metrics of \<open>generate/metrics.py\<close> and the handlers
  \<open>generate\<close>, \<open>embed\<close>, \<open>get_work\<close>, \<open>finish_work\<close> and \<open>poll_for_responses\<close> of \<open>api/fastapi/generate\<close>.

  The queue itself is a third-party \<open>persistqueue.SQLiteAckQueue\<close>: a parameter \<open>pq\<close>, a record of the
  methods the code calls, with its documented behaviour as the named hypotheses \<open>ackq_laws\<close> on the
  rows that its \<open>queue()\<close> method lists. Every method of \<open>InferenceWorkQueue\<close> holds its lock for one
  call, so an execution of the coroutines is an interleaving of these calls.
\<close>

section \<open>Requests, responses and the parameter queue\<close>

datatype response = Text string | Embedding "real list"

record work_item =
  wi_prompt :: string
  wi_model :: string
  wi_max_tokens :: "int option"
  wi_request_type :: string
  wi_response :: "response option"
  wi_error :: "string option"

datatype ack_status = Ready | Unack | Acked

type_synonym row = "nat \<times> ack_status \<times> work_item"

record 'q pq_ops =
  pq_put :: "'q \<Rightarrow> work_item \<Rightarrow> nat \<times> 'q"
  pq_get :: "'q \<Rightarrow> ((nat \<times> work_item) \<times> 'q) option"
  pq_get_id :: "'q \<Rightarrow> nat \<Rightarrow> (work_item \<times> 'q) option"
  pq_update :: "'q \<Rightarrow> nat \<Rightarrow> work_item \<Rightarrow> 'q"
  pq_ack :: "'q \<Rightarrow> nat \<Rightarrow> 'q"
  pq_queue :: "'q \<Rightarrow> row list"
  pq_clear_acked_data :: "'q \<Rightarrow> 'q"
  pq_resume_unack_tasks :: "'q \<Rightarrow> 'q"

definition set_status :: "nat \<Rightarrow> ack_status \<Rightarrow> row list \<Rightarrow> row list" where
  "set_status i s rows = map (\<lambda>(j, t, d). (j, if j = i then s else t, d)) rows"

definition set_data :: "nat \<Rightarrow> work_item \<Rightarrow> row list \<Rightarrow> row list" where
  "set_data i d rows = map (\<lambda>(j, t, e). (j, t, if j = i then d else e)) rows"

definition row_ids :: "row list \<Rightarrow> nat list" where
  "row_ids rows = map fst rows"

fun next_ready :: "row list \<Rightarrow> (nat \<times> work_item) option" where
  "next_ready [] = None"
| "next_ready ((i, s, d) # rows) = (if s = Ready then Some (i, d) else next_ready rows)"

text \<open>
  What is documented of the queue: \<open>put\<close> appends a new row and returns its id; \<open>get\<close> hands out the
  oldest row that is ready and marks it as not yet acknowledged, or raises \<open>Empty\<close>; \<open>get(id)\<close> returns
  the data of a row that is not acknowledged; \<open>update\<close> replaces the data and \<open>ack\<close> the status;
  \<open>clear_acked_data\<close> drops acknowledged rows only. Ids come from an auto-increment key and are never
  used again: \<open>hw q\<close> is the largest one given out.
\<close>

definition ackq_laws :: "'q pq_ops \<Rightarrow> ('q \<Rightarrow> nat) \<Rightarrow> bool" where
  "ackq_laws pq hw \<longleftrightarrow>
     (\<forall>q. \<forall>i \<in> set (row_ids (pq_queue pq q)). i \<le> hw q) \<and>
     (\<forall>q d. hw q < fst (pq_put pq q d) \<and> hw (snd (pq_put pq q d)) = fst (pq_put pq q d) \<and>
        pq_queue pq (snd (pq_put pq q d)) = pq_queue pq q @ [(fst (pq_put pq q d), Ready, d)]) \<and>
     (\<forall>q. case pq_get pq q of
            None \<Rightarrow> next_ready (pq_queue pq q) = None
          | Some ((i, d), q') \<Rightarrow> next_ready (pq_queue pq q) = Some (i, d) \<and> hw q' = hw q \<and>
              pq_queue pq q' = set_status i Unack (pq_queue pq q)) \<and>
     (\<forall>q i. case pq_get_id pq q i of
            None \<Rightarrow> \<forall>s d. (i, s, d) \<in> set (pq_queue pq q) \<longrightarrow> s = Acked
          | Some (d, q') \<Rightarrow> (\<exists>s. (i, s, d) \<in> set (pq_queue pq q) \<and> s \<noteq> Acked) \<and> hw q' = hw q \<and>
              pq_queue pq q' = set_status i Unack (pq_queue pq q)) \<and>
     (\<forall>q i d. hw (pq_update pq q i d) = hw q \<and>
        pq_queue pq (pq_update pq q i d) = set_data i d (pq_queue pq q)) \<and>
     (\<forall>q i. hw (pq_ack pq q i) = hw q \<and> pq_queue pq (pq_ack pq q i) = set_status i Acked (pq_queue pq q)) \<and>
     (\<forall>q. hw (pq_clear_acked_data pq q) = hw q \<and>
        subseq (pq_queue pq (pq_clear_acked_data pq q)) (pq_queue pq q) \<and>
        (\<forall>i s d. (i, s, d) \<in> set (pq_queue pq q) \<and> s \<noteq> Acked \<longrightarrow>
           (i, s, d) \<in> set (pq_queue pq (pq_clear_acked_data pq q))))"

section \<open>InferenceWorkQueue\<close>

definition wq_put :: "'q pq_ops \<Rightarrow> 'q \<Rightarrow> work_item \<Rightarrow> nat \<times> 'q" where
  "wq_put pq q request = pq_put pq q request"

text \<open>
  \<open>get\<close> polls until the timeout. \<open>env\<close> has one entry per poll made before the timeout: what the
  other coroutines do to the queue during the sleep that follows an unsuccessful poll.
\<close>

fun wq_get :: "'q pq_ops \<Rightarrow> ('q \<Rightarrow> 'q) list \<Rightarrow> 'q \<Rightarrow> (work_item \<times> nat) option \<times> 'q" where
  "wq_get pq [] q = (None, q)"
| "wq_get pq (e # env) q =
     (case pq_get pq q of
        Some ((i, d), q') \<Rightarrow> (Some (d, i), q')
      | None \<Rightarrow> wq_get pq env (e q))"

definition wq_get_id :: "'q pq_ops \<Rightarrow> 'q \<Rightarrow> nat \<Rightarrow> py_error + (work_item \<times> 'q)" where
  "wq_get_id pq q i = from_option QueueEmpty (pq_get_id pq q i)"

definition wq_get_nowait :: "'q pq_ops \<Rightarrow> 'q \<Rightarrow> (work_item \<times> nat) option \<times> 'q" where
  "wq_get_nowait pq q =
     (case pq_get pq q of
        Some ((i, d), q') \<Rightarrow> (Some (d, i), q')
      | None \<Rightarrow> (None, q))"

fun find_finished :: "nat \<Rightarrow> row list \<Rightarrow> work_item option" where
  "find_finished i [] = None"
| "find_finished i ((j, s, d) # rows) = (if j = i \<and> s = Acked then Some d else find_finished i rows)"

definition wq_get_if_finished :: "'q pq_ops \<Rightarrow> 'q \<Rightarrow> nat \<Rightarrow> work_item option" where
  "wq_get_if_finished pq q i = find_finished i (pq_queue pq q)"

definition wq_update :: "'q pq_ops \<Rightarrow> 'q \<Rightarrow> nat \<Rightarrow> work_item \<Rightarrow> 'q" where
  "wq_update pq q i item = pq_update pq q i item"

definition wq_ack :: "'q pq_ops \<Rightarrow> 'q \<Rightarrow> nat \<Rightarrow> 'q" where
  "wq_ack pq q i = pq_ack pq q i"

definition wq_update_and_ack :: "'q pq_ops \<Rightarrow> 'q \<Rightarrow> nat \<Rightarrow> work_item \<Rightarrow> 'q" where
  "wq_update_and_ack pq q i item = pq_ack pq (pq_update pq q i item) i"

definition wq_resume_unack_tasks :: "'q pq_ops \<Rightarrow> 'q \<Rightarrow> 'q" where
  "wq_resume_unack_tasks pq q = pq_resume_unack_tasks pq q"

definition wq_clear_acked_data :: "'q pq_ops \<Rightarrow> 'q \<Rightarrow> 'q" where
  "wq_clear_acked_data pq q = pq_clear_acked_data pq q"

section \<open>Metrics\<close>

text \<open>Times are the values of \<open>time.time()\<close>, as reals.\<close>

record metrics =
  queue_depth :: int
  epoch_time :: "real option"
  total_completed_requests :: nat
  total_completed_tokens :: int
  total_completed_flops :: int
  total_completed_response_time :: real

definition metrics_init :: metrics where
  "metrics_init = \<lparr>queue_depth = 0, epoch_time = None, total_completed_requests = 0,
     total_completed_tokens = 0, total_completed_flops = 0, total_completed_response_time = 0\<rparr>"

definition record_new_request :: "real \<Rightarrow> metrics \<Rightarrow> metrics" where
  "record_new_request now m =
     (let m = (if queue_depth m = 0 then m\<lparr>epoch_time := Some now\<rparr> else m)
      in m\<lparr>queue_depth := queue_depth m + 1\<rparr>)"

text \<open>
  The counters change before the subtraction that raises a \<open>TypeError\<close> when no request was ever
  recorded, so the changed metrics are returned with the exception.
\<close>

definition record_completed_request ::
  "real \<Rightarrow> int option \<Rightarrow> int option \<Rightarrow> metrics \<Rightarrow> py_error option \<times> metrics" where
  "record_completed_request now token_count flop_count m =
     (let m = m\<lparr>total_completed_requests := total_completed_requests m + 1\<rparr>;
          m = (case flop_count of None \<Rightarrow> m | Some k \<Rightarrow> m\<lparr>total_completed_flops := total_completed_flops m + k\<rparr>);
          m = (case token_count of None \<Rightarrow> m | Some k \<Rightarrow> m\<lparr>total_completed_tokens := total_completed_tokens m + k\<rparr>);
          m = m\<lparr>queue_depth := queue_depth m - 1\<rparr>
      in case epoch_time m of
           None \<Rightarrow> (Some TypeError, m)
         | Some epoch \<Rightarrow>
             (None, m\<lparr>total_completed_response_time := total_completed_response_time m + (now - epoch),
                      epoch_time := Some now\<rparr>))"

definition per_second :: "real \<Rightarrow> metrics \<Rightarrow> real" where
  "per_second amount m =
     (if total_completed_response_time m > 0 then amount / total_completed_response_time m else 0)"

record metrics_response =
  mr_queue_depth :: int
  mr_total_completed_requests :: nat
  mr_total_completed_tokens :: int
  mr_total_completed_response_time :: real
  mr_tokens_per_second :: real
  mr_requests_per_second :: real
  mr_flops_per_second :: real

definition get_all_metrics :: "metrics \<Rightarrow> metrics_response" where
  "get_all_metrics m =
     \<lparr>mr_queue_depth = queue_depth m,
      mr_total_completed_requests = total_completed_requests m,
      mr_total_completed_tokens = total_completed_tokens m,
      mr_total_completed_response_time = total_completed_response_time m,
      mr_tokens_per_second = per_second (real_of_int (total_completed_tokens m)) m,
      mr_requests_per_second = per_second (real (total_completed_requests m)) m,
      mr_flops_per_second = per_second (real_of_int (total_completed_flops m)) m\<rparr>"

section \<open>The handlers\<close>

record finish_request =
  fr_request_id :: nat
  fr_response :: "response option"
  fr_error :: "string option"
  fr_token_count :: "int option"
  fr_flop_count :: "int option"

definition finish_item :: "finish_request \<Rightarrow> work_item \<Rightarrow> work_item" where
  "finish_item req item =
     (let item = (case fr_response req of None \<Rightarrow> item | Some r \<Rightarrow> item\<lparr>wi_response := Some r\<rparr>)
      in case fr_error req of None \<Rightarrow> item | Some e \<Rightarrow> item\<lparr>wi_error := Some e\<rparr>)"

text \<open>One round of the loop of \<open>finish_work\<close>, and the loop; an exception ends it.\<close>

definition finish_one ::
  "'q pq_ops \<Rightarrow> real \<Rightarrow> finish_request \<Rightarrow> 'q \<times> metrics \<Rightarrow> py_error option \<times> 'q \<times> metrics" where
  "finish_one pq now req = (\<lambda>(q, m).
     case wq_get_id pq q (fr_request_id req) of
       Inl e \<Rightarrow> (Some e, q, m)
     | Inr (item, q) \<Rightarrow>
         let q = wq_update_and_ack pq q (fr_request_id req) (finish_item req item);
             (e, m) = record_completed_request now (fr_token_count req) (fr_flop_count req) m
         in (e, q, m))"

fun finish_work ::
  "'q pq_ops \<Rightarrow> real \<Rightarrow> finish_request list \<Rightarrow> 'q \<times> metrics \<Rightarrow> py_error option \<times> 'q \<times> metrics" where
  "finish_work pq now [] s = (None, s)"
| "finish_work pq now (req # reqs) s =
     (case finish_one pq now req s of
        (None, s') \<Rightarrow> finish_work pq now reqs s'
      | (Some e, s') \<Rightarrow> (Some e, s'))"

record work_response =
  wr_prompt :: string
  wr_request_id :: nat
  wr_model :: string
  wr_request_type :: string
  wr_max_tokens :: "int option"

definition to_work_response :: "work_item \<Rightarrow> nat \<Rightarrow> work_response" where
  "to_work_response item i =
     \<lparr>wr_prompt = wi_prompt item, wr_request_id = i, wr_model = wi_model item,
      wr_request_type = wi_request_type item, wr_max_tokens = wi_max_tokens item\<rparr>"

fun get_more_work :: "'q pq_ops \<Rightarrow> nat \<Rightarrow> 'q \<Rightarrow> work_response list \<times> 'q" where
  "get_more_work pq 0 q = ([], q)"
| "get_more_work pq (Suc n) q =
     (case wq_get_nowait pq q of
        (None, q) \<Rightarrow> ([], q)
      | (Some (item, i), q) \<Rightarrow>
          let (rs, q) = get_more_work pq n q in (to_work_response item i # rs, q))"

definition get_work :: "'q pq_ops \<Rightarrow> ('q \<Rightarrow> 'q) list \<Rightarrow> int \<Rightarrow> 'q \<Rightarrow> work_response list \<times> 'q" where
  "get_work pq env batch_size q =
     (case wq_get pq env q of
        (None, q) \<Rightarrow> ([], q)
      | (Some (item, i), q) \<Rightarrow>
          let (rs, q) = get_more_work pq (nat (batch_size - 1)) q in (to_work_response item i # rs, q))"

fun enqueue_prompts ::
  "'q pq_ops \<Rightarrow> real \<Rightarrow> (string \<Rightarrow> work_item) \<Rightarrow> string list \<Rightarrow> 'q \<times> metrics \<Rightarrow> nat list \<times> 'q \<times> metrics" where
  "enqueue_prompts pq now mk [] s = ([], s)"
| "enqueue_prompts pq now mk (p # ps) (q, m) =
     (let (i, q) = wq_put pq q (mk p);
          (ids, s) = enqueue_prompts pq now mk ps (q, record_new_request now m)
      in (i # ids, s))"

fun enqueue_embed_prompts ::
  "'q pq_ops \<Rightarrow> (string \<Rightarrow> work_item) \<Rightarrow> string list \<Rightarrow> 'q \<Rightarrow> nat list \<times> 'q" where
  "enqueue_embed_prompts pq mk [] q = ([], q)"
| "enqueue_embed_prompts pq mk (p # ps) q =
     (let (i, q) = wq_put pq q (mk p); (ids, q) = enqueue_embed_prompts pq mk ps q in (i # ids, q))"

section \<open>Choosing the model (vllm_model_manager.py, get_latest_model.py)\<close>

fun find_model :: "string list \<Rightarrow> string \<Rightarrow> string option" where
  "find_model [] model_name = None"
| "find_model (m # models) model_name = (if sublist model_name m then Some m else find_model models model_name)"

record job_status_file =
  js_has_history :: bool
  js_start_time :: "real option"

definition get_start_time :: "job_status_file \<Rightarrow> real" where
  "get_start_time status =
     (if \<not> js_has_history status then 0 else case js_start_time status of None \<Rightarrow> 0 | Some t \<Rightarrow> t)"

text \<open>
  \<open>dir\<close> is the listing of the training directory with each job's \<open>status.json\<close>, or \<open>None\<close> when the
  directory does not exist. A reversed stable sort puts the first of the latest models in front.
\<close>

definition get_latest_model :: "(string \<times> job_status_file) list option \<Rightarrow> py_error + string" where
  "get_latest_model dir =
     bindE (from_option FileNotFoundError dir) (\<lambda>models.
     bindE (raise_unless FileNotFoundError (models \<noteq> [])) (\<lambda>_.
     Inr (fst (hd (sort_key (\<lambda>(_, st). - get_start_time st) models)))))"

definition generate_item :: "string \<Rightarrow> int option \<Rightarrow> string \<Rightarrow> work_item" where
  "generate_item model max_tokens prompt =
     \<lparr>wi_prompt = prompt, wi_model = model, wi_max_tokens = max_tokens, wi_request_type = ''generate'',
      wi_response = None, wi_error = None\<rparr>"

definition embed_item :: "string \<Rightarrow> string \<Rightarrow> work_item" where
  "embed_item model prompt =
     \<lparr>wi_prompt = prompt, wi_model = model, wi_max_tokens = None, wi_request_type = ''embed'',
      wi_response = None, wi_error = None\<rparr>"

text \<open>\<open>generate\<close> up to the polling: resolve the model, enqueue one item per prompt.\<close>

definition generate ::
  "'q pq_ops \<Rightarrow> real \<Rightarrow> string \<Rightarrow> (string \<times> job_status_file) list option \<Rightarrow> string list \<Rightarrow>
     string option \<Rightarrow> string list \<Rightarrow> int option \<Rightarrow> 'q \<times> metrics \<Rightarrow> py_error + (nat list \<times> 'q \<times> metrics)" where
  "generate pq now config_model dir registered model prompts max_tokens s =
     (let model = (case model of None \<Rightarrow> config_model | Some m \<Rightarrow> m) in
      bindE (if model = ''latest'' then get_latest_model dir else Inr model) (\<lambda>model.
      bindE (from_option (HTTPException 404) (find_model registered model)) (\<lambda>model.
      Inr (enqueue_prompts pq now (generate_item model max_tokens) prompts s))))"

definition embed ::
  "'q pq_ops \<Rightarrow> string \<Rightarrow> string option \<Rightarrow> string list \<Rightarrow> 'q \<Rightarrow> nat list \<times> 'q" where
  "embed pq config_model model prompts q =
     enqueue_embed_prompts pq (embed_item (case model of None \<Rightarrow> config_model | Some m \<Rightarrow> m)) prompts q"

section \<open>poll_for_responses\<close>

record result =
  res_request_id :: nat
  res_response :: "response option"
  res_error :: "string option"

text \<open>
  Polling only reads. \<open>rounds\<close> has one entry per round of the loop begun before the timeout: the
  queue as it is when the \<open>k\<close>-th check of the round is made.
\<close>

fun poll_round ::
  "'q pq_ops \<Rightarrow> (nat \<Rightarrow> 'q) \<Rightarrow> nat \<Rightarrow> nat list \<Rightarrow> nat set \<times> result list \<Rightarrow> nat set \<times> result list" where
  "poll_round pq snap k [] st = st"
| "poll_round pq snap k (i # ids) (seen, results) =
     poll_round pq snap (Suc k) ids
       (if i \<in> seen then (seen, results)
        else case wq_get_if_finished pq (snap k) i of
               None \<Rightarrow> (seen, results)
             | Some item \<Rightarrow>
                 (insert i seen,
                  results @ [\<lparr>res_request_id = i, res_response = wi_response item, res_error = wi_error item\<rparr>]))"

fun poll_loop ::
  "'q pq_ops \<Rightarrow> (nat \<Rightarrow> 'q) list \<Rightarrow> nat list \<Rightarrow> nat set \<times> result list \<Rightarrow> nat set \<times> result list" where
  "poll_loop pq [] ids st = st"
| "poll_loop pq (snap # rounds) ids (seen, results) =
     (if length results < length ids
      then poll_loop pq rounds ids (poll_round pq snap 0 ids (seen, results))
      else (seen, results))"

definition poll_for_responses :: "'q pq_ops \<Rightarrow> (nat \<Rightarrow> 'q) list \<Rightarrow> nat list \<Rightarrow> result list" where
  "poll_for_responses pq rounds request_ids =
     (let (seen, results) = poll_loop pq rounds request_ids ({}, []);
          missing = map (\<lambda>i. \<lparr>res_request_id = i, res_response = None, res_error = None\<rparr>)
                      (filter (\<lambda>i. i \<notin> seen) request_ids)
      in sort_key res_request_id (results @ missing))"

section \<open>The documented behaviour can hold\<close>

text \<open>
  A queue as the list of its rows in id order, a cleared row being \<open>None\<close>, behaves as documented; it
  instantiates the parameter in the witnesses.
\<close>

type_synonym list_queue = "(ack_status \<times> work_item) option list"

fun rows_from :: "nat \<Rightarrow> list_queue \<Rightarrow> row list" where
  "rows_from k [] = []"
| "rows_from k (None # q) = rows_from (Suc k) q"
| "rows_from k (Some (s, d) # q) = (k, s, d) # rows_from (Suc k) q"

fun adjust_from :: "nat \<Rightarrow> nat \<Rightarrow> (ack_status \<times> work_item \<Rightarrow> ack_status \<times> work_item) \<Rightarrow> list_queue \<Rightarrow> list_queue" where
  "adjust_from k i f [] = []"
| "adjust_from k i f (x # q) = (if k = i then map_option f x else x) # adjust_from (Suc k) i f q"

definition list_pq :: "list_queue pq_ops" where
  "list_pq =
     \<lparr>pq_put = (\<lambda>q d. (Suc (length q), q @ [Some (Ready, d)])),
      pq_get = (\<lambda>q. case next_ready (rows_from 1 q) of None \<Rightarrow> None
                 | Some (i, d) \<Rightarrow> Some ((i, d), adjust_from 1 i (\<lambda>(s, d). (Unack, d)) q)),
      pq_get_id = (\<lambda>q i. case find (\<lambda>(j, s, d). j = i \<and> s \<noteq> Acked) (rows_from 1 q) of None \<Rightarrow> None
                 | Some (j, s, d) \<Rightarrow> Some (d, adjust_from 1 i (\<lambda>(s, d). (Unack, d)) q)),
      pq_update = (\<lambda>q i e. adjust_from 1 i (\<lambda>(s, d). (s, e)) q),
      pq_ack = (\<lambda>q i. adjust_from 1 i (\<lambda>(s, d). (Acked, d)) q),
      pq_queue = rows_from 1,
      pq_clear_acked_data = map (\<lambda>x. case x of Some (Acked, d) \<Rightarrow> None | _ \<Rightarrow> x),
      pq_resume_unack_tasks = map (map_option (\<lambda>(t, d). (if t = Unack then Ready else t, d)))\<rparr>"

lemma rows_from_append: "rows_from k (q @ q') = rows_from k q @ rows_from (k + length q) q'"
  by (induction k q rule: rows_from.induct) auto

lemma rows_from_bound: "(i, s, d) \<in> set (rows_from k q) \<Longrightarrow> k \<le> i \<and> i < k + length q"
  by (induction k q rule: rows_from.induct) auto

lemma rows_from_status: "rows_from k (adjust_from k i (\<lambda>(s, d). (t, d)) q) = set_status i t (rows_from k q)"
  by (induction k q rule: rows_from.induct) (auto simp: set_status_def)

lemma rows_from_data: "rows_from k (adjust_from k i (\<lambda>(s, d). (s, e)) q) = set_data i e (rows_from k q)"
  by (induction k q rule: rows_from.induct) (auto simp: set_data_def)

lemma length_adjust [simp]: "length (adjust_from k i f q) = length q"
  by (induction k i f q rule: adjust_from.induct) auto

lemma rows_from_clear:
  "subseq (rows_from k (map (\<lambda>x. case x of Some (Acked, d) \<Rightarrow> None | _ \<Rightarrow> x) q)) (rows_from k q) \<and>
   ((i, s, d) \<in> set (rows_from k q) \<longrightarrow> s \<noteq> Acked \<longrightarrow>
      (i, s, d) \<in> set (rows_from k (map (\<lambda>x. case x of Some (Acked, d) \<Rightarrow> None | _ \<Rightarrow> x) q)))"
proof (induction k q rule: rows_from.induct)
  case (3 k t e q)
  then show ?case by (cases t) auto
qed auto

lemma find_SomeD: "find P xs = Some x \<Longrightarrow> x \<in> set xs \<and> P x"
  by (induction xs) (auto split: if_splits)

lemma list_pq_laws: "ackq_laws list_pq length"
  unfolding ackq_laws_def
proof (intro conjI allI)
  fix q :: list_queue and i d
  show "\<forall>i \<in> set (row_ids (pq_queue list_pq q)). i \<le> length q"
    by (auto simp: list_pq_def row_ids_def dest!: rows_from_bound)
  show "length q < fst (pq_put list_pq q d)" "length (snd (pq_put list_pq q d)) = fst (pq_put list_pq q d)"
    "pq_queue list_pq (snd (pq_put list_pq q d)) = pq_queue list_pq q @ [(fst (pq_put list_pq q d), Ready, d)]"
    by (simp_all add: list_pq_def rows_from_append)
  show "case pq_get list_pq q of None \<Rightarrow> next_ready (pq_queue list_pq q) = None
     | Some ((i, d), q') \<Rightarrow> next_ready (pq_queue list_pq q) = Some (i, d) \<and> length q' = length q \<and>
         pq_queue list_pq q' = set_status i Unack (pq_queue list_pq q)"
    by (auto simp: list_pq_def rows_from_status split: option.splits)
  show "case pq_get_id list_pq q i of
       None \<Rightarrow> \<forall>s d. (i, s, d) \<in> set (pq_queue list_pq q) \<longrightarrow> s = Acked
     | Some (d, q') \<Rightarrow> (\<exists>s. (i, s, d) \<in> set (pq_queue list_pq q) \<and> s \<noteq> Acked) \<and> length q' = length q \<and>
         pq_queue list_pq q' = set_status i Unack (pq_queue list_pq q)"
    by (auto simp: list_pq_def rows_from_status find_None_iff dest!: find_SomeD split: option.splits)
  show "length (pq_update list_pq q i d) = length q"
    "pq_queue list_pq (pq_update list_pq q i d) = set_data i d (pq_queue list_pq q)"
    "length (pq_ack list_pq q i) = length q"
    "pq_queue list_pq (pq_ack list_pq q i) = set_status i Acked (pq_queue list_pq q)"
    by (simp_all add: list_pq_def rows_from_status rows_from_data)
  show "length (pq_clear_acked_data list_pq q) = length q"
    "subseq (pq_queue list_pq (pq_clear_acked_data list_pq q)) (pq_queue list_pq q)"
    using rows_from_clear by (simp_all add: list_pq_def)
  show "(i, s, d) \<in> set (pq_queue list_pq q) \<and> s \<noteq> Acked \<longrightarrow>
      (i, s, d) \<in> set (pq_queue list_pq (pq_clear_acked_data list_pq q))" for s
    using rows_from_clear by (simp add: list_pq_def)
qed

section \<open>Laws of the rows\<close>

lemma ackqD:
  assumes "ackq_laws pq hw"
  shows "\<And>q i. i \<in> set (row_ids (pq_queue pq q)) \<Longrightarrow> i \<le> hw q"
    "\<And>q d. hw q < fst (pq_put pq q d)" "\<And>q d. hw (snd (pq_put pq q d)) = fst (pq_put pq q d)"
    "\<And>q d. pq_queue pq (snd (pq_put pq q d)) = pq_queue pq q @ [(fst (pq_put pq q d), Ready, d)]"
    "\<And>q i d q'. pq_get pq q = Some ((i, d), q') \<Longrightarrow> next_ready (pq_queue pq q) = Some (i, d) \<and>
       hw q' = hw q \<and> pq_queue pq q' = set_status i Unack (pq_queue pq q)"
    "\<And>q. pq_get pq q = None \<Longrightarrow> next_ready (pq_queue pq q) = None"
    "\<And>q i d q'. pq_get_id pq q i = Some (d, q') \<Longrightarrow>
       (\<exists>s. (i, s, d) \<in> set (pq_queue pq q) \<and> s \<noteq> Acked) \<and> hw q' = hw q \<and>
       pq_queue pq q' = set_status i Unack (pq_queue pq q)"
    "\<And>q i s d. pq_get_id pq q i = None \<Longrightarrow> (i, s, d) \<in> set (pq_queue pq q) \<Longrightarrow> s = Acked"
    "\<And>q i d. hw (pq_update pq q i d) = hw q"
    "\<And>q i d. pq_queue pq (pq_update pq q i d) = set_data i d (pq_queue pq q)"
    "\<And>q i. hw (pq_ack pq q i) = hw q" "\<And>q i. pq_queue pq (pq_ack pq q i) = set_status i Acked (pq_queue pq q)"
    "\<And>q. hw (pq_clear_acked_data pq q) = hw q"
    "\<And>q. subseq (pq_queue pq (pq_clear_acked_data pq q)) (pq_queue pq q)"
proof -
  from assms have A: "\<forall>q. \<forall>i \<in> set (row_ids (pq_queue pq q)). i \<le> hw q"
    and B: "\<forall>q d. hw q < fst (pq_put pq q d) \<and> hw (snd (pq_put pq q d)) = fst (pq_put pq q d) \<and>
        pq_queue pq (snd (pq_put pq q d)) = pq_queue pq q @ [(fst (pq_put pq q d), Ready, d)]"
    and C: "\<forall>q. case pq_get pq q of
            None \<Rightarrow> next_ready (pq_queue pq q) = None
          | Some ((i, d), q') \<Rightarrow> next_ready (pq_queue pq q) = Some (i, d) \<and> hw q' = hw q \<and>
              pq_queue pq q' = set_status i Unack (pq_queue pq q)"
    and D: "\<forall>q i. case pq_get_id pq q i of
            None \<Rightarrow> \<forall>s d. (i, s, d) \<in> set (pq_queue pq q) \<longrightarrow> s = Acked
          | Some (d, q') \<Rightarrow> (\<exists>s. (i, s, d) \<in> set (pq_queue pq q) \<and> s \<noteq> Acked) \<and> hw q' = hw q \<and>
              pq_queue pq q' = set_status i Unack (pq_queue pq q)"
    and E: "\<forall>q i d. hw (pq_update pq q i d) = hw q \<and>
        pq_queue pq (pq_update pq q i d) = set_data i d (pq_queue pq q)"
    and F: "\<forall>q i. hw (pq_ack pq q i) = hw q \<and> pq_queue pq (pq_ack pq q i) = set_status i Acked (pq_queue pq q)"
    and G: "\<forall>q. hw (pq_clear_acked_data pq q) = hw q \<and>
        subseq (pq_queue pq (pq_clear_acked_data pq q)) (pq_queue pq q)"
    unfolding ackq_laws_def by blast+
  show "i \<le> hw q" if "i \<in> set (row_ids (pq_queue pq q))" for q i using A that by blast
  show "hw q < fst (pq_put pq q d)" "hw (snd (pq_put pq q d)) = fst (pq_put pq q d)"
    "pq_queue pq (snd (pq_put pq q d)) = pq_queue pq q @ [(fst (pq_put pq q d), Ready, d)]" for q d
    using B by blast+
  show "next_ready (pq_queue pq q) = Some (i, d) \<and> hw q' = hw q \<and>
      pq_queue pq q' = set_status i Unack (pq_queue pq q)" if "pq_get pq q = Some ((i, d), q')" for q i d q'
    using spec [OF C, of q] that by simp
  show "next_ready (pq_queue pq q) = None" if "pq_get pq q = None" for q
    using spec [OF C, of q] that by simp
  show "(\<exists>s. (i, s, d) \<in> set (pq_queue pq q) \<and> s \<noteq> Acked) \<and> hw q' = hw q \<and>
      pq_queue pq q' = set_status i Unack (pq_queue pq q)" if "pq_get_id pq q i = Some (d, q')" for q i d q'
    using spec [OF spec [OF D, of q], of i] that by simp
  show "s = Acked" if "pq_get_id pq q i = None" "(i, s, d) \<in> set (pq_queue pq q)" for q i s d
    using spec [OF spec [OF D, of q], of i] that by auto
qed (use assms in \<open>simp_all add: ackq_laws_def\<close>)

lemma row_ids_set [simp]: "row_ids (set_status i s rows) = row_ids rows" "row_ids (set_data i d rows) = row_ids rows"
  by (simp_all add: row_ids_def set_status_def set_data_def split_beta comp_def)

lemma set_status_mem:
  "(j, t, d) \<in> set (set_status i s rows) \<longleftrightarrow> (if j = i then t = s \<and> (\<exists>u. (i, u, d) \<in> set rows) else (j, t, d) \<in> set rows)"
  by (auto simp: set_status_def image_iff split: prod.splits if_splits) force+

lemma set_data_mem:
  "(j, t, e) \<in> set (set_data i d rows) \<longleftrightarrow> (if j = i then e = d \<and> (\<exists>f. (i, t, f) \<in> set rows) else (j, t, e) \<in> set rows)"
  by (auto simp: set_data_def image_iff split: prod.splits if_splits) force+

lemma next_ready_mem: "next_ready rows = Some (i, d) \<Longrightarrow> (i, Ready, d) \<in> set rows"
  by (induction rows rule: next_ready.induct) (auto split: if_splits)

lemma row_ids_mem: "(i, s, d) \<in> set rows \<Longrightarrow> i \<in> set (row_ids rows)"
  by (force simp: row_ids_def)

lemma row_unique:
  assumes "distinct (row_ids rows)" "(i, s, d) \<in> set rows" "(i, t, e) \<in> set rows"
  shows "s = t \<and> d = e"
  using eq_key_imp_eq_value [of rows i "(s, d)" "(t, e)"] assms unfolding row_ids_def by simp

lemma find_finished_Some:
  assumes "distinct (row_ids rows)"
  shows "find_finished i rows = Some d \<longleftrightarrow> (i, Acked, d) \<in> set rows"
  using assms
proof (induction i rows rule: find_finished.induct)
  case (2 i j s d' rows)
  then show ?case using row_ids_mem by (auto simp: row_ids_def)
qed simp

section \<open>Interleavings of the coroutines\<close>

text \<open>
  One step is one call under the queue's lock: a \<open>put\<close> of \<open>generate\<close> or \<open>embed\<close>, a \<open>get\<close> of \<open>get_work\<close>
  that handed out a row, or one round of \<open>finish_work\<close>; \<open>wq_steps\<close> adds the periodic clearing of
  acknowledged rows. The second component is the list of ids handed to workers so far.
\<close>

inductive wq_step :: "'q pq_ops \<Rightarrow> 'q \<times> nat list \<Rightarrow> 'q \<times> nat list \<Rightarrow> bool" for pq where
  put: "wq_put pq q d = (i, q') \<Longrightarrow> wq_step pq (q, H) (q', H)"
| get: "wq_get_nowait pq q = (Some (d, i), q') \<Longrightarrow> wq_step pq (q, H) (q', H @ [i])"
| finish: "finish_one pq now req (q, m) = (e, q', m') \<Longrightarrow> wq_step pq (q, H) (q', H)"

inductive wq_steps :: "'q pq_ops \<Rightarrow> 'q \<times> nat list \<Rightarrow> 'q \<times> nat list \<Rightarrow> bool" for pq where
  refl: "wq_steps pq s s"
| step: "wq_steps pq s s' \<Longrightarrow> wq_step pq s' s'' \<Longrightarrow> wq_steps pq s s''"
| clear: "wq_steps pq s (q, H) \<Longrightarrow> wq_steps pq s (wq_clear_acked_data pq q, H)"

definition wq_inv :: "'q pq_ops \<Rightarrow> ('q \<Rightarrow> nat) \<Rightarrow> 'q \<times> nat list \<Rightarrow> bool" where
  "wq_inv pq hw = (\<lambda>(q, H). distinct (row_ids (pq_queue pq q)) \<and> distinct H \<and>
     (\<forall>i \<in> set H. i \<le> hw q \<and> (\<forall>d. (i, Ready, d) \<notin> set (pq_queue pq q))))"

lemma finish_one_rows:
  assumes laws: "ackq_laws pq hw" and run: "finish_one pq now req (q, m) = (e, q', m')"
  obtains (missing) "q' = q" "pq_get_id pq q (fr_request_id req) = None"
  | (finished) d s where "(fr_request_id req, s, d) \<in> set (pq_queue pq q)" "s \<noteq> Acked" "hw q' = hw q"
      "pq_queue pq q' = set_status (fr_request_id req) Acked (set_data (fr_request_id req) (finish_item req d)
         (set_status (fr_request_id req) Unack (pq_queue pq q)))"
proof (cases "pq_get_id pq q (fr_request_id req)")
  case None
  then show ?thesis using run missing by (simp add: finish_one_def wq_get_id_def)
next
  case (Some x)
  obtain d q1 where x: "x = (d, q1)" by (cases x)
  then have q': "q' = pq_ack pq (pq_update pq q1 (fr_request_id req) (finish_item req d)) (fr_request_id req)"
    using run Some by (simp add: finish_one_def wq_get_id_def wq_update_and_ack_def Let_def split: prod.splits)
  from ackqD(7) [OF laws] Some x obtain s where s: "(fr_request_id req, s, d) \<in> set (pq_queue pq q)" "s \<noteq> Acked"
    "hw q1 = hw q" "pq_queue pq q1 = set_status (fr_request_id req) Unack (pq_queue pq q)" by blast
  have "hw q' = hw q" using s(3) ackqD(9,11) [OF laws] by (simp add: q')
  moreover have "pq_queue pq q' = set_status (fr_request_id req) Acked (set_data (fr_request_id req) (finish_item req d)
         (set_status (fr_request_id req) Unack (pq_queue pq q)))"
    using s(4) ackqD(10,12) [OF laws] by (simp add: q')
  ultimately show ?thesis using finished s(1,2) by blast
qed

lemma wq_step_inv:
  assumes laws: "ackq_laws pq hw" and step: "wq_step pq s s'" and inv: "wq_inv pq hw s"
  shows "wq_inv pq hw s'"
  using step inv
proof (cases rule: wq_step.cases)
  case (put q d i q' H)
  then have i: "i = fst (pq_put pq q d)" "q' = snd (pq_put pq q d)" by (auto simp: wq_put_def)
  then have q': "hw q < i" "hw q' = i" "pq_queue pq q' = pq_queue pq q @ [(i, Ready, d)]"
    using ackqD(2-4) [OF laws] by simp_all
  moreover have "i \<notin> set (row_ids (pq_queue pq q))" using ackqD(1) [OF laws] q'(1) by fastforce
  ultimately show ?thesis using put(1,2) inv by (auto simp: wq_inv_def row_ids_def)
next
  case (get q d i q' H)
  then have g: "pq_get pq q = Some ((i, d), q')" by (auto simp: wq_get_nowait_def split: option.splits)
  from ackqD(5) [OF laws g] have q': "next_ready (pq_queue pq q) = Some (i, d)" "hw q' = hw q"
    "pq_queue pq q' = set_status i Unack (pq_queue pq q)" by simp_all
  from next_ready_mem [OF q'(1)] have "(i, Ready, d) \<in> set (pq_queue pq q)" .
  then have "i \<notin> set H" "i \<le> hw q" using inv get ackqD(1) [OF laws] row_ids_mem
    by (fastforce simp: wq_inv_def)+
  then show ?thesis using get inv q' by (auto simp: wq_inv_def set_status_mem)
next
  case (finish now req q m e q' m' H)
  from laws finish(3) show ?thesis
  proof (cases rule: finish_one_rows)
    case missing
    then show ?thesis using finish inv by simp
  next
    case (finished d s)
    then show ?thesis using finish inv by (auto simp: wq_inv_def set_status_mem set_data_mem)
  qed
qed

lemma wq_clear_inv:
  assumes laws: "ackq_laws pq hw" and inv: "wq_inv pq hw (q, H)"
  shows "wq_inv pq hw (wq_clear_acked_data pq q, H)"
proof -
  have sub: "subseq (pq_queue pq (wq_clear_acked_data pq q)) (pq_queue pq q)" "hw (wq_clear_acked_data pq q) = hw q"
    using ackqD(13,14) [OF laws] by (simp_all add: wq_clear_acked_data_def)
  have "subseq (row_ids (pq_queue pq (wq_clear_acked_data pq q))) (row_ids (pq_queue pq q))"
    unfolding row_ids_def by (rule subseq_map [OF sub(1)])
  then show ?thesis using inv sub(2) subseq_distinct set_mono_subseq [OF sub(1)]
    by (auto simp: wq_inv_def)
qed

lemma wq_steps_inv:
  assumes "ackq_laws pq hw" "wq_steps pq s s'" "wq_inv pq hw s"
  shows "wq_inv pq hw s'"
  using assms(2,1,3) by (induction rule: wq_steps.induct) (auto intro: wq_step_inv wq_clear_inv)

lemma wq_inv_empty: "pq_queue pq q = [] \<Longrightarrow> wq_inv pq hw (q, [])"
  by (simp add: wq_inv_def row_ids_def)

text \<open>A finished row is not changed again: only the clearing removes it.\<close>

lemma wq_step_finished:
  assumes laws: "ackq_laws pq hw" and inv: "wq_inv pq hw s" and step: "wq_step pq s s'"
    and row: "(i, Acked, d) \<in> set (pq_queue pq (fst s))"
  shows "(i, Acked, d) \<in> set (pq_queue pq (fst s'))"
  using step
proof (cases rule: wq_step.cases)
  case (put q e j q' H)
  then have "q' = snd (pq_put pq q e)" by (auto simp: wq_put_def)
  then show ?thesis using put row ackqD(4) [OF laws] by simp
next
  case (get q e j q' H)
  then have g: "pq_get pq q = Some ((j, e), q')" by (auto simp: wq_get_nowait_def split: option.splits)
  from ackqD(5) [OF laws g] have q': "next_ready (pq_queue pq q) = Some (j, e)"
    "pq_queue pq q' = set_status j Unack (pq_queue pq q)" by simp_all
  have "distinct (row_ids (pq_queue pq q))" using inv get by (simp add: wq_inv_def)
  from row_unique [OF this next_ready_mem [OF q'(1)]] row get have "j \<noteq> i" by auto
  then show ?thesis using row get q' by (auto simp: set_status_mem)
next
  case (finish now req q m e q' m' H)
  have dist: "distinct (row_ids (pq_queue pq q))" using inv finish by (simp add: wq_inv_def)
  from laws finish(3) show ?thesis
  proof (cases rule: finish_one_rows)
    case missing
    then show ?thesis using finish row by simp
  next
    case (finished d' t)
    then have "fr_request_id req \<noteq> i" using row finish row_unique [OF dist] by auto
    then show ?thesis using finished finish row by (auto simp: set_status_mem set_data_mem)
  qed
qed

lemma wq_serve_finished:
  assumes laws: "ackq_laws pq hw" and steps: "(wq_step pq)\<^sup>*\<^sup>* s s'"
    and inv: "wq_inv pq hw s" and row: "(i, Acked, d) \<in> set (pq_queue pq (fst s))"
  shows "wq_inv pq hw s' \<and> (i, Acked, d) \<in> set (pq_queue pq (fst s'))"
  using steps
proof (induction rule: rtranclp_induct)
  case base
  then show ?case using inv row by simp
next
  case (step s1 s2)
  then show ?case using wq_step_inv [OF laws] wq_step_finished [OF laws] by blast
qed

section \<open>Properties of the queue\<close>

definition ex_item :: "string \<Rightarrow> work_item" where
  "ex_item p = generate_item ''m'' (Some 16) p"



text \<open>
  Delivery: once a worker has finished an unacknowledged request, polling for it yields exactly
  that worker's response, whatever else happens to the queue, until the row is cleared; a second
  worker that finishes the same request changes nothing and gets an exception.
\<close>

lemma finished_response_delivered:
  assumes laws: "ackq_laws pq hw" and inv: "wq_inv pq hw (q, H)"
    and row: "(fr_request_id req, s, d) \<in> set (pq_queue pq q)" "s \<noteq> Acked"
    and fin: "finish_one pq now req (q, m) = (e, q1, m1)"
  shows "wq_get_if_finished pq q1 (fr_request_id req) = Some (finish_item req d) \<and>
    (\<forall>q2 H2. (wq_step pq)\<^sup>*\<^sup>* (q1, H) (q2, H2) \<longrightarrow>
       wq_get_if_finished pq q2 (fr_request_id req) = Some (finish_item req d)) \<and>
    (\<forall>req' m'. fr_request_id req' = fr_request_id req \<longrightarrow>
       finish_one pq now req' (q1, m') = (Some QueueEmpty, q1, m'))"
proof -
  let ?i = "fr_request_id req"
  have dist: "distinct (row_ids (pq_queue pq q))" using inv by (simp add: wq_inv_def)
  have inv1: "wq_inv pq hw (q1, H)" by (rule wq_step_inv [OF laws finish [OF fin] inv])
  then have dist1: "distinct (row_ids (pq_queue pq q1))" by (simp add: wq_inv_def)
  have acked: "(?i, Acked, finish_item req d) \<in> set (pq_queue pq q1)"
    using laws fin
  proof (cases rule: finish_one_rows)
    case missing
    then show ?thesis using ackqD(8) [OF laws missing(2) row(1)] row(2) by simp
  next
    case (finished d' t)
    then have "d' = d" using row_unique [OF dist row(1)] by blast
    then show ?thesis using finished by (auto simp: set_status_mem set_data_mem)
  qed
  have "wq_get_if_finished pq q2 ?i = Some (finish_item req d)"
    if "(wq_step pq)\<^sup>*\<^sup>* (q1, H) (q2, H2)" for q2 H2
    using wq_serve_finished [OF laws that inv1, of ?i "finish_item req d"] acked
    by (simp add: wq_get_if_finished_def find_finished_Some wq_inv_def)
  moreover have "finish_one pq now req' (q1, m') = (Some QueueEmpty, q1, m')"
    if "fr_request_id req' = ?i" for req' m'
  proof (cases "pq_get_id pq q1 ?i")
    case (Some x)
    then obtain t e where "(?i, t, e) \<in> set (pq_queue pq q1)" "t \<noteq> Acked"
      using ackqD(7) [OF laws] by (cases x) blast
    then show ?thesis using row_unique [OF dist1 acked] by blast
  qed (simp add: finish_one_def wq_get_id_def that)
  moreover have "wq_get_if_finished pq q1 ?i = Some (finish_item req d)"
    using acked dist1 by (simp add: wq_get_if_finished_def find_finished_Some)
  ultimately show ?thesis by blast
qed

lemma finished_response_delivered_witness:
  "\<exists>q1 m1. finish_one list_pq 2 \<lparr>fr_request_id = 1, fr_response = Some (Text ''ok''), fr_error = None,
      fr_token_count = Some 3, fr_flop_count = None\<rparr>
     ([Some (Unack, ex_item ''p'')], record_new_request 1 metrics_init) = (None, q1, m1) \<and>
   wq_get_if_finished list_pq q1 1 = Some ((ex_item ''p'')\<lparr>wi_response := Some (Text ''ok'')\<rparr>)"
proof -
  let ?req = "\<lparr>fr_request_id = 1, fr_response = Some (Text ''ok''), fr_error = None,
      fr_token_count = Some 3, fr_flop_count = None\<rparr>"
  let ?q = "[Some (Unack, ex_item ''p'')]" and ?m = "record_new_request 1 metrics_init"
  have row: "(fr_request_id ?req, Unack, ex_item ''p'') \<in> set (pq_queue list_pq ?q)" by (simp add: list_pq_def)
  have inv: "wq_inv list_pq length (?q, [1])" by (simp add: wq_inv_def list_pq_def row_ids_def)
  obtain e q1 m1 where fin: "finish_one list_pq 2 ?req (?q, ?m) = (e, q1, m1)" by (metis surj_pair)
  have "e = None" using fin by (simp add: finish_one_def wq_get_id_def list_pq_def wq_update_and_ack_def
      record_completed_request_def record_new_request_def metrics_init_def Let_def)
  moreover have "wq_get_if_finished list_pq q1 1 = Some (finish_item ?req (ex_item ''p''))"
    using finished_response_delivered [OF list_pq_laws inv row _ fin] by simp
  ultimately show ?thesis using fin by (simp add: finish_item_def Let_def)
qed

definition to_result :: "nat \<Rightarrow> work_item \<Rightarrow> result" where
  "to_result i item = \<lparr>res_request_id = i, res_response = wi_response item, res_error = wi_error item\<rparr>"

definition no_result :: "nat \<Rightarrow> result" where
  "no_result i = \<lparr>res_request_id = i, res_response = None, res_error = None\<rparr>"

lemma to_result_id [simp]: "res_request_id (to_result i item) = i" "res_request_id (no_result i) = i"
  by (simp_all add: to_result_def no_result_def)

text \<open>The loop invariant of the polling; \<open>Q\<close> are the queues seen so far.\<close>

definition poll_inv :: "'q pq_ops \<Rightarrow> nat list \<Rightarrow> 'q set \<Rightarrow> nat set \<times> result list \<Rightarrow> bool" where
  "poll_inv pq ids Q = (\<lambda>(seen, results).
     seen = res_request_id ` set results \<and> distinct (map res_request_id results) \<and> seen \<subseteq> set ids \<and>
     (\<forall>r \<in> set results. \<exists>q \<in> Q. \<exists>item. wq_get_if_finished pq q (res_request_id r) = Some item \<and>
        r = to_result (res_request_id r) item))"

lemma poll_round_inv:
  assumes "poll_inv pq ids Q st" "range snap \<subseteq> Q" "set js \<subseteq> set ids"
  shows "poll_inv pq ids Q (poll_round pq snap k js st)"
  using assms
proof (induction pq snap k js st rule: poll_round.induct)
  case (2 pq snap k i js seen results)
  have "poll_inv pq ids Q (if i \<in> seen then (seen, results)
        else case wq_get_if_finished pq (snap k) i of None \<Rightarrow> (seen, results)
             | Some item \<Rightarrow> (insert i seen, results @ [to_result i item]))"
    using "2.prems" by (auto simp: poll_inv_def split: option.splits)
  then show ?case unfolding poll_round.simps to_result_def
    by (rule "2.IH") (use "2.prems" in simp_all)
qed simp

lemma poll_loop_inv:
  assumes "poll_inv pq ids Q st" "(\<Union>snap \<in> set rounds. range snap) \<subseteq> Q"
  shows "poll_inv pq ids Q (poll_loop pq rounds ids st)"
  using assms
proof (induction pq rounds ids st rule: poll_loop.induct)
  case (2 pq snap rounds ids seen results)
  then show ?case using poll_round_inv [of pq ids Q "(seen, results)" snap ids 0] by auto
qed simp

text \<open>
  C31. Polling answers for every request exactly once, in the order of the ids, with what the queue
  held for a finished request when it was checked, and with an empty result for a request that was
  not seen finished before the timeout.
\<close>

theorem poll_answers_every_request:
  assumes "distinct ids"
  shows "map res_request_id (poll_for_responses pq rounds ids) = sort ids \<and>
    (\<forall>r \<in> set (poll_for_responses pq rounds ids).
       r = no_result (res_request_id r) \<or>
       (\<exists>snap \<in> set rounds. \<exists>k item. wq_get_if_finished pq (snap k) (res_request_id r) = Some item \<and>
          r = to_result (res_request_id r) item))"
proof -
  obtain seen results where loop: "poll_loop pq rounds ids ({}, []) = (seen, results)" by (metis surj_pair)
  have "poll_inv pq ids (\<Union>snap \<in> set rounds. range snap) ({}, [])" by (simp add: poll_inv_def)
  from poll_loop_inv [OF this order_refl] loop have I: "poll_inv pq ids (\<Union>snap \<in> set rounds. range snap) (seen, results)"
    by simp
  let ?miss = "map no_result (filter (\<lambda>i. i \<notin> seen) ids)"
  have poll: "poll_for_responses pq rounds ids = sort_key res_request_id (results @ ?miss)"
    by (simp add: poll_for_responses_def loop no_result_def [abs_def])
  have "mset (map res_request_id (results @ ?miss)) = mset ids"
  proof (rule set_eq_iff_mset_eq_distinct [THEN iffD1, rotated 2])
    show "set (map res_request_id (results @ ?miss)) = set ids"
      using I by (auto simp: poll_inv_def image_iff)
    show "distinct (map res_request_id (results @ ?miss))"
      using I assms by (auto simp: poll_inv_def comp_def)
  qed (rule assms)
  then have "map res_request_id (sort_key res_request_id (results @ ?miss)) = sort ids"
    by (intro properties_for_sort [symmetric]) (simp_all only: mset_map mset_sort sorted_sort_key)
  moreover have "\<forall>r \<in> set (results @ ?miss). r = no_result (res_request_id r) \<or>
       (\<exists>snap \<in> set rounds. \<exists>k item. wq_get_if_finished pq (snap k) (res_request_id r) = Some item \<and>
          r = to_result (res_request_id r) item)"
    using I by (fastforce simp: poll_inv_def)
  ultimately show ?thesis by (simp add: poll)
qed

theorem poll_answers_every_request_witness:
  "map res_request_id (poll_for_responses list_pq [\<lambda>k. [Some (Acked, ex_item ''a''), Some (Unack, ex_item ''b'')]] [2, 1]) = [1, 2]"
  using poll_answers_every_request [of "[2, 1]" list_pq "[\<lambda>k. [Some (Acked, ex_item ''a''), Some (Unack, ex_item ''b'')]]"]
  by (simp add: insort_key.simps)



section \<open>Metrics\<close>

text \<open>
  A trace of calls with their times. \<open>busy\<close> is the specification: the total time during which at
  least one recorded request was outstanding, up to the last completion.
\<close>

datatype mevent = NewRequest real | Completed real "int option" "int option"

fun mtime :: "mevent \<Rightarrow> real" where
  "mtime (NewRequest t) = t"
| "mtime (Completed t tok flop) = t"

fun mstep :: "mevent \<Rightarrow> metrics \<Rightarrow> py_error + metrics" where
  "mstep (NewRequest t) m = Inr (record_new_request t m)"
| "mstep (Completed t tok flop) m =
     (case record_completed_request t tok flop m of (None, m') \<Rightarrow> Inr m' | (Some e, _) \<Rightarrow> Inl e)"

text \<open>
  \<open>depth\<close> is the number of outstanding requests, \<open>pending\<close> the busy time since the last completion or
  the start of the busy period, \<open>prev\<close> the time of the previous call.
\<close>

fun busy :: "nat \<Rightarrow> real \<Rightarrow> real \<Rightarrow> mevent list \<Rightarrow> real" where
  "busy depth pending prev [] = 0"
| "busy depth pending prev (NewRequest t # es) =
     busy (Suc depth) (if depth = 0 then 0 else pending + (t - prev)) t es"
| "busy depth pending prev (Completed t tok flop # es) =
     (pending + (t - prev)) + busy (depth - 1) 0 t es"

fun balanced :: "nat \<Rightarrow> mevent list \<Rightarrow> bool" where
  "balanced depth [] \<longleftrightarrow> True"
| "balanced depth (NewRequest t # es) \<longleftrightarrow> balanced (Suc depth) es"
| "balanced depth (Completed t tok flop # es) \<longleftrightarrow> 0 < depth \<and> balanced (depth - 1) es"

lemma record_completed_ok:
  assumes "epoch_time m = Some e"
  shows "\<exists>m'. record_completed_request t tok flop m = (None, m') \<and> queue_depth m' = queue_depth m - 1 \<and>
    epoch_time m' = Some t \<and> total_completed_response_time m' = total_completed_response_time m + (t - e)"
  using assms by (cases tok; cases flop) (simp_all add: record_completed_request_def Let_def)

lemma metrics_trace:
  assumes "balanced depth es" "queue_depth m = int depth" "0 < depth \<Longrightarrow> epoch_time m = Some (prev - pending)"
  shows "\<exists>m'. foldE mstep es m = Inr m' \<and>
    total_completed_response_time m' = total_completed_response_time m + busy depth pending prev es"
  using assms
proof (induction es arbitrary: depth pending prev m)
  case (Cons e es)
  show ?case
  proof (cases e)
    case (NewRequest t)
    let ?m = "record_new_request t m"
    have "queue_depth ?m = int (Suc depth)" "total_completed_response_time ?m = total_completed_response_time m"
      "epoch_time ?m = Some (t - (if depth = 0 then 0 else pending + (t - prev)))"
      using Cons.prems by (simp_all add: record_new_request_def Let_def)
    then show ?thesis
      using Cons.IH [of "Suc depth" ?m t "if depth = 0 then 0 else pending + (t - prev)"] Cons.prems(1) NewRequest
      by auto
  next
    case (Completed t tok flop)
    then have d: "0 < depth" "balanced (depth - 1) es" using Cons.prems(1) by simp_all
    obtain m1 where m1: "record_completed_request t tok flop m = (None, m1)" "queue_depth m1 = int (depth - 1)"
      "epoch_time m1 = Some t" "total_completed_response_time m1 = total_completed_response_time m + (pending + (t - prev))"
      using record_completed_ok [OF Cons.prems(3) [OF d(1)], of t tok flop] Cons.prems(2) d(1)
      by (auto simp: of_nat_diff)
    show ?thesis using Cons.IH [OF d(2) m1(2), of t 0] m1 Completed by auto
  qed
qed simp

text \<open>
  Metrics: for every trace in which each completion answers a recorded request, no call raises and
  the reported response time is the time the server was busy, so that the rates are per busy second.
\<close>

lemma metrics_response_time_is_busy_time:
  assumes "balanced 0 es"
  shows "\<exists>m. foldE mstep es metrics_init = Inr m \<and> total_completed_response_time m = busy 0 0 0 es \<and>
    (0 < busy 0 0 0 es \<longrightarrow>
       mr_tokens_per_second (get_all_metrics m) = real_of_int (total_completed_tokens m) / busy 0 0 0 es)"
  using metrics_trace [OF assms, of metrics_init 0 0]
  by (auto simp: metrics_init_def get_all_metrics_def per_second_def)

lemma metrics_response_time_is_busy_time_witness:
  "\<exists>m. foldE mstep [NewRequest 10, NewRequest 11, Completed 13 (Some 5) None, Completed 14 None None,
      NewRequest 20, Completed 22 None None] metrics_init = Inr m \<and> total_completed_response_time m = 6"
  using metrics_response_time_is_busy_time [of "[NewRequest 10, NewRequest 11, Completed 13 (Some 5) None,
      Completed 14 None None, NewRequest 20, Completed 22 None None]"] by auto

text \<open>
  The embedding path breaks this accounting: \<open>embed\<close> enqueues requests without recording them, so
  the first one that a worker finishes raises a \<open>TypeError\<close> in \<open>finish_work\<close> after its response was
  stored, and the queue depth is left at \<open>-1\<close>.
\<close>

lemma embed_request_breaks_metrics:
  "embed list_pq ''m'' None [''p''] [] = ([1], [Some (Ready, embed_item ''m'' ''p'')]) \<and>
   (case finish_work list_pq t [\<lparr>fr_request_id = 1, fr_response = Some (Embedding [0]), fr_error = None,
       fr_token_count = None, fr_flop_count = None\<rparr>] ([Some (Unack, embed_item ''m'' ''p'')], metrics_init)
    of (e, q, m) \<Rightarrow> e = Some TypeError \<and> queue_depth m = - 1 \<and>
       wq_get_if_finished list_pq q 1 \<noteq> None)"
  by (simp add: embed_def wq_put_def list_pq_def finish_one_def wq_get_id_def wq_update_and_ack_def
      record_completed_request_def metrics_init_def wq_get_if_finished_def Let_def)

end
