(* ===== verification/Fsdp.thy ===== *)
theory Fsdp
  imports Prelude
begin

text \<open>
  \<open>training/distribution_strategy/fsdp/fsdp.py\<close>: even sharding of a tensor over the ranks with
  padding, reconstruction by all-gather, reduce-scatter of gradients, and the wrapping and unwrapping
  of the module tree for checkpoints.

  A tensor is its shape with its elements in row-major order. The program is SPMD: an operation is
  given per rank, and a collective is a function of what all ranks pass to it. The collectives (MPI)
  and the conversions of element types are parameters, with what the code relies on as hypotheses.
\<close>

section \<open>Sharding\<close>

record 'a tensor =
  t_shape :: "nat list"
  t_data :: "'a list"

definition numel :: "'a tensor \<Rightarrow> nat" where
  "numel t = prod_list (t_shape t)"

definition tensor_ok :: "'a tensor \<Rightarrow> bool" where
  "tensor_ok t \<longleftrightarrow> length (t_data t) = numel t"

definition padded_numel :: "nat \<Rightarrow> nat \<Rightarrow> nat" where
  "padded_numel world_size n = ((n + world_size - 1) div world_size) * world_size"

definition padding_of :: "nat \<Rightarrow> nat \<Rightarrow> nat" where
  "padding_of world_size n = padded_numel world_size n - n"

definition shard_size_of :: "nat \<Rightarrow> nat \<Rightarrow> nat" where
  "shard_size_of world_size n = padded_numel world_size n div world_size"

type_synonym shard_meta = "nat \<times> nat list \<times> nat \<times> nat"

definition local_metadata :: "nat \<Rightarrow> 'a tensor \<Rightarrow> nat list" where
  "local_metadata world_size t =
     numel t # t_shape t @ [shard_size_of world_size (numel t), padding_of world_size (numel t)]"

definition decode_meta :: "nat list \<Rightarrow> shard_meta" where
  "decode_meta m = (m ! 0, take (length m - 3) (drop 1 m), m ! (length m - 2), m ! (length m - 1))"

text \<open>\<open>view(world_size, -1)\<close> of a flat tensor.\<close>

definition view_rows :: "nat \<Rightarrow> 'b list \<Rightarrow> 'b list list" where
  "view_rows world_size xs =
     (let w = length xs div world_size in map (\<lambda>r. take w (drop (r * w) xs)) [0..<world_size])"

definition local_shard :: "'a \<Rightarrow> nat \<Rightarrow> nat \<Rightarrow> 'a tensor \<Rightarrow> 'a list" where
  "local_shard zero world_size rank t =
     (let padding = padding_of world_size (numel t);
          tensor_padded = (if padding > 0 then t_data t @ replicate padding zero else t_data t);
          shard_size = shard_size_of world_size (numel t)
      in take shard_size (drop (rank * shard_size) tensor_padded))"

text \<open>\<open>ts\<close> are the tensors the ranks pass; the metadata of all ranks is gathered.\<close>

definition shard_tensor ::
  "'a \<Rightarrow> (nat list list \<Rightarrow> nat list) \<Rightarrow> nat \<Rightarrow> nat \<Rightarrow> 'a tensor list \<Rightarrow> 'a list \<times> shard_meta list" where
  "shard_tensor zero allgather world_size rank ts =
     (local_shard zero world_size rank (ts ! rank),
      map decode_meta (view_rows world_size (allgather (map (local_metadata world_size) ts))))"

definition trim_padding :: "'a list list \<Rightarrow> nat \<Rightarrow> nat \<Rightarrow> shard_meta list \<Rightarrow> 'a list list" where
  "trim_padding all_tensors rank world_size metadata =
     (case metadata ! rank of (original_numel, _, shard_size, padding) \<Rightarrow>
        if padding = 0 then all_tensors
        else if padding > shard_size
        then let fully_padded_tensors = padding div shard_size;
                 all_tensors = take (length all_tensors - fully_padded_tensors) all_tensors;
                 remaining_padding = padding mod shard_size
             in if remaining_padding > 0 \<and> length all_tensors > 0
                then all_tensors[length all_tensors - 1 :=
                       take (length (last all_tensors) - remaining_padding) (last all_tensors)]
                else all_tensors
        else let valid_elements = original_numel - (world_size - 1) * shard_size
             in all_tensors[length all_tensors - 1 := take valid_elements (last all_tensors)])"

fun split_shards :: "'a list \<Rightarrow> nat \<Rightarrow> shard_meta list \<Rightarrow> 'a list list" where
  "split_shards gathered offset [] = []"
| "split_shards gathered offset ((_, _, shard_size, _) # metas) =
     take shard_size (drop offset gathered) # split_shards gathered (offset + shard_size) metas"

text \<open>
  \<open>up\<close> and \<open>down\<close> convert to float32 and back; \<open>torch.cat\<close> of no tensors and \<open>reshape\<close> to a shape
  with another number of elements raise a \<open>RuntimeError\<close>.
\<close>

definition collectives_all_gather ::
  "('b list list \<Rightarrow> 'b list) \<Rightarrow> ('a \<Rightarrow> 'b) \<Rightarrow> ('b \<Rightarrow> 'a) \<Rightarrow> nat \<Rightarrow> nat \<Rightarrow> 'a list list \<Rightarrow>
     shard_meta list \<Rightarrow> py_error + 'a tensor" where
  "collectives_all_gather allgather up down world_size rank shards metadata =
     (let gathered = map down (allgather (map (map up) shards));
          all_tensors = split_shards gathered 0 (take world_size metadata);
          all_tensors = trim_padding all_tensors rank world_size metadata
      in bindE (raise_unless RuntimeError (all_tensors \<noteq> [])) (\<lambda>_.
         let concatenated = concat all_tensors;
             original_shape = fst (snd (metadata ! rank))
         in bindE (raise_unless RuntimeError (length concatenated = prod_list original_shape)) (\<lambda>_.
            Inr \<lparr>t_shape = original_shape, t_data = concatenated\<rparr>)))"

text \<open>\<open>local_shard[:valid_elements]\<close> with a bound that may be negative.\<close>

definition py_take :: "int \<Rightarrow> 'a list \<Rightarrow> 'a list" where
  "py_take k xs = (if 0 \<le> k then take (nat k) xs else take (nat (int (length xs) + k)) xs)"

definition collectives_reduce_scatter ::
  "('b list list \<Rightarrow> nat \<Rightarrow> 'b list) \<Rightarrow> ('a \<Rightarrow> 'b) \<Rightarrow> ('b \<Rightarrow> 'a) \<Rightarrow> 'a \<Rightarrow> nat \<Rightarrow> nat \<Rightarrow> 'a list list \<Rightarrow>
     shard_meta list \<Rightarrow> 'a list" where
  "collectives_reduce_scatter reduce_scatter up down zero world_size rank grads metadata =
     (case metadata ! rank of (original_numel, _, shard_size, padding) \<Rightarrow>
        let pad = (\<lambda>g. if padding > 0 then g @ replicate padding zero else g);
            local_shard = map down (reduce_scatter (map (\<lambda>g. map up (pad g)) grads) rank)
        in if rank = world_size - 1
           then py_take (int original_numel - int padding) local_shard
           else local_shard)"

section \<open>The module tree (SimpleFSDP)\<close>

text \<open>
  A module is its direct parameters (name, \<open>requires_grad\<close>, tensor) and its named children. In the
  wrapped tree a child is marked when it sits in an \<open>FSDPLayer\<close>; the parameters of such a child are
  shards, named with the prefix \<open>shard_\<close>.
\<close>

datatype 'p module =
  Module (mod_params: "(string \<times> bool \<times> 'p) list") (mod_children: "(string \<times> 'p module) list")

datatype ('p, 's) pval = Full 'p | Shard 's

datatype ('p, 's) wmodule =
  WModule (w_params: "(string \<times> bool \<times> ('p, 's) pval) list") (w_children: "(string \<times> bool \<times> ('p, 's) wmodule) list")

definition shard_parameters :: "('p \<Rightarrow> 's) \<Rightarrow> (string \<times> bool \<times> 'p) list \<Rightarrow> (string \<times> bool \<times> ('p, 's) pval) list" where
  "shard_parameters shard ps = map (\<lambda>(name, grad, p). (''shard_'' @ name, grad, Shard (shard p))) ps"

fun wrap_layers :: "('p \<Rightarrow> 's) \<Rightarrow> (string \<times> 'p module) list \<Rightarrow> (string \<times> bool \<times> ('p, 's) wmodule) list" where
  "wrap_layers shard [] = []"
| "wrap_layers shard ((name, Module params grand_children) # rest) =
     (name, length params > 0, WModule (shard_parameters shard params) (wrap_layers shard grand_children))
     # wrap_layers shard rest"

definition unwrap_param ::
  "(('p, 's) pval \<Rightarrow> 'p) \<Rightarrow> string \<Rightarrow> string \<times> bool \<times> ('p, 's) pval \<Rightarrow> (string \<times> 'p) list" where
  "unwrap_param gather pfx = (\<lambda>(param_name, grad, v).
     if grad
     then if take 6 param_name = ''shard_''
          then [(pfx @ drop 6 param_name, gather v)]
          else [(pfx @ param_name, case v of Full p \<Rightarrow> p | Shard s \<Rightarrow> gather v)]
     else [])"

fun unwrap_layers ::
  "(('p, 's) pval \<Rightarrow> 'p) \<Rightarrow> string \<Rightarrow> (string \<times> bool \<times> ('p, 's) wmodule) list \<Rightarrow> (string \<times> 'p) list" where
  "unwrap_layers gather pfx [] = []"
| "unwrap_layers gather pfx ((name, is_layer, WModule params children) # rest) =
     (if is_layer then concat (map (unwrap_param gather (pfx @ name @ ''.'')) params)
      else unwrap_layers gather (pfx @ name @ ''.'') children)
     @ unwrap_layers gather pfx rest"

text \<open>
  \<open>filter_checkpoint\<close> of the training loop, for a model that is not wrapped: the parameters with
  gradients of the whole tree under their qualified names.
\<close>

fun trainable_children :: "string \<Rightarrow> (string \<times> 'p module) list \<Rightarrow> (string \<times> 'p) list" where
  "trainable_children pfx [] = []"
| "trainable_children pfx ((name, Module params children) # rest) =
     map (\<lambda>(n, _, p). (pfx @ name @ ''.'' @ n, p)) (filter (\<lambda>(n, grad, p). grad) params)
     @ trainable_children (pfx @ name @ ''.'') children
     @ trainable_children pfx rest"

definition filter_checkpoint :: "'p module \<Rightarrow> (string \<times> 'p) list" where
  "filter_checkpoint m =
     map (\<lambda>(n, _, p). (n, p)) (filter (\<lambda>(n, grad, p). grad) (mod_params m))
     @ trainable_children [] (mod_children m)"

section \<open>The hypotheses on the parameters\<close>

definition allgather_spec :: "('b list list \<Rightarrow> 'b list) \<Rightarrow> bool" where
  "allgather_spec allgather \<longleftrightarrow> (\<forall>xs. allgather xs = concat xs)"

definition lossless :: "('a \<Rightarrow> 'b) \<Rightarrow> ('b \<Rightarrow> 'a) \<Rightarrow> bool" where
  "lossless up down \<longleftrightarrow> (\<forall>x. down (up x) = x)"

section \<open>Arithmetic of the padding\<close>

lemma padded_ge: "0 < ws \<Longrightarrow> n \<le> padded_numel ws n"
  using dividend_less_div_times [of ws "n + ws - 1"] by (simp add: padded_numel_def)

lemma padded_shards: "0 < ws \<Longrightarrow> ws * shard_size_of ws n = padded_numel ws n"
  by (simp add: shard_size_of_def padded_numel_def)

lemma padding_add: "0 < ws \<Longrightarrow> n + padding_of ws n = padded_numel ws n"
  using padded_ge [of ws n] by (simp add: padding_of_def)

lemma padding_less: "0 < ws \<Longrightarrow> padding_of ws n < ws"
proof -
  assume ws: "0 < ws"
  have "padded_numel ws n \<le> n + ws - 1" unfolding padded_numel_def by (rule div_times_less_eq_dividend)
  then show ?thesis using ws by (simp add: padding_of_def)
qed

lemma shard_size_pos: "0 < ws \<Longrightarrow> 0 < n \<Longrightarrow> 0 < shard_size_of ws n"
  using padded_shards [of ws n] padded_ge [of ws n] by (cases "shard_size_of ws n") auto

section \<open>Reconstruction\<close>

lemma sum_list_const_length: "(\<And>r. r \<in> set rows \<Longrightarrow> length r = w) \<Longrightarrow> sum_list (map length rows) = length rows * w"
  by (induction rows) auto

lemma nth_concat_equal:
  "r < length rows \<Longrightarrow> (\<And>x. x \<in> set rows \<Longrightarrow> length x = w) \<Longrightarrow> take w (drop (r * w) (concat rows)) = rows ! r"
proof (induction rows arbitrary: r)
  case (Cons a rows)
  then show ?case by (cases r) (simp_all add: add.commute)
qed simp

lemma decode_local_metadata:
  "decode_meta (local_metadata ws t)
     = (numel t, t_shape t, shard_size_of ws (numel t), padding_of ws (numel t))"
  by (simp add: decode_meta_def local_metadata_def nth_append)

lemma view_rows_concat:
  assumes "0 < ws" "length rows = ws" "\<And>r. r \<in> set rows \<Longrightarrow> length r = w"
  shows "view_rows ws (concat rows) = rows"
proof -
  have "length (concat rows) = ws * w"
    using assms(2,3) by (simp add: length_concat sum_list_const_length)
  then have w: "length (concat rows) div ws = w" using assms(1) by simp
  have "take w (drop (r * w) (concat rows)) = rows ! r" if "r < length rows" for r
    using that assms(3) by (rule nth_concat_equal)
  then show ?thesis unfolding view_rows_def Let_def w
    by (intro nth_equalityI) (simp_all add: assms(2))
qed

text \<open>When every rank holds the same tensor, every rank learns the same metadata.\<close>

lemma shard_tensor_meta:
  assumes "allgather_spec ag" "0 < ws" "r < ws"
  shows "shard_tensor z ag ws r (replicate ws t)
    = (local_shard z ws r t, replicate ws (numel t, t_shape t, shard_size_of ws (numel t), padding_of ws (numel t)))"
proof -
  have "view_rows ws (concat (replicate ws (local_metadata ws t))) = replicate ws (local_metadata ws t)"
    using assms(2) by (intro view_rows_concat [where w = "length (local_metadata ws t)"]) auto
  then show ?thesis using assms
    by (simp add: shard_tensor_def allgather_spec_def decode_local_metadata)
qed

lemma local_shard_slice:
  assumes "0 < ws" "tensor_ok t" and P: "P = t_data t @ replicate (padding_of ws (numel t)) z"
  shows "local_shard z ws r t = slice (shard_size_of ws (numel t)) P r"
    "length P = ws * shard_size_of ws (numel t)" "take (numel t) P = t_data t"
  using assms padding_add [of ws "numel t"] padded_shards [of ws "numel t"]
  by (auto simp: local_shard_def Let_def slice_def tensor_ok_def)

lemma split_shards_same:
  "split_shards g (k * ss) (replicate m (n, sh, ss, pd)) = map (slice ss g) [k..<k + m]"
proof (induction m arbitrary: k)
  case (Suc m)
  have "split_shards g (k * ss + ss) (replicate m (n, sh, ss, pd)) = map (slice ss g) [Suc k..<Suc k + m]"
    using Suc [of "Suc k"] by (simp add: add.commute)
  then show ?case by (simp add: slice_def upt_conv_Cons del: upt_Suc)
qed simp

lemma concat_trim_last:
  assumes "0 < m" "m * ss \<le> length P" "j \<le> ss"
  defines "xs \<equiv> map (slice ss P) [0..<m]"
  shows "concat (xs[length xs - 1 := take j (last xs)]) = take ((m - 1) * ss + j) P" "length (last xs) = ss"
proof -
  obtain k where k: "m = Suc k" using assms(1) by (cases m) auto
  have xs: "xs = map (slice ss P) [0..<k] @ [slice ss P k]" by (simp add: xs_def k)
  have kss: "k * ss \<le> length P" "length P - k * ss \<ge> ss" using assms(2) by (auto simp: k)
  show "length (last xs) = ss" using kss by (simp add: xs slice_def)
  have "concat (xs[length xs - 1 := take j (last xs)]) = take (k * ss) P @ take j (slice ss P k)"
    using concat_slices_take [OF kss(1)] by (simp add: xs list_update_append)
  also have "take j (slice ss P k) = take j (drop (k * ss) P)" using assms(3) by (simp add: slice_def min_absorb1)
  finally show "concat (xs[length xs - 1 := take j (last xs)]) = take ((m - 1) * ss + j) P"
    by (simp add: k take_add)
qed

lemma trim_padding_concat:
  assumes ws: "0 < ws" and r: "r < ws" and len: "length P = ws * shard_size_of ws n"
    and md: "md ! r = (n, sh, shard_size_of ws n, padding_of ws n)"
  shows "concat (trim_padding (map (slice (shard_size_of ws n) P) [0..<ws]) r ws md) = take n P"
    "trim_padding (map (slice (shard_size_of ws n) P) [0..<ws]) r ws md \<noteq> []"
proof -
  define ss pd where "ss = shard_size_of ws n" and "pd = padding_of ws n"
  have tot: "n + pd = ws * ss" using padding_add [OF ws] padded_shards [OF ws] by (simp add: ss_def pd_def)
  let ?xs = "map (slice ss P) [0..<ws]"
  have P: "length P = ws * ss" using len by (simp add: ss_def)
  have "concat (trim_padding ?xs r ws md) = take n P \<and> trim_padding ?xs r ws md \<noteq> []"
  proof (cases "pd = 0")
    case True
    then show ?thesis using md P tot ws concat_slices_take [of ws ss P]
      by (simp add: trim_padding_def flip: ss_def pd_def)
  next
    case False
    have "0 < n" using False padding_less [OF ws, of n] by (cases n) (auto simp: pd_def padding_of_def padded_numel_def)
    then have ss: "0 < ss" using shard_size_pos [OF ws] by (simp add: ss_def)
    show ?thesis
    proof (cases "pd > ss")
      case True
      define m where "m = ws - pd div ss"
      have pdss: "pd = pd div ss * ss + pd mod ss" by simp
      have "pd div ss * ss \<le> ws * ss" using pdss tot by linarith
      then have k: "pd div ss \<le> ws" using ss by simp
      have n: "n + pd mod ss = m * ss" 
      proof -
        have "m * ss + pd div ss * ss = ws * ss" using k by (simp add: m_def flip: distrib_right)
        then show ?thesis using tot pdss by linarith
      qed
      then have m: "0 < m" "m \<le> ws" using \<open>0 < n\<close> by (cases m, auto simp: m_def)
      have "m * ss \<le> length P" using m(2) by (simp add: P)
      note T = concat_trim_last [OF m(1) this]
      have tk: "take (length ?xs - pd div ss) ?xs = map (slice ss P) [0..<m]"
        by (simp add: take_map m_def)
      have sub: "(m - 1) * ss + (ss - pd mod ss) = n"
        using n m(1) mod_less_divisor [OF ss, of pd] by (cases m) auto
      have trim: "trim_padding ?xs r ws md = (if pd mod ss > 0
          then (map (slice ss P) [0..<m])[m - 1 := take (ss - pd mod ss) (last (map (slice ss P) [0..<m]))]
          else map (slice ss P) [0..<m])"
      proof -
        have "\<not> ws \<le> pd div ss" using m(1) by (simp add: m_def)
        then show ?thesis
          using md False True m T(2) [of 0] tk by (simp add: trim_padding_def Let_def flip: ss_def pd_def)
      qed
      show ?thesis
        using trim T(1) [of "ss - pd mod ss"] sub n m concat_slices_take [OF \<open>m * ss \<le> length P\<close>] by auto
    next
      case False': False
      have "(ws - 1) * ss + ss = ws * ss" using ws by (cases ws) auto
      then have n: "(ws - 1) * ss \<le> n" "n - (ws - 1) * ss \<le> ss" using tot False' by auto
      then show ?thesis
        using md False False' ws P concat_trim_last(1) [OF ws, of ss P "n - (ws - 1) * ss"]
        by (simp add: trim_padding_def Let_def flip: ss_def pd_def)
    qed
  qed
  then show "concat (trim_padding (map (slice (shard_size_of ws n) P) [0..<ws]) r ws md) = take n P"
    "trim_padding (map (slice (shard_size_of ws n) P) [0..<ws]) r ws md \<noteq> []"
    by (simp_all add: ss_def)
qed

section \<open>Properties\<close>

text \<open>
  C19. Sharding and gathering are inverse: when every rank holds the same tensor and shards it over
  any number of ranks, the all-gather of the shards gives every rank the original tensor back, its
  shape and its elements, whatever the padding.
\<close>

theorem fsdp_shard_gather_roundtrip:
  assumes "allgather_spec ag_meta" "allgather_spec ag" "lossless up down"
    and "0 < ws" "rank < ws" "tensor_ok t"
  shows "collectives_all_gather ag up down ws rank
      (map (\<lambda>r. fst (shard_tensor zero ag_meta ws r (replicate ws t))) [0..<ws])
      (snd (shard_tensor zero ag_meta ws rank (replicate ws t))) = Inr t"
proof -
  define n where "n = numel t"
  define P where "P = t_data t @ replicate (padding_of ws n) zero"
  let ?md = "replicate ws (n, t_shape t, shard_size_of ws n, padding_of ws n)"
  note L = local_shard_slice [OF assms(4,6), of P zero, folded n_def, OF P_def]
  have shards: "map (\<lambda>r. fst (shard_tensor zero ag_meta ws r (replicate ws t))) [0..<ws]
      = map (slice (shard_size_of ws n) P) [0..<ws]"
    using assms(1,4) L(1) by (simp add: shard_tensor_meta)
  have meta: "snd (shard_tensor zero ag_meta ws rank (replicate ws t)) = ?md"
    using assms by (simp add: shard_tensor_meta n_def)
  have "map down (ag (map (map up) (map (slice (shard_size_of ws n) P) [0..<ws])))
      = concat (map (map (down \<circ> up)) (map (slice (shard_size_of ws n) P) [0..<ws]))"
    using assms(2) by (simp add: allgather_spec_def map_concat comp_def)
  also have "\<dots> = P"
    using assms(3) concat_slices_take [of ws "shard_size_of ws n" P] L(2)
    by (simp add: lossless_def comp_def)
  finally have gathered: "map down (ag (map (map up) (map (slice (shard_size_of ws n) P) [0..<ws]))) = P" .
  have split: "split_shards P 0 (take ws ?md) = map (slice (shard_size_of ws n) P) [0..<ws]"
    using split_shards_same [of P 0 "shard_size_of ws n" ws n "t_shape t" "padding_of ws n"] by simp
  have mdr: "?md ! rank = (n, t_shape t, shard_size_of ws n, padding_of ws n)" using assms(5) by simp
  note T = trim_padding_concat [OF assms(4,5) L(2) mdr]
  have "length (t_data t) = prod_list (t_shape t)" using assms(6) by (simp add: tensor_ok_def numel_def)
  then show ?thesis
    unfolding shards meta collectives_all_gather_def gathered split Let_def mdr
    using T L(3) by simp
qed

theorem fsdp_shard_gather_roundtrip_witness:
  "collectives_all_gather concat id id 4 2
     (map (\<lambda>r. fst (shard_tensor 0 concat 4 r (replicate 4 \<lparr>t_shape = [2, 3], t_data = [1, 2, 3, 4, 5, 6 :: int]\<rparr>))) [0..<4])
     (snd (shard_tensor 0 concat 4 2 (replicate 4 \<lparr>t_shape = [2, 3], t_data = [1, 2, 3, 4, 5, 6 :: int]\<rparr>)))
   = Inr \<lparr>t_shape = [2, 3], t_data = [1, 2, 3, 4, 5, 6]\<rparr>"
  by (rule fsdp_shard_gather_roundtrip)
    (simp_all add: allgather_spec_def lossless_def tensor_ok_def numel_def)

text \<open>
  What MPI documents of reduce-scatter: rank \<open>r\<close> receives the \<open>r\<close>-th of \<open>world_size\<close> equal parts of the
  element-wise sum.
\<close>

definition vector_sum :: "('b :: comm_monoid_add) list list \<Rightarrow> 'b list" where
  "vector_sum xs = map (\<lambda>k. sum_list (map (\<lambda>x. x ! k) xs)) [0..<length (hd xs)]"

definition reduce_scatter_spec :: "nat \<Rightarrow> (('b :: comm_monoid_add) list list \<Rightarrow> nat \<Rightarrow> 'b list) \<Rightarrow> bool" where
  "reduce_scatter_spec ws rs \<longleftrightarrow>
     (\<forall>xs r. length xs = ws \<and> (\<forall>x \<in> set xs. length x = length (hd xs)) \<and> r < ws \<longrightarrow>
        rs xs r = slice (length (hd xs) div ws) (vector_sum xs) r)"

definition mpi_reduce_scatter :: "nat \<Rightarrow> int list list \<Rightarrow> nat \<Rightarrow> int list" where
  "mpi_reduce_scatter ws xs r = slice (length (hd xs) div ws) (vector_sum xs) r"



text \<open>
  The premise on the size of the tensor is needed: on two ranks a tensor of one element has padding 1, the last rank
  trims its gradient to \<open>original_numel - padding = 0\<close> elements, while its parameter shard has one.
\<close>

lemma fsdp_small_tensor_gradient_lost:
  "collectives_reduce_scatter (mpi_reduce_scatter 2) id id 0 2 1 [[1], [10 :: int]] (replicate 2 (1, [1], 1, 1)) = [] \<and>
   length (local_shard 0 2 1 \<lparr>t_shape = [1], t_data = [5 :: int]\<rparr>) = 1"
  by code_simp

text \<open>
  \<open>leaf_parameters\<close>: no trainable parameter sits below a module that has parameters of its own.
\<close>

fun leaf_parameters :: "(string \<times> 'p module) list \<Rightarrow> bool" where
  "leaf_parameters [] \<longleftrightarrow> True"
| "leaf_parameters ((name, Module params children) # rest) \<longleftrightarrow>
     (params \<noteq> [] \<longrightarrow> trainable_children [] children = []) \<and> leaf_parameters children \<and> leaf_parameters rest"

lemma trainable_children_prefix:
  "trainable_children (a @ b) cs = map (\<lambda>(n, p). (a @ n, p)) (trainable_children b cs)"
proof (induction "b" cs arbitrary: a rule: trainable_children.induct)
  case (2 pfx name params children rest)
  show ?case using 2(1) [of a] 2(2) [of a] by (auto simp: comp_def split_beta)
qed simp

lemma trainable_children_empty: "trainable_children [] cs = [] \<Longrightarrow> trainable_children b cs = []"
  using trainable_children_prefix [of b "[]" cs] by simp

lemma unwrap_params_shards:
  assumes "\<And>p. gather (Shard (shard p)) = p"
  shows "concat (map (unwrap_param gather pfx) (shard_parameters shard ps))
    = map (\<lambda>(n, _, p). (pfx @ n, p)) (filter (\<lambda>(n, grad, p). grad) ps)"
  by (induction ps) (auto simp: shard_parameters_def unwrap_param_def assms)

lemma unwrap_wrap_layers:
  assumes "\<And>p. gather (Shard (shard p)) = p" "leaf_parameters cs"
  shows "unwrap_layers gather pfx (wrap_layers shard cs) = trainable_children pfx cs"
  using assms(2)
proof (induction pfx cs rule: trainable_children.induct)
  case (2 pfx name params children rest)
  have "params \<noteq> [] \<Longrightarrow> trainable_children (pfx @ name @ ''.'') children = []"
    using 2(3) trainable_children_empty by auto
  then show ?case using 2 unwrap_params_shards [of gather shard, OF assms(1)] by auto
qed simp


definition ex_model :: "int module" where
  "ex_model = Module [] [(''lin'', Module [(''w'', True, 3), (''b'', False, 4)] []), (''blk'', Module [] [(''x'', Module [(''w'', True, 7)] [])])]"

definition ex_gather :: "(int, int) pval \<Rightarrow> int" where
  "ex_gather v = (case v of Full p \<Rightarrow> p | Shard s \<Rightarrow> s)"


text \<open>
  The premise on the nesting of parameters is needed: a trainable parameter below a module with parameters of its own is
  missing from the checkpoint of the wrapped model.
\<close>

lemma fsdp_checkpoint_loses_nested_parameters:
  "let m = Module [] [(''outer'', Module [(''w'', True, 1)] [(''inner'', Module [(''w'', True, 2 :: int)] [])])]
   in filter_checkpoint m = [(''outer.w'', 1), (''outer.inner.w'', 2)] \<and>
      unwrap_layers ex_gather [] (wrap_layers id (mod_children m)) = [(''outer.w'', 1)]"
  by code_simp

end
