(* ===== verification/Checkpoints.thy ===== *)
theory Checkpoints
  imports Prelude
begin

text \<open>
  The checkpoint files of a training job (\<open>ml/cray_megatron/models/get_latest_checkpoint_path.py\<close> and
  \<open>TrainingLoop.save_checkpoint\<close>). A job directory is an association list from file names to
  contents, in the order \<open>os.listdir\<close> gives; the number in a file name is read with Python's
  \<open>int\<close>. The properties: the name that is written is read back as its step, a saved checkpoint is
  the latest one, and the files that are deleted are the oldest checkpoints only.
\<close>

section \<open>Strings and numbers\<close>

definition is_digit :: "char \<Rightarrow> bool" where
  "is_digit c \<longleftrightarrow> c \<in> set ''0123456789''"

definition is_space :: "char \<Rightarrow> bool" where
  "is_space c \<longleftrightarrow> (of_char c :: nat) \<in> {9, 10, 11, 12, 13, 28, 29, 30, 31, 32, 133, 160}"

definition digit_val :: "char \<Rightarrow> nat" where
  "digit_val c = of_char c - 48"

definition digit_char :: "nat \<Rightarrow> char" where
  "digit_char d = ''0123456789'' ! d"

text \<open>The decimal digits of a natural number, as an f-string prints it.\<close>

fun show_nat :: "nat \<Rightarrow> string" where
  "show_nat n = (if n < 10 then [digit_char n] else show_nat (n div 10) @ [digit_char (n mod 10)])"

declare show_nat.simps [simp del]

definition strip :: "string \<Rightarrow> string" where
  "strip s = rev (dropWhile is_space (rev (dropWhile is_space s)))"

text \<open>
  \<open>int(s)\<close> of a string without underscores: optional blanks around an optional sign and decimal
  digits; anything else is a \<open>ValueError\<close>.
\<close>

definition digits_value :: "string \<Rightarrow> nat" where
  "digits_value s = foldl (\<lambda>n c. n * 10 + digit_val c) 0 s"

definition parse_int :: "string \<Rightarrow> py_error + int" where
  "parse_int s =
     (let t = strip s;
          (sign, ds) = (case t of
              [] \<Rightarrow> (1, [])
            | c # r \<Rightarrow> if c = CHR ''-'' then (-1, r) else if c = CHR ''+'' then (1, r) else (1, t))
      in if ds \<noteq> [] \<and> list_all is_digit ds then Inr (sign * int (digits_value ds)) else Inl ValueError)"

text \<open>\<open>s.split(c)\<close>.\<close>

fun split_on :: "char \<Rightarrow> string \<Rightarrow> string list" where
  "split_on c [] = [[]]"
| "split_on c (x # xs) =
     (if x = c then [] # split_on c xs
      else case split_on c xs of [] \<Rightarrow> [[x]] | w # ws \<Rightarrow> (x # w) # ws)"

section \<open>Checkpoint files\<close>

type_synonym 'c directory = "(string \<times> 'c) list"

definition is_checkpoint_name :: "string \<Rightarrow> bool" where
  "is_checkpoint_name f \<longleftrightarrow>
     take 11 f = ''checkpoint_'' \<and> length f \<ge> 3 \<and> drop (length f - 3) f = ''.pt''"

text \<open>The key \<open>int(x.split("_")[1].split(".")[0])\<close>.\<close>

definition checkpoint_step :: "string \<Rightarrow> py_error + int" where
  "checkpoint_step f =
     (let parts = split_on (CHR ''_'') f in
      bindE (raise_unless IndexError (length parts > 1)) (\<lambda>_.
      parse_int (hd (split_on (CHR ''.'') (parts ! 1)))))"

definition checkpoint_name :: "nat \<Rightarrow> string" where
  "checkpoint_name step = ''checkpoint_'' @ show_nat step @ ''.pt''"

definition checkpoint_files :: "'c directory \<Rightarrow> string list" where
  "checkpoint_files dir = filter is_checkpoint_name (map fst dir)"

text \<open>The keys of \<open>max\<close> and \<open>sorted\<close>, computed for every file first.\<close>

fun keyed :: "string list \<Rightarrow> py_error + (int \<times> string) list" where
  "keyed [] = Inr []"
| "keyed (f # fs) = bindE (checkpoint_step f) (\<lambda>k. bindE (keyed fs) (\<lambda>ks. Inr ((k, f) # ks)))"

text \<open>\<open>max\<close> with a key returns the first of the largest elements.\<close>

fun max_keyed :: "int \<times> string \<Rightarrow> (int \<times> string) list \<Rightarrow> int \<times> string" where
  "max_keyed best [] = best"
| "max_keyed best (x # xs) = max_keyed (if fst best < fst x then x else best) xs"

definition get_latest_checkpoint_path :: "'c directory \<Rightarrow> py_error + string option" where
  "get_latest_checkpoint_path dir =
     (let files = checkpoint_files dir in
      if length files = 0 then Inr None
      else bindE (keyed files) (\<lambda>ks. Inr (Some (snd (max_keyed (hd ks) (tl ks))))))"

definition does_any_checkpoint_exist :: "'c directory \<Rightarrow> py_error + bool" where
  "does_any_checkpoint_exist dir = bindE (get_latest_checkpoint_path dir) (\<lambda>p. Inr (p \<noteq> None))"

text \<open>\<open>xs[:-k]\<close>; for \<open>k = 0\<close> this is \<open>xs[:0]\<close>, the empty list.\<close>

definition all_but :: "nat \<Rightarrow> 'a list \<Rightarrow> 'a list" where
  "all_but k xs = (if k = 0 then [] else take (length xs - k) xs)"

definition delete_old_checkpoints :: "nat \<Rightarrow> 'c directory \<Rightarrow> py_error + 'c directory" where
  "delete_old_checkpoints max_checkpoints_to_keep dir =
     (let files = checkpoint_files dir in
      if length files = 0 then Inr dir
      else bindE (keyed files) (\<lambda>ks.
           let sorted_checkpoints = map snd (sort_key fst ks) in
           if length sorted_checkpoints > max_checkpoints_to_keep
           then Inr (filter (\<lambda>(f, _). f \<notin> set (all_but max_checkpoints_to_keep sorted_checkpoints)) dir)
           else Inr dir))"

text \<open>Saving writes the file (replacing one of the same name) and then deletes old ones.\<close>

definition save_checkpoint :: "nat \<Rightarrow> nat \<Rightarrow> 'c \<Rightarrow> 'c directory \<Rightarrow> py_error + 'c directory" where
  "save_checkpoint max_checkpoints_to_keep current_step checkpoint dir =
     delete_old_checkpoints max_checkpoints_to_keep (dict_set (checkpoint_name current_step) checkpoint dir)"

section \<open>Names are read back\<close>

lemma digit_char_props:
  assumes "d < 10"
  shows "is_digit (digit_char d)" "digit_val (digit_char d) = d" "digit_char d \<noteq> CHR ''_''"
    "digit_char d \<noteq> CHR ''.''" "\<not> is_space (digit_char d)" "digit_char d \<noteq> CHR ''-''" "digit_char d \<noteq> CHR ''+''"
proof -
  have "d \<in> {0, 1, 2, 3, 4, 5, 6, 7, 8, 9}" using assms by auto
  then show "is_digit (digit_char d)" "digit_val (digit_char d) = d" "digit_char d \<noteq> CHR ''_''"
    "digit_char d \<noteq> CHR ''.''" "\<not> is_space (digit_char d)" "digit_char d \<noteq> CHR ''-''" "digit_char d \<noteq> CHR ''+''"
    by (auto simp: is_digit_def digit_char_def digit_val_def is_space_def)
qed

lemma show_nat_chars: "c \<in> set (show_nat n) \<Longrightarrow> \<exists>d<10. c = digit_char d"
proof (induction n rule: show_nat.induct)
  case (1 n)
  have "\<exists>d<10. digit_char (n mod 10) = digit_char d" by (rule exI [of _ "n mod 10"]) simp
  then show ?case using 1 by (cases "n < 10") (auto simp: show_nat.simps [of n])
qed

lemma show_nat_ne: "show_nat n \<noteq> []"
  by (subst show_nat.simps) simp

lemma digits_value_show_nat: "digits_value (show_nat n) = n"
proof (induction n rule: show_nat.induct)
  case (1 n)
  then show ?case
    by (cases "n < 10") (auto simp: show_nat.simps [of n] digits_value_def digit_char_props(2))
qed

lemma strip_id: "(\<And>c. c \<in> set s \<Longrightarrow> \<not> is_space c) \<Longrightarrow> strip s = s"
proof -
  assume s: "\<And>c. c \<in> set s \<Longrightarrow> \<not> is_space c"
  then have "dropWhile is_space s = s" by (auto simp: dropWhile_eq_self_iff)
  moreover have "dropWhile is_space (rev s) = rev s"
    using s [of "last s"] by (auto simp: dropWhile_eq_self_iff hd_rev)
  ultimately show ?thesis by (simp add: strip_def)
qed

lemma parse_int_show_nat: "parse_int (show_nat n) = Inr (int n)"
proof -
  have "strip (show_nat n) = show_nat n"
    by (rule strip_id) (auto dest!: show_nat_chars simp: digit_char_props)
  moreover obtain c r where s: "show_nat n = c # r" by (metis list.exhaust show_nat_ne)
  moreover have "c \<noteq> CHR ''-''" "c \<noteq> CHR ''+''"
    using show_nat_chars [of c n] s by (auto simp: digit_char_props)
  moreover have "list_all is_digit (show_nat n)"
    by (auto simp: list_all_iff dest!: show_nat_chars intro: digit_char_props)
  ultimately show ?thesis
    using digits_value_show_nat [of n] by (simp add: parse_int_def)
qed

lemma split_on_absent: "c \<notin> set s \<Longrightarrow> split_on c s = [s]"
  by (induction s) auto

lemma split_on_ne: "split_on c s \<noteq> []"
  by (induction s) (auto split: list.splits)

lemma split_on_append: "c \<notin> set s \<Longrightarrow> split_on c (s @ c # t) = s # split_on c t"
proof (induction s)
  case (Cons x s)
  then show ?case by auto
qed simp

lemma checkpoint_step_name: "checkpoint_step (checkpoint_name n) = Inr (int n)"
proof -
  have d: "c \<notin> set (show_nat n)" if "c = CHR ''_'' \<or> c = CHR ''.''" for c
    using show_nat_chars [of c n] that by (metis digit_char_props(3,4))
  have "split_on (CHR ''_'') (''checkpoint'' @ CHR ''_'' # (show_nat n @ ''.pt''))
      = ''checkpoint'' # split_on (CHR ''_'') (show_nat n @ ''.pt'')"
    by (rule split_on_append) simp
  moreover have "split_on (CHR ''_'') (show_nat n @ ''.pt'') = [show_nat n @ ''.pt'']"
    by (rule split_on_absent) (use d in auto)
  moreover have "split_on (CHR ''.'') (show_nat n @ CHR ''.'' # ''pt'') = show_nat n # split_on (CHR ''.'') ''pt''"
    by (rule split_on_append) (use d in auto)
  ultimately show ?thesis
    by (simp add: checkpoint_step_def checkpoint_name_def parse_int_show_nat)
qed

lemma is_checkpoint_checkpoint_name: "is_checkpoint_name (checkpoint_name n)"
  by (simp add: is_checkpoint_name_def checkpoint_name_def)

lemma checkpoint_name_inj: "checkpoint_name m = checkpoint_name n \<Longrightarrow> m = n"
  by (metis checkpoint_step_name of_nat_eq_iff sum.inject(2))

section \<open>Deletion and the latest checkpoint\<close>

lemma keyed_steps:
  "keyed fs = Inr ks \<Longrightarrow> map snd ks = fs \<and> (\<forall>(k, f)\<in>set ks. checkpoint_step f = Inr k)"
  by (induction fs arbitrary: ks) auto

lemma keyed_total: "(\<And>f. f \<in> set fs \<Longrightarrow> \<not> isl (checkpoint_step f)) \<Longrightarrow> \<exists>ks. keyed fs = Inr ks"
proof (induction fs)
  case (Cons f fs)
  obtain k where "checkpoint_step f = Inr k" using Cons.prems [of f] not_isl by auto
  moreover obtain ks where "keyed fs = Inr ks" using Cons by auto
  ultimately show ?case by simp
qed simp

lemma max_keyed_max:
  "max_keyed b xs \<in> insert b (set xs) \<and> (\<forall>x\<in>insert b (set xs). fst x \<le> fst (max_keyed b xs))"
proof (induction b xs rule: max_keyed.induct)
  case (2 best x xs)
  show ?case
  proof (cases "fst best < fst x")
    case True
    then show ?thesis using 2 by (auto simp: order.trans [OF order.strict_implies_order])
  next
    case False
    then show ?thesis using 2 by (auto simp: not_less intro: order.trans)
  qed
qed simp

text \<open>The step a file name stands for, where it has one.\<close>

definition step_of :: "string \<Rightarrow> int" where
  "step_of f = projr (checkpoint_step f)"

lemma keyed_step_of: "keyed fs = Inr ks \<Longrightarrow> ks = map (\<lambda>f. (step_of f, f)) fs"
  by (induction fs arbitrary: ks) (auto simp: step_of_def)

text \<open>Sorting splits into an old part and a new part, and every step of the first is at most one of the second.\<close>

lemma sorted_split_le:
  assumes "x \<in> set (take n (sort_key f xs))" "y \<in> set (drop n (sort_key f xs))"
  shows "f x \<le> f y"
proof -
  have "sorted (map f (take n (sort_key f xs)) @ map f (drop n (sort_key f xs)))"
    by (simp flip: map_append)
  then show ?thesis using assms by (auto simp: sorted_append)
qed

lemma map_fst_filter: "map fst (filter (\<lambda>(f, _). P f) d) = filter P (map fst d)"
  by (induction d) auto

lemma delete_old_checkpoints_spec:
  assumes "1 \<le> keep" "distinct (map fst dir)"
    and "\<And>f. f \<in> set (checkpoint_files dir) \<Longrightarrow> \<not> isl (checkpoint_step f)"
  shows "\<exists>dir'. delete_old_checkpoints keep dir = Inr dir' \<and>
    length (checkpoint_files dir') = min keep (length (checkpoint_files dir)) \<and>
    (\<forall>e\<in>set dir'. e \<in> set dir) \<and> (\<forall>(f, c)\<in>set dir - set dir'. is_checkpoint_name f) \<and>
    (\<forall>(f, c)\<in>set dir - set dir'. \<forall>g\<in>set (checkpoint_files dir'). step_of f \<le> step_of g) \<and>
    distinct (map fst dir')"
proof -
  let ?fs = "checkpoint_files dir" let ?s = "sort_key step_of ?fs" let ?old = "take (length ?fs - keep) ?s"
  obtain ks where ks: "keyed ?fs = Inr ks" using keyed_total assms(3) by blast
  then have "ks = map (\<lambda>f. (step_of f, f)) ?fs" by (rule keyed_step_of)
  then have srt: "map snd (sort_key fst ks) = ?s" by (simp add: sort_key_map comp_def)
  have len_s: "length ?s = length ?fs" "length ks = length ?fs"
    using srt by (simp, metis length_map length_sort)
  show ?thesis
  proof (cases "length ?fs > keep")
    case False
    then have "delete_old_checkpoints keep dir = Inr dir"
      using ks srt len_s by (simp add: delete_old_checkpoints_def Let_def)
    then show ?thesis using False assms(2) by auto
  next
    case True
    let ?dir = "filter (\<lambda>(f, _). f \<notin> set ?old) dir"
    have del: "delete_old_checkpoints keep dir = Inr ?dir"
      using True ks srt len_s assms(1) by (simp add: delete_old_checkpoints_def Let_def all_but_def)
    have d: "distinct ?s" using assms(2) by (simp add: checkpoint_files_def)
    have "map fst ?dir = filter (\<lambda>f. f \<notin> set ?old) (map fst dir)" by (rule map_fst_filter)
    then have cf: "checkpoint_files ?dir = filter (\<lambda>f. f \<notin> set ?old) ?fs"
      by (simp add: checkpoint_files_def conj_commute)
    have part: "set ?old \<inter> set (drop (length ?fs - keep) ?s) = {}"
      "set ?old \<union> set (drop (length ?fs - keep) ?s) = set ?fs"
      using d set_take_disj_set_drop_if_distinct [of ?s] by (simp, metis append_take_drop_id set_append set_sort)
    then have new: "set (checkpoint_files ?dir) = set (drop (length ?fs - keep) ?s)" using cf by auto
    have dd: "distinct (map fst ?dir)" using assms(2) by (rule distinct_map_filter)
    then have "length (checkpoint_files ?dir) = card (set (checkpoint_files ?dir))"
      unfolding checkpoint_files_def by (intro distinct_card [symmetric] distinct_filter)
    also have "\<dots> = keep" unfolding new using d True by (simp add: distinct_card)
    finally have len: "length (checkpoint_files ?dir) = min keep (length ?fs)" using True by simp
    have old: "f \<in> set ?old" if "(f, c) \<in> set dir - set ?dir" for f c using that by auto
    have "set ?old \<subseteq> set ?fs" using part(2) by blast
    then have "\<forall>f\<in>set ?old. is_checkpoint_name f" by (auto simp: checkpoint_files_def)
    then have names: "\<forall>(f, c)\<in>set dir - set ?dir. is_checkpoint_name f" using old by blast
    have "step_of f \<le> step_of g" if "(f, c) \<in> set dir - set ?dir" "g \<in> set (checkpoint_files ?dir)" for f c g
      by (rule sorted_split_le [OF old [OF that(1)]]) (use new that(2) in blast)
    then have le: "\<forall>(f, c)\<in>set dir - set ?dir. \<forall>g\<in>set (checkpoint_files ?dir). step_of f \<le> step_of g"
      by (auto simp only: Ball_def split_paired_All prod.case)
    have sub: "\<forall>e\<in>set ?dir. e \<in> set dir" by simp
    show ?thesis using del len names le sub dd by blast
  qed
qed

lemma latest_checkpoint_spec:
  assumes "f \<in> set (checkpoint_files dir)" "checkpoint_step f = Inr k"
    and "\<And>g. g \<in> set (checkpoint_files dir) \<Longrightarrow> g \<noteq> f \<Longrightarrow> \<exists>j. checkpoint_step g = Inr j \<and> j < k"
  shows "get_latest_checkpoint_path dir = Inr (Some f)"
proof -
  let ?fs = "checkpoint_files dir"
  have "\<not> isl (checkpoint_step g)" if "g \<in> set ?fs" for g
    using assms(2) assms(3) [OF that] by (cases "g = f") auto
  then obtain ks where ks: "keyed ?fs = Inr ks" using keyed_total by blast
  note k = keyed_steps [OF ks]
  have ne: "ks \<noteq> []" using k assms(1) by auto
  let ?m = "max_keyed (hd ks) (tl ks)"
  have "insert (hd ks) (set (tl ks)) = set ks" using ne by (cases ks) auto
  then have m: "?m \<in> set ks" "\<And>x. x \<in> set ks \<Longrightarrow> fst x \<le> fst ?m"
    using max_keyed_max [of "hd ks" "tl ks"] by blast+
  have "f \<in> snd ` set ks" using k assms(1) by (metis set_map)
  then obtain i where i: "(i, f) \<in> set ks" by auto
  then have "i = k" using k assms(2) by auto
  then have le: "k \<le> fst ?m" using m(2) [OF i] by simp
  have "snd ?m \<in> snd ` set ks" using m(1) by simp
  then have fs: "snd ?m \<in> set ?fs" using k by (metis set_map)
  have st: "checkpoint_step (snd ?m) = Inr (fst ?m)" using k m(1) by (cases ?m) auto
  have "snd ?m = f"
  proof (rule ccontr)
    assume "snd ?m \<noteq> f"
    then obtain j where "checkpoint_step (snd ?m) = Inr j" "j < k" using assms(3) [OF fs] by auto
    then show False using st le by simp
  qed
  moreover have "checkpoint_files dir \<noteq> []" using assms(1) by (metis empty_iff empty_set)
  ultimately show ?thesis using ks by (simp add: get_latest_checkpoint_path_def Let_def)
qed

lemma checkpoint_files_dict_set:
  "set (checkpoint_files (dict_set (checkpoint_name n) c dir)) = insert (checkpoint_name n) (set (checkpoint_files dir))"
  using keys_dict_set [of "checkpoint_name n" c dir]
  by (auto simp: checkpoint_files_def is_checkpoint_checkpoint_name simp flip: set_map)

lemma dict_set_mem: "(k, v) \<in> set (dict_set k v d)"
  by (induction d) auto

lemma dict_set_other: "e \<in> set d \<Longrightarrow> fst e \<noteq> k \<Longrightarrow> e \<in> set (dict_set k v d)"
  by (induction d) auto

lemma save_checkpoint_spec:
  assumes keep: "1 \<le> keep" and d: "distinct (map fst dir)"
    and old: "\<And>g. g \<in> set (checkpoint_files dir) \<Longrightarrow> g \<noteq> checkpoint_name n \<Longrightarrow>
      \<exists>j. checkpoint_step g = Inr j \<and> j < int n"
  shows "\<exists>dir'. save_checkpoint keep n c dir = Inr dir' \<and>
    get_latest_checkpoint_path dir' = Inr (Some (checkpoint_name n)) \<and>
    map_of dir' (checkpoint_name n) = Some c \<and> length (checkpoint_files dir') \<le> keep \<and>
    (\<forall>(f, x)\<in>set dir - set dir'. f \<noteq> checkpoint_name n \<longrightarrow>
       is_checkpoint_name f \<and> (\<forall>g\<in>set (checkpoint_files dir'). step_of f \<le> step_of g)) \<and>
    distinct (map fst dir') \<and> set (checkpoint_files dir') \<subseteq> insert (checkpoint_name n) (set (checkpoint_files dir))"
proof -
  let ?n = "checkpoint_name n" let ?d = "dict_set ?n c dir"
  note sn = checkpoint_step_name [of n]
  have cf: "\<exists>j. checkpoint_step g = Inr j \<and> j < int n" if "g \<in> set (checkpoint_files ?d)" "g \<noteq> ?n" for g
    using old that by (auto simp: checkpoint_files_dict_set)
  then have par: "\<not> isl (checkpoint_step g)" if "g \<in> set (checkpoint_files ?d)" for g
    using that sn by (metis isl_def Inr_Inl_False)
  obtain dir' where dir': "delete_old_checkpoints keep ?d = Inr dir'"
    "length (checkpoint_files dir') = min keep (length (checkpoint_files ?d))" "\<forall>e\<in>set dir'. e \<in> set ?d"
    "\<forall>(f, x)\<in>set ?d - set dir'. is_checkpoint_name f"
    "\<forall>(f, x)\<in>set ?d - set dir'. \<forall>g\<in>set (checkpoint_files dir'). step_of f \<le> step_of g"
    "distinct (map fst dir')"
    using delete_old_checkpoints_spec [OF keep, of ?d] d par by auto
  have sub: "set (checkpoint_files dir') \<subseteq> set (checkpoint_files ?d)"
    using dir'(3) unfolding checkpoint_files_def set_filter set_map by blast
  have "0 < length (checkpoint_files ?d)" using checkpoint_files_dict_set [of n c dir] by fastforce
  then have "0 < length (checkpoint_files dir')" using dir'(2) keep by linarith
  then have "checkpoint_files dir' \<noteq> []" by simp
  then obtain g where g: "g \<in> set (checkpoint_files dir')" by (meson last_in_set)
  have mem: "(?n, c) \<in> set ?d" by (rule dict_set_mem)
  have kept: "(?n, c) \<in> set dir'"
  proof (rule ccontr)
    assume no: "(?n, c) \<notin> set dir'"
    then have "step_of ?n \<le> step_of g" using dir'(5) mem g by blast
    then have le: "int n \<le> step_of g" using sn by (simp add: step_of_def)
    have "g = ?n"
    proof (rule ccontr)
      assume "g \<noteq> ?n"
      then obtain j where "checkpoint_step g = Inr j" "j < int n" using cf g sub by blast
      then show False using le by (simp add: step_of_def)
    qed
    then obtain x where x: "(?n, x) \<in> set dir'" using g by (auto simp: checkpoint_files_def)
    then have "x = c" using dir'(3) mem d by (metis distinct_dict_set eq_key_imp_eq_value)
    then show False using x no by simp
  qed
  have mo: "map_of dir' ?n = Some c" using kept dir'(6) by simp
  have "?n \<in> set (checkpoint_files dir')"
    using kept is_checkpoint_checkpoint_name by (force simp: checkpoint_files_def)
  then have lat: "get_latest_checkpoint_path dir' = Inr (Some ?n)"
    by (rule latest_checkpoint_spec [OF _ sn]) (use cf sub in blast)
  have "e \<in> set ?d" if "e \<in> set dir" "fst e \<noteq> ?n" for e using that by (rule dict_set_other)
  then have "\<forall>(f, x)\<in>set dir - set dir'. f \<noteq> ?n \<longrightarrow>
       is_checkpoint_name f \<and> (\<forall>g\<in>set (checkpoint_files dir'). step_of f \<le> step_of g)"
    using dir'(4,5) by fastforce
  moreover have "set (checkpoint_files dir') \<subseteq> insert ?n (set (checkpoint_files dir))"
    using sub by (simp only: checkpoint_files_dict_set)
  ultimately show ?thesis using dir'(1,2,6) mo lat by (auto simp: save_checkpoint_def)
qed

text \<open>
  C36. Saving a checkpoint at a step beyond those on disk: the new file is then the latest one with
  the content just written, at most \<open>max_checkpoints_to_keep\<close> checkpoints are left, a deleted file was
  a checkpoint no newer than any that stays, and no other file is touched.
\<close>

theorem checkpoint_saved_is_latest:
  assumes keep: "1 \<le> keep" and d: "distinct (map fst dir)"
    and old: "\<And>g. g \<in> set (checkpoint_files dir) \<Longrightarrow> g \<noteq> checkpoint_name n \<Longrightarrow>
      \<exists>j. checkpoint_step g = Inr j \<and> j < int n"
  shows "\<exists>dir'. save_checkpoint keep n c dir = Inr dir' \<and>
    get_latest_checkpoint_path dir' = Inr (Some (checkpoint_name n)) \<and>
    map_of dir' (checkpoint_name n) = Some c \<and> length (checkpoint_files dir') \<le> keep \<and>
    (\<forall>(f, x)\<in>set dir - set dir'. f \<noteq> checkpoint_name n \<longrightarrow>
       is_checkpoint_name f \<and> (\<forall>g\<in>set (checkpoint_files dir'). step_of f \<le> step_of g))"
  using save_checkpoint_spec [of keep dir n c] keep d old by blast

theorem checkpoint_saved_is_latest_witness:
  "\<exists>dir'. save_checkpoint 1 20 (7 :: nat) [(''status.json'', 0), (''checkpoint_10.pt'', 5)] = Inr dir' \<and>
     get_latest_checkpoint_path dir' = Inr (Some (checkpoint_name 20)) \<and>
     map_of dir' (checkpoint_name 20) = Some 7"
proof -
  have cf: "checkpoint_files [(''status.json'', 0 :: nat), (''checkpoint_10.pt'', 5)] = [''checkpoint_10.pt'']"
    by code_simp
  moreover have "checkpoint_step ''checkpoint_10.pt'' = Inr 10" by code_simp
  ultimately show ?thesis
    using checkpoint_saved_is_latest [of 1 "[(''status.json'', 0), (''checkpoint_10.pt'', 5)]" 20 "7 :: nat"] by fastforce
qed

end
