(* ===== verification/Dataset.thy ===== *)
theory Dataset
  imports Prelude
begin

text \<open>
  The training data (\<open>ml/cray_megatron/megatron/dataset/load_dataset.py\<close>, \<open>data_loader.py\<close>): the split over
  the data-parallel ranks, tokenization with labels, packing into blocks and the loader that starts a
  new epoch when the batches are used up. The tokenizer and the shuffled data are parameters.
\<close>

section \<open>Data set\<close>

definition split_dataset_by_node :: "nat \<Rightarrow> nat \<Rightarrow> 'a list \<Rightarrow> 'a list" where
  "split_dataset_by_node world_size rank dataset =
     map snd (filter (\<lambda>(idx, _). idx mod world_size = rank) (enumerate 0 dataset))"

datatype eos_config = NoGenerationConfig | EosList "int list" | EosToken int

definition eos_token :: "int \<Rightarrow> eos_config \<Rightarrow> py_error + int" where
  "eos_token tokenizer_eos cfg =
     (case cfg of
        NoGenerationConfig \<Rightarrow> Inr tokenizer_eos
      | EosList ts \<Rightarrow> bindE (raise_unless IndexError (ts \<noteq> [])) (\<lambda>_. Inr (last ts))
      | EosToken t \<Rightarrow> Inr t)"

record tokens =
  tk_input_ids :: "int list"
  tk_attention_mask :: "int list"
  tk_labels :: "int list"

definition add_eos_token :: "int \<Rightarrow> int list \<times> int list \<Rightarrow> int list \<times> int list" where
  "add_eos_token eos = (\<lambda>(input_ids, attention_mask). (input_ids @ [eos], attention_mask @ [1]))"

text \<open>
  One example of the batch \<open>tokenize\<close> handles; the tokenizer is a parameter that gives the ids and
  the attention mask of a text.
\<close>

definition tokenize ::
  "(string \<Rightarrow> int list \<times> int list) \<Rightarrow> int \<Rightarrow> eos_config \<Rightarrow> string \<times> string \<Rightarrow> py_error + tokens" where
  "tokenize tokenizer tokenizer_eos cfg = (\<lambda>(input_text, output_text).
     bindE (eos_token tokenizer_eos cfg) (\<lambda>eos.
     let (input_ids, attention_mask) = add_eos_token eos (tokenizer (input_text @ output_text));
         input_text_length = length (fst (tokenizer input_text))
     in Inr \<lparr>tk_input_ids = input_ids, tk_attention_mask = attention_mask,
             tk_labels = replicate input_text_length (-100) @ drop input_text_length input_ids\<rparr>))"

text \<open>\<open>pack\<close> of one column, given the total length of the first column.\<close>

definition pack_length :: "nat \<Rightarrow> nat \<Rightarrow> nat" where
  "pack_length block_size total_length =
     (if total_length \<ge> block_size then total_length div block_size * block_size else total_length)"

definition pack_column :: "nat \<Rightarrow> nat \<Rightarrow> 'a list \<Rightarrow> 'a list list" where
  "pack_column block_size total_length t =
     map (\<lambda>k. take block_size (drop (k * block_size) t))
       [0..<(pack_length block_size total_length + block_size - 1) div block_size]"

definition pack :: "nat \<Rightarrow> (string \<times> 'a list list) list \<Rightarrow> py_error + (string \<times> 'a list list) list" where
  "pack block_size dataset =
     bindE (raise_unless IndexError (dataset \<noteq> [])) (\<lambda>_.
     bindE (raise_unless ZeroDivisionError (block_size \<noteq> 0)) (\<lambda>_.
     let concatenated = map (\<lambda>(k, v). (k, concat v)) dataset;
         total_length = length (snd (hd concatenated))
     in Inr (map (\<lambda>(k, t). (k, pack_column block_size total_length t)) concatenated)))"

definition get_pack_block_size :: "nat \<Rightarrow> nat \<Rightarrow> nat" where
  "get_pack_block_size max_position_embeddings max_token_block_size =
     min max_position_embeddings max_token_block_size"

text \<open>
  \<open>DataLoader\<close>: \<open>batches epoch\<close> are the batches of an epoch (the data set is shuffled with a seed that
  depends on it); the state is the epoch and the batches left in it. An epoch without batches makes
  the second \<open>next\<close> raise \<open>StopIteration\<close> out of the loop.
\<close>

record 'b data_loader =
  dl_epoch :: nat
  dl_left :: "'b list"

definition data_loader_iter :: "(nat \<Rightarrow> 'b list) \<Rightarrow> 'b data_loader" where
  "data_loader_iter batches = \<lparr>dl_epoch = 0, dl_left = batches 0\<rparr>"

definition data_loader_next :: "(nat \<Rightarrow> 'b list) \<Rightarrow> 'b data_loader \<Rightarrow> py_error + ('b \<times> 'b data_loader)" where
  "data_loader_next batches l =
     (case dl_left l of
        b # bs \<Rightarrow> Inr (b, l\<lparr>dl_left := bs\<rparr>)
      | [] \<Rightarrow>
          (let epoch = dl_epoch l + 1 in
           case batches epoch of
             b # bs \<Rightarrow> Inr (b, \<lparr>dl_epoch = epoch, dl_left = bs\<rparr>)
           | [] \<Rightarrow> Inl StopIteration))"

section \<open>Properties\<close>

lemma split_from:
  "map snd (filter (\<lambda>(idx, _). P idx) (enumerate n xs)) = map (\<lambda>i. xs ! (i - n)) (filter P [n..<n + length xs])"
proof (induction xs arbitrary: n)
  case (Cons x xs)
  have "map (\<lambda>i. xs ! (i - Suc n)) (filter P [Suc n..<Suc (n + length xs)]) =
      map (\<lambda>i. (x # xs) ! (i - n)) (filter P [Suc n..<Suc (n + length xs)])"
    by (auto simp: nth_Cons')
  then show ?case using Cons.IH [of "Suc n"] by (simp add: upt_conv_Cons del: upt_Suc)
qed simp

text \<open>
  C37. Over all ranks every example is used exactly once: rank \<open>r\<close> gets, in order, the examples whose
  position is \<open>r\<close> modulo the number of ranks, and the parts together are the data set.
\<close>

theorem split_dataset_partition:
  assumes "0 < world_size"
  shows "(\<Sum>r<world_size. mset (split_dataset_by_node world_size r dataset)) = mset dataset \<and>
    (\<forall>r. split_dataset_by_node world_size r dataset =
       map ((!) dataset) (filter (\<lambda>i. i mod world_size = r) [0..<length dataset]))"
proof -
  have eq: "split_dataset_by_node world_size r dataset =
      map ((!) dataset) (filter (\<lambda>i. i mod world_size = r) [0..<length dataset])" for r
    using split_from [of "\<lambda>i. i mod world_size = r" 0 dataset] by (simp add: split_dataset_by_node_def)
  have "(\<Sum>r<world_size. mset (map ((!) dataset) (filter (\<lambda>i. i mod world_size = r) is))) = mset (map ((!) dataset) is)"
    for "is"
  proof (induction "is")
    case (Cons i "is")
    have "(\<Sum>r<world_size. mset (map ((!) dataset) (filter (\<lambda>i. i mod world_size = r) (i # is)))) =
        (\<Sum>r<world_size. (if i mod world_size = r then {#dataset ! i#} else {#}) +
           mset (map ((!) dataset) (filter (\<lambda>i. i mod world_size = r) is)))"
      by (rule sum.cong) auto
    also have "\<dots> = {#dataset ! i#} + mset (map ((!) dataset) is)"
      unfolding sum.distrib Cons using assms by simp
    finally show ?case by simp
  qed simp
  from this [of "[0..<length dataset]"] show ?thesis unfolding eq map_nth by blast
qed

theorem split_dataset_partition_witness:
  "(\<Sum>r<2. mset (split_dataset_by_node 2 r [1, 2, 3 :: int])) = mset [1, 2, 3]"
proof -
  have "(0 :: nat) < 2" by simp
  from split_dataset_partition [OF this, of "[1, 2, 3 :: int]"] show ?thesis by blast
qed

lemma pack_column_slice:
  "pack_column bs n t = map (slice bs t) [0..<(pack_length bs n + bs - 1) div bs]"
  by (simp add: pack_column_def slice_def)

lemma pack_blocks:
  assumes "0 < bs"
  shows "(pack_length bs n + bs - 1) div bs = (if n \<ge> bs then n div bs else if n = 0 then 0 else 1)"
proof (cases "n \<ge> bs")
  case True
  then show ?thesis using assms
    by (simp add: pack_length_def div_mult_self3 add.commute [of _ "bs - 1"] flip: add_diff_assoc)
next
  case False
  then show ?thesis using assms ceil_div_step [of bs n] by (auto simp: pack_length_def)
qed

text \<open>
  C38. Packing keeps the columns aligned and drops less than a block: with columns of equal total
  length, each packed column joins to the first \<open>k * block_size\<close> tokens of the column (all of it when
  shorter than a block), and its blocks then have exactly \<open>block_size\<close> tokens.
\<close>

theorem pack_keeps_tokens:
  assumes "0 < block_size" "dataset \<noteq> []"
    and "\<And>k v. (k, v) \<in> set dataset \<Longrightarrow> length (concat v) = n"
  shows "\<exists>result. pack block_size dataset = Inr result \<and> map fst result = map fst dataset \<and>
    (\<forall>((k, v), (k', bs))\<in>set (zip dataset result).
       (if n < block_size then concat bs = concat v \<and> length bs = (if n = 0 then 0 else 1)
        else concat bs = take (n div block_size * block_size) (concat v) \<and> (\<forall>b\<in>set bs. length b = block_size)))"
proof -
  obtain k0 v0 d where d: "dataset = (k0, v0) # d" using assms(2) by (metis list.exhaust surj_pair)
  have n: "length (concat v0) = n" using assms(3) [of k0 v0] d by simp
  let ?f = "\<lambda>(k, v). (k, pack_column block_size n (concat v))"
  have r: "pack block_size dataset = Inr (map ?f dataset)"
    using assms(1) n unfolding pack_def d by (auto simp: Let_def case_prod_beta)
  have col: "if n < block_size then concat bs = concat v \<and> length bs = (if n = 0 then 0 else 1)
      else concat bs = take (n div block_size * block_size) (concat v) \<and> (\<forall>b\<in>set bs. length b = block_size)"
    if "(k, v) \<in> set dataset" "bs = pack_column block_size n (concat v)" for k v bs
  proof (cases "n < block_size")
    case True
    then have bs: "bs = map (slice block_size (concat v)) [0..<if n = 0 then 0 else 1]"
      using that(2) pack_blocks [OF assms(1), of n] by (simp add: pack_column_slice)
    have "length (concat v) \<le> (if n = 0 then 0 else 1) * block_size" using assms(3) [OF that(1)] True by simp
    then have "concat bs = concat v" unfolding bs by (rule concat_slices)
    then show ?thesis using True bs by simp
  next
    case False
    have len: "n div block_size * block_size \<le> length (concat v)" using assms(3) [OF that(1)] by simp
    have bs: "bs = map (slice block_size (concat v)) [0..<n div block_size]"
      using that(2) False pack_blocks [OF assms(1), of n] by (simp add: pack_column_slice)
    have "length (slice block_size (concat v) i) = block_size" if "i < n div block_size" for i
    proof -
      have "Suc i * block_size \<le> n div block_size * block_size" using that by (intro mult_le_mono1) simp
      then show ?thesis using len by (simp add: slice_def)
    qed
    then show ?thesis using False bs concat_slices_take [OF len] by simp
  qed
  have "\<forall>((k, v), (k', bs))\<in>set (zip dataset (map ?f dataset)).
       (if n < block_size then concat bs = concat v \<and> length bs = (if n = 0 then 0 else 1)
        else concat bs = take (n div block_size * block_size) (concat v) \<and> (\<forall>b\<in>set bs. length b = block_size))"
    using col by (auto simp: zip_map2 zip_same_conv_map)
  moreover have "map fst (map ?f dataset) = map fst dataset" by (auto simp: case_prod_beta)
  ultimately show ?thesis using r by blast
qed

theorem pack_keeps_tokens_witness:
  "\<exists>result. pack 2 [(''input_ids'', [[1], [2, 3 :: int]])] = Inr result \<and> map fst result = [''input_ids'']"
  using pack_keeps_tokens [of 2 "[(''input_ids'', [[1], [2, 3 :: int]])]" 3] by auto

end
