(* ===== verification/Training.thy ===== *)
theory Training
  imports Checkpoints Dataset
begin

text \<open>
  The trainer (\<open>ml/cray_megatron/megatron/training_loop.py\<close>): the bounded history, the loop with its
  callbacks, checkpoints and resumption, as the main rank runs it. The numerical work of a step
  (forward, backward, optimizer) is a parameter that gives the loss; so are the clock and the batches.
\<close>

section \<open>Training history\<close>

record entry =
  e_step :: int
  e_loss :: real
  e_epoch :: nat
  e_time :: real

definition pop_at :: "nat \<Rightarrow> 'a list \<Rightarrow> 'a list" where
  "pop_at i xs = take i xs @ drop (Suc i) xs"

text \<open>The inner loop of \<open>remove_closest_entry\<close>; no minimum yet is \<open>None\<close> (infinity in the code).\<close>

fun closest_from :: "entry list \<Rightarrow> nat list \<Rightarrow> (int \<times> nat) option \<Rightarrow> nat option" where
  "closest_from history [] best = map_option snd best"
| "closest_from history (i # is) best =
     (let diff = e_step (history ! (i + 1)) - e_step (history ! (i - 1))
      in if (case best of None \<Rightarrow> True | Some (min_diff, _) \<Rightarrow> diff < min_diff)
         then closest_from history is (Some (diff, i))
         else closest_from history is best)"

definition closest_index :: "entry list \<Rightarrow> nat option" where
  "closest_index history = closest_from history [1..<length history - 1] None"

lemma closest_from_mem:
  "closest_from history is best = Some i \<Longrightarrow> i \<in> set is \<or> (\<exists>d. best = Some (d, i))"
  by (induction history "is" best rule: closest_from.induct) (auto simp: Let_def split: if_splits option.splits)

lemma closest_from_None: "closest_from history is best = None \<longleftrightarrow> is = [] \<and> best = None"
  by (induction history "is" best rule: closest_from.induct) (auto simp: Let_def split: option.splits)

lemma closest_index_bound: "closest_index history = Some i \<Longrightarrow> 0 < i \<and> Suc i < length history"
  unfolding closest_index_def by (drule closest_from_mem) auto

lemma closest_index_None: "closest_index history = None \<longleftrightarrow> length history \<le> 2"
  unfolding closest_index_def by (auto simp: closest_from_None)

lemma length_pop_at: "i < length xs \<Longrightarrow> length (pop_at i xs) = length xs - 1"
  by (simp add: pop_at_def)

text \<open>\<open>history.pop(None)\<close> is a \<open>TypeError\<close>.\<close>

function remove_closest_entry :: "entry list \<Rightarrow> nat \<Rightarrow> py_error + entry list" where
  "remove_closest_entry history max_length =
     (if length history > max_length
      then case closest_index history of
             None \<Rightarrow> Inl TypeError
           | Some i \<Rightarrow> remove_closest_entry (pop_at i history) max_length
      else Inr history)"
  by pat_completeness auto
termination
  by (relation "measure (\<lambda>(h, _). length h)") (auto dest!: closest_index_bound simp: length_pop_at)

declare remove_closest_entry.simps [simp del]

text \<open>\<open>TrainingState\<close>; its attribute \<open>epoch\<close> does not exist (\<open>None\<close>) before a step or a resumption sets it.\<close>

record train_state =
  ts_current_step :: nat
  ts_epoch :: "nat option"
  ts_history :: "entry list"
  ts_should_stop :: bool

definition update_history :: "nat \<Rightarrow> real \<Rightarrow> real \<Rightarrow> train_state \<Rightarrow> py_error + train_state" where
  "update_history max_history_length loss elapsed st =
     bindE (from_option AttributeError (ts_epoch st)) (\<lambda>epoch.
     let entry = \<lparr>e_step = int (ts_current_step st), e_loss = loss, e_epoch = epoch, e_time = elapsed\<rparr>;
         history = ts_history st @ [entry]
     in if length history > max_history_length
        then bindE (remove_closest_entry history max_history_length) (\<lambda>history.
             Inr (st\<lparr>ts_history := history\<rparr>))
        else Inr (st\<lparr>ts_history := history\<rparr>))"

section \<open>The training loop\<close>

text \<open>What a checkpoint file holds besides the weights and the optimizer.\<close>

record ckpt =
  ck_step :: nat
  ck_epoch :: nat

record train_config =
  tc_max_steps :: nat
  tc_steps_per_checkpoint :: nat
  tc_max_checkpoints_to_keep :: nat
  tc_training_history_length :: nat

text \<open>
  The environment: the batches of an epoch, the averaged loss of a step on a batch, the time since
  the start at a step, and whether the timeout had passed at the end of a step.
\<close>

record 'b train_env =
  te_batches :: "nat \<Rightarrow> 'b list"
  te_loss :: "nat \<Rightarrow> 'b \<Rightarrow> real"
  te_elapsed :: "nat \<Rightarrow> real"
  te_timed_out :: "nat \<Rightarrow> bool"

text \<open>
  A trainer process: its state, its loader, the job directory with the history of \<open>status.json\<close>, and
  the steps it has trained with their batches.
\<close>

record 'b trainer =
  tr_state :: train_state
  tr_loader :: "'b data_loader"
  tr_dir :: "ckpt directory"
  tr_status_history :: "entry list option"
  tr_trained :: "(nat \<times> 'b) list"

definition fresh_state :: train_state where
  "fresh_state = \<lparr>ts_current_step = 0, ts_epoch = None, ts_history = [], ts_should_stop = False\<rparr>"

definition start_trainer :: "'b train_env \<Rightarrow> ckpt directory \<Rightarrow> entry list option \<Rightarrow> 'b trainer" where
  "start_trainer env dir status_history =
     \<lparr>tr_state = fresh_state, tr_loader = data_loader_iter (te_batches env), tr_dir = dir,
      tr_status_history = status_history, tr_trained = []\<rparr>"

definition training_step :: "train_config \<Rightarrow> 'b train_env \<Rightarrow> 'b \<Rightarrow> 'b trainer \<Rightarrow> py_error + 'b trainer" where
  "training_step cfg env batch t =
     (let step = ts_current_step (tr_state t);
          t = t\<lparr>tr_trained := tr_trained t @ [(step, batch)]\<rparr> in
      bindE (update_history (tc_training_history_length cfg) (te_loss env step batch) (te_elapsed env step) (tr_state t))
        (\<lambda>st. Inr (t\<lparr>tr_state := st, tr_status_history := Some (ts_history st)\<rparr>)))"

definition checkpoint :: "train_config \<Rightarrow> 'b trainer \<Rightarrow> py_error + 'b trainer" where
  "checkpoint cfg t =
     bindE (from_option AttributeError (ts_epoch (tr_state t))) (\<lambda>epoch.
     bindE (save_checkpoint (tc_max_checkpoints_to_keep cfg) (ts_current_step (tr_state t))
              \<lparr>ck_step = ts_current_step (tr_state t), ck_epoch = epoch\<rparr> (tr_dir t)) (\<lambda>dir.
     Inr (t\<lparr>tr_dir := dir\<rparr>)))"

text \<open>The callbacks in their order: the timeout first, then the checkpoint.\<close>

definition timeout_on_step_end :: "'b train_env \<Rightarrow> nat \<Rightarrow> 'b trainer \<Rightarrow> 'b trainer" where
  "timeout_on_step_end env step t =
     (if te_timed_out env step then t\<lparr>tr_state := (tr_state t)\<lparr>ts_should_stop := True\<rparr>\<rparr> else t)"

definition checkpoint_on_step_end :: "train_config \<Rightarrow> nat \<Rightarrow> 'b trainer \<Rightarrow> py_error + 'b trainer" where
  "checkpoint_on_step_end cfg step t =
     bindE (raise_unless ZeroDivisionError (tc_steps_per_checkpoint cfg \<noteq> 0)) (\<lambda>_.
     if step mod tc_steps_per_checkpoint cfg = 0 \<and> step \<noteq> 0 then checkpoint cfg t else Inr t)"

definition on_step_end :: "train_config \<Rightarrow> 'b train_env \<Rightarrow> nat \<Rightarrow> 'b trainer \<Rightarrow> py_error + 'b trainer" where
  "on_step_end cfg env step t = checkpoint_on_step_end cfg step (timeout_on_step_end env step t)"

text \<open>The body of the \<open>for\<close> loop, and the loop with its \<open>break\<close>.\<close>

definition loop_body :: "train_config \<Rightarrow> 'b train_env \<Rightarrow> nat \<Rightarrow> 'b trainer \<Rightarrow> py_error + 'b trainer" where
  "loop_body cfg env step t =
     (let t = t\<lparr>tr_state := (tr_state t)\<lparr>ts_current_step := step, ts_epoch := Some (dl_epoch (tr_loader t))\<rparr>\<rparr> in
      bindE (data_loader_next (te_batches env) (tr_loader t)) (\<lambda>(batch, loader).
      bindE (training_step cfg env batch (t\<lparr>tr_loader := loader\<rparr>)) (\<lambda>t.
      on_step_end cfg env step t)))"

fun train_steps :: "train_config \<Rightarrow> 'b train_env \<Rightarrow> nat list \<Rightarrow> 'b trainer \<Rightarrow> py_error + 'b trainer" where
  "train_steps cfg env [] t = Inr t"
| "train_steps cfg env (step # steps) t =
     bindE (loop_body cfg env step t) (\<lambda>t.
     if ts_should_stop (tr_state t) then Inr t else train_steps cfg env steps t)"

definition resume_from_checkpoint :: "'b trainer \<Rightarrow> py_error + 'b trainer" where
  "resume_from_checkpoint t =
     bindE (get_latest_checkpoint_path (tr_dir t)) (\<lambda>path.
     bindE (from_option AttributeError path) (\<lambda>path.
     bindE (from_option FileNotFoundError (map_of (tr_dir t) path)) (\<lambda>c.
     bindE (from_option KeyError (tr_status_history t)) (\<lambda>history.
     Inr (t\<lparr>tr_state := (tr_state t)\<lparr>ts_current_step := ck_step c, ts_epoch := Some (ck_epoch c),
            ts_history := history\<rparr>\<rparr>)))))"

definition training_loop :: "train_config \<Rightarrow> 'b train_env \<Rightarrow> 'b trainer \<Rightarrow> py_error + 'b trainer" where
  "training_loop cfg env t =
     bindE (does_any_checkpoint_exist (tr_dir t)) (\<lambda>ex.
     bindE (if ex then resume_from_checkpoint t else Inr t) (\<lambda>t.
     train_steps cfg env [ts_current_step (tr_state t)..<tc_max_steps cfg] t))"

definition train :: "train_config \<Rightarrow> 'b train_env \<Rightarrow> 'b trainer \<Rightarrow> py_error + 'b trainer" where
  "train cfg env t = bindE (training_loop cfg env t) (checkpoint cfg)"

section \<open>Main rank\<close>

text \<open>\<open>main_rank_only\<close>: between two barriers, rank 0 runs the function and the others return \<open>None\<close>.\<close>

definition main_rank_only :: "nat \<Rightarrow> ('s \<Rightarrow> 'r \<times> 's) \<Rightarrow> 's \<Rightarrow> 'r option \<times> 's" where
  "main_rank_only rank f s = (if rank = 0 then let (r, s) = f s in (Some r, s) else (None, s))"

section \<open>Properties of the history\<close>

lemma pop_at_ends:
  assumes "0 < i" "Suc i < length xs"
  shows "hd (pop_at i xs) = hd xs" "last (pop_at i xs) = last xs" "subseq (pop_at i xs) xs" "pop_at i xs \<noteq> []"
proof -
  show "pop_at i xs \<noteq> []" "hd (pop_at i xs) = hd xs" using assms by (auto simp: pop_at_def hd_append)
  show "last (pop_at i xs) = last xs" using assms by (simp add: pop_at_def last_drop)
  have "drop i xs = xs ! i # drop (Suc i) xs" using assms by (simp add: Cons_nth_drop_Suc)
  then have "subseq (drop (Suc i) xs) (drop i xs)" by (metis list_emb_Cons subseq_order.order_refl)
  then have "subseq (take i xs @ drop (Suc i) xs) (take i xs @ drop i xs)"
    by (simp only: subseq_append_le_same_iff subseq_append')
  then show "subseq (pop_at i xs) xs" by (simp add: pop_at_def)
qed

lemma remove_closest_entry_spec:
  "2 \<le> max_length \<Longrightarrow>
     \<exists>h. remove_closest_entry history max_length = Inr h \<and> length h = min (length history) max_length \<and>
       subseq h history \<and> hd h = hd history \<and> last h = last history"
proof (induction history max_length rule: remove_closest_entry.induct)
  case (1 history max_length)
  show ?case
  proof (cases "length history > max_length")
    case True
    then obtain i where i: "closest_index history = Some i"
      using closest_index_None [of history] "1.prems" by (cases "closest_index history") auto
    note b = closest_index_bound [OF i]
    then have P: "hd (pop_at i history) = hd history" "last (pop_at i history) = last history"
      "subseq (pop_at i history) history" using pop_at_ends [of i history] by simp_all
    have "length (pop_at i history) = length history - 1" using b by (simp add: length_pop_at)
    then show ?thesis
      using "1.IH" [OF True i "1.prems"] P True i subseq_order.order_trans
      by (fastforce simp: remove_closest_entry.simps [of history])
  qed (simp add: remove_closest_entry.simps)
qed

lemma remove_closest_entry_error:
  "max_length < 2 \<Longrightarrow> length history > max_length \<Longrightarrow> remove_closest_entry history max_length = Inl TypeError"
proof (induction history max_length rule: remove_closest_entry.induct)
  case (1 history max_length)
  show ?case
  proof (cases "closest_index history")
    case None
    then show ?thesis using "1.prems" by (simp add: remove_closest_entry.simps [of history])
  next
    case (Some i)
    have "max_length < length history - 1" using closest_index_bound [OF Some] "1.prems"(1) by linarith
    then have "length (pop_at i history) > max_length"
      using closest_index_bound [OF Some] by (simp add: length_pop_at)
    then show ?thesis using "1.IH" [OF "1.prems"(2) Some "1.prems"(1)] "1.prems" Some
      by (simp add: remove_closest_entry.simps [of history])
  qed
qed

text \<open>A training run as the list of its steps with loss, epoch and elapsed time.\<close>

definition record_step :: "nat \<Rightarrow> nat \<times> real \<times> nat \<times> real \<Rightarrow> train_state \<Rightarrow> py_error + train_state" where
  "record_step max_len = (\<lambda>(step, loss, epoch, elapsed) st.
     update_history max_len loss elapsed (st\<lparr>ts_current_step := step, ts_epoch := Some epoch\<rparr>))"

definition step_entry :: "nat \<times> real \<times> nat \<times> real \<Rightarrow> entry" where
  "step_entry = (\<lambda>(step, loss, epoch, elapsed).
     \<lparr>e_step = int step, e_loss = loss, e_epoch = epoch, e_time = elapsed\<rparr>)"

lemma record_step_spec:
  assumes "2 \<le> max_len"
  shows "\<exists>st'. record_step max_len e st = Inr st' \<and>
    length (ts_history st') = min (Suc (length (ts_history st))) max_len \<and>
    subseq (ts_history st') (ts_history st @ [step_entry e]) \<and> last (ts_history st') = step_entry e \<and>
    (ts_history st \<noteq> [] \<longrightarrow> hd (ts_history st') = hd (ts_history st)) \<and>
    (ts_history st = [] \<longrightarrow> ts_history st' = [step_entry e])"
proof -
  obtain step loss epoch elapsed where e: "e = (step, loss, epoch, elapsed)" by (metis prod_cases4)
  let ?h = "ts_history st @ [step_entry e]"
  obtain h where h: "remove_closest_entry ?h max_len = Inr h" "length h = min (length ?h) max_len"
    "subseq h ?h" "hd h = hd ?h" "last h = last ?h"
    using remove_closest_entry_spec [OF assms] by blast
  show ?thesis using h assms
    by (auto simp: record_step_def update_history_def e step_entry_def Let_def hd_append)
qed

text \<open>
  C35. Bounded history: with a bound of at least two, after any run the history has
  \<open>min(steps, bound)\<close> entries, in order, and always holds the first and the latest step.
\<close>

theorem history_bounded_and_anchored:
  assumes "2 \<le> max_len" "es \<noteq> []"
  shows "\<exists>st. foldE (record_step max_len) es fresh_state = Inr st \<and>
    length (ts_history st) = min (length es) max_len \<and> subseq (ts_history st) (map step_entry es) \<and>
    hd (ts_history st) = step_entry (hd es) \<and> last (ts_history st) = step_entry (last es)"
  using assms(2)
proof (induction es rule: rev_induct)
  case (snoc e es)
  show ?case
  proof (cases "es = []")
    case True
    then show ?thesis using record_step_spec [OF assms(1), of e fresh_state] assms(1) by (auto simp: fresh_state_def)
  next
    case False
    then obtain st where st: "foldE (record_step max_len) es fresh_state = Inr st"
      "length (ts_history st) = min (length es) max_len" "subseq (ts_history st) (map step_entry es)"
      "hd (ts_history st) = step_entry (hd es)" "last (ts_history st) = step_entry (last es)" using snoc by blast
    have ne: "ts_history st \<noteq> []" using st(2) False assms(1) by (cases es) auto
    obtain st' where st': "record_step max_len e st = Inr st'"
      "length (ts_history st') = min (Suc (length (ts_history st))) max_len"
      "subseq (ts_history st') (ts_history st @ [step_entry e])" "last (ts_history st') = step_entry e"
      "hd (ts_history st') = hd (ts_history st)"
      using record_step_spec [OF assms(1), of e st] ne by blast
    have "subseq (ts_history st @ [step_entry e]) (map step_entry es @ [step_entry e])"
      using st(3) by (simp add: list_emb_append_mono)
    with st'(3) have "subseq (ts_history st') (map step_entry (es @ [e]))"
      by (metis subseq_order.order_trans list.simps(8,9) map_append)
    then show ?thesis using st st' False by (auto simp: foldE_append)
  qed
qed simp

theorem history_bounded_and_anchored_witness:
  "\<exists>st. foldE (record_step 2) [(0, 5, 0, 1), (1, 4, 0, 2), (2, 3, 1, 3)] fresh_state = Inr st \<and>
     length (ts_history st) = 2"
  using history_bounded_and_anchored [of 2 "[(0, 5, 0, 1), (1, 4, 0, 2), (2, 3, 1, 3)]"] by auto

text \<open>
  With a bound below two the first update over the bound raises: the search for an inner entry
  finds none and \<open>history.pop(None)\<close> is a \<open>TypeError\<close>.
\<close>

lemma history_short_bound_raises:
  assumes "max_len < 2" "length (ts_history st) = max_len" "ts_epoch st \<noteq> None"
  shows "update_history max_len loss elapsed st = Inl TypeError"
  using assms remove_closest_entry_error [of max_len] by (auto simp: update_history_def Let_def)

theorem history_short_bound_raises_witness:
  "update_history 0 1 1 (fresh_state\<lparr>ts_epoch := Some 0\<rparr>) = Inl TypeError"
  by (rule history_short_bound_raises) (simp_all add: fresh_state_def)

section \<open>Properties of the loop\<close>

definition config_ok :: "train_config \<Rightarrow> bool" where
  "config_ok cfg \<longleftrightarrow> tc_steps_per_checkpoint cfg \<noteq> 0 \<and> 1 \<le> tc_max_checkpoints_to_keep cfg \<and>
     2 \<le> tc_training_history_length cfg"

text \<open>Every checkpoint on disk is older than step \<open>n\<close>, or is the one of step \<open>n\<close>.\<close>

definition dir_ok :: "nat \<Rightarrow> 'c directory \<Rightarrow> bool" where
  "dir_ok n dir \<longleftrightarrow> distinct (map fst dir) \<and>
     (\<forall>g\<in>set (checkpoint_files dir). g \<noteq> checkpoint_name n \<longrightarrow> (\<exists>j. checkpoint_step g = Inr j \<and> j < int n))"

text \<open>The batches trained so far and those left are the epochs so far, in order.\<close>

definition in_order :: "'b train_env \<Rightarrow> 'b trainer \<Rightarrow> bool" where
  "in_order env t \<longleftrightarrow> map snd (tr_trained t) @ dl_left (tr_loader t) =
     concat (map (te_batches env) [0..<Suc (dl_epoch (tr_loader t))])"

lemma dir_ok_Suc: "dir_ok n dir \<Longrightarrow> dir_ok (Suc n) dir"
  unfolding dir_ok_def using checkpoint_step_name [of n] by fastforce

lemma checkpoint_ok:
  assumes "config_ok cfg" "dir_ok (ts_current_step (tr_state t)) (tr_dir t)" "ts_epoch (tr_state t) = Some e"
  shows "\<exists>dir'. checkpoint cfg t = Inr (t\<lparr>tr_dir := dir'\<rparr>) \<and> dir_ok (ts_current_step (tr_state t)) dir' \<and>
    get_latest_checkpoint_path dir' = Inr (Some (checkpoint_name (ts_current_step (tr_state t)))) \<and>
    map_of dir' (checkpoint_name (ts_current_step (tr_state t))) =
      Some \<lparr>ck_step = ts_current_step (tr_state t), ck_epoch = e\<rparr>"
proof -
  let ?n = "ts_current_step (tr_state t)"
  obtain dir' where d: "save_checkpoint (tc_max_checkpoints_to_keep cfg) ?n \<lparr>ck_step = ?n, ck_epoch = e\<rparr> (tr_dir t) = Inr dir'"
    "get_latest_checkpoint_path dir' = Inr (Some (checkpoint_name ?n))"
    "map_of dir' (checkpoint_name ?n) = Some \<lparr>ck_step = ?n, ck_epoch = e\<rparr>" "distinct (map fst dir')"
    "set (checkpoint_files dir') \<subseteq> insert (checkpoint_name ?n) (set (checkpoint_files (tr_dir t)))"
    using save_checkpoint_spec [of "tc_max_checkpoints_to_keep cfg" "tr_dir t" ?n "\<lparr>ck_step = ?n, ck_epoch = e\<rparr>"] assms(1,2)
    unfolding config_ok_def dir_ok_def by blast
  have "checkpoint cfg t = Inr (t\<lparr>tr_dir := dir'\<rparr>)" using d(1) assms(3) by (simp add: checkpoint_def)
  moreover have "dir_ok ?n dir'" using assms(2) d(4,5) unfolding dir_ok_def by blast
  ultimately show ?thesis using d(2,3) by blast
qed

lemma data_loader_next_ok:
  assumes "\<And>e. te_batches env e \<noteq> []" "in_order env t"
  shows "\<exists>b l. data_loader_next (te_batches env) (tr_loader t) = Inr (b, l) \<and>
    (map snd (tr_trained t) @ [b]) @ dl_left l = concat (map (te_batches env) [0..<Suc (dl_epoch l)])"
proof (cases "dl_left (tr_loader t)")
  case Nil
  obtain b bs where "te_batches env (dl_epoch (tr_loader t) + 1) = b # bs" using assms(1) by (metis neq_Nil_conv)
  then show ?thesis using Nil assms(2) by (auto simp: data_loader_next_def in_order_def Let_def)
next
  case (Cons b bs)
  then show ?thesis using assms(2) by (auto simp: data_loader_next_def in_order_def)
qed

lemma update_history_ok:
  assumes "2 \<le> max_len" "ts_epoch st \<noteq> None"
  shows "\<exists>h. update_history max_len loss elapsed st = Inr (st\<lparr>ts_history := h\<rparr>)"
  using remove_closest_entry_spec [OF assms(1)] assms(2)
  by (fastforce simp: update_history_def Let_def)

lemma loop_body_ok:
  assumes "config_ok cfg" "\<And>e. te_batches env e \<noteq> []" "in_order env t" "dir_ok n (tr_dir t)"
  shows "\<exists>t' b. loop_body cfg env n t = Inr t' \<and> tr_trained t' = tr_trained t @ [(n, b)] \<and>
    ts_current_step (tr_state t') = n \<and> ts_epoch (tr_state t') \<noteq> None \<and> dir_ok n (tr_dir t') \<and>
    ts_should_stop (tr_state t') = (ts_should_stop (tr_state t) \<or> te_timed_out env n) \<and>
    in_order env t' \<and> tr_status_history t' \<noteq> None"
proof -
  obtain b l where n: "data_loader_next (te_batches env) (tr_loader t) = Inr (b, l)"
    "(map snd (tr_trained t) @ [b]) @ dl_left l = concat (map (te_batches env) [0..<Suc (dl_epoch l)])"
    using data_loader_next_ok [OF assms(2,3)] by blast
  let ?st = "(tr_state t)\<lparr>ts_current_step := n, ts_epoch := Some (dl_epoch (tr_loader t))\<rparr>"
  obtain h where h: "update_history (tc_training_history_length cfg) (te_loss env n b) (te_elapsed env n) ?st
      = Inr (?st\<lparr>ts_history := h\<rparr>)"
    using update_history_ok [of "tc_training_history_length cfg" ?st] assms(1) by (auto simp: config_ok_def)
  define t1 where "t1 = timeout_on_step_end env n (t\<lparr>tr_loader := l,
    tr_trained := tr_trained t @ [(n, b)], tr_state := ?st\<lparr>ts_history := h\<rparr>, tr_status_history := Some h\<rparr>)"
  have t1: "tr_trained t1 = tr_trained t @ [(n, b)]" "ts_current_step (tr_state t1) = n"
    "ts_epoch (tr_state t1) = Some (dl_epoch (tr_loader t))" "tr_dir t1 = tr_dir t"
    "ts_should_stop (tr_state t1) = (ts_should_stop (tr_state t) \<or> te_timed_out env n)"
    "tr_loader t1 = l" "tr_status_history t1 = Some h"
    unfolding t1_def timeout_on_step_end_def by simp_all
  have io: "in_order env (t1\<lparr>tr_dir := d\<rparr>)" "in_order env t1" for d
    using n(2) t1 unfolding in_order_def by simp_all
  obtain d where d: "checkpoint cfg t1 = Inr (t1\<lparr>tr_dir := d\<rparr>)" "dir_ok n d"
    using checkpoint_ok [OF assms(1), of t1] assms(4) t1 by auto
  have b: "loop_body cfg env n t = checkpoint_on_step_end cfg n t1"
    using n(1) h by (simp add: loop_body_def training_step_def Let_def on_step_end_def t1_def)
  show ?thesis
  proof (cases "n mod tc_steps_per_checkpoint cfg = 0 \<and> n \<noteq> 0")
    case True
    then have "loop_body cfg env n t = Inr (t1\<lparr>tr_dir := d\<rparr>)"
      using b d(1) assms(1) by (simp add: checkpoint_on_step_end_def config_ok_def)
    then show ?thesis using io(1) [of d] d(2) t1 by auto
  next
    case False
    then have "loop_body cfg env n t = Inr t1"
      using b assms(1) by (auto simp: checkpoint_on_step_end_def config_ok_def)
    then show ?thesis using io(2) t1 assms(4) by auto
  qed
qed

text \<open>What a loop from step \<open>n\<close> to \<open>N\<close> does: it trains the steps up to some \<open>m\<close>, where it ended or timed out.\<close>

definition ran :: "'b train_env \<Rightarrow> nat \<Rightarrow> nat \<Rightarrow> nat \<Rightarrow> 'b trainer \<Rightarrow> 'b trainer \<Rightarrow> bool" where
  "ran env n m N t t' \<longleftrightarrow> n < m \<and> m \<le> N \<and> map fst (tr_trained t') = map fst (tr_trained t) @ [n..<m] \<and>
     ts_current_step (tr_state t') = m - 1 \<and> ts_epoch (tr_state t') \<noteq> None \<and> dir_ok (m - 1) (tr_dir t') \<and>
     (m < N \<longrightarrow> te_timed_out env (m - 1)) \<and> (\<forall>k. n \<le> k \<and> Suc k < m \<longrightarrow> \<not> te_timed_out env k) \<and>
     in_order env t' \<and> tr_status_history t' \<noteq> None"

lemma train_steps_ok:
  assumes "config_ok cfg" "\<And>e. te_batches env e \<noteq> []"
  shows "n < N \<Longrightarrow> in_order env t \<Longrightarrow> dir_ok n (tr_dir t) \<Longrightarrow> \<not> ts_should_stop (tr_state t) \<Longrightarrow>
    \<exists>t' m. train_steps cfg env [n..<N] t = Inr t' \<and> ran env n m N t t'"
proof (induction "N - n" arbitrary: n t)
  case (Suc d)
  obtain t1 b where t1: "loop_body cfg env n t = Inr t1" "tr_trained t1 = tr_trained t @ [(n, b)]"
    "ts_current_step (tr_state t1) = n" "ts_epoch (tr_state t1) \<noteq> None" "dir_ok n (tr_dir t1)"
    "ts_should_stop (tr_state t1) = te_timed_out env n" "in_order env t1" "tr_status_history t1 \<noteq> None"
    using loop_body_ok [OF assms Suc.prems(2,3)] Suc.prems(4) by auto
  have u: "[n..<N] = n # [Suc n..<N]" using Suc.prems(1) by (rule upt_conv_Cons)
  show ?case
  proof (cases "te_timed_out env n \<or> Suc n = N")
    case True
    then have "train_steps cfg env [n..<N] t = Inr t1" using t1(1,6) by (auto simp: u)
    moreover have "ran env n (Suc n) N t t1" using t1 True Suc.prems(1) by (auto simp: ran_def)
    ultimately show ?thesis by blast
  next
    case False
    have "d = N - Suc n" "Suc n < N" "\<not> ts_should_stop (tr_state t1)"
      using Suc.hyps(2) Suc.prems(1) False t1(6) by auto
    then obtain t' m where t': "train_steps cfg env [Suc n..<N] t1 = Inr t'" "ran env (Suc n) m N t1 t'"
      using Suc.hyps(1) [OF _ _ t1(7) dir_ok_Suc [OF t1(5)]] by blast
    have "\<forall>k. n \<le> k \<and> Suc k < m \<longrightarrow> \<not> te_timed_out env k"
      using t'(2) False unfolding ran_def by (metis Suc_leI le_neq_implies_less)
    moreover have "map fst (tr_trained t') = map fst (tr_trained t) @ [n..<m]"
      using t'(2) t1(2) by (auto simp: ran_def upt_conv_Cons)
    ultimately have "ran env n m N t t'" using t'(2) unfolding ran_def by auto
    then show ?thesis using t1(1,6) t'(1) False by (auto simp: u)
  qed
qed simp

text \<open>A run from \<open>n\<close> with the final checkpoint.\<close>

lemma train_ok:
  assumes "config_ok cfg" "\<And>e. te_batches env e \<noteq> []" "n < tc_max_steps cfg"
    and "bindE (does_any_checkpoint_exist (tr_dir t)) (\<lambda>ex. if ex then resume_from_checkpoint t else Inr t) = Inr t0"
    and "ts_current_step (tr_state t0) = n" "in_order env t0" "dir_ok n (tr_dir t0)" "\<not> ts_should_stop (tr_state t0)"
  shows "\<exists>t' m e. train cfg env t = Inr t' \<and> ran env n m (tc_max_steps cfg) t0 t' \<and>
    get_latest_checkpoint_path (tr_dir t') = Inr (Some (checkpoint_name (m - 1))) \<and>
    map_of (tr_dir t') (checkpoint_name (m - 1)) = Some \<lparr>ck_step = m - 1, ck_epoch = e\<rparr>"
proof -
  obtain t1 m where t1: "train_steps cfg env [n..<tc_max_steps cfg] t0 = Inr t1" "ran env n m (tc_max_steps cfg) t0 t1"
    using train_steps_ok [OF assms(1,2,3,6,7,8)] by blast
  obtain ex where "does_any_checkpoint_exist (tr_dir t) = Inr ex"
    "(if ex then resume_from_checkpoint t else Inr t) = Inr t0"
    using assms(4) unfolding bindE_eq_Inr by blast
  then have l: "training_loop cfg env t = Inr t1" using t1(1) assms(5) by (simp add: training_loop_def)
  obtain e where e: "ts_epoch (tr_state t1) = Some e" using t1(2) by (auto simp: ran_def)
  have c: "ts_current_step (tr_state t1) = m - 1" using t1(2) by (simp add: ran_def)
  have "dir_ok (ts_current_step (tr_state t1)) (tr_dir t1)" using t1(2) c by (simp add: ran_def)
  from checkpoint_ok [OF assms(1) this e] obtain d where d: "checkpoint cfg t1 = Inr (t1\<lparr>tr_dir := d\<rparr>)" "dir_ok (m - 1) d"
    "get_latest_checkpoint_path d = Inr (Some (checkpoint_name (m - 1)))"
    "map_of d (checkpoint_name (m - 1)) = Some \<lparr>ck_step = m - 1, ck_epoch = e\<rparr>" using c by auto
  have "ran env n m (tc_max_steps cfg) t0 (t1\<lparr>tr_dir := d\<rparr>)"
    using t1(2) d(2) by (simp add: ran_def in_order_def)
  moreover have "train cfg env t = Inr (t1\<lparr>tr_dir := d\<rparr>)" using l d(1) by (simp add: train_def)
  moreover have "tr_dir (t1\<lparr>tr_dir := d\<rparr>) = d" by simp
  ultimately show ?thesis using d(3,4) by metis
qed

lemma in_order_start: "in_order env (start_trainer env dir h)"
  by (simp add: in_order_def start_trainer_def data_loader_iter_def)

lemma scratch_ok:
  assumes "config_ok cfg" "\<And>e. te_batches env e \<noteq> []" "0 < tc_max_steps cfg"
    and "checkpoint_files dir = []" "distinct (map fst dir)"
  shows "\<exists>t m e. train cfg env (start_trainer env dir h) = Inr t \<and>
    ran env 0 m (tc_max_steps cfg) (start_trainer env dir h) t \<and>
    get_latest_checkpoint_path (tr_dir t) = Inr (Some (checkpoint_name (m - 1))) \<and>
    map_of (tr_dir t) (checkpoint_name (m - 1)) = Some \<lparr>ck_step = m - 1, ck_epoch = e\<rparr>"
proof -
  let ?t = "start_trainer env dir h"
  have "get_latest_checkpoint_path dir = Inr None" using assms(4) by (simp add: get_latest_checkpoint_path_def)
  then have "bindE (does_any_checkpoint_exist (tr_dir ?t)) (\<lambda>ex. if ex then resume_from_checkpoint ?t else Inr ?t) = Inr ?t"
    by (simp add: does_any_checkpoint_exist_def start_trainer_def)
  from train_ok [where t = ?t, OF assms(1-3) this _ in_order_start] show ?thesis
    using assms(4,5) by (auto simp: start_trainer_def fresh_state_def dir_ok_def)
qed

text \<open>
  C27. A job without checkpoints, whose epochs all have batches, trains the steps
  \<open>0, \<dots>, m - 1\<close> once each, up to \<open>max_steps\<close> or to the first step that ends after the timeout; the
  batches are those of the epochs in order; and the last trained step is the latest checkpoint.
\<close>

theorem train_from_scratch:
  assumes "config_ok cfg" "\<And>e. te_batches env e \<noteq> []" "0 < tc_max_steps cfg"
    and "checkpoint_files dir = []" "distinct (map fst dir)"
  shows "\<exists>t m e. train cfg env (start_trainer env dir h) = Inr t \<and> 0 < m \<and> m \<le> tc_max_steps cfg \<and>
    map fst (tr_trained t) = [0..<m] \<and>
    map snd (tr_trained t) @ dl_left (tr_loader t) = concat (map (te_batches env) [0..<Suc (dl_epoch (tr_loader t))]) \<and>
    (m < tc_max_steps cfg \<longrightarrow> te_timed_out env (m - 1)) \<and> (\<forall>k. Suc k < m \<longrightarrow> \<not> te_timed_out env k) \<and>
    get_latest_checkpoint_path (tr_dir t) = Inr (Some (checkpoint_name (m - 1))) \<and>
    map_of (tr_dir t) (checkpoint_name (m - 1)) = Some \<lparr>ck_step = m - 1, ck_epoch = e\<rparr>"
proof -
  have "tr_trained (start_trainer env dir h) = []" by (simp add: start_trainer_def)
  then show ?thesis using scratch_ok [OF assms, of h] unfolding ran_def in_order_def by auto
qed

definition ex_cfg :: train_config where
  "ex_cfg = \<lparr>tc_max_steps = 3, tc_steps_per_checkpoint = 2, tc_max_checkpoints_to_keep = 1, tc_training_history_length = 2\<rparr>"

definition ex_env :: "nat train_env" where
  "ex_env = \<lparr>te_batches = (\<lambda>e. [10 * e, 10 * e + 1]), te_loss = (\<lambda>_ _. 1), te_elapsed = real, te_timed_out = (\<lambda>_. False)\<rparr>"

theorem train_from_scratch_witness:
  "\<exists>t. train ex_cfg ex_env (start_trainer ex_env [(''status.json'', \<lparr>ck_step = 0, ck_epoch = 0\<rparr>)] None) = Inr t \<and>
     map fst (tr_trained t) = [0, 1, 2]"
proof -
  obtain t m where "train ex_cfg ex_env (start_trainer ex_env [(''status.json'', \<lparr>ck_step = 0, ck_epoch = 0\<rparr>)] None) = Inr t"
    "map fst (tr_trained t) = [0..<m]" "m \<le> 3" "m < 3 \<longrightarrow> te_timed_out ex_env (m - 1)"
    using train_from_scratch [of ex_cfg ex_env "[(''status.json'', \<lparr>ck_step = 0, ck_epoch = 0\<rparr>)]" None]
    by (auto simp: ex_cfg_def ex_env_def config_ok_def checkpoint_files_def is_checkpoint_name_def)
  then show ?thesis by (auto simp: ex_env_def upt_rec numeral_3_eq_3)
qed

lemma resume_ok:
  assumes "config_ok cfg" "\<And>e. te_batches env e \<noteq> []" "s < tc_max_steps cfg"
    and "get_latest_checkpoint_path dir = Inr (Some (checkpoint_name s))" "dir_ok s dir"
    and "map_of dir (checkpoint_name s) = Some \<lparr>ck_step = s, ck_epoch = ep\<rparr>"
  shows "\<exists>t m. train cfg env (start_trainer env dir (Some h)) = Inr t \<and> s < m \<and> map fst (tr_trained t) = [s..<m] \<and>
    snd (hd (tr_trained t)) = hd (te_batches env 0)"
proof -
  let ?t = "start_trainer env dir (Some h)"
  let ?u = "?t\<lparr>tr_state := (tr_state ?t)\<lparr>ts_current_step := s, ts_epoch := Some ep, ts_history := h\<rparr>\<rparr>"
  have "resume_from_checkpoint ?t = Inr ?u"
    using assms(4,6) by (simp add: resume_from_checkpoint_def start_trainer_def)
  then have "bindE (does_any_checkpoint_exist (tr_dir ?t)) (\<lambda>ex. if ex then resume_from_checkpoint ?t else Inr ?t) = Inr ?u"
    using assms(4) by (simp add: does_any_checkpoint_exist_def start_trainer_def)
  from train_ok [where t = ?t, OF assms(1-3) this] obtain t m where
    t: "train cfg env ?t = Inr t" "ran env s m (tc_max_steps cfg) ?u t"
    using assms(5) in_order_start [of env dir "Some h"]
    by (auto simp: start_trainer_def fresh_state_def in_order_def)
  have n: "map fst (tr_trained t) = [s..<m]" "s < m" "in_order env t" using t(2) by (auto simp: ran_def start_trainer_def)
  then have "map fst (tr_trained t) \<noteq> []" by simp
  then have "tr_trained t \<noteq> []" by auto
  moreover have "te_batches env 0 \<noteq> []" using assms(2) .
  ultimately have "snd (hd (tr_trained t)) = hd (te_batches env 0)"
    using n(3) unfolding in_order_def by (cases "tr_trained t", simp_all add: upt_conv_Cons hd_append del: upt_Suc) (metis hd_append2 list.sel(1))
  then show ?thesis using t(1) n by blast
qed

text \<open>
  Resumption repeats a step: after a run that trained the steps \<open>0, \<dots>, m - 1\<close>, a process started
  on the directory and the status it left behind, with more steps to do, begins with step \<open>m - 1\<close>
  again, and on the first batch of epoch 0.
\<close>

lemma resume_repeats_last_step:
  assumes "config_ok cfg" "config_ok cfg'" "\<And>e. te_batches env e \<noteq> []"
    and "0 < tc_max_steps cfg" "tc_max_steps cfg \<le> tc_max_steps cfg'"
    and "checkpoint_files dir = []" "distinct (map fst dir)"
    and "train cfg env (start_trainer env dir h) = Inr t" and env': "\<And>e. te_batches env' e \<noteq> []"
  shows "\<exists>t'. train cfg' env' (start_trainer env' (tr_dir t) (tr_status_history t)) = Inr t' \<and> tr_trained t' \<noteq> [] \<and>
    fst (hd (tr_trained t')) = fst (last (tr_trained t)) \<and> snd (hd (tr_trained t')) = hd (te_batches env' 0)"
proof -
  obtain m e where m: "ran env 0 m (tc_max_steps cfg) (start_trainer env dir h) t"
    "get_latest_checkpoint_path (tr_dir t) = Inr (Some (checkpoint_name (m - 1)))"
    "map_of (tr_dir t) (checkpoint_name (m - 1)) = Some \<lparr>ck_step = m - 1, ck_epoch = e\<rparr>"
    using scratch_ok [OF assms(1,3,4,6,7), of h] assms(8) by auto
  have r: "0 < m" "m - 1 < tc_max_steps cfg'" "dir_ok (m - 1) (tr_dir t)" "map fst (tr_trained t) = [0..<m]"
    using m(1) assms(5) by (auto simp: ran_def start_trainer_def)
  obtain h' where h': "tr_status_history t = Some h'" using m(1) by (auto simp: ran_def)
  obtain t' m' where t': "train cfg' env' (start_trainer env' (tr_dir t) (Some h')) = Inr t'" "m - 1 < m'"
    "map fst (tr_trained t') = [m - 1..<m']" "snd (hd (tr_trained t')) = hd (te_batches env' 0)"
    using resume_ok [OF assms(2) env' r(2) m(2) r(3) m(3)] by blast
  have ne: "map fst (tr_trained t') \<noteq> []" "map fst (tr_trained t) \<noteq> []" using t'(2,3) r(1,4) by simp_all
  then have "fst (hd (tr_trained t')) = m - 1" using t'(2,3) by (metis hd_map hd_upt map_is_Nil_conv)
  moreover have "fst (last (tr_trained t)) = m - 1"
    using ne(2) r(1,4) by (metis last_map last_upt map_is_Nil_conv)
  moreover have "tr_trained t' \<noteq> []" using ne(1) by blast
  ultimately show ?thesis using t'(1,4) h' by (metis (no_types))
qed

lemma resume_repeats_last_step_witness:
  "\<exists>t t'. train ex_cfg ex_env (start_trainer ex_env [] None) = Inr t \<and>
     train (ex_cfg\<lparr>tc_max_steps := 5\<rparr>) ex_env (start_trainer ex_env (tr_dir t) (tr_status_history t)) = Inr t' \<and>
     fst (hd (tr_trained t')) = fst (last (tr_trained t))"
proof -
  have c: "config_ok ex_cfg" "config_ok (ex_cfg\<lparr>tc_max_steps := 5\<rparr>)" "te_batches ex_env e \<noteq> []" for e
    by (simp_all add: ex_cfg_def ex_env_def config_ok_def)
  obtain t where t: "train ex_cfg ex_env (start_trainer ex_env [] None) = Inr t"
    using scratch_ok [OF c(1,3), of "[]" None] by (auto simp: ex_cfg_def checkpoint_files_def)
  have "0 < tc_max_steps ex_cfg" "tc_max_steps ex_cfg \<le> tc_max_steps (ex_cfg\<lparr>tc_max_steps := 5\<rparr>)"
    "checkpoint_files ([] :: ckpt directory) = []" "distinct (map fst ([] :: ckpt directory))"
    by (simp_all add: ex_cfg_def checkpoint_files_def)
  from resume_repeats_last_step [OF c(1,2,3) this t c(3)] show ?thesis using t by blast
qed

end
