(* ===== verification/Spec2Isabelle.thy ===== *)
theory Spec2Isabelle
  imports Block_Table Manager_Refinement Evictor Scheduler_Abort Streaming Incremental_Text Multi_Step Engine_Answers
    Engine_Requests Manager_V1_Facts Prefix_Facts Work_Queue Fsdp Training
begin

text \<open>
  A verification library for ScalarLM: the parts of the serving engine (the vendored-in vLLM core under
  \<open>src/infra/cray_infra/vllm\<close>), of the inference services and of the training jobs that carry logic of
  their own, modelled from the source, with the properties that make them correct.

  The program. A client posts prompts to the API server (\<open>api/fastapi\<close>); they are put into the inference
  work queue. A generator worker fetches them with \<open>get_work\<close>, feeds them to the serving engine and
  posts the answers back with \<open>finish_work\<close>, while the server polls the queue for the answers of its
  request. In the engine a request is a sequence group with one or more sequences. At each step the
  scheduler moves groups between its waiting, running and swapped queue, asks the block space manager for
  KV-cache blocks, and builds the batch for the workers. Blocks are owned by block tables, one for each
  sequence, over an allocator with one pool of blocks for each device, reference counts and
  copy-on-write. The output of the model is appended to the sequences, turned into text and checked for stop
  conditions by an output processor, and the engine answers the requests. Training jobs (\<open>ml/cray_megatron\<close>)
  read a data set split over the ranks, train with fully sharded parameters, and leave checkpoints that the
  server picks up as new models.

  Theories, in the order of the imports.

  \<^item> \<open>Prelude\<close>: the sum type of results with the exceptions of the program, its bind, and the list and
    map facts that the components share.
  \<^item> \<open>Block_Common\<close> (\<open>core/block/common.py\<close>): reference counters, copy-on-write tracker, block pool,
    block lists. A block object is an entry of a pool, because the code shares and mutates them.
  \<^item> \<open>Block_Interfaces\<close> (\<open>core/block/interfaces.py\<close>): the abstract allocators as records of operations,
    and their contracts as the locales \<open>block_allocator\<close> and \<open>device_allocator\<close>.
  \<^item> \<open>Naive_Block\<close>, \<open>Naive_Reach\<close> (\<open>core/block/naive_block.py\<close>): the allocator without prefix caching,
    the interpretation of \<open>block_allocator\<close>, and the reachable states, with the invariants that count
    references and keep shared blocks coherent.
  \<^item> \<open>Cpu_Gpu_Allocator\<close>, \<open>Block_Table\<close> (\<open>cpu_gpu_block_allocator.py\<close>, \<open>block_table.py\<close>): the allocator of
    two devices, for any allocators with the contract, and the block tables as a refinement of lists of
    tokens.
  \<^item> \<open>Sequence\<close> (\<open>vllm/sequence.py\<close>): sequences, groups and the deltas that keep the copy of a worker in
    step.
  \<^item> \<open>Manager_Interface\<close>, \<open>Scheduler\<close> (\<open>core/interfaces.py\<close>, \<open>core/scheduler.py\<close>): the whole scheduler
    over an arbitrary block space manager. \<open>Scheduler_Queues\<close>, \<open>Scheduler_Status\<close>, \<open>Scheduler_Budget\<close> and
    \<open>Scheduler_Abort\<close> show that a step loses no request, keeps the statuses in step with the queues,
    stays within the token budget, and what aborting does.
  \<^item> \<open>Block_Manager\<close>, \<open>Manager_Refinement\<close> (\<open>core/block_manager_v2.py\<close>): the block space manager with a
    table for each sequence, and its runs as a refinement of a map from sequences to tokens.
  \<^item> \<open>Evictor\<close> (\<open>core/evictor_v2.py\<close>): the unreferenced cached blocks and the order of eviction.
  \<^item> \<open>Prefix_Caching\<close> (\<open>core/block/prefix_caching_block.py\<close>): blocks with content hashes and the allocator that
    shares full blocks by hash. \<open>Prefix_Books\<close> keeps its books: every block is free, evictable or in use.
    \<open>Prefix_Content\<close> names an object by the chain of objects before it and says what a hash means;
    \<open>Prefix_Steps\<close> and \<open>Prefix_Tables\<close> show that each operation keeps both; \<open>Prefix_Reach\<close> and
    \<open>Prefix_Facts\<close> are the reachable states and what follows for clients: sharing is sound up to collisions of
    hashes, cached prefixes are found, blocks are accounted for. Swapping is modelled, but no step of these runs.
  \<^item> \<open>Block_Allocator_V1\<close>, \<open>Block_Manager_V1\<close> (\<open>vllm/block.py\<close>, \<open>core/evictor_v1.py\<close>,
    \<open>core/block_manager_v1.py\<close>): the first block space manager. Block objects live in a store, a table is a list
    of references. \<open>Manager_V1_Blocks\<close>, \<open>Manager_V1_Runs\<close>, \<open>Manager_V1_Swaps\<close> and \<open>Manager_V1_Facts\<close>: the account
    of its blocks in all runs, that its answers hold, and that swapping renames blocks injectively.
  \<^item> \<open>Sampling_Params\<close>, \<open>Stop_Checker\<close>, \<open>Detokenizer\<close>, \<open>Output_Processor\<close> (\<open>sampling_params.py\<close>,
    \<open>engine/output_processor\<close>, \<open>transformers_utils/detokenizer.py\<close>): how tokens become text and when a sequence
    stops. \<open>Streaming\<close>, \<open>Incremental_Text\<close> and \<open>Multi_Step\<close> show that text once sent stays, that the length
    limit holds, that the pieces of text add up to the text of all tokens, and that a burst of tokens does
    what single steps do.
  \<^item> \<open>Request_Output\<close>, \<open>Engine\<close>, \<open>Engine_Requests\<close>, \<open>Engine_Answers\<close> (\<open>outputs.py\<close>, \<open>engine/llm_engine.py\<close>):
    adding and aborting requests, the step of the engine over its schedulers, and the answers: each request
    of a batch is answered once, and requests are spread evenly over the schedulers.
  \<^item> \<open>Work_Queue\<close> (\<open>api/work_queue\<close>, \<open>api/fastapi/generate\<close>, \<open>generate/metrics.py\<close>): the queue, the handlers
    and the metrics, with the protocol between server and worker.
  \<^item> \<open>Fsdp\<close> (\<open>training/distribution_strategy/fsdp\<close>): sharding, gathering and reducing of tensors, and the
    state that a checkpoint stores.
  \<^item> \<open>Checkpoints\<close>, \<open>Dataset\<close>, \<open>Training\<close> (\<open>ml/cray_megatron\<close>): checkpoint files, data loading and the
    training loop with resuming and timeouts.

  Conventions. A class is a record; an object that the code shares is a reference into a store (blocks in
  a pool, groups in \<open>sc_groups\<close>). An operation takes the state and returns \<open>Inr\<close> of the result and the new
  state, or \<open>Inl\<close> of the exception; an assertion is an exception. Integers of Python are \<open>nat\<close> where the
  code keeps them non-negative and \<open>int\<close> where it subtracts. Clocks, random ids and results of code
  outside the repository (the file system, the model, torch collectives) are arguments.

  Bounds and fuel. Recursion over the objects of a block chain is bounded by the argument \<open>depth\<close>, as by
  Python's recursion limit; the interpretations take it larger than the chain, and the facts on hashes say
  how long a chain it serves. All other loops recurse over a list or have a termination proof.

  Not modelled: model execution, attention kernels, layers and quantization, embedding models beyond their
  block manager, distributed communication, adapters and speculative decoding: they compute on tensors and
  devices. Configuration parsing, the OpenAI entry points, statistics and tracing: they check or reshape data for
  libraries outside of the repository. The asynchronous engine: tasks of asyncio around the engine modelled here.
  Job directories and deployment: they call slurm, the file system and docker.
\<close>

end
